(* ===== verification/Prelude.thy ===== *)
theory Prelude
  imports Main "HOL-Library.Word"
begin

text \<open>
  The prelude of the development: the collections its proofs draw on, the machine integer
  types and conversions of the C code, the rectangle type the whole compositor shares
  (wlroots' wlr_box, src/somewm_types.h area_t), and the list lemmas used by more than one
  component.
\<close>

named_theorems frame_simps \<open>what an operation leaves unchanged\<close>
named_theorems op_defs \<open>definitions of the small operations a proof may unfold\<close>

subsection \<open>Machine integers\<close>

type_synonym u8 = "8 word"
type_synonym u16 = "16 word"
type_synonym u32 = "32 word"
type_synonym u64 = "64 word"

text \<open>C's division of int truncates towards zero.\<close>

definition c_div :: "int \<Rightarrow> int \<Rightarrow> int" where
  "c_div a b = sgn a * sgn b * (\<bar>a\<bar> div \<bar>b\<bar>)"

lemma c_div_nonneg: "0 \<le> a \<Longrightarrow> 0 < b \<Longrightarrow> c_div a b = a div b"
  by (cases "a = 0") (simp_all add: c_div_def)

lemma c_div_two_bounds:
  assumes "0 \<le> w" shows "0 \<le> c_div w 2" and "2 * c_div w 2 \<le> w" and "w \<le> 2 * c_div w 2 + 1"
proof -
  have eq: "c_div w 2 = w div 2" using assms by (intro c_div_nonneg) auto
  show "0 \<le> c_div w 2" using assms unfolding eq by simp
  show "2 * c_div w 2 \<le> w" unfolding eq by linarith
  show "w \<le> 2 * c_div w 2 + 1" unfolding eq by linarith
qed

text \<open>The conversion of a C int to unsigned int, and to uint16_t.\<close>

definition to_u32 :: "int \<Rightarrow> int" where
  "to_u32 a = a mod 2 ^ 32"

definition to_u16 :: "int \<Rightarrow> int" where
  "to_u16 a = a mod 2 ^ 16"

text \<open>The conversion to a 32-bit int, which gcc and clang take modulo 2^32.\<close>

definition to_i32 :: "int \<Rightarrow> int" where
  "to_i32 a = (a + 2 ^ 31) mod 2 ^ 32 - 2 ^ 31"

lemma to_i32_id: "- (2 ^ 31) \<le> a \<Longrightarrow> a < 2 ^ 31 \<Longrightarrow> to_i32 a = a"
  by (simp add: to_i32_def)

lemma to_u32_bounds: "0 \<le> to_u32 a" "to_u32 a < 2 ^ 32"
  by (simp_all add: to_u32_def)

lemma to_u16_id: "0 \<le> a \<Longrightarrow> a < 2 ^ 16 \<Longrightarrow> to_u16 a = a"
  by (simp add: to_u16_def)

subsection \<open>Rectangles\<close>

text \<open>wlr_box, which objects/client.h calls area_t.\<close>

record area =
  ax :: int
  ay :: int
  aw :: int
  ah :: int

definition AREA_EQUAL :: "area \<Rightarrow> area \<Rightarrow> bool" where
  "AREA_EQUAL a b \<longleftrightarrow> ax a = ax b \<and> ay a = ay b \<and> aw a = aw b \<and> ah a = ah b"

lemma AREA_EQUAL_iff [simp]: "AREA_EQUAL a b \<longleftrightarrow> a = b"
  by (cases a; cases b) (auto simp: AREA_EQUAL_def)

definition box :: "int \<Rightarrow> int \<Rightarrow> int \<Rightarrow> int \<Rightarrow> area" where
  "box x y w h = \<lparr>ax = x, ay = y, aw = w, ah = h\<rparr>"

lemma box_sel [simp]:
  "ax (box x y w h) = x" "ay (box x y w h) = y" "aw (box x y w h) = w" "ah (box x y w h) = h"
  by (simp_all add: box_def)

subsection \<open>Lists\<close>

text \<open>The index of the first element equal to the given one, as the search loops find it.\<close>

fun index_of :: "'a \<Rightarrow> 'a list \<Rightarrow> nat option" where
  "index_of x [] = None"
| "index_of x (y # ys) = (if y = x then Some 0 else map_option Suc (index_of x ys))"

lemma index_of_None: "index_of x xs = None \<longleftrightarrow> x \<notin> set xs"
  by (induction xs) auto

lemma index_of_Some:
  "index_of x xs = Some i \<Longrightarrow> i < length xs \<and> xs ! i = x \<and> (\<forall>j < i. xs ! j \<noteq> x)"
proof (induction xs arbitrary: i)
  case Nil
  then show ?case by simp
next
  case (Cons y ys)
  show ?case
  proof (cases "y = x")
    case True
    with Cons.prems show ?thesis by auto
  next
    case False
    with Cons.prems obtain k where k: "index_of x ys = Some k" and i: "i = Suc k" by auto
    from Cons.IH [OF k] False show ?thesis by (auto simp: i nth_Cons split: nat.splits)
  qed
qed

lemma remove_at_index: "index_of x xs = Some i \<Longrightarrow> take i xs @ drop (Suc i) xs = remove1 x xs"
proof (induction xs arbitrary: i)
  case Nil
  then show ?case by simp
next
  case (Cons y ys)
  then show ?case by (cases "y = x") (auto split: option.splits)
qed

lemma remove1_append_fresh: "x \<notin> set xs \<Longrightarrow> remove1 x (xs @ x # ys) = xs @ ys"
  by (simp add: remove1_append)

lemma filter_remove1: "filter P (remove1 x xs) = (if P x then remove1 x (filter P xs) else filter P xs)"
  by (induction xs) auto

lemma set_take_subset_set: "set (take n xs) \<subseteq> set xs"
  by (rule set_take_subset)

end
