(* ===== verification/Arrays.thy ===== *)
theory Arrays
  imports Prelude "HOL-Library.Multiset"
begin

text \<open>
  The generic arrays of src/common/array.h (the ARRAY_TYPE, ARRAY_FUNCS and BARRAY_FUNCS
  macros) and the hand-written variant of src/objects/key.c. The first part keeps the memory
  the C code manages: an array is its allocated cells and a length, and growing, moving and
  copying are written out on the cells. The locale dyn_array is the contract the rest of the
  program relies on, interpreted by both implementations. The second part is the ordered
  array: binary search insertion, bsearch lookup and bulk insertion with qsort, correct for
  every comparator that meets the locale barray.
\<close>

subsection \<open>Memory level\<close>

text \<open>tab has size cells, of which the first len are in use; None is a cell never written.\<close>

record 'a array =
  cells :: "'a option list"
  alen :: nat

definition array_init :: "'a array" where
  "array_init = \<lparr>cells = [], alen = 0\<rparr>"

definition p_alloc_nr :: "nat \<Rightarrow> nat" where
  "p_alloc_nr x = (x + 16) * 3 div 2"

definition p_grow :: "nat \<Rightarrow> nat \<Rightarrow> nat" where
  "p_grow goalnb allocnb =
     (if goalnb > allocnb
      then (if p_alloc_nr allocnb < goalnb then goalnb else p_alloc_nr allocnb)
      else allocnb)"

definition p_growx :: "nat \<Rightarrow> nat \<Rightarrow> nat" where
  "p_growx goalnb allocnb = (if goalnb > allocnb then goalnb else allocnb)"

definition realloc_cells :: "nat \<Rightarrow> 'a option list \<Rightarrow> 'a option list" where
  "realloc_cells n cs = take n cs @ replicate (n - length cs) None"

definition array_grow :: "'a array \<Rightarrow> nat \<Rightarrow> 'a array" where
  "array_grow a newlen = a\<lparr>cells := realloc_cells (p_grow newlen (length (cells a))) (cells a)\<rparr>"

definition array_growx :: "'a array \<Rightarrow> nat \<Rightarrow> 'a array" where
  "array_growx a newlen = a\<lparr>cells := realloc_cells (p_growx newlen (length (cells a))) (cells a)\<rparr>"

definition move_cells :: "nat \<Rightarrow> nat \<Rightarrow> nat \<Rightarrow> 'a option list \<Rightarrow> 'a option list" where
  "move_cells dst src n cs = take dst cs @ take n (drop src cs) @ drop (dst + n) cs"

definition copy_cells :: "nat \<Rightarrow> 'a list \<Rightarrow> 'a option list \<Rightarrow> 'a option list" where
  "copy_cells dst items cs = take dst cs @ map Some items @ drop (dst + length items) cs"

text \<open>
  array_splice; its two asserts are the None branch. A NULL items pointer with count 0 is the
  empty list.
\<close>

definition array_splice :: "'a array \<Rightarrow> nat \<Rightarrow> nat \<Rightarrow> 'a list \<Rightarrow> 'a array option" where
  "array_splice arr pos len items =
     (let count = length items in
      if \<not> (pos \<le> alen arr \<and> pos + len \<le> alen arr) then None
      else
        let arr1 =
          (if len \<noteq> count then
             (let g = array_grow arr (alen arr + count - len);
                  m = (if alen arr - pos - len > 0
                       then g\<lparr>cells := move_cells (pos + count) (pos + len)
                                          (alen arr - pos - len) (cells g)\<rparr>
                       else g)
              in m\<lparr>alen := alen arr + count - len\<rparr>)
           else arr)
        in Some (if count > 0 then arr1\<lparr>cells := copy_cells pos items (cells arr1)\<rparr> else arr1))"

definition array_take :: "'a array \<Rightarrow> nat \<Rightarrow> ('a \<times> 'a array) option" where
  "array_take arr pos =
     (case array_splice arr pos 1 [] of
        None \<Rightarrow> None
      | Some arr' \<Rightarrow> map_option (\<lambda>res. (res, arr')) (cells arr ! pos))"

definition array_push :: "'a array \<Rightarrow> 'a \<Rightarrow> 'a array option" where
  "array_push arr e = array_splice arr 0 0 [e]"

definition array_append :: "'a array \<Rightarrow> 'a \<Rightarrow> 'a array" where
  "array_append arr e =
     (let g = array_grow arr (alen arr + 1)
      in g\<lparr>cells := (cells g)[alen arr := Some e], alen := alen arr + 1\<rparr>)"

text \<open>The array list.\<close>

definition elems :: "'a array \<Rightarrow> 'a list" where
  "elems arr = map the (take (alen arr) (cells arr))"

definition wf_array :: "'a array \<Rightarrow> bool" where
  "wf_array arr \<longleftrightarrow> alen arr \<le> length (cells arr) \<and> None \<notin> set (take (alen arr) (cells arr))"

lemma wf_arrayD:
  assumes "wf_array arr"
  obtains junk where "cells arr = map Some (elems arr) @ junk" and "alen arr = length (elems arr)"
proof
  have "map Some (map the xs) = xs" if "None \<notin> set xs" for xs :: "'a option list"
    using that by (induction xs) auto
  then have "map Some (elems arr) = take (alen arr) (cells arr)"
    using assms unfolding elems_def wf_array_def by blast
  then show "cells arr = map Some (elems arr) @ drop (alen arr) (cells arr)" by simp
  show "alen arr = length (elems arr)" using assms by (simp add: elems_def wf_array_def)
qed

lemma wf_arrayI:
  assumes "cells arr = map Some xs @ junk" and "alen arr = length xs"
  shows "wf_array arr" and "elems arr = xs"
  using assms by (auto simp: wf_array_def elems_def comp_def)

lemma array_init_wf [simp]: "wf_array array_init" "elems array_init = []"
  by (simp_all add: array_init_def wf_array_def elems_def)

lemma p_grow_ge: "goalnb \<le> p_grow goalnb n" "n \<le> p_grow goalnb n"
  by (auto simp: p_grow_def p_alloc_nr_def)

lemma realloc_cells_extend:
  "length cs \<le> n \<Longrightarrow> realloc_cells n cs = cs @ replicate (n - length cs) None"
  by (simp add: realloc_cells_def)

lemma array_grow_cells:
  obtains junk where "cells (array_grow arr n) = cells arr @ junk"
    and "n \<le> length (cells arr @ junk)" and "alen (array_grow arr n) = alen arr"
proof
  let ?s = "p_grow n (length (cells arr))"
  show "cells (array_grow arr n) = cells arr @ replicate (?s - length (cells arr)) None"
    using p_grow_ge(2) by (simp add: array_grow_def realloc_cells_extend)
  show "n \<le> length (cells arr @ replicate (?s - length (cells arr)) None)"
    using p_grow_ge(1) [of n "length (cells arr)"] by simp
  show "alen (array_grow arr n) = alen arr" by (simp add: array_grow_def)
qed


lemma array_splice_some:
  assumes "wf_array arr" and "pos + len \<le> alen arr"
  obtains b where "array_splice arr pos len items = Some b" and "wf_array b"
    and "elems b = take pos (elems arr) @ items @ drop (pos + len) (elems arr)"
proof -
  from assms(1) obtain junk where cs: "cells arr = map Some (elems arr) @ junk"
    and al: "alen arr = length (elems arr)" by (rule wf_arrayD)
  define P where "P = take pos (elems arr)"
  define M where "M = take len (drop pos (elems arr))"
  define S where "S = drop (pos + len) (elems arr)"
  have split: "elems arr = P @ M @ S"
    unfolding P_def M_def S_def by (metis append_take_drop_id drop_drop add.commute)
  have lP: "length P = pos" and lM: "length M = len"
    using assms(2) al by (auto simp: P_def M_def)
  have lS: "alen arr - pos - len = length S" using al lP lM by (simp add: split)
  obtain more where g: "cells (array_grow arr (alen arr + length items - len)) = cells arr @ more"
    and gl: "alen arr + length items - len \<le> length (cells arr @ more)"
    and ga: "alen (array_grow arr (alen arr + length items - len)) = alen arr"
    by (rule array_grow_cells)
  have guard: "pos \<le> alen arr" using assms(2) by simp
  define arr1 where "arr1 = (if len \<noteq> length items then
      (let g = array_grow arr (alen arr + length items - len);
           m = (if alen arr - pos - len > 0
                then g\<lparr>cells := move_cells (pos + length items) (pos + len)
                                   (alen arr - pos - len) (cells g)\<rparr> else g)
       in m\<lparr>alen := alen arr + length items - len\<rparr>) else arr)"
  have "\<exists>hole rest. cells arr1 = map Some P @ hole @ map Some S @ rest \<and> length hole = length items"
  proof (cases "len = length items")
    case True
    then have "cells arr1 = map Some P @ map Some M @ map Some S @ junk"
      by (simp add: arr1_def cs split)
    then show ?thesis using True lM by (metis length_map)
  next
    case False
    have all: "cells arr @ more = map Some P @ map Some M @ map Some S @ (junk @ more)"
      by (simp add: cs split)
    have room: "pos + length items + length S \<le> length (cells arr @ more)"
      using gl al lP lM by (simp add: split)
    show ?thesis
    proof (cases "S = []")
      case True
      define tl where "tl = map Some M @ junk @ more"
      have "cells arr @ more = map Some P @ tl" using True unfolding all tl_def by simp
      then have "cells arr1 = map Some P @ take (length items) tl @ map Some S
              @ drop (length items) tl" and "length items \<le> length tl"
        using False True lS g lP room by (simp_all add: arr1_def Let_def)
      moreover have "length (take (length items) tl) = length items"
        using calculation(2) by simp
      ultimately show ?thesis by blast
    next
      case nonempty: False
      let ?all = "cells arr @ more"
      have tk: "take (length S) (drop (pos + len) ?all) = map Some S"
        unfolding all using lP lM by simp
      have ct: "cells arr1 = take (pos + length items) ?all @ map Some S
                 @ drop (pos + length items + length S) ?all"
        using False nonempty lS g tk by (simp add: arr1_def Let_def move_cells_def)
      have "take (pos + length items) ?all = map Some P @ take (length items) (drop pos ?all)"
        using lP unfolding all by (simp add: take_add)
      moreover have "length (take (length items) (drop pos ?all)) = length items"
        using room by simp
      ultimately show ?thesis using ct by (metis append.assoc)
    qed
  qed
  then obtain hole rest where c1: "cells arr1 = map Some P @ hole @ map Some S @ rest"
    and hl: "length hole = length items" by blast
  have a1: "alen arr1 = length (P @ items @ S)"
    using al ga lP lM by (auto simp: arr1_def Let_def split)
  define b where "b = (if length items > 0 then arr1\<lparr>cells := copy_cells pos items (cells arr1)\<rparr> else arr1)"
  have "array_splice arr pos len items = Some b"
    using assms(2) guard unfolding array_splice_def b_def arr1_def by (simp add: Let_def)
  moreover have cb: "cells b = map Some (P @ items @ S) @ rest" and ab: "alen b = length (P @ items @ S)"
    using c1 hl lP a1 by (auto simp: b_def copy_cells_def)
  ultimately show ?thesis using wf_arrayI [OF cb ab] that P_def S_def by blast
qed

lemma array_take_some:
  assumes "wf_array arr" and "pos < alen arr"
  obtains b where "array_take arr pos = Some (elems arr ! pos, b)" and "wf_array b"
    and "elems b = take pos (elems arr) @ drop (Suc pos) (elems arr)"
proof -
  from assms(2) have "pos + 1 \<le> alen arr" by simp
  from array_splice_some [OF assms(1) this, of "[]"]
  obtain b where b: "array_splice arr pos 1 [] = Some b" "wf_array b"
    "elems b = take pos (elems arr) @ [] @ drop (pos + 1) (elems arr)" .
  from assms(1) obtain junk where cs: "cells arr = map Some (elems arr) @ junk"
    and al: "alen arr = length (elems arr)" by (rule wf_arrayD)
  have "cells arr ! pos = Some (elems arr ! pos)"
    using assms(2) al unfolding cs by (simp add: nth_append)
  with b show ?thesis by (intro that [of b]) (auto simp: array_take_def)
qed

lemma array_push_some:
  assumes "wf_array arr"
  obtains b where "array_push arr e = Some b" and "wf_array b" and "elems b = e # elems arr"
  using array_splice_some [OF assms, of 0 0 "[e]"] unfolding array_push_def by auto

lemma array_append_wf:
  assumes "wf_array arr"
  shows "wf_array (array_append arr e)" and "elems (array_append arr e) = elems arr @ [e]"
proof -
  from assms obtain junk where cs: "cells arr = map Some (elems arr) @ junk"
    and al: "alen arr = length (elems arr)" by (rule wf_arrayD)
  obtain more where g: "cells (array_grow arr (alen arr + 1)) = cells arr @ more"
    and gl: "alen arr + 1 \<le> length (cells arr @ more)"
    by (rule array_grow_cells)
  from gl obtain x xs where jm: "junk @ more = x # xs"
    unfolding cs al by (cases "junk @ more") auto
  have c: "cells (array_append arr e) = map Some (elems arr @ [e]) @ xs"
    using g al jm by (simp add: array_append_def Let_def cs list_update_append)
  have a: "alen (array_append arr e) = length (elems arr @ [e])"
    using al by (simp add: array_append_def Let_def)
  show "wf_array (array_append arr e)" "elems (array_append arr e) = elems arr @ [e]"
    using wf_arrayI [OF c a] by blast+
qed

subsection \<open>The arrays of objects/key.c\<close>

text \<open>Written by hand "to avoid macro pointer type issues": the size doubles.\<close>

definition key_array_init :: "'a array" where
  "key_array_init = \<lparr>cells = [], alen = 0\<rparr>"

definition key_array_append :: "'a array \<Rightarrow> 'a \<Rightarrow> 'a array" where
  "key_array_append arr e =
     (let a = (if alen arr \<ge> length (cells arr)
               then arr\<lparr>cells := realloc_cells
                      (if length (cells arr) \<noteq> 0 then length (cells arr) * 2 else 4) (cells arr)\<rparr>
               else arr)
      in a\<lparr>cells := (cells a)[alen a := Some e], alen := alen a + 1\<rparr>)"

definition key_array_find :: "'a array \<Rightarrow> 'a \<Rightarrow> int" where
  "key_array_find arr e =
     (case index_of (Some e) (take (alen arr) (cells arr)) of None \<Rightarrow> -1 | Some i \<Rightarrow> int i)"

definition key_array_take :: "'a array \<Rightarrow> nat \<Rightarrow> ('a \<times> 'a array) option" where
  "key_array_take arr pos =
     (if \<not> pos < alen arr then None
      else map_option (\<lambda>res. (res,
             (if pos < alen arr - 1
              then arr\<lparr>cells := move_cells pos (pos + 1) (alen arr - pos - 1) (cells arr)\<rparr>
              else arr)\<lparr>alen := alen arr - 1\<rparr>)) (cells arr ! pos))"

lemma key_array_init_wf [simp]: "wf_array key_array_init" "elems key_array_init = []"
  by (simp_all add: key_array_init_def wf_array_def elems_def)

lemma key_array_append_wf:
  assumes "wf_array arr"
  shows "wf_array (key_array_append arr e)" and "elems (key_array_append arr e) = elems arr @ [e]"
proof -
  from assms obtain junk where cs: "cells arr = map Some (elems arr) @ junk"
    and al: "alen arr = length (elems arr)" by (rule wf_arrayD)
  let ?n = "if length (cells arr) \<noteq> 0 then length (cells arr) * 2 else 4"
  let ?cs = "if alen arr \<ge> length (cells arr) then realloc_cells ?n (cells arr) else cells arr"
  have "\<exists>x xs. ?cs = map Some (elems arr) @ x # xs"
  proof (cases "alen arr \<ge> length (cells arr)")
    case True
    have "?cs = map Some (elems arr) @ junk @ replicate (?n - length (cells arr)) None"
      using True cs by (subst realloc_cells_extend) auto
    moreover have "?n - length (cells arr) > 0" by auto
    ultimately show ?thesis using True cs al
      by (cases "?n - length (cells arr)") auto
  next
    case False
    then show ?thesis using cs al by (cases junk) auto
  qed
  then obtain x xs where c0: "?cs = map Some (elems arr) @ x # xs" by blast
  have c: "cells (key_array_append arr e) = map Some (elems arr @ [e]) @ xs"
    using c0 al unfolding key_array_append_def
    by (cases "alen arr \<ge> length (cells arr)") (simp_all add: Let_def list_update_append)
  have a: "alen (key_array_append arr e) = length (elems arr @ [e])"
    using al by (simp add: key_array_append_def Let_def)
  show "wf_array (key_array_append arr e)" "elems (key_array_append arr e) = elems arr @ [e]"
    using wf_arrayI [OF c a] by blast+
qed

lemma key_array_take_some:
  assumes "wf_array arr" and "pos < alen arr"
  obtains b where "key_array_take arr pos = Some (elems arr ! pos, b)" and "wf_array b"
    and "elems b = take pos (elems arr) @ drop (Suc pos) (elems arr)"
proof -
  from assms(1) obtain junk where cs: "cells arr = map Some (elems arr) @ junk"
    and al: "alen arr = length (elems arr)" by (rule wf_arrayD)
  define P where "P = take pos (elems arr)"
  define S where "S = drop (Suc pos) (elems arr)"
  have split: "elems arr = P @ elems arr ! pos # S"
    using assms(2) al by (simp add: P_def S_def id_take_nth_drop)
  have lP: "length P = pos" using assms(2) al by (simp add: P_def)
  have lS: "alen arr - pos - 1 = length S" using al by (simp add: S_def)
  let ?x = "elems arr ! pos"
  have cs': "cells arr = map Some P @ Some ?x # map Some S @ junk"
    unfolding cs by (subst split) simp
  have hd: "cells arr ! pos = Some ?x" using lP unfolding cs' by (simp add: nth_append)
  define b where "b = (if pos < alen arr - 1
              then arr\<lparr>cells := move_cells pos (pos + 1) (alen arr - pos - 1) (cells arr)\<rparr>
              else arr)\<lparr>alen := alen arr - 1\<rparr>"
  have t: "key_array_take arr pos = Some (?x, b)"
    using assms(2) hd by (simp add: key_array_take_def b_def)
  have "\<exists>rest. cells b = map Some (P @ S) @ rest"
  proof (cases "pos < alen arr - 1")
    case True
    then show ?thesis using lP lS by (simp add: b_def move_cells_def cs' del: One_nat_def) auto
  next
    case False
    then have "S = []" using lS by simp
    then show ?thesis using False by (auto simp: b_def cs')
  qed
  then obtain rest where cb: "cells b = map Some (P @ S) @ rest" by blast
  have ab: "alen b = length (P @ S)" using assms(2) lP lS by (simp add: b_def)
  show ?thesis using wf_arrayI [OF cb ab] t that P_def S_def by blast
qed

lemma key_array_find_index:
  assumes "wf_array arr"
  shows "key_array_find arr e = (case index_of e (elems arr) of None \<Rightarrow> -1 | Some i \<Rightarrow> int i)"
proof -
  from assms obtain junk where cs: "cells arr = map Some (elems arr) @ junk"
    and al: "alen arr = length (elems arr)" by (rule wf_arrayD)
  have "index_of (Some e) (map Some xs) = index_of e xs" for xs :: "'a list"
    by (induction xs) auto
  then show ?thesis using cs al by (simp add: key_array_find_def)
qed

subsection \<open>The contract of a growable array\<close>

text \<open>
  What the users of an array rely on: appending adds at the end, taking removes one position
  and returns what was there. Both array implementations of the program provide it.
\<close>

locale dyn_array =
  fixes inv :: "'s \<Rightarrow> bool"
    and content :: "'s \<Rightarrow> 'a list"
    and empty :: 's
    and app :: "'s \<Rightarrow> 'a \<Rightarrow> 's"
    and take_at :: "'s \<Rightarrow> nat \<Rightarrow> ('a \<times> 's) option"
  assumes empty_inv: "inv empty"
    and empty_content: "content empty = []"
    and app_inv: "inv s \<Longrightarrow> inv (app s x)"
    and app_content: "inv s \<Longrightarrow> content (app s x) = content s @ [x]"
    and take_ok: "inv s \<Longrightarrow> i < length (content s) \<Longrightarrow>
      \<exists>t. take_at s i = Some (content s ! i, t) \<and> inv t \<and>
          content t = take i (content s) @ drop (Suc i) (content s)"
begin

lemma fold_app: "inv s \<Longrightarrow> inv (foldl app s xs) \<and> content (foldl app s xs) = content s @ xs"
  by (induction xs arbitrary: s) (simp_all add: app_inv app_content)

lemma build: "inv (foldl app empty xs)" "content (foldl app empty xs) = xs"
  using fold_app [OF empty_inv, of xs] by (simp_all add: empty_content)

lemma take_first:
  assumes "inv s" and "index_of x (content s) = Some i"
  shows "\<exists>t. take_at s i = Some (x, t) \<and> inv t \<and> content t = remove1 x (content s)"
  using take_ok [OF assms(1)] index_of_Some [OF assms(2)] remove_at_index [OF assms(2)] by fastforce

lemma append_then_take_back:
  assumes "inv s" and "x \<notin> set (content s)"
  shows "\<exists>t. take_at (app s x) (length (content s)) = Some (x, t) \<and> content t = content s"
proof -
  have c: "content (app s x) = content s @ [x]" and i: "inv (app s x)"
    using assms(1) by (simp_all add: app_content app_inv)
  from take_ok [OF i, of "length (content s)"] show ?thesis by (auto simp: c)
qed

end

lemma elems_length: "wf_array arr \<Longrightarrow> length (elems arr) = alen arr"
  by (erule wf_arrayD) simp

interpretation macro_array: dyn_array wf_array elems array_init array_append array_take
proof
  fix s :: "'a array" and i
  assume "wf_array s" and "i < length (elems s)"
  then have "wf_array s" and "i < alen s" by (simp_all add: elems_length)
  from array_take_some [OF this]
  show "\<exists>t. array_take s i = Some (elems s ! i, t) \<and> wf_array t \<and>
      elems t = take i (elems s) @ drop (Suc i) (elems s)" by metis
qed (simp_all add: array_append_wf)

interpretation key_array: dyn_array wf_array elems key_array_init key_array_append key_array_take
proof
  fix s :: "'a array" and i
  assume "wf_array s" and "i < length (elems s)"
  then have "wf_array s" and "i < alen s" by (simp_all add: elems_length)
  from key_array_take_some [OF this]
  show "\<exists>t. key_array_take s i = Some (elems s ! i, t) \<and> wf_array t \<and>
      elems t = take i (elems s) @ drop (Suc i) (elems s)" by metis
qed (simp_all add: key_array_append_wf)

subsection \<open>Ordered arrays\<close>

text \<open>The search loop of array_insert: None when an equal element is met, else the position.\<close>

function barray_pos :: "('a \<Rightarrow> 'a \<Rightarrow> int) \<Rightarrow> 'a \<Rightarrow> 'a list \<Rightarrow> nat \<Rightarrow> nat \<Rightarrow> nat option" where
  "barray_pos cmp e tab l r =
     (if l < r then
        (let i = (r + l) div 2; res = cmp e (tab ! i)
         in if res = 0 then None
            else if res < 0 then barray_pos cmp e tab l i
            else barray_pos cmp e tab (i + 1) r)
      else Some r)"
  by pat_completeness auto
termination by (relation "measure (\<lambda>(cmp, e, tab, l, r). r - l)") auto

declare barray_pos.simps [simp del]

definition barray_insert :: "('a \<Rightarrow> 'a \<Rightarrow> int) \<Rightarrow> 'a array \<Rightarrow> 'a \<Rightarrow> 'a array option" where
  "barray_insert cmp arr e =
     (case barray_pos cmp e (elems arr) 0 (alen arr) of
        None \<Rightarrow> Some arr
      | Some r \<Rightarrow> array_splice arr r 0 [e])"

text \<open>The C library's bsearch and qsort; bsearch answers with the index it found.\<close>

function bsearch :: "('a \<Rightarrow> 'a \<Rightarrow> int) \<Rightarrow> 'a \<Rightarrow> 'a list \<Rightarrow> nat \<Rightarrow> nat \<Rightarrow> nat option" where
  "bsearch cmp e tab l u =
     (if l < u then
        (let i = (l + u) div 2; res = cmp e (tab ! i)
         in if res < 0 then bsearch cmp e tab l i
            else if res > 0 then bsearch cmp e tab (i + 1) u
            else Some i)
      else None)"
  by pat_completeness auto
termination by (relation "measure (\<lambda>(cmp, e, tab, l, u). u - l)") auto

declare bsearch.simps [simp del]

fun qsort_ins :: "('a \<Rightarrow> 'a \<Rightarrow> int) \<Rightarrow> 'a \<Rightarrow> 'a list \<Rightarrow> 'a list" where
  "qsort_ins cmp x [] = [x]"
| "qsort_ins cmp x (y # ys) = (if cmp x y \<le> 0 then x # y # ys else y # qsort_ins cmp x ys)"

definition qsort :: "('a \<Rightarrow> 'a \<Rightarrow> int) \<Rightarrow> 'a list \<Rightarrow> 'a list" where
  "qsort cmp xs = foldr (qsort_ins cmp) xs []"

definition barray_lookup :: "('a \<Rightarrow> 'a \<Rightarrow> int) \<Rightarrow> 'a array \<Rightarrow> 'a \<Rightarrow> nat option" where
  "barray_lookup cmp arr e =
     (if cells arr = [] \<or> alen arr = 0 then None else bsearch cmp e (elems arr) 0 (alen arr))"

definition barray_inserts :: "('a \<Rightarrow> 'a \<Rightarrow> int) \<Rightarrow> 'a array \<Rightarrow> 'a list \<Rightarrow> 'a array" where
  "barray_inserts cmp arr items =
     (let g = array_growx arr (alen arr + length items);
          a = g\<lparr>cells := copy_cells (alen g) items (cells g), alen := alen g + length items\<rparr>
      in a\<lparr>cells := map Some (qsort cmp (elems a)) @ drop (alen a) (cells a)\<rparr>)"

lemma array_growx_cells:
  obtains junk where "cells (array_growx arr n) = cells arr @ junk"
    and "n \<le> length (cells arr @ junk)" and "alen (array_growx arr n) = alen arr"
proof
  let ?s = "p_growx n (length (cells arr))"
  have ge: "length (cells arr) \<le> ?s" "n \<le> ?s" by (auto simp: p_growx_def)
  show "cells (array_growx arr n) = cells arr @ replicate (?s - length (cells arr)) None"
    using ge by (simp add: array_growx_def realloc_cells_extend)
  show "n \<le> length (cells arr @ replicate (?s - length (cells arr)) None)" using ge by simp
  show "alen (array_growx arr n) = alen arr" by (simp add: array_growx_def)
qed

lemma qsort_ins_mset: "mset (qsort_ins cmp x ys) = add_mset x (mset ys)"
  by (induction ys) auto

lemma qsort_mset: "mset (qsort cmp xs) = mset xs"
  by (induction xs) (simp_all add: qsort_def qsort_ins_mset)

lemma qsort_length [simp]: "length (qsort cmp xs) = length xs"
  using qsort_mset [of cmp xs] by (metis size_mset)

lemma barray_inserts_elems:
  assumes "wf_array arr"
  shows "wf_array (barray_inserts cmp arr items)"
    and "elems (barray_inserts cmp arr items) = qsort cmp (elems arr @ items)"
proof -
  from assms obtain junk where cs: "cells arr = map Some (elems arr) @ junk"
    and al: "alen arr = length (elems arr)" by (rule wf_arrayD)
  define g where "g = array_growx arr (alen arr + length items)"
  obtain more where gc: "cells g = cells arr @ more"
    and gl: "alen arr + length items \<le> length (cells arr @ more)" and ga: "alen g = alen arr"
    unfolding g_def by (rule array_growx_cells)
  define a where "a = g\<lparr>cells := copy_cells (alen g) items (cells g), alen := alen g + length items\<rparr>"
  have ca: "cells a = map Some (elems arr @ items) @ drop (length items) (junk @ more)"
    using al ga by (simp add: a_def copy_cells_def gc cs)
  have aa: "alen a = length (elems arr @ items)" using al ga by (simp add: a_def)
  have ea: "elems a = elems arr @ items" using wf_arrayI(2) [OF ca aa] .
  have b: "barray_inserts cmp arr items
      = a\<lparr>cells := map Some (qsort cmp (elems a)) @ drop (alen a) (cells a)\<rparr>"
    by (simp add: barray_inserts_def a_def g_def Let_def)
  have cb: "cells (barray_inserts cmp arr items)
      = map Some (qsort cmp (elems arr @ items)) @ drop (alen a) (cells a)"
    by (simp add: b ea)
  have ab: "alen (barray_inserts cmp arr items) = length (qsort cmp (elems arr @ items))"
    by (simp add: b aa)
  show "wf_array (barray_inserts cmp arr items)"
    and "elems (barray_inserts cmp arr items) = qsort cmp (elems arr @ items)"
    using wf_arrayI [OF cb ab] by blast+
qed

subsection \<open>The contract of a comparator\<close>

text \<open>
  The comparators handed to BARRAY_FUNCS compare a key of the elements: equal keys are one
  element for the array, however the rest of the element differs.
\<close>

locale barray =
  fixes key :: "'a \<Rightarrow> 'k::linorder"
    and cmp :: "'a \<Rightarrow> 'a \<Rightarrow> int"
  assumes cmp_neg: "cmp a b < 0 \<longleftrightarrow> key a < key b"
    and cmp_zero: "cmp a b = 0 \<longleftrightarrow> key a = key b"
begin

definition ordered :: "'a list \<Rightarrow> bool" where
  "ordered xs \<longleftrightarrow> sorted_wrt (\<lambda>a b. key a < key b) xs"

lemma cmp_pos: "cmp a b > 0 \<longleftrightarrow> key b < key a"
  using cmp_neg [of a b] cmp_zero [of a b] by (metis linorder_neqE not_less_iff_gr_or_eq)

lemma ordered_nth:
  "ordered xs \<Longrightarrow> i < j \<Longrightarrow> j < length xs \<Longrightarrow> key (xs ! i) < key (xs ! j)"
  by (simp add: ordered_def sorted_wrt_iff_nth_less)

lemma ordered_keys: "ordered xs \<longleftrightarrow> sorted_wrt (<) (map key xs)"
  by (simp add: ordered_def sorted_wrt_map)

lemma below_mid:
  assumes "ordered tab" and "i < length tab" and "key (tab ! i) < key e" and "j < Suc i"
  shows "key (tab ! j) < key e"
  using assms ordered_nth [OF assms(1), of j i] by (cases "j = i") auto

lemma above_mid:
  assumes "ordered tab" and "key e < key (tab ! i)" and "i \<le> j" and "j < length tab"
  shows "key e < key (tab ! j)"
  using assms ordered_nth [OF assms(1), of i j] by (cases "j = i") auto

lemma barray_pos_correct:
  assumes "ordered tab" and "l \<le> r" and "r \<le> length tab"
    and "\<And>j. j < l \<Longrightarrow> key (tab ! j) < key e"
    and "\<And>j. r \<le> j \<Longrightarrow> j < length tab \<Longrightarrow> key e < key (tab ! j)"
  shows "case barray_pos cmp e tab l r of
      None \<Rightarrow> \<exists>j < length tab. key (tab ! j) = key e
    | Some p \<Rightarrow> p \<le> length tab \<and> (\<forall>j < p. key (tab ! j) < key e)
        \<and> (\<forall>j < length tab. p \<le> j \<longrightarrow> key e < key (tab ! j))"
  using assms(2-)
proof (induction "r - l" arbitrary: l r rule: less_induct)
  case less
  show ?case
  proof (cases "l < r")
    case False
    with less.prems show ?thesis by (auto simp: barray_pos.simps [of cmp])
  next
    case True
    define i where "i = (r + l) div 2"
    have i: "l \<le> i" "i < r" "i < length tab" using True less.prems(2) by (auto simp: i_def)
    note step = barray_pos.simps [of cmp e tab l r, folded i_def]
    consider (eq) "key (tab ! i) = key e" | (lt) "key e < key (tab ! i)" | (gt) "key (tab ! i) < key e"
      by fastforce
    then show ?thesis
    proof cases
      case eq
      then have "cmp e (tab ! i) = 0" by (simp add: cmp_zero)
      then show ?thesis using True eq i by (auto simp: step)
    next
      case lt
      then have "cmp e (tab ! i) < 0" by (simp add: cmp_neg)
      then have "barray_pos cmp e tab l r = barray_pos cmp e tab l i" using True by (simp add: step)
      then show ?thesis
        using less.hyps [of i l] less.prems i above_mid [OF assms(1) lt] by simp
    next
      case gt
      then have "cmp e (tab ! i) > 0" by (simp add: cmp_pos)
      then have "barray_pos cmp e tab l r = barray_pos cmp e tab (i + 1) r"
        using True by (simp add: step)
      then show ?thesis
        using less.hyps [of r "i + 1"] less.prems i below_mid [OF assms(1) i(3) gt] by simp
    qed
  qed
qed

lemma bsearch_correct:
  assumes "ordered tab" and "l \<le> u" and "u \<le> length tab"
    and "\<And>j. j < l \<Longrightarrow> key (tab ! j) < key e"
    and "\<And>j. u \<le> j \<Longrightarrow> j < length tab \<Longrightarrow> key e < key (tab ! j)"
  shows "case bsearch cmp e tab l u of
      None \<Rightarrow> \<forall>j < length tab. key (tab ! j) \<noteq> key e
    | Some p \<Rightarrow> p < length tab \<and> key (tab ! p) = key e"
  using assms(2-)
proof (induction "u - l" arbitrary: l u rule: less_induct)
  case less
  show ?case
  proof (cases "l < u")
    case False
    with less.prems show ?thesis by (auto simp: bsearch.simps [of cmp]) (metis leI less_irrefl)
  next
    case True
    define i where "i = (l + u) div 2"
    have i: "l \<le> i" "i < u" "i < length tab" using True less.prems(2) by (auto simp: i_def)
    note step = bsearch.simps [of cmp e tab l u, folded i_def]
    consider (eq) "key (tab ! i) = key e" | (lt) "key e < key (tab ! i)" | (gt) "key (tab ! i) < key e"
      by fastforce
    then show ?thesis
    proof cases
      case eq
      then have "cmp e (tab ! i) = 0" by (simp add: cmp_zero)
      then show ?thesis using True eq i by (auto simp: step)
    next
      case lt
      then have "cmp e (tab ! i) < 0" by (simp add: cmp_neg)
      then have "bsearch cmp e tab l u = bsearch cmp e tab l i" using True by (simp add: step)
      then show ?thesis
        using less.hyps [of i l] less.prems i above_mid [OF assms(1) lt] by simp
    next
      case gt
      then have "cmp e (tab ! i) > 0" by (simp add: cmp_pos)
      then have "bsearch cmp e tab l u = bsearch cmp e tab (i + 1) u"
        using True by (simp add: step)
      then show ?thesis
        using less.hyps [of u "i + 1"] less.prems i below_mid [OF assms(1) i(3) gt] by simp
    qed
  qed
qed

lemma insert_between:
  assumes "ordered tab" and "p \<le> length tab" and "\<forall>j < p. key (tab ! j) < key e"
    and "\<forall>j < length tab. p \<le> j \<longrightarrow> key e < key (tab ! j)"
  shows "ordered (take p tab @ e # drop p tab)"
proof -
  have "x \<in> set (take p tab) \<Longrightarrow> key x < key e" for x
    using assms(2,3) by (auto simp: in_set_conv_nth)
  moreover have "x \<in> set (drop p tab) \<Longrightarrow> key e < key x" for x
    using assms(2,4) by (auto simp: in_set_conv_nth)
  moreover have "ordered (take p tab @ drop p tab)" using assms(1) by simp
  ultimately show ?thesis unfolding ordered_def sorted_wrt_append
    by (auto simp del: append_take_drop_id intro: less_trans)
qed

lemma barray_insert_correct:
  assumes "wf_array arr" and "ordered (elems arr)"
  shows "\<exists>b. barray_insert cmp arr e = Some b \<and> wf_array b \<and> ordered (elems b) \<and>
    (if key e \<in> key ` set (elems arr) then b = arr
     else set (elems b) = insert e (set (elems arr)))"
proof -
  have len: "alen arr = length (elems arr)" using assms(1) by (simp add: elems_length)
  from barray_pos_correct [OF assms(2), of 0 "alen arr" e]
  have pos: "case barray_pos cmp e (elems arr) 0 (alen arr) of
      None \<Rightarrow> \<exists>j < length (elems arr). key (elems arr ! j) = key e
    | Some p \<Rightarrow> p \<le> length (elems arr) \<and> (\<forall>j < p. key (elems arr ! j) < key e)
        \<and> (\<forall>j < length (elems arr). p \<le> j \<longrightarrow> key e < key (elems arr ! j))"
    by (simp add: len)
  show ?thesis
  proof (cases "barray_pos cmp e (elems arr) 0 (alen arr)")
    case None
    then have "key e \<in> key ` set (elems arr)"
      using pos by (auto simp: in_set_conv_nth) (metis image_eqI nth_mem)
    then show ?thesis using None assms by (simp add: barray_insert_def)
  next
    case (Some p)
    with pos have p: "p \<le> length (elems arr)" "\<forall>j < p. key (elems arr ! j) < key e"
      "\<forall>j < length (elems arr). p \<le> j \<longrightarrow> key e < key (elems arr ! j)" by auto
    have "p + 0 \<le> alen arr" using p(1) len by simp
    from array_splice_some [OF assms(1) this, of "[e]"] obtain b where
      b: "array_splice arr p 0 [e] = Some b" "wf_array b"
        "elems b = take p (elems arr) @ e # drop p (elems arr)" by auto
    have "key e \<notin> key ` set (elems arr)"
      using p(2,3) by (auto simp: in_set_conv_nth) (metis leI less_irrefl)
    moreover have "set (take p (elems arr)) \<union> set (drop p (elems arr)) = set (elems arr)"
      unfolding set_append [symmetric] by simp
    then have "set (elems b) = insert e (set (elems arr))" by (simp add: b(3))
    ultimately show ?thesis
      using b Some insert_between [OF assms(2) p] by (auto simp: barray_insert_def)
  qed
qed

lemma barray_lookup_correct:
  assumes "wf_array arr" and "ordered (elems arr)"
  shows "case barray_lookup cmp arr e of
      None \<Rightarrow> key e \<notin> key ` set (elems arr)
    | Some p \<Rightarrow> p < alen arr \<and> key (elems arr ! p) = key e"
proof -
  have len: "alen arr = length (elems arr)" by (rule elems_length [OF assms(1), symmetric])
  from bsearch_correct [OF assms(2), of 0 "alen arr" e]
  have pos: "case bsearch cmp e (elems arr) 0 (alen arr) of
      None \<Rightarrow> \<forall>j < length (elems arr). key (elems arr ! j) \<noteq> key e
    | Some p \<Rightarrow> p < length (elems arr) \<and> key (elems arr ! p) = key e" by (simp add: len)
  show ?thesis
  proof (cases "cells arr = [] \<or> alen arr = 0")
    case True
    then have "elems arr = []" unfolding elems_def by auto
    then show ?thesis using True by (simp add: barray_lookup_def)
  next
    case False
    then have eq: "barray_lookup cmp arr e = bsearch cmp e (elems arr) 0 (alen arr)"
      by (simp add: barray_lookup_def)
    show ?thesis
    proof (cases "bsearch cmp e (elems arr) 0 (alen arr)")
      case None
      then show ?thesis using pos unfolding eq by (auto simp: in_set_conv_nth)
    next
      case (Some q)
      then show ?thesis using pos unfolding eq by (simp add: len)
    qed
  qed
qed

lemma barray_lookup_iff:
  assumes "wf_array arr" and "ordered (elems arr)"
  shows "barray_lookup cmp arr e = None \<longleftrightarrow> key e \<notin> key ` set (elems arr)"
proof (cases "barray_lookup cmp arr e")
  case None
  then show ?thesis using barray_lookup_correct [OF assms, of e] by simp
next
  case (Some p)
  then have "p < length (elems arr)" and k: "key (elems arr ! p) = key e"
    using barray_lookup_correct [OF assms, of e] elems_length [OF assms(1)] by auto
  then have "elems arr ! p \<in> set (elems arr)" by simp
  with k have "key e \<in> key ` set (elems arr)" by (metis image_eqI)
  then show ?thesis using Some by simp
qed

lemma qsort_ins_sorted: "sorted (map key ys) \<Longrightarrow> sorted (map key (qsort_ins cmp x ys))"
proof (induction ys)
  case Nil
  then show ?case by simp
next
  case (Cons y ys)
  have le: "cmp x y \<le> 0 \<longleftrightarrow> key x \<le> key y"
    using cmp_pos [of x y] by (metis not_le)
  have "set (qsort_ins cmp x ys) = insert x (set ys)"
    by (metis qsort_ins_mset set_mset_add_mset_insert set_mset_mset)
  then show ?case using Cons le by auto
qed

lemma qsort_sorted: "sorted (map key (qsort cmp xs))"
  by (induction xs) (simp_all add: qsort_def qsort_ins_sorted)

lemma barray_inserts_correct:
  assumes "wf_array arr" and "distinct (map key (elems arr @ items))"
  shows "ordered (elems (barray_inserts cmp arr items))"
    and "set (elems (barray_inserts cmp arr items)) = set (elems arr) \<union> set items"
proof -
  let ?r = "qsort cmp (elems arr @ items)"
  have "mset (map key ?r) = mset (map key (elems arr @ items))"
    by (simp only: mset_map qsort_mset)
  then have "distinct (map key ?r)" using assms(2) by (metis mset_eq_imp_distinct_iff)
  then show "ordered (elems (barray_inserts cmp arr items))"
    using qsort_sorted [of "elems arr @ items"]
    by (simp add: barray_inserts_elems(2) [OF assms(1)] ordered_keys strict_sorted_iff)
  show "set (elems (barray_inserts cmp arr items)) = set (elems arr) \<union> set items"
    by (metis assms(1) barray_inserts_elems(2) qsort_mset set_append set_mset_mset)
qed

end

subsection \<open>Runs of array operations\<close>

datatype 'a array_op = Splice nat nat "'a list" | Push 'a | Append 'a | Take nat

primrec run_array :: "'a array_op \<Rightarrow> 'a array \<Rightarrow> 'a array option" where
  "run_array (Splice pos len items) arr = array_splice arr pos len items"
| "run_array (Push e) arr = array_push arr e"
| "run_array (Append e) arr = Some (array_append arr e)"
| "run_array (Take pos) arr = map_option snd (array_take arr pos)"

primrec spec_array :: "'a array_op \<Rightarrow> 'a list \<Rightarrow> 'a list option" where
  "spec_array (Splice pos len items) xs =
     (if pos + len \<le> length xs then Some (take pos xs @ items @ drop (pos + len) xs) else None)"
| "spec_array (Push e) xs = Some (e # xs)"
| "spec_array (Append e) xs = Some (xs @ [e])"
| "spec_array (Take pos) xs =
     (if pos < length xs then Some (take pos xs @ drop (Suc pos) xs) else None)"

primrec run_all :: "('o \<Rightarrow> 's \<Rightarrow> 's option) \<Rightarrow> 'o list \<Rightarrow> 's \<Rightarrow> 's option" where
  "run_all f [] s = Some s"
| "run_all f (x # xs) s = Option.bind (f x s) (run_all f xs)"

text \<open>Two step functions related by a simulation have related runs, failures included.\<close>

lemma run_all_simulates:
  assumes "\<And>x s t. R s t \<Longrightarrow> rel_option R (f x s) (g x t)" and "R s t"
  shows "rel_option R (run_all f xs s) (run_all g xs t)"
  using assms(2)
proof (induction xs arbitrary: s t)
  case Nil
  then show ?case by simp
next
  case (Cons x xs)
  from assms(1) [OF Cons.prems, of x] show ?case
    by (cases "f x s"; cases "g x t") (simp_all add: Cons.IH)
qed

definition lists_array :: "'a array \<Rightarrow> 'a list \<Rightarrow> bool" where
  "lists_array arr xs \<longleftrightarrow> wf_array arr \<and> elems arr = xs"

lemma run_array_simulates:
  assumes "lists_array arr xs"
  shows "rel_option lists_array (run_array op arr) (spec_array op xs)"
proof -
  have wf: "wf_array arr" and xs: "elems arr = xs" and len: "alen arr = length xs"
    using assms elems_length [of arr] by (auto simp: lists_array_def)
  show ?thesis
  proof (cases op)
    case (Splice pos len items)
    show ?thesis
    proof (cases "pos + len \<le> alen arr")
      case True
      from array_splice_some [OF wf True] obtain b where "array_splice arr pos len items = Some b"
        "wf_array b" "elems b = take pos (elems arr) @ items @ drop (pos + len) (elems arr)" .
      then show ?thesis using Splice True len xs by (simp add: lists_array_def)
    next
      case False
      then show ?thesis using Splice len by (simp add: array_splice_def)
    qed
  next
    case (Push e)
    from array_push_some [OF wf, of e] obtain b where
      "array_push arr e = Some b" "wf_array b" "elems b = e # elems arr" .
    then show ?thesis using Push xs by (simp add: lists_array_def)
  next
    case (Append e)
    then show ?thesis using array_append_wf [OF wf, of e] xs by (simp add: lists_array_def)
  next
    case (Take pos)
    show ?thesis
    proof (cases "pos < alen arr")
      case True
      from array_take_some [OF wf this] obtain b where "array_take arr pos = Some (elems arr ! pos, b)"
        "wf_array b" "elems b = take pos (elems arr) @ drop (Suc pos) (elems arr)" .
      then show ?thesis using Take True len xs by (simp add: lists_array_def)
    next
      case False
      then show ?thesis using Take len by (simp add: array_take_def array_splice_def)
    qed
  qed
qed

text \<open>
  The arrays of common/array.h implement lists. Any sequence of array_splice, array_push,
  array_append and array_take on a fresh array, worked out on its memory with all the growing
  and moving of cells, gives a well-formed array of exactly the list the same operations give
  on lists, and an assertion of the C code fails exactly where the position and length leave
  the list.
\<close>

theorem array_ops_refine_lists:
  "rel_option lists_array (run_all run_array ops array_init) (run_all spec_array ops [])"
  by (rule run_all_simulates [OF run_array_simulates]) (simp_all add: lists_array_def)

end
