(* ===== verification/CBuffer.thy ===== *)
theory CBuffer
  imports Arrays "HOL-Library.List_Lexorder" "HOL-Library.Char_ord"
begin

text \<open>
  The byte strings and buffers of src/common/util.h, src/common/util.c and
  src/common/buffer.h, src/common/buffer.c. A C string is a list of characters without the
  terminating NUL, NULL is None. A buffer is modelled at the level of its memory area: the
  area's bytes (None where nothing was ever written), the offset of the data in it, the length
  and the size counted from the data, and whether the area was allocated. A write outside the
  area, like a failed assert and exit, is None.
\<close>

subsection \<open>C strings\<close>

abbreviation NUL :: char where "NUL \<equiv> CHR 0x00"

definition NONULL :: "string option \<Rightarrow> string" where
  "NONULL x = (case x of None \<Rightarrow> '''' | Some s \<Rightarrow> s)"

definition a_strlen :: "string option \<Rightarrow> nat" where
  "a_strlen s = (case s of None \<Rightarrow> 0 | Some s' \<Rightarrow> length s')"

definition a_strdup :: "string option \<Rightarrow> string option" where
  "a_strdup s = (if a_strlen s \<noteq> 0 then s else None)"

text \<open>
  strcmp compares the bytes as unsigned char; a proper prefix is smaller. Only the sign of the
  result is specified.
\<close>

fun strcmp :: "string \<Rightarrow> string \<Rightarrow> int" where
  "strcmp [] [] = 0"
| "strcmp [] (b # bs) = -1"
| "strcmp (a # as) [] = 1"
| "strcmp (a # as) (b # bs) =
     (if a = b then strcmp as bs else if (of_char a :: nat) < of_char b then -1 else 1)"

definition a_strcmp :: "string option \<Rightarrow> string option \<Rightarrow> int" where
  "a_strcmp a b = strcmp (NONULL a) (NONULL b)"

definition A_STREQ :: "string option \<Rightarrow> string option \<Rightarrow> bool" where
  "A_STREQ a b \<longleftrightarrow> a = b \<or> a_strcmp a b = 0"

text \<open>The djb2 hash that names signals, on a 64 bit unsigned long.\<close>

fun strhash_loop :: "u64 \<Rightarrow> string \<Rightarrow> u64" where
  "strhash_loop hash [] = hash"
| "strhash_loop hash (c # cs) =
     strhash_loop ((push_bit 5 hash + hash) + word_of_int (of_char c)) cs"

definition a_strhash :: "string \<Rightarrow> u64" where
  "a_strhash str = strhash_loop 5381 str"

text \<open>
  a_strncpy: the copy into a destination of n bytes (the destination's former bytes are the
  argument) and the returned length; src = NULL has length 0.
\<close>

definition a_strncpy :: "char list \<Rightarrow> int \<Rightarrow> string option \<Rightarrow> int \<Rightarrow> int \<times> char list" where
  "a_strncpy dst n src l =
     (let len = min (int (a_strlen src)) l
      in (len,
          if n > 0 then
            (let dlen = nat (min (n - 1) len)
             in take dlen (NONULL src) @ [NUL] @ drop (dlen + 1) dst)
          else dst))"

definition a_strcpy :: "char list \<Rightarrow> int \<Rightarrow> string option \<Rightarrow> int \<times> char list" where
  "a_strcpy dst n src =
     (let len = int (a_strlen src)
      in (len,
          if n > 0 then
            (let dlen = nat (min (n - 1) len)
             in take dlen (NONULL src) @ [NUL] @ drop (dlen + 1) dst)
          else dst))"

definition c_string :: "char list \<Rightarrow> string" where
  "c_string bytes = takeWhile (\<lambda>c. c \<noteq> NUL) bytes"

lemma takeWhile_string: "NUL \<notin> set s \<Longrightarrow> takeWhile (\<lambda>c. c \<noteq> NUL) (s @ NUL # rest) = s"
  by (induction s) auto

lemma a_strcpy_truncates:
  assumes "0 < n" and "int (length dst) = n" and "NUL \<notin> set s"
  shows "length (snd (a_strcpy dst n (Some s))) = length dst"
    and "c_string (snd (a_strcpy dst n (Some s))) = take (length dst - 1) s"
proof -
  have d: "nat (min (n - 1) (int (length s))) = min (length dst - 1) (length s)"
    using assms by linarith
  have t: "take (min (length dst - 1) (length s)) s = take (length dst - 1) s"
    by (cases "length s \<le> length dst - 1") (simp_all add: min_def)
  have copy: "snd (a_strcpy dst n (Some s))
      = take (length dst - 1) s @ NUL # drop (min (length dst - 1) (length s) + 1) dst"
    using assms(1) t by (simp add: a_strcpy_def a_strlen_def NONULL_def Let_def d)
  show "length (snd (a_strcpy dst n (Some s))) = length dst"
    using assms(1,2) unfolding copy by auto
  have "NUL \<notin> set (take (length dst - 1) s)" using assms(3) by (meson in_set_takeD)
  then show "c_string (snd (a_strcpy dst n (Some s))) = take (length dst - 1) s"
    unfolding copy c_string_def by (rule takeWhile_string)
qed

lemma strcmp_zero [simp]: "strcmp a b = 0 \<longleftrightarrow> a = b"
  by (induction a b rule: strcmp.induct) auto

lemma strcmp_neg: "strcmp a b < 0 \<longleftrightarrow> a < b"
  by (induction a b rule: strcmp.induct) (auto simp: less_char_def)

lemma A_STREQ_NONULL: "A_STREQ a b \<longleftrightarrow> NONULL a = NONULL b"
  by (auto simp: A_STREQ_def a_strcmp_def)

subsection \<open>Buffers\<close>

record buffer =
  bmem :: "char option list"
  boffs :: nat
  blen :: int
  bsize :: int
  balloced :: bool

definition buffer_init :: buffer where
  "buffer_init = \<lparr>bmem = [Some NUL], boffs = 0, blen = 0, bsize = 1, balloced = False\<rparr>"

text \<open>A write of one byte at s + i, and memcpy to s + i, inside the area.\<close>

definition poke :: "buffer \<Rightarrow> int \<Rightarrow> char \<Rightarrow> buffer option" where
  "poke buf i c =
     (if 0 \<le> i \<and> boffs buf + nat i < length (bmem buf)
      then Some (buf\<lparr>bmem := (bmem buf)[boffs buf + nat i := Some c]\<rparr>) else None)"

definition copy_in :: "buffer \<Rightarrow> int \<Rightarrow> string \<Rightarrow> buffer option" where
  "copy_in buf i data =
     (if 0 \<le> i \<and> boffs buf + nat i + length data \<le> length (bmem buf)
      then Some (buf\<lparr>bmem := copy_cells (boffs buf + nat i) data (bmem buf)\<rparr>) else None)"

definition buffer_ensure :: "buffer \<Rightarrow> int \<Rightarrow> buffer option" where
  "buffer_ensure buf newlen =
     (if newlen < 0 then None
      else if newlen < bsize buf then Some buf
      else if newlen < int (boffs buf) + bsize buf \<and> int (boffs buf) > bsize buf div 4 then
        Some (buf\<lparr>bmem := move_cells 0 (boffs buf) (nat (blen buf + 1)) (bmem buf),
                  bsize := bsize buf + int (boffs buf), boffs := 0\<rparr>)
      else
        (let size0 = int (p_alloc_nr (nat (bsize buf) + boffs buf));
             size = (if size0 < newlen + 1 then newlen + 1 else size0)
         in if balloced buf \<and> boffs buf = 0
            then Some (buf\<lparr>bmem := realloc_cells (nat size) (bmem buf), bsize := size\<rparr>)
            else
              (let keep = take (nat (blen buf + 1)) (drop (boffs buf) (bmem buf))
               in Some (buf\<lparr>bmem := keep @ replicate (nat size - length keep) (Some NUL),
                           boffs := 0, bsize := size, balloced := True\<rparr>))))"

definition buffer_grow :: "buffer \<Rightarrow> int \<Rightarrow> buffer option" where
  "buffer_grow buf extra =
     (if \<not> extra \<ge> 0 then None
      else if blen buf + extra > bsize buf then buffer_ensure buf (blen buf + extra)
      else Some buf)"

definition buffer_splice :: "buffer \<Rightarrow> int \<Rightarrow> int \<Rightarrow> string \<Rightarrow> buffer option" where
  "buffer_splice buf pos len data =
     (let dlen = int (length data)
      in if \<not> (pos \<ge> 0 \<and> len \<ge> 0) then None
         else
           (let pos = (if pos > blen buf then blen buf else pos);
                len = (if len > blen buf - pos then blen buf - pos else len)
            in Option.bind
                 (if pos = 0 \<and> len + int (boffs buf) \<ge> dlen then
                    Some (buf\<lparr>boffs := nat (int (boffs buf) + (len - dlen)),
                              bsize := bsize buf - (len - dlen), blen := blen buf - (len - dlen)\<rparr>)
                  else if len \<noteq> dlen then
                    Option.bind (buffer_ensure buf (blen buf + dlen - len)) (\<lambda>b.
                      let b = b\<lparr>bmem := move_cells (boffs b + nat (pos + dlen)) (boffs b + nat (pos + len))
                                           (nat (blen b - pos - len)) (bmem b)\<rparr>;
                          b = b\<lparr>blen := blen b + (dlen - len)\<rparr>
                      in poke b (blen b) NUL)
                  else Some buf)
                 (\<lambda>b. copy_in b pos data)))"

definition buffer_add :: "buffer \<Rightarrow> string \<Rightarrow> buffer option" where
  "buffer_add buf data = buffer_splice buf (blen buf) 0 data"

definition buffer_adds :: "buffer \<Rightarrow> string option \<Rightarrow> buffer option" where
  "buffer_adds buf s = buffer_splice buf (blen buf) 0 (NONULL s)"

definition buffer_addc :: "buffer \<Rightarrow> char \<Rightarrow> buffer option" where
  "buffer_addc buf c =
     Option.bind (buffer_grow buf 1) (\<lambda>b.
     Option.bind (poke b (blen b) c) (\<lambda>b.
     let b = b\<lparr>blen := blen b + 1\<rparr> in poke b (blen b) NUL))"

text \<open>
  buffer_addvf for the string the format produces: vsnprintf writes as much of it as the room
  allows and the terminating NUL, and returns its full length. BUFSIZ is 8192.
\<close>

definition buffer_vsnprintf :: "buffer \<Rightarrow> string \<Rightarrow> buffer option" where
  "buffer_vsnprintf b out =
     (let room = bsize b - blen b
      in if room > 0 then copy_in b (blen b) (take (nat (room - 1)) out @ [NUL]) else Some b)"

definition buffer_addvf :: "buffer \<Rightarrow> string \<Rightarrow> buffer option" where
  "buffer_addvf buf out =
     (let len = int (length out) in
      Option.bind (buffer_ensure buf (blen buf + 8192)) (\<lambda>b.
      Option.bind (buffer_vsnprintf b out) (\<lambda>b.
      Option.bind
        (if len \<ge> bsize b - blen b
         then Option.bind (buffer_ensure b (blen b + len)) (\<lambda>b. buffer_vsnprintf b out)
         else Some b) (\<lambda>b.
      let b = b\<lparr>blen := blen b + len\<rparr> in poke b (blen b) NUL))))"

text \<open>The string in the buffer, which buffer_detach hands over.\<close>

definition content :: "buffer \<Rightarrow> string" where
  "content buf = map the (take (nat (blen buf)) (drop (boffs buf) (bmem buf)))"

definition buffer_detach :: "buffer \<Rightarrow> string option \<times> buffer" where
  "buffer_detach buf =
     (if \<not> balloced buf then a_strdup (Some (content buf)) else Some (content buf), buffer_init)"

text \<open>
  The data is NUL terminated inside the area, and size is the room from the data to the end
  of the area.
\<close>

definition wf_buffer :: "buffer \<Rightarrow> bool" where
  "wf_buffer buf \<longleftrightarrow> 0 \<le> blen buf \<and> blen buf < bsize buf \<and>
     int (length (bmem buf)) = int (boffs buf) + bsize buf \<and>
     None \<notin> set (take (nat (blen buf)) (drop (boffs buf) (bmem buf))) \<and>
     bmem buf ! (boffs buf + nat (blen buf)) = Some NUL"

text \<open>The same invariant as a layout of the area: free room, the data, its NUL, free room.\<close>

definition lays :: "buffer \<Rightarrow> char option list \<Rightarrow> string \<Rightarrow> char option \<Rightarrow> char option list \<Rightarrow> bool" where
  "lays buf pre c z post \<longleftrightarrow> bmem buf = pre @ map Some c @ z # post \<and>
     boffs buf = length pre \<and> blen buf = int (length c) \<and> bsize buf = int (length c) + 1 + int (length post)"

abbreviation holds :: "buffer \<Rightarrow> char option list \<Rightarrow> string \<Rightarrow> char option list \<Rightarrow> bool" where
  "holds buf pre c post \<equiv> lays buf pre c (Some NUL) post"

lemmas holds_def = lays_def

lemma wf_buffer_iff: "wf_buffer buf \<longleftrightarrow> (\<exists>pre c post. holds buf pre c post)"
proof
  assume wf: "wf_buffer buf"
  define pre where "pre = take (boffs buf) (bmem buf)"
  define rest where "rest = drop (boffs buf) (bmem buf)"
  let ?n = "nat (blen buf)"
  have lens: "length pre = boffs buf" "?n < length rest"
    using wf by (auto simp: wf_buffer_def pre_def rest_def)
  have "map Some (map the xs) = xs" if "None \<notin> set xs" for xs :: "char option list"
    using that by (induction xs) auto
  then have dat: "map Some (map the (take ?n rest)) = take ?n rest"
    using wf unfolding wf_buffer_def rest_def by blast
  have "rest ! ?n = Some NUL" using wf by (auto simp: wf_buffer_def rest_def)
  then have "rest = take ?n rest @ Some NUL # drop (Suc ?n) rest"
    using lens(2) by (metis id_take_nth_drop)
  then have "bmem buf = pre @ map Some (map the (take ?n rest)) @ Some NUL # drop (Suc ?n) rest"
    unfolding dat by (metis append_take_drop_id pre_def rest_def)
  then have "holds buf pre (map the (take ?n rest)) (drop (Suc ?n) rest)"
    using lens wf by (auto simp: holds_def wf_buffer_def rest_def)
  then show "\<exists>pre c post. holds buf pre c post" by blast
next
  assume "\<exists>pre c post. holds buf pre c post"
  then show "wf_buffer buf" by (auto simp: holds_def wf_buffer_def nth_append)
qed

lemma holds_content: "holds buf pre c post \<Longrightarrow> content buf = c"
  by (simp add: holds_def content_def comp_def)

lemma buffer_ensure_ok:
  assumes "lays buf pre c z post" and "0 \<le> newlen"
  obtains b pre' post' where "buffer_ensure buf newlen = Some b" and "lays b pre' c z post'"
    and "newlen < bsize b"
proof -
  let ?big = "buf\<lparr>bmem := move_cells 0 (boffs buf) (nat (blen buf + 1)) (bmem buf),
                  bsize := bsize buf + int (boffs buf), boffs := 0\<rparr>"
  have n1: "nat (int (length c) + 1) = Suc (length c)" by linarith
  consider (room) "newlen < bsize buf"
    | (shift) "\<not> newlen < bsize buf" "newlen < int (boffs buf) + bsize buf \<and> int (boffs buf) > bsize buf div 4"
    | (grow) "\<not> newlen < bsize buf" "\<not> (newlen < int (boffs buf) + bsize buf \<and> int (boffs buf) > bsize buf div 4)"
    by blast
  then show ?thesis
  proof cases
    case room
    then show ?thesis using assms by (intro that [of buf pre post]) (auto simp: buffer_ensure_def)
  next
    case shift
    have "lays ?big [] c z (drop (length c + 1) (pre @ map Some c @ z # post))"
      using assms(1) unfolding holds_def by (auto simp: move_cells_def n1)
    moreover have "buffer_ensure buf newlen = Some ?big"
      using shift assms(2) by (simp add: buffer_ensure_def)
    ultimately show ?thesis using shift by (intro that) auto
  next
    case grow
    define size0 where "size0 = int (p_alloc_nr (nat (bsize buf) + boffs buf))"
    define size where "size = (if size0 < newlen + 1 then newlen + 1 else size0)"
    define keep where "keep = take (nat (blen buf + 1)) (drop (boffs buf) (bmem buf))"
    have keep: "keep = map Some c @ [z]"
      using assms(1) by (simp add: keep_def holds_def n1)
    have big: "newlen < size" "bsize buf + int (boffs buf) \<le> size"
      using assms by (auto simp: size_def size0_def p_alloc_nr_def holds_def)
    have eq: "buffer_ensure buf newlen =
        (if balloced buf \<and> boffs buf = 0
         then Some (buf\<lparr>bmem := realloc_cells (nat size) (bmem buf), bsize := size\<rparr>)
         else Some (buf\<lparr>bmem := keep @ replicate (nat size - length keep) (Some NUL),
                        boffs := 0, bsize := size, balloced := True\<rparr>))"
      unfolding buffer_ensure_def Let_def size_def size0_def keep_def
      using grow assms(2) by (simp only: if_False not_less) simp
    show ?thesis
    proof (cases "balloced buf \<and> boffs buf = 0")
      case True
      have "length (bmem buf) \<le> nat size" using big assms(1) True by (auto simp: holds_def)
      then have "lays (buf\<lparr>bmem := realloc_cells (nat size) (bmem buf), bsize := size\<rparr>) [] c z
          (post @ replicate (nat size - length (bmem buf)) None)"
        using assms(1) True big by (auto simp: holds_def realloc_cells_extend)
      then show ?thesis using True eq big by (intro that) auto
    next
      case False
      have "lays (buf\<lparr>bmem := keep @ replicate (nat size - length keep) (Some NUL),
          boffs := 0, bsize := size, balloced := True\<rparr>) [] c z
          (replicate (nat size - length keep) (Some NUL))"
        using assms(1) big by (auto simp: holds_def keep)
      then show ?thesis using False eq big by (intro that) auto
    qed
  qed
qed

lemma copy_cells_at:
  "length X = i \<Longrightarrow> length Y = length data \<Longrightarrow> copy_cells i data (X @ Y @ Z) = X @ map Some data @ Z"
  by (simp add: copy_cells_def)

lemma poke_at:
  "bmem b = X @ z # Z \<Longrightarrow> length X = boffs b + nat i \<Longrightarrow> 0 \<le> i \<Longrightarrow>
     poke b i c = Some (b\<lparr>bmem := X @ Some c # Z\<rparr>)"
  by (simp add: poke_def list_update_append)

lemma copy_in_at:
  "bmem b = X @ Y @ Z \<Longrightarrow> length X = boffs b + nat i \<Longrightarrow> length Y = length data \<Longrightarrow> 0 \<le> i \<Longrightarrow>
     copy_in b i data = Some (b\<lparr>bmem := X @ map Some data @ Z\<rparr>)"
  by (simp add: copy_in_def copy_cells_def)

lemma splice_core:
  assumes h: "holds buf pre (P @ M @ S) post"
  shows "\<exists>b pre' post'. holds b pre' (P @ data @ S) post' \<and>
    Option.bind
      (if int (length P) = 0 \<and> int (length M) + int (boffs buf) \<ge> int (length data) then
         Some (buf\<lparr>boffs := nat (int (boffs buf) + (int (length M) - int (length data))),
                   bsize := bsize buf - (int (length M) - int (length data)),
                   blen := blen buf - (int (length M) - int (length data))\<rparr>)
       else if int (length M) \<noteq> int (length data) then
         Option.bind (buffer_ensure buf (blen buf + int (length data) - int (length M))) (\<lambda>b.
           let b = b\<lparr>bmem := move_cells (boffs b + nat (int (length P) + int (length data)))
                                (boffs b + nat (int (length P) + int (length M)))
                                (nat (blen b - int (length P) - int (length M))) (bmem b)\<rparr>;
               b = b\<lparr>blen := blen b + (int (length data) - int (length M))\<rparr>
           in poke b (blen b) NUL)
       else Some buf)
      (\<lambda>b. copy_in b (int (length P)) data) = Some b"
    (is "\<exists>b pre' post'. _ \<and> Option.bind ?mid _ = _")
proof -
  consider (left) "P = []" "length M + boffs buf \<ge> length data"
    | (move) "\<not> (P = [] \<and> length M + boffs buf \<ge> length data)" "length M \<noteq> length data"
    | (over) "\<not> (P = [] \<and> length M + boffs buf \<ge> length data)" "length M = length data" by blast
  then show ?thesis
  proof cases
    case left
    define b0 where "b0 = buf\<lparr>boffs := nat (int (boffs buf) + (int (length M) - int (length data))),
                   bsize := bsize buf - (int (length M) - int (length data)),
                   blen := blen buf - (int (length M) - int (length data))\<rparr>"
    have mid: "?mid = Some b0" using left by (simp add: b0_def)
    let ?n = "length pre + length M - length data"
    have n: "boffs b0 = ?n" and le: "?n \<le> length (pre @ map Some M)"
      using left h by (auto simp: b0_def holds_def)
    have mem: "bmem b0 = take ?n (pre @ map Some M) @ drop ?n (pre @ map Some M) @
        map Some S @ Some NUL # post"
      using left h unfolding append_assoc [symmetric] append_take_drop_id
      by (simp add: b0_def holds_def)
    have "copy_in b0 (int (length P)) data =
        Some (b0\<lparr>bmem := take ?n (pre @ map Some M) @ map Some data @ map Some S @ Some NUL # post\<rparr>)"
      using left h by (intro copy_in_at [OF mem]) (auto simp: n holds_def)
    moreover have "holds (b0\<lparr>bmem := take ?n (pre @ map Some M) @ map Some data @ map Some S @ Some NUL # post\<rparr>)
        (take ?n (pre @ map Some M)) (P @ data @ S) post"
      using left h le n by (auto simp: holds_def b0_def)
    ultimately show ?thesis unfolding mid by auto
  next
    case over
    then have mid: "?mid = Some buf" by auto
    have "bmem buf = (pre @ map Some P) @ map Some M @ map Some S @ Some NUL # post"
      using h by (simp add: holds_def)
    then have "copy_in buf (int (length P)) data = Some (buf\<lparr>bmem := (pre @ map Some P) @ map Some data @
        map Some S @ Some NUL # post\<rparr>)"
      using over h by (intro copy_in_at) (auto simp: holds_def)
    moreover have "holds (buf\<lparr>bmem := (pre @ map Some P) @ map Some data @ map Some S @ Some NUL # post\<rparr>)
        pre (P @ data @ S) post"
      using h over by (auto simp: holds_def)
    ultimately show ?thesis unfolding mid by auto
  next
    case move
    have "0 \<le> blen buf + int (length data) - int (length M)" using h by (simp add: holds_def)
    from buffer_ensure_ok [OF h this] obtain g pre' post' where
      g: "buffer_ensure buf (blen buf + int (length data) - int (length M)) = Some g"
        "holds g pre' (P @ M @ S) post'" "blen buf + int (length data) - int (length M) < bsize g" .
    define Z where "Z = map Some M @ map Some S @ Some NUL # post'"
    have mem: "bmem g = (pre' @ map Some P) @ Z" using g(2) by (simp add: holds_def Z_def)
    have room: "length data + length S < length Z"
      using g(2,3) h by (simp add: holds_def Z_def)
    obtain z zs where zs: "drop (length data + length S) Z = z # zs"
      using room by (cases "drop (length data + length S) Z") auto
    have ints: "nat (int (length P) + int (length data)) = length P + length data"
      "nat (int (length P) + int (length M)) = length P + length M"
      "nat (blen g - int (length P) - int (length M)) = length S"
      using g(2) by (auto simp: holds_def)
    have src: "take (length S) (drop (boffs g + (length P + length M)) (bmem g)) = map Some S"
      using g(2) by (simp add: holds_def)
    have dst: "take (boffs g + (length P + length data)) (bmem g) = pre' @ map Some P @ take (length data) Z"
      using g(2) by (simp add: mem) (simp add: holds_def)
    have rest: "drop (boffs g + (length P + length data) + length S) (bmem g) = z # zs"
      using g(2) zs by (simp add: mem) (simp add: holds_def add.assoc)
    define b1 where "b1 = g\<lparr>bmem := pre' @ map Some P @ take (length data) Z @ map Some S @ z # zs,
        blen := blen g + (int (length data) - int (length M))\<rparr>"
    have moved: "move_cells (boffs g + (length P + length data)) (boffs g + (length P + length M)) (length S) (bmem g)
        = pre' @ map Some P @ take (length data) Z @ map Some S @ z # zs"
      by (simp only: move_cells_def src dst rest append_assoc)
    have tl: "length (take (length data) Z) = length data" using room by simp
    have mid: "?mid = poke b1 (blen b1) NUL"
    proof -
      have "?mid = Option.bind (Some g) (\<lambda>b.
           let b = b\<lparr>bmem := move_cells (boffs b + nat (int (length P) + int (length data)))
                                (boffs b + nat (int (length P) + int (length M)))
                                (nat (blen b - int (length P) - int (length M))) (bmem b)\<rparr>;
               b = b\<lparr>blen := blen b + (int (length data) - int (length M))\<rparr>
           in poke b (blen b) NUL)"
        using move by (auto simp: g(1))
      then show ?thesis by (simp add: ints moved b1_def Let_def)
    qed
    have "poke b1 (blen b1) NUL = Some (b1\<lparr>bmem := (pre' @ map Some P @ take (length data) Z @ map Some S) @ Some NUL # zs\<rparr>)"
      using g(2) tl by (intro poke_at [where z = z]) (auto simp: b1_def holds_def)
    moreover define b2 where "b2 = b1\<lparr>bmem := (pre' @ map Some P @ take (length data) Z @ map Some S) @ Some NUL # zs\<rparr>"
    moreover have "copy_in b2 (int (length P)) data
        = Some (b2\<lparr>bmem := (pre' @ map Some P) @ map Some data @ map Some S @ Some NUL # zs\<rparr>)"
      using tl g(2) by (intro copy_in_at) (auto simp: b2_def b1_def holds_def)
    moreover have "holds (b2\<lparr>bmem := (pre' @ map Some P) @ map Some data @ map Some S @ Some NUL # zs\<rparr>)
        pre' (P @ data @ S) zs"
    proof -
      have "length zs + 1 + (length data + length S) = length Z"
        using room arg_cong [OF zs, of length] by simp
      then show ?thesis using g(2) by (simp add: b2_def b1_def holds_def Z_def)
    qed
    ultimately show ?thesis unfolding mid by auto
  qed
qed

text \<open>The clamping of pos and len is what take and drop do.\<close>

lemma buffer_splice_ok:
  assumes "wf_buffer buf" and "0 \<le> pos" and "0 \<le> len"
  shows "\<exists>b. buffer_splice buf pos len data = Some b \<and> wf_buffer b \<and>
    content b = take (nat pos) (content buf) @ data @ drop (nat pos + nat len) (content buf)"
proof -
  from assms(1) obtain pre c post where h: "holds buf pre c post" by (auto simp: wf_buffer_iff)
  have bl: "blen buf = int (length c)" using h by (simp add: holds_def)
  define pos1 where "pos1 = (if pos > blen buf then blen buf else pos)"
  define len1 where "len1 = (if len > blen buf - pos1 then blen buf - pos1 else len)"
  define P where "P = take (nat pos) c"
  define M where "M = take (nat len) (drop (nat pos) c)"
  define S where "S = drop (nat pos + nat len) c"
  have c: "c = P @ M @ S"
    unfolding P_def M_def S_def by (metis append_take_drop_id drop_drop add.commute)
  have p1: "pos1 = int (length P)" using assms(2) by (auto simp: pos1_def P_def bl)
  have l1: "len1 = int (length M)" using assms(2,3) p1 by (auto simp: len1_def M_def P_def bl)
  have eq: "buffer_splice buf pos len data = Option.bind
      (if int (length P) = 0 \<and> int (length M) + int (boffs buf) \<ge> int (length data) then
         Some (buf\<lparr>boffs := nat (int (boffs buf) + (int (length M) - int (length data))),
                   bsize := bsize buf - (int (length M) - int (length data)),
                   blen := blen buf - (int (length M) - int (length data))\<rparr>)
       else if int (length M) \<noteq> int (length data) then
         Option.bind (buffer_ensure buf (blen buf + int (length data) - int (length M))) (\<lambda>b.
           let b = b\<lparr>bmem := move_cells (boffs b + nat (int (length P) + int (length data)))
                                (boffs b + nat (int (length P) + int (length M)))
                                (nat (blen b - int (length P) - int (length M))) (bmem b)\<rparr>;
               b = b\<lparr>blen := blen b + (int (length data) - int (length M))\<rparr>
           in poke b (blen b) NUL)
       else Some buf)
      (\<lambda>b. copy_in b (int (length P)) data)"
    unfolding buffer_splice_def Let_def pos1_def [symmetric] len1_def [symmetric]
    unfolding p1 l1 using assms(2,3) by simp
  from splice_core [OF h [unfolded c], of data] obtain b pre' post' where
    "buffer_splice buf pos len data = Some b" and "holds b pre' (P @ data @ S) post'"
    unfolding eq [symmetric] by blast
  then show ?thesis using holds_content [OF h] holds_content [of b]
    by (auto simp: wf_buffer_iff P_def S_def)
qed

lemma buffer_init_wf [simp]: "wf_buffer buffer_init" "content buffer_init = ''''"
  by (simp_all add: buffer_init_def wf_buffer_def content_def)

lemma content_length: "wf_buffer buf \<Longrightarrow> int (length (content buf)) = blen buf"
  by (auto simp: wf_buffer_def content_def)

lemma buffer_add_ok:
  assumes "wf_buffer buf"
  shows "\<exists>b. buffer_add buf data = Some b \<and> wf_buffer b \<and> content b = content buf @ data"
proof -
  have "0 \<le> blen buf" and "nat (blen buf) = length (content buf)"
    using assms content_length [OF assms] by (auto simp: wf_buffer_def)
  then show ?thesis
    using buffer_splice_ok [OF assms, of "blen buf" 0 data] by (simp add: buffer_add_def)
qed

lemma buffer_adds_ok:
  "wf_buffer buf \<Longrightarrow> \<exists>b. buffer_adds buf s = Some b \<and> wf_buffer b \<and> content b = content buf @ NONULL s"
  using buffer_add_ok [of buf "NONULL s"] by (simp add: buffer_adds_def buffer_add_def)

lemma buffer_vsnprintf_holds:
  assumes "holds b pre c post"
  shows "\<exists>rest. buffer_vsnprintf b out = Some (b\<lparr>bmem := pre @ map Some c @ rest\<rparr>) \<and>
    length rest = length post + 1 \<and>
    (length out \<le> length post \<longrightarrow> take (length out) rest = map Some out)"
proof -
  let ?d = "take (length post) out @ [NUL]"
  have room: "bsize b - blen b = int (length post) + 1" using assms by (simp add: holds_def)
  have ld: "length ?d \<le> length (Some NUL # post)" by simp
  have n: "nat (int (length post) + 1 - 1) = length post" by simp
  have mem: "bmem b = (pre @ map Some c) @ take (length ?d) (Some NUL # post) @ drop (length ?d) (Some NUL # post)"
    using assms by (simp add: holds_def)
  have "copy_in b (blen b) ?d = Some (b\<lparr>bmem := (pre @ map Some c) @ map Some ?d @ drop (length ?d) (Some NUL # post)\<rparr>)"
    using assms ld by (intro copy_in_at [OF mem]) (auto simp: holds_def)
  then have "buffer_vsnprintf b out = Some (b\<lparr>bmem := pre @ map Some c @ map Some ?d @ drop (length ?d) (Some NUL # post)\<rparr>)"
    by (simp add: buffer_vsnprintf_def room n Let_def)
  moreover have "length (map Some ?d @ drop (length ?d) (Some NUL # post)) = length post + 1"
    using ld by simp
  moreover have "length out \<le> length post \<Longrightarrow>
      take (length out) (map Some ?d @ drop (length ?d) (Some NUL # post)) = map Some out" by simp
  ultimately show ?thesis by blast
qed

lemma buffer_addvf_ok:
  assumes "wf_buffer buf"
  shows "\<exists>b. buffer_addvf buf out = Some b \<and> wf_buffer b \<and> content b = content buf @ out"
proof -
  from assms obtain pre c post where h: "holds buf pre c post" by (auto simp: wf_buffer_iff)
  have "0 \<le> blen buf + 8192" using h by (simp add: lays_def)
  from buffer_ensure_ok [OF h this] obtain g pre' post' where
    g: "buffer_ensure buf (blen buf + 8192) = Some g" "holds g pre' c post'" .
  from buffer_vsnprintf_holds [OF g(2), of out] obtain rest where
    r: "buffer_vsnprintf g out = Some (g\<lparr>bmem := pre' @ map Some c @ rest\<rparr>)"
      "length rest = length post' + 1" "length out \<le> length post' \<longrightarrow> take (length out) rest = map Some out"
    by blast
  define b1 where "b1 = g\<lparr>bmem := pre' @ map Some c @ rest\<rparr>"
  have step: "buffer_addvf buf out = Option.bind
        (if int (length out) \<ge> bsize b1 - blen b1
         then Option.bind (buffer_ensure b1 (blen b1 + int (length out))) (\<lambda>b. buffer_vsnprintf b out)
         else Some b1) (\<lambda>b.
      let b = b\<lparr>blen := blen b + int (length out)\<rparr> in poke b (blen b) NUL)"
    by (simp add: buffer_addvf_def g(1) r(1) b1_def Let_def)
  have finish: "\<exists>b. (let b = b0\<lparr>blen := blen b0 + int (length out)\<rparr> in poke b (blen b) NUL) = Some b \<and>
      wf_buffer b \<and> content b = content buf @ out"
    if b0: "bmem b0 = pre0 @ map Some c @ map Some out @ z # zs" "boffs b0 = length pre0"
      "blen b0 = int (length c)" "bsize b0 = int (length c + length out) + 1 + int (length zs)" for b0 pre0 z zs
  proof -
    let ?b = "b0\<lparr>blen := blen b0 + int (length out)\<rparr>"
    have "poke ?b (blen ?b) NUL = Some (?b\<lparr>bmem := (pre0 @ map Some c @ map Some out) @ Some NUL # zs\<rparr>)"
      using b0 by (intro poke_at [where z = z]) auto
    moreover have "holds (?b\<lparr>bmem := (pre0 @ map Some c @ map Some out) @ Some NUL # zs\<rparr>) pre0 (c @ out) zs"
      using b0 by (simp add: lays_def)
    ultimately show ?thesis
      using holds_content [OF h] holds_content unfolding Let_def wf_buffer_iff by blast
  qed
  show ?thesis
  proof (cases "int (length out) \<ge> bsize b1 - blen b1")
    case False
    then have fits: "length out \<le> length post'" using g(2) by (simp add: b1_def lays_def)
    obtain z zs where zs: "drop (length out) rest = z # zs"
      using fits r(2) by (cases "drop (length out) rest") auto
    have "rest = map Some out @ z # zs"
      using r(3) fits zs by (metis append_take_drop_id)
    moreover have "length out + 1 + length zs = length post' + 1"
      using r(2) calculation by simp
    ultimately show ?thesis
      unfolding step using False g(2) finish [of b1 pre' z zs] by (auto simp: b1_def lays_def)
  next
    case True
    obtain y ys where y: "rest = y # ys" using r(2) by (cases rest) auto
    have l1: "lays b1 pre' c y ys" using g(2) r(2) by (simp add: b1_def lays_def y)
    then have "0 \<le> blen b1 + int (length out)" by (simp add: lays_def)
    from buffer_ensure_ok [OF l1 this] obtain b2 pre2 post2 where
      b2: "buffer_ensure b1 (blen b1 + int (length out)) = Some b2" "lays b2 pre2 c y post2"
        "blen b1 + int (length out) < bsize b2" .
    have h2: "bmem b2 = (pre2 @ map Some c) @ take (length out + 1) (y # post2) @ drop (length out + 1) (y # post2)"
      using b2(2) by (simp add: lays_def)
    have fits: "length out \<le> length post2" using b2(2,3) l1 by (simp add: lays_def)
    have tk: "take (nat (bsize b2 - blen b2 - 1)) out = out" using b2(2) fits by (simp add: lays_def)
    have "copy_in b2 (blen b2) (out @ [NUL])
        = Some (b2\<lparr>bmem := (pre2 @ map Some c) @ map Some (out @ [NUL]) @ drop (length out + 1) (y # post2)\<rparr>)"
      using b2(2) fits by (intro copy_in_at [OF h2]) (auto simp: lays_def)
    moreover have "0 < bsize b2 - blen b2" using b2(2) by (simp add: lays_def)
    ultimately have "buffer_vsnprintf b2 out
        = Some (b2\<lparr>bmem := (pre2 @ map Some c) @ map Some (out @ [NUL]) @ drop (length out + 1) (y # post2)\<rparr>)"
      by (simp add: buffer_vsnprintf_def Let_def tk)
    then show ?thesis
      unfolding step using True b2 fits
        finish [of "b2\<lparr>bmem := (pre2 @ map Some c) @ map Some (out @ [NUL]) @ drop (length out + 1) (y # post2)\<rparr>"
          pre2 "Some NUL" "drop (length out) post2"]
      by (simp add: lays_def)
  qed
qed

text \<open>buffer_addc is safe when there is room for the character and the NUL.\<close>

lemma buffer_addc_ok:
  assumes "wf_buffer buf" and "blen buf + 1 \<noteq> bsize buf"
  shows "\<exists>b. buffer_addc buf c = Some b \<and> wf_buffer b \<and> content b = content buf @ [c]"
proof -
  from assms obtain pre s post where h: "holds buf pre s post" by (auto simp: wf_buffer_iff)
  with assms(2) obtain z zs where post: "post = z # zs" by (cases post) (auto simp: lays_def)
  have g: "buffer_grow buf 1 = Some buf" using h by (simp add: buffer_grow_def lays_def)
  have p1: "poke buf (blen buf) c = Some (buf\<lparr>bmem := (pre @ map Some s) @ Some c # z # zs\<rparr>)"
    using h by (intro poke_at [where z = "Some NUL"]) (auto simp: lays_def post)
  let ?b = "buf\<lparr>bmem := (pre @ map Some s) @ Some c # z # zs, blen := blen buf + 1\<rparr>"
  have p2: "poke ?b (blen ?b) NUL = Some (?b\<lparr>bmem := (pre @ map Some s @ [Some c]) @ Some NUL # zs\<rparr>)"
    using h by (intro poke_at [where z = z]) (auto simp: lays_def)
  have hb: "holds (?b\<lparr>bmem := (pre @ map Some s @ [Some c]) @ Some NUL # zs\<rparr>) pre (s @ [c]) zs"
    using h by (simp add: lays_def post)
  have "buffer_addc buf c = Some (?b\<lparr>bmem := (pre @ map Some s @ [Some c]) @ Some NUL # zs\<rparr>)"
    using p2 by (simp add: buffer_addc_def g p1 Let_def)
  then show ?thesis using hb holds_content [OF hb] holds_content [OF h] wf_buffer_iff by blast
qed

text \<open>
  At a full area it is not: buffer_grow compares the new length with the size by a strict
  inequality, so no room is made for the NUL and the write lands one past the area. A buffer
  just initialised is such a buffer.
\<close>

lemma buffer_addc_overflow:
  assumes "wf_buffer buf" and "blen buf + 1 = bsize buf"
  shows "buffer_addc buf c = None"
proof -
  from assms obtain pre s where h: "holds buf pre s []" by (auto simp: wf_buffer_iff lays_def)
  have g: "buffer_grow buf 1 = Some buf" using h by (simp add: buffer_grow_def lays_def)
  show ?thesis using h by (auto simp: buffer_addc_def g poke_def lays_def Let_def split: bind_splits)
qed

subsection \<open>Runs of buffer operations\<close>

datatype buffer_op = BSplice nat nat string | BAdd string | BAdds "string option" | BAddf string

primrec run_buffer :: "buffer_op \<Rightarrow> buffer \<Rightarrow> buffer option" where
  "run_buffer (BSplice pos len data) buf = buffer_splice buf (int pos) (int len) data"
| "run_buffer (BAdd data) buf = buffer_add buf data"
| "run_buffer (BAdds s) buf = buffer_adds buf s"
| "run_buffer (BAddf out) buf = buffer_addvf buf out"

primrec spec_buffer :: "buffer_op \<Rightarrow> string \<Rightarrow> string" where
  "spec_buffer (BSplice pos len data) s = take pos s @ data @ drop (pos + len) s"
| "spec_buffer (BAdd data) s = s @ data"
| "spec_buffer (BAdds x) s = s @ NONULL x"
| "spec_buffer (BAddf out) s = s @ out"

lemma run_buffer_ok:
  "wf_buffer buf \<Longrightarrow> \<exists>b. run_buffer op buf = Some b \<and> wf_buffer b \<and> content b = spec_buffer op (content buf)"
  by (cases op) (use buffer_splice_ok [of buf "int _" "int _"] in
    \<open>simp_all add: buffer_add_ok buffer_adds_ok buffer_addvf_ok\<close>)

lemma run_buffers_ok:
  "wf_buffer buf \<Longrightarrow>
   \<exists>b. run_all run_buffer ops buf = Some b \<and> wf_buffer b \<and> content b = fold spec_buffer ops (content buf)"
proof (induction ops arbitrary: buf)
  case Nil
  then show ?case by simp
next
  case (Cons op ops)
  from run_buffer_ok [OF Cons.prems, of op] obtain b where
    b: "run_buffer op buf = Some b" "wf_buffer b" "content b = spec_buffer op (content buf)" by blast
  from Cons.IH [OF b(2)] show ?case by (simp add: b(1,3))
qed

text \<open>
  The buffers of common/buffer.h never write outside their area. Any sequence of
  buffer_splice, buffer_add, buffer_adds and buffer_addf on a fresh buffer succeeds, whatever
  the positions and lengths, keeps the data NUL terminated inside the allocated area, and the
  buffer holds the text the operations give on strings: splicing clamps to the data, the
  others append, formatted output of any length included.
\<close>

theorem buffer_ops_refine_strings:
  "\<exists>b. run_all run_buffer ops buffer_init = Some b \<and> wf_buffer b \<and> content b = fold spec_buffer ops ''''"
  using run_buffers_ok [OF buffer_init_wf(1), of ops] by simp

text \<open>
  buffer_addc is the exception: on a buffer that has just been initialised it writes the
  terminating NUL one byte past the area, for buffer_grow asks for more room only when the new
  length exceeds the size, where the length plus the NUL has to fit.
\<close>

lemma buffer_addc_fresh_overflows: "buffer_addc buffer_init c = None"
  by (rule buffer_addc_overflow) (simp_all add: buffer_init_def wf_buffer_def)

end
