(* ===== verification/LuaObject.thy ===== *)
theory LuaObject
  imports CBuffer
begin

text \<open>
  The Lua side the C code works on: values, the stack operations it uses, and the reference
  counted store of src/common/luaobject.c and luaobject.h. A store is a Lua table from object
  pointers to the objects, whose metatable keeps the counts; the same code serves the global
  object registry and the environment table of every object. The store refines a multiset of
  references.
\<close>

subsection \<open>Values\<close>

text \<open>LArea is the table of a rectangle's x, y, width and height that C code builds for a signal.\<close>

datatype lval =
    LNil
  | LBool bool
  | LInt int
  | LStr string
  | LLight nat
  | LUser nat
  | LTable nat
  | LFun nat
  | LArea area
  | LCFun string

text \<open>lua_topointer: the address of a value that has one.\<close>

fun lua_topointer :: "lval \<Rightarrow> nat option" where
  "lua_topointer (LLight p) = Some p"
| "lua_topointer (LUser p) = Some p"
| "lua_topointer (LTable p) = Some p"
| "lua_topointer (LFun p) = Some p"
| "lua_topointer _ = None"

text \<open>The stack, its top last; k stands for the index -k.\<close>

type_synonym lstack = "lval list"

definition lua_at :: "lstack \<Rightarrow> nat \<Rightarrow> lval" where
  "lua_at st k = st ! (length st - k)"

definition lua_push :: "lval \<Rightarrow> lstack \<Rightarrow> lstack" where
  "lua_push v st = st @ [v]"

definition lua_pushvalue :: "nat \<Rightarrow> lstack \<Rightarrow> lstack" where
  "lua_pushvalue k st = st @ [lua_at st k]"

definition lua_remove :: "nat \<Rightarrow> lstack \<Rightarrow> lstack" where
  "lua_remove k st = take (length st - k) st @ drop (length st - k + 1) st"

definition lua_insert :: "nat \<Rightarrow> lstack \<Rightarrow> lstack" where
  "lua_insert k st = take (length st - k) st @ last st # drop (length st - k) (butlast st)"

definition lua_pop :: "nat \<Rightarrow> lstack \<Rightarrow> lstack" where
  "lua_pop n st = take (length st - n) st"

lemma lua_at_append [simp]: "lua_at (xs @ v # ys) (Suc (length ys)) = v"
  by (simp add: lua_at_def nth_append)

lemma lua_remove_append: "lua_remove (Suc (length ys)) (xs @ v # ys) = xs @ ys"
  by (simp add: lua_remove_def)

lemma lua_insert_append: "lua_insert (Suc (length ys)) (xs @ ys @ [v]) = xs @ v # ys"
  by (simp add: lua_insert_def butlast_append)

lemma lua_pop_append: "lua_pop (length ys) (xs @ ys) = xs"
  by (simp add: lua_pop_def)

subsection \<open>Reference counted stores\<close>

record store =
  items :: "nat \<Rightarrow> lval option"
  counts :: "nat \<Rightarrow> int option"

definition luaA_object_setup :: store where
  "luaA_object_setup = \<lparr>items = Map.empty, counts = Map.empty\<rparr>"

text \<open>lua_tointeger of a missing entry is 0.\<close>

definition tointeger :: "int option \<Rightarrow> int" where
  "tointeger n = (case n of None \<Rightarrow> 0 | Some k \<Rightarrow> k)"

definition luaA_object_incref :: "store \<Rightarrow> lval \<Rightarrow> nat option \<times> store" where
  "luaA_object_incref t v =
     (case lua_topointer v of
        None \<Rightarrow> (None, t)
      | Some p \<Rightarrow>
          (let t = t\<lparr>items := (items t)(p \<mapsto> v)\<rparr>;
               count = tointeger (counts t p) + 1
           in (Some p, t\<lparr>counts := (counts t)(p \<mapsto> count)\<rparr>)))"

text \<open>The boolean tells whether "BUG: Reference not found" is reported.\<close>

definition luaA_object_decref :: "store \<Rightarrow> nat option \<Rightarrow> bool \<times> store" where
  "luaA_object_decref t pointer =
     (case pointer of
        None \<Rightarrow> (False, t)
      | Some p \<Rightarrow>
          (let count = tointeger (counts t p) - 1
           in if count < 0 then (True, t)
              else
                (let t = t\<lparr>counts := (counts t)(p := (if count \<noteq> 0 then Some count else None))\<rparr>
                 in (False, if count = 0 then t\<lparr>items := (items t)(p := None)\<rparr> else t))))"

definition luaA_object_push :: "store \<Rightarrow> nat \<Rightarrow> lval" where
  "luaA_object_push t p = (case items t p of None \<Rightarrow> LNil | Some v \<Rightarrow> v)"

definition luaA_object_ref :: "store \<Rightarrow> lval \<Rightarrow> nat option \<times> store" where
  "luaA_object_ref registry v = luaA_object_incref registry v"

definition luaA_object_unref :: "store \<Rightarrow> nat option \<Rightarrow> bool \<times> store" where
  "luaA_object_unref registry p = luaA_object_decref registry p"

text \<open>
  The environment tables of the objects: luaA_object_ref_item and its relatives work on the
  store of the object they are given.
\<close>

type_synonym envs = "nat \<Rightarrow> store"

definition luaA_object_ref_item :: "envs \<Rightarrow> nat \<Rightarrow> lval \<Rightarrow> nat option \<times> envs" where
  "luaA_object_ref_item E ud v =
     (let (p, t) = luaA_object_incref (E ud) v in (p, E(ud := t)))"

definition luaA_object_unref_item :: "envs \<Rightarrow> nat \<Rightarrow> nat option \<Rightarrow> bool \<times> envs" where
  "luaA_object_unref_item E ud p =
     (let (b, t) = luaA_object_decref (E ud) p in (b, E(ud := t)))"

definition luaA_object_push_item :: "envs \<Rightarrow> nat \<Rightarrow> nat \<Rightarrow> lval" where
  "luaA_object_push_item E ud p = luaA_object_push (E ud) p"

subsection \<open>The store is a multiset of references\<close>

definition refs :: "store \<Rightarrow> nat \<Rightarrow> nat" where
  "refs t p = nat (tointeger (counts t p))"

definition wf_store :: "store \<Rightarrow> bool" where
  "wf_store t \<longleftrightarrow> dom (items t) = dom (counts t) \<and> (\<forall>p n. counts t p = Some n \<longrightarrow> 0 < n) \<and>
     (\<forall>p v. items t p = Some v \<longrightarrow> lua_topointer v = Some p)"

definition represents :: "store \<Rightarrow> nat multiset \<Rightarrow> bool" where
  "represents t M \<longleftrightarrow> wf_store t \<and> (\<forall>p. refs t p = count M p)"

lemma luaA_object_setup_represents: "represents luaA_object_setup {#}"
  by (simp add: represents_def wf_store_def luaA_object_setup_def refs_def tointeger_def)

lemma store_entry_iff:
  assumes "represents t M"
  shows "p \<in># M \<longleftrightarrow> (\<exists>n. counts t p = Some n \<and> 0 < n)" and "p \<in># M \<longleftrightarrow> (\<exists>v. items t p = Some v)"
proof -
  have wf: "wf_store t" and c: "refs t p = count M p" using assms by (auto simp: represents_def)
  have "p \<in># M \<longleftrightarrow> 0 < refs t p" by (simp add: c)
  also have "\<dots> \<longleftrightarrow> (\<exists>n. counts t p = Some n \<and> 0 < n)"
    by (auto simp: refs_def tointeger_def split: option.splits)
  finally show 1: "p \<in># M \<longleftrightarrow> (\<exists>n. counts t p = Some n \<and> 0 < n)" .
  have "(\<exists>n. counts t p = Some n \<and> 0 < n) \<longleftrightarrow> p \<in> dom (counts t)"
    using wf by (auto simp: wf_store_def)
  also have "\<dots> \<longleftrightarrow> (\<exists>v. items t p = Some v)" using wf by (auto simp: wf_store_def dom_def)
  finally show "p \<in># M \<longleftrightarrow> (\<exists>v. items t p = Some v)" using 1 by simp
qed

lemma incref_represents:
  assumes "represents t M" and "lua_topointer v = Some p"
  shows "fst (luaA_object_incref t v) = Some p"
    and "represents (snd (luaA_object_incref t v)) (add_mset p M)"
    and "luaA_object_push (snd (luaA_object_incref t v)) p = v"
proof -
  have pos: "0 \<le> tointeger (counts t p)"
    using assms(1) by (fastforce simp: represents_def wf_store_def tointeger_def split: option.splits)
  have d: "dom (items t) = dom (counts t)" using assms(1) by (simp add: represents_def wf_store_def)
  show "fst (luaA_object_incref t v) = Some p" "luaA_object_push (snd (luaA_object_incref t v)) p = v"
    using assms(2) by (simp_all add: luaA_object_incref_def luaA_object_push_def Let_def)
  have "wf_store (snd (luaA_object_incref t v))"
    using assms pos d unfolding represents_def wf_store_def
    by (auto simp: luaA_object_incref_def Let_def)
  moreover have "refs (snd (luaA_object_incref t v)) q = count (add_mset p M) q" for q
    using assms pos
    by (auto simp: represents_def luaA_object_incref_def Let_def refs_def tointeger_def nat_add_distrib)
  ultimately show "represents (snd (luaA_object_incref t v)) (add_mset p M)"
    by (simp add: represents_def)
qed

lemma incref_other:
  "lua_topointer v = None \<Longrightarrow> luaA_object_incref t v = (None, t)"
  by (simp add: luaA_object_incref_def)

lemma decref_represents:
  assumes "represents t M"
  shows "represents (snd (luaA_object_decref t (Some p))) (M - {#p#})"
    and "fst (luaA_object_decref t (Some p)) \<longleftrightarrow> p \<notin># M"
proof -
  have wf: "wf_store t" and c: "\<And>q. refs t q = count M q" using assms by (auto simp: represents_def)
  show bug: "fst (luaA_object_decref t (Some p)) \<longleftrightarrow> p \<notin># M"
    unfolding store_entry_iff(1) [OF assms] using wf
    by (fastforce simp: luaA_object_decref_def Let_def tointeger_def wf_store_def split: option.splits)
  show "represents (snd (luaA_object_decref t (Some p))) (M - {#p#})"
  proof (cases "p \<in># M")
    case False
    then have "luaA_object_decref t (Some p) = (True, t)"
      using bug by (auto simp: luaA_object_decref_def Let_def split: if_splits)
    then show ?thesis using False assms by simp
  next
    case True
    then obtain n where n: "counts t p = Some n" "0 < n"
      using store_entry_iff(1) [OF assms] by blast
    have m: "count M p = nat n" using c [of p] n by (simp add: refs_def tointeger_def)
    have "wf_store (snd (luaA_object_decref t (Some p)))"
      using wf n unfolding wf_store_def
      by (auto simp: luaA_object_decref_def Let_def tointeger_def)
    moreover have "refs (snd (luaA_object_decref t (Some p))) q = count (M - {#p#}) q" for q
      using c [of q] n m
      by (auto simp: luaA_object_decref_def Let_def tointeger_def refs_def)
    ultimately show ?thesis by (simp add: represents_def)
  qed
qed

lemma push_represents:
  "represents t M \<Longrightarrow> luaA_object_push t p \<noteq> LNil \<longleftrightarrow> p \<in># M"
  using store_entry_iff(2) [of t M p]
  by (fastforce simp: luaA_object_push_def represents_def wf_store_def split: option.splits)

subsection \<open>Runs\<close>

datatype ref_op = Ref lval | Unref nat

primrec run_ref :: "ref_op \<Rightarrow> store \<Rightarrow> store" where
  "run_ref (Ref v) t = snd (luaA_object_incref t v)"
| "run_ref (Unref p) t = snd (luaA_object_decref t (Some p))"

primrec spec_ref :: "ref_op \<Rightarrow> nat multiset \<Rightarrow> nat multiset" where
  "spec_ref (Ref v) M = (case lua_topointer v of None \<Rightarrow> M | Some p \<Rightarrow> add_mset p M)"
| "spec_ref (Unref p) M = M - {#p#}"

lemma run_ref_simulates: "represents t M \<Longrightarrow> represents (run_ref op t) (spec_ref op M)"
  by (cases op) (auto simp: incref_represents decref_represents incref_other split: option.splits)

lemma runs_simulate: "represents t M \<Longrightarrow> represents (fold run_ref ops t) (fold spec_ref ops M)"
  by (induction ops arbitrary: t M) (simp_all add: run_ref_simulates)

text \<open>
  The reference store of common/luaobject.c counts references. After any sequence of
  references and unreferences on the fresh store, the store represents the multiset the same
  sequence gives (an unreference of what is not there changes nothing), the stored value of a
  pointer is there exactly while a reference is left, and the "Reference not found" report of
  the next unreference comes exactly when no reference is left.
\<close>

theorem reference_store_counts:
  "represents (fold run_ref ops luaA_object_setup) (fold spec_ref ops {#}) \<and>
   (luaA_object_push (fold run_ref ops luaA_object_setup) p \<noteq> LNil \<longleftrightarrow> p \<in># fold spec_ref ops {#}) \<and>
   (fst (luaA_object_decref (fold run_ref ops luaA_object_setup) (Some p)) \<longleftrightarrow> p \<notin># fold spec_ref ops {#})"
  using runs_simulate [OF luaA_object_setup_represents, of ops] push_represents decref_represents(2)
  by blast

end
