(* ===== verification/Signals.thy ===== *)
theory Signals
  imports LuaObject
begin

text \<open>
  Signals: src/common/signal.h, the global signals of src/objects/signal.c and
  signal_object_emit of src/common/luaobject.c. A signal array is an ordered array of
  signals, each with the array of its functions in the order of their connection. The array
  refines a map from signal hashes to lists of functions. Emission works on the Lua stack,
  and the functions it runs may change the world, the signal array included.
\<close>

subsection \<open>The arrays\<close>

record signal =
  sid :: u64
  sigfuncs :: "nat array"

type_synonym signal_array = "signal array"

definition signal_cmp :: "signal \<Rightarrow> signal \<Rightarrow> int" where
  "signal_cmp x y = (if sid x > sid y then 1 else if sid x < sid y then -1 else 0)"

definition sig_key :: "u64 \<Rightarrow> signal" where
  "sig_key i = \<lparr>sid = i, sigfuncs = array_init\<rparr>"

definition signal_array_getbyid :: "signal_array \<Rightarrow> u64 \<Rightarrow> nat option" where
  "signal_array_getbyid arr i = barray_lookup signal_cmp arr (sig_key i)"

definition signal_array_getbyname :: "signal_array \<Rightarrow> string option \<Rightarrow> nat option" where
  "signal_array_getbyname arr name =
     barray_lookup signal_cmp arr (sig_key (a_strhash (NONULL name)))"

definition signal_at :: "signal_array \<Rightarrow> nat \<Rightarrow> signal" where
  "signal_at arr i = elems arr ! i"

definition put_signal :: "signal_array \<Rightarrow> nat \<Rightarrow> signal \<Rightarrow> signal_array" where
  "put_signal arr i s = arr\<lparr>cells := (cells arr)[i := Some s]\<rparr>"

definition signal_connect :: "signal_array \<Rightarrow> string \<Rightarrow> nat \<Rightarrow> signal_array option" where
  "signal_connect arr name ref =
     (let tok = a_strhash name in
      case signal_array_getbyid arr tok of
        Some i \<Rightarrow>
          (let s = signal_at arr i
           in Some (put_signal arr i (s\<lparr>sigfuncs := array_append (sigfuncs s) ref\<rparr>)))
      | None \<Rightarrow>
          barray_insert signal_cmp arr ((sig_key tok)\<lparr>sigfuncs := array_append array_init ref\<rparr>))"

definition signal_disconnect :: "signal_array \<Rightarrow> string option \<Rightarrow> nat \<Rightarrow> (bool \<times> signal_array) option" where
  "signal_disconnect arr name ref =
     (case signal_array_getbyname arr name of
        None \<Rightarrow> Some (False, arr)
      | Some i \<Rightarrow>
          (let s = signal_at arr i in
           case index_of ref (elems (sigfuncs s)) of
             None \<Rightarrow> Some (False, arr)
           | Some j \<Rightarrow>
               Option.bind (array_take (sigfuncs s) j) (\<lambda>(_, fs).
               let arr = put_signal arr i (s\<lparr>sigfuncs := fs\<rparr>) in
               if alen fs = 0
               then map_option (\<lambda>(_, arr). (True, arr)) (array_take arr i)
               else Some (True, arr))))"

subsection \<open>The map the array stands for\<close>

interpretation sig: barray sid signal_cmp
  by unfold_locales (auto simp: signal_cmp_def)

definition wf_signals :: "signal_array \<Rightarrow> bool" where
  "wf_signals arr \<longleftrightarrow> wf_array arr \<and> sig.ordered (elems arr) \<and>
     (\<forall>s \<in> set (elems arr). wf_array (sigfuncs s) \<and> alen (sigfuncs s) \<noteq> 0)"

definition handlers :: "signal_array \<Rightarrow> u64 \<Rightarrow> nat list" where
  "handlers arr tok =
     (case find (\<lambda>s. sid s = tok) (elems arr) of None \<Rightarrow> [] | Some s \<Rightarrow> elems (sigfuncs s))"

lemma wf_signals_init [simp]: "wf_signals array_init" "handlers array_init = (\<lambda>_. [])"
  by (simp_all add: wf_signals_def sig.ordered_def handlers_def fun_eq_iff)

lemma handlers_split:
  assumes "sig.ordered (elems arr)" and "elems arr = P @ s # S"
  shows "handlers arr (sid s) = elems (sigfuncs s)"
proof -
  have "find (\<lambda>x. sid x = sid s) P = None"
    using assms by (auto simp: sig.ordered_def sorted_wrt_append find_None_iff)
  then have "find (\<lambda>x. sid x = sid s) (P @ s # S) = Some s" by (induction P) auto
  then show ?thesis by (simp add: handlers_def assms(2))
qed

lemma find_skip: "\<not> Q s \<Longrightarrow> find Q (P @ s # S) = find Q (P @ S)"
  by (induction P) auto

lemma handlers_other:
  "elems arr = P @ s # S \<Longrightarrow> sid s \<noteq> tok \<Longrightarrow>
     handlers arr tok = (case find (\<lambda>s. sid s = tok) (P @ S) of None \<Rightarrow> [] | Some s \<Rightarrow> elems (sigfuncs s))"
  by (simp add: handlers_def find_skip)

lemma lookup_none:
  assumes "wf_signals arr" and "barray_lookup signal_cmp arr (sig_key tok) = None"
  shows "handlers arr tok = []" and "tok \<notin> sid ` set (elems arr)"
proof -
  show no: "tok \<notin> sid ` set (elems arr)"
    using sig.barray_lookup_iff [of arr "sig_key tok"] assms by (auto simp: wf_signals_def sig_key_def)
  then have "find (\<lambda>s. sid s = tok) (elems arr) = None" by (auto simp: find_None_iff)
  then show "handlers arr tok = []" by (simp add: handlers_def)
qed

lemma lookup_some:
  assumes "wf_signals arr" and "barray_lookup signal_cmp arr (sig_key tok) = Some i"
  obtains P s S where "elems arr = P @ s # S" and "length P = i" and "sid s = tok"
    and "signal_at arr i = s" and "handlers arr tok = elems (sigfuncs s)"
    and "wf_array (sigfuncs s)" and "alen (sigfuncs s) \<noteq> 0"
proof -
  have wf: "wf_array arr" "sig.ordered (elems arr)" using assms(1) by (auto simp: wf_signals_def)
  have i: "i < length (elems arr)" "sid (elems arr ! i) = tok"
    using sig.barray_lookup_correct [OF wf, of "sig_key tok"] assms(2) elems_length [OF wf(1)]
    by (auto simp: sig_key_def)
  have sp: "elems arr = take i (elems arr) @ elems arr ! i # drop (Suc i) (elems arr)"
    using i(1) by (rule id_take_nth_drop)
  show ?thesis
    using that [OF sp] i handlers_split [OF wf(2) sp] assms(1)
    by (auto simp: signal_at_def wf_signals_def)
qed

lemma put_signal_elems:
  assumes "wf_array arr" and "elems arr = P @ s # S"
  shows "wf_array (put_signal arr (length P) s')" and "elems (put_signal arr (length P) s') = P @ s' # S"
proof -
  from assms(1) obtain junk where cs: "cells arr = map Some (elems arr) @ junk"
    and al: "alen arr = length (elems arr)" by (rule wf_arrayD)
  have c: "cells (put_signal arr (length P) s') = map Some (P @ s' # S) @ junk"
    by (simp add: put_signal_def cs assms(2) list_update_append)
  have a: "alen (put_signal arr (length P) s') = length (P @ s' # S)"
    by (simp add: put_signal_def al assms(2))
  show "wf_array (put_signal arr (length P) s')" "elems (put_signal arr (length P) s') = P @ s' # S"
    using wf_arrayI [OF c a] by blast+
qed

lemma replace_signal:
  assumes wf: "wf_signals arr" and sp: "elems arr = P @ s # S"
    and s': "sid s' = sid s" "wf_array (sigfuncs s')" "alen (sigfuncs s') \<noteq> 0"
  shows "wf_signals (put_signal arr (length P) s')"
    and "handlers (put_signal arr (length P) s') = (handlers arr)(sid s := elems (sigfuncs s'))"
proof -
  have wa: "wf_array arr" and o: "sig.ordered (elems arr)" using wf by (auto simp: wf_signals_def)
  note put = put_signal_elems [OF wa sp, of s']
  have o': "sig.ordered (elems (put_signal arr (length P) s'))"
    using o s'(1) by (simp add: put sp sig.ordered_def sorted_wrt_append)
  show "wf_signals (put_signal arr (length P) s')"
    using wf o' put s'(2,3) by (auto simp: wf_signals_def sp)
  show "handlers (put_signal arr (length P) s') = (handlers arr)(sid s := elems (sigfuncs s'))"
  proof
    fix tok
    show "handlers (put_signal arr (length P) s') tok = ((handlers arr)(sid s := elems (sigfuncs s'))) tok"
      using handlers_split [OF o' put(2)] handlers_other [OF put(2), of tok] handlers_other [OF sp, of tok] s'(1)
      by (cases "tok = sid s") auto
  qed
qed

lemma drop_signal:
  assumes wf: "wf_signals arr" and sp: "elems arr = P @ s # S"
  shows "\<exists>b. array_take arr (length P) = Some (s, b) \<and> wf_signals b \<and> handlers b = (handlers arr)(sid s := [])"
proof -
  have wa: "wf_array arr" and o: "sig.ordered (elems arr)" using wf by (auto simp: wf_signals_def)
  have "length P < alen arr" using elems_length [OF wa] sp by simp
  from array_take_some [OF wa this] obtain b where
    b: "array_take arr (length P) = Some (elems arr ! length P, b)" "wf_array b"
      "elems b = take (length P) (elems arr) @ drop (Suc (length P)) (elems arr)" .
  have eb: "elems b = P @ S" by (simp add: b(3) sp)
  have "wf_signals b" using wf b(2) o by (auto simp: wf_signals_def eb sp sig.ordered_def sorted_wrt_append)
  moreover have "handlers b tok = ((handlers arr)(sid s := [])) tok" for tok
  proof (cases "tok = sid s")
    case True
    have "find (\<lambda>x. sid x = sid s) (P @ S) = None"
      using o unfolding sp find_None_iff by (auto simp: sig.ordered_def sorted_wrt_append)
    then show ?thesis using True by (simp add: handlers_def eb)
  next
    case False
    then show ?thesis using handlers_other [OF sp, of tok] by (simp add: handlers_def eb)
  qed
  ultimately show ?thesis using b(1) by (auto simp: sp)
qed

text \<open>Connecting appends the function, disconnecting removes its first occurrence.\<close>

lemma signal_connect_ok:
  assumes "wf_signals arr"
  shows "\<exists>b. signal_connect arr name ref = Some b \<and> wf_signals b \<and>
    handlers b = (handlers arr)(a_strhash name := handlers arr (a_strhash name) @ [ref])"
proof -
  let ?tok = "a_strhash name"
  have wa: "wf_array arr" and o: "sig.ordered (elems arr)" using assms by (auto simp: wf_signals_def)
  show ?thesis
  proof (cases "barray_lookup signal_cmp arr (sig_key ?tok)")
    case (Some i)
    from lookup_some [OF assms Some] obtain P s S where
      sp: "elems arr = P @ s # S" "length P = i" "sid s = ?tok" "signal_at arr i = s"
        "handlers arr ?tok = elems (sigfuncs s)" "wf_array (sigfuncs s)" .
    note ap = array_append_wf [OF sp(6), of ref]
    have ne: "alen (array_append (sigfuncs s) ref) \<noteq> 0"
      using elems_length [OF ap(1)] ap(2) by simp
    show ?thesis
      using replace_signal [OF assms sp(1), of "s\<lparr>sigfuncs := array_append (sigfuncs s) ref\<rparr>"] ap ne sp Some
      by (simp add: signal_connect_def signal_array_getbyid_def Let_def)
  next
    case None
    note no = lookup_none [OF assms None]
    let ?new = "(sig_key ?tok)\<lparr>sigfuncs := array_append array_init ref\<rparr>"
    have new: "wf_array (sigfuncs ?new)" "elems (sigfuncs ?new) = [ref]" "sid ?new = ?tok"
      using array_append_wf [OF array_init_wf(1), of ref] by (simp_all add: sig_key_def)
    then have ne: "alen (sigfuncs ?new) \<noteq> 0" using elems_length [OF new(1)] by simp
    from sig.barray_insert_correct [OF wa o, of ?new] no new(3) obtain b where
      b: "barray_insert signal_cmp arr ?new = Some b" "wf_array b" "sig.ordered (elems b)"
        "set (elems b) = insert ?new (set (elems arr))" by auto
    have wfb: "wf_signals b" using assms b new ne by (auto simp: wf_signals_def)
    have "handlers b tok = ((handlers arr)(?tok := handlers arr ?tok @ [ref])) tok" for tok
    proof (cases "tok = ?tok")
      case True
      have "?new \<in> set (elems b)" using b(4) by simp
      then obtain P S where "elems b = P @ ?new # S" by (meson split_list)
      then show ?thesis using handlers_split [OF b(3)] True no new by fastforce
    next
      case False
      have own: "handlers x tok = elems (sigfuncs s)"
        if "wf_signals x" "s \<in> set (elems x)" "sid s = tok" for x s
        using that handlers_split by (metis split_list wf_signals_def)
      have none: "handlers x tok = []" if "tok \<notin> sid ` set (elems x)" for x
        using that by (auto simp: handlers_def split: option.splits dest!: find_Some_iff [THEN iffD1]) 
      show ?thesis
      proof (cases "tok \<in> sid ` set (elems arr)")
        case True
        then obtain s where "s \<in> set (elems arr)" "sid s = tok" by auto
        then show ?thesis using own [OF assms] own [OF wfb] b(4) \<open>tok \<noteq> ?tok\<close> by simp
      next
        case out: False
        then have "tok \<notin> sid ` set (elems b)" using b(4) new(3) False by auto
        then show ?thesis using none [OF out] none [of b] False by simp
      qed
    qed
    then show ?thesis using b wfb None
      by (simp add: signal_connect_def signal_array_getbyid_def Let_def fun_eq_iff)
  qed
qed

lemma signal_disconnect_ok:
  assumes "wf_signals arr"
  shows "\<exists>b. signal_disconnect arr name ref = Some (ref \<in> set (handlers arr (a_strhash (NONULL name))), b) \<and>
    wf_signals b \<and> handlers b = (handlers arr)(a_strhash (NONULL name) :=
      remove1 ref (handlers arr (a_strhash (NONULL name))))"
proof -
  let ?tok = "a_strhash (NONULL name)"
  show ?thesis
  proof (cases "barray_lookup signal_cmp arr (sig_key ?tok)")
    case None
    then show ?thesis using lookup_none [OF assms None] assms
      by (simp add: signal_disconnect_def signal_array_getbyname_def fun_upd_idem)
  next
    case (Some i)
    from lookup_some [OF assms Some] obtain P s S where
      sp: "elems arr = P @ s # S" "length P = i" "sid s = ?tok" "signal_at arr i = s"
        "handlers arr ?tok = elems (sigfuncs s)" "wf_array (sigfuncs s)" .
    show ?thesis
    proof (cases "index_of ref (elems (sigfuncs s))")
      case None
      then have "ref \<notin> set (elems (sigfuncs s))" by (simp add: index_of_None)
      then show ?thesis using None Some sp assms
        by (simp add: signal_disconnect_def signal_array_getbyname_def Let_def
            remove1_idem fun_upd_idem)
    next
      case (Some j)
      from macro_array.take_first [OF sp(6) Some] obtain fs where
        fs: "array_take (sigfuncs s) j = Some (ref, fs)" "wf_array fs"
          "elems fs = remove1 ref (elems (sigfuncs s))" by blast
      have mem: "ref \<in> set (elems (sigfuncs s))" using Some index_of_None by (metis option.distinct(1))
      let ?arr = "put_signal arr i (s\<lparr>sigfuncs := fs\<rparr>)"
      have un: "signal_disconnect arr name ref =
          (if alen fs = 0 then map_option (\<lambda>(_, arr). (True, arr)) (array_take ?arr i) else Some (True, ?arr))"
        using \<open>barray_lookup _ _ _ = _\<close> Some sp fs(1)
        by (simp add: signal_disconnect_def signal_array_getbyname_def Let_def)
      show ?thesis
      proof (cases "alen fs = 0")
        case False
        then show ?thesis
          using replace_signal [OF assms sp(1), of "s\<lparr>sigfuncs := fs\<rparr>"] fs sp mem by (simp add: un)
      next
        case True
        then have e: "elems fs = []" using elems_length [OF fs(2)] by simp
        note wa = assms [unfolded wf_signals_def, THEN conjunct1]
        note put = put_signal_elems [OF wa sp(1), of "s\<lparr>sigfuncs := fs\<rparr>"]
        have "length P < alen ?arr" using elems_length [OF put(1)] put(2) sp(2) by simp
        from array_take_some [OF put(1) [unfolded sp(2)], of "length P"] this obtain b where
          b: "array_take ?arr i = Some (elems ?arr ! i, b)" "wf_array b"
            "elems b = take i (elems ?arr) @ drop (Suc i) (elems ?arr)" using sp(2) by metis
        have eb: "elems b = P @ S" using b(3) put(2) sp(2) by auto
        from drop_signal [OF assms sp(1)] obtain b0 where
          b0: "array_take arr (length P) = Some (s, b0)" "wf_signals b0" "handlers b0 = (handlers arr)(sid s := [])"
          by blast
        have "elems b0 = P @ S"
        proof -
          have "length P < alen arr" using elems_length [OF wa] sp(1) by simp
          from array_take_some [OF wa this] b0(1) show ?thesis by (auto simp: sp(1))
        qed
        then have "wf_signals b" and "handlers b = handlers b0"
          using b0(2) b(2) eb by (auto simp: wf_signals_def handlers_def fun_eq_iff)
        then show ?thesis using b0(3) b(1) True mem sp e fs(3) by (simp add: un)
      qed
    qed
  qed
qed

subsection \<open>Emission\<close>

text \<open>
  Running a Lua function is a parameter of the model: it may return values or raise an error
  (None), and in both cases it leaves a world of its own choosing.
\<close>

type_synonym 'w lua_call = "lval \<Rightarrow> lval list \<Rightarrow> 'w \<Rightarrow> lval list option \<times> 'w"

definition adjust :: "nat \<Rightarrow> lval list \<Rightarrow> lval list" where
  "adjust n vs = take n vs @ replicate (n - length vs) LNil"

definition luaA_dofunction ::
  "'w lua_call \<Rightarrow> nat \<Rightarrow> nat \<Rightarrow> lstack \<times> 'w \<Rightarrow> bool \<times> lstack \<times> 'w" where
  "luaA_dofunction call nargs nret = (\<lambda>(st, w).
     let st = lua_insert (nargs + 1) st;
         st = lua_push (LCFun ''luaA_dofunction_error'') st;
         st = lua_insert (nargs + 2) st;
         error_func_pos = length st - nargs - 1;
         f = lua_at st (nargs + 1);
         args = drop (length st - nargs) st;
         st = lua_pop (nargs + 1) st
     in case call f args w of
          (None, w) \<Rightarrow> (False, lua_pop 2 (lua_push (LStr ''error'') st), w)
        | (Some rs, w) \<Rightarrow>
            (let st = st @ adjust nret rs
             in (True, lua_remove (length st + 1 - error_func_pos) st, w)))"

definition emit_one :: "'w lua_call \<Rightarrow> nat \<Rightarrow> nat \<Rightarrow> nat \<Rightarrow> lstack \<times> 'w \<Rightarrow> lstack \<times> 'w" where
  "emit_one call nargs nbfunc i = (\<lambda>(st, w).
     let st = (lua_pushvalue (nargs + nbfunc - i) ^^ nargs) st;
         st = lua_pushvalue (nargs + nbfunc - i) st;
         st = lua_remove (nargs + nbfunc + 1 - i) st
     in snd (luaA_dofunction call nargs 0 (st, w)))"

definition signal_object_emit ::
  "'w lua_call \<Rightarrow> ('w \<Rightarrow> store) \<Rightarrow> signal_array \<Rightarrow> string option \<Rightarrow> nat \<Rightarrow> lstack \<times> 'w \<Rightarrow> lstack \<times> 'w" where
  "signal_object_emit call registry arr name nargs = (\<lambda>(st, w).
     let (st, w) =
       (case signal_array_getbyname arr name of
          None \<Rightarrow> (st, w)
        | Some k \<Rightarrow>
            (let funcs = sigfuncs (signal_at arr k);
                 nbfunc = alen funcs;
                 st = foldl (\<lambda>st func. lua_push (luaA_object_push (registry w) func) st) st (elems funcs)
             in fold (emit_one call nargs nbfunc) [0..<nbfunc] (st, w)))
     in (lua_pop nargs st, w))"

lemma dofunction_stack:
  assumes "length args = nargs"
  shows "snd (luaA_dofunction call nargs 0 (base @ args @ [f], w)) = (base, snd (call f args w))"
proof -
  have 1: "lua_insert (nargs + 1) (base @ args @ [f]) = base @ f # args"
    using lua_insert_append [of args base f] assms by simp
  have 2: "lua_insert (nargs + 2) (base @ f # args @ [e]) = base @ e # f # args" for e
    using lua_insert_append [of "f # args" base e] assms by simp
  have 3: "lua_at (base @ e # f # args) (nargs + 1) = f" for e
    using lua_at_append [of "base @ [e]" f args] assms by simp
  have 4: "lua_pop (nargs + 1) (base @ e # f # args) = base @ [e]" for e
    using lua_pop_append [of "f # args" "base @ [e]"] assms by simp
  have 5: "drop (length (base @ e # f # args) - nargs) (base @ e # f # args) = args" for e
    using assms by simp
  have 6: "lua_remove (length (base @ [e]) + 1 - (length (base @ e # f # args) - nargs - 1)) (base @ [e]) = base" for e
    using assms lua_remove_append [of "[]" base e] by simp
  have 7: "lua_pop 2 (base @ [e, v]) = base" for e v
    using lua_pop_append [of "[e, v]" base] by (simp add: numeral_2_eq_2)
  show ?thesis
    unfolding luaA_dofunction_def lua_push_def prod.case Let_def 1
    by (simp only: append_assoc append_Cons append_Nil 2 3 4 5 7)
      (auto simp: adjust_def 6 [simplified] split: prod.splits option.splits)
qed

lemma pushvalues:
  "length args = n \<Longrightarrow> j \<le> n \<Longrightarrow>
   (lua_pushvalue (n + length rest) ^^ j) (base @ args @ rest) = base @ args @ rest @ take j args"
proof (induction j)
  case 0
  then show ?case by simp
next
  case (Suc j)
  then have j: "j < n" by simp
  have "lua_at (base @ args @ rest @ take j args) (n + length rest) = args ! j"
    using Suc.prems j by (simp add: lua_at_def nth_append)
  then have "lua_pushvalue (n + length rest) (base @ args @ rest @ take j args)
      = base @ args @ rest @ take (Suc j) args"
    using Suc.prems j by (simp add: lua_pushvalue_def take_Suc_conv_app_nth)
  then show ?case using Suc by simp
qed

lemma emit_one_step:
  assumes "length args = nargs" and "length (f # fs) = nbfunc - i" and "i < nbfunc"
  shows "emit_one call nargs nbfunc i (base @ args @ f # fs, w) = (base @ args @ fs, snd (call f args w))"
proof -
  have k: "nargs + nbfunc - i = nargs + length (f # fs)" "nargs + nbfunc + 1 - i = Suc (nargs + length (f # fs))"
    using assms by auto
  have 1: "(lua_pushvalue (nargs + length (f # fs)) ^^ nargs) (base @ args @ f # fs) = base @ args @ f # fs @ args"
    using pushvalues [OF assms(1) order_refl, of "f # fs" base] assms(1) by simp
  have 2: "lua_pushvalue (nargs + length (f # fs)) (base @ args @ f # fs @ args) = base @ args @ f # fs @ args @ [f]"
    using lua_at_append [of "base @ args" f "fs @ args"] assms(1) by (simp add: lua_pushvalue_def add.commute)
  have 3: "lua_remove (Suc (nargs + length (f # fs))) (base @ args @ f # fs @ args @ [f]) = (base @ args @ fs) @ args @ [f]"
    using lua_remove_append [of "fs @ args @ [f]" "base @ args" f] assms(1) by (simp add: add.commute)
  show ?thesis
    unfolding emit_one_def prod.case Let_def k 1 2 3 dofunction_stack [OF assms(1)] ..
qed

lemma emit_loop:
  assumes "length args = nargs" and "length fs = nbfunc - i" and "i \<le> nbfunc"
  shows "fold (emit_one call nargs nbfunc) [i..<nbfunc] (base @ args @ fs, w) =
    (base @ args, fold (\<lambda>f w. snd (call f args w)) fs w)"
  using assms(2,3)
proof (induction fs arbitrary: i w)
  case Nil
  then show ?case by simp
next
  case (Cons f fs)
  then have i: "i < nbfunc" by auto
  then have "[i..<nbfunc] = i # [Suc i..<nbfunc]" by (rule upt_conv_Cons)
  moreover have "length fs = nbfunc - Suc i" using Cons.prems by simp
  ultimately show ?case
    using emit_one_step [OF assms(1) Cons.prems(1) i, of call base w] Cons.IH [of "Suc i"] i by simp
qed

text \<open>
  Every function connected when the emission starts runs once, in the order of connection and
  with the same arguments, whatever the functions do to the array meanwhile; the arguments are
  popped and nothing else on the stack changes.
\<close>

lemma signal_object_emit_runs:
  assumes "wf_signals arr" and "length args = nargs"
  shows "signal_object_emit call registry arr name nargs (base @ args, w) =
    (base, fold (\<lambda>func w'. snd (call (luaA_object_push (registry w) func) args w'))
              (handlers arr (a_strhash (NONULL name))) w)"
proof (cases "signal_array_getbyname arr name")
  case None
  then have "handlers arr (a_strhash (NONULL name)) = []"
    using lookup_none(1) [OF assms(1)] by (simp add: signal_array_getbyname_def)
  then show ?thesis
    using None lua_pop_append [of args base] assms(2) by (simp add: signal_object_emit_def)
next
  case (Some k)
  then obtain s where s: "signal_at arr k = s" "handlers arr (a_strhash (NONULL name)) = elems (sigfuncs s)"
    "wf_array (sigfuncs s)"
    unfolding signal_array_getbyname_def by (rule lookup_some [OF assms(1)]) blast
  have push: "foldl (\<lambda>st func. lua_push (g func) st) st xs = st @ map g xs" for g st and xs :: "nat list"
    by (induction xs arbitrary: st) (simp_all add: lua_push_def)
  let ?fs = "map (luaA_object_push (registry w)) (elems (sigfuncs s))"
  have "length ?fs = alen (sigfuncs s) - 0" using elems_length [OF s(3)] by simp
  from emit_loop [OF assms(2) this, of call base w]
  have "fold (emit_one call nargs (alen (sigfuncs s))) [0..<alen (sigfuncs s)] (base @ args @ ?fs, w) =
      (base @ args, fold (\<lambda>f w. snd (call f args w)) ?fs w)" by simp
  then show ?thesis
    using Some lua_pop_append [of args base] assms(2) s
    by (simp add: signal_object_emit_def Let_def push fold_map comp_def)
qed

subsection \<open>Runs of connections\<close>

datatype sig_op = Connect string nat | Disconnect "string option" nat

primrec run_sig :: "sig_op \<Rightarrow> signal_array \<Rightarrow> signal_array option" where
  "run_sig (Connect name ref) arr = signal_connect arr name ref"
| "run_sig (Disconnect name ref) arr = map_option snd (signal_disconnect arr name ref)"

primrec spec_sig :: "sig_op \<Rightarrow> (u64 \<Rightarrow> nat list) \<Rightarrow> u64 \<Rightarrow> nat list" where
  "spec_sig (Connect name ref) h = h(a_strhash name := h (a_strhash name) @ [ref])"
| "spec_sig (Disconnect name ref) h =
     h(a_strhash (NONULL name) := remove1 ref (h (a_strhash (NONULL name))))"

lemma run_sig_ok:
  assumes "wf_signals arr"
  shows "\<exists>b. run_sig op arr = Some b \<and> wf_signals b \<and> handlers b = spec_sig op (handlers arr)"
proof (cases op)
  case (Connect name ref)
  then show ?thesis using signal_connect_ok [OF assms] by simp
next
  case (Disconnect name ref)
  then show ?thesis using signal_disconnect_ok [OF assms, of name ref] by auto
qed

lemma run_sigs_ok:
  "wf_signals arr \<Longrightarrow>
   \<exists>b. run_all run_sig ops arr = Some b \<and> wf_signals b \<and> handlers b = fold spec_sig ops (handlers arr)"
proof (induction ops arbitrary: arr)
  case Nil
  then show ?case by simp
next
  case (Cons op ops)
  from run_sig_ok [OF Cons.prems, of op] obtain b where
    b: "run_sig op arr = Some b" "wf_signals b" "handlers b = spec_sig op (handlers arr)" by blast
  from Cons.IH [OF b(2)] show ?case by (simp add: b(1,3))
qed

text \<open>
  Signal arrays implement maps from signal hashes to lists of functions. After any
  sequence of connections and disconnections on the empty array (none of which fails an
  assertion), the array is strictly ordered by signal hash with no signal left without a
  function, the functions of each signal are those connected and not disconnected in the order
  of their connection, and each disconnection has removed the first occurrence only.
\<close>

theorem signal_ops_refine_map:
  "\<exists>arr. run_all run_sig ops array_init = Some arr \<and> wf_signals arr \<and>
     handlers arr = fold spec_sig ops (\<lambda>_. [])"
  using run_sigs_ok [OF wf_signals_init(1), of ops] by simp

text \<open>
  C37: Emitting a signal runs every function connected to it when the emission starts exactly
  once, in the order of connection, each with the emission's arguments in their order, and
  finally pops the arguments from the Lua stack and nothing else, on every signal array that
  connections and disconnections produce and whatever the functions do to the world (errors
  included).
\<close>

theorem emission_runs_handlers_in_order:
  "\<exists>arr. run_all run_sig ops array_init = Some arr \<and>
     signal_object_emit call registry arr (Some name) (length args) (base @ args, w) =
       (base, fold (\<lambda>func w'. snd (call (luaA_object_push (registry w) func) args w'))
                (fold spec_sig ops (\<lambda>_. []) (a_strhash name)) w)"
proof -
  from run_sigs_ok [OF wf_signals_init(1), of ops] obtain arr where
    "run_all run_sig ops array_init = Some arr" "wf_signals arr"
    "handlers arr = fold spec_sig ops (\<lambda>_. [])" by auto
  then show ?thesis using signal_object_emit_runs [of arr args _ call registry "Some name" base w]
    by (auto simp: NONULL_def)
qed

end
