(* ===== verification/EventQueue.thy ===== *)
theory EventQueue
  imports LuaObject
begin

text \<open>
  The event queue of src/event_queue.c: C code queues signals while it handles Wayland events
  and some_refresh delivers them to Lua. A queued event holds its object and its arguments by
  references into the Lua registry. luaL_ref belongs to Lua: the reference it returns is a
  parameter, of which the code relies on being fresh. Delivering a signal runs Lua code, which
  can queue further events: a handler is a parameter giving the calls it makes. The queue
  refines a queue of events that hold their values.
\<close>

subsection \<open>Signal names\<close>

text \<open>The table signal_names in the order of the enumeration of event_queue.h.\<close>

definition signal_names :: "string list" where
  "signal_names =
    [''property::geometry'', ''property::position'', ''property::size'', ''property::x'',
     ''property::y'', ''property::width'', ''property::height'', ''property::border_color'',
     ''property::active'', ''focus'', ''unfocus'', ''client::focus'', ''client::unfocus'',
     ''mouse::enter'', ''mouse::leave'', ''mouse::move'', ''list'', ''swapped'',
     ''request::activate'', ''request::urgent'', ''request::tag'', ''request::select'',
     ''request::secondary_activate'', ''request::context_menu'', ''request::scroll'',
     ''client::property::geometry'', ''property::enabled'', ''property::scale'',
     ''property::transform'', ''property::mode'', ''property::adaptive_sync'',
     ''property::screen'', ''property::workarea'', ''property::_viewports'',
     ''primary_changed'', ''added'', ''property::layer'', ''property::anchor'',
     ''property::exclusive_zone'', ''property::keyboard_interactive'', ''property::margin'',
     ''xkb::map_changed'', ''xkb::group_changed'', ''idle::stop'', ''dpms::on'',
     ''spawn::timeout'', ''spawn::completed'', ''switch::toggle'', ''screen::focus'',
     ''client::map'', ''client::unmap'']"

definition SIG_COUNT :: nat where "SIG_COUNT = 51"

abbreviation (input) SIG_PROPERTY_GEOMETRY :: nat where "SIG_PROPERTY_GEOMETRY \<equiv> 0"
abbreviation (input) SIG_PROPERTY_POSITION :: nat where "SIG_PROPERTY_POSITION \<equiv> 1"
abbreviation (input) SIG_PROPERTY_SIZE :: nat where "SIG_PROPERTY_SIZE \<equiv> 2"
abbreviation (input) SIG_PROPERTY_ACTIVE :: nat where "SIG_PROPERTY_ACTIVE \<equiv> 8"
abbreviation (input) SIG_FOCUS :: nat where "SIG_FOCUS \<equiv> 9"
abbreviation (input) SIG_UNFOCUS :: nat where "SIG_UNFOCUS \<equiv> 10"
abbreviation (input) SIG_MOUSE_MOVE :: nat where "SIG_MOUSE_MOVE \<equiv> 15"
abbreviation (input) SIG_LIST :: nat where "SIG_LIST \<equiv> 16"

subsection \<open>Registry references\<close>

datatype rval = RVal lval | RTable "lval list"

type_synonym slots = "int \<Rightarrow> rval option"
type_synonym fresh = "slots \<Rightarrow> int"

abbreviation (input) LUA_NOREF :: int where "LUA_NOREF \<equiv> -2"
abbreviation (input) LUA_REFNIL :: int where "LUA_REFNIL \<equiv> -1"

text \<open>What the code relies on: the reference luaL_ref returns is not in use.\<close>

definition fresh_ok :: "fresh \<Rightarrow> bool" where
  "fresh_ok fresh \<longleftrightarrow> (\<forall>s. finite (dom s) \<longrightarrow> 0 < fresh s \<and> s (fresh s) = None)"

definition luaL_ref :: "fresh \<Rightarrow> rval \<Rightarrow> slots \<Rightarrow> int \<times> slots" where
  "luaL_ref fresh v s = (if v = RVal LNil then (LUA_REFNIL, s) else (fresh s, s(fresh s \<mapsto> v)))"

definition rawgeti :: "slots \<Rightarrow> int \<Rightarrow> rval" where
  "rawgeti s r = (case s r of None \<Rightarrow> RVal LNil | Some v \<Rightarrow> v)"

subsection \<open>The queue\<close>

datatype etype = EVENT_OBJECT | EVENT_CLASS | EVENT_GLOBAL

record event =
  event_type :: etype
  signal_id :: nat
  object_ref :: int
  nargs :: nat
  args_ref :: int
  class_ptr :: "nat option"

text \<open>bad tells that luaL_unref was called on a reference not in use, which corrupts Lua's free list.\<close>

record evq =
  qbuf :: "event list"
  qcap :: nat
  qslots :: slots
  bad :: bool

definition luaL_unref :: "int \<Rightarrow> evq \<Rightarrow> evq" where
  "luaL_unref r q =
     (if r \<ge> 0 then (if qslots q r = None then q\<lparr>bad := True\<rparr>
                 else q\<lparr>qslots := (qslots q)(r := None)\<rparr>)
      else q)"

definition queue_grow :: "evq \<Rightarrow> evq" where
  "queue_grow q = q\<lparr>qcap := (if qcap q = 0 then 64 else qcap q * 2)\<rparr>"

definition queue_push :: "event \<Rightarrow> evq \<Rightarrow> evq" where
  "queue_push e q =
     (let q = (if length (qbuf q) \<ge> qcap q then queue_grow q else q) in q\<lparr>qbuf := qbuf q @ [e]\<rparr>)"

definition queue_event :: "etype \<Rightarrow> nat option \<Rightarrow> nat \<Rightarrow> event" where
  "queue_event typ cls sig =
     \<lparr>event_type = typ, signal_id = sig, object_ref = LUA_NOREF, nargs = 0,
      args_ref = LUA_NOREF, class_ptr = cls\<rparr>"

text \<open>
  queue_capture_args takes its arguments from the top of the Lua stack and pops them; the
  placeholder is the table under construction.
\<close>

definition queue_capture_args :: "fresh \<Rightarrow> nat \<Rightarrow> lstack \<Rightarrow> evq \<Rightarrow> int \<times> lstack \<times> evq" where
  "queue_capture_args fresh n st q =
     (if n \<le> 0 then (LUA_NOREF, st, q)
      else
        (let table = map (\<lambda>i. lua_at (lua_push (LTable 0) st) (n + 1 - i)) [0..<n];
             (r, s) = luaL_ref fresh (RTable table) (qslots q)
         in (r, lua_pop n st, q\<lparr>qslots := s\<rparr>)))"

definition some_event_queue_signal0 :: "fresh \<Rightarrow> lval \<Rightarrow> nat \<Rightarrow> evq \<Rightarrow> evq" where
  "some_event_queue_signal0 fresh obj sig q =
     (let (r, s) = luaL_ref fresh (RVal obj) (qslots q)
      in queue_push ((queue_event EVENT_OBJECT None sig)\<lparr>object_ref := r\<rparr>) (q\<lparr>qslots := s\<rparr>))"

definition some_event_queue_signal :: "fresh \<Rightarrow> lval \<Rightarrow> nat \<Rightarrow> nat \<Rightarrow> lstack \<times> evq \<Rightarrow> lstack \<times> evq" where
  "some_event_queue_signal fresh obj sig n = (\<lambda>(st, q).
     let (r, s) = luaL_ref fresh (RVal obj) (qslots q);
         (ar, st, q) = queue_capture_args fresh n st (q\<lparr>qslots := s\<rparr>)
     in (st, queue_push ((queue_event EVENT_OBJECT None sig)
               \<lparr>object_ref := r, nargs := n, args_ref := ar\<rparr>) q))"

definition some_event_queue_global :: "nat \<Rightarrow> evq \<Rightarrow> evq" where
  "some_event_queue_global sig q = queue_push (queue_event EVENT_GLOBAL None sig) q"

definition some_event_queue_class :: "nat \<Rightarrow> nat \<Rightarrow> evq \<Rightarrow> evq" where
  "some_event_queue_class cls sig q = queue_push (queue_event EVENT_CLASS (Some cls) sig) q"

definition some_event_queue_global_args :: "fresh \<Rightarrow> nat \<Rightarrow> nat \<Rightarrow> lstack \<times> evq \<Rightarrow> lstack \<times> evq" where
  "some_event_queue_global_args fresh sig n = (\<lambda>(st, q).
     let (ar, st, q) = queue_capture_args fresh n st q
     in (st, queue_push ((queue_event EVENT_GLOBAL None sig)\<lparr>nargs := n, args_ref := ar\<rparr>) q))"

text \<open>
  A table of string fields as the only argument: pairs are the key and value strings passed, a NULL
  value being None, and new_table gives the Lua table with the fields set in that order. has_state
  tells whether the Lua state is there.
\<close>

definition table_fields :: "(string \<times> string option) list \<Rightarrow> (string \<times> string) list" where
  "table_fields pairs = List.map_filter (\<lambda>(key, value). map_option (Pair key) value) pairs"

definition some_event_queue_global_with_table ::
  "fresh \<Rightarrow> ((string \<times> string) list \<Rightarrow> lval) \<Rightarrow> bool \<Rightarrow> nat \<Rightarrow> (string \<times> string option) list \<Rightarrow> lstack \<times> evq \<Rightarrow> lstack \<times> evq" where
  "some_event_queue_global_with_table fresh new_table has_state sig pairs = (\<lambda>(st, q).
     if \<not> has_state then (st, q)
     else some_event_queue_global_args fresh sig 1 (lua_push (new_table (table_fields pairs)) st, q))"

definition some_event_queue_class_args :: "fresh \<Rightarrow> nat \<Rightarrow> nat \<Rightarrow> nat \<Rightarrow> lstack \<times> evq \<Rightarrow> lstack \<times> evq" where
  "some_event_queue_class_args fresh cls sig n = (\<lambda>(st, q).
     let (ar, st, q) = queue_capture_args fresh n st q
     in (st, queue_push ((queue_event EVENT_CLASS (Some cls) sig)\<lparr>nargs := n, args_ref := ar\<rparr>) q))"

text \<open>The backward scan of some_event_queue_move, from index i - 1 down.\<close>

fun move_scan :: "slots \<Rightarrow> lval \<Rightarrow> event list \<Rightarrow> nat \<Rightarrow> nat option" where
  "move_scan s obj buf 0 = None"
| "move_scan s obj buf (Suc i) =
     (let existing = buf ! i in
      if signal_id existing \<noteq> SIG_MOUSE_MOVE then None
      else if rawgeti s (object_ref existing) = RVal obj then Some i
      else move_scan s obj buf i)"

definition some_event_queue_move :: "fresh \<Rightarrow> lval \<Rightarrow> int \<Rightarrow> int \<Rightarrow> evq \<Rightarrow> evq" where
  "some_event_queue_move fresh obj x y q =
     (case move_scan (qslots q) obj (qbuf q) (length (qbuf q)) of
        Some i \<Rightarrow>
          (let existing = qbuf q ! i;
               q = (if args_ref existing \<noteq> LUA_NOREF then luaL_unref (args_ref existing) q else q);
               (ar, s) = luaL_ref fresh (RTable [LInt x, LInt y]) (qslots q)
           in q\<lparr>qslots := s, qbuf := (qbuf q)[i := existing\<lparr>args_ref := ar\<rparr>]\<rparr>)
      | None \<Rightarrow>
          (let (r, s) = luaL_ref fresh (RVal obj) (qslots q);
               (ar, s) = luaL_ref fresh (RTable [LInt x, LInt y]) s
           in queue_push ((queue_event EVENT_OBJECT None SIG_MOUSE_MOVE)
                \<lparr>nargs := 2, object_ref := r, args_ref := ar\<rparr>) (q\<lparr>qslots := s\<rparr>)))"

subsection \<open>Draining\<close>

datatype delivery =
    DGlobal string "lval list"
  | DClass "nat option" string "lval list"
  | DObject lval string "lval list"

text \<open>The calls a handler can make into the queue.\<close>

datatype qop =
    QSignal0 lval nat
  | QSignal lval nat "lval list"
  | QGlobal nat
  | QClass nat nat
  | QGlobalArgs nat "lval list"
  | QClassArgs nat nat "lval list"
  | QMove lval int int

primrec run_qop :: "fresh \<Rightarrow> qop \<Rightarrow> evq \<Rightarrow> evq" where
  "run_qop fresh (QSignal0 obj sig) q = some_event_queue_signal0 fresh obj sig q"
| "run_qop fresh (QSignal obj sig args) q =
     snd (some_event_queue_signal fresh obj sig (length args) (obj # args, q))"
| "run_qop fresh (QGlobal sig) q = some_event_queue_global sig q"
| "run_qop fresh (QClass cls sig) q = some_event_queue_class cls sig q"
| "run_qop fresh (QGlobalArgs sig args) q =
     snd (some_event_queue_global_args fresh sig (length args) (args, q))"
| "run_qop fresh (QClassArgs cls sig args) q =
     snd (some_event_queue_class_args fresh cls sig (length args) (args, q))"
| "run_qop fresh (QMove obj x y) q = some_event_queue_move fresh obj x y q"

type_synonym 'w handler = "delivery \<Rightarrow> 'w \<Rightarrow> qop list \<times> 'w"

fun table_get :: "rval \<Rightarrow> nat \<Rightarrow> lval" where
  "table_get (RTable vs) j = (if 1 \<le> j \<and> j \<le> length vs then vs ! (j - 1) else LNil)"
| "table_get (RVal v) j = LNil"

definition drain_unpack_args :: "slots \<Rightarrow> event \<Rightarrow> lval list" where
  "drain_unpack_args s e =
     (if args_ref e = LUA_NOREF then []
      else map (table_get (rawgeti s (args_ref e))) [1..<nargs e + 1])"

definition delivery_of :: "slots \<Rightarrow> event \<Rightarrow> delivery option" where
  "delivery_of s e =
     (if signal_id e \<ge> SIG_COUNT then None
      else
        (let name = signal_names ! signal_id e in
         if event_type e = EVENT_GLOBAL then Some (DGlobal name (drain_unpack_args s e))
         else if event_type e = EVENT_CLASS
         then Some (DClass (class_ptr e) name (drain_unpack_args s e))
         else if object_ref e = LUA_NOREF then None
         else (case rawgeti s (object_ref e) of
                 RVal obj \<Rightarrow> Some (DObject obj name (drain_unpack_args s e))
               | RTable _ \<Rightarrow> Some (DObject (LTable 0) name (drain_unpack_args s e)))))"

definition drain_event :: "fresh \<Rightarrow> 'w handler \<Rightarrow> nat \<Rightarrow> evq \<times> 'w \<Rightarrow> evq \<times> 'w" where
  "drain_event fresh handler i = (\<lambda>(q, w).
     let e = qbuf q ! i;
         (q, w) =
           (case delivery_of (qslots q) e of
              None \<Rightarrow> (q, w)
            | Some d \<Rightarrow> (let (ops, w) = handler d w in (fold (run_qop fresh) ops q, w)));
         q = (if object_ref e \<noteq> LUA_NOREF then luaL_unref (object_ref e) q else q);
         q = (if args_ref e \<noteq> LUA_NOREF then luaL_unref (args_ref e) q else q)
     in (q, w))"

definition some_event_queue_drain :: "fresh \<Rightarrow> 'w handler \<Rightarrow> evq \<times> 'w \<Rightarrow> evq \<times> 'w" where
  "some_event_queue_drain fresh handler = (\<lambda>(q, w).
     let count = length (qbuf q);
         (q, w) = fold (drain_event fresh handler) [0..<count] (q, w)
     in (if length (qbuf q) > count then q\<lparr>qbuf := drop count (qbuf q)\<rparr> else q\<lparr>qbuf := []\<rparr>, w))"

definition some_event_queue_pending :: "evq \<Rightarrow> bool" where
  "some_event_queue_pending q \<longleftrightarrow> length (qbuf q) > 0"

definition some_event_queue_init :: "slots \<Rightarrow> evq" where
  "some_event_queue_init s = \<lparr>qbuf = [], qcap = 0, qslots = s, bad = False\<rparr>"

definition some_event_queue_reset :: "bool \<Rightarrow> evq \<Rightarrow> evq" where
  "some_event_queue_reset L q =
     (let q = (if L then fold (\<lambda>e q. luaL_unref (args_ref e) (luaL_unref (object_ref e) q)) (qbuf q) q
               else q)
      in q\<lparr>qbuf := []\<rparr>)"

definition some_event_queue_wipe :: "bool \<Rightarrow> evq \<Rightarrow> evq" where
  "some_event_queue_wipe L q =
     (let q = (if L then
                 fold (\<lambda>e q.
                   let q = (if object_ref e \<noteq> LUA_NOREF then luaL_unref (object_ref e) q else q)
                   in if args_ref e \<noteq> LUA_NOREF then luaL_unref (args_ref e) q else q) (qbuf q) q
               else q)
      in q\<lparr>qbuf := [], qcap := 0\<rparr>)"

text \<open>The table variant leaves the caller's stack and queues one argument.\<close>

lemma global_with_table_queues:
  "some_event_queue_global_with_table fresh new_table True sig pairs (st, q) =
    (st, run_qop fresh (QGlobalArgs sig [new_table (table_fields pairs)]) q)"
  by (simp add: some_event_queue_global_with_table_def some_event_queue_global_args_def queue_capture_args_def
      lua_at_def lua_push_def lua_pop_def split: prod.split)

subsection \<open>The abstract queue\<close>

text \<open>An event with its values: type, object, class, signal and arguments.\<close>

datatype aevent = AEvent (atype: etype) (aobj: "lval option") (acls: "nat option") (asig: nat) (aargs: "lval list")

fun ascan :: "lval \<Rightarrow> aevent list \<Rightarrow> nat \<Rightarrow> nat option" where
  "ascan obj A 0 = None"
| "ascan obj A (Suc i) =
     (if asig (A ! i) \<noteq> SIG_MOUSE_MOVE then None
      else if aobj (A ! i) = Some obj then Some i
      else ascan obj A i)"

primrec aop :: "qop \<Rightarrow> aevent list \<Rightarrow> aevent list" where
  "aop (QSignal0 obj sig) A = A @ [AEvent EVENT_OBJECT (Some obj) None sig []]"
| "aop (QSignal obj sig args) A = A @ [AEvent EVENT_OBJECT (Some obj) None sig args]"
| "aop (QGlobal sig) A = A @ [AEvent EVENT_GLOBAL None None sig []]"
| "aop (QClass cls sig) A = A @ [AEvent EVENT_CLASS None (Some cls) sig []]"
| "aop (QGlobalArgs sig args) A = A @ [AEvent EVENT_GLOBAL None None sig args]"
| "aop (QClassArgs cls sig args) A = A @ [AEvent EVENT_CLASS None (Some cls) sig args]"
| "aop (QMove obj x y) A =
     (let e = AEvent EVENT_OBJECT (Some obj) None SIG_MOUSE_MOVE [LInt x, LInt y] in
      case ascan obj A (length A) of Some i \<Rightarrow> A[i := e] | None \<Rightarrow> A @ [e])"

fun adelivery :: "aevent \<Rightarrow> delivery option" where
  "adelivery (AEvent typ ob cls sig args) =
     (if sig \<ge> SIG_COUNT then None
      else
        (case typ of
           EVENT_GLOBAL \<Rightarrow> Some (DGlobal (signal_names ! sig) args)
         | EVENT_CLASS \<Rightarrow> Some (DClass cls (signal_names ! sig) args)
         | EVENT_OBJECT \<Rightarrow> map_option (\<lambda>obj. DObject obj (signal_names ! sig) args) ob))"

definition adrain_event :: "'w handler \<Rightarrow> aevent \<Rightarrow> aevent list \<times> 'w \<Rightarrow> aevent list \<times> 'w" where
  "adrain_event handler a = (\<lambda>(N, w).
     case adelivery a of
       None \<Rightarrow> (N, w)
     | Some d \<Rightarrow> (let (ops, w) = handler d w in (fold aop ops N, w)))"

definition adrain :: "'w handler \<Rightarrow> aevent list \<times> 'w \<Rightarrow> aevent list \<times> 'w" where
  "adrain handler = (\<lambda>(A, w). fold (adrain_event handler) A ([], w))"

subsection \<open>Ownership of the references\<close>

definition live_e :: "event \<Rightarrow> int list" where
  "live_e e = filter (\<lambda>r. 0 \<le> r) [object_ref e, args_ref e]"

definition live :: "event list \<Rightarrow> int list" where
  "live L = concat (map live_e L)"

definition deref :: "slots \<Rightarrow> event \<Rightarrow> aevent" where
  "deref s e = AEvent (event_type e)
     (if object_ref e = LUA_NOREF then None
      else Some (case rawgeti s (object_ref e) of RVal v \<Rightarrow> v | RTable _ \<Rightarrow> LNil))
     (class_ptr e) (signal_id e) (drain_unpack_args s e)"

definition event_ok :: "slots \<Rightarrow> event \<Rightarrow> bool" where
  "event_ok s e \<longleftrightarrow>
     (object_ref e = LUA_NOREF \<longleftrightarrow> event_type e \<noteq> EVENT_OBJECT) \<and> LUA_NOREF \<le> object_ref e \<and>
     (0 \<le> object_ref e \<longrightarrow> (\<exists>v. s (object_ref e) = Some (RVal v))) \<and>
     (args_ref e = LUA_NOREF \<and> nargs e = 0 \<or>
      0 \<le> args_ref e \<and> (\<exists>vs. s (args_ref e) = Some (RTable vs) \<and> length vs = nargs e)) \<and>
     (signal_id e = SIG_MOUSE_MOVE \<longrightarrow> event_type e = EVENT_OBJECT \<and> class_ptr e = None \<and> nargs e = 2)"

text \<open>The references of the events are exactly what the queue owns; others is the rest of the registry.\<close>

definition owned :: "slots \<Rightarrow> slots \<Rightarrow> event list \<Rightarrow> bool" where
  "owned others s L \<longleftrightarrow> distinct (live L) \<and> finite (dom s) \<and>
     (\<forall>r. r \<notin> set (live L) \<longrightarrow> s r = others r) \<and> (\<forall>r \<in> set (live L). others r = None \<and> s r \<noteq> None) \<and>
     (\<forall>r < 0. others r = None) \<and> (\<forall>e \<in> set L. event_ok s e)"

definition queue_repr :: "slots \<Rightarrow> evq \<Rightarrow> aevent list \<Rightarrow> bool" where
  "queue_repr others q A \<longleftrightarrow> \<not> bad q \<and> owned others (qslots q) (qbuf q) \<and> A = map (deref (qslots q)) (qbuf q)"

lemma live_simps [simp]: "live [] = []" "live (e # L) = live_e e @ live L" "live (L @ M) = live L @ live M"
  by (simp_all add: live_def)

lemma live_nonneg: "r \<in> set (live L) \<Longrightarrow> 0 \<le> r"
  by (auto simp: live_def live_e_def split: if_splits)

lemma deref_cong:
  assumes "\<And>r. r \<in> set (live_e e) \<Longrightarrow> s' r = s r" and "\<And>r. r < 0 \<Longrightarrow> s' r = s r"
  shows "deref s' e = deref s e" and "event_ok s' e = event_ok s e"
proof -
  have "s' (object_ref e) = s (object_ref e)"
    using assms(1) [of "object_ref e"] assms(2) [of "object_ref e"]
    by (cases "0 \<le> object_ref e") (simp_all add: live_e_def)
  moreover have "s' (args_ref e) = s (args_ref e)"
    using assms(1) [of "args_ref e"] assms(2) [of "args_ref e"]
    by (cases "0 \<le> args_ref e") (simp_all add: live_e_def)
  ultimately show "deref s' e = deref s e" "event_ok s' e = event_ok s e"
    by (simp_all add: deref_def event_ok_def drain_unpack_args_def rawgeti_def)
qed

lemma owned_neg:
  assumes "owned others s L" and "r < 0" shows "s r = None"
proof -
  have "r \<notin> set (live L)" using assms(2) live_nonneg [of r L] by auto
  then show ?thesis using assms by (simp add: owned_def)
qed

lemma owned_append:
  assumes "owned others s L" and "distinct (live_e e)" and "event_ok s' e" and "finite (dom s')"
    and "\<And>r. r \<notin> set (live_e e) \<Longrightarrow> s' r = s r"
    and "\<And>r. r \<in> set (live_e e) \<Longrightarrow> s r = None \<and> s' r \<noteq> None"
  shows "owned others s' (L @ [e])" and "e' \<in> set L \<Longrightarrow> deref s' e' = deref s e'"
proof -
  have new: "set (live_e e) \<inter> set (live L) = {}" using assms(1,6) by (fastforce simp: owned_def)
  have neg: "s' r = s r" if "r < 0" for r
    using that assms(5) by (force simp: live_e_def split: if_splits)
  have sub: "set (live_e x) \<subseteq> set (live L)" if "x \<in> set L" for x using that by (auto simp: live_def)
  have same: "deref s' x = deref s x \<and> event_ok s' x = event_ok s x" if "x \<in> set L" for x
    using deref_cong [of x s' s] neg assms(5) new sub [OF that] by blast
  have oth: "others r = None" if "r \<in> set (live_e e)" for r
    using that new assms(1) assms(6) [OF that] unfolding owned_def by (metis disjoint_iff)
  have old: "s' r = s r \<and> others r = None \<and> s r \<noteq> None" if "r \<in> set (live L)" for r
    using that new assms(1,5) unfolding owned_def by blast
  have "\<forall>r \<in> set (live (L @ [e])). others r = None \<and> s' r \<noteq> None"
    using old oth assms(6) by auto
  moreover have "\<forall>r. r \<notin> set (live (L @ [e])) \<longrightarrow> s' r = others r"
    using assms(1,5) by (auto simp: owned_def)
  moreover have "distinct (live (L @ [e]))" using assms(1,2) new by (auto simp: owned_def)
  moreover have "\<forall>x \<in> set (L @ [e]). event_ok s' x" using assms(1,3) same by (auto simp: owned_def)
  ultimately show "owned others s' (L @ [e])" using assms(1,4) by (simp add: owned_def)
  show "e' \<in> set L \<Longrightarrow> deref s' e' = deref s e'" using same by blast
qed

text \<open>Releasing the references of the first event.\<close>

definition release :: "event \<Rightarrow> slots \<Rightarrow> slots" where
  "release e s = (\<lambda>r. if r \<in> set (live_e e) then None else s r)"

lemma owned_release:
  assumes "owned others s (e # L)"
  shows "owned others (release e s) L" and "e' \<in> set L \<Longrightarrow> deref (release e s) e' = deref s e'"
proof -
  have disj: "set (live_e e) \<inter> set (live L) = {}" using assms by (auto simp: owned_def)
  have neg: "release e s r = s r" if "r < 0" for r
    using that by (auto simp: release_def live_e_def split: if_splits)
  have sub: "set (live_e x) \<subseteq> set (live L)" if "x \<in> set L" for x using that by (auto simp: live_def)
  have same: "deref (release e s) x = deref s x \<and> event_ok (release e s) x = event_ok s x" if "x \<in> set L" for x
  proof -
    have "release e s r = s r" if "r \<in> set (live_e x)" for r
      using that disj sub [OF \<open>x \<in> set L\<close>] by (auto simp: release_def)
    then show ?thesis using deref_cong [of x "release e s" s] neg by simp
  qed
  have "dom (release e s) \<subseteq> dom s" by (auto simp: release_def dom_def split: if_splits)
  then have "finite (dom (release e s))" using assms finite_subset by (auto simp: owned_def)
  then show "owned others (release e s) L"
    using assms same disj unfolding owned_def by (auto simp: release_def)
  show "e' \<in> set L \<Longrightarrow> deref (release e s) e' = deref s e'" using same by blast
qed

lemma unref_event:
  assumes "owned others (qslots q) (e # L)" and "\<not> bad q"
  shows "(let q = (if object_ref e \<noteq> LUA_NOREF then luaL_unref (object_ref e) q else q)
          in if args_ref e \<noteq> LUA_NOREF then luaL_unref (args_ref e) q else q) = q\<lparr>qslots := release e (qslots q)\<rparr>"
    and "luaL_unref (args_ref e) (luaL_unref (object_ref e) q) = q\<lparr>qslots := release e (qslots q)\<rparr>"
proof -
  have d: "distinct (live_e e)" and n: "\<forall>r \<in> set (live_e e). qslots q r \<noteq> None" and ok: "event_ok (qslots q) e"
    using assms(1) by (auto simp: owned_def)
  show 2: "luaL_unref (args_ref e) (luaL_unref (object_ref e) q) = q\<lparr>qslots := release e (qslots q)\<rparr>"
    using d n by (cases "0 \<le> object_ref e"; cases "0 \<le> args_ref e")
      (auto simp: luaL_unref_def live_e_def release_def fun_eq_iff)
  have "luaL_unref LUA_NOREF x = x" for x by (simp add: luaL_unref_def)
  then show "(let q = (if object_ref e \<noteq> LUA_NOREF then luaL_unref (object_ref e) q else q)
          in if args_ref e \<noteq> LUA_NOREF then luaL_unref (args_ref e) q else q) = q\<lparr>qslots := release e (qslots q)\<rparr>"
    using 2 by (auto simp: Let_def)
qed

subsection \<open>Every call keeps the representation\<close>

text \<open>The event a call pushes, with its object and arguments stored in the registry.\<close>

definition push_new :: "fresh \<Rightarrow> etype \<Rightarrow> lval option \<Rightarrow> nat option \<Rightarrow> nat \<Rightarrow> lval list \<Rightarrow> evq \<Rightarrow> evq" where
  "push_new fresh typ ob cls sig args q =
     (let (r, s) = (case ob of None \<Rightarrow> (LUA_NOREF, qslots q) | Some v \<Rightarrow> luaL_ref fresh (RVal v) (qslots q));
          (ar, s) = (if args = [] then (LUA_NOREF, s) else luaL_ref fresh (RTable args) s)
      in queue_push \<lparr>event_type = typ, signal_id = sig, object_ref = r, nargs = length args,
                     args_ref = ar, class_ptr = cls\<rparr> (q\<lparr>qslots := s\<rparr>))"

lemma capture_args:
  "queue_capture_args fresh (length args) (base @ args) q =
     (if args = [] then (LUA_NOREF, base, q)
      else (let (r, s) = luaL_ref fresh (RTable args) (qslots q) in (r, base, q\<lparr>qslots := s\<rparr>)))"
proof -
  have "lua_at (lua_push t (base @ args)) (length args + 1 - i) = args ! i" if "i < length args" for i t
    using that by (simp add: lua_at_def lua_push_def nth_append)
  then have "map (\<lambda>i. lua_at (lua_push t (base @ args)) (length args + 1 - i)) [0..<length args] = args" for t
    by (intro nth_equalityI) simp_all
  then show ?thesis by (simp add: queue_capture_args_def lua_pop_append Let_def)
qed

lemma queue_push_fields [simp]:
  "qbuf (queue_push e q) = qbuf q @ [e]" "qslots (queue_push e q) = qslots q" "bad (queue_push e q) = bad q"
  by (simp_all add: queue_push_def queue_grow_def Let_def)

lemma run_qop_push:
  "run_qop fresh (QSignal0 obj sig) q = push_new fresh EVENT_OBJECT (Some obj) None sig [] q"
  "run_qop fresh (QSignal obj sig args) q = push_new fresh EVENT_OBJECT (Some obj) None sig args q"
  "run_qop fresh (QGlobal sig) q = push_new fresh EVENT_GLOBAL None None sig [] q"
  "run_qop fresh (QClass cls sig) q = push_new fresh EVENT_CLASS None (Some cls) sig [] q"
  "run_qop fresh (QGlobalArgs sig args) q = push_new fresh EVENT_GLOBAL None None sig args q"
  "run_qop fresh (QClassArgs cls sig args) q = push_new fresh EVENT_CLASS None (Some cls) sig args q"
  using capture_args [of fresh args "[obj]"] capture_args [of fresh args "[]"]
  by (auto simp: push_new_def queue_event_def some_event_queue_signal0_def some_event_queue_signal_def
      some_event_queue_global_def some_event_queue_class_def some_event_queue_global_args_def
      some_event_queue_class_args_def split: prod.splits)

lemma luaL_ref_cases:
  assumes "fresh_ok fresh" and "finite (dom s)" and "luaL_ref fresh v s = (r, s')"
  shows "v = RVal LNil \<and> r = LUA_REFNIL \<and> s' = s \<or> v \<noteq> RVal LNil \<and> 0 < r \<and> s r = None \<and> s' = s(r \<mapsto> v)"
  using assms by (auto simp: luaL_ref_def fresh_ok_def split: if_splits)

lemma push_new_ok:
  assumes fr: "fresh_ok fresh" and own: "owned others (qslots q) L" and nb: "\<not> bad q"
    and ty: "ob = None \<longleftrightarrow> typ \<noteq> EVENT_OBJECT"
    and mv: "sig = SIG_MOUSE_MOVE \<Longrightarrow> typ = EVENT_OBJECT \<and> cls = None \<and> length args = 2"
  shows "\<exists>e. qbuf (push_new fresh typ ob cls sig args q) = qbuf q @ [e] \<and>
    owned others (qslots (push_new fresh typ ob cls sig args q)) (L @ [e]) \<and>
    \<not> bad (push_new fresh typ ob cls sig args q) \<and>
    (\<forall>e' \<in> set L. deref (qslots (push_new fresh typ ob cls sig args q)) e' = deref (qslots q) e') \<and>
    deref (qslots (push_new fresh typ ob cls sig args q)) e = AEvent typ ob cls sig args"
proof -
  let ?s = "qslots q"
  have fin: "finite (dom ?s)" using own by (simp add: owned_def)
  have neg: "\<And>r. r < 0 \<Longrightarrow> ?s r = None" using owned_neg [OF own] .
  obtain r s1 where rs: "(r, s1) = (case ob of None \<Rightarrow> (LUA_NOREF, ?s) | Some v \<Rightarrow> luaL_ref fresh (RVal v) ?s)"
    by (metis surj_pair)
  have r: "ob = None \<and> r = LUA_NOREF \<and> s1 = ?s \<or> ob = Some LNil \<and> r = LUA_REFNIL \<and> s1 = ?s \<or>
      (\<exists>v. ob = Some v \<and> v \<noteq> LNil \<and> 0 < r \<and> ?s r = None \<and> s1 = ?s(r \<mapsto> RVal v))"
    using rs luaL_ref_cases [OF fr fin, of _ r s1] by (cases ob) (auto dest!: sym [of "(r, s1)"])
  then have fin1: "finite (dom s1)" using fin by auto
  obtain ar s2 where ars: "(ar, s2) = (if args = [] then (LUA_NOREF, s1) else luaL_ref fresh (RTable args) s1)"
    by (metis surj_pair)
  have a: "args = [] \<and> ar = LUA_NOREF \<and> s2 = s1 \<or>
      args \<noteq> [] \<and> 0 < ar \<and> s1 ar = None \<and> s2 = s1(ar \<mapsto> RTable args)"
    using ars luaL_ref_cases [OF fr fin1, of "RTable args" ar s2] by (auto split: if_splits dest: sym)
  define e where "e = \<lparr>event_type = typ, signal_id = sig, object_ref = r, nargs = length args,
                     args_ref = ar, class_ptr = cls\<rparr>"
  have eq: "push_new fresh typ ob cls sig args q = queue_push e (q\<lparr>qslots := s2\<rparr>)"
    by (simp add: push_new_def rs [symmetric] ars [symmetric] e_def)
  have lv: "set (live_e e) = {x. x = r \<and> 0 < r \<or> x = ar \<and> 0 < ar}"
    using r a by (auto simp: live_e_def e_def)
  have dist: "distinct (live_e e)" using r a by (auto simp: live_e_def e_def split: if_splits)
  have ok: "event_ok s2 e" using r a ty mv by (auto simp: event_ok_def e_def)
  have fin2: "finite (dom s2)" using a fin1 by auto
  have out: "s2 x = ?s x" if "x \<notin> set (live_e e)" for x using r a that by (auto simp: lv)
  have inn: "?s x = None \<and> s2 x \<noteq> None" if "x \<in> set (live_e e)" for x
    using r a that by (auto simp: lv split: if_splits)
  note ap = owned_append [OF own dist ok fin2 out inn]
  have ra: "ar \<noteq> r" if "0 < ar" "0 < r" using that r a by auto
  have tb: "map (table_get (RTable args)) [1..<length args + 1] = args"
    by (intro nth_equalityI) (simp_all del: upt_Suc)
  have rg: "rawgeti s2 ar = RTable args" if "args \<noteq> []" using a that by (auto simp: rawgeti_def)
  have args: "drain_unpack_args s2 e = args"
    using a tb rg by (auto simp: drain_unpack_args_def e_def)
  have obj: "(if object_ref e = LUA_NOREF then None
      else Some (case rawgeti s2 (object_ref e) of RVal v \<Rightarrow> v | RTable _ \<Rightarrow> LNil)) = ob"
    using r a ra neg [of LUA_REFNIL] by (auto simp: rawgeti_def e_def)
  have "deref s2 e = AEvent typ ob cls sig args"
    unfolding deref_def args obj by (simp add: e_def)
  then show ?thesis using ap nb by (auto simp: eq)
qed

text \<open>The calls that are not mouse moves never use the mouse move id.\<close>

primrec qop_ok :: "qop \<Rightarrow> bool" where
  "qop_ok (QSignal0 obj sig) \<longleftrightarrow> sig \<noteq> SIG_MOUSE_MOVE"
| "qop_ok (QSignal obj sig args) \<longleftrightarrow> sig \<noteq> SIG_MOUSE_MOVE"
| "qop_ok (QGlobal sig) \<longleftrightarrow> sig \<noteq> SIG_MOUSE_MOVE"
| "qop_ok (QClass cls sig) \<longleftrightarrow> sig \<noteq> SIG_MOUSE_MOVE"
| "qop_ok (QGlobalArgs sig args) \<longleftrightarrow> sig \<noteq> SIG_MOUSE_MOVE"
| "qop_ok (QClassArgs cls sig args) \<longleftrightarrow> sig \<noteq> SIG_MOUSE_MOVE"
| "qop_ok (QMove obj x y) \<longleftrightarrow> True"

primrec is_move :: "qop \<Rightarrow> bool" where
  "is_move (QSignal0 obj sig) \<longleftrightarrow> False"
| "is_move (QSignal obj sig args) \<longleftrightarrow> False"
| "is_move (QGlobal sig) \<longleftrightarrow> False"
| "is_move (QClass cls sig) \<longleftrightarrow> False"
| "is_move (QGlobalArgs sig args) \<longleftrightarrow> False"
| "is_move (QClassArgs cls sig args) \<longleftrightarrow> False"
| "is_move (QMove obj x y) \<longleftrightarrow> True"

lemma owned_append_left: "owned others s (L @ M) \<Longrightarrow> e \<in> set L \<union> set M \<Longrightarrow> event_ok s e"
  by (auto simp: owned_def)

lemma move_scan_skip:
  assumes "E = [] \<or> signal_id (last E) \<noteq> SIG_MOUSE_MOVE" and "k \<le> length N"
    and "\<And>e. e \<in> set N \<Longrightarrow> event_ok s e" and "\<And>r. r < 0 \<Longrightarrow> s r = None"
  shows "move_scan s obj (E @ N) (length E + k) =
    map_option (\<lambda>j. length E + j) (ascan obj (map (deref s) N) k)"
  using assms(2)
proof (induction k)
  case 0
  show ?case
  proof (cases E rule: rev_cases)
    case Nil
    then show ?thesis by simp
  next
    case (snoc E' e)
    then have "signal_id e \<noteq> SIG_MOUSE_MOVE" using assms(1) by simp
    then show ?thesis using snoc by (simp add: nth_append)
  qed
next
  case (Suc k)
  let ?e = "N ! k"
  have ok: "event_ok s ?e" using Suc.prems assms(3) by simp
  have at: "(E @ N) ! (length E + k) = ?e" by (simp add: nth_append)
  have same: "rawgeti s (object_ref ?e) = RVal obj \<longleftrightarrow> aobj (deref s ?e) = Some obj"
    if "signal_id ?e = SIG_MOUSE_MOVE"
  proof -
    have "object_ref ?e \<noteq> LUA_NOREF" using ok that by (simp add: event_ok_def)
    moreover have "\<exists>v. rawgeti s (object_ref ?e) = RVal v"
      using ok assms(4) [of "object_ref ?e"] by (cases "0 \<le> object_ref ?e") (auto simp: event_ok_def rawgeti_def)
    ultimately show ?thesis by (auto simp: deref_def)
  qed
  have asg: "asig (deref s ?e) = signal_id ?e" by (simp add: deref_def)
  show ?case
    using Suc same by (cases "signal_id ?e = SIG_MOUSE_MOVE") (simp_all add: at asg Let_def)
qed

lemma ascan_bound: "ascan obj A k = Some i \<Longrightarrow> i < k \<and> asig (A ! i) = SIG_MOUSE_MOVE \<and> aobj (A ! i) = Some obj"
  by (induction k) (auto split: if_splits)

text \<open>Replacing the arguments of an event: its old reference is released, a new one taken.\<close>

lemma replace_args_ok:
  assumes fr: "fresh_ok fresh" and own: "owned others (qslots q) (A @ e # B)" and nb: "\<not> bad q"
    and mv: "signal_id e = SIG_MOUSE_MOVE"
    and q1: "q1 = (if args_ref e \<noteq> LUA_NOREF then luaL_unref (args_ref e) q else q)"
    and r: "luaL_ref fresh (RTable [LInt x, LInt y]) (qslots q1) = (ar, s)"
  shows "owned others s (A @ e\<lparr>args_ref := ar\<rparr> # B)" and "\<not> bad q1" and "qbuf q1 = qbuf q"
    and "\<And>e'. e' \<in> set A \<union> set B \<Longrightarrow> deref s e' = deref (qslots q) e'"
    and "deref s (e\<lparr>args_ref := ar\<rparr>) =
      AEvent EVENT_OBJECT (aobj (deref (qslots q) e)) None SIG_MOUSE_MOVE [LInt x, LInt y]"
proof -
  let ?s = "qslots q" and ?e = "e\<lparr>args_ref := ar\<rparr>" and ?o = "object_ref e" and ?a = "args_ref e"
  have ok: "event_ok ?s e" and fin: "finite (dom ?s)" using own by (auto simp: owned_def)
  have shape: "event_type e = EVENT_OBJECT" "class_ptr e = None" "nargs e = 2" "0 \<le> ?a"
    using ok mv by (auto simp: event_ok_def)
  have d: "distinct (live A @ live_e e @ live B)" and nn: "\<forall>z \<in> set (live_e e). ?s z \<noteq> None"
    using own by (auto simp: owned_def)
  have ain: "?a \<in> set (live_e e)" using shape by (simp add: live_e_def)
  have q1': "q1 = q\<lparr>qslots := ?s(?a := None)\<rparr>"
    using shape nn ain by (auto simp: q1 luaL_unref_def)
  show "\<not> bad q1" "qbuf q1 = qbuf q" using nb by (simp_all add: q1')
  have "finite (dom (?s(?a := None)))" using fin by simp
  from luaL_ref_cases [OF fr this, of "RTable [LInt x, LInt y]" ar s] r
  have s: "0 < ar" "ar \<noteq> ?a \<longrightarrow> ?s ar = None" "s = ?s(?a := None, ar \<mapsto> RTable [LInt x, LInt y])"
    by (auto simp: q1' split: if_splits)
  have ao: "?a \<notin> set (live A) \<union> set (live B) \<union> {z. z = ?o \<and> 0 \<le> z}"
    using d shape by (auto simp: live_e_def split: if_splits)
  have arl: "ar \<notin> set (live A) \<union> set (live B) \<union> {z. z = ?o \<and> 0 \<le> z}"
  proof (cases "ar = ?a")
    case True
    then show ?thesis using ao by simp
  next
    case False
    then have "?s ar = None" using s(2) by simp
    moreover have "?s z \<noteq> None" if "z \<in> set (live A) \<union> set (live B) \<union> set (live_e e)" for z
      using that own by (auto simp: owned_def)
    ultimately have "ar \<notin> set (live A) \<union> set (live B) \<union> set (live_e e)" by blast
    then show ?thesis by (auto simp: live_e_def split: if_splits)
  qed
  have eq: "s z = ?s z" if "z \<noteq> ?a" "z \<noteq> ar" for z using that s(3) by simp
  have neg: "s z = ?s z" if "z < 0" for z using that eq [of z] s(1) shape(4) by auto
  have same: "deref s e' = deref ?s e' \<and> event_ok s e' = event_ok ?s e'" if "e' \<in> set A \<union> set B" for e'
  proof -
    have "set (live_e e') \<subseteq> set (live A) \<union> set (live B)" using that by (auto simp: live_def)
    then have "s z = ?s z" if "z \<in> set (live_e e')" for z
      using that eq [of z] ao arl by blast
    then show ?thesis using deref_cong [of e' s ?s] neg by simp
  qed
  then show "\<And>e'. e' \<in> set A \<union> set B \<Longrightarrow> deref s e' = deref ?s e'" by blast
  have so: "s ?o = ?s ?o" using eq [of ?o] neg [of ?o] ao arl by (cases "0 \<le> ?o") auto
  have sa: "s ar = Some (RTable [LInt x, LInt y])" using s(3) by simp
  show "deref s ?e = AEvent EVENT_OBJECT (aobj (deref ?s e)) None SIG_MOUSE_MOVE [LInt x, LInt y]"
    using shape mv sa s(1) so
    by (cases "?o = LUA_NOREF") (simp_all add: deref_def drain_unpack_args_def rawgeti_def upt_rec)
  have oke: "event_ok s ?e" using ok shape mv sa s(1) so by (simp add: event_ok_def)
  have le: "live_e ?e = filter (\<lambda>z. 0 \<le> z) [?o] @ [ar]" using s(1) by (simp add: live_e_def)
  have oth: "others ar = None" and otha: "others ?a = None"
  proof -
    show "others ?a = None" using own ain by (auto simp: owned_def)
    then show "others ar = None" using s(2) own arl d
    proof (cases "ar = ?a")
      case False
      then have "ar \<notin> set (live (A @ e # B))" using arl by (auto simp: live_e_def split: if_splits)
      then show ?thesis using own s(2) False by (auto simp: owned_def)
    qed simp
  qed
  have "distinct (live (A @ ?e # B))"
    using d arl by (auto simp: le live_e_def split: if_splits)
  moreover have "finite (dom s)" using fin by (simp add: s(3))
  moreover have "s z = others z" if "z \<notin> set (live (A @ ?e # B))" for z
  proof -
    have "z \<noteq> ar" using that by (simp add: le)
    then show ?thesis
    proof (cases "z = ?a")
      case True
      then show ?thesis using \<open>z \<noteq> ar\<close> s(3) otha by simp
    next
      case False
      then have "z \<notin> set (live (A @ e # B))"
        using that by (auto simp: le live_e_def split: if_splits)
      then show ?thesis using own eq [OF False \<open>z \<noteq> ar\<close>] by (simp add: owned_def)
    qed
  qed
  moreover have "others z = None \<and> s z \<noteq> None" if "z \<in> set (live (A @ ?e # B))" for z
  proof (cases "z = ar")
    case True
    then show ?thesis using oth sa by simp
  next
    case False
    then have "z \<in> set (live A) \<union> set (live B) \<union> {z. z = ?o \<and> 0 \<le> z}"
      using that by (auto simp: le split: if_splits)
    then have "z \<noteq> ?a" and "z \<in> set (live (A @ e # B))"
      using ao by (auto simp: live_e_def)
    then show ?thesis using own eq [OF _ False] by (simp add: owned_def)
  qed
  moreover have "\<forall>e' \<in> set (A @ ?e # B). event_ok s e'"
    using own same oke by (auto simp: owned_def)
  moreover have "\<forall>r<0. others r = None" using own by (simp add: owned_def)
  ultimately show "owned others s (A @ ?e # B)" by (simp add: owned_def)
qed

text \<open>
  A call while the events E are being delivered, of which those in D are still to come: it
  works on the events N queued since.
\<close>

definition during :: "slots \<Rightarrow> evq \<Rightarrow> event list \<Rightarrow> event list \<Rightarrow> event list \<Rightarrow> bool" where
  "during others q E D N \<longleftrightarrow> qbuf q = E @ N \<and> owned others (qslots q) (D @ N) \<and> \<not> bad q"

definition op_safe :: "event list \<Rightarrow> qop \<Rightarrow> bool" where
  "op_safe E op \<longleftrightarrow> qop_ok op \<and> (E = [] \<or> signal_id (last E) \<noteq> SIG_MOUSE_MOVE \<or> \<not> is_move op)"

lemma push_new_during:
  assumes "fresh_ok fresh" and "during others q E D N"
    and "ob = None \<longleftrightarrow> typ \<noteq> EVENT_OBJECT"
    and "sig = SIG_MOUSE_MOVE \<Longrightarrow> typ = EVENT_OBJECT \<and> cls = None \<and> length args = 2"
  shows "\<exists>N'. during others (push_new fresh typ ob cls sig args q) E D N' \<and>
    map (deref (qslots (push_new fresh typ ob cls sig args q))) D = map (deref (qslots q)) D \<and>
    map (deref (qslots (push_new fresh typ ob cls sig args q))) N' =
      map (deref (qslots q)) N @ [AEvent typ ob cls sig args]"
proof -
  let ?q = "push_new fresh typ ob cls sig args q"
  have own: "owned others (qslots q) (D @ N)" and nb: "\<not> bad q" and b: "qbuf q = E @ N"
    using assms(2) by (auto simp: during_def)
  from push_new_ok [OF assms(1) own nb assms(3,4)] obtain e where
    e: "qbuf ?q = qbuf q @ [e]" "owned others (qslots ?q) ((D @ N) @ [e])" "\<not> bad ?q"
      "\<forall>e' \<in> set (D @ N). deref (qslots ?q) e' = deref (qslots q) e'"
      "deref (qslots ?q) e = AEvent typ ob cls sig args" by blast
  show ?thesis using e b by (intro exI [of _ "N @ [e]"]) (simp add: during_def)
qed

lemma run_qop_ok:
  assumes fr: "fresh_ok fresh" and du: "during others q E D N" and safe: "op_safe E op"
  shows "\<exists>N'. during others (run_qop fresh op q) E D N' \<and>
    map (deref (qslots (run_qop fresh op q))) D = map (deref (qslots q)) D \<and>
    map (deref (qslots (run_qop fresh op q))) N' = aop op (map (deref (qslots q)) N)"
proof (cases op)
  case (QMove obj x y)
  have own: "owned others (qslots q) (D @ N)" and nb: "\<not> bad q" and b: "qbuf q = E @ N"
    using du by (auto simp: during_def)
  have le: "E = [] \<or> signal_id (last E) \<noteq> SIG_MOUSE_MOVE" using safe QMove by (simp add: op_safe_def)
  have okN: "event_ok (qslots q) e" if "e \<in> set N" for e using own that by (auto simp: owned_def)
  have scan: "move_scan (qslots q) obj (qbuf q) (length (qbuf q)) =
      map_option (\<lambda>j. length E + j) (ascan obj (map (deref (qslots q)) N) (length N))"
    using move_scan_skip [OF le order_refl okN owned_neg [OF own]] by (simp add: b)
  show ?thesis
  proof (cases "ascan obj (map (deref (qslots q)) N) (length N)")
    case None
    have "run_qop fresh op q = push_new fresh EVENT_OBJECT (Some obj) None SIG_MOUSE_MOVE [LInt x, LInt y] q"
      using None scan by (simp add: QMove some_event_queue_move_def push_new_def queue_event_def
          numeral_2_eq_2 split: prod.splits)
    then show ?thesis
      using push_new_during [OF fr du, of "Some obj" EVENT_OBJECT SIG_MOUSE_MOVE None "[LInt x, LInt y]"] None
      by (simp add: QMove Let_def)
  next
    case (Some j)
    from ascan_bound [OF Some] have j: "j < length N" "signal_id (N ! j) = SIG_MOUSE_MOVE"
      "aobj (deref (qslots q) (N ! j)) = Some obj" by (auto simp: deref_def)
    define A where "A = take j N"
    define B where "B = drop (Suc j) N"
    define e where "e = N ! j"
    have N: "N = A @ e # B" using j by (simp add: A_def B_def e_def id_take_nth_drop)
    have lA: "length A = j" using j by (simp add: A_def)
    define q1 where "q1 = (if args_ref e \<noteq> LUA_NOREF then luaL_unref (args_ref e) q else q)"
    obtain ar s where r: "luaL_ref fresh (RTable [LInt x, LInt y]) (qslots q1) = (ar, s)" by force
    have own': "owned others (qslots q) ((D @ A) @ e # B)" using own by (simp add: N)
    note rep = replace_args_ok [OF fr own' nb j(2) [folded e_def] q1_def r]
    let ?e = "e\<lparr>args_ref := ar\<rparr>"
    have at: "qbuf q ! (length E + j) = e" by (simp add: b e_def nth_append)
    have run: "run_qop fresh op q = q1\<lparr>qslots := s, qbuf := E @ A @ ?e # B\<rparr>"
      using Some scan rep(3)
      by (simp add: QMove some_event_queue_move_def at Let_def q1_def [symmetric] r)
        (simp add: b N lA list_update_append)
    have dur: "during others (run_qop fresh op q) E D (A @ ?e # B)"
      using rep(1,2) by (simp add: run during_def)
    have "deref s ?e = AEvent EVENT_OBJECT (Some obj) None SIG_MOUSE_MOVE [LInt x, LInt y]"
      using rep(5) j(3) by (simp add: e_def)
    moreover have "aop op (map (deref (qslots q)) N) = (map (deref (qslots q)) N)
        [j := AEvent EVENT_OBJECT (Some obj) None SIG_MOUSE_MOVE [LInt x, LInt y]]"
      using Some by (simp add: QMove Let_def)
    moreover have "deref s e' = deref (qslots q) e'" if "e' \<in> set D \<union> set A \<union> set B" for e'
      using rep(4) that by auto
    ultimately have "map (deref s) (A @ ?e # B) = aop op (map (deref (qslots q)) N)"
      "map (deref s) D = map (deref (qslots q)) D"
      by (simp_all add: N lA list_update_append)
    then show ?thesis using dur by (auto simp: run)
  qed
next
  case (QSignal0 obj sig)
  then show ?thesis using push_new_during [OF fr du, of "Some obj" EVENT_OBJECT sig None "[]"] safe
    by (simp add: run_qop_push op_safe_def del: run_qop.simps)
next
  case (QSignal obj sig args)
  then show ?thesis using push_new_during [OF fr du, of "Some obj" EVENT_OBJECT sig None args] safe
    by (simp add: run_qop_push op_safe_def del: run_qop.simps)
next
  case (QGlobal sig)
  then show ?thesis using push_new_during [OF fr du, of None EVENT_GLOBAL sig None "[]"] safe
    by (simp add: run_qop_push op_safe_def del: run_qop.simps)
next
  case (QClass cls sig)
  then show ?thesis using push_new_during [OF fr du, of None EVENT_CLASS sig "Some cls" "[]"] safe
    by (simp add: run_qop_push op_safe_def del: run_qop.simps)
next
  case (QGlobalArgs sig args)
  then show ?thesis using push_new_during [OF fr du, of None EVENT_GLOBAL sig None args] safe
    by (simp add: run_qop_push op_safe_def del: run_qop.simps)
next
  case (QClassArgs cls sig args)
  then show ?thesis using push_new_during [OF fr du, of None EVENT_CLASS sig "Some cls" args] safe
    by (simp add: run_qop_push op_safe_def del: run_qop.simps)
qed

lemma run_qops_ok:
  assumes "fresh_ok fresh" and "during others q E D N" and "\<forall>op \<in> set ops. op_safe E op"
  shows "\<exists>N'. during others (fold (run_qop fresh) ops q) E D N' \<and>
    map (deref (qslots (fold (run_qop fresh) ops q))) D = map (deref (qslots q)) D \<and>
    map (deref (qslots (fold (run_qop fresh) ops q))) N' = fold aop ops (map (deref (qslots q)) N)"
  using assms(2,3)
proof (induction ops arbitrary: q N)
  case Nil
  then show ?case by auto
next
  case (Cons op ops)
  from run_qop_ok [OF assms(1) Cons.prems(1), of op] Cons.prems(2) obtain N1 where
    1: "during others (run_qop fresh op q) E D N1"
      "map (deref (qslots (run_qop fresh op q))) D = map (deref (qslots q)) D"
      "map (deref (qslots (run_qop fresh op q))) N1 = aop op (map (deref (qslots q)) N)" by auto
  from Cons.IH [OF 1(1)] Cons.prems(2) 1(2,3) show ?case by auto
qed

lemma delivery_deref:
  assumes "event_ok s e" and "\<And>r. r < 0 \<Longrightarrow> s r = None"
  shows "delivery_of s e = adelivery (deref s e)"
proof -
  have "\<exists>v. rawgeti s (object_ref e) = RVal v" if "object_ref e \<noteq> LUA_NOREF"
    using assms that by (cases "0 \<le> object_ref e") (auto simp: event_ok_def rawgeti_def)
  then show ?thesis using assms(1)
    by (cases "event_type e") (auto simp: delivery_of_def deref_def event_ok_def Let_def)
qed

lemma drain_event_ok:
  assumes fr: "fresh_ok fresh" and du: "during others q E (e # D) N" and i: "E ! i = e" "i < length E"
    and safe: "\<forall>d w. \<forall>op \<in> set (fst (handler d w)). op_safe E op"
    and run: "drain_event fresh handler i (q, w) = (q', w')"
  shows "\<exists>N'. during others q' E D N' \<and> map (deref (qslots q')) D = map (deref (qslots q)) D \<and>
    (map (deref (qslots q')) N', w') =
      adrain_event handler (deref (qslots q) e) (map (deref (qslots q)) N, w)"
proof -
  have own: "owned others (qslots q) ((e # D) @ N)" and b: "qbuf q = E @ N"
    using du by (auto simp: during_def)
  have ok: "event_ok (qslots q) e" using own by (simp add: owned_def)
  have at: "qbuf q ! i = e" using i by (simp add: b nth_append)
  have dl: "delivery_of (qslots q) e = adelivery (deref (qslots q) e)"
    by (rule delivery_deref [OF ok owned_neg [OF own]])
  define ops where "ops = (case adelivery (deref (qslots q) e) of None \<Rightarrow> [] | Some d \<Rightarrow> fst (handler d w))"
  define w1 where "w1 = (case adelivery (deref (qslots q) e) of None \<Rightarrow> w | Some d \<Rightarrow> snd (handler d w))"
  let ?q1 = "fold (run_qop fresh) ops q"
  have "\<forall>op \<in> set ops. op_safe E op" using safe by (auto simp: ops_def split: option.splits)
  from run_qops_ok [OF fr du this] obtain N' where
    1: "during others ?q1 E (e # D) N'" "map (deref (qslots ?q1)) (e # D) = map (deref (qslots q)) (e # D)"
      "map (deref (qslots ?q1)) N' = fold aop ops (map (deref (qslots q)) N)" by blast
  have own1: "owned others (qslots ?q1) (e # (D @ N'))" and nb1: "\<not> bad ?q1"
    using 1(1) by (auto simp: during_def)
  have q': "q' = ?q1\<lparr>qslots := release e (qslots ?q1)\<rparr>" and w': "w' = w1"
    using run unref_event(1) [OF own1 nb1]
    by (auto simp: drain_event_def at dl ops_def w1_def Let_def split: option.splits prod.splits)
  note rel = owned_release [OF own1]
  have "during others q' E D N'"
    using 1(1) rel(1) by (simp add: q' during_def)
  moreover have "map (deref (qslots q')) D = map (deref (qslots q)) D"
    using 1(2) rel(2) by (simp add: q')
  moreover have "map (deref (qslots q')) N' = fold aop ops (map (deref (qslots q)) N)"
    using 1(3) rel(2) by (simp add: q' cong: map_cong)
  moreover have "adrain_event handler (deref (qslots q) e) (map (deref (qslots q)) N, w) =
      (fold aop ops (map (deref (qslots q)) N), w1)"
    by (auto simp: adrain_event_def ops_def w1_def split: option.splits prod.splits)
  ultimately show ?thesis using w' by auto
qed

lemma drain_events_ok:
  assumes fr: "fresh_ok fresh"
    and safe: "\<forall>d w. \<forall>op \<in> set (fst (handler d w)). op_safe E op"
    and "during others q E (drop i E) N" and "i \<le> length E"
  shows "\<exists>q' w' N'. fold (drain_event fresh handler) [i..<length E] (q, w) = (q', w') \<and>
    during others q' E [] N' \<and>
    (map (deref (qslots q')) N', w') =
      fold (adrain_event handler) (map (deref (qslots q)) (drop i E)) (map (deref (qslots q)) N, w)"
  using assms(3,4)
proof (induction "length E - i" arbitrary: i q w N)
  case 0
  then show ?case by auto
next
  case (Suc n)
  then have i: "i < length E" by simp
  have dr: "drop i E = E ! i # drop (Suc i) E" using i by (simp add: Cons_nth_drop_Suc)
  obtain q1 w1 where 1: "drain_event fresh handler i (q, w) = (q1, w1)" by force
  from drain_event_ok [OF fr Suc.prems(1) [unfolded dr] refl i safe 1] obtain N1 where
    2: "during others q1 E (drop (Suc i) E) N1"
      "map (deref (qslots q1)) (drop (Suc i) E) = map (deref (qslots q)) (drop (Suc i) E)"
      "(map (deref (qslots q1)) N1, w1) = adrain_event handler (deref (qslots q) (E ! i)) (map (deref (qslots q)) N, w)"
    by blast
  have "n = length E - Suc i" using Suc.hyps(2) by simp
  from Suc.hyps(1) [OF this 2(1), of w1] i obtain q' w' N' where
    3: "fold (drain_event fresh handler) [Suc i..<length E] (q1, w1) = (q', w')" "during others q' E [] N'"
      "(map (deref (qslots q')) N', w') = fold (adrain_event handler) (map (deref (qslots q1)) (drop (Suc i) E))
        (map (deref (qslots q1)) N1, w1)" by auto
  have "[i..<length E] = i # [Suc i..<length E]" using i by (rule upt_conv_Cons)
  then have "fold (drain_event fresh handler) [i..<length E] (q, w) = (q', w')"
    using 1 3(1) by simp
  moreover have "(map (deref (qslots q')) N', w') =
      fold (adrain_event handler) (map (deref (qslots q)) (drop i E)) (map (deref (qslots q)) N, w)"
    using 3(3) unfolding 2(2,3) dr by simp
  ultimately show ?case using 3(2) by blast
qed

lemma queue_repr_during: "queue_repr others q A \<longleftrightarrow> during others q [] [] (qbuf q) \<and> A = map (deref (qslots q)) (qbuf q)"
  by (auto simp: queue_repr_def during_def)

lemma drain_ok:
  assumes fr: "fresh_ok fresh" and rep: "queue_repr others q A"
    and ops: "\<And>d w op. op \<in> set (fst (handler d w)) \<Longrightarrow> qop_ok op"
    and mv: "A = [] \<or> asig (last A) \<noteq> SIG_MOUSE_MOVE \<or> (\<forall>d w op. op \<in> set (fst (handler d w)) \<longrightarrow> \<not> is_move op)"
  shows "\<exists>q' A' w'. some_event_queue_drain fresh handler (q, w) = (q', w') \<and>
    adrain handler (A, w) = (A', w') \<and> queue_repr others q' A'"
proof -
  let ?E = "qbuf q"
  have A: "A = map (deref (qslots q)) ?E" using rep by (simp add: queue_repr_def)
  have du: "during others q ?E (drop 0 ?E) []"
    using rep by (simp add: queue_repr_def during_def)
  have safe: "\<forall>d w. \<forall>op \<in> set (fst (handler d w)). op_safe ?E op"
    using ops mv by (cases "?E = []") (auto simp: op_safe_def A last_map deref_def)
  from drain_events_ok [OF fr safe du, of w] obtain q' w' N' where
    1: "fold (drain_event fresh handler) [0..<length ?E] (q, w) = (q', w')" "during others q' ?E [] N'"
      "(map (deref (qslots q')) N', w') = fold (adrain_event handler) A ([], w)"
    by (auto simp: A)
  have dr: "some_event_queue_drain fresh handler (q, w) = (q'\<lparr>qbuf := N'\<rparr>, w')"
    using 1(1,2) by (cases N') (simp_all add: some_event_queue_drain_def during_def)
  have "queue_repr others (q'\<lparr>qbuf := N'\<rparr>) (map (deref (qslots q')) N')"
    using 1(2) by (simp add: queue_repr_def during_def)
  then show ?thesis using dr 1(3) [symmetric] by (auto simp: adrain_def)
qed

lemma run_qops_repr:
  assumes "fresh_ok fresh" and "queue_repr others q A" and "\<forall>op \<in> set ops. qop_ok op"
  shows "queue_repr others (fold (run_qop fresh) ops q) (fold aop ops A)"
proof -
  have du: "during others q [] [] (qbuf q)" and A: "A = map (deref (qslots q)) (qbuf q)"
    using assms(2) by (auto simp: queue_repr_during)
  have "\<forall>op \<in> set ops. op_safe [] op" using assms(3) by (simp add: op_safe_def)
  from run_qops_ok [OF assms(1) du this] obtain N' where
    "during others (fold (run_qop fresh) ops q) [] [] N'"
    "map (deref (qslots (fold (run_qop fresh) ops q))) N' = fold aop ops A" by (auto simp: A)
  then show ?thesis by (auto simp: queue_repr_during during_def)
qed

lemma init_repr:
  "finite (dom others) \<Longrightarrow> \<forall>r<0. others r = None \<Longrightarrow> queue_repr others (some_event_queue_init others) []"
  by (simp add: queue_repr_def some_event_queue_init_def owned_def)

lemma release_all:
  assumes "owned others (qslots q) L" and "\<not> bad q"
  shows "fold (\<lambda>e q. luaL_unref (args_ref e) (luaL_unref (object_ref e) q)) L q = q\<lparr>qslots := others\<rparr>"
  using assms
proof (induction L arbitrary: q)
  case Nil
  then have "qslots q = others" by (auto simp: owned_def)
  then show ?case by simp
next
  case (Cons e L)
  note un = unref_event(2) [OF Cons.prems]
  show ?case
    using Cons.IH [of "q\<lparr>qslots := release e (qslots q)\<rparr>"] owned_release(1) [OF Cons.prems(1)] Cons.prems(2)
    by (simp add: un)
qed

lemma reset_ok:
  "queue_repr others q A \<Longrightarrow> some_event_queue_reset True q = q\<lparr>qslots := others, qbuf := []\<rparr>"
  using release_all [of others q "qbuf q"] by (simp add: queue_repr_def some_event_queue_reset_def)

lemma wipe_ok:
  assumes "queue_repr others q A"
  shows "some_event_queue_wipe True q = q\<lparr>qslots := others, qbuf := [], qcap := 0\<rparr>"
proof -
  have un: "luaL_unref LUA_NOREF x = x" for x by (simp add: luaL_unref_def)
  have eq: "(\<lambda>e q. let q = (if object_ref e \<noteq> LUA_NOREF then luaL_unref (object_ref e) q else q)
        in if args_ref e \<noteq> LUA_NOREF then luaL_unref (args_ref e) q else q)
      = (\<lambda>e q. luaL_unref (args_ref e) (luaL_unref (object_ref e) q))"
    by (auto simp: fun_eq_iff Let_def un)
  then show ?thesis
    unfolding some_event_queue_wipe_def eq
    using release_all [of others q "qbuf q"] assms by (simp add: queue_repr_def)
qed

text \<open>An allocator that meets the assumption: one more than every reference in use.\<close>

definition fresh_max :: fresh where
  "fresh_max s = Max (insert 0 (dom s)) + 1"

lemma fresh_max_ok: "fresh_ok fresh_max"
proof -
  have "0 < fresh_max s \<and> s (fresh_max s) = None" if "finite (dom s)" for s
  proof -
    have ge: "x \<le> Max (insert 0 (dom s))" if "x \<in> insert 0 (dom s)" for x
      using that \<open>finite (dom s)\<close> by simp
    then have "0 < fresh_max s" using ge [of 0] by (simp add: fresh_max_def)
    moreover have "fresh_max s \<notin> dom s" using ge [of "fresh_max s"] by (auto simp: fresh_max_def)
    ultimately show ?thesis by (simp add: domIff)
  qed
  then show ?thesis by (simp add: fresh_ok_def)
qed

lemma signal_names_complete: "length signal_names = SIG_COUNT" "distinct signal_names"
  by (simp_all add: signal_names_def SIG_COUNT_def)

text \<open>
  C7: The event queue refines a queue of events that hold their values. After any sequence of
  calls on the fresh queue the registry holds exactly the references of the queued events and
  what it held before, every event's object and arguments are the values the call was given,
  each in the place the abstract queue has it, and releasing the queue leaves the registry as
  it was, with no reference leaked or released twice.
\<close>

theorem event_queue_refines:
  assumes "fresh_ok fresh" and "finite (dom others)" and "\<forall>r<0. others r = None"
    and "\<forall>op \<in> set ops. qop_ok op"
  shows "queue_repr others (fold (run_qop fresh) ops (some_event_queue_init others)) (fold aop ops []) \<and>
    qslots (some_event_queue_reset True (fold (run_qop fresh) ops (some_event_queue_init others))) = others"
  using run_qops_repr [OF assms(1) init_repr [OF assms(2,3)] assms(4)] reset_ok by fastforce

lemma event_queue_refines_witness:
  "queue_repr Map.empty
     (fold (run_qop fresh_max) [QSignal (LUser 7) 8 [LBool True], QGlobal 11] (some_event_queue_init Map.empty))
     [AEvent EVENT_OBJECT (Some (LUser 7)) None 8 [LBool True], AEvent EVENT_GLOBAL None None 11 []]"
  using event_queue_refines [OF fresh_max_ok, of Map.empty "[QSignal (LUser 7) 8 [LBool True], QGlobal 11]"]
  by simp

text \<open>
  C8: Draining delivers every event that was queued when it started, once and in order, with
  its object and arguments; what the handlers queue meanwhile is left for the next drain, in
  the order it was queued; and all references of the delivered events are released. The
  hypothesis on mouse moves is needed: either the last queued event is not a mouse move or the
  handlers queue none.
\<close>

theorem drain_delivers_snapshot:
  assumes "fresh_ok fresh" and "queue_repr others q A"
    and "\<And>d w op. op \<in> set (fst (handler d w)) \<Longrightarrow> qop_ok op"
    and "A = [] \<or> asig (last A) \<noteq> SIG_MOUSE_MOVE \<or>
      (\<forall>d w op. op \<in> set (fst (handler d w)) \<longrightarrow> \<not> is_move op)"
  shows "\<exists>q' A' w'. some_event_queue_drain fresh handler (q, w) = (q', w') \<and>
    adrain handler (A, w) = (A', w') \<and> queue_repr others q' A'"
  using drain_ok [OF assms] .

lemma drain_delivers_snapshot_witness:
  "\<exists>q'. some_event_queue_drain fresh_max (\<lambda>d w. ([QGlobal 10], w @ [d]))
        (run_qop fresh_max (QGlobal 9) (some_event_queue_init Map.empty), []) =
      (q', [DGlobal ''focus'' []]) \<and> queue_repr Map.empty q' [AEvent EVENT_GLOBAL None None 10 []]"
proof -
  let ?h = "\<lambda>d w. ([QGlobal 10], w @ [d])" and ?A = "[AEvent EVENT_GLOBAL None None 9 []]"
  have "queue_repr Map.empty (run_qop fresh_max (QGlobal 9) (some_event_queue_init Map.empty)) ?A"
    using run_qops_repr [OF fresh_max_ok init_repr, of Map.empty "[QGlobal 9]"] by simp
  from drain_delivers_snapshot [OF fresh_max_ok this, of ?h "[]"] show ?thesis
    by (simp add: adrain_def adrain_event_def SIG_COUNT_def signal_names_def)
qed

text \<open>
  Without that hypothesis an event is lost. When a handler of the mouse::move that is being
  delivered causes another mouse move over the same object (as root.fake_input does), the new
  move is folded into the event in delivery, which the drain then discards: the queue ends
  empty and the second move is never delivered.
\<close>

theorem move_during_move_lost:
  assumes "fresh_ok fresh" and "obj \<noteq> LNil"
  shows "qbuf (fst (some_event_queue_drain fresh
      (\<lambda>d n. (if n = 0 then [QMove obj x' y'] else [], n + 1))
      (run_qop fresh (QMove obj x y) (some_event_queue_init Map.empty), 0 :: nat))) = []"
proof -
  define q where "q = run_qop fresh (QMove obj x y) (some_event_queue_init Map.empty)"
  define h :: "nat handler" where "h = (\<lambda>d n. (if n = 0 then [QMove obj x' y'] else [], n + 1))"
  have rep: "queue_repr Map.empty q (aop (QMove obj x y) [])"
    using run_qops_repr [OF assms(1) init_repr, of Map.empty "[QMove obj x y]"] by (simp add: q_def)
  then obtain e where e: "qbuf q = [e]" "deref (qslots q) e = AEvent EVENT_OBJECT (Some obj) None SIG_MOUSE_MOVE [LInt x, LInt y]"
    by (auto simp: queue_repr_def)
  have own: "owned Map.empty (qslots q) [e]" using rep e(1) by (simp add: queue_repr_def)
  have ok: "event_ok (qslots q) e" using own by (simp add: owned_def)
  have "move_scan (qslots q) obj (qbuf q) 1 = Some 0"
    using move_scan_skip [of "[]" 1 "[e]" "qslots q" obj] ok owned_neg [OF own] e by (simp add: One_nat_def)
  then have one: "length (qbuf (run_qop fresh (QMove obj x' y') q)) = 1"
    by (simp add: some_event_queue_move_def e(1) Let_def luaL_unref_def split: prod.splits)
  have unl: "qbuf (luaL_unref r p) = qbuf p" for r p by (simp add: luaL_unref_def)
  have "delivery_of (qslots q) e \<noteq> None"
    using delivery_deref [OF ok owned_neg [OF own]] e(2) by (simp add: SIG_COUNT_def)
  then obtain d where d: "delivery_of (qslots q) e = Some d" by blast
  have "length (qbuf (fst (drain_event fresh h 0 (q, 0)))) = 1"
    using one by (simp add: drain_event_def e(1) d h_def Let_def unl)
  then have "qbuf (fst (some_event_queue_drain fresh h (q, 0))) = []"
    by (auto simp: some_event_queue_drain_def e(1) split: prod.splits)
  then show ?thesis by (simp only: q_def h_def)
qed

lemma move_during_move_lost_witness:
  "qbuf (fst (some_event_queue_drain fresh_max
      (\<lambda>d n. (if n = 0 then [QMove (LUser 1) 3 4] else [], n + 1))
      (run_qop fresh_max (QMove (LUser 1) 1 2) (some_event_queue_init Map.empty), 0 :: nat))) = []"
  by (rule move_during_move_lost [OF fresh_max_ok]) simp

end
