(* ===== verification/World.thy ===== *)
theory World
  imports EventQueue Complex_Main
begin

text \<open>
  The state of the compositor the window management code works on: the clients, tags, screens
  and monitors as records in heaps indexed by their addresses, the lists of globalconf, the
  focus, the banning and stacking flags, the queued events and a trace of what was called
  outside the model. Synchronous signals run Lua code and some calls leave the modelled part
  (layout, seat, scene): all of them go through an environment, a parameter of every
  operation, which may change the state in any way. The queued events are those of the event
  queue's specification, which event_queue.c refines.
\<close>

subsection \<open>Objects\<close>

text \<open>objects/client.h client_t: the fields the modelled code reads or writes.\<close>

datatype client_type = XDGShell | LayerShell | X11

text \<open>The flags of xcb-icccm the code tests, of which size_hints.flags is a bit set.\<close>

datatype size_flag =
    P_MIN_SIZE | P_MAX_SIZE | P_RESIZE_INC | P_ASPECT | BASE_SIZE | P_WIN_GRAVITY

record size_hints =
  sh_flags :: "size_flag set"
  min_width :: int
  min_height :: int
  max_width :: int
  max_height :: int
  base_width :: int
  base_height :: int
  width_inc :: int
  height_inc :: int
  min_aspect_num :: int
  min_aspect_den :: int
  max_aspect_num :: int
  max_aspect_den :: int
  win_gravity :: int

record client =
  window :: nat
  client_type :: client_type
  has_scene :: bool
  has_surface :: bool
  c_screen :: "nat option"
  c_mon :: "nat option"
  c_name :: "string option"
  alt_name :: "string option"
  icon_name :: "string option"
  alt_icon_name :: "string option"
  startup_id :: "string option"
  role :: "string option"
  machine :: "string option"
  c_class :: "string option"
  c_instance :: "string option"
  c_type :: nat
  c_pid :: nat
  group_window :: nat
  skip_taskbar :: bool
  sticky :: bool
  urgent :: bool
  hidden :: bool
  minimized :: bool
  fullscreen :: bool
  maximized_horizontal :: bool
  maximized_vertical :: bool
  maximized :: bool
  above :: bool
  below :: bool
  modal :: bool
  ontop :: bool
  isbanned :: bool
  focusable :: bool
  focusable_set :: bool
  nofocus :: bool
  transient_for :: "nat option"
  transient_for_window :: nat
  geometry :: area
  prev_geometry :: area
  border_width :: int
  override_redirect :: bool
  tb_size :: "nat \<Rightarrow> int"
  tb_drawable :: "nat \<Rightarrow> nat option"
  hints :: size_hints
  size_hints_honor :: bool
  aspect_ratio :: rat
  toplevel_handle :: bool
  surface :: "nat option"
  wants_focus :: bool
  border_rgba :: "rat list option"
  c_keys :: "nat option list"
  c_buttons :: "nat list"
  c_id :: u32
  c_opacity :: rat
  resize_serial :: u32
  surface_box :: area
  committed_width :: int
  committed_height :: int
  retry_source :: bool
  configure_retries :: int
  configure_retry_msec :: int
  c_decoration :: bool
  c_bounds :: "int \<times> int"
  xdg_bounds :: "int list"

record tag =
  t_name :: "string option"
  activated :: bool
  selected :: bool
  t_clients :: "nat list"
  t_screen :: "nat option"
  nmaster :: int

datatype lifecycle = LIFECYCLE_C | LIFECYCLE_LUA | LIFECYCLE_USER

record screen =
  s_monitor :: "nat option"
  s_index :: int
  s_valid :: bool
  s_lifecycle :: lifecycle
  s_geometry :: area
  s_workarea :: area
  virtual_output :: "nat option"

text \<open>Key and button objects, of objects/key.h and objects/button.h.\<close>

record keyb =
  k_modifiers :: u16
  k_keysym :: u32
  k_keycode :: u32

record button =
  b_modifiers :: u16
  b_button :: u32

text \<open>color.h and strut.h.\<close>

record color =
  red :: u8
  green :: u8
  blue :: u8
  alpha :: u8
  initialized :: bool

record strut =
  strut_left :: u16
  strut_right :: u16
  strut_top :: u16
  strut_bottom :: u16

text \<open>objects/drawin.h and objects/drawable.h: the fields the modelled code reads or writes.\<close>

record bar =
  bar_edge :: nat
  bar_reserve :: bool
  bar_margins :: "u16 list"
  bar_stretch :: bool
  bar_align :: nat

record drawin =
  d_area :: area
  geometry_dirty :: bool
  d_visible :: bool
  d_ontop :: bool
  d_screen :: "nat option"
  d_drawable :: "nat option"
  d_border_width :: u16
  border_need_update :: bool
  d_border_color :: color
  d_border_color_parsed :: color
  d_buttons :: "nat list"
  d_opacity :: rat
  d_strut :: strut
  d_bar :: bar
  d_anim_enabled :: bool
  d_cursor :: string
  d_type :: nat
  d_passthrough :: bool
record drawable =
  da_geometry :: area
  da_valid :: bool
  da_owner :: "nat option"

record monitor =
  m_box :: area
  m_workarea :: area
  m_enabled :: bool
  m_lock_surface :: "nat option"
  m_lock_render_owner :: bool
  m_layers :: "nat \<Rightarrow> nat list"
  m_asleep :: bool
  needs_screen_added :: bool
  needs_output_added :: bool
  m_output :: "nat option"
  gamma_lut_changed :: bool
  m_scene_output :: bool

subsection \<open>Calls that leave the model\<close>

datatype call =
    Emit nat string "lval list"
  | EmitClass string string "lval list"
  | Arrange nat
  | Native string "lval list"

text \<open>
  What wlroots tells of a surface: its root surface, the role of the object it belongs to (with
  the client, the layer surface or the parent), whether it is mapped and its pointer constraint.
\<close>

datatype surface_role =
    Xwayland_surface nat | Layer_surface nat | Xdg_popup "nat option" | Xdg_toplevel nat | Xdg_none
  | Other_surface

record wlr_surface =
  root_surface :: nat
  sf_role :: surface_role
  sf_mapped :: bool
  sf_constraint :: "nat option"

text \<open>
  The LayerSurface of somewm_types.h, with what the protocol tells of it: layers and keyboard
  modes as numbered there, l_output the monitor of its output, l_surface_mapped the mapped flag of
  its surface. layer_obj is the Lua object of objects/layer_surface.h.
\<close>

record layer =
  l_mapped :: bool
  l_layer :: nat
  l_band :: nat
  l_mon :: "nat option"
  l_output :: "nat option"
  l_surface :: nat
  l_surface_mapped :: bool
  l_interactive :: nat
  l_object :: "nat option"

record layer_obj =
  lo_ls :: "nat option"
  has_keyboard_focus :: bool
  lo_screen :: "nat option"
  lo_buttons :: "nat list"

text \<open>
  What wlroots keeps of the toplevel of a client. For an xdg toplevel tp_geometry is the geometry
  of its surface, tp_width and tp_height the size of the configure it acknowledged, tp_limits its
  minimum and maximum width and height; for an X11 window tp_geometry is its box. tp_window is the
  number of the X11 window, tp_types the window types it names, by the numbers of window_type_t.
\<close>

record wm_hints =
  wm_input :: "bool option"
  wm_group :: "nat option"
  wm_urgent :: bool

record toplevel_state =
  tp_geometry :: area
  tp_drawn :: "int \<times> int"
  tp_width :: int
  tp_height :: int
  tp_limits :: "int list"
  tp_serial :: u32
  tp_scheduled :: u32
  tp_initial_commit :: bool
  tp_initialized :: bool
  tp_version :: nat
  tp_wants_fullscreen :: bool
  tp_wants_maximized :: bool
  tp_fullscreen :: bool
  tp_maximized :: bool
  tp_parent :: "nat option"
  tp_has_parent :: bool
  tp_parent_window :: nat
  tp_window :: nat
  tp_title :: "string option"
  tp_app_id :: "string option"
  tp_instance :: "string option"
  tp_role :: "string option"
  tp_pid :: int
  tp_size_hints :: "size_hints option"
  tp_wm_hints :: "wm_hints option"
  tp_types :: "nat list"

text \<open>
  A grab of the keyboard of the seat by wlroots: that of a popup, with the client its toplevel
  belongs to, or that of a drag or an input method.
\<close>

datatype kgrab = Ungrabbed | Popup_grab nat | Other_grab

datatype under = UNDER_NONE | UNDER_CLIENT nat | UNDER_DRAWIN nat

record world =
  cl :: "nat \<Rightarrow> client"
  tg :: "nat \<Rightarrow> tag"
  sc :: "nat \<Rightarrow> screen"
  mo :: "nat \<Rightarrow> monitor"
  clients :: "nat list"
  stack :: "nat list"
  tags :: "nat list"
  screens :: "nat list"
  mons :: "nat list"
  out_layout :: "nat list"
  in_updatemons :: bool
  updatemons_pending :: bool
  frame_commit_count :: u64
  primary_screen :: "nat option"
  screens_scanned :: bool
  focus_client :: "nat option"
  focus_need_update :: bool
  need_lazy_banning :: bool
  need_stack_refresh :: bool
  mousegrabber_running :: bool
  mouse_under :: under
  main_loop :: bool
  surf :: "nat \<Rightarrow> wlr_surface"
  tp :: "nat \<Rightarrow> toplevel_state"
  sgeom :: area
  next_client_id :: u32
  flush_pending :: bool
  foreign_toplevel_mgr :: bool
  ly :: "nat \<Rightarrow> layer"
  lobj :: "nat \<Rightarrow> layer_obj"
  layer_surfaces :: "nat list"
  deferred_focus :: "nat option option"
  seat_focus :: "nat option"
  exclusive_focus :: "nat option"
  active_constraint :: "nat option"
  seat_drag :: bool
  kb_grab :: kgrab
  ext_locked :: bool
  lua_locked :: bool
  cur_lock :: "nat option"
  ext_surfaces :: "nat list"
  lua_authenticated :: bool
  lock_surface :: "nat option"
  lock_surface_ref :: "lval option"
  lock_covers :: "(nat \<times> lval) list"
  pre_lock_client :: "nat option"
  selmon :: "nat option"
  in_refresh :: bool
  keyb_at :: "nat \<Rightarrow> keyb"
  keys :: "nat list"
  button_at :: "nat \<Rightarrow> button"
  keygrabber :: bool
  root_buttons :: "nat list"
  dw :: "nat \<Rightarrow> drawin"
  da :: "nat \<Rightarrow> drawable"
  drawins :: "nat list"
  in_frame :: bool
  registry :: "nat multiset"
  queue :: "aevent list"
  trace :: "call list"

text \<open>
  cur_lock is the lock of the ext-session-lock protocol and ext_surfaces the list of its
  surfaces that wlroots keeps; lock_covers holds the covers with their references.
  session_is_locked of somewm_api.h:
\<close>

abbreviation session_locked :: "world \<Rightarrow> bool" where
  "session_locked w \<equiv> ext_locked w \<or> lua_locked w"

type_synonym env = "call \<Rightarrow> world \<Rightarrow> world"

definition call_env :: "env \<Rightarrow> call \<Rightarrow> world \<Rightarrow> world" where
  "call_env env k w = env k (w\<lparr>trace := trace w @ [k]\<rparr>)"

abbreviation emit :: "env \<Rightarrow> nat \<Rightarrow> string \<Rightarrow> lval list \<Rightarrow> world \<Rightarrow> world" where
  "emit env obj name args \<equiv> call_env env (Emit obj name args)"

definition obj_of :: "nat option \<Rightarrow> lval" where
  "obj_of p = (case p of None \<Rightarrow> LNil | Some a \<Rightarrow> LUser a)"

text \<open>Queueing an event of the C code.\<close>

definition enqueue :: "qop \<Rightarrow> world \<Rightarrow> world" where
  "enqueue op w = w\<lparr>queue := aop op (queue w)\<rparr>"

definition upd_client :: "nat \<Rightarrow> (client \<Rightarrow> client) \<Rightarrow> world \<Rightarrow> world" where
  "upd_client c f w = w\<lparr>cl := (cl w)(c := f (cl w c))\<rparr>"

definition upd_tag :: "nat \<Rightarrow> (tag \<Rightarrow> tag) \<Rightarrow> world \<Rightarrow> world" where
  "upd_tag t f w = w\<lparr>tg := (tg w)(t := f (tg w t))\<rparr>"

definition upd_screen :: "nat \<Rightarrow> (screen \<Rightarrow> screen) \<Rightarrow> world \<Rightarrow> world" where
  "upd_screen s f w = w\<lparr>sc := (sc w)(s := f (sc w s))\<rparr>"

lemma upd_client_sel [simp]:
  "out_layout (upd_client c f w) = out_layout w" "in_updatemons (upd_client c f w) = in_updatemons w" "updatemons_pending (upd_client c f w) = updatemons_pending w"
  "tp (upd_client c f w) = tp w" "sgeom (upd_client c f w) = sgeom w" "next_client_id (upd_client c f w) = next_client_id w"
  "flush_pending (upd_client c f w) = flush_pending w" "foreign_toplevel_mgr (upd_client c f w) = foreign_toplevel_mgr w"
  "surf (upd_client c f w) = surf w" "ly (upd_client c f w) = ly w" "seat_focus (upd_client c f w) = seat_focus w"
  "exclusive_focus (upd_client c f w) = exclusive_focus w" "active_constraint (upd_client c f w) = active_constraint w"
  "kb_grab (upd_client c f w) = kb_grab w" "seat_drag (upd_client c f w) = seat_drag w" "ext_locked (upd_client c f w) = ext_locked w" "lua_locked (upd_client c f w) = lua_locked w"
  "cur_lock (upd_client c f w) = cur_lock w" "lua_authenticated (upd_client c f w) = lua_authenticated w" "lock_surface (upd_client c f w) = lock_surface w" "lock_surface_ref (upd_client c f w) = lock_surface_ref w" "lock_covers (upd_client c f w) = lock_covers w" "pre_lock_client (upd_client c f w) = pre_lock_client w" "keygrabber (upd_client c f w) = keygrabber w"
  "selmon (upd_client c f w) = selmon w"
  "cl (upd_client c f w) = (cl w)(c := f (cl w c))"
  "tg (upd_client c f w) = tg w" "sc (upd_client c f w) = sc w" "mo (upd_client c f w) = mo w"
  "clients (upd_client c f w) = clients w" "stack (upd_client c f w) = stack w"
  "tags (upd_client c f w) = tags w" "screens (upd_client c f w) = screens w"
  "mons (upd_client c f w) = mons w" "primary_screen (upd_client c f w) = primary_screen w"
  "focus_client (upd_client c f w) = focus_client w"
  "focus_need_update (upd_client c f w) = focus_need_update w"
  "need_lazy_banning (upd_client c f w) = need_lazy_banning w"
  "need_stack_refresh (upd_client c f w) = need_stack_refresh w"
  "mousegrabber_running (upd_client c f w) = mousegrabber_running w"
  "mouse_under (upd_client c f w) = mouse_under w" "main_loop (upd_client c f w) = main_loop w"
  "registry (upd_client c f w) = registry w" "queue (upd_client c f w) = queue w"
  "trace (upd_client c f w) = trace w"
  by (simp_all add: upd_client_def)

lemma upd_tag_sel [simp]:
  "out_layout (upd_tag t f w) = out_layout w" "in_updatemons (upd_tag t f w) = in_updatemons w" "updatemons_pending (upd_tag t f w) = updatemons_pending w"
  "tp (upd_tag t f w) = tp w" "sgeom (upd_tag t f w) = sgeom w" "next_client_id (upd_tag t f w) = next_client_id w"
  "flush_pending (upd_tag t f w) = flush_pending w" "foreign_toplevel_mgr (upd_tag t f w) = foreign_toplevel_mgr w"
  "surf (upd_tag t f w) = surf w" "ly (upd_tag t f w) = ly w" "seat_focus (upd_tag t f w) = seat_focus w"
  "exclusive_focus (upd_tag t f w) = exclusive_focus w" "active_constraint (upd_tag t f w) = active_constraint w"
  "kb_grab (upd_tag t f w) = kb_grab w" "seat_drag (upd_tag t f w) = seat_drag w" "ext_locked (upd_tag t f w) = ext_locked w" "lua_locked (upd_tag t f w) = lua_locked w"
  "cur_lock (upd_tag t f w) = cur_lock w" "lua_authenticated (upd_tag t f w) = lua_authenticated w" "lock_surface (upd_tag t f w) = lock_surface w" "lock_surface_ref (upd_tag t f w) = lock_surface_ref w" "lock_covers (upd_tag t f w) = lock_covers w" "pre_lock_client (upd_tag t f w) = pre_lock_client w" "keygrabber (upd_tag t f w) = keygrabber w"
  "selmon (upd_tag t f w) = selmon w"
  "tg (upd_tag t f w) = (tg w)(t := f (tg w t))"
  "cl (upd_tag t f w) = cl w" "sc (upd_tag t f w) = sc w" "mo (upd_tag t f w) = mo w"
  "clients (upd_tag t f w) = clients w" "stack (upd_tag t f w) = stack w"
  "tags (upd_tag t f w) = tags w" "screens (upd_tag t f w) = screens w"
  "mons (upd_tag t f w) = mons w" "focus_client (upd_tag t f w) = focus_client w"
  "mousegrabber_running (upd_tag t f w) = mousegrabber_running w"
  "registry (upd_tag t f w) = registry w" "queue (upd_tag t f w) = queue w"
  "trace (upd_tag t f w) = trace w"
  by (simp_all add: upd_tag_def)

lemma upd_screen_sel [simp]:
  "out_layout (upd_screen s f w) = out_layout w" "in_updatemons (upd_screen s f w) = in_updatemons w" "updatemons_pending (upd_screen s f w) = updatemons_pending w"
  "tp (upd_screen s f w) = tp w" "sgeom (upd_screen s f w) = sgeom w" "next_client_id (upd_screen s f w) = next_client_id w"
  "flush_pending (upd_screen s f w) = flush_pending w" "foreign_toplevel_mgr (upd_screen s f w) = foreign_toplevel_mgr w"
  "surf (upd_screen s f w) = surf w" "ly (upd_screen s f w) = ly w" "seat_focus (upd_screen s f w) = seat_focus w"
  "exclusive_focus (upd_screen s f w) = exclusive_focus w" "active_constraint (upd_screen s f w) = active_constraint w"
  "kb_grab (upd_screen s f w) = kb_grab w" "seat_drag (upd_screen s f w) = seat_drag w" "ext_locked (upd_screen s f w) = ext_locked w" "lua_locked (upd_screen s f w) = lua_locked w"
  "cur_lock (upd_screen s f w) = cur_lock w" "lua_authenticated (upd_screen s f w) = lua_authenticated w" "lock_surface (upd_screen s f w) = lock_surface w" "lock_surface_ref (upd_screen s f w) = lock_surface_ref w" "lock_covers (upd_screen s f w) = lock_covers w" "pre_lock_client (upd_screen s f w) = pre_lock_client w" "keygrabber (upd_screen s f w) = keygrabber w"
  "selmon (upd_screen s f w) = selmon w"
  "sc (upd_screen s f w) = (sc w)(s := f (sc w s))"
  "cl (upd_screen s f w) = cl w" "tg (upd_screen s f w) = tg w" "mo (upd_screen s f w) = mo w"
  "clients (upd_screen s f w) = clients w" "stack (upd_screen s f w) = stack w"
  "tags (upd_screen s f w) = tags w" "screens (upd_screen s f w) = screens w"
  "mons (upd_screen s f w) = mons w" "focus_client (upd_screen s f w) = focus_client w"
  "primary_screen (upd_screen s f w) = primary_screen w"
  "registry (upd_screen s f w) = registry w" "queue (upd_screen s f w) = queue w"
  "trace (upd_screen s f w) = trace w"
  by (simp_all add: upd_screen_def)

lemma enqueue_sel [simp]:
  "out_layout (enqueue op w) = out_layout w" "in_updatemons (enqueue op w) = in_updatemons w" "updatemons_pending (enqueue op w) = updatemons_pending w"
  "tp (enqueue op w) = tp w" "sgeom (enqueue op w) = sgeom w" "next_client_id (enqueue op w) = next_client_id w"
  "flush_pending (enqueue op w) = flush_pending w" "foreign_toplevel_mgr (enqueue op w) = foreign_toplevel_mgr w"
  "surf (enqueue op w) = surf w" "ly (enqueue op w) = ly w" "seat_focus (enqueue op w) = seat_focus w"
  "exclusive_focus (enqueue op w) = exclusive_focus w" "active_constraint (enqueue op w) = active_constraint w"
  "kb_grab (enqueue op w) = kb_grab w" "seat_drag (enqueue op w) = seat_drag w" "ext_locked (enqueue op w) = ext_locked w" "lua_locked (enqueue op w) = lua_locked w"
  "cur_lock (enqueue op w) = cur_lock w" "lua_authenticated (enqueue op w) = lua_authenticated w" "lock_surface (enqueue op w) = lock_surface w" "lock_surface_ref (enqueue op w) = lock_surface_ref w" "lock_covers (enqueue op w) = lock_covers w" "pre_lock_client (enqueue op w) = pre_lock_client w" "keygrabber (enqueue op w) = keygrabber w"
  "selmon (enqueue op w) = selmon w"
  "cl (enqueue op w) = cl w" "tg (enqueue op w) = tg w" "sc (enqueue op w) = sc w"
  "mo (enqueue op w) = mo w" "clients (enqueue op w) = clients w" "stack (enqueue op w) = stack w"
  "tags (enqueue op w) = tags w" "screens (enqueue op w) = screens w" "mons (enqueue op w) = mons w"
  "primary_screen (enqueue op w) = primary_screen w"
  "focus_client (enqueue op w) = focus_client w"
  "focus_need_update (enqueue op w) = focus_need_update w"
  "need_lazy_banning (enqueue op w) = need_lazy_banning w"
  "need_stack_refresh (enqueue op w) = need_stack_refresh w"
  "mousegrabber_running (enqueue op w) = mousegrabber_running w"
  "registry (enqueue op w) = registry w" "trace (enqueue op w) = trace w"
  "queue (enqueue op w) = aop op (queue w)"
  by (simp_all add: enqueue_def)

subsection \<open>What the environment keeps\<close>

text \<open>An environment keeps a view of the state when no call changes it.\<close>

definition keeps :: "env \<Rightarrow> (world \<Rightarrow> 'v) \<Rightarrow> bool" where
  "keeps env view \<longleftrightarrow> (\<forall>k w. view (env k w) = view w)"

lemma call_env_keeps:
  "keeps env view \<Longrightarrow> (\<And>w x. view (w\<lparr>trace := x\<rparr>) = view w) \<Longrightarrow> view (call_env env k w) = view w"
  by (simp add: keeps_def call_env_def)

text \<open>It preserves a predicate when no call breaks it.\<close>

definition preserves :: "env \<Rightarrow> (world \<Rightarrow> bool) \<Rightarrow> bool" where
  "preserves env P \<longleftrightarrow> (\<forall>k w. P w \<longrightarrow> P (env k w))"

lemma call_env_preserves:
  "preserves env P \<Longrightarrow> (\<And>x. P (w\<lparr>trace := x\<rparr>) = P w) \<Longrightarrow> P w \<Longrightarrow> P (call_env env k w)"
  by (simp add: preserves_def call_env_def)

text \<open>The environment that does nothing.\<close>

definition idle :: env where
  "idle k w = w"

lemma idle_keeps [simp]: "keeps idle view"
  by (simp add: keeps_def idle_def)

lemma idle_preserves [simp]: "preserves idle P"
  by (simp add: preserves_def idle_def)

subsection \<open>Initial objects\<close>

text \<open>The zeroed objects the allocators return, and the state with no object.\<close>

definition client0 :: client where
  "client0 = \<lparr>window = 0, client_type = XDGShell, has_scene = False, has_surface = False, c_screen = None, c_mon = None,
     c_name = None, alt_name = None, icon_name = None,
     alt_icon_name = None, startup_id = None, role = None, machine = None, c_class = None, c_instance = None, c_type = 0, c_pid = 0, group_window = 0, skip_taskbar = False, sticky = False,
     urgent = False, hidden = False, minimized = False, fullscreen = False,
     maximized_horizontal = False, maximized_vertical = False, maximized = False, above = False,
     below = False, modal = False, ontop = False, isbanned = False, focusable = False,
     focusable_set = False, nofocus = False, transient_for = None, transient_for_window = 0,
     geometry = box 0 0 0 0, prev_geometry = box 0 0 0 0, border_width = 0,
     override_redirect = False, tb_size = (\<lambda>_. 0), tb_drawable = (\<lambda>_. None),
     hints = \<lparr>sh_flags = {}, min_width = 0, min_height = 0, max_width = 0, max_height = 0,
       base_width = 0, base_height = 0, width_inc = 0, height_inc = 0, min_aspect_num = 0,
       min_aspect_den = 0, max_aspect_num = 0, max_aspect_den = 0, win_gravity = 0\<rparr>,
     size_hints_honor = False, aspect_ratio = 0, toplevel_handle = False, surface = None,
     wants_focus = False, border_rgba = None, c_keys = [], c_buttons = [],
     c_id = 0, c_opacity = 0, resize_serial = 0, surface_box = box 0 0 0 0, committed_width = 0, committed_height = 0,
     retry_source = False, configure_retries = 0, configure_retry_msec = 0, c_decoration = False, c_bounds = (0, 0),
     xdg_bounds = [0, 0, 0, 0]\<rparr>"

definition toplevel0 :: toplevel_state where
  "toplevel0 = \<lparr>tp_geometry = box 0 0 0 0, tp_drawn = (0, 0), tp_width = 0, tp_height = 0, tp_limits = [0, 0, 0, 0],
     tp_serial = 0, tp_scheduled = 0, tp_initial_commit = False, tp_initialized = False, tp_version = 0, tp_wants_fullscreen = False,
     tp_wants_maximized = False, tp_fullscreen = False, tp_maximized = False, tp_parent = None, tp_has_parent = False,
     tp_parent_window = 0, tp_window = 0, tp_title = None, tp_app_id = None, tp_instance = None, tp_role = None, tp_pid = 0,
     tp_size_hints = None, tp_wm_hints = None, tp_types = []\<rparr>"

definition tag0 :: tag where
  "tag0 = \<lparr>t_name = None, activated = False, selected = False, t_clients = [], t_screen = None,
     nmaster = 0\<rparr>"

definition screen0 :: screen where
  "screen0 = \<lparr>s_monitor = None, s_index = 0, s_valid = False, s_lifecycle = LIFECYCLE_C,
     s_geometry = box 0 0 0 0, s_workarea = box 0 0 0 0, virtual_output = None\<rparr>"

definition monitor0 :: monitor where
  "monitor0 = \<lparr>m_box = box 0 0 0 0, m_workarea = box 0 0 0 0, m_enabled = False, m_lock_surface = None,
     m_lock_render_owner = False, m_layers = (\<lambda>_. []), m_asleep = False, needs_screen_added = False,
     needs_output_added = False, m_output = None, gamma_lut_changed = False, m_scene_output = False\<rparr>"

definition drawable0 :: drawable where
  "drawable0 = \<lparr>da_geometry = box 0 0 0 0, da_valid = True, da_owner = None\<rparr>"

text \<open>The fields as drawin_allocator sets them; (color_t){0, 0, 0, 255, false} is black0.\<close>

definition black0 :: color where
  "black0 = \<lparr>red = 0, green = 0, blue = 0, alpha = 255, initialized = False\<rparr>"

definition drawin0 :: drawin where
  "drawin0 = \<lparr>d_area = box 0 0 1 1, geometry_dirty = False, d_visible = False, d_ontop = False,
     d_screen = None, d_drawable = None, d_border_width = 0, border_need_update = True,
     d_border_color = black0, d_border_color_parsed = black0, d_buttons = [], d_opacity = -1,
     d_strut = \<lparr>strut_left = 0, strut_right = 0, strut_top = 0, strut_bottom = 0\<rparr>,
     d_bar = \<lparr>bar_edge = 0, bar_reserve = False, bar_margins = [0, 0, 0, 0], bar_stretch = False,
       bar_align = 0\<rparr>, d_anim_enabled = False, d_cursor = ''left_ptr'',
     d_type = 0, d_passthrough = False\<rparr>"

definition world0 :: world where
  "world0 = \<lparr>cl = (\<lambda>_. client0), tg = (\<lambda>_. tag0), sc = (\<lambda>_. screen0), mo = (\<lambda>_. monitor0),
     clients = [], stack = [], tags = [], screens = [], mons = [], out_layout = [], in_updatemons = False, updatemons_pending = False, frame_commit_count = 0, primary_screen = None,
     screens_scanned = False, focus_client = None, focus_need_update = False,
     need_lazy_banning = False, need_stack_refresh = False, mousegrabber_running = False,
     mouse_under = UNDER_NONE, main_loop = False,
     surf = (\<lambda>s. \<lparr>root_surface = s, sf_role = Other_surface, sf_mapped = False, sf_constraint = None\<rparr>),
     tp = (\<lambda>_. toplevel0), sgeom = box 0 0 0 0, next_client_id = 1, flush_pending = False, foreign_toplevel_mgr = False,
     ly = (\<lambda>_. \<lparr>l_mapped = False, l_layer = 0, l_band = 0, l_mon = None, l_output = None, l_surface = 0,
       l_surface_mapped = False, l_interactive = 0, l_object = None\<rparr>),
     lobj = (\<lambda>_. \<lparr>lo_ls = None, has_keyboard_focus = False, lo_screen = None, lo_buttons = []\<rparr>),
     layer_surfaces = [], deferred_focus = None, seat_focus = None, exclusive_focus = None,
     active_constraint = None, seat_drag = False, kb_grab = Ungrabbed, ext_locked = False, lua_locked = False,
     cur_lock = None, ext_surfaces = [], lua_authenticated = False, lock_surface = None,
     lock_surface_ref = None, lock_covers = [], pre_lock_client = None, selmon = None, in_refresh = False,
     keyb_at = (\<lambda>_. \<lparr>k_modifiers = 0, k_keysym = 0, k_keycode = 0\<rparr>), keys = [],
     button_at = (\<lambda>_. \<lparr>b_modifiers = 0, b_button = 0\<rparr>), keygrabber = False,
     root_buttons = [], dw = (\<lambda>_. drawin0), da = (\<lambda>_. drawable0), drawins = [], in_frame = False, registry = {#}, queue = [], trace = []\<rparr>"

end
