(* ===== verification/Visibility.thy ===== *)
theory Visibility
  imports World
begin

text \<open>
  Which clients are visible, the banning of the others and the keyboard focus: the visibility
  and focus functions of src/objects/client.c, src/banning.c, and is_client_tagged of
  src/objects/tag.c. The loops over globalconf.clients re-read the array in every round, as
  the foreach macro does, and carry fuel.
\<close>

subsection \<open>The foreach macro\<close>

text \<open>
  foreach of common/array.h: the index runs up while it is below the length the array has in
  that round. None is the loop that has not ended after n rounds.
\<close>

fun foreach :: "nat \<Rightarrow> nat \<Rightarrow> ('s \<Rightarrow> 'a list) \<Rightarrow> ('a \<Rightarrow> 's \<Rightarrow> 's) \<Rightarrow> 's \<Rightarrow> 's option" where
  "foreach 0 i arr f w = None"
| "foreach (Suc n) i arr f w =
     (if i < length (arr w) then foreach n (Suc i) arr f (f (arr w ! i) w) else Some w)"

lemma foreach_fold:
  assumes "\<And>x w. arr (f x w) = arr w" and "length (arr w) - i < n"
  shows "foreach n i arr f w = Some (fold f (drop i (arr w)) w)"
  using assms(2)
proof (induction n arbitrary: i w)
  case 0
  then show ?case by simp
next
  case (Suc n)
  show ?case
  proof (cases "i < length (arr w)")
    case True
    then have "drop i (arr w) = arr w ! i # drop (Suc i) (arr w)" by (simp add: Cons_nth_drop_Suc)
    then show ?thesis using True Suc.IH [of "f (arr w ! i) w" "Suc i"] Suc.prems assms(1) by simp
  next
    case False
    then show ?thesis by simp
  qed
qed

subsection \<open>Visibility\<close>

definition is_client_tagged :: "nat \<Rightarrow> nat \<Rightarrow> world \<Rightarrow> bool" where
  "is_client_tagged c t w \<longleftrightarrow> c \<in> set (t_clients (tg w t))"

definition luaA_screen_get_by_monitor :: "nat option \<Rightarrow> world \<Rightarrow> nat option" where
  "luaA_screen_get_by_monitor m w =
     (case m of None \<Rightarrow> None | Some m' \<Rightarrow> find (\<lambda>s. s_monitor (sc w s) = Some m') (screens w))"

definition client_on_selected_tags :: "nat \<Rightarrow> world \<Rightarrow> bool" where
  "client_on_selected_tags c w =
     (if sticky (cl w c) then True
      else
        (let client_screen = c_screen (cl w c);
             client_screen =
               (if client_screen = None \<and> c_mon (cl w c) \<noteq> None
                then luaA_screen_get_by_monitor (c_mon (cl w c)) w else client_screen)
         in if client_screen = None then False
            else list_ex (\<lambda>t. t_screen (tg w t) = client_screen \<and> selected (tg w t)
                              \<and> is_client_tagged c t w) (tags w)))"

definition clients_share_tags :: "nat \<Rightarrow> nat \<Rightarrow> world \<Rightarrow> bool" where
  "clients_share_tags c1 c2 w =
     (if sticky (cl w c1) \<or> sticky (cl w c2) then True
      else list_ex (\<lambda>t. c1 \<in> set (t_clients (tg w t)) \<and> c2 \<in> set (t_clients (tg w t))) (tags w))"

definition client_isvisible :: "nat \<Rightarrow> world \<Rightarrow> bool" where
  "client_isvisible c w \<longleftrightarrow>
     \<not> hidden (cl w c) \<and> \<not> minimized (cl w c) \<and> client_on_selected_tags c w"

definition client_getbywin :: "nat \<Rightarrow> world \<Rightarrow> nat option" where
  "client_getbywin win w = find (\<lambda>c. window (cl w c) = win) (clients w)"

subsection \<open>Losing the focus\<close>

definition client_unfocus_internal :: "env \<Rightarrow> nat \<Rightarrow> bool \<Rightarrow> world \<Rightarrow> world" where
  "client_unfocus_internal env c sync w =
     (let w = w\<lparr>focus_client := None\<rparr>
      in if sync
         then emit env c ''unfocus'' [] (emit env c ''property::active'' [LBool False] w)
         else enqueue (QSignal0 (LUser c) SIG_UNFOCUS)
                (enqueue (QSignal (LUser c) SIG_PROPERTY_ACTIVE [LBool False]) w))"

definition client_unfocus :: "env \<Rightarrow> nat \<Rightarrow> bool \<Rightarrow> world \<Rightarrow> world" where
  "client_unfocus env c sync w = (client_unfocus_internal env c sync w)\<lparr>focus_need_update := True\<rparr>"

definition client_ban_unfocus :: "env \<Rightarrow> nat \<Rightarrow> world \<Rightarrow> world" where
  "client_ban_unfocus env c w =
     (if focus_client w = Some c then
        (if mousegrabber_running w then w else client_unfocus env c False w)
      else w)"

definition banning_need_update :: "env \<Rightarrow> world \<Rightarrow> world" where
  "banning_need_update env w =
     fold (\<lambda>c w. if \<not> client_isvisible c w then client_ban_unfocus env c w else w)
       (clients w) (w\<lparr>need_lazy_banning := True\<rparr>)"

definition client_ban :: "env \<Rightarrow> nat \<Rightarrow> world \<Rightarrow> world" where
  "client_ban env c w =
     (if \<not> isbanned (cl w c) then
        (if \<not> has_scene (cl w c) then w
         else client_ban_unfocus env c (upd_client c (\<lambda>x. x\<lparr>isbanned := True\<rparr>) w))
      else w)"

subsection \<open>Setters that change the visibility\<close>

definition client_set_minimized :: "env \<Rightarrow> nat \<Rightarrow> bool \<Rightarrow> world \<Rightarrow> world" where
  "client_set_minimized env c s w =
     (if minimized (cl w c) \<noteq> s then
        (let w = upd_client c (\<lambda>x. x\<lparr>minimized := s\<rparr>) w;
             w = banning_need_update env w;
             w = (if toplevel_handle (cl w c)
                  then call_env env (Native ''foreign_toplevel_set_minimized'' [LUser c, LBool s]) w else w)
         in emit env c ''property::minimized'' [] w)
      else w)"

definition client_set_hidden :: "env \<Rightarrow> nat \<Rightarrow> bool \<Rightarrow> world \<Rightarrow> world" where
  "client_set_hidden env c s w =
     (if hidden (cl w c) \<noteq> s then
        emit env c ''property::hidden'' []
          (banning_need_update env (upd_client c (\<lambda>x. x\<lparr>hidden := s\<rparr>) w))
      else w)"

definition client_set_sticky :: "env \<Rightarrow> nat \<Rightarrow> bool \<Rightarrow> world \<Rightarrow> world" where
  "client_set_sticky env c s w =
     (if sticky (cl w c) \<noteq> s then
        emit env c ''property::sticky'' []
          (call_env env (Native ''ewmh_client_update_desktop'' [LUser c])
             (banning_need_update env (upd_client c (\<lambda>x. x\<lparr>sticky := s\<rparr>) w)))
      else w)"

definition client_set_focusable :: "env \<Rightarrow> nat \<Rightarrow> bool \<Rightarrow> world \<Rightarrow> world" where
  "client_set_focusable env c s w =
     (if focusable (cl w c) \<noteq> s \<or> \<not> focusable_set (cl w c) then
        emit env c ''property::focusable'' []
          (upd_client c (\<lambda>x. x\<lparr>focusable := s, focusable_set := True\<rparr>) w)
      else w)"

definition client_unset_focusable :: "env \<Rightarrow> nat \<Rightarrow> world \<Rightarrow> world" where
  "client_unset_focusable env c w =
     (if focusable_set (cl w c) then
        emit env c ''property::focusable'' [] (upd_client c (\<lambda>x. x\<lparr>focusable_set := False\<rparr>) w)
      else w)"

definition client_unban :: "env \<Rightarrow> nat \<Rightarrow> world \<Rightarrow> world" where
  "client_unban env c w =
     (if isbanned (cl w c) then
        (if \<not> has_scene (cl w c) then w
         else
           (let w = upd_client c (\<lambda>x. x\<lparr>isbanned := False\<rparr>) w;
                w = client_set_minimized env c False w;
                w = client_set_hidden env c False w
            in if focus_client w = Some c then w\<lparr>focus_need_update := True\<rparr> else w))
      else w)"

definition banning_refresh :: "nat \<Rightarrow> env \<Rightarrow> world \<Rightarrow> world option" where
  "banning_refresh fuel env w =
     (if \<not> need_lazy_banning w then Some w
      else
        Option.bind
          (foreach fuel 0 clients (\<lambda>c w. if client_isvisible c w then client_unban env c w else w)
             (w\<lparr>need_lazy_banning := False\<rparr>))
          (foreach fuel 0 clients (\<lambda>c w. if \<not> client_isvisible c w then client_ban env c w else w)))"

subsection \<open>Gaining the focus\<close>

definition client_set_urgent :: "env \<Rightarrow> nat \<Rightarrow> bool \<Rightarrow> world \<Rightarrow> world" where
  "client_set_urgent env c v w =
     (if urgent (cl w c) \<noteq> v then
        emit env c ''property::urgent'' [] (upd_client c (\<lambda>x. x\<lparr>urgent := v\<rparr>) w)
      else w)"

text \<open>
  client_focus_update; without a client the urgency setter raises a Lua error, which is None:
  what was done before stays done.
\<close>

definition client_focus_update :: "env \<Rightarrow> nat option \<Rightarrow> world \<Rightarrow> bool option \<times> world" where
  "client_focus_update env c w =
     (let w = (case focus_client w of
                 Some f \<Rightarrow> (if Some f \<noteq> c then client_unfocus_internal env f False w else w)
               | None \<Rightarrow> w);
          focused_new = (focus_client w \<noteq> c);
          w = w\<lparr>focus_client := c\<rparr>
      in case c of
           None \<Rightarrow> (None, w)
         | Some c \<Rightarrow>
             (let w = client_set_urgent env c False w;
                  w = (if focused_new
                       then enqueue (QSignal0 (LUser c) SIG_FOCUS)
                              (enqueue (QSignal (LUser c) SIG_PROPERTY_ACTIVE [LBool True]) w)
                       else w)
              in (Some focused_new, w)))"

definition client_focus :: "env \<Rightarrow> nat option \<Rightarrow> world \<Rightarrow> world" where
  "client_focus env c w =
     (let c = (if c = None \<and> clients w \<noteq> [] then Some (hd (clients w)) else c)
      in case client_focus_update env c w of
           (None, w) \<Rightarrow> w
         | (Some focus_changed, w) \<Rightarrow>
             (let w = (if focus_changed then w\<lparr>focus_need_update := True\<rparr> else w)
              in call_env env (Native ''seat_keyboard_focus'' [obj_of c, LBool focus_changed]) w))"

definition client_focus_refresh :: "env \<Rightarrow> (world \<Rightarrow> bool) \<Rightarrow> world \<Rightarrow> world" where
  "client_focus_refresh env has_exclusive_focus w =
     (if \<not> focus_need_update w then w
      else
        (let w = (if focus_client w = None \<and> \<not> has_exclusive_focus w
                  then call_env env (Native ''keyboard_clear_focus'' []) w else w)
         in w\<lparr>focus_need_update := False\<rparr>))"

definition mousegrabber_release_focus :: "env \<Rightarrow> world \<Rightarrow> world" where
  "mousegrabber_release_focus env w =
     (let w = (case focus_client w of
                 Some c \<Rightarrow> (if \<not> client_isvisible c w then client_ban_unfocus env c w else w)
               | None \<Rightarrow> w);
          w = call_env env (Native ''layer_focus_restore_deferred'' [LBool True]) w
      in if \<not> mousegrabber_running w then call_env env (Native ''motionnotify'' []) w else w)"

definition luaA_mousegrabber_stop :: "env \<Rightarrow> world \<Rightarrow> world" where
  "luaA_mousegrabber_stop env w =
     call_env env (Native ''declare_mark_all_dirty'' [])
       (mousegrabber_release_focus env
          ((call_env env (Native ''cursor_set_xcursor'' [LStr ''default'']) w)
             \<lparr>mousegrabber_running := False\<rparr>))"

subsection \<open>What banning reads and writes\<close>

text \<open>Two states that differ only in the banned flags, the focus, the queue and the refresh flags.\<close>

definition vis_eq :: "world \<Rightarrow> world \<Rightarrow> bool" where
  "vis_eq w w' \<longleftrightarrow> clients w' = clients w \<and> tags w' = tags w \<and> tg w' = tg w \<and> sc w' = sc w \<and>
     screens w' = screens w \<and> trace w' = trace w \<and> mousegrabber_running w' = mousegrabber_running w \<and>
     (\<forall>c. (cl w' c)\<lparr>isbanned := False\<rparr> = (cl w c)\<lparr>isbanned := False\<rparr>)"

lemma vis_eq_refl [simp]: "vis_eq w w"
  by (simp add: vis_eq_def)

lemma vis_eq_trans: "vis_eq w w' \<Longrightarrow> vis_eq w' w'' \<Longrightarrow> vis_eq w w''"
  by (simp add: vis_eq_def)

lemma vis_eq_client:
  assumes "vis_eq w w'"
  shows "sticky (cl w' c) = sticky (cl w c)" "c_screen (cl w' c) = c_screen (cl w c)"
    "c_mon (cl w' c) = c_mon (cl w c)" "hidden (cl w' c) = hidden (cl w c)"
    "minimized (cl w' c) = minimized (cl w c)" "has_scene (cl w' c) = has_scene (cl w c)"
proof -
  have e: "(cl w' c)\<lparr>isbanned := False\<rparr> = (cl w c)\<lparr>isbanned := False\<rparr>" using assms by (simp add: vis_eq_def)
  show "sticky (cl w' c) = sticky (cl w c)" using arg_cong [OF e, of sticky] by simp
  show "c_screen (cl w' c) = c_screen (cl w c)" using arg_cong [OF e, of c_screen] by simp
  show "c_mon (cl w' c) = c_mon (cl w c)" using arg_cong [OF e, of c_mon] by simp
  show "hidden (cl w' c) = hidden (cl w c)" using arg_cong [OF e, of hidden] by simp
  show "minimized (cl w' c) = minimized (cl w c)" using arg_cong [OF e, of minimized] by simp
  show "has_scene (cl w' c) = has_scene (cl w c)" using arg_cong [OF e, of has_scene] by simp
qed

lemma vis_eq_visible:
  assumes "vis_eq w w'"
  shows "client_isvisible c w' = client_isvisible c w"
proof -
  have eqs: "tags w' = tags w" "tg w' = tg w" "sc w' = sc w" "screens w' = screens w"
    using assms by (simp_all add: vis_eq_def)
  show ?thesis
    unfolding client_isvisible_def client_on_selected_tags_def luaA_screen_get_by_monitor_def
      is_client_tagged_def by (simp only: eqs vis_eq_client [OF assms])
qed

lemma client_unfocus_queue [simp]:
  "client_unfocus env c False w = w\<lparr>focus_client := None, focus_need_update := True,
     queue := queue w @ [AEvent EVENT_OBJECT (Some (LUser c)) None SIG_PROPERTY_ACTIVE [LBool False],
                         AEvent EVENT_OBJECT (Some (LUser c)) None SIG_UNFOCUS []]\<rparr>"
  by (simp add: client_unfocus_def client_unfocus_internal_def enqueue_def Let_def)

lemma ban_unfocus_eq: "vis_eq w (client_ban_unfocus env c w)" "cl (client_ban_unfocus env c w) = cl w"
  by (simp_all add: client_ban_unfocus_def vis_eq_def)

lemma ban_eq: "vis_eq w (client_ban env c w)"
  by (auto simp: client_ban_def client_ban_unfocus_def vis_eq_def)

lemma ban_banned:
  "isbanned (cl (client_ban env c w) d) = (if d = c \<and> has_scene (cl w c) then True else isbanned (cl w d))"
  by (auto simp: client_ban_def ban_unfocus_eq)

lemma unban_visible:
  assumes "client_isvisible c w"
  shows "vis_eq w (client_unban env c w)"
    and "isbanned (cl (client_unban env c w) d) = (if d = c \<and> has_scene (cl w c) then False else isbanned (cl w d))"
    and "focus_client (client_unban env c w) = focus_client w" and "queue (client_unban env c w) = queue w"
  using assms by (auto simp: client_unban_def client_set_minimized_def client_set_hidden_def
      client_isvisible_def vis_eq_def Let_def)

definition unban_pass :: "env \<Rightarrow> nat \<Rightarrow> world \<Rightarrow> world" where
  "unban_pass env c w = (if client_isvisible c w then client_unban env c w else w)"

definition ban_pass :: "env \<Rightarrow> nat \<Rightarrow> world \<Rightarrow> world" where
  "ban_pass env c w = (if \<not> client_isvisible c w then client_ban env c w else w)"

lemma unban_pass_fold:
  "vis_eq w (fold (unban_pass env) xs w) \<and> focus_client (fold (unban_pass env) xs w) = focus_client w \<and>
   queue (fold (unban_pass env) xs w) = queue w \<and>
   (\<forall>d. isbanned (cl (fold (unban_pass env) xs w) d) =
     (if d \<in> set xs \<and> client_isvisible d w \<and> has_scene (cl w d) then False else isbanned (cl w d)))"
proof (induction xs arbitrary: w)
  case Nil
  then show ?case by simp
next
  case (Cons c xs)
  let ?w = "unban_pass env c w"
  have e: "vis_eq w ?w" and b: "isbanned (cl ?w d) =
      (if d = c \<and> client_isvisible c w \<and> has_scene (cl w c) then False else isbanned (cl w d))"
    and f: "focus_client ?w = focus_client w" "queue ?w = queue w" for d
    using unban_visible [of c w env] by (auto simp: unban_pass_def)
  note IH = Cons.IH [of ?w]
  show ?case
    using IH vis_eq_trans [OF e] f
    by (auto simp: b vis_eq_visible [OF e] vis_eq_client(6) [OF e])
qed

lemma ban_pass_fold:
  "vis_eq w (fold (ban_pass env) xs w) \<and>
   (\<forall>d. isbanned (cl (fold (ban_pass env) xs w) d) =
     (if d \<in> set xs \<and> \<not> client_isvisible d w \<and> has_scene (cl w d) then True else isbanned (cl w d)))"
proof (induction xs arbitrary: w)
  case Nil
  then show ?case by simp
next
  case (Cons c xs)
  let ?w = "ban_pass env c w"
  have e: "vis_eq w ?w" and b: "isbanned (cl ?w d) =
      (if d = c \<and> \<not> client_isvisible c w \<and> has_scene (cl w c) then True else isbanned (cl w d))" for d
    using ban_eq [of w env c] ban_banned [of env c w] by (auto simp: ban_pass_def)
  note IH = Cons.IH [of ?w]
  show ?case
    using IH vis_eq_trans [OF e]
    by (auto simp: b vis_eq_visible [OF e] vis_eq_client(6) [OF e])
qed

lemma ban_pass_focus:
  shows "focus_client (fold (ban_pass env) xs w) = focus_client w \<or> focus_client (fold (ban_pass env) xs w) = None"
  and "mousegrabber_running w \<Longrightarrow> focus_client (fold (ban_pass env) xs w) = focus_client w"
proof -
  have one: "focus_client (ban_pass env c w) = focus_client w \<or>
      focus_client (ban_pass env c w) = None \<and> \<not> mousegrabber_running w" for c w
    by (simp add: ban_pass_def client_ban_def client_ban_unfocus_def)
  have grab: "mousegrabber_running (ban_pass env c w) = mousegrabber_running w" for c w
    by (simp add: ban_pass_def client_ban_def client_ban_unfocus_def)
  show "focus_client (fold (ban_pass env) xs w) = focus_client w \<or> focus_client (fold (ban_pass env) xs w) = None"
  proof (induction xs arbitrary: w)
    case (Cons c xs)
    show ?case using one [of c w] Cons.IH [of "ban_pass env c w"]
      by (metis fold_simps(2))
  qed simp
  show "mousegrabber_running w \<Longrightarrow> focus_client (fold (ban_pass env) xs w) = focus_client w"
  proof (induction xs arbitrary: w)
    case (Cons c xs)
    then show ?case using one [of c w] Cons.IH [of "ban_pass env c w"] grab by auto
  qed simp
qed

lemma banning_refresh_folds:
  assumes "length (clients w) < fuel" and "need_lazy_banning w"
  shows "banning_refresh fuel env w = Some (fold (ban_pass env) (clients w)
    (fold (unban_pass env) (clients w) (w\<lparr>need_lazy_banning := False\<rparr>)))"
proof -
  have ub: "clients (unban_pass env c w) = clients w" for c w
    using unban_visible(1) [of c w env] by (auto simp: unban_pass_def vis_eq_def)
  have bb: "clients (ban_pass env c w) = clients w" for c w
    using ban_eq [of w env c] by (auto simp: ban_pass_def vis_eq_def)
  have f1: "foreach fuel 0 clients (unban_pass env) (w\<lparr>need_lazy_banning := False\<rparr>)
      = Some (fold (unban_pass env) (clients w) (w\<lparr>need_lazy_banning := False\<rparr>))"
    using foreach_fold [of clients "unban_pass env" "w\<lparr>need_lazy_banning := False\<rparr>" 0 fuel] ub assms(1)
    by simp
  let ?w1 = "fold (unban_pass env) (clients w) (w\<lparr>need_lazy_banning := False\<rparr>)"
  have "clients ?w1 = clients w"
    using unban_pass_fold [of "w\<lparr>need_lazy_banning := False\<rparr>" env "clients w"] by (simp add: vis_eq_def)
  then have f2: "foreach fuel 0 clients (ban_pass env) ?w1 = Some (fold (ban_pass env) (clients w) ?w1)"
    using foreach_fold [of clients "ban_pass env" ?w1 0 fuel] bb assms(1) by simp
  have u: "unban_pass env = (\<lambda>c w. if client_isvisible c w then client_unban env c w else w)"
    and b: "ban_pass env = (\<lambda>c w. if \<not> client_isvisible c w then client_ban env c w else w)"
    by (simp_all add: unban_pass_def ban_pass_def fun_eq_iff)
  have "banning_refresh fuel env w = Option.bind (foreach fuel 0 clients (unban_pass env) (w\<lparr>need_lazy_banning := False\<rparr>))
      (foreach fuel 0 clients (ban_pass env))"
    unfolding banning_refresh_def u b using assms(2) by simp
  then show ?thesis by (simp add: f1 f2)
qed

lemma banning_refresh_result:
  assumes "need_lazy_banning w"
  shows "\<exists>w'. banning_refresh (length (clients w) + 1) env w = Some w' \<and>
    (\<forall>c. client_isvisible c w' = client_isvisible c w) \<and>
    (\<forall>c \<in> set (clients w). isbanned (cl w' c) =
       (if has_scene (cl w c) then \<not> client_isvisible c w else isbanned (cl w c))) \<and>
    trace w' = trace w \<and> clients w' = clients w \<and>
    focus_client w' \<in> {focus_client w, None} \<and>
    (mousegrabber_running w \<longrightarrow> focus_client w' = focus_client w)"
proof -
  let ?w0 = "w\<lparr>need_lazy_banning := False\<rparr>"
  let ?w1 = "fold (unban_pass env) (clients w) ?w0"
  let ?w2 = "fold (ban_pass env) (clients w) ?w1"
  have e0: "vis_eq w ?w0" by (simp add: vis_eq_def)
  note u = unban_pass_fold [of ?w0 env "clients w"]
  note b = ban_pass_fold [of ?w1 env "clients w"]
  have e1: "vis_eq w ?w1" using u vis_eq_trans [OF e0] by blast
  have e2: "vis_eq w ?w2" using b vis_eq_trans [OF e1] by blast
  have ban: "isbanned (cl ?w2 c) = (if has_scene (cl w c) then \<not> client_isvisible c w else isbanned (cl w c))"
    if "c \<in> set (clients w)" for c
    using that u b vis_eq_visible [OF e1] vis_eq_client(6) [OF e1] vis_eq_visible [OF e0] by auto
  have run: "banning_refresh (length (clients w) + 1) env w = Some ?w2"
    by (rule banning_refresh_folds) (use assms in simp_all)
  have foc: "focus_client ?w1 = focus_client w" and grab: "mousegrabber_running ?w1 = mousegrabber_running w"
    using u e1 by (auto simp: vis_eq_def)
  have f2: "focus_client ?w2 \<in> {focus_client w, None}"
    "mousegrabber_running w \<longrightarrow> focus_client ?w2 = focus_client w"
    using ban_pass_focus(1) [of env "clients w" ?w1] ban_pass_focus(2) [of ?w1 env "clients w"]
    unfolding foc grab by simp_all
  have "trace ?w2 = trace w" and "clients ?w2 = clients w" using e2 by (simp_all add: vis_eq_def)
  then show ?thesis using run ban vis_eq_visible [OF e2] f2 by blast
qed

text \<open>
  C12: After a banning refresh that was due, every managed client with a scene is banned exactly
  when it is not visible; clients without a scene keep their state, no visibility changes, no
  Lua code runs, and the focus is kept or given up, never moved, and kept while a mouse grab
  runs. One round more than there are clients is fuel enough, whatever the environment does.
\<close>

theorem banning_refresh_bans_invisible:
  assumes "need_lazy_banning w"
  shows "\<exists>w'. banning_refresh (length (clients w) + 1) env w = Some w' \<and>
    (\<forall>c. client_isvisible c w' = client_isvisible c w) \<and>
    (\<forall>c \<in> set (clients w). isbanned (cl w' c) =
       (if has_scene (cl w c) then \<not> client_isvisible c w else isbanned (cl w c))) \<and>
    trace w' = trace w \<and> clients w' = clients w \<and>
    focus_client w' \<in> {focus_client w, None} \<and>
    (mousegrabber_running w \<longrightarrow> focus_client w' = focus_client w)"
  using banning_refresh_result [OF assms] .

lemma banning_refresh_bans_invisible_witness:
  "\<exists>w'. banning_refresh 2 idle (world0\<lparr>clients := [1], need_lazy_banning := True,
      cl := (\<lambda>_. client0\<lparr>has_scene := True\<rparr>), focus_client := Some 1\<rparr>) = Some w' \<and> isbanned (cl w' 1)"
  using banning_refresh_bans_invisible [of "world0\<lparr>clients := [1], need_lazy_banning := True,
      cl := (\<lambda>_. client0\<lparr>has_scene := True\<rparr>), focus_client := Some 1\<rparr>" idle]
  by (auto simp: world0_def client0_def client_isvisible_def client_on_selected_tags_def numeral_2_eq_2)

subsection \<open>The focus after an update\<close>

lemma ban_unfocus_fold:
  "vis_eq w (fold (\<lambda>c w. if \<not> client_isvisible c w then client_ban_unfocus env c w else w) xs w) \<and>
   focus_client (fold (\<lambda>c w. if \<not> client_isvisible c w then client_ban_unfocus env c w else w) xs w) =
     (case focus_client w of None \<Rightarrow> None
      | Some f \<Rightarrow> if f \<in> set xs \<and> \<not> client_isvisible f w \<and> \<not> mousegrabber_running w then None else Some f)"
proof (induction xs arbitrary: w)
  case Nil
  then show ?case by (simp split: option.splits)
next
  case (Cons c xs)
  let ?w = "if \<not> client_isvisible c w then client_ban_unfocus env c w else w"
  have e: "vis_eq w ?w" using ban_unfocus_eq by simp
  have f: "focus_client ?w = (if focus_client w = Some c \<and> \<not> client_isvisible c w \<and> \<not> mousegrabber_running w
      then None else focus_client w)" by (simp add: client_ban_unfocus_def)
  have g: "mousegrabber_running ?w = mousegrabber_running w" using e by (simp add: vis_eq_def)
  note IH = Cons.IH [of ?w]
  have v: "vis_eq w (fold (\<lambda>c w. if \<not> client_isvisible c w then client_ban_unfocus env c w else w) xs ?w)"
    using IH vis_eq_trans [OF e] by blast
  show ?case
    using v IH unfolding f g vis_eq_visible [OF e] by (auto split: option.splits)
qed

text \<open>
  Every change that can hide a client gives up the focus at once: after
  banning_need_update a managed client that has the focus is visible unless a mouse grab
  runs, and a visible focused client keeps the focus; the banning pass is due; and no
  client's visibility or banned flag has changed.
\<close>

theorem banning_need_update_focus:
  "need_lazy_banning (banning_need_update env w) \<and>
   cl (banning_need_update env w) = cl w \<and>
   focus_client (banning_need_update env w) =
     (case focus_client w of None \<Rightarrow> None
      | Some f \<Rightarrow> if f \<in> set (clients w) \<and> \<not> client_isvisible f w \<and> \<not> mousegrabber_running w
                then None else Some f)"
proof -
  let ?f = "\<lambda>c w. if \<not> client_isvisible c w then client_ban_unfocus env c w else w"
  have keep: "need_lazy_banning (fold ?f xs w) = need_lazy_banning w \<and> cl (fold ?f xs w) = cl w" for xs w
    by (induction xs arbitrary: w) (auto simp: client_ban_unfocus_def)
  have "vis_eq w (w\<lparr>need_lazy_banning := True\<rparr>)" by (simp add: vis_eq_def)
  from vis_eq_visible [OF this] show ?thesis
    using ban_unfocus_fold [of "w\<lparr>need_lazy_banning := True\<rparr>" env "clients w"] keep
    by (auto simp: banning_need_update_def split: option.splits)
qed

text \<open>
  Focusing a client makes it the focused client, clears its urgency, and queues the
  signals in the order Lua expects: the previous client's property::active and unfocus, then
  the new one's property::active and focus; focusing the focused client queues nothing. This
  holds for every environment that leaves the focus, the queue and the urgency alone.
\<close>

theorem client_focus_signals:
  assumes "keeps env (\<lambda>w. (focus_client w, queue w, urgent (cl w c)))"
  shows "focus_client (client_focus env (Some c) w) = Some c \<and>
    \<not> urgent (cl (client_focus env (Some c) w) c) \<and>
    queue (client_focus env (Some c) w) = queue w @
      (case focus_client w of
         Some f \<Rightarrow> if f = c then []
                  else [AEvent EVENT_OBJECT (Some (LUser f)) None SIG_PROPERTY_ACTIVE [LBool False],
                        AEvent EVENT_OBJECT (Some (LUser f)) None SIG_UNFOCUS []]
       | None \<Rightarrow> []) @
      (if focus_client w = Some c then []
       else [AEvent EVENT_OBJECT (Some (LUser c)) None SIG_PROPERTY_ACTIVE [LBool True],
             AEvent EVENT_OBJECT (Some (LUser c)) None SIG_FOCUS []])"
proof -
  have k: "focus_client (call_env env k v) = focus_client v" "queue (call_env env k v) = queue v"
    "urgent (cl (call_env env k v) c) = urgent (cl v c)" for k v
    using call_env_keeps [OF assms, of k v] by simp_all
  show ?thesis
    by (auto simp: client_focus_def client_focus_update_def client_unfocus_internal_def
        client_set_urgent_def k enqueue_def Let_def split: option.splits)
qed

lemma client_focus_signals_witness:
  "queue (client_focus idle (Some 2) (world0\<lparr>focus_client := Some 1\<rparr>)) =
     [AEvent EVENT_OBJECT (Some (LUser 1)) None SIG_PROPERTY_ACTIVE [LBool False],
      AEvent EVENT_OBJECT (Some (LUser 1)) None SIG_UNFOCUS [],
      AEvent EVENT_OBJECT (Some (LUser 2)) None SIG_PROPERTY_ACTIVE [LBool True],
      AEvent EVENT_OBJECT (Some (LUser 2)) None SIG_FOCUS []]"
  using client_focus_signals [of idle 2 "world0\<lparr>focus_client := Some 1\<rparr>"] by (simp add: world0_def)

subsection \<open>What a banning request leaves alone\<close>

text \<open>What banning_need_update writes: the focus, the queue and the refresh flags.\<close>

definition settled :: "world \<Rightarrow> world" where
  "settled w = w\<lparr>focus_client := None, queue := [], focus_need_update := False, need_lazy_banning := False\<rparr>"

lemma settled_ban_unfocus: "settled (client_ban_unfocus env c w) = settled w"
  by (simp add: settled_def client_ban_unfocus_def client_unfocus_def client_unfocus_internal_def
      Let_def enqueue_def)

lemma settled_need_update: "settled (banning_need_update env w) = settled w"
proof -
  have "settled (fold (\<lambda>c w. if \<not> client_isvisible c w then client_ban_unfocus env c w else w) xs w) = settled w" for xs w
    by (induction xs arbitrary: w) (simp_all add: settled_ban_unfocus)
  then show ?thesis by (simp add: banning_need_update_def) (simp add: settled_def)
qed

lemma settled_view:
  "(\<And>v. view (settled v) = view v) \<Longrightarrow> view (banning_need_update env w) = view w"
  using settled_need_update by metis

lemma need_update_sel [simp]:
  "surf (banning_need_update env w) = surf w" "ly (banning_need_update env w) = ly w" "seat_focus (banning_need_update env w) = seat_focus w"
  "exclusive_focus (banning_need_update env w) = exclusive_focus w" "active_constraint (banning_need_update env w) = active_constraint w"
  "seat_drag (banning_need_update env w) = seat_drag w" "ext_locked (banning_need_update env w) = ext_locked w" "lua_locked (banning_need_update env w) = lua_locked w"
  "cur_lock (banning_need_update env w) = cur_lock w" "lua_authenticated (banning_need_update env w) = lua_authenticated w" "lock_surface (banning_need_update env w) = lock_surface w" "lock_surface_ref (banning_need_update env w) = lock_surface_ref w" "lock_covers (banning_need_update env w) = lock_covers w" "pre_lock_client (banning_need_update env w) = pre_lock_client w" "keygrabber (banning_need_update env w) = keygrabber w"
  "selmon (banning_need_update env w) = selmon w"
  "cl (banning_need_update env w) = cl w" "tg (banning_need_update env w) = tg w"
  "sc (banning_need_update env w) = sc w" "mo (banning_need_update env w) = mo w"
  "clients (banning_need_update env w) = clients w" "stack (banning_need_update env w) = stack w"
  "tags (banning_need_update env w) = tags w" "screens (banning_need_update env w) = screens w"
  "mons (banning_need_update env w) = mons w" "primary_screen (banning_need_update env w) = primary_screen w"
  "need_stack_refresh (banning_need_update env w) = need_stack_refresh w"
  "mousegrabber_running (banning_need_update env w) = mousegrabber_running w"
  "mouse_under (banning_need_update env w) = mouse_under w"
  "registry (banning_need_update env w) = registry w" "trace (banning_need_update env w) = trace w"
  by (rule settled_view, simp add: settled_def)+

lemma need_update_focus:
  "focus_client (banning_need_update env w) = focus_client w \<or> focus_client (banning_need_update env w) = None"
proof -
  have "focus_client (fold (\<lambda>c w. if \<not> client_isvisible c w then client_ban_unfocus env c w else w) xs w) \<in> {focus_client w, None}" for xs w
  proof (induction xs arbitrary: w)
    case (Cons a xs)
    have "focus_client (if \<not> client_isvisible a w then client_ban_unfocus env a w else w) \<in> {focus_client w, None}"
      by (simp add: client_ban_unfocus_def client_unfocus_def client_unfocus_internal_def Let_def)
    then show ?case using Cons.IH [of "if \<not> client_isvisible a w then client_ban_unfocus env a w else w"] by auto
  qed simp
  from this [of "clients w" "w\<lparr>need_lazy_banning := True\<rparr>"] show ?thesis by (simp add: banning_need_update_def)
qed

text \<open>
  A view of the state that the focus bookkeeping does not touch. Focusing and banning keep every
  such view when the environment does.
\<close>

locale focus_view =
  fixes view :: "world \<Rightarrow> 'v"
  assumes view_settled: "view (settled w) = view w"
    and view_trace: "view (w\<lparr>trace := x\<rparr>) = view w"
    and view_urgent: "view (upd_client c (\<lambda>x. x\<lparr>urgent := v\<rparr>) w) = view w"
begin

lemma settled_eqI: "settled v = settled w \<Longrightarrow> view v = view w"
  using view_settled by metis

lemma view_call [simp]: "keeps env view \<Longrightarrow> view (call_env env k w) = view w"
  by (erule call_env_keeps) (rule view_trace)

lemma view_simps [simp]:
  "view (enqueue op w) = view w" "view (w\<lparr>focus_client := x\<rparr>) = view w"
  "view (w\<lparr>focus_need_update := b\<rparr>) = view w" "view (w\<lparr>need_lazy_banning := b\<rparr>) = view w"
  by (rule settled_eqI, simp add: settled_def enqueue_def)+

lemma view_need_update [simp]: "view (banning_need_update env w) = view w"
  by (rule settled_view) (rule view_settled)

lemma view_set_urgent [simp]: "keeps env view \<Longrightarrow> view (client_set_urgent env c v w) = view w"
  by (simp add: client_set_urgent_def view_urgent)

lemma view_unfocus [simp]:
  "keeps env view \<Longrightarrow> view (client_unfocus_internal env c s w) = view w"
  "keeps env view \<Longrightarrow> view (client_unfocus env c s w) = view w"
  by (simp_all add: client_unfocus_internal_def client_unfocus_def Let_def)

lemma view_focus_update [simp]: "keeps env view \<Longrightarrow> view (snd (client_focus_update env c w)) = view w"
  by (simp add: client_focus_update_def Let_def split: option.split)

lemma view_focus [simp]:
  assumes "keeps env view" shows "view (client_focus env c w) = view w"
proof -
  have "view u = view w" if "client_focus_update env d w = (b, u)" for d b u
    using view_focus_update [OF assms, of d w] that by simp
  then show ?thesis using assms by (auto simp: client_focus_def Let_def split: prod.split option.split)
qed

end

end
