(* ===== verification/Stack.thy ===== *)
theory Stack
  imports Visibility
begin

text \<open>
  Stacking: src/stack.c and the raising and lowering of clients in src/objects/client.h and
  src/objects/client.c. The stack is kept bottom first. A refresh places every transient right
  above its parent. The proof works in the locale forest, where every node but the roots has a
  parent nearer to a root; the stack's "riding" relation is its interpretation.
\<close>

subsection \<open>The stack\<close>

definition stack_windows :: "world \<Rightarrow> world" where
  "stack_windows w = w\<lparr>need_stack_refresh := True\<rparr>"

definition stack_client_remove :: "nat \<Rightarrow> world \<Rightarrow> world" where
  "stack_client_remove c w =
     stack_windows
       (case index_of c (stack w) of
          None \<Rightarrow> w
        | Some i \<Rightarrow> w\<lparr>stack := take i (stack w) @ drop (Suc i) (stack w)\<rparr>)"

definition stack_client_push :: "nat \<Rightarrow> world \<Rightarrow> world" where
  "stack_client_push c w =
     (let w = stack_client_remove c w in stack_windows (w\<lparr>stack := c # stack w\<rparr>))"

definition stack_client_append :: "nat \<Rightarrow> world \<Rightarrow> world" where
  "stack_client_append c w =
     (let w = stack_client_remove c w in stack_windows (w\<lparr>stack := stack w @ [c]\<rparr>))"

datatype window_layer =
    WINDOW_LAYER_IGNORE | WINDOW_LAYER_DESKTOP | WINDOW_LAYER_BELOW | WINDOW_LAYER_NORMAL
  | WINDOW_LAYER_ABOVE | WINDOW_LAYER_FULLSCREEN | WINDOW_LAYER_ONTOP

abbreviation (input) WINDOW_TYPE_DESKTOP :: nat where "WINDOW_TYPE_DESKTOP \<equiv> 1"

definition stack_client_layer :: "nat option \<Rightarrow> world \<Rightarrow> window_layer" where
  "stack_client_layer c w =
     (case c of
        None \<Rightarrow> WINDOW_LAYER_NORMAL
      | Some c \<Rightarrow>
          (let x = cl w c; focused = focus_client w in
           if ontop x then WINDOW_LAYER_ONTOP
           else if fullscreen x \<and> (focused = Some c \<or> focused = None \<or>
                     c_screen (cl w (the focused)) \<noteq> c_screen x) then WINDOW_LAYER_FULLSCREEN
           else if above x then WINDOW_LAYER_ABOVE
           else if below x then WINDOW_LAYER_BELOW
           else if transient_for x \<noteq> None then WINDOW_LAYER_IGNORE
           else if c_type x = WINDOW_TYPE_DESKTOP then WINDOW_LAYER_DESKTOP
           else WINDOW_LAYER_NORMAL))"

text \<open>The walk up the transient chain ends unless the chain is a cycle; None is out of fuel.\<close>

fun stack_client_effective_layer :: "nat \<Rightarrow> nat \<Rightarrow> world \<Rightarrow> window_layer option" where
  "stack_client_effective_layer 0 c w = None"
| "stack_client_effective_layer (Suc n) c w =
     (let layer = stack_client_layer (Some c) w in
      if layer = WINDOW_LAYER_IGNORE then
        (case transient_for (cl w c) of
           None \<Rightarrow> Some WINDOW_LAYER_NORMAL
         | Some p \<Rightarrow> stack_client_effective_layer n p w)
      else Some layer)"

definition stack_has :: "nat \<Rightarrow> world \<Rightarrow> bool" where
  "stack_has c w \<longleftrightarrow> c \<in> set (stack w)"

fun stack_rides_loop :: "nat \<Rightarrow> nat \<Rightarrow> nat \<Rightarrow> world \<Rightarrow> bool" where
  "stack_rides_loop 0 c p w = False"
| "stack_rides_loop (Suc i) c p w =
     (case transient_for (cl w p) of
        None \<Rightarrow> p \<noteq> c
      | Some q \<Rightarrow> if \<not> stack_has q w then p \<noteq> c else stack_rides_loop i c q w)"

definition stack_rides :: "nat \<Rightarrow> world \<Rightarrow> bool" where
  "stack_rides c w = stack_rides_loop (length (stack w)) c c w"

text \<open>
  stack_place, on the stack being built: its recursion adds a client to the stack at every
  level. None is out of fuel.
\<close>

fun fold_opt :: "('a \<Rightarrow> 's \<Rightarrow> 's option) \<Rightarrow> 'a list \<Rightarrow> 's \<Rightarrow> 's option" where
  "fold_opt f [] s = Some s"
| "fold_opt f (x # xs) s = Option.bind (f x s) (fold_opt f xs)"

primrec stack_place ::
  "nat \<Rightarrow> (nat \<Rightarrow> nat option) \<Rightarrow> (nat \<times> bool) list \<Rightarrow> nat \<Rightarrow> nat list \<Rightarrow> nat list option" where
  "stack_place 0 parent old c st = None"
| "stack_place (Suc n) parent old c st =
     (if c \<in> set st then Some st
      else fold_opt (\<lambda>(o', rides) st.
             if rides \<and> parent o' = Some c then stack_place n parent old o' st else Some st)
             old (st @ [c]))"

definition stack_refresh :: "env \<Rightarrow> world \<Rightarrow> world option" where
  "stack_refresh env w =
     (if \<not> need_stack_refresh w then Some w
      else
        (let parent = (\<lambda>c. transient_for (cl w c));
             old = map (\<lambda>c. (c, stack_rides c w)) (stack w)
         in map_option
              (\<lambda>st. (call_env env (Native ''ewmh_update_net_client_list_stacking'' [])
                       (call_env env (Native ''declare_mark_all_dirty'' []) (w\<lparr>stack := st\<rparr>)))
                     \<lparr>need_stack_refresh := False\<rparr>)
              (fold_opt (\<lambda>(c, rides) st.
                 if \<not> rides then stack_place (length (stack w) + 1) parent old c st else Some st)
                 old [])))"

subsection \<open>Raising and lowering\<close>

fun transient_count :: "nat \<Rightarrow> nat \<Rightarrow> world \<Rightarrow> nat option" where
  "transient_count 0 tc w = None"
| "transient_count (Suc n) tc w =
     (case transient_for (cl w tc) of
        None \<Rightarrow> Some 0
      | Some p \<Rightarrow> map_option Suc (transient_count n p w))"

fun transient_up :: "nat \<Rightarrow> nat \<Rightarrow> world \<Rightarrow> nat" where
  "transient_up 0 tc w = tc"
| "transient_up (Suc i) tc w =
     (case transient_for (cl w tc) of None \<Rightarrow> tc | Some p \<Rightarrow> transient_up i p w)"

definition client_raise :: "nat \<Rightarrow> env \<Rightarrow> nat \<Rightarrow> world \<Rightarrow> world option" where
  "client_raise fuel env c w =
     map_option (\<lambda>counter.
       let w = fold (\<lambda>i w. stack_client_append (transient_up i c w) w) (rev [1..<counter + 1]) w;
           w = stack_client_append c w
       in emit env c ''raised'' [] w) (transient_count fuel c w)"

definition luaA_client_raise :: "nat \<Rightarrow> env \<Rightarrow> nat \<Rightarrow> world \<Rightarrow> world option" where
  "luaA_client_raise fuel env c w =
     (if transient_for (cl w c) = None \<and> stack w \<noteq> [] \<and> last (stack w) = c then Some w
      else client_raise fuel env c w)"

fun lower_parents :: "nat \<Rightarrow> nat option \<Rightarrow> world \<Rightarrow> world option" where
  "lower_parents 0 tc w = None"
| "lower_parents (Suc n) tc w =
     (case tc of
        None \<Rightarrow> Some w
      | Some p \<Rightarrow> (let w = stack_client_push p w in lower_parents n (transient_for (cl w p)) w))"

definition luaA_client_lower :: "nat \<Rightarrow> env \<Rightarrow> nat \<Rightarrow> world \<Rightarrow> world option" where
  "luaA_client_lower fuel env c w =
     (if stack w \<noteq> [] \<and> hd (stack w) = c then Some w
      else
        (let w = stack_client_push c w
         in map_option (emit env c ''lowered'' []) (lower_parents fuel (transient_for (cl w c)) w)))"

subsection \<open>Setting the transient parent\<close>

definition client_set_transient_for :: "env \<Rightarrow> nat \<Rightarrow> nat option \<Rightarrow> world \<Rightarrow> world" where
  "client_set_transient_for env c value w =
     (if transient_for (cl w c) \<noteq> value then
        emit env c ''property::transient_for'' []
          (stack_windows (upd_client c (\<lambda>x. x\<lparr>transient_for := value\<rparr>) w))
      else w)"

text \<open>
  The loop of client_find_transient_for: the counter it ends with, given the rounds it may
  still run. Meeting c sets the counter to the length of the stack plus one before the
  increment of the for.
\<close>

fun transient_loop :: "nat \<Rightarrow> nat \<Rightarrow> nat option \<Rightarrow> nat \<Rightarrow> world \<Rightarrow> nat" where
  "transient_loop 0 c tmp counter w = counter"
| "transient_loop (Suc n) c tmp counter w =
     (case tmp of
        None \<Rightarrow> counter
      | Some t \<Rightarrow>
          (if counter \<le> length (stack w) then
             (let counter = (if t = c then length (stack w) + 1 else counter)
              in transient_loop n c (transient_for (cl w t)) (counter + 1) w)
           else counter))"

definition client_find_transient_for :: "env \<Rightarrow> nat \<Rightarrow> world \<Rightarrow> world" where
  "client_find_transient_for env c w =
     (let tc = client_getbywin (transient_for_window (cl w c)) w;
          counter = transient_loop (length (stack w) + 2) c tc 0 w;
          tc = (if counter > length (stack w) then None else tc)
      in client_set_transient_for env c tc w)"

subsection \<open>Forests\<close>

text \<open>
  A finite set of nodes, listed in some order, in which a parent is nearer to its root.
  arrange_forest lists every root with the nodes below it, each right above its parent.
\<close>

locale forest =
  fixes nodes :: "'a list"
    and parent :: "'a \<Rightarrow> 'a option"
    and dist :: "'a \<Rightarrow> nat"
  assumes parent_node: "x \<in> set nodes \<Longrightarrow> parent x = Some p \<Longrightarrow> p \<in> set nodes"
    and parent_dist: "x \<in> set nodes \<Longrightarrow> parent x = Some p \<Longrightarrow> dist x = Suc (dist p)"
    and dist_bound: "x \<in> set nodes \<Longrightarrow> dist x < length nodes"
begin

definition children :: "'a \<Rightarrow> 'a list" where
  "children c = filter (\<lambda>x. parent x = Some c) nodes"

primrec subtree :: "nat \<Rightarrow> 'a \<Rightarrow> 'a list" where
  "subtree 0 c = []"
| "subtree (Suc n) c = c # concat (map (subtree n) (children c))"

definition roots :: "'a list" where
  "roots = filter (\<lambda>x. parent x = None) nodes"

definition tree :: "'a \<Rightarrow> 'a list" where
  "tree c = subtree (length nodes - dist c) c"

definition arrange_forest :: "'a list" where
  "arrange_forest = concat (map tree roots)"

lemma children_iff: "x \<in> set (children c) \<longleftrightarrow> x \<in> set nodes \<and> parent x = Some c"
  by (auto simp: children_def)

lemma tree_unfold:
  assumes "c \<in> set nodes"
  shows "tree c = c # concat (map tree (children c))"
proof -
  obtain n where n: "length nodes - dist c = Suc n"
    using dist_bound [OF assms] by (metis Suc_diff_Suc)
  have "subtree n x = tree x" if "x \<in> set (children c)" for x
  proof -
    have "dist x = Suc (dist c)" using that parent_dist by (auto simp: children_iff)
    then have "length nodes - dist x = n" using n by simp
    then show ?thesis by (simp add: tree_def)
  qed
  then have eq: "map (subtree n) (children c) = map tree (children c)" by simp
  have "tree c = subtree (Suc n) c" by (simp add: tree_def n)
  then show ?thesis unfolding subtree.simps(2) eq .
qed

text \<open>Induction from the leaves to the roots.\<close>

lemma node_induct [consumes 1, case_names node]:
  assumes "c \<in> set nodes"
    and "\<And>c. c \<in> set nodes \<Longrightarrow> (\<And>x. x \<in> set (children c) \<Longrightarrow> P x) \<Longrightarrow> P c"
  shows "P c"
  using assms(1)
proof (induction "length nodes - dist c" arbitrary: c rule: less_induct)
  case less
  show ?case
  proof (rule assms(2) [OF less.prems])
    fix x assume x: "x \<in> set (children c)"
    then have "x \<in> set nodes" "dist x = Suc (dist c)" using parent_dist by (auto simp: children_iff)
    moreover have "dist x < length nodes" using dist_bound calculation(1) by blast
    ultimately show "P x" using less.hyps [of x] by simp
  qed
qed

text \<open>The node d steps above.\<close>

primrec up :: "nat \<Rightarrow> 'a \<Rightarrow> 'a option" where
  "up 0 x = Some x"
| "up (Suc d) x = Option.bind (parent x) (up d)"

lemma up_Suc_right: "up (Suc d) x = Option.bind (up d x) parent"
proof (induction d arbitrary: x)
  case 0
  show ?case by (cases "parent x") simp_all
next
  case (Suc d)
  show ?case
  proof (cases "parent x")
    case None
    then show ?thesis by simp
  next
    case (Some p)
    then show ?thesis using Suc.IH [of p] by simp
  qed
qed

lemma tree_up:
  assumes "c \<in> set nodes" and "x \<in> set (tree c)"
  shows "x \<in> set nodes \<and> dist c \<le> dist x \<and> up (dist x - dist c) x = Some c"
  using assms
proof (induction c arbitrary: x rule: node_induct)
  case (node c)
  from node.prems tree_unfold [OF node.hyps] consider "x = c" |
    d where "d \<in> set (children c)" "x \<in> set (tree d)" by auto
  then show ?case
  proof cases
    case 1
    then show ?thesis using node.hyps by simp
  next
    case (2 d)
    from node.IH [OF 2] have ih: "x \<in> set nodes" "dist d \<le> dist x" "up (dist x - dist d) x = Some d"
      by auto
    have d: "parent d = Some c" "dist d = Suc (dist c)"
      using 2(1) parent_dist by (auto simp: children_iff)
    have "dist x - dist c = Suc (dist x - dist d)" using ih(2) d(2) by simp
    then show ?thesis using ih d up_Suc_right [of "dist x - dist d" x] by simp
  qed
qed

lemma tree_closed:
  assumes "c \<in> set nodes" and "x \<in> set (tree c)" and "y \<in> set nodes" and "parent y = Some x"
  shows "y \<in> set (tree c)"
  using assms
proof (induction c arbitrary: x rule: node_induct)
  case (node c)
  from node.prems(1) tree_unfold [OF node.hyps] consider "x = c" |
    d where "d \<in> set (children c)" "x \<in> set (tree d)" by auto
  then show ?case
  proof cases
    case 1
    then have "y \<in> set (children c)" using node.prems by (simp add: children_iff)
    moreover have "y \<in> set (tree y)" using tree_unfold [OF node.prems(2)] by simp
    ultimately show ?thesis using tree_unfold [OF node.hyps] by auto
  next
    case (2 d)
    then show ?thesis using node.IH [OF 2 node.prems(2,3)] tree_unfold [OF node.hyps] by auto
  qed
qed

lemma in_some_tree: "x \<in> set nodes \<Longrightarrow> \<exists>r \<in> set roots. x \<in> set (tree r)"
proof (induction "dist x" arbitrary: x rule: less_induct)
  case less
  show ?case
  proof (cases "parent x")
    case None
    then show ?thesis using less.prems tree_unfold [OF less.prems] by (auto simp: roots_def)
  next
    case (Some p)
    then have p: "p \<in> set nodes" "dist p < dist x"
      using parent_node parent_dist less.prems by fastforce+
    from less.hyps [OF p(2,1)] obtain r where r: "r \<in> set roots" "p \<in> set (tree r)" by blast
    then have "r \<in> set nodes" by (simp add: roots_def)
    then show ?thesis using tree_closed [OF _ r(2) less.prems Some] r(1) by blast
  qed
qed

lemma root_dist: "r \<in> set roots \<Longrightarrow> r \<in> set nodes"
  by (simp add: roots_def)

lemma up_unique: "up d x = Some r \<Longrightarrow> up e x = Some s \<Longrightarrow> parent r = None \<Longrightarrow> parent s = None \<Longrightarrow> r = s"
proof (induction d arbitrary: x e)
  case 0
  then show ?case by (cases e) auto
next
  case (Suc d)
  then show ?case by (cases e) (auto split: bind_splits)
qed

lemma set_arrange: "set arrange_forest = set nodes"
proof
  show "set arrange_forest \<subseteq> set nodes"
    using tree_up root_dist by (fastforce simp: arrange_forest_def)
  show "set nodes \<subseteq> set arrange_forest" using in_some_tree by (fastforce simp: arrange_forest_def)
qed

lemma siblings_disjoint:
  assumes "a \<in> set nodes" and "b \<in> set nodes" and "dist a = dist b" and "a \<noteq> b"
  shows "set (tree a) \<inter> set (tree b) = {}"
  using tree_up [OF assms(1)] tree_up [OF assms(2)] assms(3,4) by fastforce

lemma distinct_concat_map:
  "distinct xs \<Longrightarrow> (\<And>x. x \<in> set xs \<Longrightarrow> distinct (f x)) \<Longrightarrow>
   (\<And>x y. x \<in> set xs \<Longrightarrow> y \<in> set xs \<Longrightarrow> x \<noteq> y \<Longrightarrow> set (f x) \<inter> set (f y) = {}) \<Longrightarrow>
   distinct (concat (map f xs))"
  by (induction xs) fastforce+

lemma distinct_tree:
  assumes "distinct nodes" and "c \<in> set nodes"
  shows "distinct (tree c)"
  using assms(2)
proof (induction c rule: node_induct)
  case (node c)
  have ch: "x \<in> set nodes" "dist x = Suc (dist c)" if "x \<in> set (children c)" for x
    using that parent_dist by (auto simp: children_iff)
  have "c \<notin> set (tree x)" if "x \<in> set (children c)" for x
    using tree_up [OF ch(1) [OF that], of c] ch(2) [OF that] by auto
  moreover have "distinct (concat (map tree (children c)))"
  proof (rule distinct_concat_map)
    show "distinct (children c)" using assms(1) by (simp add: children_def)
    show "distinct (tree x)" if "x \<in> set (children c)" for x using node.IH [OF that] .
    show "set (tree x) \<inter> set (tree y) = {}"
      if "x \<in> set (children c)" "y \<in> set (children c)" "x \<noteq> y" for x y
      using siblings_disjoint [OF ch(1) [OF that(1)] ch(1) [OF that(2)]] ch(2) [OF that(1)] ch(2) [OF that(2)]
        that(3) by simp
  qed
  ultimately show ?case using tree_unfold [OF node.hyps] by auto
qed

lemma roots_disjoint:
  assumes "a \<in> set roots" and "b \<in> set roots" and "a \<noteq> b"
  shows "set (tree a) \<inter> set (tree b) = {}"
proof -
  have n: "a \<in> set nodes" "b \<in> set nodes" "parent a = None" "parent b = None"
    using assms(1,2) by (auto simp: roots_def)
  show ?thesis
    using tree_up [OF n(1)] tree_up [OF n(2)] up_unique [OF _ _ n(3,4)] assms(3) by blast
qed

lemma distinct_arrange: "distinct nodes \<Longrightarrow> distinct arrange_forest"
  unfolding arrange_forest_def
proof (rule distinct_concat_map)
  assume d: "distinct nodes"
  show "distinct roots" using d by (simp add: roots_def)
  show "distinct (tree x)" if "x \<in> set roots" for x using distinct_tree [OF d root_dist [OF that]] .
  show "set (tree x) \<inter> set (tree y) = {}" if "x \<in> set roots" "y \<in> set roots" "x \<noteq> y" for x y
    using roots_disjoint [OF that] .
qed

lemma arrange_mset: "distinct nodes \<Longrightarrow> mset arrange_forest = mset nodes"
  using distinct_arrange set_arrange by (metis set_eq_iff_mset_eq_distinct)

text \<open>Between a node and its parent are only nodes below the parent.\<close>

lemma concat_split:
  assumes "x \<in> set xs"
  shows "\<exists>A B. concat (map f xs) = A @ f x @ B"
proof -
  from assms obtain P S where "xs = P @ x # S" by (meson split_list)
  then have "concat (map f xs) = concat (map f P) @ f x @ concat (map f S)" by simp
  then show ?thesis by blast
qed

lemma tree_block:
  assumes "c \<in> set nodes" and "x \<in> set (tree c)"
  shows "\<exists>A B. tree c = A @ tree x @ B"
  using assms
proof (induction c arbitrary: x rule: node_induct)
  case (node c)
  from node.prems tree_unfold [OF node.hyps] consider "x = c" |
    d where "d \<in> set (children c)" "x \<in> set (tree d)" by auto
  then show ?case
  proof cases
    case 1
    then show ?thesis by (metis append_Nil append_Nil2)
  next
    case (2 d)
    from node.IH [OF 2] obtain A B where ab: "tree d = A @ tree x @ B" by blast
    from concat_split [OF 2(1), of tree] obtain C D where
      "concat (map tree (children c)) = C @ tree d @ D" by blast
    then have "tree c = (c # C @ A) @ tree x @ (B @ D)" using tree_unfold [OF node.hyps] ab by simp
    then show ?thesis by blast
  qed
qed

lemma arrange_block:
  assumes "x \<in> set nodes"
  shows "\<exists>A B. arrange_forest = A @ tree x @ B"
proof -
  from in_some_tree [OF assms] obtain r where r: "r \<in> set roots" "x \<in> set (tree r)" by blast
  from tree_block [OF root_dist [OF r(1)] r(2)] obtain A B where "tree r = A @ tree x @ B" by blast
  moreover from concat_split [OF r(1), of tree] obtain C D where
    "arrange_forest = C @ tree r @ D" by (auto simp: arrange_forest_def)
  ultimately have "arrange_forest = (C @ A) @ tree x @ (B @ D)" by simp
  then show ?thesis by blast
qed

lemma right_above_parent:
  assumes "x \<in> set nodes" and "parent x = Some p"
  shows "\<exists>A M B. arrange_forest = A @ p # M @ x # B \<and> (\<forall>y \<in> set M. \<exists>d. up (Suc d) y = Some p)"
proof -
  have p: "p \<in> set nodes" using parent_node assms by blast
  from arrange_block [OF p] obtain A B where ab: "arrange_forest = A @ tree p @ B" by blast
  have "x \<in> set (children p)" using assms by (simp add: children_iff)
  moreover have "x \<in> set (tree x)" using tree_unfold [OF assms(1)] by simp
  ultimately have "x \<in> set (concat (map tree (children p)))" by auto
  then obtain M N where mn: "concat (map tree (children p)) = M @ x # N" by (meson split_list)
  have "\<exists>d. up (Suc d) y = Some p" if "y \<in> set M" for y
  proof -
    from that mn have "y \<in> set (concat (map tree (children p)))" by simp
    then obtain d where d: "d \<in> set (children p)" "y \<in> set (tree d)" by auto
    have "d \<in> set nodes" "parent d = Some p" using d(1) by (auto simp: children_iff)
    then show ?thesis using tree_up [OF _ d(2)] up_Suc_right [of "dist y - dist d" y] by auto
  qed
  moreover have "arrange_forest = A @ p # M @ x # (N @ B)" using ab tree_unfold [OF p] mn by simp
  ultimately show ?thesis by blast
qed

text \<open>Siblings and roots keep the order of the nodes, so arranging twice changes nothing.\<close>

lemma concat_only:
  "distinct xs \<Longrightarrow> a \<in> set xs \<Longrightarrow> (\<And>x. x \<in> set xs \<Longrightarrow> x \<noteq> a \<Longrightarrow> f x = []) \<Longrightarrow> concat (map f xs) = f a"
proof (induction xs)
  case Nil
  then show ?case by simp
next
  case (Cons y ys)
  show ?case
  proof (cases "y = a")
    case True
    then have "\<forall>x \<in> set ys. f x = []" using Cons.prems by auto
    then show ?thesis using True by simp
  next
    case False
    then show ?thesis using Cons by auto
  qed
qed

lemma concat_none: "(\<And>x. x \<in> set xs \<Longrightarrow> f x = []) \<Longrightarrow> concat (map f xs) = []"
  by simp

lemma filter_tree:
  assumes dn: "distinct nodes" and "c \<in> set nodes" and "d \<in> set nodes" and "parent d \<noteq> Some c"
  shows "filter (\<lambda>x. parent x = Some c) (tree d) = (if c \<in> set (tree d) then children c else [])"
  using assms(3,4)
proof (induction "length nodes - dist d" arbitrary: d rule: less_induct)
  case less
  let ?F = "\<lambda>d. filter (\<lambda>x. parent x = Some c) (tree d)"
  have ch: "x \<in> set nodes \<and> parent x = Some e \<and> dist x = Suc (dist e) \<and> dist e < dist x \<and> dist x < length nodes"
    if "x \<in> set (children e)" for x e
    using that parent_dist dist_bound by (fastforce simp: children_iff)
  have unf: "?F e = filter (\<lambda>x. parent x = Some c) [e] @ concat (map ?F (children e))" if "e \<in> set nodes" for e
    using tree_unfold [OF that] by (simp add: filter_concat comp_def)
  have fd: "?F d = concat (map ?F (children d))" using unf [OF less.prems(1)] less.prems(2) by simp
  show ?case
  proof (cases "d = c")
    case True
    have "?F x = [x]" if x: "x \<in> set (children c)" for x
    proof -
      have "?F y = []" if y: "y \<in> set (children x)" for y
      proof -
        have "x \<noteq> c" using ch [OF x] by auto
        then have "parent y \<noteq> Some c" using ch [OF y] by simp
        moreover have "c \<notin> set (tree y)" using tree_up [of y c] ch [OF y] ch [OF x] by force
        moreover have "length nodes - dist y < length nodes - dist d" using ch [OF y] ch [OF x] True
          by (auto intro: diff_less_mono2)
        ultimately show ?thesis using less.hyps [of y] ch [OF y] by simp
      qed
      then have "concat (map ?F (children x)) = []" by (rule concat_none)
      then show ?thesis using unf [of x] ch [OF x] by simp
    qed
    then have "concat (map ?F (children c)) = children c" by (simp cong: map_cong)
    then show ?thesis using True fd tree_unfold [OF less.prems(1)] by simp
  next
    case False
    have sub: "?F x = (if c \<in> set (tree x) then children c else [])" if "x \<in> set (children d)" for x
    proof -
      have "length nodes - dist x < length nodes - dist d"
        using ch [OF that] by (auto intro: diff_less_mono2)
      then show ?thesis using less.hyps [of x] ch [OF that] False by simp
    qed
    show ?thesis
    proof (cases "c \<in> set (tree d)")
      case True
      then obtain a where a: "a \<in> set (children d)" "c \<in> set (tree a)"
        using tree_unfold [OF less.prems(1)] False by auto
      have "?F x = []" if "x \<in> set (children d)" "x \<noteq> a" for x
        using siblings_disjoint [of x a] ch [OF that(1)] ch [OF a(1)] that a(2) sub [OF that(1)] by auto
      moreover have "distinct (children d)" using dn by (simp add: children_def)
      ultimately show ?thesis using concat_only [of "children d" a ?F] a sub [OF a(1)] fd True by simp
    next
      case out: False
      have "?F x = []" if x: "x \<in> set (children d)" for x
      proof -
        have "c \<notin> set (tree x)" using out x tree_unfold [OF less.prems(1)] by auto
        then show ?thesis using sub [OF x] by simp
      qed
      then have "concat (map ?F (children d)) = []" by (rule concat_none)
      then show ?thesis using fd out by simp
    qed
  qed
qed

lemma filter_children:
  assumes "distinct nodes" and "c \<in> set nodes"
  shows "filter (\<lambda>x. parent x = Some c) arrange_forest = children c"
proof -
  let ?F = "\<lambda>d. filter (\<lambda>x. parent x = Some c) (tree d)"
  have ft: "?F r = (if c \<in> set (tree r) then children c else [])" if "r \<in> set roots" for r
    using filter_tree [OF assms root_dist [OF that]] that by (simp add: roots_def)
  from in_some_tree [OF assms(2)] obtain a where a: "a \<in> set roots" "c \<in> set (tree a)" by blast
  have "?F r = []" if "r \<in> set roots" "r \<noteq> a" for r
    using roots_disjoint [OF that(1) a(1) that(2)] a(2) ft [OF that(1)] by auto
  moreover have "distinct roots" using assms(1) by (simp add: roots_def)
  ultimately have "concat (map ?F roots) = children c"
    using concat_only [of roots a ?F] a ft [OF a(1)] by simp
  then show ?thesis by (simp add: arrange_forest_def filter_concat comp_def)
qed

lemma filter_roots: "filter (\<lambda>x. parent x = None) arrange_forest = roots"
proof -
  have "filter (\<lambda>x. parent x = None) (tree r) = [r]" if r: "r \<in> set roots" for r
  proof -
    have "parent x \<noteq> None" if x: "x \<in> set (concat (map tree (children r)))" for x
    proof -
      from x obtain d where d: "d \<in> set (children r)" "x \<in> set (tree d)" by auto
      have "up (Suc (dist x - dist d)) x = Some r"
        using tree_up [OF _ d(2)] d(1) up_Suc_right [of "dist x - dist d" x] by (simp add: children_iff)
      then show ?thesis by (cases "parent x") auto
    qed
    then have "filter (\<lambda>x. parent x = None) (concat (map tree (children r))) = []"
      by (simp add: filter_empty_conv)
    then show ?thesis using tree_unfold [OF root_dist [OF r]] r by (simp add: roots_def)
  qed
  then show ?thesis by (simp add: arrange_forest_def filter_concat comp_def cong: map_cong)
qed

end

subsection \<open>The riding relation is a forest\<close>

text \<open>The steps from p to a client at the top of its chain in the stack, if there are few enough.\<close>

fun rides_walk :: "nat \<Rightarrow> nat \<Rightarrow> world \<Rightarrow> nat option" where
  "rides_walk 0 p w = None"
| "rides_walk (Suc i) p w =
     (case transient_for (cl w p) of
        None \<Rightarrow> Some 0
      | Some q \<Rightarrow> if \<not> stack_has q w then Some 0 else map_option Suc (rides_walk i q w))"

definition riding_parent :: "world \<Rightarrow> nat \<Rightarrow> nat option" where
  "riding_parent w c = (if stack_rides c w then transient_for (cl w c) else None)"

definition riding_dist :: "world \<Rightarrow> nat \<Rightarrow> nat" where
  "riding_dist w c = (case rides_walk (length (stack w)) c w of None \<Rightarrow> 0 | Some k \<Rightarrow> k)"

lemma rides_walk_less: "rides_walk n p w = Some k \<Longrightarrow> k < n"
  by (induction n arbitrary: p k) (auto split: option.splits if_splits)

lemma rides_walk_mono: "rides_walk n p w = Some k \<Longrightarrow> rides_walk (Suc n) p w = Some k"
proof (induction n arbitrary: p k)
  case 0
  then show ?case by simp
next
  case (Suc n)
  show ?case
  proof (cases "transient_for (cl w p)")
    case None
    then show ?thesis using Suc.prems by simp
  next
    case (Some q)
    show ?thesis
    proof (cases "stack_has q w")
      case False
      then show ?thesis using Some Suc.prems by simp
    next
      case True
      then obtain k' where k': "rides_walk n q w = Some k'" "k = Suc k'" using Some Suc.prems by auto
      have "rides_walk (Suc n) q w = Some k'" by (rule Suc.IH [OF k'(1)])
      then show ?thesis using Some True k'(2) by (simp only: rides_walk.simps option.simps if_True not_True_eq_False if_False)
    qed
  qed
qed

text \<open>The loop ends at a client that is not a transient of one in the stack.\<close>

lemma rides_loop_walk:
  "stack_rides_loop n c p w \<longleftrightarrow>
     (\<exists>k e. rides_walk n p w = Some k \<and> transient_up k p w = e \<and> e \<noteq> c)"
  by (induction n arbitrary: p) (auto split: option.splits)

lemma walk_end_top:
  "rides_walk n p w = Some k \<Longrightarrow>
     transient_for (cl w (transient_up k p w)) = None \<or>
     (\<exists>q. transient_for (cl w (transient_up k p w)) = Some q \<and> \<not> stack_has q w)"
  by (induction n arbitrary: p k) (auto split: option.splits if_splits, blast)

lemma stack_rides_iff: "stack_rides c w \<longleftrightarrow> (\<exists>k. rides_walk (length (stack w)) c w = Some (Suc k))"
proof
  assume "stack_rides c w"
  then obtain k where k: "rides_walk (length (stack w)) c w = Some k" "transient_up k c w \<noteq> c"
    by (auto simp: stack_rides_def rides_loop_walk)
  then show "\<exists>k. rides_walk (length (stack w)) c w = Some (Suc k)" by (cases k) auto
next
  assume "\<exists>k. rides_walk (length (stack w)) c w = Some (Suc k)"
  then obtain k where k: "rides_walk (length (stack w)) c w = Some (Suc k)" by blast
  then obtain n where n: "length (stack w) = Suc n" by (cases "length (stack w)") auto
  have "\<exists>q. transient_for (cl w c) = Some q \<and> stack_has q w"
    using k n by (auto split: option.splits if_splits)
  then have "transient_up (Suc k) c w \<noteq> c" using walk_end_top [OF k] by auto
  then show "stack_rides c w" using k unfolding stack_rides_def rides_loop_walk by blast
qed

interpretation stack_forest: forest "stack w" "riding_parent w" "riding_dist w" for w
proof
  fix x p
  assume "riding_parent w x = Some p"
  then have r: "stack_rides x w" and t: "transient_for (cl w x) = Some p"
    by (auto simp: riding_parent_def split: if_splits)
  from r obtain k where k: "rides_walk (length (stack w)) x w = Some (Suc k)"
    by (auto simp: stack_rides_iff)
  then obtain n where n: "length (stack w) = Suc n" by (cases "length (stack w)") auto
  have p: "stack_has p w" and walk: "rides_walk n p w = Some k"
    using k n t by (auto split: if_splits)
  show "p \<in> set (stack w)" using p by (simp add: stack_has_def)
  have "rides_walk (length (stack w)) p w = Some k" using rides_walk_mono [OF walk] n by simp
  then show "riding_dist w x = Suc (riding_dist w p)" using k by (simp add: riding_dist_def)
next
  fix x
  assume "x \<in> set (stack w)"
  then show "riding_dist w x < length (stack w)"
    using rides_walk_less [of "length (stack w)" x w]
    by (cases "rides_walk (length (stack w)) x w") (auto simp: riding_dist_def)
qed

lemma rides_parent: "stack_rides c w \<longleftrightarrow> riding_parent w c \<noteq> None"
proof -
  have "transient_for (cl w c) \<noteq> None" if "stack_rides c w"
    using that by (cases "length (stack w)") (auto simp: stack_rides_iff split: option.splits)
  then show ?thesis by (auto simp: riding_parent_def)
qed

lemma fold_opt_filter:
  "fold_opt (\<lambda>x s. if P x then f x s else Some s) xs s = fold_opt f (filter P xs) s"
proof (induction xs arbitrary: s)
  case Nil
  then show ?case by simp
next
  case (Cons x xs)
  have "fold_opt (\<lambda>x s. if P x then f x s else Some s) xs = fold_opt f (filter P xs)"
    using Cons.IH by (rule ext)
  then show ?case by simp
qed

lemma fold_opt_map: "fold_opt f (map g xs) s = fold_opt (\<lambda>x. f (g x)) xs s"
proof (induction xs arbitrary: s)
  case Nil
  then show ?case by simp
next
  case (Cons x xs)
  have "fold_opt f (map g xs) = fold_opt (\<lambda>x. f (g x)) xs" using Cons.IH by (rule ext)
  then show ?case by simp
qed

lemma fold_opt_blocks:
  assumes "\<And>x st. x \<in> set xs \<Longrightarrow> set st \<inter> set (t x) = {} \<Longrightarrow> f x st = Some (st @ t x)"
    and "\<And>x y. x \<in> set xs \<Longrightarrow> y \<in> set xs \<Longrightarrow> x \<noteq> y \<Longrightarrow> set (t x) \<inter> set (t y) = {}"
    and "distinct xs" and "set st \<inter> set (concat (map t xs)) = {}"
  shows "fold_opt f xs st = Some (st @ concat (map t xs))"
  using assms
proof (induction xs arbitrary: st)
  case Nil
  then show ?case by simp
next
  case (Cons x xs)
  have "f x st = Some (st @ t x)" using Cons.prems(1,4) by (simp add: Int_Un_distrib)
  moreover have "fold_opt f xs (st @ t x) = Some ((st @ t x) @ concat (map t xs))"
  proof (rule Cons.IH)
    show "\<And>y st. y \<in> set xs \<Longrightarrow> set st \<inter> set (t y) = {} \<Longrightarrow> f y st = Some (st @ t y)" using Cons.prems(1) by simp
    show "\<And>y z. y \<in> set xs \<Longrightarrow> z \<in> set xs \<Longrightarrow> y \<noteq> z \<Longrightarrow> set (t y) \<inter> set (t z) = {}" using Cons.prems(2) by simp
    show "distinct xs" using Cons.prems(3) by simp
    have "set (t x) \<inter> set (t y) = {}" if "y \<in> set xs" for y
      using Cons.prems(2) [of x y] Cons.prems(3) that by auto
    then show "set (st @ t x) \<inter> set (concat (map t xs)) = {}" using Cons.prems(4) by auto
  qed
  ultimately show ?case by simp
qed

subsection \<open>What a refresh does\<close>

abbreviation "placed_tree w \<equiv> forest.tree (stack w) (riding_parent w) (riding_dist w)"
abbreviation "arranged w \<equiv> forest.arrange_forest (stack w) (riding_parent w) (riding_dist w)"
abbreviation "riding_children w \<equiv> forest.children (stack w) (riding_parent w)"
abbreviation "riding_roots w \<equiv> forest.roots (stack w) (riding_parent w)"

abbreviation (input) old_stack :: "world \<Rightarrow> (nat \<times> bool) list" where
  "old_stack w \<equiv> map (\<lambda>c. (c, stack_rides c w)) (stack w)"

lemma place_children:
  "fold_opt (\<lambda>(o', rides) st. if rides \<and> transient_for (cl w o') = Some c then f o' st else Some st) (old_stack w) st
   = fold_opt f (riding_children w c) st"
proof -
  have "stack_rides x w \<and> transient_for (cl w x) = Some c \<longleftrightarrow> riding_parent w x = Some c" for x
    by (auto simp: riding_parent_def)
  then show ?thesis
    by (simp add: fold_opt_map fold_opt_filter stack_forest.children_def)
qed

lemma stack_place_tree:
  assumes "distinct (stack w)" and "c \<in> set (stack w)" and "set st \<inter> set (placed_tree w c) = {}"
    and "length (stack w) - riding_dist w c < n"
  shows "stack_place n (\<lambda>c. transient_for (cl w c)) (old_stack w) c st = Some (st @ placed_tree w c)"
  using assms(2-)
proof (induction n arbitrary: c st)
  case 0
  then show ?case by simp
next
  case (Suc n)
  note unf = stack_forest.tree_unfold [OF Suc.prems(1)]
  have ch: "x \<in> set (stack w) \<and> riding_dist w x = Suc (riding_dist w c)"
    if "x \<in> set (riding_children w c)" for x
    using that stack_forest.parent_dist by (auto simp: stack_forest.children_iff)
  let ?place = "stack_place n (\<lambda>c. transient_for (cl w c)) (old_stack w)"
  have blocks: "fold_opt ?place (riding_children w c) (st @ [c]) =
      Some ((st @ [c]) @ concat (map (placed_tree w) (riding_children w c)))"
  proof (rule fold_opt_blocks)
    fix x st'
    assume x: "x \<in> set (riding_children w c)" and "set st' \<inter> set (placed_tree w x) = {}"
    moreover have "length (stack w) - riding_dist w x < n"
      using ch [OF x] Suc.prems(3) stack_forest.dist_bound [of x w] by linarith
    ultimately show "?place x st' = Some (st' @ placed_tree w x)"
      using Suc.IH [of x st'] ch [OF x] by blast
  next
    fix x y
    assume "x \<in> set (riding_children w c)" "y \<in> set (riding_children w c)" "x \<noteq> y"
    then show "set (placed_tree w x) \<inter> set (placed_tree w y) = {}"
      using stack_forest.siblings_disjoint ch by presburger
  next
    show "distinct (riding_children w c)" using assms(1) by (simp add: stack_forest.children_def)
  next
    have "distinct (placed_tree w c)" by (rule stack_forest.distinct_tree [OF assms(1) Suc.prems(1)])
    then have "c \<notin> set (concat (map (placed_tree w) (riding_children w c)))" using unf by simp
    moreover have "set st \<inter> set (concat (map (placed_tree w) (riding_children w c))) = {}"
      using Suc.prems(2) unf by auto
    ultimately show "set (st @ [c]) \<inter> set (concat (map (placed_tree w) (riding_children w c))) = {}"
      by auto
  qed
  have "c \<notin> set st" using Suc.prems(2) unf by auto
  then have "stack_place (Suc n) (\<lambda>c. transient_for (cl w c)) (old_stack w) c st
      = fold_opt ?place (riding_children w c) (st @ [c])"
    by (simp add: place_children)
  then show ?case unfolding blocks by (simp add: unf)
qed

lemma stack_refresh_arranges:
  assumes "distinct (stack w)" and "need_stack_refresh w"
  shows "stack_refresh env w = Some
    ((call_env env (Native ''ewmh_update_net_client_list_stacking'' [])
       (call_env env (Native ''declare_mark_all_dirty'' []) (w\<lparr>stack := arranged w\<rparr>)))
     \<lparr>need_stack_refresh := False\<rparr>)"
proof -
  let ?place = "stack_place (length (stack w) + 1) (\<lambda>c. transient_for (cl w c)) (old_stack w)"
  have roots: "filter (\<lambda>x. \<not> stack_rides x w) (stack w) = riding_roots w"
    by (simp add: stack_forest.roots_def rides_parent)
  have "fold_opt (\<lambda>(c, rides) st. if \<not> rides then ?place c st else Some st) (old_stack w) []
      = fold_opt ?place (riding_roots w) []"
    by (simp add: fold_opt_map fold_opt_filter roots [symmetric] del: stack_place.simps)
  also have "\<dots> = Some ([] @ concat (map (placed_tree w) (riding_roots w)))"
  proof (rule fold_opt_blocks)
    fix x st assume "x \<in> set (riding_roots w)" "set st \<inter> set (placed_tree w x) = {}"
    moreover have "length (stack w) - riding_dist w x < length (stack w) + 1" by simp
    ultimately show "?place x st = Some (st @ placed_tree w x)"
      using stack_place_tree [OF assms(1) stack_forest.root_dist] by blast
  qed (use assms(1) stack_forest.roots_disjoint in \<open>simp_all add: stack_forest.roots_def\<close>)
  finally show ?thesis
    using assms(2) by (simp add: stack_refresh_def Let_def stack_forest.arrange_forest_def
        del: stack_place.simps)
qed

lemma rides_same_stack:
  assumes "set (stack v) = set (stack w)" and "length (stack v) = length (stack w)"
    and "\<And>c. transient_for (cl v c) = transient_for (cl w c)"
  shows "riding_parent v = riding_parent w"
proof -
  have "rides_walk n p v = rides_walk n p w" for n p
    using assms(1,3) by (induction n arbitrary: p) (auto simp: stack_has_def split: option.splits)
  then show ?thesis using assms(2,3) by (auto simp: riding_parent_def stack_rides_iff fun_eq_iff)
qed

lemma arranged_again:
  assumes "distinct (stack w)" and "stack v = arranged w"
    and "\<And>c. transient_for (cl v c) = transient_for (cl w c)"
  shows "arranged v = arranged w"
proof -
  have set: "set (stack v) = set (stack w)" using assms(2) stack_forest.set_arrange by simp
  have len: "length (stack v) = length (stack w)"
    using assms(2) stack_forest.arrange_mset [OF assms(1)] by (metis size_mset)
  have par: "riding_parent v = riding_parent w" by (rule rides_same_stack [OF set len assms(3)])
  have walk: "rides_walk n p v = rides_walk n p w" for n p
    using set assms(3) by (induction n arbitrary: p) (auto simp: stack_has_def split: option.splits)
  have dist: "riding_dist v = riding_dist w" by (simp add: riding_dist_def fun_eq_iff walk len)
  have ch: "riding_children v c = riding_children w c" if "c \<in> set (stack w)" for c
  proof -
    have "riding_children v c = filter (\<lambda>x. riding_parent w x = Some c) (stack v)"
      by (simp add: stack_forest.children_def par [symmetric])
    also have "\<dots> = riding_children w c"
      using stack_forest.filter_children [OF assms(1) that] assms(2) by simp
    finally show ?thesis .
  qed
  have roots: "riding_roots v = riding_roots w"
  proof -
    have "riding_roots v = filter (\<lambda>x. riding_parent w x = None) (stack v)"
      by (simp add: stack_forest.roots_def par [symmetric])
    also have "\<dots> = riding_roots w" using stack_forest.filter_roots [of w] assms(2) by simp
    finally show ?thesis .
  qed
  have "placed_tree v c = placed_tree w c" if "c \<in> set (stack w)" for c
    using that
  proof (induction c rule: stack_forest.node_induct)
    case (node c)
    have "c \<in> set (stack v)" using node.hyps set by simp
    then show ?case
      using stack_forest.tree_unfold [of c v] stack_forest.tree_unfold [OF node.hyps] ch [OF node.hyps] node.IH
      by (simp cong: map_cong)
  qed
  then have "map (placed_tree v) (riding_roots w) = map (placed_tree w) (riding_roots w)"
    using stack_forest.root_dist [of _ w] by simp
  then show ?thesis by (simp only: stack_forest.arrange_forest_def roots)
qed

definition descends :: "world \<Rightarrow> nat \<Rightarrow> nat \<Rightarrow> bool" where
  "descends w y p \<longleftrightarrow> (y, p) \<in> {(a, b). transient_for (cl w a) = Some b}\<^sup>+"

lemma forest_up_descends: "forest.up (riding_parent w) (Suc d) y = Some p \<Longrightarrow> descends w y p"
proof (induction d arbitrary: y)
  case 0
  then have "riding_parent w y = Some p"
    by (simp add: stack_forest.up.simps split: bind_splits)
  then have "transient_for (cl w y) = Some p" by (simp add: riding_parent_def split: if_splits)
  then show ?case unfolding descends_def by (intro r_into_trancl) simp
next
  case (Suc d)
  then obtain z where z: "riding_parent w y = Some z" "forest.up (riding_parent w) (Suc d) z = Some p"
    by (auto simp: stack_forest.up.simps split: bind_splits)
  have "transient_for (cl w y) = Some z" using z(1) by (auto simp: riding_parent_def split: if_splits)
  then show ?case using Suc.IH [OF z(2)] unfolding descends_def by (simp add: trancl_into_trancl2)
qed

text \<open>
  C1: A stack refresh that is due returns for every stack without duplicates, cyclic transient
  relations included, and permutes the stack: no client is lost, none appears twice. Every
  transient that rides its parent ends up above it with only descendants of the parent in
  between, and refreshing the result again changes nothing. The environment's calls come after
  the reordering and are assumed to leave the stack alone.
\<close>

theorem stack_refresh_correct:
  assumes "distinct (stack w)" and "need_stack_refresh w" and "keeps env stack"
  shows "\<exists>w'. stack_refresh env w = Some w' \<and> mset (stack w') = mset (stack w) \<and>
    \<not> need_stack_refresh w' \<and>
    (\<forall>c p. c \<in> set (stack w) \<longrightarrow> stack_rides c w \<longrightarrow> transient_for (cl w c) = Some p \<longrightarrow>
      (\<exists>A M B. stack w' = A @ p # M @ c # B \<and> (\<forall>y \<in> set M. descends w y p))) \<and>
    (\<exists>w''. stack_refresh env (w\<lparr>stack := stack w'\<rparr>) = Some w'' \<and> stack w'' = stack w')"
proof -
  obtain w' where w': "stack_refresh env w = Some w'" "stack w' = arranged w" "\<not> need_stack_refresh w'"
    using stack_refresh_arranges [OF assms(1,2)] call_env_keeps [OF assms(3)] by fastforce
  let ?v = "w\<lparr>stack := stack w'\<rparr>"
  have ms: "mset (stack w') = mset (stack w)" using w'(2) stack_forest.arrange_mset [OF assms(1)] by simp
  have above: "\<exists>A M B. stack w' = A @ p # M @ c # B \<and> (\<forall>y \<in> set M. descends w y p)"
    if "c \<in> set (stack w)" "stack_rides c w" "transient_for (cl w c) = Some p" for c p
  proof -
    have "riding_parent w c = Some p" using that by (simp add: riding_parent_def)
    from stack_forest.right_above_parent [OF that(1) this] show ?thesis
      unfolding w'(2) using forest_up_descends by blast
  qed
  have dv: "distinct (stack ?v)" using assms(1) mset_eq_imp_distinct_iff [OF ms] by simp
  have again: "arranged ?v = arranged w" using w'(2) by (intro arranged_again [OF assms(1)]) simp_all
  have "\<exists>w''. stack_refresh env ?v = Some w'' \<and> stack w'' = arranged ?v"
    using stack_refresh_arranges [OF dv] assms(2) call_env_keeps [OF assms(3)] by fastforce
  then show ?thesis using w' ms above again by auto
qed

text \<open>A dialog below its parent, with an unrelated client between: the dialog goes right above.\<close>

definition stack_demo :: world where
  "stack_demo = world0\<lparr>cl := (\<lambda>c. if c = 1 then client0\<lparr>transient_for := Some 3\<rparr> else client0),
     stack := [1, 2, 3, 4], need_stack_refresh := True\<rparr>"

theorem stack_refresh_correct_witness:
  "\<exists>w'. stack_refresh idle stack_demo = Some w' \<and> mset (stack w') = mset [1, 2, 3, 4]"
  using stack_refresh_correct [of stack_demo idle] by (auto simp: stack_demo_def world0_def)

subsection \<open>Transient chains\<close>

definition transient_rel :: "world \<Rightarrow> (nat \<times> nat) set" where
  "transient_rel w = {(c, p). transient_for (cl w c) = Some p}"

lemma transient_count_up:
  "transient_count n c w = Some k \<Longrightarrow> transient_for (cl w (transient_up k c w)) = None \<and>
     (\<forall>i<k. transient_for (cl w (transient_up i c w)) = Some (transient_up (Suc i) c w))"
proof (induction n arbitrary: c k)
  case (Suc n)
  show ?case
  proof (cases "transient_for (cl w c)")
    case (Some p)
    with Suc.prems obtain k' where k': "transient_count n p w = Some k'" "k = Suc k'" by auto
    have "transient_for (cl w (transient_up i c w)) = Some (transient_up (Suc i) c w)" if "i < k" for i
      using Suc.IH [OF k'(1)] that k'(2) Some by (cases i) auto
    then show ?thesis using Suc.IH [OF k'(1)] k'(2) Some by simp
  qed (use Suc.prems in auto)
qed simp

text \<open>With no cycle and all parents in a finite set, a round per client and one more is enough.\<close>

lemma transient_count_returns:
  assumes "acyclic (transient_rel w)" and "finite S"
    and "\<And>a p. transient_for (cl w a) = Some p \<Longrightarrow> p \<in> S" and "card S < n"
  shows "\<exists>k. transient_count n c w = Some k \<and> k \<le> card S"
proof -
  have "\<exists>k. transient_count n c w = Some k \<and> k \<le> card T"
    if "finite T" "\<And>p. (c, p) \<in> (transient_rel w)\<^sup>+ \<Longrightarrow> p \<in> T" "card T < n" for n T c
    using that
  proof (induction n arbitrary: c T)
    case (Suc n)
    show ?case
    proof (cases "transient_for (cl w c)")
      case (Some p)
      then have cp: "(c, p) \<in> transient_rel w" by (simp add: transient_rel_def)
      then have pT: "p \<in> T" by (intro Suc.prems(2) r_into_trancl)
      have card: "Suc (card (T - {p})) = card T" using card.remove [OF Suc.prems(1) pT] by simp
      have "q \<in> T - {p}" if "(p, q) \<in> (transient_rel w)\<^sup>+" for q
        using Suc.prems(2) [of q] that cp assms(1) by (auto simp: acyclic_def intro: trancl_into_trancl2)
      with Suc.IH [of "T - {p}" p] Suc.prems(1,3) card obtain k where
        "transient_count n p w = Some k" "k \<le> card (T - {p})" by auto
      then show ?thesis using Some card by auto
    qed simp
  qed simp
  moreover have "p \<in> S" if "(a, p) \<in> (transient_rel w)\<^sup>+" for a p
    using that assms(3) by (auto simp: transient_rel_def elim: trancl.cases)
  ultimately show ?thesis using assms(2,4) by blast
qed

lemma transient_up_rel:
  "transient_count n c w = Some k \<Longrightarrow> i < j \<Longrightarrow> j \<le> k \<Longrightarrow>
   (transient_up i c w, transient_up j c w) \<in> (transient_rel w)\<^sup>+"
proof (induction j)
  case (Suc j)
  have "(transient_up j c w, transient_up (Suc j) c w) \<in> transient_rel w"
    using transient_count_up [OF Suc.prems(1)] Suc.prems(3) by (auto simp: transient_rel_def)
  then show ?case using Suc by (cases "i = j") (auto intro: trancl_into_trancl)
qed simp

definition transient_chain :: "nat \<Rightarrow> nat \<Rightarrow> world \<Rightarrow> nat list" where
  "transient_chain k c w = map (\<lambda>i. transient_up i c w) [0..<Suc k]"

lemma distinct_chain:
  assumes "acyclic (transient_rel w)" and "transient_count n c w = Some k"
  shows "distinct (transient_chain k c w)"
proof -
  have "transient_up i c w \<noteq> transient_up j c w" if "i < j" "j \<le> k" for i j
    using transient_up_rel [OF assms(2) that] assms(1) by (auto simp: acyclic_def)
  then have "inj_on (\<lambda>i. transient_up i c w) (set [0..<Suc k])"
    by (intro linorder_inj_onI) auto
  then show ?thesis unfolding transient_chain_def distinct_map by simp
qed

subsection \<open>Raising and lowering keep the chains together\<close>

lemma stack_append_sel:
  assumes "distinct (stack w)"
  shows "stack (stack_client_append c w) = removeAll c (stack w) @ [c]"
    and "stack (stack_client_push c w) = c # removeAll c (stack w)"
  using assms
  by (auto simp: stack_client_append_def stack_client_push_def stack_client_remove_def stack_windows_def
      index_of_None remove_at_index distinct_remove1_removeAll split: option.splits)

lemma stack_append_keeps [simp]:
  "cl (stack_client_append c w) = cl w" "cl (stack_client_push c w) = cl w"
  "need_stack_refresh (stack_client_append c w)" "need_stack_refresh (stack_client_push c w)"
  by (auto simp: stack_client_append_def stack_client_push_def stack_client_remove_def stack_windows_def
      Let_def split: option.splits)

lemma transient_up_cong: "cl v = cl w \<Longrightarrow> transient_up i c v = transient_up i c w"
  by (induction i arbitrary: c) (auto split: option.splits)

lemma transient_count_cong: "cl v = cl w \<Longrightarrow> transient_count n c v = transient_count n c w"
  by (induction n arbitrary: c) (auto split: option.splits)

lemma append_all:
  assumes "distinct (stack w)" and "distinct ys"
  shows "stack (fold stack_client_append ys w) = filter (\<lambda>x. x \<notin> set ys) (stack w) @ ys \<and>
    cl (fold stack_client_append ys w) = cl w"
  using assms(2)
proof (induction ys rule: rev_induct)
  case (snoc y ys)
  let ?w = "fold stack_client_append ys w"
  have w: "stack ?w = filter (\<lambda>x. x \<notin> set ys) (stack w) @ ys" "cl ?w = cl w" using snoc by auto
  have "distinct (stack ?w)" using assms(1) snoc.prems w by auto
  moreover have "removeAll y ys = ys" using snoc.prems by (simp add: removeAll_id)
  moreover have "removeAll y (filter (\<lambda>x. x \<notin> set ys) (stack w)) = filter (\<lambda>x. x \<notin> set (ys @ [y])) (stack w)"
    unfolding removeAll_filter_not_eq filter_filter by (rule filter_cong) auto
  ultimately show ?case using w by (simp add: stack_append_sel)
qed simp

lemma fold_append_up:
  "fold (\<lambda>i v. stack_client_append (transient_up i c v) v) is w
   = fold stack_client_append (map (\<lambda>i. transient_up i c w) is) w"
proof (induction "is" arbitrary: w)
  case (Cons i "is")
  then show ?case using transient_up_cong [of "stack_client_append (transient_up i c w) w" w] by simp
qed simp

definition raised_chain :: "nat \<Rightarrow> nat list \<Rightarrow> world \<Rightarrow> bool" where
  "raised_chain c ch w \<longleftrightarrow> ch \<noteq> [] \<and> hd ch = c \<and> transient_for (cl w (last ch)) = None \<and>
     (\<forall>i. Suc i < length ch \<longrightarrow> transient_for (cl w (ch ! i)) = Some (ch ! Suc i))"

lemma chain_raised:
  assumes "transient_count n c w = Some k"
  shows "raised_chain c (transient_chain k c w) w"
proof -
  have "last (transient_chain k c w) = transient_up k c w"
    by (simp add: transient_chain_def)
  moreover have "hd (transient_chain k c w) = c"     by (simp add: transient_chain_def upt_conv_Cons del: upt_Suc)
  ultimately show ?thesis using transient_count_up [OF assms]
    by (simp add: raised_chain_def transient_chain_def nth_append del: upt_Suc)
qed

lemma lower_parents_more: "lower_parents n tc w = Some v \<Longrightarrow> lower_parents (Suc n) tc w = Some v"
proof (induction n arbitrary: tc w)
  case (Suc n)
  show ?case
  proof (cases tc)
    case (Some p)
    have "lower_parents (Suc n) (transient_for (cl (stack_client_push p w) p)) (stack_client_push p w) = Some v"
      by (rule Suc.IH) (use Suc.prems Some in \<open>simp add: Let_def\<close>)
    then show ?thesis using Some by (simp add: Let_def lower_parents.simps(2) [of "Suc n"] del: lower_parents.simps)
  qed (use Suc.prems in simp)
qed simp

lemma lower_parents_stack:
  "distinct (stack w) \<Longrightarrow> transient_count n p w = Some k \<Longrightarrow> distinct (transient_chain k p w) \<Longrightarrow>
   \<exists>w'. lower_parents (Suc n) (Some p) w = Some w' \<and> cl w' = cl w \<and>
     stack w' = rev (transient_chain k p w) @ filter (\<lambda>x. x \<notin> set (transient_chain k p w)) (stack w)"
proof (induction n arbitrary: p k w)
  case (Suc n)
  let ?w = "stack_client_push p w"
  have sw: "stack ?w = p # removeAll p (stack w)" "cl ?w = cl w"
    using stack_append_sel [OF Suc.prems(1)] by simp_all
  have d: "distinct (stack ?w)" using Suc.prems(1) sw by (simp add: distinct_removeAll)
  show ?case
  proof (cases "transient_for (cl w p)")
    case None
    then have "k = 0" using Suc.prems(2) by simp
    moreover have "removeAll p (stack w) = filter (\<lambda>x. x \<noteq> p) (stack w)"
      unfolding removeAll_filter_not_eq by (rule filter_cong) auto
    ultimately show ?thesis using None sw by (simp add: transient_chain_def)
  next
    case (Some q)
    with Suc.prems(2) obtain k' where k': "transient_count n q w = Some k'" "k = Suc k'" by auto
    have ch: "transient_chain k p w = p # transient_chain k' q w"
    proof -
      have "[0..<Suc k] = 0 # map Suc [0..<Suc k']"
        unfolding k'(2) map_Suc_upt by (rule upt_conv_Cons) simp
      then show ?thesis using Some by (simp add: transient_chain_def o_def del: upt_Suc)
    qed
    have same: "transient_chain k' q ?w = transient_chain k' q w"
      by (simp add: transient_chain_def transient_up_cong [of ?w w])
    have "transient_count n q ?w = Some k'"
      using k'(1) transient_count_cong [of ?w w] by simp
    from Suc.IH [OF d this] Suc.prems(3) ch same obtain w' where
      w': "lower_parents (Suc n) (Some q) ?w = Some w'" "cl w' = cl w"
      "stack w' = rev (transient_chain k' q w) @ filter (\<lambda>x. x \<notin> set (transient_chain k' q w)) (stack ?w)"
      by auto
    have p: "p \<notin> set (transient_chain k' q w)" using Suc.prems(3) ch by simp
    have "filter (\<lambda>x. x \<notin> set (transient_chain k' q w)) (stack ?w) =
        p # filter (\<lambda>x. x \<notin> set (transient_chain k p w)) (stack w)"
      using p unfolding sw(1) ch removeAll_filter_not_eq by (auto intro!: filter_cong)
    then show ?thesis using w' Some ch by (simp del: lower_parents.simps add: lower_parents.simps(2) [of "Suc n"])
  qed
qed simp

text \<open>
  Raising a client of a world whose transient relation has no cycle returns, and puts the
  client and all its transient ancestors on the top of the stack, the client above its parent
  and so on, everything else in the old order below; nothing is lost and a refresh is due.
\<close>

theorem client_raise_chain:
  assumes "acyclic (transient_rel w)" and "distinct (stack w)" and "keeps env stack"
    and "\<And>a p. transient_for (cl w a) = Some p \<Longrightarrow> p \<in> set (clients w)"
    and "length (clients w) < fuel"
  shows "\<exists>w' ch. client_raise fuel env c w = Some w' \<and> raised_chain c ch w \<and> distinct ch \<and>
    stack w' = filter (\<lambda>x. x \<notin> set ch) (stack w) @ rev ch \<and> distinct (stack w')"
proof -
  have "card (set (clients w)) < fuel" using assms(5) card_length [of "clients w"] by linarith
  then obtain k where k: "transient_count fuel c w = Some k"
    using transient_count_returns [OF assms(1) finite_set [of "clients w"]] assms(4) by metis
  let ?up = "map (\<lambda>i. transient_up i c w) (rev [1..<k + 1])"
  let ?ch = "transient_chain k c w"
  have d: "distinct ?ch" by (rule distinct_chain [OF assms(1) k])
  have ch: "rev ?ch = ?up @ [c]"
    by (simp add: transient_chain_def upt_conv_Cons [of 0] rev_map del: upt_Suc)
  have "fold (\<lambda>i w. stack_client_append (transient_up i c w) w) (rev [1..<k + 1]) w = fold stack_client_append ?up w"
    by (rule fold_append_up)
  then have "client_raise fuel env c w = Some (emit env c ''raised'' [] (fold stack_client_append (?up @ [c]) w))"
    using k by (simp add: client_raise_def)
  moreover have "stack (fold stack_client_append (rev ?ch) w) = filter (\<lambda>x. x \<notin> set ?ch) (stack w) @ rev ?ch"
    using append_all [OF assms(2), of "rev ?ch"] d by simp
  ultimately show ?thesis
    using chain_raised [OF k] d assms(2) call_env_keeps [OF assms(3)] ch by fastforce
qed

definition raise_demo :: world where
  "raise_demo = world0\<lparr>cl := (\<lambda>c. if c = 2 then client0\<lparr>transient_for := Some 1\<rparr> else client0),
     clients := [1, 2, 3], stack := [1, 2, 3]\<rparr>"

lemma raise_demo_acyclic: "acyclic (transient_rel raise_demo)"
proof -
  have "transient_rel raise_demo = {(2, 1)}"
    by (auto simp: transient_rel_def raise_demo_def world0_def client0_def split: if_splits)
  then show ?thesis by (simp add: acyclic_insert wf_acyclic)
qed

lemma raise_demo_sel:
  "distinct (stack raise_demo)" "length (clients raise_demo) < 4"
  "length (clients raise_demo) + 1 < 5" "take 1 (stack raise_demo) \<noteq> [2]"
  by (simp_all add: raise_demo_def)

lemma raise_demo_parent: "transient_for (cl raise_demo a) = Some p \<Longrightarrow> p \<in> set (clients raise_demo)"
  by (auto simp: raise_demo_def world0_def client0_def split: if_splits)

theorem client_raise_chain_witness:
  "\<exists>w' ch. client_raise 4 idle 2 raise_demo = Some w' \<and> raised_chain 2 ch raise_demo \<and>
     stack w' = filter (\<lambda>x. x \<notin> set ch) (stack raise_demo) @ rev ch"
  using client_raise_chain [OF raise_demo_acyclic raise_demo_sel(1) idle_keeps, of 4 2]
    raise_demo_parent raise_demo_sel(2) by blast

text \<open>
  Lowering a client of a world whose transient relation has no cycle returns; unless the
  client is the bottom one already, it puts the client and its transient ancestors at the
  bottom of the stack, the last ancestor lowest, and leaves the others in their order.
\<close>

theorem client_lower_chain:
  assumes "acyclic (transient_rel w)" and "distinct (stack w)" and "keeps env stack"
    and "\<And>a p. transient_for (cl w a) = Some p \<Longrightarrow> p \<in> set (clients w)"
    and "length (clients w) + 1 < fuel" and "take 1 (stack w) \<noteq> [c]"
  shows "\<exists>w' ch. luaA_client_lower fuel env c w = Some w' \<and> raised_chain c ch w \<and> distinct ch \<and>
    stack w' = rev ch @ filter (\<lambda>x. x \<notin> set ch) (stack w) \<and> distinct (stack w')"
proof -
  obtain n where n: "fuel = Suc n" "length (clients w) < n" using assms(5) by (cases fuel) auto
  have "card (set (clients w)) < n" using n(2) card_length [of "clients w"] by linarith
  then obtain k where k: "transient_count n c w = Some k"
    using transient_count_returns [OF assms(1) finite_set [of "clients w"]] assms(4) by metis
  let ?ch = "transient_chain k c w"
  have d: "distinct ?ch" by (rule distinct_chain [OF assms(1) k])
  from lower_parents_stack [OF assms(2) k d] obtain v where
    v: "lower_parents (Suc n) (Some c) w = Some v"
      "stack v = rev ?ch @ filter (\<lambda>x. x \<notin> set ?ch) (stack w)" by blast
  have "0 < n" using n(2) by simp
  then have "lower_parents fuel (transient_for (cl w c)) (stack_client_push c w) = Some v"
    using v(1) lower_parents_more [of n _ _ v] n(1) by simp
  moreover have "(stack w \<noteq> [] \<and> hd (stack w) = c) = False" using assms(6) by (cases "stack w") auto
  ultimately have "luaA_client_lower fuel env c w = Some (emit env c ''lowered'' [] v)"
    by (simp only: luaA_client_lower_def Let_def if_False option.map stack_append_keeps)
  then show ?thesis using chain_raised [OF k] d assms(2) v(2) call_env_keeps [OF assms(3)] by fastforce
qed

theorem client_lower_chain_witness:
  "\<exists>w' ch. luaA_client_lower 5 idle 2 raise_demo = Some w' \<and> raised_chain 2 ch raise_demo \<and>
     stack w' = rev ch @ filter (\<lambda>x. x \<notin> set ch) (stack raise_demo)"
  using client_lower_chain [OF raise_demo_acyclic raise_demo_sel(1) idle_keeps, of 5 2]
    raise_demo_parent raise_demo_sel(3,4) by blast

subsection \<open>The effective layer\<close>

lemma effective_layer_of:
  "transient_count n c w = Some k \<Longrightarrow> \<exists>l. stack_client_effective_layer n c w = Some l \<and> l \<noteq> WINDOW_LAYER_IGNORE \<and>
     (\<exists>i\<le>k. (\<forall>j<i. stack_client_layer (Some (transient_up j c w)) w = WINDOW_LAYER_IGNORE) \<and>
        l = stack_client_layer (Some (transient_up i c w)) w)"
proof (induction n arbitrary: c k)
  case (Suc n)
  let ?l = "stack_client_layer (Some c) w"
  show ?case
  proof (cases "?l = WINDOW_LAYER_IGNORE")
    case False
    then have "stack_client_effective_layer (Suc n) c w = Some ?l" by simp
    moreover have "\<exists>i\<le>k. (\<forall>j<i. stack_client_layer (Some (transient_up j c w)) w = WINDOW_LAYER_IGNORE) \<and>
        ?l = stack_client_layer (Some (transient_up i c w)) w"
      by (rule exI [of _ 0]) simp
    ultimately show ?thesis using False by blast
  next
    case True
    then obtain p where p: "transient_for (cl w c) = Some p"
      by (auto simp: stack_client_layer_def Let_def split: if_splits)
    with Suc.prems obtain k' where k': "transient_count n p w = Some k'" "k = Suc k'" by auto
    from Suc.IH [OF k'(1)] obtain l i where l: "stack_client_effective_layer n p w = Some l"
      "l \<noteq> WINDOW_LAYER_IGNORE" "i \<le> k'"
      "\<forall>j<i. stack_client_layer (Some (transient_up j p w)) w = WINDOW_LAYER_IGNORE"
      "l = stack_client_layer (Some (transient_up i p w)) w" by blast
    have "\<forall>j<Suc i. stack_client_layer (Some (transient_up j c w)) w = WINDOW_LAYER_IGNORE"
      using l(4) True p by (auto simp: less_Suc_eq_0_disj)
    then show ?thesis using l True p k'(2) by (intro exI [of _ l]) (auto intro!: exI [of _ "Suc i"])
  qed
qed simp

text \<open>
  On a world whose transient relation has no cycle the effective layer of a client is
  found, with a round per client and one more, and is the layer of the nearest of the client
  and its ancestors that does not inherit one.
\<close>

theorem effective_layer_inherited:
  assumes "acyclic (transient_rel w)"
    and "\<And>a p. transient_for (cl w a) = Some p \<Longrightarrow> p \<in> set (clients w)"
    and "length (clients w) < fuel"
  shows "\<exists>l i. stack_client_effective_layer fuel c w = Some l \<and> l \<noteq> WINDOW_LAYER_IGNORE \<and>
    l = stack_client_layer (Some (transient_up i c w)) w \<and>
    (\<forall>j<i. stack_client_layer (Some (transient_up j c w)) w = WINDOW_LAYER_IGNORE)"
proof -
  have "card (set (clients w)) < fuel" using assms(3) card_length [of "clients w"] by linarith
  then obtain k where "transient_count fuel c w = Some k"
    using transient_count_returns [OF assms(1) finite_set [of "clients w"]] assms(2) by metis
  from effective_layer_of [OF this] show ?thesis by blast
qed

theorem effective_layer_inherited_witness:
  "\<exists>l. stack_client_effective_layer 4 2 raise_demo = Some l \<and> l \<noteq> WINDOW_LAYER_IGNORE"
  using effective_layer_inherited [OF raise_demo_acyclic _ raise_demo_sel(2), of 2]
    raise_demo_parent by blast

subsection \<open>No cycle enters the transient relation\<close>

lemma transient_loop_small:
  assumes "transient_loop n c tmp k w \<le> length (stack w)" and "length (stack w) < n + k"
  shows "(\<forall>t. tmp = Some t \<longrightarrow> t \<noteq> c \<and> (t, c) \<notin> (transient_rel w)\<^sup>+)"
  using assms
proof (induction n arbitrary: tmp k)
  case (Suc n)
  show ?case
  proof (intro allI impI)
    fix t assume t: "tmp = Some t"
    have len: "k \<le> length (stack w)" using Suc.prems(1) t by (auto split: if_splits)
    have ge: "transient_loop m a b j w \<ge> j" for m a b j
      by (induction m a b j w rule: transient_loop.induct)
        (fastforce simp: Let_def split: option.splits)+
    have tc: "t \<noteq> c"
    proof
      assume "t = c"
      then have "transient_loop (Suc n) c tmp k w = transient_loop n c (transient_for (cl w t)) (length (stack w) + 2) w"
        using t len by simp
      then show False using ge [of "length (stack w) + 2" n c "transient_for (cl w t)"] Suc.prems(1) by simp
    qed
    then have "transient_loop n c (transient_for (cl w t)) (k + 1) w \<le> length (stack w)"
      using Suc.prems(1) t len by simp
    from Suc.IH [OF this] Suc.prems(2) have
      ih: "\<And>q. transient_for (cl w t) = Some q \<Longrightarrow> q \<noteq> c \<and> (q, c) \<notin> (transient_rel w)\<^sup>+" by auto
    have "(t, c) \<notin> (transient_rel w)\<^sup>+"
    proof
      assume "(t, c) \<in> (transient_rel w)\<^sup>+"
      then obtain q where "(t, q) \<in> transient_rel w" "q = c \<or> (q, c) \<in> (transient_rel w)\<^sup>+"
        by (metis tranclD rtranclD)
      then show False using ih by (auto simp: transient_rel_def)
    qed
    with tc show "t \<noteq> c \<and> (t, c) \<notin> (transient_rel w)\<^sup>+" by blast
  qed
qed simp

text \<open>
  C31: client_find_transient_for brings no cycle into the transient relation: the parent it sets
  is never the client itself or one of its descendants, whatever window the client names.
\<close>

theorem find_transient_for_acyclic:
  assumes "acyclic (transient_rel w)" and "keeps env cl"
  shows "acyclic (transient_rel (client_find_transient_for env c w))"
proof -
  let ?tc = "client_getbywin (transient_for_window (cl w c)) w"
  define k where "k = transient_loop (length (stack w) + 2) c ?tc 0 w"
  define tc where "tc = (if k > length (stack w) then None else ?tc)"
  have ok: "t \<noteq> c \<and> (t, c) \<notin> (transient_rel w)\<^sup>+" if "tc = Some t" for t
  proof -
    have "k \<le> length (stack w)" "?tc = Some t" using that by (auto simp: tc_def split: if_splits)
    with transient_loop_small [of "length (stack w) + 2" c ?tc 0 w, folded k_def] show ?thesis
      by (simp del: transient_loop.simps)
  qed
  have set: "client_find_transient_for env c w = client_set_transient_for env c tc w"
    by (simp only: client_find_transient_for_def Let_def k_def [symmetric] tc_def)
  have cl': "cl (client_find_transient_for env c w) = (cl w)(c := (cl w c)\<lparr>transient_for := tc\<rparr>)"
    using call_env_keeps [OF assms(2)]
    by (auto simp: set client_set_transient_for_def stack_windows_def)
  let ?old = "{(a, p) \<in> transient_rel w. a \<noteq> c}"
  have old: "acyclic ?old" by (rule acyclic_subset [OF assms(1)]) auto
  show ?thesis
  proof (cases tc)
    case None
    then have "transient_rel (client_find_transient_for env c w) = ?old"
      by (auto simp: transient_rel_def cl' split: if_splits)
    then show ?thesis using old by simp
  next
    case (Some t)
    then have eq: "transient_rel (client_find_transient_for env c w) = insert (c, t) ?old"
      by (auto simp: transient_rel_def cl' split: if_splits)
    have "(t, c) \<notin> ?old\<^sup>*"
    proof
      assume "(t, c) \<in> ?old\<^sup>*"
      moreover have "?old \<subseteq> transient_rel w" by auto
      ultimately have "(t, c) \<in> (transient_rel w)\<^sup>*" by (meson in_mono rtrancl_mono)
      then show False using ok [OF Some] by (metis rtranclD)
    qed
    then show ?thesis using old eq by (simp add: acyclic_insert)
  qed
qed

text \<open>The parent of the demonstration names its own transient as its parent: refused.\<close>

theorem find_transient_for_acyclic_witness:
  "acyclic (transient_rel (client_find_transient_for idle 1 raise_demo))"
  by (rule find_transient_for_acyclic [OF raise_demo_acyclic idle_keeps])

end
