(* ===== verification/ScreenLookup.thy ===== *)
theory ScreenLookup
  imports Visibility
begin

text \<open>
  The screens of src/objects/screen.c: the array of screens, the lookup of a screen by its
  coordinates, by its monitor and from a Lua value, the geometry and workarea updates and the
  class signals. The array screen_refs of registry references is the list of the screens they
  stand for.
\<close>

subsection \<open>The array of screens\<close>

definition SCREEN_CLASS :: nat where "SCREEN_CLASS = 2"

abbreviation (input) SIG_PROPERTY_WORKAREA :: nat where "SIG_PROPERTY_WORKAREA \<equiv> 32"
abbreviation (input) SIG_PROPERTY_VIEWPORTS :: nat where "SIG_PROPERTY_VIEWPORTS \<equiv> 33"
abbreviation (input) SIG_PRIMARY_CHANGED :: nat where "SIG_PRIMARY_CHANGED \<equiv> 34"

definition luaA_screen_refs_reset :: "world \<Rightarrow> world" where
  "luaA_screen_refs_reset w = w\<lparr>screens := [], primary_screen := None, screens_scanned := False\<rparr>"

definition luaA_screen_get_all :: "nat \<Rightarrow> world \<Rightarrow> nat list" where
  "luaA_screen_get_all len w = take len (screens w)"

text \<open>A new screen for a monitor; the address of the fresh object is an argument.\<close>

definition luaA_screen_new :: "nat \<Rightarrow> nat \<Rightarrow> int \<Rightarrow> world \<Rightarrow> world" where
  "luaA_screen_new addr m index w =
     (let geo = m_box (mo w m);
          w = w\<lparr>registry := add_mset addr (registry w)\<rparr>;
          w = upd_screen addr (\<lambda>_. \<lparr>s_monitor = Some m, s_index = index, s_valid = True,
                s_lifecycle = LIFECYCLE_C, s_geometry = geo, s_workarea = geo,
                virtual_output = None\<rparr>) w
      in w\<lparr>screens := screens w @ [addr]\<rparr>)"

text \<open>Rebuilding the screens after a restart; the addresses of the new objects are given.\<close>

definition luaA_screen_hot_reload :: "nat list \<Rightarrow> world \<Rightarrow> world" where
  "luaA_screen_hot_reload addrs w =
     fst (fold (\<lambda>(addr, m) (w, index). (luaA_screen_new addr m index w, index + 1))
       (zip addrs (mons w)) (luaA_screen_refs_reset w, 1))"

definition luaA_screen_push :: "nat option \<Rightarrow> world \<Rightarrow> lval" where
  "luaA_screen_push s w =
     (case s of
        None \<Rightarrow> LNil
      | Some s \<Rightarrow> if s \<in> set (screens w) then LUser s else LNil)"

text \<open>
  luaA_checkscreen of an integer or a value of another type; is_screen tells which userdata are
  screens. The outer None is the error luaA_checkudata raises, the inner one NULL.
\<close>

definition luaA_checkscreen :: "(lval \<Rightarrow> nat option) \<Rightarrow> lval \<Rightarrow> world \<Rightarrow> nat option option" where
  "luaA_checkscreen is_screen v w =
     (case v of
        LInt i \<Rightarrow>
          (if i < 1 \<or> i > int (length (screens w)) then Some None
           else Some (Some (screens w ! nat (i - 1))))
      | _ \<Rightarrow> map_option Some (is_screen v))"

definition luaA_screen_get_by_virtual_output :: "nat option \<Rightarrow> world \<Rightarrow> nat option" where
  "luaA_screen_get_by_virtual_output p w =
     (case p of None \<Rightarrow> None | Some p' \<Rightarrow> find (\<lambda>s. virtual_output (sc w s) = Some p') (screens w))"

definition luaA_screen_get_primary_screen :: "world \<Rightarrow> nat option" where
  "luaA_screen_get_primary_screen w =
     (case primary_screen w of
        Some p \<Rightarrow> (if s_valid (sc w p) then Some p
                   else if screens w \<noteq> [] then Some (hd (screens w)) else None)
      | None \<Rightarrow> if screens w \<noteq> [] then Some (hd (screens w)) else None)"

subsection \<open>Screens by coordinates\<close>

definition in_box :: "int \<Rightarrow> int \<Rightarrow> area \<Rightarrow> bool" where
  "in_box x y g \<longleftrightarrow> ax g \<le> x \<and> x < ax g + aw g \<and> ay g \<le> y \<and> y < ay g + ah g"

definition centre_dist :: "int \<Rightarrow> int \<Rightarrow> area \<Rightarrow> int" where
  "centre_dist x y g =
     (let dx = x - (ax g + c_div (aw g) 2); dy = y - (ay g + c_div (ah g) 2) in dx * dx + dy * dy)"

fun getbycoord_loop ::
  "world \<Rightarrow> int \<Rightarrow> int \<Rightarrow> nat list \<Rightarrow> nat option \<Rightarrow> int \<Rightarrow> nat option" where
  "getbycoord_loop w x y [] nearest nearest_dist = nearest"
| "getbycoord_loop w x y (s # ss) nearest nearest_dist =
     (if \<not> s_valid (sc w s) then getbycoord_loop w x y ss nearest nearest_dist
      else if in_box x y (s_geometry (sc w s)) then Some s
      else
        (let dist = to_u32 (centre_dist x y (s_geometry (sc w s))) in
         if dist < nearest_dist then getbycoord_loop w x y ss (Some s) dist
         else getbycoord_loop w x y ss nearest nearest_dist))"

definition luaA_screen_getbycoord :: "int \<Rightarrow> int \<Rightarrow> world \<Rightarrow> nat option" where
  "luaA_screen_getbycoord x y w = getbycoord_loop w x y (screens w) None (2 ^ 32 - 1)"

definition screen_getbycoord :: "int \<Rightarrow> int \<Rightarrow> world \<Rightarrow> nat option" where
  "screen_getbycoord x y w = luaA_screen_getbycoord x y w"

definition screen_area_in_screen :: "nat \<Rightarrow> area \<Rightarrow> world \<Rightarrow> bool" where
  "screen_area_in_screen s geom w \<longleftrightarrow>
     (let sg = s_geometry (sc w s) in
      ax geom < ax sg + aw sg \<and> ax geom + aw geom > ax sg \<and>
      ay geom < ay sg + ah sg \<and> ay geom + ah geom > ay sg)"

definition luaA_monitor_get_by_screen :: "nat option \<Rightarrow> world \<Rightarrow> nat option" where
  "luaA_monitor_get_by_screen screen w =
     (case screen of
        None \<Rightarrow> None
      | Some s \<Rightarrow>
          (case find (\<lambda>m. luaA_screen_get_by_monitor (Some m) w = Some s) (mons w) of
             Some m \<Rightarrow> Some m
           | None \<Rightarrow>
               find (\<lambda>m. let g = s_geometry (sc w s); b = m_box (mo w m) in
                       ax g < ax b + aw b \<and> ax g + aw g > ax b \<and>
                       ay g < ay b + ah b \<and> ay g + ah g > ay b) (mons w)))"

subsection \<open>Signals and updates\<close>

definition screen_added :: "env \<Rightarrow> nat \<Rightarrow> world \<Rightarrow> world" where
  "screen_added env s w =
     emit env s ''_added'' []
       (upd_screen s (\<lambda>x. x\<lparr>s_workarea := s_geometry x, s_valid := True\<rparr>) w)"

definition screen_emit_scanning :: "env \<Rightarrow> world \<Rightarrow> world" where
  "screen_emit_scanning env w = call_env env (EmitClass ''screen'' ''scanning'' []) w"

definition screen_emit_scanned :: "env \<Rightarrow> world \<Rightarrow> world" where
  "screen_emit_scanned env w =
     call_env env (EmitClass ''screen'' ''scanned'' []) (w\<lparr>screens_scanned := True\<rparr>)"

definition luaA_screen_scanned_done :: "world \<Rightarrow> bool" where
  "luaA_screen_scanned_done w = screens_scanned w"

definition luaA_screen_emit_list :: "world \<Rightarrow> world" where
  "luaA_screen_emit_list w = enqueue (QClass SCREEN_CLASS SIG_LIST) w"

definition luaA_screen_emit_viewports :: "lval \<Rightarrow> world \<Rightarrow> world" where
  "luaA_screen_emit_viewports viewports w =
     enqueue (QClassArgs SCREEN_CLASS SIG_PROPERTY_VIEWPORTS [viewports]) w"

definition luaA_screen_emit_primary_changed :: "nat option \<Rightarrow> world \<Rightarrow> world" where
  "luaA_screen_emit_primary_changed s w =
     (case s of
        None \<Rightarrow> w
      | Some s' \<Rightarrow>
          if \<not> s_valid (sc w s') then w
          else enqueue (QSignal0 (luaA_screen_push s w) SIG_PRIMARY_CHANGED) w)"

definition luaA_screen_emit_all_added :: "nat \<Rightarrow> env \<Rightarrow> world \<Rightarrow> world option" where
  "luaA_screen_emit_all_added fuel env w =
     foreach fuel 0 screens (\<lambda>s w. if s_valid (sc w s) then screen_added env s w else w) w"

text \<open>wlr_box_equal of wlroots is a parameter.\<close>

definition luaA_screen_update_geometry :: "(area \<Rightarrow> area \<Rightarrow> bool) \<Rightarrow> nat \<Rightarrow> world \<Rightarrow> world" where
  "luaA_screen_update_geometry wlr_box_equal s w =
     (if \<not> s_valid (sc w s) then w
      else
        (case s_monitor (sc w s) of
           None \<Rightarrow> w
         | Some m \<Rightarrow>
             (let old_geom = s_geometry (sc w s); new_geom = m_box (mo w m) in
              if \<not> wlr_box_equal old_geom new_geom then
                (let w = upd_screen s (\<lambda>x. x\<lparr>s_geometry := new_geom\<rparr>) w
                 in enqueue (QSignal (luaA_screen_push (Some s) w) SIG_PROPERTY_GEOMETRY
                      [LArea old_geom]) w)
              else w)))"

definition screen_set_workarea ::
  "(area \<Rightarrow> area \<Rightarrow> bool) \<Rightarrow> nat \<Rightarrow> area option \<Rightarrow> world \<Rightarrow> world" where
  "screen_set_workarea wlr_box_equal s workarea w =
     (if \<not> s_valid (sc w s) then w
      else
        (let new_workarea = (case workarea of Some a \<Rightarrow> a | None \<Rightarrow> s_geometry (sc w s));
             old_workarea = s_workarea (sc w s) in
         if \<not> wlr_box_equal old_workarea new_workarea then
           (let w = upd_screen s (\<lambda>x. x\<lparr>s_workarea := new_workarea\<rparr>) w;
                w = (case s_monitor (sc w s) of
                       Some m \<Rightarrow> w\<lparr>mo := (mo w)(m := (mo w m)\<lparr>m_workarea := new_workarea\<rparr>)\<rparr>
                     | None \<Rightarrow> w)
            in enqueue (QSignal (luaA_screen_push (Some s) w) SIG_PROPERTY_WORKAREA
                 [LArea old_workarea]) w)
         else w))"

subsection \<open>The screen at a point\<close>

definition near :: "int \<Rightarrow> int \<Rightarrow> area \<Rightarrow> bool" where
  "near x y g \<longleftrightarrow> \<bar>x - (ax g + c_div (aw g) 2)\<bar> \<le> 32767 \<and> \<bar>y - (ay g + c_div (ah g) 2)\<bar> \<le> 32767"

lemma near_dist:
  assumes "near x y g"
  shows "to_u32 (centre_dist x y g) = centre_dist x y g" and "centre_dist x y g < 2 ^ 32 - 1"
proof -
  have sq: "0 \<le> a * a \<and> a * a \<le> 32767 * 32767" if "\<bar>a\<bar> \<le> 32767" for a :: int
    using that abs_le_square_iff [of a 32767] by (simp add: power2_eq_square)
  have "0 \<le> centre_dist x y g \<and> centre_dist x y g \<le> 2 * (32767 * 32767)"
    using sq [of "x - (ax g + c_div (aw g) 2)"] sq [of "y - (ay g + c_div (ah g) 2)"] assms
    by (simp add: centre_dist_def Let_def near_def)
  then show "to_u32 (centre_dist x y g) = centre_dist x y g" and "centre_dist x y g < 2 ^ 32 - 1"
    by (auto simp: to_u32_def)
qed

definition dist_of :: "world \<Rightarrow> int \<Rightarrow> int \<Rightarrow> nat \<Rightarrow> int" where
  "dist_of w x y s = centre_dist x y (s_geometry (sc w s))"

lemma getbycoord_hit:
  "find (\<lambda>s. s_valid (sc w s) \<and> in_box x y (s_geometry (sc w s))) ss = Some s \<Longrightarrow>
   getbycoord_loop w x y ss n d = Some s"
  by (induction ss arbitrary: n d) (auto simp: Let_def split: if_splits)

definition picks :: "world \<Rightarrow> int \<Rightarrow> int \<Rightarrow> nat list \<Rightarrow> nat \<Rightarrow> bool" where
  "picks w x y ss s \<longleftrightarrow> (\<exists>A B. ss = A @ s # B \<and> s_valid (sc w s) \<and>
     (\<forall>a \<in> set A. s_valid (sc w a) \<longrightarrow> dist_of w x y s < dist_of w x y a) \<and>
     (\<forall>b \<in> set B. s_valid (sc w b) \<longrightarrow> dist_of w x y s \<le> dist_of w x y b))"

lemma picks_Cons:
  "picks w x y ss s \<Longrightarrow> (s_valid (sc w s') \<Longrightarrow> dist_of w x y s < dist_of w x y s') \<Longrightarrow> picks w x y (s' # ss) s"
  unfolding picks_def by (metis append_Cons set_ConsD)

lemma picks_hd:
  "s_valid (sc w s) \<Longrightarrow> (\<forall>b \<in> set ss. s_valid (sc w b) \<longrightarrow> dist_of w x y s \<le> dist_of w x y b) \<Longrightarrow> picks w x y (s # ss) s"
  unfolding picks_def by (intro exI [of _ "[]"] exI [of _ ss]) simp

lemma getbycoord_near:
  assumes "\<forall>s \<in> set ss. s_valid (sc w s) \<longrightarrow> \<not> in_box x y (s_geometry (sc w s)) \<and> near x y (s_geometry (sc w s))"
  shows "(getbycoord_loop w x y ss n d = n \<and> (\<forall>s \<in> set ss. s_valid (sc w s) \<longrightarrow> d \<le> dist_of w x y s)) \<or>
    (\<exists>s. getbycoord_loop w x y ss n d = Some s \<and> dist_of w x y s < d \<and> picks w x y ss s)"
  using assms
proof (induction ss arbitrary: n d)
  case (Cons s ss)
  then have rest: "\<forall>s \<in> set ss. s_valid (sc w s) \<longrightarrow>
      \<not> in_box x y (s_geometry (sc w s)) \<and> near x y (s_geometry (sc w s))" by simp
  note ih = Cons.IH [OF rest]
  show ?case
  proof (cases "s_valid (sc w s)")
    case False
    then show ?thesis using ih [of n d] picks_Cons [of w x y ss _ s] by auto
  next
    case True
    then have "\<not> in_box x y (s_geometry (sc w s))"
      "to_u32 (centre_dist x y (s_geometry (sc w s))) = dist_of w x y s"
      using Cons.prems near_dist by (simp_all add: dist_of_def)
    then have loop: "getbycoord_loop w x y (s # ss) n d =
        (if dist_of w x y s < d then getbycoord_loop w x y ss (Some s) (dist_of w x y s)
         else getbycoord_loop w x y ss n d)" using True by simp
    show ?thesis
    proof (cases "dist_of w x y s < d")
      case less: True
      from ih [of "Some s" "dist_of w x y s"] show ?thesis
      proof (elim disjE exE conjE)
        fix s' assume "getbycoord_loop w x y ss (Some s) (dist_of w x y s) = Some s'"
          "dist_of w x y s' < dist_of w x y s" "picks w x y ss s'"
        then show ?thesis using less loop picks_Cons [of w x y ss s' s] by fastforce
      qed (use less loop True picks_hd [of w s ss x y] in auto)
    next
      case False
      from ih [of n d] show ?thesis
      proof (elim disjE exE conjE)
        fix s' assume "getbycoord_loop w x y ss n d = Some s'" "dist_of w x y s' < d" "picks w x y ss s'"
        then show ?thesis using False loop picks_Cons [of w x y ss s' s] by fastforce
      qed (use False loop in auto)
    qed
  qed
qed simp

text \<open>
  The screen at a point is the first valid screen whose geometry contains it; when none
  does and the point is within 32767 pixels of the centre of every valid screen, in both
  directions, it is the first of the valid screens whose centre is nearest, and there is none
  only when no screen is valid.
\<close>

theorem getbycoord_nearest:
  assumes "\<And>s. s \<in> set (screens w) \<Longrightarrow> s_valid (sc w s) \<Longrightarrow> near x y (s_geometry (sc w s))"
  shows "case find (\<lambda>s. s_valid (sc w s) \<and> in_box x y (s_geometry (sc w s))) (screens w) of
      Some s \<Rightarrow> luaA_screen_getbycoord x y w = Some s
    | None \<Rightarrow>
        (luaA_screen_getbycoord x y w = None \<and> (\<forall>s \<in> set (screens w). \<not> s_valid (sc w s))) \<or>
        (\<exists>s. luaA_screen_getbycoord x y w = Some s \<and> picks w x y (screens w) s)"
proof (cases "find (\<lambda>s. s_valid (sc w s) \<and> in_box x y (s_geometry (sc w s))) (screens w)")
  case None
  then have out: "\<forall>s \<in> set (screens w). s_valid (sc w s) \<longrightarrow>
      \<not> in_box x y (s_geometry (sc w s)) \<and> near x y (s_geometry (sc w s))"
    using assms by (auto simp: find_None_iff)
  have big: "\<not> 2 ^ 32 - 1 \<le> dist_of w x y s" if "s \<in> set (screens w)" "s_valid (sc w s)" for s
    using near_dist(2) [OF assms [OF that]] by (simp add: dist_of_def)
  from getbycoord_near [OF out, of None "2 ^ 32 - 1"]
  show ?thesis using big None unfolding luaA_screen_getbycoord_def by (simp only: option.case) blast
qed (simp add: luaA_screen_getbycoord_def getbycoord_hit)

definition two_screens :: world where
  "two_screens = world0\<lparr>screens := [7, 8], sc := (\<lambda>s.
     screen0\<lparr>s_valid := True, s_geometry := box (if s = 7 then 0 else 1920) 0 1920 1080\<rparr>)\<rparr>"

lemma two_screens_sel:
  "screens two_screens = [7, 8]" "s_valid (sc two_screens s)"
  "s_geometry (sc two_screens s) = box (if s = 7 then 0 else 1920) 0 1920 1080"
  by (simp_all add: two_screens_def)

theorem getbycoord_nearest_witness:
  "luaA_screen_getbycoord 2000 2000 two_screens = Some 8"
proof -
  have "near 2000 2000 (s_geometry (sc two_screens s))" for s
    by (simp add: two_screens_sel near_def c_div_def)
  note pick = getbycoord_nearest [of two_screens 2000 2000, OF this]
  have "dist_of two_screens 2000 2000 8 < dist_of two_screens 2000 2000 7"
    by (simp add: dist_of_def centre_dist_def two_screens_sel c_div_def)
  then have "s = 8" if "picks two_screens 2000 2000 [7, 8] s" for s
    using that by (auto simp: picks_def two_screens_sel Cons_eq_append_conv)
  then show ?thesis using pick by (simp add: two_screens_sel in_box_def) blast
qed

text \<open>
  screen_area_in_screen decides overlap: for an area and a screen of positive sizes it
  holds exactly when some point lies in both.
\<close>

lemma area_in_screen_overlap:
  assumes "0 < aw g" and "0 < ah g" and "0 < aw (s_geometry (sc w s))" and "0 < ah (s_geometry (sc w s))"
  shows "screen_area_in_screen s g w \<longleftrightarrow> (\<exists>x y. in_box x y g \<and> in_box x y (s_geometry (sc w s)))"
proof
  let ?s = "s_geometry (sc w s)"
  assume "screen_area_in_screen s g w"
  then have "in_box (max (ax g) (ax ?s)) (max (ay g) (ay ?s)) g \<and>
      in_box (max (ax g) (ax ?s)) (max (ay g) (ay ?s)) ?s"
    using assms by (auto simp: screen_area_in_screen_def in_box_def Let_def)
  then show "\<exists>x y. in_box x y g \<and> in_box x y ?s" by blast
qed (auto simp: screen_area_in_screen_def in_box_def Let_def)

lemma area_in_screen_overlap_witness:
  "\<not> screen_area_in_screen 8 (box 0 0 1920 1080) two_screens"
  using area_in_screen_overlap [of "box 0 0 1920 1080" two_screens 8]
  by (auto simp: two_screens_sel in_box_def)

text \<open>The lookup reads only the screens.\<close>

lemma getbycoord_cong:
  "screens v = screens w \<Longrightarrow> sc v = sc w \<Longrightarrow> luaA_screen_getbycoord x y v = luaA_screen_getbycoord x y w"
proof -
  assume a: "screens v = screens w" "sc v = sc w"
  have "getbycoord_loop v x y ss n d = getbycoord_loop w x y ss n d" for ss n d
    using a(2) by (induction ss arbitrary: n d) (simp_all add: Let_def)
  then show ?thesis by (simp add: luaA_screen_getbycoord_def a)
qed

end
