(* ===== verification/Tags.thy ===== *)
theory Tags
  imports ScreenLookup
begin

text \<open>
  Tags: src/objects/tag.c. A tag holds the list of its clients and one reference in the object
  registry per tagged client and one while it is activated. The lemmas show that every
  operation keeps these references and the well-formedness of the tag lists balanced, and what
  the clients method makes of a tag.
\<close>

subsection \<open>Tagging and untagging\<close>

definition luaA_object_registry_ref :: "nat \<Rightarrow> world \<Rightarrow> world" where
  "luaA_object_registry_ref p w = w\<lparr>registry := add_mset p (registry w)\<rparr>"

definition luaA_object_registry_unref :: "nat \<Rightarrow> world \<Rightarrow> world" where
  "luaA_object_registry_unref p w = w\<lparr>registry := registry w - {#p#}\<rparr>"

definition some_monitor_arrange :: "env \<Rightarrow> nat option \<Rightarrow> world \<Rightarrow> world" where
  "some_monitor_arrange env m w = (case m of None \<Rightarrow> w | Some m' \<Rightarrow> call_env env (Arrange m') w)"

definition tag_client_emit_signal :: "env \<Rightarrow> nat \<Rightarrow> nat \<Rightarrow> string \<Rightarrow> world \<Rightarrow> world" where
  "tag_client_emit_signal env t c signame w =
     emit env t signame [LUser c] (emit env c signame [LUser t] w)"

definition tag_client :: "env \<Rightarrow> nat \<Rightarrow> nat \<Rightarrow> world \<Rightarrow> world" where
  "tag_client env t c w =
     (let w = luaA_object_registry_ref t w in
      if is_client_tagged c t w then luaA_object_registry_unref t w
      else
        (let w = upd_tag t (\<lambda>x. x\<lparr>t_clients := t_clients x @ [c]\<rparr>) w;
             w = banning_need_update env w;
             w = some_monitor_arrange env (c_mon (cl w c)) w
         in tag_client_emit_signal env t c ''tagged'' w))"

definition untag_client :: "env \<Rightarrow> nat \<Rightarrow> nat \<Rightarrow> world \<Rightarrow> world" where
  "untag_client env c t w =
     (case index_of c (t_clients (tg w t)) of
        None \<Rightarrow> w
      | Some i \<Rightarrow>
          (let w = upd_tag t (\<lambda>x. x\<lparr>t_clients := take i (t_clients x) @ drop (Suc i) (t_clients x)\<rparr>) w;
               w = banning_need_update env w;
               w = some_monitor_arrange env (c_mon (cl w c)) w;
               w = tag_client_emit_signal env t c ''untagged'' w
           in luaA_object_registry_unref t w))"

subsection \<open>Properties of a tag\<close>

definition luaA_tag_set_name :: "env \<Rightarrow> nat \<Rightarrow> string \<Rightarrow> world \<Rightarrow> world" where
  "luaA_tag_set_name env t buf w =
     call_env env (Native ''ewmh_update_net_desktop_names'' [])
       (emit env t ''property::name'' [] (upd_tag t (\<lambda>x. x\<lparr>t_name := a_strdup (Some buf)\<rparr>) w))"

definition tag_view :: "env \<Rightarrow> nat \<Rightarrow> bool \<Rightarrow> world \<Rightarrow> world" where
  "tag_view env t view w =
     (if selected (tg w t) \<noteq> view then
        (let w = upd_tag t (\<lambda>x. x\<lparr>selected := view\<rparr>) w;
             w = banning_need_update env w;
             w = emit env t ''property::selected'' [] w
         in case t_screen (tg w t) of
              None \<Rightarrow> w
            | Some s \<Rightarrow>
                (let monitor = s_monitor (sc w s);
                     monitor = (if monitor = None then luaA_monitor_get_by_screen (Some s) w else monitor)
                 in some_monitor_arrange env monitor w))
      else w)"

definition luaA_tag_set_selected :: "env \<Rightarrow> nat \<Rightarrow> bool \<Rightarrow> world \<Rightarrow> world" where
  "luaA_tag_set_selected env t v w = tag_view env t v w"

definition luaA_tag_set_activated :: "env \<Rightarrow> nat \<Rightarrow> bool \<Rightarrow> world \<Rightarrow> world" where
  "luaA_tag_set_activated env t v w =
     (if v = activated (tg w t) then w
      else
        (let w = upd_tag t (\<lambda>x. x\<lparr>activated := v\<rparr>) w;
             w = (if v
                  then (luaA_object_registry_ref t w)\<lparr>tags := tags w @ [t]\<rparr>
                  else
                    (let w = (case index_of t (tags w) of
                                None \<Rightarrow> w
                              | Some i \<Rightarrow> w\<lparr>tags := take i (tags w) @ drop (Suc i) (tags w)\<rparr>);
                         w = (if selected (tg w t)
                              then banning_need_update env
                                     (emit env t ''property::selected'' []
                                        (upd_tag t (\<lambda>x. x\<lparr>selected := False\<rparr>) w))
                              else w)
                     in luaA_object_registry_unref t w));
             w = call_env env (Native ''ewmh_update_net_numbers_of_desktop'' []) w;
             w = call_env env (Native ''ewmh_update_net_desktop_names'' []) w
         in emit env t ''property::activated'' [] w))"

text \<open>The screen setter; None is the error luaA_checkudata raises.\<close>

definition luaA_tag_set_screen ::
  "env \<Rightarrow> (lval \<Rightarrow> nat option) \<Rightarrow> nat \<Rightarrow> lval \<Rightarrow> world \<Rightarrow> world option" where
  "luaA_tag_set_screen env is_screen t v w =
     map_option (\<lambda>new_screen.
        if t_screen (tg w t) \<noteq> new_screen
        then emit env t ''property::screen'' [] (upd_tag t (\<lambda>x. x\<lparr>t_screen := new_screen\<rparr>) w)
        else w)
       (if v \<noteq> LNil then luaA_checkscreen is_screen v w else Some None)"

definition luaA_tag_set_nmaster :: "env \<Rightarrow> nat \<Rightarrow> int \<Rightarrow> world \<Rightarrow> world" where
  "luaA_tag_set_nmaster env t v w =
     (let new_nmaster = to_i32 v;
          new_nmaster = (if new_nmaster < 0 then 0 else new_nmaster)
      in if nmaster (tg w t) \<noteq> new_nmaster then
           (let w = upd_tag t (\<lambda>x. x\<lparr>nmaster := new_nmaster\<rparr>) w;
                w = emit env t ''property::nmaster'' [] w
            in case t_screen (tg w t) of
                 None \<Rightarrow> w
               | Some s \<Rightarrow>
                   if selected (tg w t) \<and> s_monitor (sc w s) \<noteq> None
                   then some_monitor_arrange env (s_monitor (sc w s)) w else w)
         else w)"

subsection \<open>The clients method\<close>

text \<open>
  The argument table as the list of its values in the order lua_next visits them; is_client
  gives the client of a value, None is the error luaA_checkudata raises. The search stops at
  the first match.
\<close>

fun clients_table_has :: "(lval \<Rightarrow> nat option) \<Rightarrow> nat \<Rightarrow> lval list \<Rightarrow> bool option" where
  "clients_table_has is_client c [] = Some False"
| "clients_table_has is_client c (v # vs) =
     (case is_client v of
        None \<Rightarrow> None
      | Some tc \<Rightarrow> if tc = c then Some True else clients_table_has is_client c vs)"

text \<open>
  The first loop, at index j: an untagged client leaves the index as it is. The outer None is
  a loop still running after the given rounds; the flag tells whether it ended without error.
\<close>

fun tag_clients_drop ::
  "nat \<Rightarrow> env \<Rightarrow> (lval \<Rightarrow> nat option) \<Rightarrow> nat \<Rightarrow> lval list \<Rightarrow> nat \<Rightarrow> world \<Rightarrow> (bool \<times> world) option" where
  "tag_clients_drop 0 env is_client t vs j w = None"
| "tag_clients_drop (Suc n) env is_client t vs j w =
     (if j < length (t_clients (tg w t)) then
        (let c = t_clients (tg w t) ! j in
         case clients_table_has is_client c vs of
           None \<Rightarrow> Some (False, w)
         | Some True \<Rightarrow> tag_clients_drop n env is_client t vs (Suc j) w
         | Some False \<Rightarrow> tag_clients_drop n env is_client t vs j (untag_client env c t w))
      else Some (True, w))"

fun tag_clients_add ::
  "env \<Rightarrow> (lval \<Rightarrow> nat option) \<Rightarrow> nat \<Rightarrow> lval list \<Rightarrow> world \<Rightarrow> bool \<times> world" where
  "tag_clients_add env is_client t [] w = (True, w)"
| "tag_clients_add env is_client t (v # vs) w =
     (case is_client v of
        None \<Rightarrow> (False, w)
      | Some c \<Rightarrow> tag_clients_add env is_client t vs (tag_client env t c w))"

definition luaA_tag_clients ::
  "nat \<Rightarrow> env \<Rightarrow> (lval \<Rightarrow> nat option) \<Rightarrow> nat \<Rightarrow> lval list option \<Rightarrow> world
     \<Rightarrow> (nat list option \<times> world) option" where
  "luaA_tag_clients fuel env is_client t arg w =
     (case arg of
        None \<Rightarrow> Some (Some (t_clients (tg w t)), w)
      | Some vs \<Rightarrow>
          (case tag_clients_drop fuel env is_client t vs 0 w of
             None \<Rightarrow> None
           | Some (False, w) \<Rightarrow> Some (None, w)
           | Some (True, w) \<Rightarrow>
               (let (ok, w) = tag_clients_add env is_client t vs w
                in Some (if ok then Some (t_clients (tg w t)) else None, w))))"

subsection \<open>The initial tags\<close>

text \<open>The addresses of the new tags come from the Lua allocator.\<close>

definition luaA_tags_init :: "nat list \<Rightarrow> int \<Rightarrow> string list \<Rightarrow> world \<Rightarrow> world" where
  "luaA_tags_init addrs tagcount tagnames w =
     (if tagcount < 1 \<or> tagcount > 31 then w
      else
        fold (\<lambda>i w.
            let t = addrs ! i;
                w = upd_tag t (\<lambda>_. tag0\<lparr>t_name := a_strdup (Some (tagnames ! i)), activated := True,
                      selected := (i = 0)\<rparr>) w;
                w = w\<lparr>tags := tags w @ [t]\<rparr>
            in luaA_object_registry_ref t w)
          [0..<nat tagcount] (w\<lparr>tags := []\<rparr>))"

subsection \<open>References and well-formed lists\<close>

lemma count_list_remove: "count_list (remove1 t xs) x = count_list xs x - (if x = t then 1 else 0)"
  by (induction xs) auto

lemma count_list_one: "distinct xs \<Longrightarrow> t \<in> set xs \<Longrightarrow> count_list xs t = 1"
  by (induction xs) (auto simp: count_list_0_iff)

text \<open>The references a tag holds beyond those it needs.\<close>

definition tag_balance :: "world \<Rightarrow> nat \<Rightarrow> int" where
  "tag_balance w t =
     int (count (registry w) t) - int (length (t_clients (tg w t))) - int (count_list (tags w) t)"

definition tags_ok :: "world \<Rightarrow> bool" where
  "tags_ok w \<longleftrightarrow> distinct (tags w) \<and> (\<forall>t. activated (tg w t) = (t \<in> set (tags w))) \<and>
     (\<forall>t. distinct (t_clients (tg w t)))"

text \<open>
  What operations on tags keep, and the environments that keep it: the balances b are those of all
  tags, and may be any, as in the middle of an operation a reference is still to be dropped.
\<close>

definition tags_in :: "(nat \<Rightarrow> int) \<Rightarrow> world \<Rightarrow> bool" where
  "tags_in b w \<longleftrightarrow> tags_ok w \<and> tag_balance w = b"

definition tag_env :: "env \<Rightarrow> bool" where
  "tag_env env \<longleftrightarrow> (\<forall>b. (\<forall>t. 0 \<le> b t) \<longrightarrow> preserves env (tags_in b))"

lemma tag_trace [simp]:
  "tag_balance (w\<lparr>trace := x\<rparr>) = tag_balance w" "tags_ok (w\<lparr>trace := x\<rparr>) = tags_ok w"
  by (auto simp: tag_balance_def tags_ok_def fun_eq_iff)

lemma registry_ref_sel [simp]:
  "tags (luaA_object_registry_ref t w) = tags w" "tg (luaA_object_registry_ref t w) = tg w"
  "cl (luaA_object_registry_ref t w) = cl w"
  by (simp_all add: luaA_object_registry_ref_def)

lemma tag_env_steps:
  assumes "tag_env env" and "\<And>t. 0 \<le> b t" and "tags_in b w"
  shows "tags_in b (call_env env k w)" "tags_in b (some_monitor_arrange env m w)"
    and "tags_in b (tag_client_emit_signal env t c s w)"
proof -
  have call: "tags_in b (call_env env k v)" if "tags_in b v" for k v
    using call_env_preserves [of env "tags_in b" v k] assms(1,2) that by (simp add: tag_env_def tags_in_def)
  then show "tags_in b (call_env env k w)" "tags_in b (some_monitor_arrange env m w)"
      "tags_in b (tag_client_emit_signal env t c s w)"
    using assms(3) by (auto simp: some_monitor_arrange_def tag_client_emit_signal_def split: option.splits)
qed

lemma tag_balance_update [simp]:
  "tag_balance (banning_need_update env w) = tag_balance w"
  "tags_ok (banning_need_update env w) = tags_ok w"
  by (simp_all add: tag_balance_def tags_ok_def fun_eq_iff)

lemma tag_balance_ref:
  "tag_balance (luaA_object_registry_ref t w) = (tag_balance w)(t := tag_balance w t + 1)"
  "tags_ok (luaA_object_registry_ref t w) = tags_ok w"
  by (auto simp: tag_balance_def tags_ok_def luaA_object_registry_ref_def fun_eq_iff)

lemma tag_balance_unref:
  "0 < tag_balance w t \<Longrightarrow>
   tag_balance (luaA_object_registry_unref t w) = (tag_balance w)(t := tag_balance w t - 1)"
  "tags_ok (luaA_object_registry_unref t w) = tags_ok w"
  by (auto simp: tag_balance_def tags_ok_def luaA_object_registry_unref_def fun_eq_iff of_nat_diff)

lemma ref_unref [simp]: "luaA_object_registry_unref t (luaA_object_registry_ref t w) = w"
  by (simp add: luaA_object_registry_ref_def luaA_object_registry_unref_def)

lemma tags_in_update [simp]:
  "tags_in b (banning_need_update env w) = tags_in b w"
  by (simp add: tags_in_def)

lemma tags_in_unref:
  assumes "tags_in (b(t := b t + 1)) w" and "\<And>t. 0 \<le> b t"
  shows "tags_in b (luaA_object_registry_unref t w)"
proof -
  have "tag_balance w = b(t := b t + 1)" "tags_ok w" using assms(1) by (simp_all add: tags_in_def)
  moreover from this have "0 < tag_balance w t" using assms(2) [of t] by simp
  ultimately show ?thesis by (simp add: tags_in_def tag_balance_unref fun_eq_iff)
qed

lemma tag_client_balance:
  assumes "tag_env env" and "\<And>t. 0 \<le> b t" and "tags_in b w"
  shows "tags_in b (tag_client env t c w)"
proof (cases "is_client_tagged c t w")
  case True
  then show ?thesis using assms(3)
    by (simp add: tag_client_def is_client_tagged_def luaA_object_registry_ref_def luaA_object_registry_unref_def)
next
  case False
  let ?w = "upd_tag t (\<lambda>x. x\<lparr>t_clients := t_clients x @ [c]\<rparr>) (luaA_object_registry_ref t w)"
  have "tags_ok ?w" using assms(3) False
    by (auto simp: tags_in_def tags_ok_def luaA_object_registry_ref_def is_client_tagged_def)
  moreover have "tag_balance ?w = tag_balance w"
    by (auto simp: tag_balance_def luaA_object_registry_ref_def fun_eq_iff)
  ultimately have "tags_in b ?w" using assms(3) by (simp add: tags_in_def)
  then show ?thesis using False tag_env_steps [OF assms(1,2)]
    by (simp add: tag_client_def Let_def is_client_tagged_def luaA_object_registry_ref_def)
qed

lemma untag_client_balance:
  assumes "tag_env env" and b: "\<And>t. 0 \<le> b t" and w: "tags_in b w"
  shows "tags_in b (untag_client env c t w)"
proof (cases "index_of c (t_clients (tg w t))")
  case (Some i)
  let ?w = "upd_tag t (\<lambda>x. x\<lparr>t_clients := take i (t_clients x) @ drop (Suc i) (t_clients x)\<rparr>) w"
  let ?b = "b(t := b t + 1)"
  have i: "i < length (t_clients (tg w t))" using index_of_Some [OF Some] by simp
  have "take i (t_clients (tg w t)) @ drop (Suc i) (t_clients (tg w t)) = remove1 c (t_clients (tg w t))"
    by (rule remove_at_index [OF Some])
  then have "tags_ok ?w" using w by (auto simp: tags_in_def tags_ok_def)
  moreover have "tag_balance ?w = (tag_balance w)(t := tag_balance w t + 1)"
    using i by (auto simp: tag_balance_def fun_eq_iff)
  ultimately have in1: "tags_in ?b ?w" using w by (simp add: tags_in_def)
  have b1: "0 \<le> ?b s" for s using b [of s] b [of t] by simp
  have "tags_in ?b (tag_client_emit_signal env t c n (some_monitor_arrange env m (banning_need_update env ?w)))" for m n
    by (intro tag_env_steps [OF assms(1) b1]) (simp only: tags_in_update in1)
  then show ?thesis using Some tags_in_unref [OF _ b] by (simp add: untag_client_def Let_def)
qed (use w in \<open>simp add: untag_client_def\<close>)

lemma selected_balance [simp]:
  "tags_in b (upd_tag t (\<lambda>x. x\<lparr>selected := v\<rparr>) w) = tags_in b w"
  by (auto simp: tags_in_def tag_balance_def tags_ok_def fun_eq_iff)

lemma tag_view_balance:
  assumes "tag_env env" and "\<And>t. 0 \<le> b t" and "tags_in b w"
  shows "tags_in b (tag_view env t v w)"
  using assms(3) tag_env_steps [OF assms(1,2)] by (simp add: tag_view_def Let_def split: option.split)

lemma set_activated_balance:
  assumes "tag_env env" and b: "\<And>t. 0 \<le> b t" and w: "tags_in b w"
  shows "tags_in b (luaA_tag_set_activated env t v w)"
proof (cases "v = activated (tg w t)")
  case False
  note steps = tag_env_steps [OF assms(1)]
  show ?thesis
  proof (cases v)
    case True
    let ?w = "luaA_object_registry_ref t (upd_tag t (\<lambda>x. x\<lparr>activated := True\<rparr>) w)"
    have "t \<notin> set (tags w)" using w True \<open>v \<noteq> _\<close> by (auto simp: tags_in_def tags_ok_def)
    then have "tags_ok (?w\<lparr>tags := tags w @ [t]\<rparr>)"
      using w by (auto simp: tags_in_def tags_ok_def luaA_object_registry_ref_def)
    moreover have "tag_balance (?w\<lparr>tags := tags w @ [t]\<rparr>) = tag_balance w"
      by (auto simp: tag_balance_def luaA_object_registry_ref_def fun_eq_iff)
    ultimately have "tags_in b (?w\<lparr>tags := tags w @ [t]\<rparr>)" using w by (simp add: tags_in_def)
    then show ?thesis using steps [OF b] True \<open>v \<noteq> _\<close> by (simp add: luaA_tag_set_activated_def Let_def)
  next
    case False
    then have "t \<in> set (tags w)" using w \<open>v \<noteq> _\<close> by (auto simp: tags_in_def tags_ok_def)
    then obtain i where i: "index_of t (tags w) = Some i" using index_of_None by fastforce
    let ?w = "(upd_tag t (\<lambda>x. x\<lparr>activated := False\<rparr>) w)\<lparr>tags := remove1 t (tags w)\<rparr>"
    let ?b = "b(t := b t + 1)"
    note cut = remove_at_index [OF i]
    have d: "distinct (tags w)" using w by (simp add: tags_in_def tags_ok_def)
    have "tags_ok ?w" using w d by (auto simp: tags_in_def tags_ok_def)
    moreover have "tag_balance ?w = (tag_balance w)(t := tag_balance w t + 1)"
      using count_list_one [OF d \<open>t \<in> set (tags w)\<close>]
      by (auto simp: tag_balance_def fun_eq_iff count_list_remove)
    ultimately have in1: "tags_in ?b ?w" using w by (simp add: tags_in_def)
    have b1: "0 \<le> ?b s" for s using b [of s] b [of t] by simp
    define u where "u = (if selected (tg ?w t) then banning_need_update env (emit env t ''property::selected'' []
        (upd_tag t (\<lambda>x. x\<lparr>selected := False\<rparr>) ?w)) else ?w)"
    have "tags_in ?b u" using in1 steps(1) [where b = ?b, OF b1] by (simp only: u_def tags_in_update selected_balance if_split) blast
    from tags_in_unref [OF this b] have "tags_in b (luaA_object_registry_unref t u)" .
    moreover have "luaA_tag_set_activated env t v w = emit env t ''property::activated'' []
        (call_env env (Native ''ewmh_update_net_desktop_names'' [])
          (call_env env (Native ''ewmh_update_net_numbers_of_desktop'' []) (luaA_object_registry_unref t u)))"
      using False \<open>v \<noteq> _\<close> cut i by (simp add: luaA_tag_set_activated_def Let_def u_def)
    ultimately show ?thesis using steps(1) [where b = b, OF b] by simp
  qed
qed (use w in \<open>simp add: luaA_tag_set_activated_def\<close>)

datatype tag_op = OTag nat nat | OUntag nat nat | OView nat bool | OActivate nat bool

primrec run_tag_op :: "env \<Rightarrow> tag_op \<Rightarrow> world \<Rightarrow> world" where
  "run_tag_op env (OTag c t) w = tag_client env t c w"
| "run_tag_op env (OUntag c t) w = untag_client env c t w"
| "run_tag_op env (OView t v) w = tag_view env t v w"
| "run_tag_op env (OActivate t v) w = luaA_tag_set_activated env t v w"

lemma tag_ops_balance:
  assumes "tag_env env" and "\<And>t. 0 \<le> b t"
  shows "tags_in b w \<Longrightarrow> tags_in b (fold (run_tag_op env) ops w)"
proof (induction ops arbitrary: w)
  case (Cons oper ops)
  have "tags_in b (run_tag_op env oper w)"
    using Cons.prems tag_client_balance [OF assms] untag_client_balance [OF assms]
      tag_view_balance [OF assms] set_activated_balance [OF assms] by (cases oper) simp_all
  then show ?case using Cons.IH by simp
qed simp

text \<open>
  Handlers that run operations on tags: script says which, for every call and the state it is made
  in; they run after the call itself, with handlers of their own down to the given depth.
\<close>

fun tag_handlers :: "(call \<Rightarrow> world \<Rightarrow> tag_op list) \<Rightarrow> env \<Rightarrow> nat \<Rightarrow> env" where
  "tag_handlers script base 0 k w = base k w"
| "tag_handlers script base (Suc n) k w = fold (run_tag_op (tag_handlers script base n)) (script k w) (base k w)"

lemma tag_handlers_env:
  assumes "keeps base (\<lambda>w. (registry w, tags w, tg w))"
  shows "tag_env (tag_handlers script base n)"
proof (induction n)
  case 0
  have "tag_handlers script base 0 = base" by (simp add: fun_eq_iff)
  then show ?case using assms by (auto simp: tag_env_def preserves_def keeps_def tags_in_def tags_ok_def tag_balance_def fun_eq_iff)
next
  case (Suc n)
  have "tags_in b (base k w)" if "tags_in b w" for b k w
    using assms that by (auto simp: keeps_def tags_in_def tags_ok_def tag_balance_def fun_eq_iff)
  then show ?case using tag_ops_balance [OF Suc] by (simp add: tag_env_def preserves_def)
qed

text \<open>
  C32: Tag operations leak and lose no reference. After any sequence of tagging, untagging,
  viewing and (de)activating, where the handlers of every signal may run any such operations
  themselves, nested to any depth, every tag holds exactly as many registry references beyond one
  per tagged client and one for being activated as before; the list of tags still holds exactly the
  activated tags, each once; and no tag lists a client twice. What the calls do beside that leaves
  the tags and the references alone.
\<close>

theorem tag_references_balanced:
  assumes "keeps base (\<lambda>w. (registry w, tags w, tg w))" and "tags_ok w" and "\<And>t. 0 \<le> tag_balance w t"
  shows "tag_balance (fold (run_tag_op (tag_handlers script base n)) ops w) = tag_balance w \<and>
    tags_ok (fold (run_tag_op (tag_handlers script base n)) ops w)"
proof -
  have "tags_in (tag_balance w) w" using assms(2) by (simp add: tags_in_def)
  then have "tags_in (tag_balance w) (fold (run_tag_op (tag_handlers script base n)) ops w)"
    by (rule tag_ops_balance [OF tag_handlers_env [OF assms(1)] assms(3)])
  then show ?thesis by (simp add: tags_in_def)
qed

text \<open>A handler that tags client 9 whenever a client is tagged, and untags it when one is untagged.\<close>

definition tag_script :: "call \<Rightarrow> world \<Rightarrow> tag_op list" where
  "tag_script k w =
     (case k of
        Emit c name args \<Rightarrow> if name = ''tagged'' then [OTag 9 5] else if name = ''untagged'' then [OUntag 9 5, OActivate 5 False] else []
      | _ \<Rightarrow> [])"

lemma tag_references_balanced_witness:
  "t_clients (tg (fold (run_tag_op (tag_handlers tag_script idle 2)) [OActivate 5 True, OTag 7 5] world0) 5) = [7, 9] \<and>
   tags_ok (fold (run_tag_op (tag_handlers tag_script idle 2)) [OActivate 5 True, OTag 7 5, OView 5 True, OTag 8 5, OUntag 7 5] world0)"
proof -
  have "t_clients (tg (fold (run_tag_op (tag_handlers tag_script idle 2)) [OActivate 5 True, OTag 7 5] world0) 5) = [7, 9]"
    by code_simp
  then show ?thesis
    using tag_references_balanced [of idle world0 tag_script 2 "[OActivate 5 True, OTag 7 5, OView 5 True, OTag 8 5, OUntag 7 5]"]
    by (simp add: world0_def tags_ok_def tag0_def tag_balance_def)
qed

subsection \<open>What the clients method makes of a tag\<close>

lemma arrange_tg [simp]:
  assumes "keeps env tg"
  shows "tg (call_env env k w) = tg w" "tg (some_monitor_arrange env m w) = tg w"
    and "tg (tag_client_emit_signal env t c s w) = tg w"
  using call_env_keeps [OF assms]
  by (auto simp: some_monitor_arrange_def tag_client_emit_signal_def split: option.splits)

lemma unref_tg [simp]: "tg (luaA_object_registry_unref t w) = tg w"
  by (simp add: luaA_object_registry_unref_def)

lemma tag_client_tg:
  "keeps env tg \<Longrightarrow> t_clients (tg (tag_client env t c w) t) =
     (if c \<in> set (t_clients (tg w t)) then t_clients (tg w t) else t_clients (tg w t) @ [c])"
  by (simp add: tag_client_def Let_def is_client_tagged_def)

lemma untag_client_tg:
  "keeps env tg \<Longrightarrow> t_clients (tg (untag_client env c t w) t) = remove1 c (t_clients (tg w t))"
  by (cases "index_of c (t_clients (tg w t))")
    (auto simp: untag_client_def Let_def remove_at_index remove1_idem index_of_None [symmetric])

lemma table_has: "\<forall>v \<in> set vs. is_client v \<noteq> None \<Longrightarrow>
    clients_table_has is_client c vs = Some (Some c \<in> is_client ` set vs)"
  by (induction vs) (auto split: option.splits)

lemma drop_loop:
  assumes "keeps env tg" and "\<forall>v \<in> set vs. is_client v \<noteq> None"
  shows "t_clients (tg w t) = A @ B \<Longrightarrow> \<forall>a \<in> set A. Some a \<in> is_client ` set vs \<Longrightarrow> length B < n \<Longrightarrow>
    \<exists>w'. tag_clients_drop n env is_client t vs (length A) w = Some (True, w') \<and>
      t_clients (tg w' t) = A @ filter (\<lambda>c. Some c \<in> is_client ` set vs) B"
proof (induction n arbitrary: A B w)
  case (Suc n)
  show ?case
  proof (cases B)
    case (Cons c B')
    show ?thesis
    proof (cases "Some c \<in> is_client ` set vs")
      case True
      then show ?thesis
        using Suc.IH [of w "A @ [c]" B'] Suc.prems Cons table_has [OF assms(2), of c] by auto
    next
      case False
      then have "c \<notin> set A" using Suc.prems(2) by blast
      then have "t_clients (tg (untag_client env c t w) t) = A @ B'"
        using untag_client_tg [OF assms(1)] Suc.prems(1) Cons by (simp add: remove1_append)
      from Suc.IH [OF this Suc.prems(2)] show ?thesis
        using Suc.prems Cons False table_has [OF assms(2), of c] by auto
    qed
  qed (use Suc.prems in simp)
qed simp

lemma remdups_snoc: "remdups (xs @ [c]) = filter (\<lambda>x. x \<noteq> c) (remdups xs) @ [c]"
  by (induction xs) auto

lemma add_loop:
  assumes "keeps env tg"
  shows "\<forall>v \<in> set vs. is_client v \<noteq> None \<Longrightarrow>
    fst (tag_clients_add env is_client t vs w) \<and>
    t_clients (tg (snd (tag_clients_add env is_client t vs w)) t) =
      t_clients (tg w t) @ filter (\<lambda>c. c \<notin> set (t_clients (tg w t)))
        (rev (remdups (rev (map (\<lambda>v. the (is_client v)) vs))))"
proof (induction vs arbitrary: w)
  case (Cons v vs)
  then obtain c where c: "is_client v = Some c" by auto
  let ?w = "tag_client env t c w"
  let ?cs = "map (\<lambda>v. the (is_client v)) vs"
  have ih: "fst (tag_clients_add env is_client t vs ?w) \<and>
    t_clients (tg (snd (tag_clients_add env is_client t vs ?w)) t) =
      t_clients (tg ?w t) @ filter (\<lambda>c. c \<notin> set (t_clients (tg ?w t))) (rev (remdups (rev ?cs)))"
    using Cons.IH Cons.prems by simp
  have front: "rev (remdups (rev (c # ?cs))) = c # filter (\<lambda>x. x \<noteq> c) (rev (remdups (rev ?cs)))"
    by (simp add: remdups_snoc rev_filter)
  show ?case using ih c tag_client_tg [OF assms] front
    by (auto simp: filter_id_conv intro!: filter_cong)
qed simp

text \<open>
  tag:clients(t) gives the tag exactly the clients of the table: those it already had stay
  in their order, the new ones follow in the order of the table, none twice, and one round of
  the first loop per client and one more ends it.
\<close>

theorem tag_clients_sets:
  assumes "keeps env tg" and "\<And>v. v \<in> set vs \<Longrightarrow> is_client v \<noteq> None"
  shows "\<exists>w'. luaA_tag_clients (length (t_clients (tg w t)) + 1) env is_client t (Some vs) w =
      Some (Some (t_clients (tg w' t)), w') \<and>
    t_clients (tg w' t) = filter (\<lambda>c. Some c \<in> is_client ` set vs) (t_clients (tg w t)) @
      filter (\<lambda>c. c \<notin> set (t_clients (tg w t))) (rev (remdups (rev (map (\<lambda>v. the (is_client v)) vs))))"
proof -
  have vs: "\<forall>v \<in> set vs. is_client v \<noteq> None" using assms(2) by blast
  obtain v where v: "tag_clients_drop (length (t_clients (tg w t)) + 1) env is_client t vs 0 w = Some (True, v)"
    "t_clients (tg v t) = filter (\<lambda>c. Some c \<in> is_client ` set vs) (t_clients (tg w t))"
    using drop_loop [OF assms(1) vs, of w t "[]" "t_clients (tg w t)" "length (t_clients (tg w t)) + 1"] by auto
  obtain w' where w': "tag_clients_add env is_client t vs v = (True, w')"
    using add_loop [OF assms(1) vs, of t v] by (metis prod.collapse)
  have "filter (\<lambda>c. c \<notin> set (t_clients (tg v t))) (rev (remdups (rev (map (\<lambda>v. the (is_client v)) vs)))) =
      filter (\<lambda>c. c \<notin> set (t_clients (tg w t))) (rev (remdups (rev (map (\<lambda>v. the (is_client v)) vs))))"
    using vs unfolding v(2) by (intro filter_cong) force+
  then show ?thesis using add_loop [OF assms(1) vs, of t v] v w' by (simp add: luaA_tag_clients_def)
qed

fun user_client :: "lval \<Rightarrow> nat option" where
  "user_client (LUser c) = Some c"
| "user_client v = None"

theorem tag_clients_sets_witness:
  "\<exists>w'. luaA_tag_clients (length [1 :: nat, 2] + 1) idle user_client 5
      (Some [LUser 3, LUser 2, LUser 3]) (world0\<lparr>tg := (\<lambda>_. tag0\<lparr>t_clients := [1, 2]\<rparr>)\<rparr>)
    = Some (Some [2, 3], w')"
proof -
  let ?w = "world0\<lparr>tg := (\<lambda>_. tag0\<lparr>t_clients := [1, 2]\<rparr>)\<rparr>"
  have "\<And>v. v \<in> set [LUser 3, LUser 2, LUser 3] \<Longrightarrow> user_client v \<noteq> None" by auto
  with tag_clients_sets [of idle "[LUser 3, LUser 2, LUser 3]" user_client ?w 5] obtain w' where
    "luaA_tag_clients (length (t_clients (tg ?w 5)) + 1) idle user_client 5
       (Some [LUser 3, LUser 2, LUser 3]) ?w = Some (Some (t_clients (tg w' 5)), w')"
    "t_clients (tg w' 5) = filter (\<lambda>c. Some c \<in> user_client ` set [LUser 3, LUser 2, LUser 3])
       (t_clients (tg ?w 5)) @ filter (\<lambda>c. c \<notin> set (t_clients (tg ?w 5)))
         (rev (remdups (rev (map (\<lambda>v. the (user_client v)) [LUser 3, LUser 2, LUser 3]))))"
    using idle_keeps by blast
  then show ?thesis by auto
qed

end
