(* ===== verification/Geometry.thy ===== *)
theory Geometry
  imports ScreenLookup
begin

text \<open>
  Client geometry: the resizing, size hint and titlebar functions of src/objects/client.c and
  screen_client_moveto of src/objects/screen.c. A double is a rational number and every double
  operation is its exact result rounded by rnd, a parameter; conversion to int truncates.
\<close>

abbreviation (input) SIG_PROPERTY_X :: nat where "SIG_PROPERTY_X \<equiv> 3"
abbreviation (input) SIG_PROPERTY_Y :: nat where "SIG_PROPERTY_Y \<equiv> 4"
abbreviation (input) SIG_PROPERTY_WIDTH :: nat where "SIG_PROPERTY_WIDTH \<equiv> 5"
abbreviation (input) SIG_PROPERTY_HEIGHT :: nat where "SIG_PROPERTY_HEIGHT \<equiv> 6"

abbreviation (input) BAR_TOP :: nat where "BAR_TOP \<equiv> 0"
abbreviation (input) BAR_RIGHT :: nat where "BAR_RIGHT \<equiv> 1"
abbreviation (input) BAR_BOTTOM :: nat where "BAR_BOTTOM \<equiv> 2"
abbreviation (input) BAR_LEFT :: nat where "BAR_LEFT \<equiv> 3"

type_synonym rounding = "rat \<Rightarrow> rat"

definition trunc :: "rat \<Rightarrow> int" where
  "trunc r = (if r < 0 then \<lceil>r\<rceil> else \<lfloor>r\<rfloor>)"

subsection \<open>Decorations\<close>

definition client_border :: "client \<Rightarrow> int" where
  "client_border x =
     (if client_type x = X11 \<and> override_redirect x then 0
      else if fullscreen x then 0 else border_width x)"

definition client_remove_titlebar_geometry :: "client \<Rightarrow> area \<Rightarrow> area" where
  "client_remove_titlebar_geometry x g =
     g\<lparr>ax := ax g + tb_size x BAR_LEFT, ay := ay g + tb_size x BAR_TOP,
       aw := aw g - tb_size x BAR_LEFT - tb_size x BAR_RIGHT,
       ah := ah g - tb_size x BAR_TOP - tb_size x BAR_BOTTOM\<rparr>"

definition client_add_titlebar_geometry :: "client \<Rightarrow> area \<Rightarrow> area" where
  "client_add_titlebar_geometry x g =
     g\<lparr>ax := ax g - tb_size x BAR_LEFT, ay := ay g - tb_size x BAR_TOP,
       aw := aw g + tb_size x BAR_LEFT + tb_size x BAR_RIGHT,
       ah := ah g + tb_size x BAR_TOP + tb_size x BAR_BOTTOM\<rparr>"

text \<open>The stub of x11_compat.h.\<close>

definition xwindow_translate_for_gravity ::
  "int \<Rightarrow> int \<Rightarrow> int \<Rightarrow> int \<Rightarrow> int \<Rightarrow> int \<Rightarrow> int \<Rightarrow> int \<times> int" where
  "xwindow_translate_for_gravity gravity cw1 ch1 cw2 ch2 dest_x dest_y = (dest_x, dest_y)"

definition client_get_undecorated_geometry :: "client \<Rightarrow> area" where
  "client_get_undecorated_geometry x =
     (let g = geometry x in
      if fullscreen x then g
      else
        (let l = tb_size x BAR_LEFT; r = tb_size x BAR_RIGHT; t = tb_size x BAR_TOP; b = tb_size x BAR_BOTTOM;
             g = g\<lparr>aw := aw g - (l + r), ah := ah g - (t + b)\<rparr>
         in if P_WIN_GRAVITY \<in> sh_flags (hints x) then
              (let (gx, gy) = xwindow_translate_for_gravity (win_gravity (hints x))
                     (- l - border_width x) (- t - border_width x)
                     (- r - border_width x) (- b - border_width x) (ax g) (ay g)
               in g\<lparr>ax := gx, ay := gy\<rparr>)
            else g))"

definition client_isfixed :: "client \<Rightarrow> bool" where
  "client_isfixed x \<longleftrightarrow>
     (let h = hints x in
      P_MAX_SIZE \<in> sh_flags h \<and> P_MIN_SIZE \<in> sh_flags h \<and> max_width h = min_width h \<and>
      max_height h = min_height h \<and> max_width h \<noteq> 0 \<and> max_height h \<noteq> 0 \<and> size_hints_honor x)"

subsection \<open>Size hints\<close>

text \<open>
  unsigned_subtract of x11_compat.h, on values of type unsigned int. client_apply_size_hints
  calls it for its result and drops the result.
\<close>

definition unsigned_subtract :: "int \<Rightarrow> int \<Rightarrow> int" where
  "unsigned_subtract a b = (if a > b then a - b else 0)"

definition aspect_hint :: "rounding \<Rightarrow> size_hints \<Rightarrow> int \<Rightarrow> int \<Rightarrow> int \<times> int \<Rightarrow> int \<times> int" where
  "aspect_hint rnd h real_basew real_baseh = (\<lambda>(wd, ht).
     if P_ASPECT \<in> sh_flags h \<and> min_aspect_den h > 0 \<and> max_aspect_den h > 0
        \<and> ht > real_baseh \<and> wd > real_basew
     then
       (let dx = of_int (wd - real_basew); dy = of_int (ht - real_baseh);
            ratio = rnd (dx / dy);
            mn = rnd (of_int (min_aspect_num h) / of_int (min_aspect_den h));
            mx = rnd (of_int (max_aspect_num h) / of_int (max_aspect_den h))
        in if mx > 0 \<and> mn > 0 \<and> ratio > 0 then
             (if ratio < mn then
                (let dy = rnd (rnd (dx / mn) + 1 / 2)
                 in (trunc (rnd (dx + of_int real_basew)), trunc (rnd (dy + of_int real_baseh))))
              else if ratio > mx then
                (let dx = rnd (rnd (dy * mx) + 1 / 2)
                 in (trunc (rnd (dx + of_int real_basew)), trunc (rnd (dy + of_int real_baseh))))
              else (wd, ht))
           else (wd, ht))
     else (wd, ht))"

definition max_hint :: "size_hints \<Rightarrow> int \<times> int \<Rightarrow> int \<times> int" where
  "max_hint h = (\<lambda>(wd, ht).
     if P_MAX_SIZE \<in> sh_flags h
     then (if max_width h \<noteq> 0 then min wd (max_width h) else wd,
           if max_height h \<noteq> 0 then min ht (max_height h) else ht)
     else (wd, ht))"

definition increment_hint :: "size_hints \<Rightarrow> int \<times> int \<Rightarrow> int \<times> int" where
  "increment_hint h = (\<lambda>(wd, ht).
     if (P_RESIZE_INC \<in> sh_flags h \<or> BASE_SIZE \<in> sh_flags h) \<and> width_inc h \<noteq> 0 \<and> height_inc h \<noteq> 0
     then (let t1 = to_u16 wd; t2 = to_u16 ht
           in (wd - t1 mod \<bar>width_inc h\<bar>, ht - t2 mod \<bar>height_inc h\<bar>))
     else (wd, ht))"

definition client_apply_size_hints :: "rounding \<Rightarrow> client \<Rightarrow> area \<Rightarrow> area" where
  "client_apply_size_hints rnd x g =
     (if fullscreen x then g
      else
        (let h = hints x;
             g = client_remove_titlebar_geometry x g;
             real_basew = (if BASE_SIZE \<in> sh_flags h then base_width h else 0);
             real_baseh = (if BASE_SIZE \<in> sh_flags h then base_height h else 0);
             minw = (if P_MIN_SIZE \<in> sh_flags h then min_width h
                     else if BASE_SIZE \<in> sh_flags h then base_width h else 0);
             minh = (if P_MIN_SIZE \<in> sh_flags h then min_height h
                     else if BASE_SIZE \<in> sh_flags h then base_height h else 0);
             (wd, ht) = aspect_hint rnd h real_basew real_baseh (aw g, ah g);
             (wd, ht) = max_hint h (max wd minw, max ht minh);
             (wd, ht) = increment_hint h (wd, ht)
         in client_add_titlebar_geometry x (g\<lparr>aw := wd, ah := ht\<rparr>)))"

subsection \<open>Titlebars\<close>

definition titlebar_get_area :: "client \<Rightarrow> nat \<Rightarrow> area" where
  "titlebar_get_area x bar =
     (let g = geometry x; bw = client_border x in
      if bar = BAR_BOTTOM then box bw (bw + ah g - tb_size x bar) (aw g) (tb_size x bar)
      else if bar = BAR_TOP then box bw bw (aw g) (tb_size x bar)
      else
        box (if bar = BAR_RIGHT then bw + aw g - tb_size x bar else bw) (bw + tb_size x BAR_TOP)
          (tb_size x bar) (ah g - tb_size x BAR_TOP - tb_size x BAR_BOTTOM))"

fun drawable_offset_loop :: "client \<Rightarrow> nat list \<Rightarrow> int \<Rightarrow> int \<Rightarrow> (nat \<times> int \<times> int) option" where
  "drawable_offset_loop x [] px py = None"
| "drawable_offset_loop x (bar # bars) px py =
     (let a = titlebar_get_area x bar in
      if ax a > px \<or> ax a + aw a \<le> px then drawable_offset_loop x bars px py
      else if ay a > py \<or> ay a + ah a \<le> py then drawable_offset_loop x bars px py
      else Some (bar, px - ax a, py - ay a))"

text \<open>client_get_drawable_offset: the bar whose drawable it returns, and the new x and y.\<close>

definition client_get_drawable_offset :: "client \<Rightarrow> int \<Rightarrow> int \<Rightarrow> (nat \<times> int \<times> int) option" where
  "client_get_drawable_offset x px py = drawable_offset_loop x [0..<4] px py"

subsection \<open>Moving a client to a screen without resizing it\<close>

definition screen_emit_moved :: "env \<Rightarrow> nat \<Rightarrow> nat option \<Rightarrow> bool \<Rightarrow> world \<Rightarrow> world" where
  "screen_emit_moved env c old_screen had_focus w =
     (let w = emit env c ''property::screen'' [obj_of old_screen] w
      in if had_focus then client_focus env (Some c) w else w)"

definition screen_reassign :: "env \<Rightarrow> nat \<Rightarrow> nat option \<Rightarrow> world \<Rightarrow> world" where
  "screen_reassign env c new_screen w =
     (let w = upd_client c (\<lambda>x. x\<lparr>c_screen := new_screen\<rparr>) w in
      if new_screen = None then w
      else
        (let new_mon = luaA_monitor_get_by_screen new_screen w in
         if new_mon \<noteq> None \<and> new_mon \<noteq> c_mon (cl w c)
         then banning_need_update env (upd_client c (\<lambda>x. x\<lparr>c_mon := new_mon\<rparr>) w)
         else w))"

definition screen_client_moveto_stay :: "env \<Rightarrow> nat \<Rightarrow> nat option \<Rightarrow> world \<Rightarrow> world" where
  "screen_client_moveto_stay env c new_screen w =
     (if new_screen = c_screen (cl w c) then w
      else screen_emit_moved env c (c_screen (cl w c)) (focus_client w = Some c)
             (screen_reassign env c new_screen w))"

subsection \<open>Resizing\<close>

definition queue_geometry_signals :: "nat \<Rightarrow> area \<Rightarrow> area \<Rightarrow> world \<Rightarrow> world" where
  "queue_geometry_signals c old new w =
     (let sig = (\<lambda>b s w. if b then enqueue (QSignal0 (LUser c) s) w else w);
          w = sig (\<not> AREA_EQUAL old new) SIG_PROPERTY_GEOMETRY w;
          w = (if ax old \<noteq> ax new \<or> ay old \<noteq> ay new
               then sig (ay old \<noteq> ay new) SIG_PROPERTY_Y
                      (sig (ax old \<noteq> ax new) SIG_PROPERTY_X (sig True SIG_PROPERTY_POSITION w))
               else w)
      in if aw old \<noteq> aw new \<or> ah old \<noteq> ah new
         then sig (ah old \<noteq> ah new) SIG_PROPERTY_HEIGHT
                (sig (aw old \<noteq> aw new) SIG_PROPERTY_WIDTH (sig True SIG_PROPERTY_SIZE w))
         else w)"

definition update_titlebar :: "env \<Rightarrow> nat \<Rightarrow> area \<Rightarrow> bool \<Rightarrow> nat \<Rightarrow> world \<Rightarrow> world" where
  "update_titlebar env c g solved bar w =
     (if tb_drawable (cl w c) bar = None \<and> tb_size (cl w c) bar = 0 then w
      else
        (let w = call_env env (Native ''titlebar_get_drawable'' [LUser c, LInt (int bar)]) w;
             a = titlebar_get_area (cl w c) bar;
             a = a\<lparr>ax := ax a + ax g, ay := ay a + ay g\<rparr>;
             a = (if fullscreen (cl w c) then a\<lparr>aw := 0, ah := 0\<rparr> else a)
         in call_env env (Native ''drawable_set_geometry''
              [LUser c, LInt (int bar), LArea a, LBool solved]) w))"

definition client_resize_do :: "env \<Rightarrow> nat \<Rightarrow> area \<Rightarrow> bool \<Rightarrow> bool \<Rightarrow> world \<Rightarrow> world" where
  "client_resize_do env c g silent solved w =
     (let new_screen = c_screen (cl w c);
          new_screen =
            (if \<not> silent \<and> \<not> solved \<and>
                (new_screen = None \<or> \<not> screen_area_in_screen (the new_screen) g w)
             then screen_getbycoord (ax g) (ay g) w else new_screen);
          old = geometry (cl w c);
          w = upd_client c (\<lambda>x. x\<lparr>geometry := g\<rparr>) w;
          w = (if \<not> solved then call_env env (Native ''xwayland_geometry_authored'' [LUser c]) w else w);
          w = (if \<not> silent
               then screen_client_moveto_stay env c new_screen (queue_geometry_signals c old g w)
               else w);
          w = fold (update_titlebar env c g solved) [0..<4] w;
          w = call_env env (Native ''client_configure_to_box'' [LUser c]) w
      in if \<not> solved \<and> c_mon (cl w c) \<noteq> None
         then call_env env (Native ''declare_output_mark_dirty'' [obj_of (c_mon (cl w c))]) w
         else w)"

definition client_set_solved_geometry :: "env \<Rightarrow> nat \<Rightarrow> area \<Rightarrow> world \<Rightarrow> world" where
  "client_set_solved_geometry env c g w =
     (if \<not> AREA_EQUAL (geometry (cl w c)) g then client_resize_do env c g False True w else w)"

definition bars_fit :: "client \<Rightarrow> area \<Rightarrow> bool" where
  "bars_fit x g \<longleftrightarrow> aw g \<ge> tb_size x BAR_LEFT + tb_size x BAR_RIGHT \<and>
     ah g \<ge> tb_size x BAR_TOP + tb_size x BAR_BOTTOM"

definition aspect_ratio_fix :: "rounding \<Rightarrow> client \<Rightarrow> area \<Rightarrow> area" where
  "aspect_ratio_fix rnd x g =
     (if aspect_ratio x > 0 \<and> \<not> fullscreen x \<and> \<not> maximized x \<and> aw g > 0 \<and> ah g > 0 then
        (let wd = of_int (aw g); ht = of_int (ah g); current = rnd (wd / ht);
             epsilon = rnd (3 / 2 / ht)
         in if rnd (current - aspect_ratio x) > epsilon
            then g\<lparr>aw := trunc (rnd (rnd (ht * aspect_ratio x) + 1 / 2))\<rparr>
            else if rnd (aspect_ratio x - current) > epsilon
            then g\<lparr>ah := trunc (rnd (rnd (wd / aspect_ratio x) + 1 / 2))\<rparr>
            else g)
      else g)"

definition client_resize ::
  "rounding \<Rightarrow> env \<Rightarrow> nat \<Rightarrow> area \<Rightarrow> bool \<Rightarrow> bool \<Rightarrow> world \<Rightarrow> bool \<times> world" where
  "client_resize rnd env c g honor_hints silent w =
     (let x = cl w c in
      if honor_hints \<and> \<not> bars_fit x g then (False, w)
      else
        (let g = (if honor_hints then client_apply_size_hints rnd x g else g);
             g = aspect_ratio_fix rnd x g
         in if \<not> bars_fit x g then (False, w)
            else if aw g = 0 \<or> ah g = 0 then (False, w)
            else if \<not> AREA_EQUAL (geometry x) g then (True, client_resize_do env c g silent False w)
            else (False, w)))"

definition titlebar_property :: "nat \<Rightarrow> string" where
  "titlebar_property bar =
     (if bar = BAR_TOP then ''property::titlebar_top''
      else if bar = BAR_BOTTOM then ''property::titlebar_bottom''
      else if bar = BAR_RIGHT then ''property::titlebar_right'' else ''property::titlebar_left'')"

definition titlebar_resize :: "env \<Rightarrow> nat \<Rightarrow> nat \<Rightarrow> int \<Rightarrow> world \<Rightarrow> world" where
  "titlebar_resize env c bar sz w =
     (let x = cl w c in
      if sz < 0 then w
      else if sz = tb_size x bar then w
      else
        (let change = sz - tb_size x bar;
             g = geometry x;
             g = (if bar = BAR_TOP \<or> bar = BAR_BOTTOM then g\<lparr>ah := ah g + change\<rparr>
                  else g\<lparr>aw := aw g + change\<rparr>);
             d = (\<lambda>b. if bar = b then change else 0);
             g = (if P_WIN_GRAVITY \<in> sh_flags (hints x) then
                    (let (gx, gy) = xwindow_translate_for_gravity (win_gravity (hints x))
                           (d BAR_LEFT) (d BAR_TOP) (d BAR_RIGHT) (d BAR_BOTTOM) (ax g) (ay g)
                     in g\<lparr>ax := gx, ay := gy\<rparr>)
                  else g);
             w = upd_client c (\<lambda>x. x\<lparr>tb_size := (tb_size x)(bar := to_u16 sz)\<rparr>) w;
             w = client_resize_do env c g False False w
         in emit env c (titlebar_property bar) [] w))"

abbreviation (input) MAX_X11_SIZE :: rat where "MAX_X11_SIZE \<equiv> 32767"

text \<open>
  The titlebar methods HANDLE_TITLEBAR makes: called without an argument, with nil, or with a
  number; the result is the size they return. None is the error for a number out of range.
\<close>

datatype bar_arg = NoArg | NilArg | NumArg rat

definition luaA_client_titlebar :: "env \<Rightarrow> nat \<Rightarrow> nat \<Rightarrow> bar_arg \<Rightarrow> world \<Rightarrow> (int \<times> world) option" where
  "luaA_client_titlebar env bar c a w =
     map_option
       (\<lambda>w. let w = call_env env (Native ''titlebar_get_drawable'' [LUser c, LInt (int bar)]) w
            in (tb_size (cl w c) bar, w))
       (case a of
          NoArg \<Rightarrow> Some w
        | NilArg \<Rightarrow> Some (titlebar_resize env c bar 0 w)
        | NumArg r \<Rightarrow>
            if r < 0 \<or> r > MAX_X11_SIZE then None else Some (titlebar_resize env c bar \<lceil>r\<rceil> w))"

subsection \<open>Geometry from Lua\<close>

text \<open>The fields of the table: nil, or their number.\<close>

record geo_table =
  gt_x :: "rat option"
  gt_y :: "rat option"
  gt_width :: "rat option"
  gt_height :: "rat option"

definition c_round :: "rat \<Rightarrow> int" where
  "c_round r = (if r < 0 then - \<lfloor>- r + 1 / 2\<rfloor> else \<lfloor>r + 1 / 2\<rfloor>)"

definition luaA_client_geometry_from_table :: "geo_table \<Rightarrow> client \<Rightarrow> area" where
  "luaA_client_geometry_from_table t x =
     (let num = (\<lambda>v. case v of None \<Rightarrow> 0 | Some r \<Rightarrow> r);
          width_from_table = num (gt_width t); height_from_table = num (gt_height t);
          gx = (case gt_x t of None \<Rightarrow> ax (geometry x) | Some r \<Rightarrow> c_round r);
          gy = (case gt_y t of None \<Rightarrow> ay (geometry x) | Some r \<Rightarrow> c_round r)
      in if client_isfixed x then box gx gy (aw (geometry x)) (ah (geometry x))
         else box gx gy
                (if width_from_table > 0 then \<lceil>width_from_table\<rceil> else aw (geometry x))
                (if height_from_table > 0 then \<lceil>height_from_table\<rceil> else ah (geometry x)))"

definition luaA_client_geometry ::
  "rounding \<Rightarrow> env \<Rightarrow> nat \<Rightarrow> geo_table option \<Rightarrow> world \<Rightarrow> area \<times> world" where
  "luaA_client_geometry rnd env c t w =
     (let w = (case t of
                 None \<Rightarrow> w
               | Some t \<Rightarrow> snd (client_resize rnd env c (luaA_client_geometry_from_table t (cl w c))
                              (size_hints_honor (cl w c)) False w))
      in (geometry (cl w c), w))"

definition luaA_client_set_geometry_silent ::
  "rounding \<Rightarrow> env \<Rightarrow> nat \<Rightarrow> geo_table option \<Rightarrow> world \<Rightarrow> area \<times> world" where
  "luaA_client_set_geometry_silent rnd env c t w =
     (let w = (case t of
                 None \<Rightarrow> w
               | Some t \<Rightarrow> snd (client_resize rnd env c (luaA_client_geometry_from_table t (cl w c))
                              (size_hints_honor (cl w c)) True w))
      in (geometry (cl w c), w))"

text \<open>None is the error for a size out of range.\<close>

definition luaA_client_apply_size_hints :: "rounding \<Rightarrow> client \<Rightarrow> rat \<Rightarrow> rat \<Rightarrow> (int \<times> int) option" where
  "luaA_client_apply_size_hints rnd x wd ht =
     (let ok = (\<lambda>r. 0 \<le> r \<and> r \<le> MAX_X11_SIZE) in
      if \<not> client_isfixed x \<and> (\<not> ok wd \<or> \<not> ok ht) then None
      else
        (let g = geometry x;
             g = (if \<not> client_isfixed x then g\<lparr>aw := \<lceil>wd\<rceil>, ah := \<lceil>ht\<rceil>\<rparr> else g);
             g = (if size_hints_honor x then client_apply_size_hints rnd x g else g)
         in Some (aw g, ah g)))"

subsection \<open>Moving a client to a screen\<close>

definition fit_on_screen :: "nat \<Rightarrow> area \<Rightarrow> area \<Rightarrow> area \<Rightarrow> world \<Rightarrow> area" where
  "fit_on_screen s from to g w =
     (let g = g\<lparr>ax := ax to + ax g - ax from, ay := ay to + ay g - ay from\<rparr>;
          g = (if aw g > aw to then g\<lparr>aw := aw to\<rparr> else g);
          g = (if ah g > ah to then g\<lparr>ah := ah to\<rparr> else g);
          g = (if ax g + aw g > ax to + aw to then g\<lparr>ax := ax to + aw to - aw g\<rparr> else g);
          g = (if ay g + ah g > ay to + ah to then g\<lparr>ay := ay to + ah to - ah g\<rparr> else g)
      in if \<not> screen_area_in_screen s g w then g\<lparr>ax := ax to, ay := ay to\<rparr> else g)"

definition screen_client_moveto ::
  "rounding \<Rightarrow> env \<Rightarrow> nat \<Rightarrow> nat option \<Rightarrow> bool \<Rightarrow> world \<Rightarrow> world" where
  "screen_client_moveto rnd env c new_screen doresize w =
     (let old_screen = c_screen (cl w c) in
      if new_screen = old_screen then w
      else
        (let had_focus = (focus_client w = Some c);
             w = screen_reassign env c new_screen w
         in if \<not> doresize then screen_emit_moved env c old_screen had_focus w
            else
              (case new_screen of
                 None \<Rightarrow> screen_emit_moved env c old_screen had_focus w
               | Some s \<Rightarrow>
                   (let to = s_geometry (sc w s);
                        from = (case old_screen of Some p \<Rightarrow> s_geometry (sc w p) | None \<Rightarrow> to);
                        g = fit_on_screen s from to (geometry (cl w c)) w;
                        w = snd (client_resize rnd env c g False False w)
                    in screen_emit_moved env c old_screen had_focus w))))"

definition luaA_client_set_screen ::
  "rounding \<Rightarrow> env \<Rightarrow> (lval \<Rightarrow> nat option) \<Rightarrow> nat \<Rightarrow> lval \<Rightarrow> world \<Rightarrow> world option" where
  "luaA_client_set_screen rnd env is_screen c v w =
     (if v = LNil then Some w
      else map_option (\<lambda>s. screen_client_moveto rnd env c s True w) (luaA_checkscreen is_screen v w))"

lemma moveto_stay: "screen_client_moveto rnd env c s False w = screen_client_moveto_stay env c s w"
  by (simp add: screen_client_moveto_def screen_client_moveto_stay_def Let_def)

subsection \<open>Titlebars tile the frame\<close>

definition bars_sane :: "client \<Rightarrow> bool" where
  "bars_sane x \<longleftrightarrow> (\<forall>b. 0 \<le> tb_size x b) \<and> bars_fit x (geometry x)"

definition content_area :: "client \<Rightarrow> area" where
  "content_area x =
     client_remove_titlebar_geometry x (box (client_border x) (client_border x) (aw (geometry x)) (ah (geometry x)))"

lemma titlebars_tile:
  assumes "bars_sane x"
  shows "length (filter (\<lambda>a. in_box px py a) (content_area x # map (titlebar_get_area x) [0..<4])) =
    (if in_box px py (box (client_border x) (client_border x) (aw (geometry x)) (ah (geometry x))) then 1 else 0)"
proof -
  have four: "[0..<4] = [0, 1, 2, 3 :: nat]" by (simp add: upt_rec)
  define l r t b where "l = tb_size x 3" and "r = tb_size x (Suc 0)" and "t = tb_size x 0" and "b = tb_size x 2"
  have "0 \<le> l" "0 \<le> r" "0 \<le> t" "0 \<le> b" "l + r \<le> aw (geometry x)" "t + b \<le> ah (geometry x)"
    using assms by (simp_all add: bars_sane_def bars_fit_def l_def r_def t_def b_def)
  then show ?thesis
    by (simp add: four titlebar_get_area_def content_area_def Let_def client_remove_titlebar_geometry_def
        in_box_def l_def [symmetric] r_def [symmetric] t_def [symmetric] b_def [symmetric]) linarith
qed

text \<open>
  The titlebars tile the frame. When their sizes fit the client's geometry every point
  inside the borders lies in exactly one of the four titlebars and the content area, and none
  of them reaches outside.
\<close>

theorem titlebars_tile_frame:
  assumes "bars_sane x"
  shows "length (filter (\<lambda>a. in_box px py a) (content_area x # map (titlebar_get_area x) [0..<4])) =
    (if in_box px py (box (client_border x) (client_border x) (aw (geometry x)) (ah (geometry x))) then 1 else 0)"
  by (rule titlebars_tile [OF assms])

definition barred :: client where
  "barred = client0\<lparr>geometry := box 10 10 100 80, tb_size := (\<lambda>b. if b = BAR_TOP then 20 else 2), border_width := 3\<rparr>"

theorem titlebars_tile_frame_witness:
  "length (filter (\<lambda>a. in_box 50 5 a) (content_area barred # map (titlebar_get_area barred) [0..<4])) = 1"
  using titlebars_tile_frame [of barred 50 5]
  by (simp add: barred_def bars_sane_def bars_fit_def in_box_def client_border_def client0_def)

text \<open>
  client_get_drawable_offset answers with the titlebar the point is in and the point's
  place in it, and with nothing exactly when the point is in no titlebar.
\<close>

theorem drawable_offset_correct:
  assumes "bars_sane x"
  shows "client_get_drawable_offset x px py = Some (bar, qx, qy) \<longleftrightarrow>
    bar < 4 \<and> in_box px py (titlebar_get_area x bar) \<and>
    qx = px - ax (titlebar_get_area x bar) \<and> qy = py - ay (titlebar_get_area x bar)"
proof -
  have four: "[0..<4] = [0, 1, 2, 3 :: nat]" by (simp add: upt_rec)
  let ?in = "\<lambda>b. in_box px py (titlebar_get_area x b)"
  have loop: "drawable_offset_loop x bars px py =
      map_option (\<lambda>b. (b, px - ax (titlebar_get_area x b), py - ay (titlebar_get_area x b))) (find ?in bars)" for bars
    by (induction bars) (auto simp: Let_def in_box_def)
  have "length (filter (\<lambda>a. in_box px py a) (map (titlebar_get_area x) [0..<4])) \<le> 1"
    using titlebars_tile [OF assms, of px py] by (auto simp: filter_map comp_def split: if_splits)
  then have "\<not> (?in a \<and> ?in b)" if "a < b" "b < 4" for a b
    using that by (auto simp: four less_Suc_eq numeral_eq_Suc split: if_splits)
  then have "find ?in [0..<4] = Some bar \<longleftrightarrow> bar < 4 \<and> ?in bar"
    unfolding find_Some_iff by (auto simp: nth_upt)
  then show ?thesis by (auto simp: client_get_drawable_offset_def loop)
qed

theorem drawable_offset_correct_witness:
  "client_get_drawable_offset barred 50 5 = Some (BAR_TOP, 47, 2)"
  using drawable_offset_correct [of barred 50 5 BAR_TOP 47 2]
  by (simp add: barred_def bars_sane_def bars_fit_def in_box_def client_border_def client0_def titlebar_get_area_def)

subsection \<open>What resizing keeps\<close>

definition frame_of :: "nat \<Rightarrow> world \<Rightarrow> area \<times> (nat \<Rightarrow> int)" where
  "frame_of c w = (geometry (cl w c), tb_size (cl w c))"

interpretation frame: focus_view "frame_of c" for c
  by unfold_locales (simp_all add: frame_of_def settled_def)

lemma frame_moveto: "keeps env (frame_of c) \<Longrightarrow> frame_of c (screen_client_moveto_stay env d s w) = frame_of c w"
  by (simp add: screen_client_moveto_stay_def screen_emit_moved_def screen_reassign_def Let_def)
     (simp add: frame_of_def)

lemma frame_signals [simp]: "frame_of c (queue_geometry_signals d old new w) = frame_of c w"
  by (simp add: queue_geometry_signals_def Let_def)

lemma frame_bars: "keeps env (frame_of c) \<Longrightarrow> frame_of c (fold (update_titlebar env d g solved) bars w) = frame_of c w"
  by (induction bars arbitrary: w) (simp_all add: update_titlebar_def Let_def)

lemma frame_resize_do:
  assumes "keeps env (frame_of c)"
  shows "frame_of c (client_resize_do env c g silent solved w) = (g, tb_size (cl w c))"
proof -
  have "frame_of c (upd_client c (\<lambda>x. x\<lparr>geometry := g\<rparr>) w) = (g, tb_size (cl w c))" by (simp add: frame_of_def)
  then show ?thesis
    using assms frame_moveto [OF assms] frame_bars [OF assms]
    by (simp add: client_resize_do_def Let_def)
qed

text \<open>
  client_resize either does nothing and says so, or gives the client a geometry with room
  for its titlebars and no zero side, and says so; without hints and aspect ratio that is the
  geometry asked for. The titlebars of a client whose titlebars fit keep fitting.
\<close>

theorem client_resize_result:
  assumes "keeps env (frame_of c)"
  shows "case client_resize rnd env c g honor silent w of
      (False, w') \<Rightarrow> w' = w
    | (True, w') \<Rightarrow> geometry (cl w' c) \<noteq> geometry (cl w c) \<and> tb_size (cl w' c) = tb_size (cl w c) \<and>
        aw (geometry (cl w' c)) \<noteq> 0 \<and> ah (geometry (cl w' c)) \<noteq> 0 \<and>
        bars_fit (cl w' c) (geometry (cl w' c)) \<and>
        (\<not> honor \<longrightarrow> aspect_ratio (cl w c) \<le> 0 \<longrightarrow> geometry (cl w' c) = g)"
proof -
  have "geometry (cl (client_resize_do env c g' silent False w) c) = g'"
    "tb_size (cl (client_resize_do env c g' silent False w) c) = tb_size (cl w c)" for g'
    using frame_resize_do [OF assms, of g' silent False w] by (simp_all add: frame_of_def)
  then show ?thesis
    by (auto simp: client_resize_def Let_def bars_fit_def aspect_ratio_fix_def)
qed

theorem client_resize_result_witness:
  "fst (client_resize id idle 1 (box 0 0 30 0) False False world0) = False \<and>
   snd (client_resize id idle 1 (box 0 0 30 0) False False world0) = world0"
  using client_resize_result [where env = idle and c = 1 and rnd = id and g = "box 0 0 30 0" and
      honor = False and silent = False and w = world0]
  by (simp add: client_resize_def Let_def bars_fit_def aspect_ratio_fix_def world0_def client0_def)

text \<open>
  Changing a titlebar grows or shrinks the frame by exactly the difference, so the size of
  the window inside stays what it was, the titlebars keep fitting, and the size is the one set
  or, for a negative one, the old.
\<close>

theorem titlebar_resize_content:
  assumes "keeps env (frame_of c)" and "bars_sane (cl w c)" and "bar < 4" and "sz < 2 ^ 16"
  shows "let x = cl w c; x' = cl (titlebar_resize env c bar sz w) c in
    bars_sane x' \<and> tb_size x' = (tb_size x)(bar := if sz < 0 then tb_size x bar else sz) \<and>
    aw (client_remove_titlebar_geometry x' (geometry x')) = aw (client_remove_titlebar_geometry x (geometry x)) \<and>
    ah (client_remove_titlebar_geometry x' (geometry x')) = ah (client_remove_titlebar_geometry x (geometry x))"
proof (cases "sz < 0 \<or> sz = tb_size (cl w c) bar")
  case True
  then have "titlebar_resize env c bar sz w = w" by (auto simp: titlebar_resize_def Let_def)
  then show ?thesis using assms(2) True by (auto simp: Let_def)
next
  case False
  let ?x = "cl w c" and ?w = "titlebar_resize env c bar sz w"
  define g where "g = (if bar = BAR_TOP \<or> bar = BAR_BOTTOM
      then (geometry ?x)\<lparr>ah := ah (geometry ?x) + (sz - tb_size ?x bar)\<rparr>
      else (geometry ?x)\<lparr>aw := aw (geometry ?x) + (sz - tb_size ?x bar)\<rparr>)"
  have "to_u16 sz = sz" using False assms(4) by (intro to_u16_id) auto
  then have "frame_of c ?w = (g, (tb_size ?x)(bar := sz))"
    using False frame_resize_do [OF assms(1)] assms(1)
    by (simp add: titlebar_resize_def Let_def xwindow_translate_for_gravity_def g_def [symmetric])
  then have new: "geometry (cl ?w c) = g" "tb_size (cl ?w c) = (tb_size ?x)(bar := sz)"
    by (simp_all add: frame_of_def)
  have "bar = 0 \<or> bar = 1 \<or> bar = 2 \<or> bar = 3" using assms(3) by auto
  then show ?thesis using assms(2) False
    by (auto simp: Let_def new g_def bars_sane_def bars_fit_def client_remove_titlebar_geometry_def)
qed

theorem titlebar_resize_content_witness:
  "tb_size (cl (titlebar_resize idle 1 BAR_TOP 25 (world0\<lparr>cl := (\<lambda>_. barred)\<rparr>)) 1) BAR_TOP = 25"
  using titlebar_resize_content [of idle 1 "world0\<lparr>cl := (\<lambda>_. barred)\<rparr>" BAR_TOP 25]
  by (auto simp: Let_def barred_def bars_sane_def bars_fit_def)

subsection \<open>Size hints\<close>

lemma content_add_remove [simp]: "client_remove_titlebar_geometry x (client_add_titlebar_geometry x g) = g"
  by (simp add: client_remove_titlebar_geometry_def client_add_titlebar_geometry_def)

lemma increment_le: "increment_hint h (wd, ht) = (wd', ht') \<Longrightarrow> wd' \<le> wd \<and> ht' \<le> ht"
  by (auto simp: increment_hint_def Let_def split: if_splits)

lemma increment_nonneg:
  assumes "increment_hint h (wd, ht) = (wd', ht')" and "0 \<le> wd" "wd < 2 ^ 16" "0 \<le> ht" "ht < 2 ^ 16"
  shows "0 \<le> wd' \<and> 0 \<le> ht'"
proof -
  have "wd' = wd \<or> wd' = wd - wd mod \<bar>width_inc h\<bar>" "ht' = ht \<or> ht' = ht - ht mod \<bar>height_inc h\<bar>"
    using assms by (auto simp: increment_hint_def Let_def to_u16_id split: if_splits)
  then show ?thesis using assms(2,4) zmod_le_nonneg_dividend [of wd] zmod_le_nonneg_dividend [of ht] by auto
qed

lemma increment_dvd:
  assumes "increment_hint h (wd, ht) = (wd', ht')" and "P_RESIZE_INC \<in> sh_flags h"
    and "width_inc h \<noteq> 0" "height_inc h \<noteq> 0" and "0 \<le> wd" "wd < 2 ^ 16" "0 \<le> ht" "ht < 2 ^ 16"
  shows "width_inc h dvd wd' \<and> height_inc h dvd ht' \<and> 0 \<le> wd' \<and> 0 \<le> ht'"
proof -
  have eq: "wd' = wd - wd mod \<bar>width_inc h\<bar>" "ht' = ht - ht mod \<bar>height_inc h\<bar>"
    using assms by (auto simp: increment_hint_def Let_def to_u16_id)
  have "\<bar>width_inc h\<bar> dvd wd'" "\<bar>height_inc h\<bar> dvd ht'" unfolding eq by (simp_all add: dvd_minus_mod)
  moreover have "0 \<le> wd'" "0 \<le> ht'" unfolding eq using assms(3-8) by (simp_all add: zmod_le_nonneg_dividend)
  ultimately show ?thesis by simp
qed

lemma size_hints_content:
  assumes "\<not> fullscreen x"
  shows "\<exists>wd ht. increment_hint (hints x) (max_hint (hints x)
      (max wd (if P_MIN_SIZE \<in> sh_flags (hints x) then min_width (hints x)
               else if BASE_SIZE \<in> sh_flags (hints x) then base_width (hints x) else 0),
       max ht (if P_MIN_SIZE \<in> sh_flags (hints x) then min_height (hints x)
               else if BASE_SIZE \<in> sh_flags (hints x) then base_height (hints x) else 0))) =
    (aw (client_remove_titlebar_geometry x (client_apply_size_hints rnd x g)),
     ah (client_remove_titlebar_geometry x (client_apply_size_hints rnd x g)))"
  using assms by (simp add: client_apply_size_hints_def Let_def case_prod_beta) blast

text \<open>
  The size hints bound the window inside the titlebars whatever the rounding of doubles
  does: it is at most the maximum size, and with increments given and a maximum below 65536 its
  width and height are multiples of the increments.
\<close>

theorem size_hints_applied:
  assumes "\<not> fullscreen x" and "P_MAX_SIZE \<in> sh_flags (hints x)"
    and "0 < max_width (hints x)" "max_width (hints x) < 2 ^ 16"
    and "0 < max_height (hints x)" "max_height (hints x) < 2 ^ 16"
    and "P_MIN_SIZE \<in> sh_flags (hints x)" "0 \<le> min_width (hints x)" "0 \<le> min_height (hints x)"
  shows "let c = client_remove_titlebar_geometry x (client_apply_size_hints rnd x g) in
    0 \<le> aw c \<and> aw c \<le> max_width (hints x) \<and> 0 \<le> ah c \<and> ah c \<le> max_height (hints x) \<and>
    (P_RESIZE_INC \<in> sh_flags (hints x) \<longrightarrow> width_inc (hints x) \<noteq> 0 \<longrightarrow> height_inc (hints x) \<noteq> 0 \<longrightarrow>
       width_inc (hints x) dvd aw c \<and> height_inc (hints x) dvd ah c)"
proof -
  let ?h = "hints x" and ?c = "client_remove_titlebar_geometry x (client_apply_size_hints rnd x g)"
  obtain wd ht where inc: "increment_hint ?h
      (max_hint ?h (max wd (min_width ?h), max ht (min_height ?h))) = (aw ?c, ah ?c)"
    using size_hints_content [OF assms(1), of rnd g] assms(7) by auto
  define mw mh where "mw = min (max wd (min_width ?h)) (max_width ?h)"
    and "mh = min (max ht (min_height ?h)) (max_height ?h)"
  have mid: "increment_hint ?h (mw, mh) = (aw ?c, ah ?c)"
    using inc assms(2,3,5) by (simp add: max_hint_def mw_def mh_def)
  have range: "0 \<le> mw" "mw \<le> max_width ?h" "0 \<le> mh" "mh \<le> max_height ?h"
    using assms(3-9) by (auto simp: mw_def mh_def)
  have le: "aw ?c \<le> mw" "ah ?c \<le> mh" using increment_le [OF mid] by auto
  have small: "mw < 2 ^ 16" "mh < 2 ^ 16" using range assms(4,6) by auto
  have nonneg: "0 \<le> aw ?c \<and> 0 \<le> ah ?c"
    by (rule increment_nonneg [OF mid range(1) small(1) range(3) small(2)])
  show ?thesis using le range nonneg increment_dvd [OF mid _ _ _ range(1) small(1) range(3) small(2)]
    by (simp add: Let_def)
qed

definition terminal :: client where
  "terminal = client0\<lparr>geometry := box 0 0 500 300, hints := (hints client0)\<lparr>
     sh_flags := {P_MIN_SIZE, P_MAX_SIZE, BASE_SIZE, P_RESIZE_INC}, min_width := 34, min_height := 24,
     base_width := 34, base_height := 24, max_width := 1000, max_height := 1000,
     width_inc := 10, height_inc := 20\<rparr>\<rparr>"

theorem size_hints_applied_witness:
  "aw (client_remove_titlebar_geometry terminal (client_apply_size_hints id terminal (box 0 0 123 456))) \<le> 1000"
  using size_hints_applied [of terminal id "box 0 0 123 456"]
  by (simp add: terminal_def client0_def Let_def)

text \<open>
  The size increments ignore the base size. A client whose smallest size is its base size,
  as terminals have it, asks for a legal size, the base plus a multiple of the increment, and
  gets less: the remainder of the base size is cut off, down to a size below the minimum. The
  code calls unsigned_subtract for the base size and drops the result.
\<close>

theorem size_hints_ignore_base:
  assumes "\<not> fullscreen x" and "sh_flags (hints x) = {P_MIN_SIZE, BASE_SIZE, P_RESIZE_INC}"
    and "base_width (hints x) = min_width (hints x)" and "0 < width_inc (hints x)" and "height_inc (hints x) \<noteq> 0"
    and "0 \<le> min_width (hints x)" and "0 \<le> k"
    and "aw (client_remove_titlebar_geometry x g) = min_width (hints x) + k * width_inc (hints x)"
    and "aw (client_remove_titlebar_geometry x g) < 2 ^ 16"
  shows "aw (client_remove_titlebar_geometry x (client_apply_size_hints rnd x g)) =
    aw (client_remove_titlebar_geometry x g) - min_width (hints x) mod width_inc (hints x)"
proof -
  let ?h = "hints x" and ?w = "aw (client_remove_titlebar_geometry x g)"
  have "max ?w (min_width ?h) = ?w" using assms(4,7,8) by simp
  moreover have "?w mod width_inc ?h = min_width ?h mod width_inc ?h" using assms(8) by simp
  moreover have "to_u16 ?w = ?w" using assms(4,6-9) by (intro to_u16_id) auto
  ultimately show ?thesis using assms(1-5)
    by (simp add: client_apply_size_hints_def aspect_hint_def max_hint_def increment_hint_def Let_def)
qed

theorem size_hints_ignore_base_witness:
  "aw (client_remove_titlebar_geometry (terminal\<lparr>hints := (hints terminal)\<lparr>sh_flags := {P_MIN_SIZE, BASE_SIZE, P_RESIZE_INC}\<rparr>\<rparr>)
     (client_apply_size_hints id (terminal\<lparr>hints := (hints terminal)\<lparr>sh_flags := {P_MIN_SIZE, BASE_SIZE, P_RESIZE_INC}\<rparr>\<rparr>)
       (box 0 0 34 24))) = 30"
  using size_hints_ignore_base
    [of "terminal\<lparr>hints := (hints terminal)\<lparr>sh_flags := {P_MIN_SIZE, BASE_SIZE, P_RESIZE_INC}\<rparr>\<rparr>" 0 "box 0 0 34 24" id]
  by (simp add: terminal_def client0_def client_remove_titlebar_geometry_def)

subsection \<open>Moving to a screen puts the client on it\<close>

lemma fit_on_screen_overlaps:
  assumes "0 < aw g" "0 < ah g" "0 < aw to" "0 < ah to" and "s_geometry (sc w s) = to"
  shows "screen_area_in_screen s (fit_on_screen s from to g w) w \<and>
    aw (fit_on_screen s from to g w) = min (aw g) (aw to) \<and> ah (fit_on_screen s from to g w) = min (ah g) (ah to)"
  using assms by (auto simp: fit_on_screen_def Let_def screen_area_in_screen_def)

lemma fit_on_screen_same_place:
  assumes "ax from \<le> ax g" "ay from \<le> ay g" "ax g - ax from + aw g \<le> aw to" "ay g - ay from + ah g \<le> ah to"
    and "0 < aw g" "0 < ah g" and "s_geometry (sc w s) = to"
  shows "fit_on_screen s from to g w = g\<lparr>ax := ax to + (ax g - ax from), ay := ay to + (ay g - ay from)\<rparr>"
  using assms by (simp add: fit_on_screen_def Let_def screen_area_in_screen_def algebra_simps)

text \<open>
  The place of a client, and what handlers have to leave alone of it: everything while it is neither
  fullscreen nor maximized, which they do not change either, and nothing else of it otherwise. The
  handler of property::screen in lua/awful/permissions/init.lua re-places maximized clients.
\<close>

definition place_of :: "nat \<Rightarrow> world \<Rightarrow> (area \<times> (nat \<Rightarrow> int)) \<times> nat option \<times> (nat \<Rightarrow> screen)" where
  "place_of c w = (frame_of c w, c_screen (cl w c), sc w)"

definition filled :: "client \<Rightarrow> bool" where
  "filled x \<longleftrightarrow> fullscreen x \<or> maximized x \<or> maximized_vertical x \<or> maximized_horizontal x"

definition free_place :: "nat \<Rightarrow> world \<Rightarrow> ((area \<times> (nat \<Rightarrow> int)) \<times> nat option \<times> (nat \<Rightarrow> screen)) option" where
  "free_place c w = (if filled (cl w c) then None else Some (place_of c w))"

interpretation place: focus_view "free_place c" for c
  by unfold_locales (auto simp: free_place_def filled_def place_of_def frame_of_def settled_def)

lemma free_place_Some: "free_place c w = Some p \<longleftrightarrow> \<not> filled (cl w c) \<and> place_of c w = p"
  by (simp add: free_place_def)

lemma place_emit_moved: "keeps env (free_place c) \<Longrightarrow> free_place c (screen_emit_moved env d s f w) = free_place c w"
  by (simp add: screen_emit_moved_def Let_def)

lemma place_need_update [simp]: "place_of c (banning_need_update env w) = place_of c w" "filled (cl (banning_need_update env w) c) = filled (cl w c)"
  by (simp_all add: place_of_def frame_of_def)

lemma place_reassign:
  "place_of c (screen_reassign env c s w) = (frame_of c w, s, sc w)" "filled (cl (screen_reassign env c s w) c) = filled (cl w c)"
  by (auto simp: screen_reassign_def Let_def) (auto simp: place_of_def frame_of_def filled_def)

lemma place_bars: "keeps env (free_place c) \<Longrightarrow> free_place c (fold (update_titlebar env d g solved) bars w) = free_place c w"
  by (induction bars arbitrary: w) (simp_all add: update_titlebar_def Let_def)

lemma place_signals [simp]: "free_place c (queue_geometry_signals d old new w) = free_place c w"
  by (simp add: queue_geometry_signals_def Let_def)

lemma place_resize_do:
  assumes "keeps env (free_place c)" and "c_screen (cl w c) = Some s" and "screen_area_in_screen s g w"
    and "\<not> filled (cl w c)"
  shows "free_place c (client_resize_do env c g silent solved w) = Some ((g, tb_size (cl w c)), Some s, sc w)"
proof -
  have up: "free_place c (upd_client c (\<lambda>x. x\<lparr>geometry := g\<rparr>) w) = Some ((g, tb_size (cl w c)), Some s, sc w)"
    using assms(2,4) by (simp add: free_place_def filled_def place_of_def frame_of_def)
  have stay: "free_place c (screen_client_moveto_stay env c (Some s) v) = free_place c v"
    if "free_place c v = Some (p, Some s, q)" for v p q
    using that by (simp add: screen_client_moveto_stay_def free_place_Some place_of_def)
  show ?thesis
    using up assms(1,2,3) place_bars [OF assms(1)] stay
    by (simp add: client_resize_do_def Let_def)
qed

text \<open>
  C34: Moving a client to another screen with resizing puts it on that screen: its screen is the
  new one and its geometry overlaps it, not larger than the screen and at the same place relative
  to the screen when it fits there. This is for a client that is neither fullscreen nor maximized in
  any way, that has no aspect ratio and whose titlebars fit the new size, as client_resize refuses
  or changes the geometry otherwise; and for handlers that leave the geometry, the titlebars and
  the screen of such a client alone while it moves.
\<close>

theorem moveto_lands_on_screen:
  assumes "keeps env (free_place c)" and "c_screen (cl w c) \<noteq> Some s" and "\<not> filled (cl w c)"
    and "0 < aw (geometry (cl w c))" "0 < ah (geometry (cl w c))"
    and "0 < aw (s_geometry (sc w s))" "0 < ah (s_geometry (sc w s))"
    and "aspect_ratio (cl w c) \<le> 0"
    and "bars_fit (cl w c) (box 0 0 (min (aw (geometry (cl w c))) (aw (s_geometry (sc w s))))
      (min (ah (geometry (cl w c))) (ah (s_geometry (sc w s)))))"
  shows "let w' = screen_client_moveto rnd env c (Some s) True w; from = (case c_screen (cl w c) of
        Some p \<Rightarrow> s_geometry (sc w p) | None \<Rightarrow> s_geometry (sc w s));
      g = geometry (cl w c); to = s_geometry (sc w s) in
    c_screen (cl w' c) = Some s \<and> screen_area_in_screen s (geometry (cl w' c)) w' \<and>
    aw (geometry (cl w' c)) = min (aw g) (aw to) \<and> ah (geometry (cl w' c)) = min (ah g) (ah to) \<and>
    (ax from \<le> ax g \<and> ay from \<le> ay g \<and> ax g - ax from + aw g \<le> aw to \<and> ay g - ay from + ah g \<le> ah to \<longrightarrow>
       geometry (cl w' c) = g\<lparr>ax := ax to + (ax g - ax from), ay := ay to + (ay g - ay from)\<rparr>)"
proof -
  let ?g = "geometry (cl w c)" and ?to = "s_geometry (sc w s)"
  define src where "src = (case c_screen (cl w c) of Some p \<Rightarrow> s_geometry (sc w p) | None \<Rightarrow> ?to)"
  define v where "v = screen_reassign env c (Some s) w"
  have v: "geometry (cl v c) = ?g" "tb_size (cl v c) = tb_size (cl w c)" "c_screen (cl v c) = Some s" "sc v = sc w"
    "\<not> filled (cl v c)"
    using place_reassign [where c = c and env = env and s = "Some s" and w = w] assms(3) by (simp_all add: v_def place_of_def frame_of_def)
  have asp: "aspect_ratio (cl v c) \<le> 0"
    using assms(8) by (simp add: v_def screen_reassign_def Let_def)
  define f where "f = fit_on_screen s src ?to ?g v"
  have f: "screen_area_in_screen s f v" "aw f = min (aw ?g) (aw ?to)" "ah f = min (ah ?g) (ah ?to)"
    using fit_on_screen_overlaps [OF assms(4-7), of v s src] v(4) by (simp_all add: f_def)
  have fit: "bars_fit (cl v c) f" using assms(9) v(2) f(2,3) by (simp add: bars_fit_def)
  let ?r = "snd (client_resize rnd env c f False False v)"
  have "aspect_ratio_fix rnd (cl v c) f = f" using asp by (simp add: aspect_ratio_fix_def)
  moreover have "aw f \<noteq> 0" "ah f \<noteq> 0" using f(2,3) assms(4-7) by (simp_all add: min_def)
  ultimately have "?r = (if ?g = f then v else client_resize_do env c f False False v)"
    unfolding client_resize_def v(1) Let_def using fit by simp
  moreover have "free_place c v = Some ((?g, tb_size (cl w c)), Some s, sc w)"
    using v by (simp add: free_place_def place_of_def frame_of_def)
  ultimately have "free_place c ?r = Some ((f, tb_size (cl w c)), Some s, sc w)"
    using place_resize_do [OF assms(1) v(3) f(1) v(5)] v(2,4) by simp
  moreover have "screen_client_moveto rnd env c (Some s) True w =
      screen_emit_moved env c (c_screen (cl w c)) (focus_client w = Some c) ?r"
    using assms(2) v by (auto simp: screen_client_moveto_def Let_def v_def [symmetric] f_def src_def split: option.splits)
  ultimately have "free_place c (screen_client_moveto rnd env c (Some s) True w) = Some ((f, tb_size (cl w c)), Some s, sc w)"
    using place_emit_moved [OF assms(1)] by simp
  then have place: "place_of c (screen_client_moveto rnd env c (Some s) True w) = ((f, tb_size (cl w c)), Some s, sc w)"
    by (simp add: free_place_Some)
  have "f = ?g\<lparr>ax := ax ?to + (ax ?g - ax src), ay := ay ?to + (ay ?g - ay src)\<rparr>"
    if "ax src \<le> ax ?g \<and> ay src \<le> ay ?g \<and> ax ?g - ax src + aw ?g \<le> aw ?to \<and> ay ?g - ay src + ah ?g \<le> ah ?to"
    using fit_on_screen_same_place [of src ?g ?to v s] that assms(4,5) v(4) unfolding f_def by simp
  then show ?thesis using place f v(4)
    by (simp add: Let_def place_of_def frame_of_def src_def screen_area_in_screen_def)
qed

theorem moveto_lands_on_screen_witness:
  "c_screen (cl (screen_client_moveto id idle 1 (Some 8) True
      (two_screens\<lparr>cl := (\<lambda>_. client0\<lparr>geometry := box 10 10 100 80, c_screen := Some 7\<rparr>)\<rparr>)) 1) = Some 8"
  using moveto_lands_on_screen [where env = idle and c = 1 and s = 8 and rnd = id and
      w = "two_screens\<lparr>cl := (\<lambda>_. client0\<lparr>geometry := box 10 10 100 80, c_screen := Some 7\<rparr>)\<rparr>"]
  by (simp add: two_screens_sel Let_def bars_fit_def client0_def filled_def)

subsection \<open>Views no resizing touches\<close>

locale quiet_view = focus_view view for view :: "world \<Rightarrow> 'v" +
  assumes view_geometry: "view (upd_client c (\<lambda>x. x\<lparr>geometry := g\<rparr>) w) = view w"
    and view_screen: "view (upd_client c (\<lambda>x. x\<lparr>c_screen := s\<rparr>) w) = view w"
    and view_mon: "view (upd_client c (\<lambda>x. x\<lparr>c_mon := m\<rparr>) w) = view w"
begin

lemma view_moveto_stay [simp]: "keeps env view \<Longrightarrow> view (screen_client_moveto_stay env c s w) = view w"
  by (simp add: screen_client_moveto_stay_def screen_emit_moved_def screen_reassign_def Let_def
      view_screen view_mon)

lemma view_signals [simp]: "view (queue_geometry_signals c old new w) = view w"
  by (simp add: queue_geometry_signals_def Let_def)

lemma view_bars [simp]: "keeps env view \<Longrightarrow> view (fold (update_titlebar env c g solved) bars w) = view w"
  by (induction bars arbitrary: w) (simp_all add: update_titlebar_def Let_def)

lemma view_resize_do [simp]: "keeps env view \<Longrightarrow> view (client_resize_do env c g silent solved w) = view w"
  by (simp add: client_resize_do_def Let_def view_geometry)

lemma view_resize [simp]: "keeps env view \<Longrightarrow> view (snd (client_resize rnd env c g h silent w)) = view w"
  by (simp add: client_resize_def Let_def)

lemma view_moveto [simp]: "keeps env view \<Longrightarrow> view (screen_client_moveto rnd env c s r w) = view w"
  by (simp add: screen_client_moveto_def screen_emit_moved_def screen_reassign_def Let_def
      view_screen view_mon split: option.split)

end

end
