(* ===== verification/ClientState.thy ===== *)
theory ClientState
  imports Stack Tags Geometry
begin

text \<open>
  The state of a client: the layer flags (above, below, ontop, fullscreen), the maximised
  states, the plain properties, unmanaging, swapping and the client list, all of
  src/objects/client.c. The lemmas show that at most one layer flag is set at a time, the
  transitions of the maximised states, and that unmanaging forgets a client everywhere.
\<close>

subsection \<open>Plain properties\<close>

text \<open>The setters DO_CLIENT_SET_PROPERTY makes.\<close>

definition DO_CLIENT_SET_PROPERTY ::
  "(client \<Rightarrow> 'v) \<Rightarrow> ('v \<Rightarrow> client \<Rightarrow> client) \<Rightarrow> string \<Rightarrow> env \<Rightarrow> nat \<Rightarrow> 'v \<Rightarrow> world \<Rightarrow> world" where
  "DO_CLIENT_SET_PROPERTY prop upd signal env c value w =
     (if prop (cl w c) \<noteq> value then emit env c signal [] (upd_client c (upd value) w) else w)"

definition client_set_group_window :: "env \<Rightarrow> nat \<Rightarrow> nat \<Rightarrow> world \<Rightarrow> world" where
  "client_set_group_window =
     DO_CLIENT_SET_PROPERTY group_window (\<lambda>v x. x\<lparr>group_window := v\<rparr>) ''property::group_window''"

definition client_set_type :: "env \<Rightarrow> nat \<Rightarrow> nat \<Rightarrow> world \<Rightarrow> world" where
  "client_set_type = DO_CLIENT_SET_PROPERTY c_type (\<lambda>v x. x\<lparr>c_type := v\<rparr>) ''property::type''"

definition client_set_pid :: "env \<Rightarrow> nat \<Rightarrow> nat \<Rightarrow> world \<Rightarrow> world" where
  "client_set_pid = DO_CLIENT_SET_PROPERTY c_pid (\<lambda>v x. x\<lparr>c_pid := v\<rparr>) ''property::pid''"

definition client_set_skip_taskbar :: "env \<Rightarrow> nat \<Rightarrow> bool \<Rightarrow> world \<Rightarrow> world" where
  "client_set_skip_taskbar =
     DO_CLIENT_SET_PROPERTY skip_taskbar (\<lambda>v x. x\<lparr>skip_taskbar := v\<rparr>) ''property::skip_taskbar''"

text \<open>The setters of owned strings DO_CLIENT_SET_STRING_PROPERTY2 makes.\<close>

definition DO_CLIENT_SET_STRING_PROPERTY2 ::
  "(client \<Rightarrow> string option) \<Rightarrow> (string option \<Rightarrow> client \<Rightarrow> client) \<Rightarrow> string
     \<Rightarrow> env \<Rightarrow> nat \<Rightarrow> string option \<Rightarrow> world \<Rightarrow> world" where
  "DO_CLIENT_SET_STRING_PROPERTY2 prop upd signal env c value w =
     (if A_STREQ (prop (cl w c)) value then w
      else emit env c signal [] (upd_client c (upd value) w))"

definition client_set_name :: "env \<Rightarrow> nat \<Rightarrow> string option \<Rightarrow> world \<Rightarrow> world" where
  "client_set_name = DO_CLIENT_SET_STRING_PROPERTY2 c_name (\<lambda>v x. x\<lparr>c_name := v\<rparr>) ''property::name''"

definition client_set_alt_name :: "env \<Rightarrow> nat \<Rightarrow> string option \<Rightarrow> world \<Rightarrow> world" where
  "client_set_alt_name = DO_CLIENT_SET_STRING_PROPERTY2 alt_name (\<lambda>v x. x\<lparr>alt_name := v\<rparr>) ''property::name''"

definition client_set_icon_name :: "env \<Rightarrow> nat \<Rightarrow> string option \<Rightarrow> world \<Rightarrow> world" where
  "client_set_icon_name =
     DO_CLIENT_SET_STRING_PROPERTY2 icon_name (\<lambda>v x. x\<lparr>icon_name := v\<rparr>) ''property::icon_name''"

definition client_set_alt_icon_name :: "env \<Rightarrow> nat \<Rightarrow> string option \<Rightarrow> world \<Rightarrow> world" where
  "client_set_alt_icon_name =
     DO_CLIENT_SET_STRING_PROPERTY2 alt_icon_name (\<lambda>v x. x\<lparr>alt_icon_name := v\<rparr>) ''property::icon_name''"

definition client_set_startup_id :: "env \<Rightarrow> nat \<Rightarrow> string option \<Rightarrow> world \<Rightarrow> world" where
  "client_set_startup_id =
     DO_CLIENT_SET_STRING_PROPERTY2 startup_id (\<lambda>v x. x\<lparr>startup_id := v\<rparr>) ''property::startup_id''"

definition client_set_role :: "env \<Rightarrow> nat \<Rightarrow> string option \<Rightarrow> world \<Rightarrow> world" where
  "client_set_role = DO_CLIENT_SET_STRING_PROPERTY2 role (\<lambda>v x. x\<lparr>role := v\<rparr>) ''property::role''"

definition client_set_machine :: "env \<Rightarrow> nat \<Rightarrow> string option \<Rightarrow> world \<Rightarrow> world" where
  "client_set_machine =
     DO_CLIENT_SET_STRING_PROPERTY2 machine (\<lambda>v x. x\<lparr>machine := v\<rparr>) ''property::machine''"

definition client_set_class_instance ::
  "env \<Rightarrow> nat \<Rightarrow> string option \<Rightarrow> string option \<Rightarrow> world \<Rightarrow> world" where
  "client_set_class_instance env c cls inst w =
     (let w = upd_client c (\<lambda>x. x\<lparr>c_class := None, c_instance := None\<rparr>) w;
          w = upd_client c (\<lambda>x. x\<lparr>c_class := a_strdup cls\<rparr>) w;
          w = emit env c ''property::class'' [] w;
          w = upd_client c (\<lambda>x. x\<lparr>c_instance := a_strdup inst\<rparr>) w
      in emit env c ''property::instance'' [] w)"

definition client_emit_scanned :: "env \<Rightarrow> world \<Rightarrow> world" where
  "client_emit_scanned env w = call_env env (EmitClass ''client'' ''scanned'' []) w"

definition client_emit_scanning :: "env \<Rightarrow> world \<Rightarrow> world" where
  "client_emit_scanning env w = call_env env (EmitClass ''client'' ''scanning'' []) w"

subsection \<open>The layer flags\<close>

text \<open>
  The four setters call each other to clear the other flags, always with false, on which they
  call no setter: the recursion ends.
\<close>

function client_set_fullscreen :: "env \<Rightarrow> nat \<Rightarrow> bool \<Rightarrow> world \<Rightarrow> world"
  and client_set_above :: "env \<Rightarrow> nat \<Rightarrow> bool \<Rightarrow> world \<Rightarrow> world"
  and client_set_below :: "env \<Rightarrow> nat \<Rightarrow> bool \<Rightarrow> world \<Rightarrow> world"
  and client_set_ontop :: "env \<Rightarrow> nat \<Rightarrow> bool \<Rightarrow> world \<Rightarrow> world" where
  "client_set_fullscreen env c s w =
     (if fullscreen (cl w c) \<noteq> s then
        (let w = (if s then
                    (let w = upd_client c (\<lambda>x. x\<lparr>prev_geometry := geometry x\<rparr>) w;
                         w = client_set_below env c False w;
                         w = client_set_above env c False w
                     in client_set_ontop env c False w)
                  else w);
             w = upd_client c (\<lambda>x. x\<lparr>fullscreen := s\<rparr>) w;
             w = emit env c ''request::geometry'' [LStr ''fullscreen''] w;
             w = emit env c ''property::fullscreen'' [] w;
             w = (if toplevel_handle (cl w c)
                  then call_env env (Native ''foreign_toplevel_set_fullscreen'' [LUser c, LBool s]) w else w);
             w = client_resize_do env c (geometry (cl w c)) False False w
         in stack_windows w)
      else w)"
| "client_set_above env c s w =
     (if above (cl w c) \<noteq> s then
        (let w = (if s then
                    (let w = client_set_below env c False w;
                         w = client_set_ontop env c False w
                     in client_set_fullscreen env c False w)
                  else w);
             w = upd_client c (\<lambda>x. x\<lparr>above := s\<rparr>) w
         in emit env c ''property::above'' [] (stack_windows w))
      else w)"
| "client_set_below env c s w =
     (if below (cl w c) \<noteq> s then
        (let w = (if s then
                    (let w = client_set_above env c False w;
                         w = client_set_ontop env c False w
                     in client_set_fullscreen env c False w)
                  else w);
             w = upd_client c (\<lambda>x. x\<lparr>below := s\<rparr>) w
         in emit env c ''property::below'' [] (stack_windows w))
      else w)"
| "client_set_ontop env c s w =
     (if ontop (cl w c) \<noteq> s then
        (let w = (if s then
                    (let w = client_set_above env c False w;
                         w = client_set_below env c False w
                     in client_set_fullscreen env c False w)
                  else w);
             w = upd_client c (\<lambda>x. x\<lparr>ontop := s\<rparr>) w
         in emit env c ''property::ontop'' [] (stack_windows w))
      else w)"
  by pat_completeness auto
termination
  by (relation "measure (case_sum
        (case_sum (\<lambda>(env, c, s, w). if s then 1 else 0) (\<lambda>(env, c, s, w). if s then 1 else 0))
        (case_sum (\<lambda>(env, c, s, w). if s then 1 else 0) (\<lambda>(env, c, s, w). if s then 1 else 0)))")
     simp_all

declare client_set_fullscreen.simps [simp del] client_set_above.simps [simp del]
  client_set_below.simps [simp del] client_set_ontop.simps [simp del]

definition client_set_modal :: "env \<Rightarrow> nat \<Rightarrow> bool \<Rightarrow> world \<Rightarrow> world" where
  "client_set_modal env c s w =
     (if modal (cl w c) \<noteq> s then
        emit env c ''property::modal'' [] (stack_windows (upd_client c (\<lambda>x. x\<lparr>modal := s\<rparr>) w))
      else w)"

subsection \<open>The maximised states\<close>

abbreviation (input) CLIENT_MAXIMIZED_V :: nat where "CLIENT_MAXIMIZED_V \<equiv> 1"
abbreviation (input) CLIENT_MAXIMIZED_H :: nat where "CLIENT_MAXIMIZED_H \<equiv> 2"
abbreviation (input) CLIENT_MAXIMIZED_BOTH :: nat where "CLIENT_MAXIMIZED_BOTH \<equiv> 4"

definition maximized_current :: "client \<Rightarrow> nat" where
  "maximized_current x =
     or (or (if maximized_vertical x then CLIENT_MAXIMIZED_V else 0)
            (if maximized_horizontal x then CLIENT_MAXIMIZED_H else 0))
        (if maximized x then CLIENT_MAXIMIZED_BOTH else 0)"

text \<open>current and not val, on the three bits used.\<close>

definition maximized_next :: "bool \<Rightarrow> nat \<Rightarrow> bool \<Rightarrow> nat \<Rightarrow> nat" where
  "maximized_next loop current s val =
     (let next = (if s then or val current else and current (7 - val))
      in if next = or CLIENT_MAXIMIZED_H CLIENT_MAXIMIZED_V \<and> \<not> loop then CLIENT_MAXIMIZED_BOTH else next)"

definition maximized_notify :: "env \<Rightarrow> nat \<Rightarrow> client \<Rightarrow> world \<Rightarrow> world" where
  "maximized_notify env c x w =
     (let w = (if maximized_horizontal x \<noteq> maximized_horizontal (cl w c)
               then emit env c ''property::maximized_horizontal'' [] w else w);
          w = (if maximized_vertical x \<noteq> maximized_vertical (cl w c)
               then emit env c ''property::maximized_vertical'' [] w else w)
      in if maximized x \<noteq> maximized (cl w c)
         then
           (let w = emit env c ''property::maximized'' [] w
            in if toplevel_handle (cl w c)
               then call_env env (Native ''foreign_toplevel_set_maximized''
                      [LUser c, LBool (maximized (cl w c))]) w
               else w)
         else w)"

definition client_set_maximized_common :: "env \<Rightarrow> nat \<Rightarrow> bool \<Rightarrow> string \<Rightarrow> nat \<Rightarrow> world \<Rightarrow> world" where
  "client_set_maximized_common env c s type val w =
     (let x = cl w c;
          current = maximized_current x;
          next = maximized_next (main_loop w) current s val
      in if current \<noteq> next then
           (let w = upd_client c (\<lambda>x. x\<lparr>maximized_horizontal := and next CLIENT_MAXIMIZED_H \<noteq> 0,
                      maximized_vertical := and next CLIENT_MAXIMIZED_V \<noteq> 0,
                      maximized := and next CLIENT_MAXIMIZED_BOTH \<noteq> 0\<rparr>) w;
                w = emit env c ''request::geometry'' [LStr type] w
            in stack_windows (maximized_notify env c x w))
         else w)"

definition client_set_maximized :: "env \<Rightarrow> nat \<Rightarrow> bool \<Rightarrow> world \<Rightarrow> world" where
  "client_set_maximized env c s w =
     client_set_maximized_common env c s ''maximized'' CLIENT_MAXIMIZED_BOTH w"

definition client_set_maximized_horizontal :: "env \<Rightarrow> nat \<Rightarrow> bool \<Rightarrow> world \<Rightarrow> world" where
  "client_set_maximized_horizontal env c s w =
     client_set_maximized_common env c s ''maximized_horizontal'' CLIENT_MAXIMIZED_H w"

definition client_set_maximized_vertical :: "env \<Rightarrow> nat \<Rightarrow> bool \<Rightarrow> world \<Rightarrow> world" where
  "client_set_maximized_vertical env c s w =
     client_set_maximized_common env c s ''maximized_vertical'' CLIENT_MAXIMIZED_V w"

subsection \<open>The client list\<close>

text \<open>The loop of luaA_client_swap: the indices of the two clients found.\<close>

fun swap_refs :: "nat \<Rightarrow> nat \<Rightarrow> nat list \<Rightarrow> nat \<Rightarrow> nat option \<Rightarrow> nat option \<Rightarrow> nat option \<times> nat option" where
  "swap_refs c swp [] i ref_c ref_swap = (ref_c, ref_swap)"
| "swap_refs c swp (item # rest) i ref_c ref_swap =
     (let (ref_c, ref_swap) =
            (if item = c then (Some i, ref_swap)
             else if item = swp then (ref_c, Some i) else (ref_c, ref_swap))
      in if ref_c \<noteq> None \<and> ref_swap \<noteq> None then (ref_c, ref_swap)
         else swap_refs c swp rest (Suc i) ref_c ref_swap)"

definition CLIENT_CLASS :: nat where "CLIENT_CLASS = 1"

abbreviation (input) SIG_SWAPPED :: nat where "SIG_SWAPPED \<equiv> 17"
abbreviation (input) SIG_MOUSE_LEAVE :: nat where "SIG_MOUSE_LEAVE \<equiv> 14"

text \<open>None is the null pointer written through when a client is not in the list.\<close>

definition luaA_client_swap :: "nat \<Rightarrow> nat \<Rightarrow> world \<Rightarrow> world option" where
  "luaA_client_swap c swp w =
     (if c = swp then Some w
      else
        (case swap_refs c swp (clients w) 0 None None of
           (Some i, Some j) \<Rightarrow>
             (let w = w\<lparr>clients := (clients w)[i := swp, j := c]\<rparr>;
                  w = enqueue (QClass CLIENT_CLASS SIG_LIST) w;
                  w = enqueue (QSignal (LUser c) SIG_SWAPPED [LUser swp, LBool True]) w
              in Some (enqueue (QSignal (LUser swp) SIG_SWAPPED [LUser c, LBool False]) w))
         | _ \<Rightarrow> None))"

text \<open>The clients the static get method returns, for a screen or all; None is a Lua error.\<close>

definition luaA_client_get ::
  "(lval \<Rightarrow> nat option) \<Rightarrow> lval \<Rightarrow> bool \<Rightarrow> world \<Rightarrow> nat list option" where
  "luaA_client_get is_screen scr stacked w =
     map_option (\<lambda>s.
        let on = (\<lambda>c. s = None \<or> c_screen (cl w c) = s)
        in if stacked then filter on (rev (stack w))
           else filter (\<lambda>c. has_scene (cl w c) \<and> on c) (clients w))
       (if scr = LNil then Some None else luaA_checkscreen is_screen scr w)"

definition luaA_client_get_first_tag :: "nat \<Rightarrow> world \<Rightarrow> nat option" where
  "luaA_client_get_first_tag c w = find (\<lambda>t. is_client_tagged c t w) (tags w)"

text \<open>
  The tags method with a table of tags, in the order lua_next visits it. The loop over the tags
  re-reads the array, None is a loop still running after the given rounds.
\<close>

definition luaA_client_tags :: "nat \<Rightarrow> env \<Rightarrow> nat \<Rightarrow> nat list option \<Rightarrow> world \<Rightarrow> (nat list \<times> world) option" where
  "luaA_client_tags fuel env c arg w =
     map_option (\<lambda>w. (filter (\<lambda>t. is_client_tagged c t w) (tags w), w))
       (case arg of
          None \<Rightarrow> Some w
        | Some ts \<Rightarrow>
            map_option (\<lambda>w.
               emit env c ''property::tags'' [] (fold (\<lambda>t w. tag_client env t c w) ts w))
              (foreach fuel 0 tags (\<lambda>t w. if t \<in> set ts then w else untag_client env c t w) w))"

text \<open>The name of the layer a client draws in; the outer None is a layer lookup out of fuel.\<close>

definition luaA_client_get__scene_layer :: "nat \<Rightarrow> nat \<Rightarrow> world \<Rightarrow> string option option" where
  "luaA_client_get__scene_layer fuel c w =
     (let x = cl w c in
      if \<not> has_scene x then Some None
      else if client_type x = X11 \<and> has_surface x \<and> override_redirect x then Some (Some ''overlay'')
      else
        map_option (\<lambda>layer.
           case layer of
             WINDOW_LAYER_IGNORE \<Rightarrow> None
           | WINDOW_LAYER_DESKTOP \<Rightarrow> Some ''background''
           | WINDOW_LAYER_BELOW \<Rightarrow> Some ''bottom''
           | WINDOW_LAYER_NORMAL \<Rightarrow> Some ''tile''
           | WINDOW_LAYER_ABOVE \<Rightarrow> Some ''top''
           | WINDOW_LAYER_FULLSCREEN \<Rightarrow> Some ''fullscreen''
           | WINDOW_LAYER_ONTOP \<Rightarrow> Some ''overlay'')
          (stack_client_effective_layer fuel c w))"

subsection \<open>Unmanaging\<close>

datatype unmanage_reason =
    CLIENT_UNMANAGE_DESTROYED | CLIENT_UNMANAGE_USER | CLIENT_UNMANAGE_REPARENT
  | CLIENT_UNMANAGE_UNMAP | CLIENT_UNMANAGE_FAILED

definition unmanage_context :: "unmanage_reason \<Rightarrow> string" where
  "unmanage_context reason =
     (case reason of
        CLIENT_UNMANAGE_USER \<Rightarrow> ''user''
      | CLIENT_UNMANAGE_REPARENT \<Rightarrow> ''reparented''
      | _ \<Rightarrow> ''destroyed'')"

definition clear_transients :: "nat \<Rightarrow> world \<Rightarrow> world" where
  "clear_transients c w =
     fold (\<lambda>tc w. if transient_for (cl w tc) = Some c
                   then stack_windows (upd_client tc (\<lambda>x. x\<lparr>transient_for := None\<rparr>) w) else w)
       (clients w) w"

text \<open>some_clear_pre_lock_client of somewm.c: unlocking must not focus a client that is gone.\<close>

definition some_clear_pre_lock_client :: "nat \<Rightarrow> world \<Rightarrow> world" where
  "some_clear_pre_lock_client c w =
     (if pre_lock_client w = Some c then w\<lparr>pre_lock_client := None\<rparr> else w)"

definition drop_titlebar :: "env \<Rightarrow> nat \<Rightarrow> nat \<Rightarrow> world \<Rightarrow> world" where
  "drop_titlebar env c bar w =
     (case tb_drawable (cl w c) bar of
        None \<Rightarrow> w
      | Some d \<Rightarrow>
          (let w = call_env env (Native ''leave_drawable'' [LUser d]) w;
               w = call_env env (Native ''declare_handle_drop'' [LUser d]) w;
               w = call_env env (Native ''unref_drawable'' [LUser c, LUser d]) w
           in upd_client c (\<lambda>x. x\<lparr>tb_drawable := (tb_drawable x)(bar := None)\<rparr>) w))"

text \<open>
  client_unmanage. The loop over the tags re-reads the array while handlers run, None is that
  loop still running after the given rounds. The two groups of X11 requests and the appending to
  destroy_later_windows are calls of the environment, and so is leave_drawable in drop_titlebar,
  which does nothing unless the drawable is the one under the pointer.
\<close>

definition client_unmanage :: "nat \<Rightarrow> env \<Rightarrow> nat \<Rightarrow> unmanage_reason \<Rightarrow> world \<Rightarrow> world option" where
  "client_unmanage fuel env c reason w =
     (let w = clear_transients c w;
          w = (if focus_client w = Some c then client_unfocus env c True w else w);
          w = some_clear_pre_lock_client c w;
          w = (if mouse_under w = UNDER_CLIENT c
               then (enqueue (QSignal0 (LUser c) SIG_MOUSE_LEAVE) w)\<lparr>mouse_under := UNDER_NONE\<rparr> else w);
          w = (case index_of c (clients w) of
                 None \<Rightarrow> w
               | Some i \<Rightarrow> w\<lparr>clients := take i (clients w) @ drop (Suc i) (clients w)\<rparr>);
          w = stack_client_remove c w
      in map_option (\<lambda>w.
           let w = emit env c ''request::unmanage'' [LStr (unmanage_context reason), LTable 0] w;
               w = enqueue (QClass CLIENT_CLASS SIG_LIST) w;
               w = call_env env (Native ''declare_mark_all_dirty'' []) w;
               w = fold (drop_titlebar env c) [0..<4] w;
               w = (if reason \<noteq> CLIENT_UNMANAGE_DESTROYED \<and> client_type (cl w c) = X11
                    then call_env env (Native ''x11_release_window'' [LUser c]) w else w);
               w = call_env env (Native ''destroy_later_windows'' [LUser c]) w;
               w = (if reason \<noteq> CLIENT_UNMANAGE_DESTROYED \<and> client_type (cl w c) = X11
                    then call_env env (Native ''x11_withdraw_window'' [LUser c]) w else w);
               w = (if client_type (cl w c) = XDGShell
                    then upd_client c (\<lambda>x. x\<lparr>has_surface := False\<rparr>) w else w);
               w = upd_client c (\<lambda>x. x\<lparr>window := 0\<rparr>) w
           in if reason = CLIENT_UNMANAGE_UNMAP then w else luaA_object_registry_unref c w)
         (foreach fuel 0 tags (\<lambda>t w. untag_client env c t w) w))"

definition client_kill :: "env \<Rightarrow> nat option \<Rightarrow> world \<Rightarrow> world" where
  "client_kill env c w =
     (case c of
        None \<Rightarrow> w
      | Some c \<Rightarrow>
          if client_type (cl w c) = XDGShell \<and> has_surface (cl w c)
          then call_env env (Native ''xdg_toplevel_send_close'' [LUser c]) w
          else if client_type (cl w c) = X11 \<and> has_surface (cl w c)
          then call_env env (Native ''xwayland_surface_close'' [LUser c]) w
          else w)"

subsection \<open>One layer at a time\<close>

definition layer_flags :: "nat \<Rightarrow> world \<Rightarrow> bool \<times> bool \<times> bool \<times> bool" where
  "layer_flags c w = (let x = cl w c in (fullscreen x, above x, below x, ontop x))"

interpretation layer: quiet_view "layer_flags c" for c
  by unfold_locales (auto simp: layer_flags_def settled_def Let_def)

lemma layer_stack_windows [simp]: "layer_flags c (stack_windows w) = layer_flags c w"
  by (simp add: layer_flags_def stack_windows_def)

lemma layer_updates:
  "layer_flags c (upd_client c (\<lambda>x. x\<lparr>fullscreen := s\<rparr>) w) = (s, snd (layer_flags c w))"
  "layer_flags c (upd_client c (\<lambda>x. x\<lparr>above := s\<rparr>) w) = (fst (layer_flags c w), s, snd (snd (layer_flags c w)))"
  "layer_flags c (upd_client c (\<lambda>x. x\<lparr>below := s\<rparr>) w) =
     (fst (layer_flags c w), fst (snd (layer_flags c w)), s, snd (snd (snd (layer_flags c w))))"
  "layer_flags c (upd_client c (\<lambda>x. x\<lparr>ontop := s\<rparr>) w) =
     (fst (layer_flags c w), fst (snd (layer_flags c w)), fst (snd (snd (layer_flags c w))), s)"
  "layer_flags c (upd_client c (\<lambda>x. x\<lparr>prev_geometry := geometry x\<rparr>) w) = layer_flags c w"
  by (simp_all add: layer_flags_def Let_def)

lemma layer_sel:
  "fullscreen (cl w c) = fst (layer_flags c w)" "above (cl w c) = fst (snd (layer_flags c w))"
  "below (cl w c) = fst (snd (snd (layer_flags c w)))" "ontop (cl w c) = snd (snd (snd (layer_flags c w)))"
  by (simp_all add: layer_flags_def Let_def)

lemma layer_clear:
  assumes "keeps env (layer_flags c)" and "layer_flags c w = (f, a, b, t)"
  shows "layer_flags c (client_set_fullscreen env c False w) = (False, a, b, t)"
    and "layer_flags c (client_set_above env c False w) = (f, False, b, t)"
    and "layer_flags c (client_set_below env c False w) = (f, a, False, t)"
    and "layer_flags c (client_set_ontop env c False w) = (f, a, b, False)"
  using assms
  by (simp_all add: client_set_fullscreen.simps [of env c False] client_set_above.simps [of env c False]
      client_set_below.simps [of env c False] client_set_ontop.simps [of env c False]
      Let_def layer_updates layer_sel)

lemma layer_set:
  assumes "keeps env (layer_flags c)" and "layer_flags c w = (f, a, b, t)"
  shows "layer_flags c (client_set_fullscreen env c True w) = (if f then (f, a, b, t) else (True, False, False, False))"
    and "layer_flags c (client_set_above env c True w) = (if a then (f, a, b, t) else (False, True, False, False))"
    and "layer_flags c (client_set_below env c True w) = (if b then (f, a, b, t) else (False, False, True, False))"
    and "layer_flags c (client_set_ontop env c True w) = (if t then (f, a, b, t) else (False, False, False, True))"
  using assms layer_clear [OF assms(1)]
  by (simp_all add: client_set_fullscreen.simps [of env c True] client_set_above.simps [of env c True]
      client_set_below.simps [of env c True] client_set_ontop.simps [of env c True]
      Let_def layer_updates layer_sel)

datatype layer_op = SetFullscreen bool | SetAbove bool | SetBelow bool | SetOntop bool

primrec run_layer_op :: "env \<Rightarrow> nat \<Rightarrow> layer_op \<Rightarrow> world \<Rightarrow> world" where
  "run_layer_op env c (SetFullscreen s) w = client_set_fullscreen env c s w"
| "run_layer_op env c (SetAbove s) w = client_set_above env c s w"
| "run_layer_op env c (SetBelow s) w = client_set_below env c s w"
| "run_layer_op env c (SetOntop s) w = client_set_ontop env c s w"

definition one_layer :: "client \<Rightarrow> bool" where
  "one_layer x \<longleftrightarrow> length (filter id [fullscreen x, above x, below x, ontop x]) \<le> 1"

lemma one_layer_flags: "one_layer (cl w c) \<longleftrightarrow> (case layer_flags c w of (f, a, b, t) \<Rightarrow>
    \<not> (f \<and> a) \<and> \<not> (f \<and> b) \<and> \<not> (f \<and> t) \<and> \<not> (a \<and> b) \<and> \<not> (a \<and> t) \<and> \<not> (b \<and> t))"
  by (auto simp: one_layer_def layer_flags_def Let_def)

lemma one_layer_step:
  assumes "keeps env (layer_flags c)" and "one_layer (cl w c)"
  shows "one_layer (cl (run_layer_op env c oper w) c)"
proof -
  obtain f a b t where w: "layer_flags c w = (f, a, b, t)" by (metis prod_cases4)
  note sets = layer_clear [OF assms(1) w] layer_set [OF assms(1) w]
  have "one_layer (cl (client_set_fullscreen env c s w) c)" "one_layer (cl (client_set_above env c s w) c)"
    "one_layer (cl (client_set_below env c s w) c)" "one_layer (cl (client_set_ontop env c s w) c)" for s
    using assms(2) w sets by (cases s; auto simp: one_layer_flags)+
  then show ?thesis by (cases oper) simp_all
qed

text \<open>
  C13: A client is never in two special layers at once. Whatever sequence of the fullscreen,
  above, below and ontop setters runs on it, at most one of the four flags is set at every
  point, when signal handlers do not set the flags themselves.
\<close>

theorem one_layer_invariant:
  assumes "keeps env (layer_flags c)" and "one_layer (cl w c)"
  shows "one_layer (cl (fold (run_layer_op env c) ops w) c)"
  using assms(2) one_layer_step [OF assms(1)] by (induction ops arbitrary: w) simp_all

theorem one_layer_invariant_witness:
  "one_layer (cl (fold (run_layer_op idle 1) [SetAbove True, SetFullscreen True, SetOntop True] world0) 1)"
  using one_layer_invariant [of idle 1 world0 "[SetAbove True, SetFullscreen True, SetOntop True]"]
  by (simp add: world0_def client0_def one_layer_def)

subsection \<open>Transitions of the maximised states\<close>

definition max_flags :: "nat \<Rightarrow> world \<Rightarrow> bool \<times> bool \<times> bool" where
  "max_flags c w = (let x = cl w c in (maximized_vertical x, maximized_horizontal x, maximized x))"

interpretation maxi: quiet_view "max_flags c" for c
  by unfold_locales (auto simp: max_flags_def settled_def Let_def)

text \<open>What a setter makes of the three flags, before the rule for the startup.\<close>

fun max_goal :: "nat \<Rightarrow> bool \<Rightarrow> bool \<times> bool \<times> bool \<Rightarrow> bool \<times> bool \<times> bool" where
  "max_goal val s (v, h, m) =
     (if val = CLIENT_MAXIMIZED_V then (s, h, m)
      else if val = CLIENT_MAXIMIZED_H then (v, s, m) else (v, h, s))"

definition max_startup :: "bool \<Rightarrow> bool \<times> bool \<times> bool \<Rightarrow> bool \<times> bool \<times> bool" where
  "max_startup loop t = (if t = (True, True, False) \<and> \<not> loop then (False, False, True) else t)"

definition max_bits :: "nat \<Rightarrow> bool \<times> bool \<times> bool" where
  "max_bits n = (and n CLIENT_MAXIMIZED_V \<noteq> 0, and n CLIENT_MAXIMIZED_H \<noteq> 0, and n CLIENT_MAXIMIZED_BOTH \<noteq> 0)"

lemma max_table:
  "\<forall>v h m loop s. \<forall>val \<in> set [1, 2, 4 :: nat].
     max_bits (maximized_next loop (or (or (if v then 1 else 0) (if h then 2 else 0)) (if m then 4 else 0)) s val) =
       max_startup loop (max_goal val s (v, h, m)) \<and>
     (or (or (if v then 1 else 0) (if h then 2 else 0)) (if m then 4 else 0) =
        maximized_next loop (or (or (if v then 1 else 0) (if h then 2 else 0)) (if m then 4 else 0)) s val) =
      (max_bits (maximized_next loop (or (or (if v then 1 else 0) (if h then 2 else 0)) (if m then 4 else 0)) s val) = (v, h, m))"
  by code_simp
lemma maximized_next_bits:
  assumes "val \<in> {CLIENT_MAXIMIZED_V, CLIENT_MAXIMIZED_H, CLIENT_MAXIMIZED_BOTH}"
  shows "max_bits (maximized_next loop (maximized_current x) s val) =
      max_startup loop (max_goal val s (maximized_vertical x, maximized_horizontal x, maximized x))"
    and "(maximized_current x = maximized_next loop (maximized_current x) s val) =
      (max_bits (maximized_next loop (maximized_current x) s val) =
        (maximized_vertical x, maximized_horizontal x, maximized x))"
proof -
  have val: "val \<in> set [1, 2, 4]" using assms by simp
  note t = bspec [OF max_table [THEN spec, of "maximized_vertical x", THEN spec, of "maximized_horizontal x",
      THEN spec, of "maximized x", THEN spec, of loop, THEN spec, of s] val, folded maximized_current_def]
  show "max_bits (maximized_next loop (maximized_current x) s val) =
      max_startup loop (max_goal val s (maximized_vertical x, maximized_horizontal x, maximized x))"
    by (rule conjunct1 [OF t])
  show "(maximized_current x = maximized_next loop (maximized_current x) s val) =
      (max_bits (maximized_next loop (maximized_current x) s val) =
        (maximized_vertical x, maximized_horizontal x, maximized x))"
    by (rule conjunct2 [OF t])
qed

text \<open>
  The maximised setters move one flag each. Setting or clearing maximized, maximized
  vertically or horizontally changes exactly that flag and leaves the two others; only before
  the main loop runs, a client that would be maximised in both directions but not as a whole
  becomes maximised as a whole instead. A request that changes no flag does nothing at all.
\<close>

theorem maximized_transitions:
  assumes "keeps env (max_flags c)" and "val \<in> {CLIENT_MAXIMIZED_V, CLIENT_MAXIMIZED_H, CLIENT_MAXIMIZED_BOTH}"
  shows "let w' = client_set_maximized_common env c s type val w;
      goal = max_startup (main_loop w) (max_goal val s (max_flags c w)) in
    max_flags c w' = goal \<and> (goal = max_flags c w \<longrightarrow> w' = w) \<and>
    (goal \<noteq> max_flags c w \<longrightarrow> need_stack_refresh w')"
proof -
  let ?next = "maximized_next (main_loop w) (maximized_current (cl w c)) s val"
  define goal where "goal = max_startup (main_loop w) (max_goal val s (max_flags c w))"
  have goal: "max_bits ?next = goal"
    unfolding goal_def maximized_next_bits(1) [OF assms(2)] by (simp add: max_flags_def Let_def)
  have same: "(maximized_current (cl w c) = ?next) = (goal = max_flags c w)"
    unfolding maximized_next_bits(2) [OF assms(2)] goal by (simp add: max_flags_def Let_def)
  define v where "v = upd_client c (\<lambda>x. x\<lparr>maximized_horizontal := and ?next CLIENT_MAXIMIZED_H \<noteq> 0,
      maximized_vertical := and ?next CLIENT_MAXIMIZED_V \<noteq> 0, maximized := and ?next CLIENT_MAXIMIZED_BOTH \<noteq> 0\<rparr>) w"
  have v: "max_flags c v = goal" by (simp add: v_def max_flags_def Let_def goal [symmetric] max_bits_def)
  have sw: "max_flags c (stack_windows u) = max_flags c u" "need_stack_refresh (stack_windows u)" for u
    by (simp_all add: stack_windows_def max_flags_def)
  have notify: "max_flags c (maximized_notify env c x u) = max_flags c u" for x u
    using assms(1) by (simp add: maximized_notify_def Let_def)
  have "max_flags c (client_set_maximized_common env c s type val w) = goal \<and>
      need_stack_refresh (client_set_maximized_common env c s type val w)" if "goal \<noteq> max_flags c w"
    using that same v assms(1) unfolding client_set_maximized_common_def Let_def v_def [symmetric]
    by (simp add: sw notify)
  moreover have "client_set_maximized_common env c s type val w = w" if "goal = max_flags c w"
    using that same by (simp add: client_set_maximized_common_def Let_def)
  ultimately show ?thesis unfolding Let_def goal_def [symmetric] by metis
qed

theorem maximized_transitions_witness:
  "max_flags 1 (client_set_maximized_common idle 1 True ''maximized_vertical'' CLIENT_MAXIMIZED_V
     (world0\<lparr>cl := (\<lambda>_. client0\<lparr>maximized_horizontal := True\<rparr>)\<rparr>)) = (False, False, True)"
  using maximized_transitions [where env = idle and c = 1 and val = CLIENT_MAXIMIZED_V and s = True and
      type = "''maximized_vertical''" and w = "world0\<lparr>cl := (\<lambda>_. client0\<lparr>maximized_horizontal := True\<rparr>)\<rparr>"]
  by (simp add: Let_def max_flags_def world0_def client0_def max_startup_def)

subsection \<open>Swapping\<close>

lemma index_of_nth: "distinct xs \<Longrightarrow> i < length xs \<Longrightarrow> index_of (xs ! i) xs = Some i"
proof (cases "index_of (xs ! i) xs")
  case (Some j)
  assume "distinct xs" "i < length xs"
  then show ?thesis using index_of_Some [OF Some] Some by (metis nth_eq_iff_index_eq)
qed (simp add: index_of_None)

lemma plus_Suc_fun: "(+) (Suc i) = (\<lambda>x. Suc (i + x))"
  by auto

lemma swap_refs_index:
  assumes "c \<noteq> swp"
  shows "rc = None \<or> rs = None \<Longrightarrow> distinct xs \<Longrightarrow> (rc \<noteq> None \<Longrightarrow> c \<notin> set xs) \<Longrightarrow> (rs \<noteq> None \<Longrightarrow> swp \<notin> set xs) \<Longrightarrow>
    swap_refs c swp xs i rc rs =
      (if rc = None then map_option ((+) i) (index_of c xs) else rc,
       if rs = None then map_option ((+) i) (index_of swp xs) else rs)"
proof (induction xs arbitrary: i rc rs)
  case (Cons x xs)
  consider "x = c" | "x = swp" "x \<noteq> c" | "x \<noteq> c" "x \<noteq> swp" by blast
  then show ?case
  proof cases
    case 1
    then have "c \<notin> set xs" "rc = None" using Cons.prems(2,3) by (auto, cases rc, auto)
    then show ?thesis using 1 Cons.IH [of "Some i" rs "Suc i"] Cons.prems assms
      by (auto simp: option.map_comp comp_def plus_Suc_fun split: option.splits)
  next
    case 2
    then have "swp \<notin> set xs" "rs = None" using Cons.prems(2,4) by (auto, cases rs, auto)
    then show ?thesis using 2 Cons.IH [of rc "Some i" "Suc i"] Cons.prems assms
      by (auto simp: option.map_comp comp_def plus_Suc_fun split: option.splits)
  next
    case 3
    then show ?thesis using Cons.IH [of rc rs "Suc i"] Cons.prems
      by (auto simp: option.map_comp comp_def plus_Suc_fun)
  qed
qed simp

lemma swap_result:
  assumes "distinct (clients w)" and "i < length (clients w)" "j < length (clients w)" "i \<noteq> j"
  shows "\<exists>w'. luaA_client_swap (clients w ! i) (clients w ! j) w = Some w' \<and>
    clients w' = (clients w)[i := clients w ! j, j := clients w ! i]"
proof -
  have ne: "clients w ! i \<noteq> clients w ! j" using assms by (simp add: nth_eq_iff_index_eq)
  have "(+) (0 :: nat) = id" by auto
  then have "swap_refs (clients w ! i) (clients w ! j) (clients w) 0 None None = (Some i, Some j)"
    using swap_refs_index [OF ne, of None None "clients w" 0] index_of_nth [OF assms(1)] assms
    by (simp add: option.map_id)
  then show ?thesis using ne by (simp add: luaA_client_swap_def)
qed

text \<open>
  Swapping two managed clients exchanges their places in the client list and moves no other,
  and swapping them once more, with the arguments in the order of their new places, restores
  the list; a client that is not in the list makes the code write through a null pointer.
\<close>

theorem swap_roundtrip:
  assumes "distinct (clients w)" and "i < length (clients w)" "j < length (clients w)" "i \<noteq> j"
  shows "\<exists>w' w''. luaA_client_swap (clients w ! i) (clients w ! j) w = Some w' \<and>
    clients w' = (clients w)[i := clients w ! j, j := clients w ! i] \<and>
    luaA_client_swap (clients w' ! i) (clients w' ! j) w' = Some w'' \<and> clients w'' = clients w \<and>
    (\<forall>c. c \<notin> set (clients w) \<longrightarrow> luaA_client_swap c (clients w ! j) w = None)"
proof -
  obtain w' where w': "luaA_client_swap (clients w ! i) (clients w ! j) w = Some w'"
    "clients w' = (clients w)[i := clients w ! j, j := clients w ! i]"
    using swap_result [OF assms] by blast
  have d: "distinct (clients w')" unfolding w'(2) using assms by (simp add: distinct_swap)
  have len: "i < length (clients w')" "j < length (clients w')" using assms w'(2) by simp_all
  obtain w'' where w'': "luaA_client_swap (clients w' ! i) (clients w' ! j) w' = Some w''"
    "clients w'' = (clients w')[i := clients w' ! j, j := clients w' ! i]"
    using swap_result [OF d len assms(4)] by blast
  have restored: "clients w'' = clients w"
    unfolding w''(2) w'(2) using assms(2-4) by (intro nth_equalityI) (auto simp: nth_list_update)
  have "luaA_client_swap c (clients w ! j) w = None" if "c \<notin> set (clients w)" for c
  proof -
    have "c \<noteq> clients w ! j" using that assms(3) by auto
    moreover from this have "fst (swap_refs c (clients w ! j) (clients w) 0 None None) = None"
      using swap_refs_index [of c "clients w ! j" None None "clients w" 0] that assms(1)
      by (simp add: index_of_None [symmetric])
    ultimately show ?thesis by (auto simp: luaA_client_swap_def split: prod.splits option.splits)
  qed
  with w' w'' restored show ?thesis by blast
qed

theorem swap_roundtrip_witness:
  "\<exists>w'. luaA_client_swap 5 7 (world0\<lparr>clients := [5, 6, 7]\<rparr>) = Some w' \<and> clients w' = [7, 6, 5]"
  using swap_roundtrip [of "world0\<lparr>clients := [5, 6, 7]\<rparr>" 0 2] by auto

subsection \<open>Unmanaging forgets the client\<close>

text \<open>What must stay alone while a client is unmanaged: handlers may run, but do not manage,
  tag, focus or stack clients themselves.\<close>

definition managed_view where
  "managed_view c w = (clients w, stack w, tags w, (\<lambda>t. t_clients (tg w t)), (\<lambda>x. transient_for (cl w x)),
     focus_client w = Some c, mouse_under w, pre_lock_client w = Some c)"

lemma managed_call: "keeps env (managed_view c) \<Longrightarrow> managed_view c (call_env env k w) = managed_view c w"
  by (erule call_env_keeps) (simp add: managed_view_def)

lemma managed_untag:
  assumes "keeps env (managed_view c)" and "focus_client w \<noteq> Some c"
  shows "managed_view c (untag_client env c t w) =
    (clients w, stack w, tags w, (\<lambda>x. t_clients (tg w x))(t := remove1 c (t_clients (tg w t))),
     (\<lambda>x. transient_for (cl w x)), False, mouse_under w, pre_lock_client w = Some c)"
proof (cases "index_of c (t_clients (tg w t))")
  case None
  then have "untag_client env c t w = w" "remove1 c (t_clients (tg w t)) = t_clients (tg w t)"
    by (simp_all add: untag_client_def index_of_None [symmetric] remove1_idem)
  then show ?thesis using assms(2) by (simp add: managed_view_def fun_upd_idem)
next
  case (Some i)
  have nu: "managed_view c (banning_need_update env v) = managed_view c v" if "focus_client v \<noteq> Some c" for v
    using that need_update_focus [of env v] by (auto simp: managed_view_def)
  have un: "managed_view c (luaA_object_registry_unref t v) = managed_view c v" for v
    by (simp add: managed_view_def luaA_object_registry_unref_def)
  have up: "managed_view c (upd_tag t (\<lambda>x. x\<lparr>t_clients := take i (t_clients x) @ drop (Suc i) (t_clients x)\<rparr>) w) =
    (clients w, stack w, tags w, (\<lambda>x. t_clients (tg w x))(t := remove1 c (t_clients (tg w t))),
     (\<lambda>x. transient_for (cl w x)), False, mouse_under w, pre_lock_client w = Some c)"
    using assms(2) remove_at_index [OF Some] by (auto simp: managed_view_def upd_tag_def fun_eq_iff)
  show ?thesis using Some managed_call [OF assms(1)] nu un up assms(2)
    by (simp add: untag_client_def Let_def some_monitor_arrange_def tag_client_emit_signal_def upd_tag_def
        split: option.split)
qed

lemma managed_parts:
  assumes "managed_view c v = managed_view c w"
  shows "clients v = clients w" "stack v = stack w" "tags v = tags w" "t_clients (tg v t) = t_clients (tg w t)"
    and "transient_for (cl v x) = transient_for (cl w x)" "(focus_client v = Some c) = (focus_client w = Some c)"
    and "mouse_under v = mouse_under w" and "(pre_lock_client v = Some c) = (pre_lock_client w = Some c)"
  using assms by (auto simp: managed_view_def fun_eq_iff)

lemma untag_tags:
  assumes "keeps env (managed_view c)" shows "tags (untag_client env c t w) = tags w"
  using managed_parts(3) [OF managed_call [OF assms]]
  by (simp add: untag_client_def Let_def some_monitor_arrange_def tag_client_emit_signal_def
      luaA_object_registry_unref_def split: option.split)

lemma managed_untag_all:
  assumes "keeps env (managed_view c)" and "focus_client w \<noteq> Some c" and "\<And>t. distinct (t_clients (tg w t))"
  shows "managed_view c (fold (\<lambda>t w. untag_client env c t w) ts w) =
    (clients w, stack w, tags w, (\<lambda>t. if t \<in> set ts then removeAll c (t_clients (tg w t)) else t_clients (tg w t)),
     (\<lambda>x. transient_for (cl w x)), False, mouse_under w, pre_lock_client w = Some c)"
  using assms(2,3)
proof (induction ts arbitrary: w)
  case Nil
  then show ?case by (simp add: managed_view_def)
next
  case (Cons t ts)
  let ?v = "untag_client env c t w"
  note v = managed_untag [OF assms(1) Cons.prems(1), of t]
  have parts: "clients ?v = clients w" "stack ?v = stack w" "tags ?v = tags w"
    "(\<lambda>x. transient_for (cl ?v x)) = (\<lambda>x. transient_for (cl w x))" "focus_client ?v \<noteq> Some c"
    "mouse_under ?v = mouse_under w" "(pre_lock_client ?v = Some c) = (pre_lock_client w = Some c)"
    using v by (simp_all add: managed_view_def)
  have tc: "t_clients (tg ?v x) = (if x = t then removeAll c (t_clients (tg w t)) else t_clients (tg w x))" for x
    using v Cons.prems(2) by (simp add: managed_view_def distinct_remove1_removeAll fun_eq_iff)
  have "distinct (t_clients (tg ?v x))" for x unfolding tc using Cons.prems(2) by (simp add: distinct_removeAll)
  from Cons.IH [OF parts(5) this] show ?case using parts by (auto simp: tc fun_eq_iff)
qed

lemma clear_transients_view:
  "transient_for (cl (clear_transients c w) x) =
     (if x \<in> set (clients w) \<and> transient_for (cl w x) = Some c then None else transient_for (cl w x)) \<and>
   clients (clear_transients c w) = clients w \<and> stack (clear_transients c w) = stack w \<and>
   tags (clear_transients c w) = tags w \<and> tg (clear_transients c w) = tg w \<and>
   focus_client (clear_transients c w) = focus_client w \<and> mouse_under (clear_transients c w) = mouse_under w"
proof -
  let ?f = "\<lambda>tc w. if transient_for (cl w tc) = Some c
      then stack_windows (upd_client tc (\<lambda>x. x\<lparr>transient_for := None\<rparr>) w) else w"
  have "transient_for (cl (fold ?f xs w) x) =
     (if x \<in> set xs \<and> transient_for (cl w x) = Some c then None else transient_for (cl w x)) \<and>
   clients (fold ?f xs w) = clients w \<and> stack (fold ?f xs w) = stack w \<and> tags (fold ?f xs w) = tags w \<and>
   tg (fold ?f xs w) = tg w \<and> focus_client (fold ?f xs w) = focus_client w \<and>
   mouse_under (fold ?f xs w) = mouse_under w" for xs
    by (induction xs arbitrary: w) (auto simp: stack_windows_def)
  then show ?thesis unfolding clear_transients_def by blast
qed

lemma managed_drop_titlebars:
  "keeps env (managed_view c) \<Longrightarrow> managed_view c (fold (drop_titlebar env c) bars w) = managed_view c w"
proof (induction bars arbitrary: w)
  case (Cons b bars)
  have "managed_view c (upd_client c (\<lambda>x. x\<lparr>tb_drawable := (tb_drawable x)(b := None)\<rparr>) v) = managed_view c v" for v
    by (auto simp: managed_view_def fun_eq_iff)
  then have "managed_view c (drop_titlebar env c b w) = managed_view c w"
    using managed_call [OF Cons.prems] by (simp add: drop_titlebar_def Let_def split: option.split)
  then show ?case using Cons by simp
qed simp

text \<open>The part of client_unmanage after the loop over the tags.\<close>

lemma unmanage_tail:
  assumes "keeps env (managed_view c)" and "managed_view c w = managed_view c w0"
  shows "let w = emit env c s args w;
             w = enqueue (QClass CLIENT_CLASS SIG_LIST) w;
             w = call_env env k w;
             w = fold (drop_titlebar env c) [0..<4] w;
             w = (if reason \<noteq> CLIENT_UNMANAGE_DESTROYED \<and> client_type (cl w c) = X11
                  then call_env env k' w else w);
             w = call_env env d w;
             w = (if reason \<noteq> CLIENT_UNMANAGE_DESTROYED \<and> client_type (cl w c) = X11
                  then call_env env k'' w else w);
             w = (if client_type (cl w c) = XDGShell
                  then upd_client c (\<lambda>x. x\<lparr>has_surface := False\<rparr>) w else w);
             w = upd_client c (\<lambda>x. x\<lparr>window := 0\<rparr>) w;
             v = (if reason = CLIENT_UNMANAGE_UNMAP then w else luaA_object_registry_unref c w)
         in managed_view c v = managed_view c w0 \<and> window (cl v c) = 0"
proof -
  have views: "managed_view c (enqueue q v) = managed_view c v"
    "managed_view c (upd_client c (\<lambda>x. x\<lparr>has_surface := False\<rparr>) v) = managed_view c v"
    "managed_view c (upd_client c (\<lambda>x. x\<lparr>window := 0\<rparr>) v) = managed_view c v"
    "managed_view c (luaA_object_registry_unref c v) = managed_view c v" for q v
    by (auto simp: managed_view_def fun_eq_iff luaA_object_registry_unref_def enqueue_def)
  define u where "u = fold (drop_titlebar env c) [0..<4]
    (call_env env k (enqueue (QClass CLIENT_CLASS SIG_LIST) (emit env c s args w)))"
  have u: "managed_view c u = managed_view c w0"
    unfolding u_def managed_drop_titlebars [OF assms(1)] managed_call [OF assms(1)] views by (rule assms(2))
  show ?thesis unfolding Let_def u_def [symmetric]
    using u managed_call [OF assms(1)] by (auto simp: views) (auto simp: luaA_object_registry_unref_def)
qed

text \<open>
  C14: Unmanaging forgets the client. It returns, one round of the tag loop per tag
  and one more, and then the client is in neither the client list nor the stack, whose other
  members keep their order; no activated tag lists it (a deactivated one keeps it in its array); no managed client is transient for it;
  it is neither focused nor under the pointer, nor the client an unlock would focus; and its
  window is gone. Handlers that run
  meanwhile are assumed not to manage, tag, focus or stack clients themselves.
\<close>

theorem unmanage_forgets:
  assumes "keeps env (managed_view c)" and "distinct (clients w)" and "distinct (stack w)"
    and "\<And>t. distinct (t_clients (tg w t))"
  shows "\<exists>w'. client_unmanage (length (tags w) + 1) env c reason w = Some w' \<and>
    clients w' = removeAll c (clients w) \<and> stack w' = removeAll c (stack w) \<and> window (cl w' c) = 0 \<and>
    focus_client w' \<noteq> Some c \<and> mouse_under w' \<noteq> UNDER_CLIENT c \<and> pre_lock_client w' \<noteq> Some c \<and>
    tags w' = tags w \<and>
    (\<forall>t. t_clients (tg w' t) = (if t \<in> set (tags w) then removeAll c (t_clients (tg w t)) else t_clients (tg w t))) \<and>
    (\<forall>x. transient_for (cl w' x) =
       (if x \<in> set (clients w) \<and> transient_for (cl w x) = Some c then None else transient_for (cl w x)))"
proof -
  define w1 where "w1 = clear_transients c w"
  define w2 where "w2 = (if focus_client w1 = Some c then client_unfocus env c True w1 else w1)"
  define w3 where "w3 = some_clear_pre_lock_client c w2"
  define w4 where "w4 = (if mouse_under w3 = UNDER_CLIENT c
      then (enqueue (QSignal0 (LUser c) SIG_MOUSE_LEAVE) w3)\<lparr>mouse_under := UNDER_NONE\<rparr> else w3)"
  define w5 where "w5 = (case index_of c (clients w4) of None \<Rightarrow> w4
      | Some i \<Rightarrow> w4\<lparr>clients := take i (clients w4) @ drop (Suc i) (clients w4)\<rparr>)"
  define w6 where "w6 = stack_client_remove c w5"
  note keep = managed_parts [OF managed_call [OF assms(1)]]
  have w1: "clients w1 = clients w" "stack w1 = stack w" "tags w1 = tags w" "tg w1 = tg w" "mouse_under w1 = mouse_under w"
    "transient_for (cl w1 x) = (if x \<in> set (clients w) \<and> transient_for (cl w x) = Some c then None else transient_for (cl w x))" for x
    using clear_transients_view [of c w] unfolding w1_def by blast+
  have w2: "clients w2 = clients w" "stack w2 = stack w" "tags w2 = tags w" "t_clients (tg w2 t) = t_clients (tg w t)"
    "transient_for (cl w2 x) = transient_for (cl w1 x)" "focus_client w2 \<noteq> Some c" for t x
    using keep w1 by (auto simp: w2_def client_unfocus_def client_unfocus_internal_def Let_def)
  have w3: "clients w3 = clients w" "stack w3 = stack w" "tags w3 = tags w" "t_clients (tg w3 t) = t_clients (tg w t)"
    "transient_for (cl w3 x) = transient_for (cl w1 x)" "focus_client w3 \<noteq> Some c" "pre_lock_client w3 \<noteq> Some c" for t x
    unfolding w3_def some_clear_pre_lock_client_def using w2 by auto
  have w4: "clients w4 = clients w" "stack w4 = stack w" "tags w4 = tags w" "t_clients (tg w4 t) = t_clients (tg w t)"
    "transient_for (cl w4 x) = transient_for (cl w1 x)" "focus_client w4 \<noteq> Some c" "mouse_under w4 \<noteq> UNDER_CLIENT c" "pre_lock_client w4 \<noteq> Some c" for t x
    unfolding w4_def using w3 by auto
  have w5: "clients w5 = removeAll c (clients w)" "stack w5 = stack w" "tags w5 = tags w" "t_clients (tg w5 t) = t_clients (tg w t)"
    "transient_for (cl w5 x) = transient_for (cl w1 x)" "focus_client w5 \<noteq> Some c" "mouse_under w5 \<noteq> UNDER_CLIENT c" "pre_lock_client w5 \<noteq> Some c" for t x
    unfolding w5_def using w4 assms(2)
    by (auto split: option.split simp: index_of_None remove_at_index distinct_remove1_removeAll)
  have w6: "clients w6 = removeAll c (clients w)" "stack w6 = removeAll c (stack w)" "tags w6 = tags w" "t_clients (tg w6 t) = t_clients (tg w t)"
    "transient_for (cl w6 x) = transient_for (cl w1 x)" "focus_client w6 \<noteq> Some c" "mouse_under w6 \<noteq> UNDER_CLIENT c" "pre_lock_client w6 \<noteq> Some c" for t x
    unfolding w6_def stack_client_remove_def using w5 assms(3)
    by (auto split: option.split simp: stack_windows_def index_of_None remove_at_index distinct_remove1_removeAll)
  let ?u = "fold (\<lambda>t w. untag_client env c t w) (tags w6) w6"
  have loop: "foreach (length (tags w) + 1) 0 tags (\<lambda>t w. untag_client env c t w) w6 = Some ?u"
    using foreach_fold [of tags "\<lambda>t w. untag_client env c t w" w6 0 "length (tags w) + 1"]
      untag_tags [OF assms(1)] w6(3) by simp
  have "distinct (t_clients (tg w6 t))" for t using assms(4) w6(4) by simp
  note u = managed_untag_all [OF assms(1) w6(6) this, of "tags w6"]
  obtain v where v: "client_unmanage (length (tags w) + 1) env c reason w = Some v"
    "managed_view c v = managed_view c ?u" "window (cl v c) = 0"
    using unmanage_tail [OF assms(1) refl, of "''request::unmanage''" "[LStr (unmanage_context reason), LTable 0]" "?u"
        "Native ''declare_mark_all_dirty'' []" reason "Native ''x11_release_window'' [LUser c]"
        "Native ''destroy_later_windows'' [LUser c]" "Native ''x11_withdraw_window'' [LUser c]"] loop
    by (simp only: client_unmanage_def Let_def w1_def [symmetric] w2_def [symmetric] w3_def [symmetric]
        w4_def [symmetric] w5_def [symmetric] w6_def [symmetric] option.map)
  show ?thesis
    using v u w6 w1 by (auto simp: managed_view_def fun_eq_iff)
qed

theorem unmanage_forgets_witness:
  "\<exists>w'. client_unmanage 1 idle 6 CLIENT_UNMANAGE_DESTROYED
      (world0\<lparr>clients := [5, 6, 7], stack := [7, 6, 5], focus_client := Some 6\<rparr>) = Some w' \<and>
    clients w' = [5, 7] \<and> stack w' = [7, 5] \<and> focus_client w' \<noteq> Some 6"
  using unmanage_forgets [of idle 6 "world0\<lparr>clients := [5, 6, 7], stack := [7, 6, 5], focus_client := Some 6\<rparr>"]
  by (fastforce simp: world0_def tag0_def)

end
