(* ===== verification/Screens.thy ===== *)
theory Screens
  imports ClientState
begin

text \<open>
  The life of screens: removal, the fake screens of the Lua interface, swapping, indexing and
  iteration, the primary screen and the name, of src/objects/screen.c, and the index a screen
  gets when a monitor appears, of src/monitor.c. The lemmas are about the indices the screens
  carry, on which the iteration rests. The address of a new object is an argument.
\<close>

subsection \<open>Removal\<close>

definition emit_screen :: "env \<Rightarrow> nat \<Rightarrow> string \<Rightarrow> lval list \<Rightarrow> world \<Rightarrow> world" where
  "emit_screen env s name args w = (if s \<in> set (screens w) then emit env s name args w else w)"

definition relocate_client :: "env \<Rightarrow> nat \<Rightarrow> nat \<Rightarrow> world \<Rightarrow> world" where
  "relocate_client env s c w =
     (if c_screen (cl w c) = Some s then
        (let g = geometry (cl w c);
             new_screen = luaA_screen_getbycoord (ax g + c_div (aw g) 2) (ay g + c_div (ah g) 2) w
         in if new_screen \<noteq> None \<and> new_screen \<noteq> Some s
            then screen_client_moveto_stay env c new_screen w else w)
      else w)"

definition reindex_from :: "nat \<Rightarrow> world \<Rightarrow> world" where
  "reindex_from i w =
     fold (\<lambda>j w. upd_screen (screens w ! j) (\<lambda>x. x\<lparr>s_index := int (j + 1)\<rparr>) w)
       [i..<length (screens w)] w"

definition drop_screen :: "nat \<Rightarrow> world \<Rightarrow> world" where
  "drop_screen s w =
     (case index_of s (screens w) of
        None \<Rightarrow> w
      | Some i \<Rightarrow> reindex_from i (w\<lparr>screens := take i (screens w) @ drop (Suc i) (screens w)\<rparr>))"

text \<open>None is the loop over the clients still running after the given rounds.\<close>

definition screen_removed :: "nat \<Rightarrow> env \<Rightarrow> nat \<Rightarrow> world \<Rightarrow> world option" where
  "screen_removed fuel env s w =
     (if \<not> s_valid (sc w s) then Some w
      else
        (let w = emit_screen env s ''removed'' [] w;
             w = (if primary_screen w = Some s then w\<lparr>primary_screen := None\<rparr> else w)
         in map_option (\<lambda>w.
              let w = upd_screen s (\<lambda>x. x\<lparr>s_valid := False, s_monitor := None\<rparr>) w;
                  w = drop_screen s w;
                  w = call_env env (Native ''drawins_reassign_screen'' [LUser s]) w
              in call_env env (EmitClass ''screen'' ''list'' []) w)
            (foreach fuel 0 clients (\<lambda>c w. relocate_client env s c w) w)))"

subsection \<open>Fake screens\<close>

definition adopt_client :: "env \<Rightarrow> nat \<Rightarrow> world \<Rightarrow> world" where
  "adopt_client env c w =
     (let g = geometry (cl w c);
          best = luaA_screen_getbycoord (ax g + c_div (aw g) 2) (ay g + c_div (ah g) 2) w
      in if best \<noteq> None \<and> best \<noteq> c_screen (cl w c)
         then screen_client_moveto_stay env c best w else w)"

definition luaA_screen_fake_add ::
  "nat \<Rightarrow> env \<Rightarrow> nat \<Rightarrow> nat option \<Rightarrow> int \<Rightarrow> int \<Rightarrow> int \<Rightarrow> int \<Rightarrow> world \<Rightarrow> world option" where
  "luaA_screen_fake_add fuel env addr virt x y width height w =
     (let geo = box (to_i32 x) (to_i32 y) (to_i32 width) (to_i32 height);
          w = upd_screen addr (\<lambda>_. \<lparr>s_monitor = None, s_index = int (length (screens w) + 1),
                s_valid = True, s_lifecycle = LIFECYCLE_USER, s_geometry = geo, s_workarea = geo,
                virtual_output = None\<rparr>) w;
          w = luaA_object_registry_ref addr w;
          w = w\<lparr>screens := screens w @ [addr]\<rparr>;
          w = call_env env (Native ''output_new_virtual'' []) w;
          w = upd_screen addr (\<lambda>x. x\<lparr>virtual_output := virt\<rparr>) w;
          w = screen_added env addr w;
          w = call_env env (EmitClass ''screen'' ''list'' []) w;
          w = (case virtual_output (sc w addr) of
                 None \<Rightarrow> w
               | Some p \<Rightarrow> call_env env (EmitClass ''output'' ''added'' [LUser p]) w)
      in foreach fuel 0 clients (\<lambda>c w. adopt_client env c w) w)"

definition luaA_screen_fake_remove :: "nat \<Rightarrow> env \<Rightarrow> nat option \<Rightarrow> world \<Rightarrow> world option" where
  "luaA_screen_fake_remove fuel env screen w =
     (case screen of
        None \<Rightarrow> Some w
      | Some s \<Rightarrow>
          if \<not> s_valid (sc w s) then Some w
          else
            (let w = (case virtual_output (sc w s) of
                        None \<Rightarrow> w
                      | Some p \<Rightarrow>
                          (let w = call_env env (EmitClass ''output'' ''removed'' [LUser p]) w;
                               w = call_env env (Native ''output_invalidate'' [LUser p]) w
                           in upd_screen s (\<lambda>x. x\<lparr>virtual_output := None\<rparr>) w))
             in screen_removed fuel env s w))"

definition luaA_screen_fake_resize ::
  "env \<Rightarrow> nat option \<Rightarrow> int \<Rightarrow> int \<Rightarrow> int \<Rightarrow> int \<Rightarrow> world \<Rightarrow> world" where
  "luaA_screen_fake_resize env screen x y width height w =
     (case screen of
        None \<Rightarrow> w
      | Some s \<Rightarrow>
          if \<not> s_valid (sc w s) then w
          else
            (let old = s_geometry (sc w s);
                 w = upd_screen s (\<lambda>t. t\<lparr>s_geometry :=
                       box (to_i32 x) (to_i32 y) (to_i32 width) (to_i32 height)\<rparr>) w
             in emit_screen env s ''property::geometry'' [LArea old] w))"

text \<open>None is the Lua error of a screen that is not in the array.\<close>

definition luaA_screen_swap :: "env \<Rightarrow> nat option \<Rightarrow> nat option \<Rightarrow> world \<Rightarrow> world option" where
  "luaA_screen_swap env s swp w =
     (case (s, swp) of
        (Some s, Some t) \<Rightarrow>
          if \<not> s_valid (sc w s) \<or> \<not> s_valid (sc w t) then Some w
          else if s = t then Some w
          else
            (case swap_refs s t (screens w) 0 None None of
               (Some i, Some j) \<Rightarrow>
                 (let w = w\<lparr>screens := (screens w)[i := screens w ! j, j := screens w ! i]\<rparr>;
                      w = upd_screen s (\<lambda>x. x\<lparr>s_index := int (j + 1)\<rparr>) w;
                      w = upd_screen t (\<lambda>x. x\<lparr>s_index := int (i + 1)\<rparr>) w;
                      w = call_env env (EmitClass ''screen'' ''list'' []) w;
                      w = emit_screen env t ''swapped'' [LBool True, luaA_screen_push (Some s) w] w
                  in Some (emit_screen env s ''swapped'' [LBool False, luaA_screen_push (Some t) w] w))
             | _ \<Rightarrow> None)
      | _ \<Rightarrow> Some w)"

subsection \<open>Indexing and iteration\<close>

definition luaA_screen_get_by_index :: "int \<Rightarrow> world \<Rightarrow> nat option" where
  "luaA_screen_get_by_index index w =
     (if index < 1 \<or> index > int (length (screens w)) then None
      else Some (screens w ! nat (index - 1)))"

text \<open>
  The index metamethod of the screen table, of a number, a userdata or a string; is_screen as in
  luaA_toudata, and lookup for the methods in the table itself.
\<close>

definition luaA_screen_module_index ::
  "(lval \<Rightarrow> nat option) \<Rightarrow> (lval \<Rightarrow> lval) \<Rightarrow> lval \<Rightarrow> world \<Rightarrow> lval" where
  "luaA_screen_module_index is_screen lookup key w =
     (case key of
        LInt index \<Rightarrow> obj_of (luaA_screen_get_by_index index w)
      | LUser u \<Rightarrow>
          (case is_screen key of
             Some s \<Rightarrow> if s_valid (sc w s) then key else LNil
           | None \<Rightarrow> LNil)
      | LStr k \<Rightarrow>
          if k = ''automatic_factory'' then LBool True
          else if k = ''primary'' then obj_of (luaA_screen_get_primary_screen w)
          else lookup key
      | _ \<Rightarrow> lookup key)"

text \<open>The assignment to the screen table; None is a Lua error, store the table's raw set.\<close>

definition luaA_screen_module_newindex ::
  "env \<Rightarrow> (lval \<Rightarrow> nat option) \<Rightarrow> string \<Rightarrow> lval \<Rightarrow> world \<Rightarrow> world option" where
  "luaA_screen_module_newindex env is_screen key v w =
     (if key = ''primary'' then
        map_option (\<lambda>p.
          if p \<noteq> None \<and> p \<noteq> primary_screen w
          then emit_screen env (the p) ''primary_changed'' [] (w\<lparr>primary_screen := p\<rparr>)
          else w) (luaA_checkscreen is_screen v w)
      else Some (call_env env (Native ''rawset'' [LStr key, v]) w))"

text \<open>The call metamethod: direct indexing, and the iterator with the previous screen.\<close>

definition screen_call_next :: "nat option \<Rightarrow> world \<Rightarrow> nat option" where
  "screen_call_next prev w =
     (let index = (case prev of None \<Rightarrow> 0 | Some p \<Rightarrow> s_index (sc w p))
      in if index \<ge> 0 \<and> index < int (length (screens w)) then Some (screens w ! nat index) else None)"

definition luaA_screen_call :: "(lval \<Rightarrow> nat option) \<Rightarrow> lval \<Rightarrow> lval \<Rightarrow> world \<Rightarrow> nat option" where
  "luaA_screen_call is_screen state control w =
     (case state of
        LInt index \<Rightarrow> luaA_screen_get_by_index index w
      | _ \<Rightarrow>
          if control = LNil then screen_call_next None w
          else (case is_screen control of None \<Rightarrow> None | Some p \<Rightarrow> screen_call_next (Some p) w))"

text \<open>The generic for loop of Lua over the screens: None when it still runs after n rounds.\<close>

fun screen_for :: "nat \<Rightarrow> nat option \<Rightarrow> world \<Rightarrow> nat list option" where
  "screen_for 0 prev w = None"
| "screen_for (Suc n) prev w =
     (case screen_call_next prev w of
        None \<Rightarrow> Some []
      | Some s \<Rightarrow> map_option (Cons s) (screen_for n (Some s) w))"

subsection \<open>The index of a new screen\<close>

text \<open>
  createmon counts the other monitors, updatemons the other monitors that have a screen.
\<close>

definition createmon_screen_index :: "nat \<Rightarrow> world \<Rightarrow> int" where
  "createmon_screen_index m w = 1 + int (length (filter (\<lambda>tmp. tmp \<noteq> m) (mons w)))"

definition updatemons_screen_index :: "nat \<Rightarrow> world \<Rightarrow> int" where
  "updatemons_screen_index m w =
     1 + int (length (filter (\<lambda>tmp. tmp \<noteq> m \<and> luaA_screen_get_by_monitor (Some tmp) w \<noteq> None) (mons w)))"

definition createmon_screen :: "nat \<Rightarrow> nat \<Rightarrow> world \<Rightarrow> world" where
  "createmon_screen addr m w = luaA_screen_new addr m (createmon_screen_index m w) w"

subsection \<open>The name\<close>

text \<open>
  The heap of strings, a block per address that is allocated; reading or freeing a block that
  is not is undefined, the result None. alloc is the address strdup returns.
\<close>

type_synonym string_heap = "nat \<Rightarrow> string option"

definition luaA_screen_set_name ::
  "nat \<Rightarrow> string \<Rightarrow> nat option \<times> string_heap \<Rightarrow> (bool \<times> nat option \<times> string_heap) option" where
  "luaA_screen_set_name alloc new_name = (\<lambda>(name, h).
     let old_name = name;
         h = (case name of None \<Rightarrow> h | Some a \<Rightarrow> h(a := None));
         name = Some alloc;
         h = h(alloc := Some new_name)
     in case old_name of
          None \<Rightarrow> Some (True, name, h)
        | Some a \<Rightarrow>
            (case h a of
               None \<Rightarrow> None
             | Some old \<Rightarrow>
                 (let changed = (old \<noteq> new_name); h = h(a := None) in Some (changed, name, h))))"

subsection \<open>Invariants that no client operation touches\<close>

locale quiet_inv =
  fixes P :: "world \<Rightarrow> bool"
  assumes inv_settled: "P (settled w) = P w"
    and inv_client: "P (upd_client c f w) = P w"
    and inv_trace: "P (w\<lparr>trace := x\<rparr>) = P w"
begin

lemma inv_call: "preserves env P \<Longrightarrow> P w \<Longrightarrow> P (call_env env k w)"
  by (rule call_env_preserves) (simp_all add: inv_trace)

lemma inv_eqI: "settled v = settled w \<Longrightarrow> P v = P w"
  using inv_settled by metis

lemma inv_simps [simp]:
  "P (enqueue op w) = P w" "P (w\<lparr>focus_client := d\<rparr>) = P w" "P (w\<lparr>focus_need_update := b\<rparr>) = P w"
  by (rule inv_eqI, simp add: settled_def enqueue_def)+

lemma inv_need_update [simp]: "P (banning_need_update env w) = P w"
  by (rule settled_view) (rule inv_settled)

lemma inv_urgent: "preserves env P \<Longrightarrow> P w \<Longrightarrow> P (client_set_urgent env c v w)"
  by (simp add: client_set_urgent_def inv_client inv_call)

lemma inv_focus_update: "preserves env P \<Longrightarrow> P w \<Longrightarrow> P (snd (client_focus_update env c w))"
  by (auto simp: client_focus_update_def client_unfocus_internal_def Let_def inv_urgent split: option.split)

lemma inv_focus:
  assumes "preserves env P" and "P w" shows "P (client_focus env c w)"
proof -
  have "P u" if "client_focus_update env d w = (b, u)" for d b u
    using inv_focus_update [OF assms, of d] that by simp
  then show ?thesis using assms by (auto simp: client_focus_def Let_def inv_call split: prod.split option.split)
qed

lemma inv_moveto_stay: "preserves env P \<Longrightarrow> P w \<Longrightarrow> P (screen_client_moveto_stay env c s w)"
  by (simp add: screen_client_moveto_stay_def screen_emit_moved_def screen_reassign_def Let_def
      inv_client inv_call inv_focus)

lemma inv_relocate: "preserves env P \<Longrightarrow> P w \<Longrightarrow> P (relocate_client env s c w)"
  by (simp add: relocate_client_def Let_def inv_moveto_stay)

lemma inv_adopt: "preserves env P \<Longrightarrow> P w \<Longrightarrow> P (adopt_client env c w)"
  by (simp add: adopt_client_def Let_def inv_moveto_stay)

lemma inv_emit_screen: "preserves env P \<Longrightarrow> P w \<Longrightarrow> P (emit_screen env s n args w)"
  by (simp add: emit_screen_def inv_call)

end

subsection \<open>The indices of the screens\<close>

definition indices_ok :: "world \<Rightarrow> bool" where
  "indices_ok w \<longleftrightarrow> distinct (screens w) \<and>
     (\<forall>i < length (screens w). s_index (sc w (screens w ! i)) = int (i + 1))"

interpretation indices: quiet_inv indices_ok
  by unfold_locales (simp_all add: indices_ok_def settled_def)

lemma indices_simps [simp]:
  "indices_ok (w\<lparr>primary_screen := p\<rparr>) = indices_ok w"
  "(\<And>x. s_index (f x) = s_index x) \<Longrightarrow> indices_ok (upd_screen s f w) = indices_ok w"
  by (auto simp: indices_ok_def)

lemma indices_append:
  assumes "indices_ok w" "a \<notin> set (screens w)" "s_index (sc v a) = int (length (screens w) + 1)"
    and "screens v = screens w @ [a]" "\<And>s. s \<noteq> a \<Longrightarrow> sc v s = sc w s"
  shows "indices_ok v"
  using assms by (auto simp: indices_ok_def nth_append less_Suc_eq) (metis nth_mem)

lemma reindex_index:
  assumes "distinct (screens w)"
  shows "screens (reindex_from i w) = screens w"
    and "j < length (screens w) \<Longrightarrow> s_index (sc (reindex_from i w) (screens w ! j)) =
      (if i \<le> j then int (j + 1) else s_index (sc w (screens w ! j)))"
proof -
  let ?f = "\<lambda>j w. upd_screen (screens w ! j) (\<lambda>x. x\<lparr>s_index := int (j + 1)\<rparr>) w"
  have *: "screens (fold ?f js w) = screens w \<and> (j < length (screens w) \<longrightarrow>
      s_index (sc (fold ?f js w) (screens w ! j)) =
        (if j \<in> set js then int (j + 1) else s_index (sc w (screens w ! j))))"
    if "set js \<subseteq> {..<length (screens w)}" "distinct (screens w)" for js j w
    using that
  proof (induction js arbitrary: w)
    case (Cons k js)
    then show ?case using Cons.IH [of "?f k w"] by (auto simp: nth_eq_iff_index_eq)
  qed simp
  have sub: "set [i..<length (screens w)] \<subseteq> {..<length (screens w)}" by auto
  show "screens (reindex_from i w) = screens w"
    using * [OF sub assms] by (simp add: reindex_from_def)
  show "j < length (screens w) \<Longrightarrow> s_index (sc (reindex_from i w) (screens w ! j)) =
      (if i \<le> j then int (j + 1) else s_index (sc w (screens w ! j)))"
    using * [OF sub assms, of j] by (simp add: reindex_from_def)
qed

lemma drop_screen_indices:
  assumes "indices_ok w" shows "indices_ok (drop_screen s w)"
proof (cases "index_of s (screens w)")
  case (Some i)
  let ?v = "w\<lparr>screens := remove1 s (screens w)\<rparr>"
  have d: "distinct (screens ?v)" using assms by (simp add: indices_ok_def)
  have i: "i < length (screens w)" and rm: "screens ?v = take i (screens w) @ drop (Suc i) (screens w)"
    using index_of_Some [OF Some] remove_at_index [OF Some] by simp_all
  have "s_index (sc (reindex_from i ?v) (screens ?v ! j)) = int (j + 1)" if "j < length (screens ?v)" for j
  proof (cases "i \<le> j")
    case False
    then have "screens ?v ! j = screens w ! j" using i by (simp only: rm) (simp add: nth_append)
    then show ?thesis using reindex_index(2) [OF d that, of i] False assms i
      by (simp add: indices_ok_def)
  qed (use reindex_index(2) [OF d that, of i] in simp)
  then show ?thesis using Some d reindex_index(1) [OF d, of i] rm
    by (simp add: drop_screen_def indices_ok_def)
qed (simp add: drop_screen_def assms)

text \<open>A loop over the clients that keeps the list ends, and keeps what its body keeps.\<close>

lemma foreach_clients_inv:
  assumes "\<And>c w. clients (f c w) = clients w" "\<And>c w. P w \<Longrightarrow> P (f c w)" "P w" "length (clients w) < n"
  shows "\<exists>w'. foreach n 0 clients f w = Some w' \<and> P w' \<and> clients w' = clients w"
proof -
  have "P (fold f xs w) \<and> clients (fold f xs w) = clients w" for xs
    using assms(3) by (induction xs arbitrary: w) (simp_all add: assms(1,2))
  then show ?thesis using foreach_fold [of clients f w 0 n] assms by simp
qed

interpretation client_list: quiet_view clients
  by unfold_locales (simp_all add: settled_def)

lemma clients_kept:
  assumes "keeps env clients"
  shows "clients (relocate_client env s c w) = clients w" "clients (adopt_client env c w) = clients w"
    "clients (emit_screen env s n args w) = clients w"
  using assms by (simp_all add: relocate_client_def adopt_client_def emit_screen_def Let_def)

lemma screen_removed_indices:
  assumes "keeps env clients" "preserves env indices_ok" "indices_ok w"
  shows "\<exists>w'. screen_removed (length (clients w) + 1) env s w = Some w' \<and> indices_ok w'"
proof (cases "s_valid (sc w s)")
  case True
  let ?w1 = "emit_screen env s ''removed'' [] w"
  define w2 where "w2 = (if primary_screen ?w1 = Some s then ?w1\<lparr>primary_screen := None\<rparr> else ?w1)"
  have w2: "indices_ok w2" "clients w2 = clients w"
    using assms by (simp_all add: w2_def indices.inv_emit_screen clients_kept)
  obtain w3 where w3: "foreach (length (clients w) + 1) 0 clients (\<lambda>c w. relocate_client env s c w) w2 = Some w3"
      "indices_ok w3"
    using foreach_clients_inv [of "\<lambda>c w. relocate_client env s c w" indices_ok w2 "length (clients w) + 1"]
      indices.inv_relocate assms clients_kept w2 by auto
  show ?thesis using True w3 assms(2) unfolding screen_removed_def Let_def w2_def [symmetric]
    by (simp add: drop_screen_indices indices.inv_call)
qed (simp add: screen_removed_def assms(3))

lemma fake_remove_indices:
  assumes "keeps env clients" "preserves env indices_ok" "indices_ok w"
  shows "\<exists>w'. luaA_screen_fake_remove (length (clients w) + 1) env s w = Some w' \<and> indices_ok w'"
proof -
  have "\<exists>w'. screen_removed (length (clients w) + 1) env a v = Some w' \<and> indices_ok w'"
    if "indices_ok v" "clients v = clients w" for a v
    using screen_removed_indices [OF assms(1,2) that(1), of a] that(2) by simp
  then show ?thesis
    using assms by (simp add: luaA_screen_fake_remove_def Let_def indices.inv_call split: option.split)
qed

lemma fake_add_indices:
  assumes "keeps env clients" "preserves env indices_ok" "indices_ok w" "a \<notin> set (screens w)"
  shows "\<exists>w'. luaA_screen_fake_add (length (clients w) + 1) env a virt x y wd ht w = Some w' \<and> indices_ok w'"
proof -
  define geo where "geo = box (to_i32 x) (to_i32 y) (to_i32 wd) (to_i32 ht)"
  define w1 where "w1 = (luaA_object_registry_ref a
    (upd_screen a (\<lambda>_. \<lparr>s_monitor = None, s_index = int (length (screens w) + 1),
                s_valid = True, s_lifecycle = LIFECYCLE_USER, s_geometry = geo, s_workarea = geo,
                virtual_output = None\<rparr>) w))"
  define w2 where "w2 = w1\<lparr>screens := screens w1 @ [a]\<rparr>"
  have w2: "indices_ok w2" "clients w2 = clients w"
    using indices_append [of w a w2] assms(3,4)
    by (simp_all add: w2_def w1_def luaA_object_registry_ref_def)
  define w3 where "w3 = upd_screen a (\<lambda>x. x\<lparr>virtual_output := virt\<rparr>)
    (call_env env (Native ''output_new_virtual'' []) w2)"
  define w4 where "w4 = call_env env (EmitClass ''screen'' ''list'' []) (screen_added env a w3)"
  define w5 where "w5 = (case virtual_output (sc w4 a) of
    None \<Rightarrow> w4 | Some p \<Rightarrow> call_env env (EmitClass ''output'' ''added'' [LUser p]) w4)"
  have "indices_ok w5" "clients w5 = clients w"
    using w2 assms(1,2) by (simp_all add: w5_def w4_def w3_def screen_added_def indices.inv_call split: option.split)
  then show ?thesis
    using foreach_clients_inv [of "\<lambda>c w. adopt_client env c w" indices_ok w5 "length (clients w) + 1"]
      indices.inv_adopt [OF assms(2)] assms(1)
    unfolding luaA_screen_fake_add_def Let_def geo_def [symmetric] w1_def [symmetric] w2_def [symmetric]
      w3_def [symmetric] w4_def [symmetric] w5_def [symmetric]
    by (auto simp: clients_kept)
qed

lemma swap_indices:
  assumes "preserves env indices_ok" "indices_ok w"
  shows "case luaA_screen_swap env s t w of None \<Rightarrow> True | Some w' \<Rightarrow> indices_ok w'"
proof (cases "\<exists>a b i j. s = Some a \<and> t = Some b \<and> a \<noteq> b \<and> s_valid (sc w a) \<and> s_valid (sc w b) \<and>
    swap_refs a b (screens w) 0 None None = (Some i, Some j)")
  case True
  then obtain a b i j where ab: "s = Some a" "t = Some b" "a \<noteq> b" "s_valid (sc w a)" "s_valid (sc w b)"
    and sw: "swap_refs a b (screens w) 0 None None = (Some i, Some j)" by blast
  have d: "distinct (screens w)" using assms(2) by (simp add: indices_ok_def)
  have ij: "index_of a (screens w) = Some i" "index_of b (screens w) = Some j"
    using swap_refs_index [OF ab(3), of None None "screens w" 0] sw d
    by (cases "index_of a (screens w)"; cases "index_of b (screens w)"; simp)+
  note i = index_of_Some [OF ij(1)] and j = index_of_Some [OF ij(2)]
  let ?w1 = "w\<lparr>screens := (screens w)[i := screens w ! j, j := screens w ! i]\<rparr>"
  define w2 where "w2 = upd_screen b (\<lambda>x. x\<lparr>s_index := int (i + 1)\<rparr>)
    (upd_screen a (\<lambda>x. x\<lparr>s_index := int (j + 1)\<rparr>) ?w1)"
  have "distinct ((screens w)[i := screens w ! j, j := screens w ! i])"
    using d i j by (metis distinct_swap)
  then have "distinct (screens w2)" by (simp add: w2_def)
  moreover have "s_index (sc w2 (screens w2 ! k)) = int (k + 1)" if "k < length (screens w2)" for k
    using that i j d ab(3) assms(2)
    by (auto simp: w2_def indices_ok_def nth_list_update nth_eq_iff_index_eq)
  ultimately have "indices_ok w2" by (simp add: indices_ok_def)
  moreover have "luaA_screen_swap env s t w =
      Some (let w = call_env env (EmitClass ''screen'' ''list'' []) w2;
                w = emit_screen env b ''swapped'' [LBool True, luaA_screen_push (Some a) w] w
            in emit_screen env a ''swapped'' [LBool False, luaA_screen_push (Some b) w] w)"
    using ab sw by (simp add: luaA_screen_swap_def Let_def w2_def)
  ultimately show ?thesis using assms(1)
    by (simp add: Let_def indices.inv_emit_screen indices.inv_call)
qed (auto simp: luaA_screen_swap_def assms(2) split: option.split prod.split)

lemma fake_resize_indices:
  "preserves env indices_ok \<Longrightarrow> indices_ok w \<Longrightarrow> indices_ok (luaA_screen_fake_resize env s x y wd ht w)"
  by (simp add: luaA_screen_fake_resize_def Let_def indices.inv_emit_screen split: option.split)

lemma screen_for_all:
  assumes "indices_ok w"
  shows "screen_for (length (screens w) + 1) None w = Some (screens w)"
proof -
  have *: "screen_call_next (if i = 0 then None else Some (screens w ! (i - 1))) w =
      (if i < length (screens w) then Some (screens w ! i) else None)" if "i \<le> length (screens w)" for i
    using assms that by (cases i) (auto simp: screen_call_next_def indices_ok_def nat_add_distrib)
  have "screen_for (length (screens w) + 1 - i) (if i = 0 then None else Some (screens w ! (i - 1))) w =
      Some (drop i (screens w))" if "i \<le> length (screens w)" for i
    using that
  proof (induction "length (screens w) - i" arbitrary: i)
    case 0
    then show ?case using * [of i] by simp
  next
    case (Suc n)
    then have lt: "i < length (screens w)" by simp
    then have "length (screens w) + 1 - i = Suc (length (screens w) + 1 - Suc i)" by simp
    then show ?case using Suc.hyps(1) [of "Suc i"] Suc.hyps(2) * [of i] lt
      by (simp add: Cons_nth_drop_Suc del: One_nat_def)
  qed
  from this [of 0] show ?thesis by simp
qed

text \<open>
  C15: The i-th screen of the array carries the index i. Adding and removing a fake screen and
  removing the screen of a monitor return (as long as nothing changes the list of clients) and keep
  that; swapping and resizing screens keep it; so does the screen of a new monitor, in createmon
  when there are as many screens as other monitors and in updatemons when there are as many as other
  monitors with a screen. All for handlers that keep it, as those that run these operations do. A
  loop over the screen table then visits every screen once, in the order of the array, and ends.
\<close>

theorem screen_indices_kept:
  assumes "preserves env indices_ok" and "keeps env clients" and "indices_ok w"
    and "a \<notin> set (screens w)"
  shows "(\<exists>w'. luaA_screen_fake_add (length (clients w) + 1) env a virt x y wd ht w = Some w' \<and> indices_ok w') \<and>
    (\<exists>w'. luaA_screen_fake_remove (length (clients w) + 1) env s w = Some w' \<and> indices_ok w') \<and>
    (\<exists>w'. screen_removed (length (clients w) + 1) env r w = Some w' \<and> indices_ok w') \<and>
    (case luaA_screen_swap env s t w of None \<Rightarrow> True | Some w' \<Rightarrow> indices_ok w') \<and>
    indices_ok (luaA_screen_fake_resize env s x y wd ht w) \<and>
    (length (filter (\<lambda>tmp. tmp \<noteq> m \<and> luaA_screen_get_by_monitor (Some tmp) w \<noteq> None) (mons w)) = length (screens w) \<longrightarrow>
       indices_ok (luaA_screen_new a m (updatemons_screen_index m w) w)) \<and>
    (length (filter (\<lambda>tmp. tmp \<noteq> m) (mons w)) = length (screens w) \<longrightarrow> indices_ok (createmon_screen a m w)) \<and>
    screen_for (length (screens w) + 1) None w = Some (screens w)"
proof (intro conjI impI)
  show "\<exists>w'. luaA_screen_fake_add (length (clients w) + 1) env a virt x y wd ht w = Some w' \<and> indices_ok w'"
    using fake_add_indices [OF assms(2,1,3,4)] .
  show "\<exists>w'. luaA_screen_fake_remove (length (clients w) + 1) env s w = Some w' \<and> indices_ok w'"
    using fake_remove_indices [OF assms(2,1,3)] .
  show "\<exists>w'. screen_removed (length (clients w) + 1) env r w = Some w' \<and> indices_ok w'"
    using screen_removed_indices [OF assms(2,1,3)] .
  show "case luaA_screen_swap env s t w of None \<Rightarrow> True | Some w' \<Rightarrow> indices_ok w'"
    using swap_indices [OF assms(1,3)] .
  show "indices_ok (luaA_screen_fake_resize env s x y wd ht w)"
    using fake_resize_indices [OF assms(1,3)] .
  show "screen_for (length (screens w) + 1) None w = Some (screens w)"
    using screen_for_all [OF assms(3)] .
  show "indices_ok (createmon_screen a m w)"
    if "length (filter (\<lambda>tmp. tmp \<noteq> m) (mons w)) = length (screens w)"
    using indices_append [OF assms(3,4), of "createmon_screen a m w"] that
    by (simp add: createmon_screen_def luaA_screen_new_def createmon_screen_index_def Let_def)
  show "indices_ok (luaA_screen_new a m (updatemons_screen_index m w) w)"
    if "length (filter (\<lambda>tmp. tmp \<noteq> m \<and> luaA_screen_get_by_monitor (Some tmp) w \<noteq> None) (mons w)) = length (screens w)"
    using indices_append [OF assms(3,4), of "luaA_screen_new a m (updatemons_screen_index m w) w"] that
    by (simp add: luaA_screen_new_def updatemons_screen_index_def Let_def)
qed

definition indexed :: world where
  "indexed = world0\<lparr>screens := [7, 8], mons := [1, 2], clients := [5], sc := (\<lambda>s.
     screen0\<lparr>s_valid := True, s_index := int s - 6, s_geometry := box ((int s - 7) * 1920) 0 1920 1080\<rparr>)\<rparr>"

lemma indexed_ok: "indices_ok indexed"
  by (auto simp: indices_ok_def indexed_def less_Suc_eq)

theorem screen_indices_kept_witness:
  "screen_for 3 None indexed = Some [7, 8] \<and>
   (\<exists>w'. luaA_screen_fake_remove 2 idle (Some 7) indexed = Some w' \<and> indices_ok w') \<and>
   (\<exists>w'. screen_removed 2 idle 8 indexed = Some w' \<and> indices_ok w') \<and>
   (\<exists>w'. luaA_screen_fake_add 2 idle 9 (Some 3) 0 1080 800 600 indexed = Some w' \<and> indices_ok w') \<and>
   indices_ok (createmon_screen 9 3 indexed)"
  using screen_indices_kept [where env = idle and w = indexed and a = 9 and virt = "Some 3" and x = 0
      and y = 1080 and wd = 800 and ht = 600 and s = "Some 7" and m = 3 and r = 8, OF idle_preserves idle_keeps indexed_ok]
  by (simp add: indexed_def numeral_2_eq_2 numeral_3_eq_3)

text \<open>
  C35: Plugging in a monitor while there are more screens than other monitors, as with a fake
  screen, gives the new screen an index that another one has, and the loop over the screen table
  never ends.
\<close>

theorem hotplug_screen_loops:
  assumes "indices_ok w" and "a \<notin> set (screens w)"
    and "length (filter (\<lambda>tmp. tmp \<noteq> m) (mons w)) < length (screens w)"
  shows "\<not> indices_ok (createmon_screen a m w) \<and> screen_for n None (createmon_screen a m w) = None"
proof -
  let ?v = "createmon_screen a m w"
  let ?k = "length (filter (\<lambda>tmp. tmp \<noteq> m) (mons w))"
  have scr: "screens ?v = screens w @ [a]" and new: "s_index (sc ?v a) = int ?k + 1"
    and old: "\<And>s. s \<noteq> a \<Longrightarrow> sc ?v s = sc w s"
    by (simp_all add: createmon_screen_def luaA_screen_new_def createmon_screen_index_def Let_def)
  have "s_index (sc ?v (screens ?v ! length (screens w))) \<noteq> int (length (screens w) + 1)"
    using assms(3) new by (simp add: scr)
  then have bad: "\<not> indices_ok ?v" by (auto simp: indices_ok_def scr)
  have idx: "0 \<le> s_index (sc ?v s) \<and> s_index (sc ?v s) < int (length (screens ?v))" if s: "s \<in> set (screens ?v)" for s
  proof (cases "s = a")
    case False
    with s obtain i where "i < length (screens w)" "screens w ! i = s" by (auto simp: scr in_set_conv_nth)
    with assms(1) old [OF False] show ?thesis by (auto simp: indices_ok_def scr)
  qed (use assms(3) new scr in simp)
  have goes: "\<exists>s. screen_call_next p ?v = Some s \<and> s \<in> set (screens ?v)" if p: "set_option p \<subseteq> set (screens ?v)" for p
  proof -
    define k where "k = (case p of None \<Rightarrow> 0 | Some p \<Rightarrow> s_index (sc ?v p))"
    have k: "0 \<le> k" "k < int (length (screens ?v))" using p idx [of "the p"] scr by (cases p; simp add: k_def)+
    then have "nat k < length (screens ?v)" by simp
    from nth_mem [OF this] k show ?thesis by (simp add: screen_call_next_def k_def [symmetric] del: nat_eq_iff)
  qed
  have "screen_for n p ?v = None" if "set_option p \<subseteq> set (screens ?v)" for n p
    using that
  proof (induction n arbitrary: p)
    case (Suc n)
    from goes [OF Suc.prems] obtain s where "screen_call_next p ?v = Some s" "s \<in> set (screens ?v)" by blast
    with Suc.IH [of "Some s"] show ?case by simp
  qed simp
  then have "screen_for n None ?v = None" by simp
  with bad show ?thesis by simp
qed

theorem hotplug_screen_loops_witness:
  "screen_for 1000 None (createmon_screen 9 2 (indexed\<lparr>mons := [1, 2]\<rparr>)) = None"
  using hotplug_screen_loops [of "indexed\<lparr>mons := [1, 2]\<rparr>" 9 2 1000] indexed_ok
  by (simp add: indices_ok_def indexed_def)

subsection \<open>Clients left on a removed screen\<close>

definition left_view :: "nat \<Rightarrow> world \<Rightarrow> nat option \<times> area \<times> nat list \<times> nat list \<times> (nat \<Rightarrow> screen)" where
  "left_view c w = (c_screen (cl w c), geometry (cl w c), clients w, screens w, sc w)"

interpretation left: focus_view "left_view c" for c
  by unfold_locales (auto simp: left_view_def settled_def)

lemma left_moveto:
  "d \<noteq> c \<Longrightarrow> keeps env (left_view c) \<Longrightarrow> left_view c (screen_client_moveto_stay env d s w) = left_view c w"
  by (simp add: screen_client_moveto_stay_def screen_emit_moved_def screen_reassign_def Let_def)
    (simp add: left_view_def)

lemma left_eq: "left_view c v = left_view c w \<longleftrightarrow> c_screen (cl v c) = c_screen (cl w c) \<and>
    geometry (cl v c) = geometry (cl w c) \<and> clients v = clients w \<and> screens v = screens w \<and> sc v = sc w"
  by (auto simp: left_view_def)

definition home :: "nat \<Rightarrow> world \<Rightarrow> nat option" where
  "home c w = (let g = geometry (cl w c) in
     luaA_screen_getbycoord (ax g + c_div (aw g) 2) (ay g + c_div (ah g) 2) w)"

lemma left_relocate:
  assumes "keeps env (left_view c)" and "home c w = Some s"
  shows "left_view c (relocate_client env s d w) = left_view c w"
  using assms by (cases "d = c") (simp_all add: relocate_client_def home_def Let_def left_moveto)

lemma left_relocate_all:
  assumes "keeps env (left_view c)" and "home c w = Some s"
  shows "left_view c (fold (relocate_client env s) xs w) = left_view c w"
  using assms(2)
proof (induction xs arbitrary: w)
  case (Cons d xs)
  note step = left_relocate [OF assms(1) Cons.prems, of d]
  have "home c (relocate_client env s d w) = Some s"
    using step Cons.prems getbycoord_cong [of "relocate_client env s d w" w] by (simp add: left_eq home_def)
  from Cons.IH [OF this] step show ?case by simp
qed simp

lemma reindex_other:
  "cl (reindex_from i w) = cl w" "s_valid (sc (reindex_from i w) s) = s_valid (sc w s)"
  "screens (reindex_from i w) = screens w" "clients (reindex_from i w) = clients w"
proof -
  have *: "cl (fold (\<lambda>j w. upd_screen (screens w ! j) (\<lambda>x. x\<lparr>s_index := int (j + 1)\<rparr>) w) js w) = cl w \<and>
    s_valid (sc (fold (\<lambda>j w. upd_screen (screens w ! j) (\<lambda>x. x\<lparr>s_index := int (j + 1)\<rparr>) w) js w) s) = s_valid (sc w s) \<and>
    screens (fold (\<lambda>j w. upd_screen (screens w ! j) (\<lambda>x. x\<lparr>s_index := int (j + 1)\<rparr>) w) js w) = screens w \<and>
    clients (fold (\<lambda>j w. upd_screen (screens w ! j) (\<lambda>x. x\<lparr>s_index := int (j + 1)\<rparr>) w) js w) = clients w" for js
    by (induction js arbitrary: w) simp_all
  show "cl (reindex_from i w) = cl w" "s_valid (sc (reindex_from i w) s) = s_valid (sc w s)"
    "screens (reindex_from i w) = screens w" "clients (reindex_from i w) = clients w"
    using * by (simp_all add: reindex_from_def)
qed

text \<open>
  A client of the screen that is being removed whose centre lies in that screen, and in no
  screen before it, is not moved anywhere, however many screens are left: the lookup of its new
  screen still finds the removed one, and the client ends up on a screen that is not valid and
  not in the array any more.
\<close>

theorem removed_screen_keeps_clients:
  assumes "keeps env (left_view c)" and "s_valid (sc w s)" and "distinct (screens w)"
    and "c_screen (cl w c) = Some s"
    and "find (\<lambda>t. s_valid (sc w t) \<and> in_box (ax (geometry (cl w c)) + c_div (aw (geometry (cl w c))) 2)
           (ay (geometry (cl w c)) + c_div (ah (geometry (cl w c))) 2) (s_geometry (sc w t))) (screens w) = Some s"
  shows "\<exists>w'. screen_removed (length (clients w) + 1) env s w = Some w' \<and>
    c_screen (cl w' c) = Some s \<and> \<not> s_valid (sc w' s) \<and> screens w' = remove1 s (screens w) \<and> s \<notin> set (screens w')"
proof -
  let ?w1 = "emit_screen env s ''removed'' [] w"
  define w2 where "w2 = (if primary_screen ?w1 = Some s then ?w1\<lparr>primary_screen := None\<rparr> else ?w1)"
  have home: "home c w = Some s"
    unfolding home_def Let_def luaA_screen_getbycoord_def by (rule getbycoord_hit) (rule assms(5))
  have "left_view c ?w1 = left_view c w" using assms(1) by (simp add: emit_screen_def)
  then have w2: "left_view c w2 = left_view c w" by (simp add: w2_def left_eq)
  then have home2: "home c w2 = Some s"
    using home getbycoord_cong [of w2 w] by (simp add: left_eq home_def)
  have kept: "keeps env clients" using assms(1) by (simp add: keeps_def left_view_def)
  define w3 where "w3 = fold (relocate_client env s) (clients w2) w2"
  have loop: "foreach (length (clients w) + 1) 0 clients (\<lambda>c w. relocate_client env s c w) w2 = Some w3"
    using foreach_fold [of clients "relocate_client env s" w2 0 "length (clients w) + 1"] clients_kept(1) [OF kept] w2
    by (simp add: w3_def left_eq)
  have w3: "left_view c w3 = left_view c w"
    using left_relocate_all [OF assms(1) home2] w2 by (simp add: w3_def)
  define w4 where "w4 = drop_screen s (upd_screen s (\<lambda>x. x\<lparr>s_valid := False, s_monitor := None\<rparr>) w3)"
  have "\<exists>i. index_of s (screens w) = Some i"
    using assms(5) index_of_None [of s "screens w"] by (auto simp: find_Some_iff)
  then obtain i where i: "index_of s (screens w) = Some i" by blast
  have w4: "c_screen (cl w4 c) = Some s" "\<not> s_valid (sc w4 s)" "screens w4 = remove1 s (screens w)"
    using w3 i assms(4) by (simp_all add: w4_def drop_screen_def left_eq reindex_other remove_at_index)
  define w5 where "w5 = call_env env (EmitClass ''screen'' ''list'' []) (call_env env (Native ''drawins_reassign_screen'' [LUser s]) w4)"
  have "left_view c w5 = left_view c w4" using assms(1) by (simp add: w5_def)
  then have w5: "c_screen (cl w5 c) = Some s" "\<not> s_valid (sc w5 s)" "screens w5 = remove1 s (screens w)"
    using w4 by (simp_all add: left_eq)
  have "screen_removed (length (clients w) + 1) env s w = Some w5"
    using assms(2) loop unfolding screen_removed_def Let_def w2_def [symmetric]
    by (simp add: w5_def w4_def)
  with w5 assms(3) show ?thesis by (intro exI [of _ w5]) auto
qed

theorem removed_screen_keeps_clients_witness:
  "\<exists>w'. screen_removed 2 idle 7 (indexed\<lparr>cl := (\<lambda>_. client0\<lparr>geometry := box 10 10 100 80, c_screen := Some 7\<rparr>)\<rparr>) = Some w' \<and>
     c_screen (cl w' 5) = Some 7 \<and> screens w' = [8]"
  using removed_screen_keeps_clients [of idle 5 "indexed\<lparr>cl := (\<lambda>_. client0\<lparr>geometry := box 10 10 100 80, c_screen := Some 7\<rparr>)\<rparr>" 7]
  by (simp add: indexed_def in_box_def c_div_def numeral_2_eq_2) blast

text \<open>
  Setting the name of a screen that has one reads the old name after it was freed, unless
  the allocator returned the same block, in which case the setter frees the name it has just
  stored and the screen is left with a name that is not allocated; only the first setting works.
\<close>

lemma screen_name_freed:
  assumes "h a = Some old" and "alloc = a \<or> h alloc = None"
  shows "luaA_screen_set_name alloc new_name (Some a, h) =
      (if alloc = a then Some (False, Some a, h(a := None)) else None) \<and>
    luaA_screen_set_name alloc new_name (None, h) = Some (True, Some alloc, h(alloc := Some new_name))"
  using assms by (auto simp: luaA_screen_set_name_def Let_def)

lemma screen_name_freed_witness:
  "luaA_screen_set_name 5 ''left'' (Some 4, [4 \<mapsto> ''right'']) = None"
  using screen_name_freed [of "[4 \<mapsto> ''right'']" 4 "''right''" 5 "''left''"] by simp

end
