(* ===== verification/Focus.thy ===== *)
theory Focus
  imports Stack
begin

text \<open>
  The keyboard focus: focusclient, focustop and focus_restore of src/focus.c, the seat focus of
  src/somewm_api.c, the client helpers of src/client.h they use and the pointer constraint of
  src/input.c. The calls into wlroots (activation, keyboard enter and clear, popups) are calls
  of the environment; what wlroots tells of a surface is in the state. The lemmas show what has
  the focus afterwards, which signals are queued, and where a focused client is in the stack.
\<close>

subsection \<open>Clients and surfaces\<close>

definition client_is_x11 :: "client \<Rightarrow> bool" where
  "client_is_x11 x \<longleftrightarrow> client_type x = X11"

definition client_has_surface :: "client \<Rightarrow> bool" where
  "client_has_surface x \<longleftrightarrow> has_surface x"

text \<open>The wlr_surface of a client, None for a null pointer.\<close>

definition client_surface :: "client \<Rightarrow> nat option" where
  "client_surface x = surface x"

definition client_is_unmanaged :: "client \<Rightarrow> bool" where
  "client_is_unmanaged x \<longleftrightarrow> (if client_is_x11 x then override_redirect x else False)"

text \<open>The field wants_focus is the answer of the two queries of wlroots.\<close>

definition client_wants_focus :: "client \<Rightarrow> bool" where
  "client_wants_focus x \<longleftrightarrow> client_is_unmanaged x \<and> wants_focus x"

datatype toplevel = TOP_NONE | TOP_CLIENT nat | TOP_LAYER nat

text \<open>
  The loop up the popups of toplevel_from_wlr_surface: a parent that is no xdg surface starts
  again from its root surface. None is still going up after the given steps.
\<close>

fun toplevel_up :: "nat \<Rightarrow> nat \<Rightarrow> world \<Rightarrow> toplevel option" where
  "toplevel_up 0 s w = None"
| "toplevel_up (Suc n) s w =
     (case sf_role (surf w s) of
        Xwayland_surface c \<Rightarrow> Some (TOP_CLIENT c)
      | Layer_surface l \<Rightarrow> Some (TOP_LAYER l)
      | Xdg_popup None \<Rightarrow> Some TOP_NONE
      | Xdg_popup (Some p) \<Rightarrow>
          (case sf_role (surf w p) of
             Xdg_popup _ \<Rightarrow> toplevel_up n p w
           | Xdg_toplevel _ \<Rightarrow> toplevel_up n p w
           | Xdg_none \<Rightarrow> toplevel_up n p w
           | _ \<Rightarrow> toplevel_up n (root_surface (surf w p)) w)
      | Xdg_toplevel c \<Rightarrow> Some (TOP_CLIENT c)
      | Xdg_none \<Rightarrow> Some TOP_NONE
      | Other_surface \<Rightarrow> Some TOP_NONE)"

definition toplevel_from_wlr_surface :: "nat \<Rightarrow> nat option \<Rightarrow> world \<Rightarrow> toplevel option" where
  "toplevel_from_wlr_surface fuel s w =
     (case s of None \<Rightarrow> Some TOP_NONE | Some s \<Rightarrow> toplevel_up fuel (root_surface (surf w s)) w)"

definition client_activate_surface :: "env \<Rightarrow> nat option \<Rightarrow> bool \<Rightarrow> world \<Rightarrow> world" where
  "client_activate_surface env s on w =
     (case s of
        None \<Rightarrow> w
      | Some s \<Rightarrow>
          (case sf_role (surf w s) of
             Xwayland_surface c \<Rightarrow> call_env env (Native ''xwayland_surface_activate'' [LUser s, LBool on]) w
           | Xdg_toplevel c \<Rightarrow> call_env env (Native ''xdg_toplevel_set_activated'' [LUser s, LBool on]) w
           | _ \<Rightarrow> w))"

definition cursorconstrain :: "env \<Rightarrow> nat option \<Rightarrow> world \<Rightarrow> world" where
  "cursorconstrain env k w =
     (if active_constraint w = k then w
      else
        (let w = (case active_constraint w of
                    Some a \<Rightarrow> call_env env (Native ''constraint_send_deactivated'' [LUser a]) w | None \<Rightarrow> w);
             w = w\<lparr>active_constraint := k\<rparr>
         in case active_constraint w of
              Some a \<Rightarrow> call_env env (Native ''constraint_send_activated'' [LUser a]) w | None \<Rightarrow> w))"

abbreviation (input) SIG_PROPERTY_BORDER_COLOR :: nat where "SIG_PROPERTY_BORDER_COLOR \<equiv> 7"
abbreviation (input) SIG_CLIENT_FOCUS :: nat where "SIG_CLIENT_FOCUS \<equiv> 11"
abbreviation (input) SIG_CLIENT_UNFOCUS :: nat where "SIG_CLIENT_UNFOCUS \<equiv> 12"

definition client_set_border_color :: "nat \<Rightarrow> rat list \<Rightarrow> world \<Rightarrow> world" where
  "client_set_border_color c color w =
     enqueue (QSignal0 (LUser c) SIG_PROPERTY_BORDER_COLOR)
       (upd_client c (\<lambda>x. x\<lparr>border_rgba := Some color\<rparr>) w)"

subsection \<open>focusclient\<close>

text \<open>Popups of the toplevel that loses the focus are destroyed.\<close>

definition destroy_popups :: "env \<Rightarrow> toplevel \<Rightarrow> world \<Rightarrow> world" where
  "destroy_popups env t w =
     (case t of
        TOP_CLIENT c \<Rightarrow>
          if client_type (cl w c) = XDGShell
          then call_env env (Native ''xdg_popups_destroy'' [LUser c]) w else w
      | _ \<Rightarrow> w)"

definition focus_stack_front :: "env \<Rightarrow> rat list \<Rightarrow> nat \<Rightarrow> world \<Rightarrow> world" where
  "focus_stack_front env focuscolor c w =
     (let w = (case index_of c (stack w) of
                 None \<Rightarrow> w | Some i \<Rightarrow> w\<lparr>stack := take i (stack w) @ drop (Suc i) (stack w)\<rparr>);
          w = w\<lparr>stack := c # stack w\<rparr>;
          w = w\<lparr>selmon := c_mon (cl w c)\<rparr>;
          w = client_set_urgent env c False w
      in if exclusive_focus w = None \<and> \<not> seat_drag w then client_set_border_color c focuscolor w else w)"

definition ZWLR_LAYER_SHELL_V1_LAYER_TOP :: nat where "ZWLR_LAYER_SHELL_V1_LAYER_TOP = 2"

text \<open>Whether the surface with the focus keeps it: a mapped overlay, or the exclusive client.\<close>

definition focus_blocked :: "toplevel \<Rightarrow> world \<Rightarrow> bool" where
  "focus_blocked t w \<longleftrightarrow>
     (case t of
        TOP_LAYER l \<Rightarrow> l_mapped (ly w l) \<and> l_layer (ly w l) \<ge> ZWLR_LAYER_SHELL_V1_LAYER_TOP
      | TOP_CLIENT oc \<Rightarrow> exclusive_focus w = Some oc \<and> client_wants_focus (cl w oc)
      | TOP_NONE \<Rightarrow> False)"

definition deactivate_old :: "env \<Rightarrow> nat option \<Rightarrow> toplevel \<Rightarrow> nat option \<Rightarrow> world \<Rightarrow> world" where
  "deactivate_old env old t c w =
     (case t of
        TOP_CLIENT oc \<Rightarrow>
          if \<not> client_is_unmanaged (cl w oc) \<and> (c = None \<or> \<not> client_wants_focus (cl w (the c))) then
            (let w = client_activate_surface env old False w
             in if toplevel_handle (cl w oc)
                then call_env env (Native ''foreign_toplevel_set_activated'' [LUser oc, LBool False]) w else w)
          else w
      | _ \<Rightarrow> w)"

definition unfocus_previous :: "rat list \<Rightarrow> nat option \<Rightarrow> world \<Rightarrow> world" where
  "unfocus_previous bordercolor c w =
     (case focus_client w of
        None \<Rightarrow> w
      | Some f \<Rightarrow>
          if c \<noteq> None \<and> c \<noteq> Some f \<and> \<not> client_is_unmanaged (cl w f) then
            (let w = client_set_border_color f bordercolor w;
                 w = enqueue (QSignal (LUser f) SIG_PROPERTY_ACTIVE [LBool False]) w;
                 w = enqueue (QSignal0 (LUser f) SIG_UNFOCUS) w
             in enqueue (QGlobal SIG_CLIENT_UNFOCUS) w)
          else w)"

definition keyboard_enter :: "env \<Rightarrow> nat \<Rightarrow> world \<Rightarrow> world" where
  "keyboard_enter env c w =
     (let surface = client_surface (cl w c);
          surface_ready = (if client_type (cl w c) = X11 then surface \<noteq> None \<and> has_scene (cl w c)
                           else surface \<noteq> None \<and> sf_mapped (surf w (the surface)))
      in if surface_ready then
           (let w = (if client_type (cl w c) = X11
                     then call_env env (Native ''xwayland_set_seat'' []) w else w);
                w = call_env env (Native ''seat_keyboard_notify_enter'' [obj_of surface]) w
            in cursorconstrain env (sf_constraint (surf w (the surface))) w)
         else w)"

definition announce_focus :: "nat \<Rightarrow> world \<Rightarrow> world" where
  "announce_focus c w =
     (let w = (if \<not> client_is_unmanaged (cl w c)
               then enqueue (QSignal0 (LUser c) SIG_FOCUS)
                      (enqueue (QSignal (LUser c) SIG_PROPERTY_ACTIVE [LBool True]) w)
               else w)
      in enqueue (QGlobal SIG_CLIENT_FOCUS) w)"

text \<open>The new client takes the focus.\<close>

definition focus_new :: "env \<Rightarrow> nat \<Rightarrow> world \<Rightarrow> world option" where
  "focus_new env c w =
     (let w = call_env env (Native ''motionnotify'' []) w;
          w = w\<lparr>focus_client := Some c, focus_need_update := True\<rparr>;
          w = stack_windows w;
          w = client_activate_surface env (client_surface (cl w c)) True w;
          w = (if toplevel_handle (cl w c)
               then call_env env (Native ''foreign_toplevel_set_activated'' [LUser c, LBool True]) w else w);
          w = keyboard_enter env c w;
          w = announce_focus c w
      in stack_refresh env w)"

text \<open>
  The colours are those of get_focuscolor and get_bordercolor. The result is None when a search
  is out of fuel: the popups of the old surface, or the stack refresh.
\<close>

definition focusclient ::
  "nat \<Rightarrow> env \<Rightarrow> rat list \<Rightarrow> rat list \<Rightarrow> nat option \<Rightarrow> bool \<Rightarrow> world \<Rightarrow> world option" where
  "focusclient fuel env focuscolor bordercolor c lift w =
     (let old = seat_focus w in
      if session_locked w then Some w
      else
        (let w = (case c of Some d \<Rightarrow> if lift then stack_client_append d w else w | None \<Rightarrow> w) in
         if c \<noteq> None \<and> client_surface (cl w (the c)) = old then Some w
         else
           Option.bind (toplevel_from_wlr_surface fuel old w) (\<lambda>t.
             let w = destroy_popups env t w;
                 w = (case c of
                        Some d \<Rightarrow> if \<not> client_is_unmanaged (cl w d) then focus_stack_front env focuscolor d w else w
                      | None \<Rightarrow> w);
                 losing = (old \<noteq> None \<and> (c = None \<or> client_surface (cl w (the c)) \<noteq> old))
             in if losing \<and> focus_blocked t w then Some w
                else
                  (let w = (if losing then deactivate_old env old t c w else w);
                       w = unfocus_previous bordercolor c w
                   in case c of
                        None \<Rightarrow> Some (stack_windows (w\<lparr>focus_client := None, focus_need_update := True\<rparr>))
                      | Some d \<Rightarrow> focus_new env d w))))"

subsection \<open>Restoring the focus\<close>

definition focustop :: "nat option \<Rightarrow> world \<Rightarrow> nat option" where
  "focustop m w = find (\<lambda>c. client_on_selected_tags c w \<and> c_mon (cl w c) = m) (stack w)"

definition focus_restore ::
  "nat \<Rightarrow> env \<Rightarrow> rat list \<Rightarrow> rat list \<Rightarrow> bool \<Rightarrow> nat option \<Rightarrow> world \<Rightarrow> world option" where
  "focus_restore fuel env focuscolor bordercolor lua m w =
     (if session_locked w then Some w
      else
        (let m = (if m = None then selmon w else m);
             screen = (if lua then luaA_screen_get_by_monitor m w else None);
             w = (case screen of Some s \<Rightarrow> emit env s ''request::focus_restore'' [] w | None \<Rightarrow> w)
         in if screen \<noteq> None \<and> focus_client w \<noteq> None then Some w
            else focusclient fuel env focuscolor bordercolor (focustop m w) True w))"

subsection \<open>The focus of the seat\<close>

definition seat_clear_focus :: "env \<Rightarrow> world \<Rightarrow> world" where
  "seat_clear_focus env w = call_env env (Native ''seat_keyboard_notify_clear_focus'' []) w"

text \<open>Activation, keyboard enter and pointer constraint of the surface that gets the focus.\<close>

definition seat_enter :: "env \<Rightarrow> nat \<Rightarrow> nat \<Rightarrow> world \<Rightarrow> world" where
  "seat_enter env c s w =
     (let w = (if client_type (cl w c) = X11 then call_env env (Native ''xwayland_set_seat'' []) w else w);
          w = (if \<not> client_is_x11 (cl w c) then client_activate_surface env (Some s) True w else w);
          w = call_env env (Native ''seat_keyboard_notify_enter'' [LUser s]) w;
          w = (if client_type (cl w c) = X11 then client_activate_surface env (Some s) True w else w)
      in cursorconstrain env (sf_constraint (surf w s)) w)"

text \<open>The part after the same-surface case: the old surface, then the new one.\<close>

definition seat_switch :: "nat \<Rightarrow> env \<Rightarrow> nat \<Rightarrow> nat \<Rightarrow> world \<Rightarrow> world option" where
  "seat_switch fuel env c s w =
     (let old = seat_focus w in
      map_option (\<lambda>t.
        let w = (if old \<noteq> None then destroy_popups env t w else w)
        in if old \<noteq> None \<and> focus_blocked t w then w
           else
             (let w = (case t of
                         TOP_CLIENT oc \<Rightarrow>
                           if old \<noteq> None \<and> \<not> client_is_unmanaged (cl w oc) \<and> \<not> client_wants_focus (cl w c)
                           then client_activate_surface env old False w else w
                       | _ \<Rightarrow> w)
              in seat_enter env c s w))
        (toplevel_from_wlr_surface fuel old w))"

definition some_set_seat_keyboard_focus :: "nat \<Rightarrow> env \<Rightarrow> nat option \<Rightarrow> bool \<Rightarrow> world \<Rightarrow> world option" where
  "some_set_seat_keyboard_focus fuel env c focus_changed w =
     (case c of
        None \<Rightarrow> Some (seat_clear_focus env w)
      | Some c \<Rightarrow>
          (case client_surface (cl w c) of
             None \<Rightarrow> Some (seat_clear_focus env w)
           | Some s \<Rightarrow>
               (let surface_ready = (if client_type (cl w c) = X11 then has_scene (cl w c)
                                     else sf_mapped (surf w s))
                in if \<not> surface_ready then Some (seat_clear_focus env w)
                   else if seat_focus w = Some s then
                     (if client_type (cl w c) = X11 then
                        (case sf_constraint (surf w s) of
                           Some k \<Rightarrow> Some (cursorconstrain env (Some k) w)
                         | None \<Rightarrow>
                             if \<not> focus_changed then Some w
                             else seat_switch fuel env c s
                                    (seat_clear_focus env (client_activate_surface env (Some s) False w)))
                      else Some w)
                   else seat_switch fuel env c s w)))"

definition some_client_from_surface :: "nat option \<Rightarrow> world \<Rightarrow> nat option" where
  "some_client_from_surface s w =
     (case s of None \<Rightarrow> None | Some s \<Rightarrow> find (\<lambda>c. client_surface (cl w c) = Some s) (clients w))"

definition some_client_has_keyboard_focus :: "nat option \<Rightarrow> world \<Rightarrow> bool" where
  "some_client_has_keyboard_focus c w \<longleftrightarrow>
     (case c of
        None \<Rightarrow> False
      | Some c \<Rightarrow> (case seat_focus w of None \<Rightarrow> False | Some s \<Rightarrow> client_surface (cl w c) = Some s))"

subsection \<open>What the calls into wlroots change\<close>

text \<open>
  The documented effect of the calls, while no grab has the keyboard: a keyboard enter gives the
  surface the keyboard focus of the seat, clearing takes it away, no other call changes it or
  begins a grab. Both defer to a grab, of whose outcome nothing is assumed; the grab of a popup
  ends when the popups of its toplevel are destroyed. No call touches the rest of the modelled
  state but the pointer constraint and the trace.
\<close>

definition calm :: "world \<Rightarrow> world" where
  "calm w = w\<lparr>seat_focus := None, active_constraint := None, kb_grab := Ungrabbed, trace := []\<rparr>"

definition seat_call :: "call \<Rightarrow> nat option \<Rightarrow> nat option" where
  "seat_call k old =
     (case k of
        Native n args \<Rightarrow>
          if n = ''seat_keyboard_notify_enter'' then (case args of [LUser s] \<Rightarrow> Some s | _ \<Rightarrow> None)
          else if n = ''seat_keyboard_notify_clear_focus'' \<or> n = ''seat_keyboard_clear_focus'' then None else old
      | _ \<Rightarrow> old)"

abbreviation (input) ungrabbed :: "world \<Rightarrow> bool" where "ungrabbed w \<equiv> kb_grab w = Ungrabbed"

definition seat_env :: "env \<Rightarrow> bool" where
  "seat_env env \<longleftrightarrow> keeps env calm \<and>
     (\<forall>k w. ungrabbed w \<longrightarrow> ungrabbed (env k w) \<and> seat_focus (env k w) = seat_call k (seat_focus w)) \<and>
     (\<forall>c w. kb_grab w = Popup_grab c \<longrightarrow> ungrabbed (env (Native ''xdg_popups_destroy'' [LUser c]) w) \<and>
        seat_focus (env (Native ''xdg_popups_destroy'' [LUser c]) w) = seat_focus w)"

text \<open>The seat that passes every request on at once.\<close>

definition seat :: env where
  "seat k w = (case k of
     Native n args \<Rightarrow> w\<lparr>seat_focus := seat_call k (seat_focus w),
       kb_grab := (if n = ''xdg_popups_destroy'' then Ungrabbed else kb_grab w)\<rparr>
   | _ \<Rightarrow> w)"

lemma seat_env_seat: "seat_env seat"
  by (simp add: seat_env_def seat_def keeps_def calm_def seat_call_def split: call.split)

lemma calm_call [simp]: "seat_env env \<Longrightarrow> calm (call_env env k w) = calm w"
  by (simp add: seat_env_def keeps_def call_env_def) (simp add: calm_def)

lemma ungrabbed_call [simp]: "seat_env env \<Longrightarrow> ungrabbed w \<Longrightarrow> ungrabbed (call_env env k w)"
  by (simp add: seat_env_def call_env_def)

lemma seat_focus_call [simp]: "seat_env env \<Longrightarrow> ungrabbed w \<Longrightarrow> seat_focus (call_env env k w) = seat_call k (seat_focus w)"
  by (simp add: seat_env_def call_env_def)

lemma calm_sel [simp]:
  "cl (calm w) = cl w" "stack (calm w) = stack w" "focus_client (calm w) = focus_client w"
  "queue (calm w) = queue w" "surf (calm w) = surf w" "ly (calm w) = ly w"
  "exclusive_focus (calm w) = exclusive_focus w" "seat_drag (calm w) = seat_drag w"
  "selmon (calm w) = selmon w" "need_stack_refresh (calm w) = need_stack_refresh w"
  by (simp_all add: calm_def)

lemma calm_push [simp]:
  "calm (w\<lparr>stack := st\<rparr>) = (calm w)\<lparr>stack := st\<rparr>" "calm (w\<lparr>selmon := m\<rparr>) = (calm w)\<lparr>selmon := m\<rparr>"
  "calm (w\<lparr>focus_client := f\<rparr>) = (calm w)\<lparr>focus_client := f\<rparr>"
  "calm (w\<lparr>focus_need_update := b\<rparr>) = (calm w)\<lparr>focus_need_update := b\<rparr>"
  "calm (stack_windows w) = stack_windows (calm w)" "calm (enqueue op w) = enqueue op (calm w)"
  "calm (upd_client c g w) = upd_client c g (calm w)" "calm (w\<lparr>active_constraint := k\<rparr>) = calm w"
  by (simp_all add: calm_def stack_windows_def enqueue_def upd_client_def)

lemma calm_border [simp]: "calm (client_set_border_color c col w) = client_set_border_color c col (calm w)"
  by (simp add: client_set_border_color_def)

lemma calm_unfocus_previous [simp]: "calm (unfocus_previous col c w) = unfocus_previous col c (calm w)"
  by (simp add: unfocus_previous_def Let_def split: option.split)

lemma calm_announce [simp]: "calm (announce_focus c w) = announce_focus c (calm w)"
  by (simp add: announce_focus_def Let_def)

lemma activate_calm [simp]:
  assumes "seat_env env"
  shows "calm (client_activate_surface env s on w) = calm w"
    "ungrabbed w \<Longrightarrow> ungrabbed (client_activate_surface env s on w)"
    "ungrabbed w \<Longrightarrow> seat_focus (client_activate_surface env s on w) = seat_focus w"
  using assms by (simp_all add: client_activate_surface_def seat_call_def split: option.split surface_role.split)

lemma cursorconstrain_calm [simp]:
  assumes "seat_env env"
  shows "calm (cursorconstrain env k w) = calm w" 
    "ungrabbed w \<Longrightarrow> ungrabbed (cursorconstrain env k w)"
    "ungrabbed w \<Longrightarrow> seat_focus (cursorconstrain env k w) = seat_focus w"
  using assms by (auto simp: cursorconstrain_def Let_def seat_call_def split: option.split)

lemma popups_calm [simp]:
  assumes "seat_env env"
  shows "calm (destroy_popups env t w) = calm w" 
    "ungrabbed w \<Longrightarrow> ungrabbed (destroy_popups env t w)"
    "ungrabbed w \<Longrightarrow> seat_focus (destroy_popups env t w) = seat_focus w"
  using assms by (auto simp: destroy_popups_def seat_call_def split: toplevel.split)

lemma deactivate_calm [simp]:
  assumes "seat_env env"
  shows "calm (deactivate_old env old t c w) = calm w" 
    "ungrabbed w \<Longrightarrow> ungrabbed (deactivate_old env old t c w)"
    "ungrabbed w \<Longrightarrow> seat_focus (deactivate_old env old t c w) = seat_focus w"
  using assms by (auto simp: deactivate_old_def Let_def seat_call_def split: toplevel.split)

lemma border_seat [simp]: "seat_focus (client_set_border_color c col w) = seat_focus w"
  "kb_grab (client_set_border_color c col w) = kb_grab w"
  by (simp_all add: client_set_border_color_def)

definition urgent_cleared :: "nat \<Rightarrow> world \<Rightarrow> world" where
  "urgent_cleared c w = (if urgent (cl w c) then upd_client c (\<lambda>x. x\<lparr>urgent := False\<rparr>) w else w)"

definition moved_front :: "rat list \<Rightarrow> nat \<Rightarrow> world \<Rightarrow> world" where
  "moved_front col c w =
     (let w = urgent_cleared c (w\<lparr>stack := c # remove1 c (stack w), selmon := c_mon (cl w c)\<rparr>)
      in if exclusive_focus w = None \<and> \<not> seat_drag w then client_set_border_color c col w else w)"

lemma urgent_calm [simp]:
  assumes "seat_env env"
  shows "calm (client_set_urgent env c False w) = urgent_cleared c (calm w)"
    "ungrabbed w \<Longrightarrow> ungrabbed (client_set_urgent env c False w)"
    "ungrabbed w \<Longrightarrow> seat_focus (client_set_urgent env c False w) = seat_focus w"
  using assms by (simp_all add: client_set_urgent_def urgent_cleared_def seat_call_def)

lemma front_calm [simp]:
  assumes "seat_env env"
  shows "calm (focus_stack_front env col c w) = moved_front col c (calm w)"
    "ungrabbed w \<Longrightarrow> ungrabbed (focus_stack_front env col c w)"
    "ungrabbed w \<Longrightarrow> seat_focus (focus_stack_front env col c w) = seat_focus w"
proof -
  define w1 where "w1 = (case index_of c (stack w) of
    None \<Rightarrow> w | Some i \<Rightarrow> w\<lparr>stack := take i (stack w) @ drop (Suc i) (stack w)\<rparr>)"
  have w1: "w1 = w\<lparr>stack := remove1 c (stack w)\<rparr>"
    by (cases "index_of c (stack w)") (simp_all add: w1_def remove_at_index remove1_idem index_of_None [THEN iffD1])
  define w2 where "w2 = client_set_urgent env c False (w\<lparr>stack := c # remove1 c (stack w), selmon := c_mon (cl w c)\<rparr>)"
  have front: "focus_stack_front env col c w =
      (if exclusive_focus w2 = None \<and> \<not> seat_drag w2 then client_set_border_color c col w2 else w2)"
    unfolding focus_stack_front_def w1_def [symmetric] by (simp add: w1 w2_def Let_def)
  have c2: "calm w2 = urgent_cleared c ((calm w)\<lparr>stack := c # remove1 c (stack w), selmon := c_mon (cl w c)\<rparr>)"
    using assms by (simp add: w2_def)
  have fields: "exclusive_focus w2 = exclusive_focus w" "seat_drag w2 = seat_drag w"
    using arg_cong [OF c2, of exclusive_focus] arg_cong [OF c2, of seat_drag]
    by (simp_all add: urgent_cleared_def)
  show "calm (focus_stack_front env col c w) = moved_front col c (calm w)"
    using fields c2 by (simp add: front moved_front_def Let_def urgent_cleared_def)
  show "ungrabbed w \<Longrightarrow> ungrabbed (focus_stack_front env col c w)"
    using assms by (simp add: front w2_def client_set_border_color_def)
  show "ungrabbed w \<Longrightarrow> seat_focus (focus_stack_front env col c w) = seat_focus w"
    using assms by (simp add: front w2_def client_set_border_color_def)
qed

lemma calm_field: "calm v = u \<Longrightarrow> cl v = cl u \<and> stack v = stack u \<and> focus_client v = focus_client u \<and> queue v = queue u \<and>
    surf v = surf u \<and> ly v = ly u \<and> exclusive_focus v = exclusive_focus u \<and> selmon v = selmon u \<and>
    need_stack_refresh v = need_stack_refresh u"
  by (drule sym) simp

definition taken :: "nat \<Rightarrow> world \<Rightarrow> world" where
  "taken c w = announce_focus c (stack_windows (w\<lparr>focus_client := Some c, focus_need_update := True\<rparr>))"

lemma keyboard_enter_ready:
  assumes "seat_env env" and "ungrabbed w" and "client_surface (cl w c) = Some s"
    and "if client_type (cl w c) = X11 then has_scene (cl w c) else sf_mapped (surf w s)"
  shows "calm (keyboard_enter env c w) = calm w \<and> seat_focus (keyboard_enter env c w) = Some s \<and>
    ungrabbed (keyboard_enter env c w)"
  using assms by (auto simp: keyboard_enter_def Let_def obj_of_def seat_call_def)

lemma focus_new_taken:
  assumes env: "seat_env env" and "ungrabbed w" and "client_surface (cl w c) = Some s" and "distinct (stack w)"
    and "if client_type (cl w c) = X11 then has_scene (cl w c) else sf_mapped (surf w s)"
  shows "\<exists>v w'. focus_new env c w = Some w' \<and> calm v = taken c (calm w) \<and> seat_focus w' = Some s \<and>
    ungrabbed w' \<and> calm w' = (calm v)\<lparr>stack := stack_forest.arrange_forest v, need_stack_refresh := False\<rparr>"
proof -
  define x1 where "x1 = stack_windows ((call_env env (Native ''motionnotify'' []) w)
    \<lparr>focus_client := Some c, focus_need_update := True\<rparr>)"
  define x2 where "x2 = client_activate_surface env (client_surface (cl x1 c)) True x1"
  define x3 where "x3 = (if toplevel_handle (cl x2 c)
    then call_env env (Native ''foreign_toplevel_set_activated'' [LUser c, LBool True]) x2 else x2)"
  define x4 where "x4 = keyboard_enter env c x3"
  define v where "v = announce_focus c x4"
  have g3: "ungrabbed x3" using env assms(2) by (simp add: x3_def x2_def x1_def stack_windows_def)
  have x3: "calm x3 = stack_windows ((calm w)\<lparr>focus_client := Some c, focus_need_update := True\<rparr>)"
    using env by (simp add: x3_def x2_def x1_def)
  from calm_field [OF this] have "cl x3 = cl w" "surf x3 = surf w" by (simp_all add: stack_windows_def)
  with keyboard_enter_ready [OF env g3, of c s] assms(3,5)
  have x4: "calm x4 = calm x3" "seat_focus x4 = Some s" "ungrabbed x4" by (simp_all add: x4_def)
  have v: "calm v = taken c (calm w)" using x3 x4 by (simp add: v_def taken_def)
  have seat: "seat_focus v = Some s" "ungrabbed v" using x4 by (simp_all add: v_def announce_focus_def Let_def)
  from calm_field [OF v] have ref: "distinct (stack v)" "need_stack_refresh v"
    using assms(4) by (simp_all add: taken_def announce_focus_def Let_def stack_windows_def enqueue_def)
  let ?r = "(call_env env (Native ''ewmh_update_net_client_list_stacking'' [])
       (call_env env (Native ''declare_mark_all_dirty'' []) (v\<lparr>stack := stack_forest.arrange_forest v\<rparr>)))
     \<lparr>need_stack_refresh := False\<rparr>"
  have new: "focus_new env c w = Some ?r"
    unfolding focus_new_def Let_def x1_def [symmetric] x2_def [symmetric] x3_def [symmetric]
      x4_def [symmetric] v_def [symmetric] by (rule stack_refresh_arranges [OF ref])
  have push: "calm (u\<lparr>need_stack_refresh := False\<rparr>) = (calm u)\<lparr>need_stack_refresh := False\<rparr>" for u
    by (simp add: calm_def)
  have "calm ?r = (calm v)\<lparr>stack := stack_forest.arrange_forest v, need_stack_refresh := False\<rparr>"
    using env unfolding push by simp
  moreover have "seat_focus ?r = Some s" "ungrabbed ?r" using env seat by (simp_all add: seat_call_def)
  ultimately show ?thesis using new v by blast
qed

lemma arranged_first:
  assumes "stack v = c # st" and "transient_for (cl v c) = None"
  shows "hd (stack_forest.arrange_forest v) = c \<and> stack_forest.arrange_forest v \<noteq> []"
proof -
  have c: "c \<in> set (stack v)" and root: "riding_parent v c = None"
    using assms by (simp_all add: riding_parent_def)
  obtain rest where "stack_forest.tree v c = c # rest" using stack_forest.tree_unfold [OF c] by auto
  moreover have "riding_roots v = filter (\<lambda>x. riding_parent v x = None) (stack v)"
    by (rule stack_forest.roots_def)
  then obtain more where "riding_roots v = c # more" unfolding assms(1) using root by simp
  ultimately show ?thesis unfolding stack_forest.arrange_forest_def by simp
qed

lemma taken_sel [simp]:
  "focus_client (taken c w) = Some c" "stack (taken c w) = stack w" "cl (taken c w) = cl w"
  "selmon (taken c w) = selmon w"
  by (simp_all add: taken_def announce_focus_def Let_def stack_windows_def)

lemma previous_sel [simp]:
  "stack (unfocus_previous col c w) = stack w" "selmon (unfocus_previous col c w) = selmon w"
  "surf (unfocus_previous col c w) = surf w" "focus_client (unfocus_previous col c w) = focus_client w"
  by (simp_all add: unfocus_previous_def client_set_border_color_def Let_def split: option.split)

lemma moved_sel [simp]:
  "stack (moved_front col c w) = c # remove1 c (stack w)" "selmon (moved_front col c w) = c_mon (cl w c)"
  "surf (moved_front col c w) = surf w" "focus_client (moved_front col c w) = focus_client w"
  "ly (moved_front col c w) = ly w" "exclusive_focus (moved_front col c w) = exclusive_focus w"
  by (auto simp: moved_front_def urgent_cleared_def client_set_border_color_def Let_def)

definition same_client :: "client \<Rightarrow> client \<Rightarrow> bool" where
  "same_client x y \<longleftrightarrow> surface x = surface y \<and> client_type x = client_type y \<and> has_scene x = has_scene y \<and>
     override_redirect x = override_redirect y \<and> wants_focus x = wants_focus y \<and> transient_for x = transient_for y"

lemma same_client_moved: "same_client (cl (moved_front col c w) x) (cl w x)"
  "same_client (cl (unfocus_previous col d w) x) (cl w x)"
  by (auto simp: same_client_def moved_front_def urgent_cleared_def client_set_border_color_def Let_def
      unfocus_previous_def split: option.split)

lemma same_client_tests:
  assumes "same_client x y"
  shows "client_is_unmanaged x = client_is_unmanaged y" "client_wants_focus x = client_wants_focus y"
    "client_surface x = client_surface y" "client_type x = client_type y" "has_scene x = has_scene y"
    "transient_for x = transient_for y"
  using assms by (simp_all add: same_client_def client_is_unmanaged_def client_wants_focus_def
      client_surface_def client_is_x11_def)

definition border_event :: "nat \<Rightarrow> aevent" where
  "border_event c = AEvent EVENT_OBJECT (Some (LUser c)) None SIG_PROPERTY_BORDER_COLOR []"

definition lost_events :: "nat \<Rightarrow> world \<Rightarrow> aevent list" where
  "lost_events c w =
     (case focus_client w of
        None \<Rightarrow> []
      | Some f \<Rightarrow>
          if f \<noteq> c \<and> \<not> client_is_unmanaged (cl w f) then
            [border_event f, AEvent EVENT_OBJECT (Some (LUser f)) None SIG_PROPERTY_ACTIVE [LBool False],
             AEvent EVENT_OBJECT (Some (LUser f)) None SIG_UNFOCUS [],
             AEvent EVENT_GLOBAL None None SIG_CLIENT_UNFOCUS []]
          else [])"

definition gained_events :: "nat \<Rightarrow> aevent list" where
  "gained_events c =
     [AEvent EVENT_OBJECT (Some (LUser c)) None SIG_PROPERTY_ACTIVE [LBool True],
      AEvent EVENT_OBJECT (Some (LUser c)) None SIG_FOCUS [],
      AEvent EVENT_GLOBAL None None SIG_CLIENT_FOCUS []]"

lemma taken_queue:
  "\<not> client_is_unmanaged (cl w c) \<Longrightarrow> queue (taken c w) = queue w @ gained_events c"
  by (simp add: taken_def announce_focus_def gained_events_def Let_def stack_windows_def)

lemma previous_queue: "queue (unfocus_previous col (Some c) w) = queue w @ lost_events c w"
  by (auto simp: unfocus_previous_def lost_events_def border_event_def client_set_border_color_def Let_def
      split: option.split)

lemma moved_queue: "queue (moved_front col c w) =
    queue w @ (if exclusive_focus w = None \<and> \<not> seat_drag w then [border_event c] else [])"
  by (auto simp: moved_front_def border_event_def urgent_cleared_def client_set_border_color_def Let_def)

lemma lost_moved: "lost_events c (moved_front col d w) = lost_events c w"
  using same_client_tests(1) [OF same_client_moved(1)]
  by (simp add: lost_events_def split: option.split)

lemma toplevel_from_cong: "surf v = surf w \<Longrightarrow> toplevel_from_wlr_surface n s v = toplevel_from_wlr_surface n s w"
proof -
  assume "surf v = surf w"
  then have "toplevel_up n s v = toplevel_up n s w" for n s
    by (induction n arbitrary: s) (simp_all split: surface_role.split option.split)
  then show ?thesis using \<open>surf v = surf w\<close> by (simp add: toplevel_from_wlr_surface_def split: option.split)
qed

lemma blocked_cong:
  "ly v = ly w \<Longrightarrow> exclusive_focus v = exclusive_focus w \<Longrightarrow> (\<And>x. same_client (cl v x) (cl w x)) \<Longrightarrow>
   focus_blocked t v = focus_blocked t w"
  using same_client_tests(2) by (simp add: focus_blocked_def split: toplevel.split) blast

definition lifted :: "bool \<Rightarrow> nat \<Rightarrow> world \<Rightarrow> world" where
  "lifted lift c w = (if lift then stack_client_append c w else w)"

lemma lifted_sel [simp]:
  "cl (lifted lift c w) = cl w" "surf (lifted lift c w) = surf w" "seat_focus (lifted lift c w) = seat_focus w"
  "ly (lifted lift c w) = ly w" "exclusive_focus (lifted lift c w) = exclusive_focus w"
  "focus_client (lifted lift c w) = focus_client w" "queue (lifted lift c w) = queue w"
  "seat_drag (lifted lift c w) = seat_drag w" "kb_grab (lifted lift c w) = kb_grab w" "selmon (lifted lift c w) = selmon w"
  by (simp_all add: lifted_def stack_client_append_def stack_client_remove_def stack_windows_def Let_def split: option.split)

lemma lifted_stack: "distinct (stack w) \<Longrightarrow> distinct (stack (lifted lift c w))"
  by (simp add: lifted_def stack_append_sel distinct_removeAll)

text \<open>Nothing has grabbed the keyboard but popups of the toplevel that loses the focus.\<close>

definition grab_yields :: "toplevel \<Rightarrow> world \<Rightarrow> bool" where
  "grab_yields t w \<longleftrightarrow> ungrabbed w \<or>
     (case t of TOP_CLIENT c \<Rightarrow> client_type (cl w c) = XDGShell \<and> kb_grab w = Popup_grab c | _ \<Rightarrow> False)"

lemma popups_end_grab:
  assumes env: "seat_env env" and "grab_yields t w"
  shows "ungrabbed (destroy_popups env t w) \<and> seat_focus (destroy_popups env t w) = seat_focus w"
proof (cases "ungrabbed w")
  case False
  then obtain c where "t = TOP_CLIENT c" "client_type (cl w c) = XDGShell" "kb_grab w = Popup_grab c"
    using assms(2) by (auto simp: grab_yields_def split: toplevel.splits)
  then show ?thesis using env by (simp add: destroy_popups_def call_env_def seat_env_def)
qed (use env in simp)

lemma focusclient_runs:
  assumes env: "seat_env env" and unlocked: "\<not> session_locked w"
    and managed: "\<not> client_is_unmanaged (cl w c)"
    and surf: "client_surface (cl w c) = Some s" "seat_focus w \<noteq> Some s"
    and ready: "if client_type (cl w c) = X11 then has_scene (cl w c) else sf_mapped (surf w s)"
    and top: "toplevel_from_wlr_surface fuel (seat_focus w) w = Some t"
    and free: "\<not> (seat_focus w \<noteq> None \<and> focus_blocked t w)" and dist: "distinct (stack w)"
    and grab: "grab_yields t w"
  shows "\<exists>v w'. focusclient fuel env focuscolor bordercolor (Some c) lift w = Some w' \<and>
    calm v = taken c (unfocus_previous bordercolor (Some c) (moved_front focuscolor c (calm (lifted lift c w)))) \<and>
    seat_focus w' = Some s \<and> ungrabbed w' \<and> calm w' = (calm v)\<lparr>stack := arranged v, need_stack_refresh := False\<rparr>"
proof -
  define w1 where "w1 = lifted lift c w"
  define w2 where "w2 = focus_stack_front env focuscolor c (destroy_popups env t w1)"
  define losing where "losing = (seat_focus w \<noteq> None \<and> client_surface (cl w2 c) \<noteq> seat_focus w)"
  define w3 where "w3 = (if losing then deactivate_old env (seat_focus w) t (Some c) w2 else w2)"
  define w4 where "w4 = unfocus_previous bordercolor (Some c) w3"
  have "grab_yields t w1" using grab by (cases t) (auto simp: grab_yields_def w1_def)
  then have "ungrabbed (destroy_popups env t w1)" using popups_end_grab [OF env] by blast
  then have g4: "ungrabbed w4" using env
    by (simp add: w4_def w3_def w2_def unfocus_previous_def Let_def split: option.split)
  have pop: "cl (destroy_popups env t w1) = cl w"
    using calm_field [OF popups_calm(1) [OF env, of t w1]] by (simp add: w1_def)
  have c2: "calm w2 = moved_front focuscolor c (calm w1)" using env by (simp add: w2_def)
  note f2 = calm_field [OF c2]
  have c4: "calm w4 = unfocus_previous bordercolor (Some c) (moved_front focuscolor c (calm w1))"
    using env c2 by (simp add: w4_def w3_def)
  note f4 = calm_field [OF c4]
  have same2: "same_client (cl w2 x) (cl w x)" for x
    using f2 same_client_moved(1) [of focuscolor c "calm w1"] by (simp add: w1_def)
  have same4: "same_client (cl w4 x) (cl w x)" for x
  proof -
    have "same_client (cl w4 x) (cl (moved_front focuscolor c (calm w1)) x)" using f4 same_client_moved(2) by simp
    moreover have "same_client (cl (moved_front focuscolor c (calm w1)) x) (cl w x)"
      using same_client_moved(1) [of focuscolor c "calm w1"] by (simp add: w1_def)
    ultimately show ?thesis by (simp add: same_client_def)
  qed
  have "focus_blocked t w2 = focus_blocked t w"
    by (rule blocked_cong) (use f2 same2 in \<open>simp_all add: w1_def\<close>)
  then have open2: "\<not> (losing \<and> focus_blocked t w2)" using free by (auto simp: losing_def)
  have t1: "toplevel_from_wlr_surface fuel (seat_focus w) w1 = Some t"
    using top toplevel_from_cong [of w1 w] by (simp add: w1_def)
  have run: "focusclient fuel env focuscolor bordercolor (Some c) lift w = focus_new env c w4"
    unfolding focusclient_def Let_def option.case lifted_def [symmetric] w1_def [symmetric]
    using unlocked surf managed t1 pop open2
    by (simp add: w1_def [symmetric] w2_def [symmetric]) (auto simp: losing_def w3_def w4_def w1_def)
  have s4: "client_surface (cl w4 c) = Some s" using same_client_tests(3) [OF same4] surf(1) by simp
  have d4: "distinct (stack w4)"
    using f4 lifted_stack [OF dist, of lift c] by (simp add: w1_def)
  have r4: "if client_type (cl w4 c) = X11 then has_scene (cl w4 c) else sf_mapped (surf w4 s)"
    using ready same_client_tests(4,5) [OF same4] f4 by (simp add: w1_def)
  from focus_new_taken [OF env g4 s4 d4 r4] show ?thesis unfolding run c4 w1_def by blast
qed

text \<open>
  C16: Focusing a managed client whose surface is ready and does not have the keyboard, in an
  unlocked session and when neither an overlay nor an exclusive client keeps the focus, returns
  and gives the client the focus and its surface the keyboard of the seat, selects its monitor,
  and queues, in this order, the colour of its border (unless there is a drag or an exclusive
  client), what the previous client loses, and what the client gains. No grab may have the
  keyboard but that of popups of the toplevel that loses it, which the code destroys first. Of
  the calls into wlroots only the keyboard enter matters; handlers of property::urgent, which
  run while the urgency of the client is cleared, are assumed to leave the modelled state alone.
\<close>

theorem focusclient_takes_focus:
  assumes env: "seat_env env" and unlocked: "\<not> session_locked w"
    and managed: "\<not> client_is_unmanaged (cl w c)"
    and surf: "client_surface (cl w c) = Some s" "seat_focus w \<noteq> Some s"
    and ready: "if client_type (cl w c) = X11 then has_scene (cl w c) else sf_mapped (surf w s)"
    and top: "toplevel_from_wlr_surface fuel (seat_focus w) w = Some t"
    and free: "\<not> (seat_focus w \<noteq> None \<and> focus_blocked t w)" and "distinct (stack w)"
    and "grab_yields t w"
  shows "\<exists>w'. focusclient fuel env focuscolor bordercolor (Some c) lift w = Some w' \<and>
    focus_client w' = Some c \<and> seat_focus w' = Some s \<and> selmon w' = c_mon (cl w c) \<and>
    queue w' = queue w @ (if exclusive_focus w = None \<and> \<not> seat_drag w then [border_event c] else []) @
      lost_events c w @ gained_events c"
proof -
  define u where "u = unfocus_previous bordercolor (Some c) (moved_front focuscolor c (calm (lifted lift c w)))"
  obtain v w' where run: "focusclient fuel env focuscolor bordercolor (Some c) lift w = Some w'"
    "calm v = taken c u" "seat_focus w' = Some s" "calm w' = (calm v)\<lparr>stack := arranged v, need_stack_refresh := False\<rparr>"
    using focusclient_runs [OF assms, of focuscolor bordercolor lift] unfolding u_def by blast
  have "\<not> client_is_unmanaged (cl u c)"
    using managed same_client_tests(1) [OF same_client_moved(1)] same_client_tests(1) [OF same_client_moved(2)]
    by (simp add: u_def)
  from taken_queue [OF this] show ?thesis
    using run calm_field [OF run(2)] calm_field [OF run(4)]
    by (simp add: u_def previous_queue moved_queue lost_moved) (simp add: lost_events_def split: option.split)
qed

definition focus_demo :: world where
  "focus_demo = world0\<lparr>cl := (\<lambda>c. client0\<lparr>has_surface := True, surface := Some (c + 10), c_mon := Some 1\<rparr>),
     surf := (\<lambda>s. \<lparr>root_surface = s, sf_role = Xdg_toplevel (s - 10), sf_mapped = True, sf_constraint = None\<rparr>),
     clients := [1, 2, 3], stack := [1, 2, 3], focus_client := Some 1, seat_focus := Some 11\<rparr>"

lemma focus_demo_sel:
  "cl focus_demo c = client0\<lparr>has_surface := True, surface := Some (c + 10), c_mon := Some 1\<rparr>"
  "surf focus_demo s = \<lparr>root_surface = s, sf_role = Xdg_toplevel (s - 10), sf_mapped = True, sf_constraint = None\<rparr>"
  "stack focus_demo = [1, 2, 3]" "focus_client focus_demo = Some 1" "seat_focus focus_demo = Some 11"
  "exclusive_focus focus_demo = None" "\<not> session_locked focus_demo" "\<not> seat_drag focus_demo" "queue focus_demo = []"
  by (simp_all add: focus_demo_def world0_def)

lemma focus_demo_grab: "grab_yields t focus_demo" "ungrabbed focus_demo"
  by (simp_all add: grab_yields_def focus_demo_def world0_def)

lemma focus_demo_top: "toplevel_from_wlr_surface 1 (Some 11) focus_demo = Some (TOP_CLIENT 1)"
  by (simp add: toplevel_from_wlr_surface_def focus_demo_sel)

lemma focus_demo_free: "\<not> focus_blocked (TOP_CLIENT 1) focus_demo"
  by (simp add: focus_blocked_def focus_demo_sel)

theorem focusclient_takes_focus_witness:
  "\<exists>w'. focusclient 1 seat [] [] (Some 2) True focus_demo = Some w' \<and> focus_client w' = Some 2 \<and>
     seat_focus w' = Some 12 \<and> queue w' = [border_event 2, border_event 1,
       AEvent EVENT_OBJECT (Some (LUser 1)) None SIG_PROPERTY_ACTIVE [LBool False],
       AEvent EVENT_OBJECT (Some (LUser 1)) None SIG_UNFOCUS [], AEvent EVENT_GLOBAL None None SIG_CLIENT_UNFOCUS []] @
       gained_events 2"
  using focusclient_takes_focus [of seat focus_demo 2 12 1 "TOP_CLIENT 1" "[]" "[]" True] seat_env_seat
    focus_demo_top focus_demo_free focus_demo_grab
  by (auto simp: focus_demo_sel client0_def client_surface_def client_is_unmanaged_def client_is_x11_def lost_events_def)

text \<open>
  Lifting a client while focusing it does not raise it: when the client is transient for
  none, it ends up at the bottom of the stack, below every other client, as the stack goes from
  bottom to top and the focus order is kept in the same list.
\<close>

theorem focus_lift_sinks:
  assumes env: "seat_env env" and unlocked: "\<not> session_locked w"
    and managed: "\<not> client_is_unmanaged (cl w c)"
    and surf: "client_surface (cl w c) = Some s" "seat_focus w \<noteq> Some s"
    and ready: "if client_type (cl w c) = X11 then has_scene (cl w c) else sf_mapped (surf w s)"
    and top: "toplevel_from_wlr_surface fuel (seat_focus w) w = Some t"
    and free: "\<not> (seat_focus w \<noteq> None \<and> focus_blocked t w)" and "distinct (stack w)"
    and grab: "grab_yields t w" and "transient_for (cl w c) = None"
  shows "\<exists>w'. focusclient fuel env focuscolor bordercolor (Some c) True w = Some w' \<and>
    mset (stack w') = mset (c # removeAll c (stack w)) \<and> hd (stack w') = c"
proof -
  define u where "u = unfocus_previous bordercolor (Some c) (moved_front focuscolor c (calm (lifted True c w)))"
  obtain v w' where run: "focusclient fuel env focuscolor bordercolor (Some c) True w = Some w'"
    "calm v = taken c u" "calm w' = (calm v)\<lparr>stack := arranged v, need_stack_refresh := False\<rparr>"
    using focusclient_runs [OF env unlocked managed surf ready top free assms(9) grab, of focuscolor bordercolor True]
    unfolding u_def by blast
  have st: "stack v = c # removeAll c (stack w)"
    using calm_field [OF run(2)] stack_append_sel(1) [OF assms(9), of c]
    by (simp add: u_def lifted_def remove1_append)
  have "transient_for (cl u c) = None"
    using assms(11) same_client_tests(6) [OF same_client_moved(1)] same_client_tests(6) [OF same_client_moved(2)]
    by (simp add: u_def)
  then have "transient_for (cl v c) = None" using calm_field [OF run(2)] by simp
  note first = arranged_first [OF st this]
  have "distinct (stack v)" using st assms(9) by (simp add: distinct_removeAll)
  from stack_forest.arrange_mset [OF this] have "mset (arranged v) = mset (c # removeAll c (stack w))"
    by (simp only: st)
  moreover have "stack w' = arranged v" using calm_field [OF run(3)] by simp
  ultimately show ?thesis using run(1) first by simp
qed

theorem focus_lift_sinks_witness:
  "\<exists>w'. focusclient 1 seat [] [] (Some 2) True focus_demo = Some w' \<and> hd (stack w') = 2"
  using focus_lift_sinks [of seat focus_demo 2 12 1 "TOP_CLIENT 1" "[]" "[]"] seat_env_seat
    focus_demo_top focus_demo_free focus_demo_grab
  by (auto simp: focus_demo_sel client0_def client_surface_def client_is_unmanaged_def client_is_x11_def)

subsection \<open>The focus of the seat\<close>

lemma seat_clear_calm [simp]:
  "seat_env env \<Longrightarrow> calm (seat_clear_focus env w) = calm w"
  "seat_env env \<Longrightarrow> ungrabbed w \<Longrightarrow> ungrabbed (seat_clear_focus env w)"
  "seat_env env \<Longrightarrow> ungrabbed w \<Longrightarrow> seat_focus (seat_clear_focus env w) = None"
  by (simp_all add: seat_clear_focus_def seat_call_def)

lemma seat_enter_calm:
  assumes "seat_env env" and "ungrabbed w"
  shows "calm (seat_enter env c s w) = calm w \<and> seat_focus (seat_enter env c s w) = Some s"
  using assms by (simp add: seat_enter_def Let_def seat_call_def)

lemma seat_switch_calm:
  assumes env: "seat_env env" and g: "ungrabbed w" and t: "toplevel_from_wlr_surface fuel (seat_focus w) w = Some t"
  shows "\<exists>w'. seat_switch fuel env c s w = Some w' \<and> calm w' = calm w \<and>
    seat_focus w' = (if seat_focus w \<noteq> None \<and> focus_blocked t w then seat_focus w else Some s)"
proof -
  define w1 where "w1 = (if seat_focus w \<noteq> None then destroy_popups env t w else w)"
  have w1: "calm w1 = calm w" "seat_focus w1 = seat_focus w" "ungrabbed w1" using env g by (simp_all add: w1_def)
  from calm_field [OF w1(1)] have "focus_blocked t w1 = focus_blocked t w"
    by (intro blocked_cong) (simp_all add: same_client_def)
  moreover define w2 where "w2 = (case t of
      TOP_CLIENT oc \<Rightarrow>
        if seat_focus w \<noteq> None \<and> \<not> client_is_unmanaged (cl w1 oc) \<and> \<not> client_wants_focus (cl w1 c)
        then client_activate_surface env (seat_focus w) False w1 else w1
    | _ \<Rightarrow> w1)"
  have w2: "calm w2 = calm w" "ungrabbed w2" using env w1 by (simp_all add: w2_def split: toplevel.split)
  have "seat_switch fuel env c s w =
      Some (if seat_focus w \<noteq> None \<and> focus_blocked t w1 then w1 else seat_enter env c s w2)"
    unfolding seat_switch_def Let_def t option.map w1_def [symmetric] w2_def [symmetric] ..
  ultimately show ?thesis using w1 w2 seat_enter_calm [OF env w2(2), of c s] by simp
qed

text \<open>
  C17: The keyboard focus of the seat after it was set for a client while no popup or drag has
  grabbed the keyboard: none when there is no client, no surface or the surface is not ready; the
  surface of the client when it had the focus already; otherwise it stays where it is when an
  overlay or the exclusive client holds it, and goes to the surface of the client when none does.
  The function returns, and itself writes nothing of the modelled state but the pointer constraint.
\<close>

theorem seat_focus_decision:
  assumes env: "seat_env env" and g: "ungrabbed w" and t: "toplevel_from_wlr_surface fuel (seat_focus w) w = Some t"
  shows "\<exists>w'. some_set_seat_keyboard_focus fuel env c focus_changed w = Some w' \<and> calm w' = calm w \<and>
    seat_focus w' =
      (case c of
         None \<Rightarrow> None
       | Some c \<Rightarrow>
           (case client_surface (cl w c) of
              None \<Rightarrow> None
            | Some s \<Rightarrow>
                if \<not> (if client_type (cl w c) = X11 then has_scene (cl w c) else sf_mapped (surf w s)) then None
                else if seat_focus w = Some s then Some s
                else if seat_focus w \<noteq> None \<and> focus_blocked t w then seat_focus w
                else Some s))"
proof -
  have redeliver: "\<exists>w'. seat_switch fuel env d s (seat_clear_focus env (client_activate_surface env (Some s) False w)) = Some w' \<and>
      calm w' = calm w \<and> seat_focus w' = Some s" for d s
    using seat_switch_calm [OF env, of "seat_clear_focus env (client_activate_surface env (Some s) False w)" fuel TOP_NONE d s] env g
    by (simp add: toplevel_from_wlr_surface_def)
  show ?thesis
  proof (cases c)
    case (Some d)
    then show ?thesis
    proof (cases "client_surface (cl w d)")
      case s: (Some s)
      show ?thesis
        using Some s env redeliver [of d s] g seat_switch_calm [OF env g t, of d s]
        by (simp add: some_set_seat_keyboard_focus_def split: option.split)
    qed (use env g in \<open>simp add: some_set_seat_keyboard_focus_def\<close>)
  qed (use env g in \<open>simp add: some_set_seat_keyboard_focus_def\<close>)
qed

theorem seat_focus_decision_witness:
  "\<exists>w'. some_set_seat_keyboard_focus 1 seat (Some 3) True focus_demo = Some w' \<and> seat_focus w' = Some 13"
  using seat_focus_decision [of seat focus_demo 1 "TOP_CLIENT 1" "Some 3" True] seat_env_seat
    focus_demo_top focus_demo_free focus_demo_grab
  by (auto simp: focus_demo_sel client0_def client_surface_def)

end
