(* ===== verification/Refresh.thy ===== *)
theory Refresh
  imports Stack
begin

text \<open>
  The refresh cycle of src/loop.c, which runs before every poll: queued events and the refresh
  signal first, then drawins, the focus, banning, the stack and the windows destroyed late. The
  drain here works on the events of the queue's specification, which the drain of
  src/event_queue.c refines. The lemmas show what a refresh leaves settled.
\<close>

subsection \<open>The cycle\<close>

definition class_name :: "nat option \<Rightarrow> string" where
  "class_name cls = (case cls of Some n \<Rightarrow> if n = 1 then ''client'' else if n = 2 then ''screen'' else if n = 3 then ''layer_surface'' else ''other'' | None \<Rightarrow> ''other'')"

definition deliver :: "env \<Rightarrow> aevent \<Rightarrow> world \<Rightarrow> world" where
  "deliver env e w =
     (case adelivery e of
        None \<Rightarrow> w
      | Some (DGlobal name args) \<Rightarrow> call_env env (Native ''emit_signal_global'' (LStr name # args)) w
      | Some (DClass cls name args) \<Rightarrow> call_env env (EmitClass (class_name cls) name args) w
      | Some (DObject (LUser obj) name args) \<Rightarrow> emit env obj name args w
      | Some (DObject _ name args) \<Rightarrow> w)"

definition drain_events :: "env \<Rightarrow> world \<Rightarrow> world" where
  "drain_events env w = fold (deliver env) (queue w) (w\<lparr>queue := []\<rparr>)"

definition some_has_exclusive_focus :: "world \<Rightarrow> bool" where
  "some_has_exclusive_focus w \<longleftrightarrow> exclusive_focus w \<noteq> None"

definition client_refresh :: "env \<Rightarrow> world \<Rightarrow> world" where
  "client_refresh env w = client_focus_refresh env some_has_exclusive_focus w"

text \<open>None is a banning loop longer than the given rounds, or a stack refresh out of fuel.\<close>

definition some_refresh :: "nat \<Rightarrow> env \<Rightarrow> world \<Rightarrow> world option" where
  "some_refresh fuel env w =
     (if in_refresh w then Some w
      else
        (let w = w\<lparr>in_refresh := True\<rparr>;
             w = drain_events env w;
             w = call_env env (Native ''emit_signal_global'' [LStr ''refresh'']) w;
             w = call_env env (Native ''drawin_refresh'' []) w;
             w = client_refresh env w;
             banning_pending = need_lazy_banning w
         in Option.bind (banning_refresh fuel env w) (\<lambda>w.
              let w = (if banning_pending then call_env env (Native ''declare_mark_all_dirty'' []) w else w);
                  w = (if banning_pending then call_env env (Native ''motionnotify'' []) w else w)
              in map_option (\<lambda>w. (call_env env (Native ''client_destroy_later'' []) w)\<lparr>in_refresh := False\<rparr>)
                   (stack_refresh env w))))"

subsection \<open>What a refresh settles\<close>

definition bans_ok :: "world \<Rightarrow> bool" where
  "bans_ok w \<longleftrightarrow> (\<forall>c \<in> set (clients w). has_scene (cl w c) \<longrightarrow> isbanned (cl w c) = (\<not> client_isvisible c w))"

text \<open>Refreshing the stack once more would change nothing.\<close>

definition stack_settled :: "world \<Rightarrow> bool" where
  "stack_settled w \<longleftrightarrow>
     (\<exists>w'. stack_refresh idle (w\<lparr>need_stack_refresh := True\<rparr>) = Some w' \<and> stack w' = stack w)"

lemma stack_settled_iff:
  assumes "distinct (stack w)" shows "stack_settled w \<longleftrightarrow> arranged w = stack w"
proof -
  have "riding_parent (w\<lparr>need_stack_refresh := True\<rparr>) = riding_parent w"
    by (rule rides_same_stack) simp_all
  moreover have "rides_walk n p (w\<lparr>need_stack_refresh := True\<rparr>) = rides_walk n p w" for n p
    by (induction n arbitrary: p) (auto simp: stack_has_def split: option.splits)
  ultimately have "arranged (w\<lparr>need_stack_refresh := True\<rparr>) = arranged w"
    by (simp add: riding_dist_def [abs_def])
  then show ?thesis
    using stack_refresh_arranges [of "w\<lparr>need_stack_refresh := True\<rparr>" idle] assms
    by (auto simp: stack_settled_def idle_def call_env_def)
qed

text \<open>
  What holds between refreshes: what is not settled is marked for the next refresh.
\<close>

definition marked :: "world \<Rightarrow> bool" where
  "marked w \<longleftrightarrow> distinct (stack w) \<and> (need_stack_refresh w \<or> stack_settled w) \<and> (need_lazy_banning w \<or> bans_ok w)"

text \<open>Equal up to the focus, the queue and the trace.\<close>

definition same_windows :: "world \<Rightarrow> world \<Rightarrow> bool" where
  "same_windows v w \<longleftrightarrow> cl v = cl w \<and> tg v = tg w \<and> sc v = sc w \<and> tags v = tags w \<and> screens v = screens w \<and>
     clients v = clients w \<and> stack v = stack w \<and> need_stack_refresh v = need_stack_refresh w \<and>
     need_lazy_banning v = need_lazy_banning w"

lemma visible_cong:
  assumes "cl v = cl w" "tg v = tg w" "sc v = sc w" "tags v = tags w" "screens v = screens w"
  shows "client_isvisible c v = client_isvisible c w"
  unfolding client_isvisible_def client_on_selected_tags_def luaA_screen_get_by_monitor_def
    is_client_tagged_def by (simp only: assms)

lemma settled_cong:
  assumes "stack v = stack w" "cl v = cl w" "distinct (stack w)"
  shows "stack_settled v = stack_settled w"
proof -
  have "riding_parent v = riding_parent w" by (rule rides_same_stack) (simp_all add: assms)
  moreover have "rides_walk n p v = rides_walk n p w" for n p
    by (induction n arbitrary: p) (auto simp: stack_has_def assms split: option.splits)
  ultimately have "arranged v = arranged w" by (simp add: riding_dist_def [abs_def] assms(1))
  then show ?thesis using assms by (simp add: stack_settled_iff)
qed

lemma marked_cong: "same_windows v w \<Longrightarrow> marked w \<Longrightarrow> marked v"
  using settled_cong [of v w] visible_cong [of v w]
  by (auto simp: same_windows_def marked_def bans_ok_def)

lemma marked_trace: "marked (w\<lparr>trace := x\<rparr>) = marked w"
  using marked_cong [of "w\<lparr>trace := x\<rparr>" w] marked_cong [of w "w\<lparr>trace := x\<rparr>"]
  by (auto simp: same_windows_def)

text \<open>The steps before the banning keep what the environment keeps.\<close>

definition before_banning :: "env \<Rightarrow> world \<Rightarrow> world" where
  "before_banning env w = client_refresh env (call_env env (Native ''drawin_refresh'' [])
     (call_env env (Native ''emit_signal_global'' [LStr ''refresh'']) (drain_events env (w\<lparr>in_refresh := True\<rparr>))))"

lemma before_banning_keeps:
  assumes env: "preserves env P" and w: "P w"
    and cong: "\<And>v x. P (v\<lparr>trace := x\<rparr>) = P v" "\<And>v q. P (v\<lparr>queue := q\<rparr>) = P v"
      "\<And>v b. P (v\<lparr>focus_need_update := b\<rparr>) = P v" "\<And>v b. P (v\<lparr>in_refresh := b\<rparr>) = P v"
  shows "P (before_banning env w)"
proof -
  have call: "P (call_env env k v)" if "P v" for k v
    using call_env_preserves [OF env, of v k] that by (simp add: cong)
  have step: "P (deliver env e v)" if "P v" for e v
    using that by (auto simp: deliver_def call split: option.split delivery.split lval.split)
  have "P (fold (deliver env) es v)" if "P v" for es v
    using that step by (induction es arbitrary: v) auto
  then have "P (drain_events env (w\<lparr>in_refresh := True\<rparr>))" using w by (simp add: drain_events_def cong)
  then show ?thesis
    by (simp add: before_banning_def client_refresh_def client_focus_refresh_def Let_def call cong)
qed

lemma marked_before_banning:
  assumes "preserves env marked" "marked w" shows "marked (before_banning env w)"
proof (rule before_banning_keeps [OF assms])
  have eq: "marked x = marked y" if "same_windows x y" "same_windows y x" for x y
    using marked_cong that by blast
  show "marked (v\<lparr>trace := x\<rparr>) = marked v" for v x by (rule marked_trace)
  show "marked (v\<lparr>queue := q\<rparr>) = marked v" for v q by (rule eq) (simp_all add: same_windows_def)
  show "marked (v\<lparr>focus_need_update := b\<rparr>) = marked v" for v b by (rule eq) (simp_all add: same_windows_def)
  show "marked (v\<lparr>in_refresh := b\<rparr>) = marked v" for v b by (rule eq) (simp_all add: same_windows_def)
qed

lemma marked_call: "preserves env marked \<Longrightarrow> marked w \<Longrightarrow> marked (call_env env k w)"
  by (rule call_env_preserves) (simp_all add: marked_trace)

lemma ban_pass_stack:
  "stack (fold (ban_pass env) xs w) = stack w \<and> need_stack_refresh (fold (ban_pass env) xs w) = need_stack_refresh w \<and>
   need_lazy_banning (fold (ban_pass env) xs w) = need_lazy_banning w \<and>
   transient_for (cl (fold (ban_pass env) xs w) c) = transient_for (cl w c) \<and>
   mousegrabber_running (fold (ban_pass env) xs w) = mousegrabber_running w"
  by (induction xs arbitrary: w) (simp_all add: ban_pass_def client_ban_def client_ban_unfocus_def)

lemma unban_pass_stack:
  "stack (fold (unban_pass env) xs w) = stack w \<and> need_stack_refresh (fold (unban_pass env) xs w) = need_stack_refresh w \<and>
   need_lazy_banning (fold (unban_pass env) xs w) = need_lazy_banning w \<and>
   transient_for (cl (fold (unban_pass env) xs w) c) = transient_for (cl w c) \<and>
   mousegrabber_running (fold (unban_pass env) xs w) = mousegrabber_running w"
proof (induction xs arbitrary: w)
  case (Cons a xs)
  have "stack (unban_pass env a w) = stack w \<and> need_stack_refresh (unban_pass env a w) = need_stack_refresh w \<and>
      need_lazy_banning (unban_pass env a w) = need_lazy_banning w \<and>
      transient_for (cl (unban_pass env a w) c) = transient_for (cl w c) \<and>
      mousegrabber_running (unban_pass env a w) = mousegrabber_running w" for w
    by (auto simp: unban_pass_def client_unban_def client_isvisible_def client_set_minimized_def
        client_set_hidden_def Let_def)
  then show ?case using Cons.IH [of "unban_pass env a w"] by simp
qed simp

lemma banning_vis: "vis_eq w (fold (ban_pass env) xs (fold (unban_pass env) ys (w\<lparr>need_lazy_banning := False\<rparr>)))"
proof -
  have "vis_eq w (w\<lparr>need_lazy_banning := False\<rparr>)" by (simp add: vis_eq_def)
  from vis_eq_trans [OF this vis_eq_trans [OF conjunct1 [OF unban_pass_fold] conjunct1 [OF ban_pass_fold]]]
  show ?thesis .
qed
lemma banning_refresh_bans:
  assumes "marked w"
  shows "\<exists>w'. banning_refresh (length (clients w) + 1) env w = Some w' \<and> bans_ok w' \<and> \<not> need_lazy_banning w' \<and>
    distinct (stack w') \<and> (need_stack_refresh w' \<or> stack_settled w') \<and> mousegrabber_running w' = mousegrabber_running w"
proof (cases "need_lazy_banning w")
  case False
  then show ?thesis using assms by (intro exI [of _ w]) (simp add: banning_refresh_def marked_def)
next
  case True
  obtain w' where w': "banning_refresh (length (clients w) + 1) env w = Some w'"
    "\<forall>c. client_isvisible c w' = client_isvisible c w" "clients w' = clients w"
    "\<forall>c \<in> set (clients w). isbanned (cl w' c) =
       (if has_scene (cl w c) then \<not> client_isvisible c w else isbanned (cl w c))"
    using banning_refresh_result [OF True, of env] by blast
  have eq: "w' = fold (ban_pass env) (clients w) (fold (unban_pass env) (clients w) (w\<lparr>need_lazy_banning := False\<rparr>))"
    using w'(1) banning_refresh_folds [of w "length (clients w) + 1" env] True by simp
  have st: "stack w' = stack w" "need_stack_refresh w' = need_stack_refresh w" "\<not> need_lazy_banning w'"
    "mousegrabber_running w' = mousegrabber_running w" "transient_for (cl w' c) = transient_for (cl w c)" for c
    using ban_pass_stack [of env "clients w" "fold (unban_pass env) (clients w) (w\<lparr>need_lazy_banning := False\<rparr>)"]
      unban_pass_stack [of env "clients w" "w\<lparr>need_lazy_banning := False\<rparr>"] by (simp_all add: eq)
  have scene: "has_scene (cl w' c) = has_scene (cl w c)" for c
    unfolding eq by (rule vis_eq_client(6) [OF banning_vis])
  have "bans_ok w'" using w' scene by (simp add: bans_ok_def)
  moreover have "stack_settled w' = stack_settled w" if "distinct (stack w)"
  proof -
    have "riding_parent w' = riding_parent w" by (rule rides_same_stack) (simp_all add: st)
    moreover have "rides_walk n p w' = rides_walk n p w" for n p
      by (induction n arbitrary: p) (auto simp: stack_has_def st split: option.splits)
    ultimately have "arranged w' = arranged w" by (simp add: riding_dist_def [abs_def] st)
    then show ?thesis using that st by (simp add: stack_settled_iff)
  qed
  ultimately show ?thesis using w'(1) st assms by (auto simp: marked_def)
qed

text \<open>
  The calls of the second half that run no Lua code leave the windows alone: the renderer's dirty
  mark, the X11 property and the destruction of X11 windows. The internal pointer motion runs Lua
  only through a mousegrabber.
\<close>

definition native_quiet :: "env \<Rightarrow> bool" where
  "native_quiet env \<longleftrightarrow>
     (\<forall>n args w. n \<in> {''declare_mark_all_dirty'', ''ewmh_update_net_client_list_stacking'', ''client_destroy_later''} \<longrightarrow>
        same_windows (env (Native n args) w) w) \<and>
     (\<forall>args w. \<not> mousegrabber_running w \<longrightarrow> same_windows (env (Native ''motionnotify'' args) w) w)"

lemma same_windows_trans: "same_windows u v \<Longrightarrow> same_windows v w \<Longrightarrow> same_windows u w"
  by (simp add: same_windows_def)

lemma same_windows_trace: "same_windows u (w\<lparr>trace := x\<rparr>) = same_windows u w"
  by (simp add: same_windows_def)

lemma quiet_calls:
  assumes "native_quiet env"
  shows "same_windows (call_env env (Native ''declare_mark_all_dirty'' xs) w) w"
    and "same_windows (call_env env (Native ''ewmh_update_net_client_list_stacking'' xs) w) w"
    and "same_windows (call_env env (Native ''client_destroy_later'' xs) w) w"
    and "\<not> mousegrabber_running w \<Longrightarrow> same_windows (call_env env (Native ''motionnotify'' xs) w) w"
proof -
  have here: "same_windows (w\<lparr>trace := x\<rparr>) w" for x by (simp add: same_windows_def)
  note parts = assms [unfolded native_quiet_def, THEN conjunct1, rule_format]
    assms [unfolded native_quiet_def, THEN conjunct2, rule_format]
  show "same_windows (call_env env (Native ''declare_mark_all_dirty'' xs) w) w"
    unfolding call_env_def by (rule same_windows_trans [OF parts(1) here]) simp
  show "same_windows (call_env env (Native ''ewmh_update_net_client_list_stacking'' xs) w) w"
    unfolding call_env_def by (rule same_windows_trans [OF parts(1) here]) simp
  show "same_windows (call_env env (Native ''client_destroy_later'' xs) w) w"
    unfolding call_env_def by (rule same_windows_trans [OF parts(1) here]) simp
  show "same_windows (call_env env (Native ''motionnotify'' xs) w) w" if "\<not> mousegrabber_running w"
    unfolding call_env_def by (rule same_windows_trans [OF parts(2) here]) (simp add: that)
qed

lemma bans_cong: "same_windows v w \<Longrightarrow> bans_ok w \<Longrightarrow> bans_ok v"
  using visible_cong [of v w] by (auto simp: same_windows_def bans_ok_def)

lemma stack_refresh_settles:
  assumes "native_quiet env" and w: "marked w"
  shows "\<exists>w'. stack_refresh env w = Some w' \<and> marked w' \<and> stack_settled w' \<and> distinct (stack w') \<and>
    need_lazy_banning w' = need_lazy_banning w \<and> \<not> need_stack_refresh w'"
proof (cases "need_stack_refresh w")
  case False
  then show ?thesis using w by (intro exI [of _ w]) (simp add: stack_refresh_def marked_def)
next
  case True
  have dist: "distinct (stack w)" using w by (simp add: marked_def)
  define v where "v = w\<lparr>stack := arranged w, need_stack_refresh := False\<rparr>"
  define r where "r = call_env env (Native ''ewmh_update_net_client_list_stacking'' [])
    (call_env env (Native ''declare_mark_all_dirty'' []) (w\<lparr>stack := arranged w\<rparr>))"
  have run: "stack_refresh env w = Some (r\<lparr>need_stack_refresh := False\<rparr>)"
    using stack_refresh_arranges [OF dist True] by (simp add: r_def)
  have same: "same_windows (r\<lparr>need_stack_refresh := False\<rparr>) v"
    using same_windows_trans [OF quiet_calls(2) quiet_calls(1), OF assms(1) assms(1), of "[]" "[]" "w\<lparr>stack := arranged w\<rparr>"]
    by (simp add: r_def [symmetric] v_def same_windows_def)
  have d: "distinct (stack v)"
    using dist mset_eq_imp_distinct_iff [OF stack_forest.arrange_mset [OF dist]] by (simp add: v_def)
  have "arranged v = arranged w" by (rule arranged_again [OF dist]) (simp_all add: v_def)
  then have "stack_settled v" using d by (simp add: stack_settled_iff v_def)
  moreover have "need_lazy_banning v \<or> bans_ok v"
    using w visible_cong [of v w] by (auto simp: marked_def bans_ok_def v_def)
  ultimately have "marked v" using d by (simp add: marked_def)
  then have "marked (r\<lparr>need_stack_refresh := False\<rparr>)" by (rule marked_cong [OF same])
  then show ?thesis using run same by (auto simp: marked_def same_windows_def v_def)
qed

text \<open>
  C2: A refresh that is not nested in another returns and settles the stack and the banning. The
  stack is in the order a stack refresh gives it and its flag is clear. Every managed client with
  a scene is banned exactly when it is not visible, or the flag for the next banning is set; when
  no mousegrabber is running and no handler starts one, banned is exactly not visible and that flag
  is clear too. Assumed of the environment: all Lua code (the handlers of the queued events and of
  the refresh signal, the mousegrabber's callback that the pointer motion after the banning can
  run) marks what it unsettles for the next refresh, and the renderer's dirty mark, the X11
  property and the destruction of X11 windows leave the windows alone.
\<close>

theorem refresh_settles:
  assumes "\<not> in_refresh w" and "marked w" and "preserves env marked"
    and "native_quiet env"
  shows "\<exists>fuel w'. some_refresh fuel env w = Some w' \<and> stack_settled w' \<and> distinct (stack w') \<and>
    \<not> need_stack_refresh w' \<and> \<not> in_refresh w' \<and> (need_lazy_banning w' \<or> bans_ok w') \<and>
    (\<not> mousegrabber_running w \<and> preserves env (\<lambda>v. \<not> mousegrabber_running v) \<longrightarrow>
       \<not> need_lazy_banning w' \<and> bans_ok w')"
proof -
  define v where "v = before_banning env w"
  have v: "marked v" unfolding v_def by (rule marked_before_banning [OF assms(3,2)])
  from banning_refresh_bans [OF v, of env] obtain b where
    b: "banning_refresh (length (clients v) + 1) env v = Some b" "bans_ok b" "\<not> need_lazy_banning b"
      "distinct (stack b)" "need_stack_refresh b \<or> stack_settled b" "mousegrabber_running b = mousegrabber_running v" by blast
  define p where "p = need_lazy_banning v"
  define b1 where "b1 = (if p then call_env env (Native ''declare_mark_all_dirty'' []) b else b)"
  define b2 where "b2 = (if p then call_env env (Native ''motionnotify'' []) b1 else b1)"
  have mb: "marked b" using b by (simp add: marked_def)
  then have m2: "marked b2" using marked_call [OF assms(3)] by (simp add: b2_def b1_def)
  have calm: "same_windows b2 b" if "\<not> mousegrabber_running w" "preserves env (\<lambda>v. \<not> mousegrabber_running v)"
  proof -
    have "\<not> mousegrabber_running b" unfolding b(6) v_def by (rule before_banning_keeps [OF that(2,1)]) simp_all
    then have "\<not> mousegrabber_running b1" using call_env_preserves [OF that(2), of b] by (simp add: b1_def)
    moreover have "same_windows b1 b" using quiet_calls(1) [OF assms(4)] by (simp add: b1_def same_windows_def)
    ultimately show ?thesis
      using quiet_calls(4) [OF assms(4), of b1] same_windows_trans by (auto simp: b2_def)
  qed
  obtain r where r: "stack_refresh env b2 = Some r" "marked r" "stack_settled r" "distinct (stack r)"
      "need_lazy_banning r = need_lazy_banning b2" "\<not> need_stack_refresh r"
    using stack_refresh_settles [OF assms(4) m2] by blast
  define w' where "w' = (call_env env (Native ''client_destroy_later'' []) r)\<lparr>in_refresh := False\<rparr>"
  have w': "same_windows w' r" "\<not> in_refresh w'"
    using quiet_calls(3) [OF assms(4), of "[]" r] by (simp_all add: w'_def same_windows_def)
  have "some_refresh (length (clients v) + 1) env w = Some w'"
    using assms(1) b(1) r(1)
    by (cases p) (simp_all add: some_refresh_def Let_def v_def before_banning_def p_def b1_def b2_def w'_def)
  moreover have "stack_settled w'" "distinct (stack w')" "\<not> need_stack_refresh w'" "need_lazy_banning w' \<or> bans_ok w'"
    using r w' settled_cong [of w' r] bans_cong [of w' r] by (auto simp: same_windows_def marked_def)
  moreover have "\<not> need_lazy_banning w' \<and> bans_ok w'"
    if "\<not> mousegrabber_running w" "preserves env (\<lambda>v. \<not> mousegrabber_running v)"
    using r(2,5) w'(1) calm [OF that] b(3) bans_cong [OF w'(1)] by (auto simp: same_windows_def marked_def)
  ultimately show ?thesis using w'(2) by blast
qed

text \<open>A state where a transient is below its parent and a hidden client is not yet banned.\<close>

definition refresh_demo :: world where
  "refresh_demo = world0\<lparr>cl := (\<lambda>c. client0\<lparr>has_scene := True, sticky := True, hidden := (c = 3),
       transient_for := (if c = 1 then Some 2 else None)\<rparr>),
     clients := [1, 2, 3], stack := [1, 2, 3], need_stack_refresh := True, need_lazy_banning := True\<rparr>"

theorem refresh_settles_witness:
  "\<exists>fuel w'. some_refresh fuel idle refresh_demo = Some w' \<and> bans_ok w' \<and> stack_settled w' \<and> \<not> need_stack_refresh w'"
proof -
  have "native_quiet idle" by (simp add: native_quiet_def same_windows_def idle_def)
  moreover have "preserves idle P" for P by (simp add: preserves_def idle_def)
  ultimately show ?thesis
    using refresh_settles [of refresh_demo idle] by (fastforce simp: marked_def refresh_demo_def world0_def)
qed

end
