(* ===== verification/LuaClass.thy ===== *)
theory LuaClass
  imports Signals
begin

text \<open>
  Lua classes: src/common/luaclass.c and luaclass.h, and the emission on objects of
  src/common/luaobject.c. A class has a parent, a sorted array of properties with their
  callbacks and the handlers for missing ones; a userdata has the metatable of its class, or the
  one that marks it as collected. Callbacks and C functions are named by numbers. The lemmas
  show the type check along the parents, the lookup of properties in the nearest class, the
  order of an emission, and that classes set up after their parents keep every chain finite.
\<close>

subsection \<open>Classes\<close>

record lua_class_property =
  p_name :: string
  p_new :: "nat option"
  p_index :: "nat option"
  p_newindex :: "nat option"

record lua_class =
  k_name :: string
  k_signals :: signal_array
  k_parent :: "nat option"
  k_collector :: "nat option"
  k_properties :: "lua_class_property array"
  k_index_miss :: "nat option"
  k_newindex_miss :: "nat option"
  k_checker :: bool
  k_instances :: u32
  k_index_handler :: "nat option"
  k_newindex_handler :: "nat option"

text \<open>The metatable of a userdata: that of a class, the one of collected objects, or another.\<close>

datatype metatable = META_CLASS nat | META_COLLECTED | META_OTHER

text \<open>
  The part of the Lua state classes use: the classes by their addresses, the fields of their
  metatables, the metatables of the userdata and whether the checker of their class accepts
  them, their signals, and the private tables.
\<close>

record lstate =
  klass :: "nat \<Rightarrow> lua_class"
  luaA_classes :: "nat list"
  class_meta :: "nat \<Rightarrow> lval \<Rightarrow> lval"
  obj_meta :: "nat \<Rightarrow> metatable"
  obj_valid :: "nat \<Rightarrow> bool"
  obj_signals :: "nat \<Rightarrow> signal_array"
  private_data :: "nat \<Rightarrow> lval"

definition luaA_class_get :: "lstate \<Rightarrow> lval \<Rightarrow> nat option" where
  "luaA_class_get L v =
     (case v of LUser u \<Rightarrow> (case obj_meta L u of META_CLASS c \<Rightarrow> Some c | _ \<Rightarrow> None) | _ \<Rightarrow> None)"

text \<open>
  The loops "for (; class; class = class->parent)" that return at the first class where the body
  finds something. The outer None is still going up after the given rounds.
\<close>

fun up_classes :: "nat \<Rightarrow> (nat \<Rightarrow> 'b option) \<Rightarrow> lstate \<Rightarrow> nat option \<Rightarrow> 'b option option" where
  "up_classes 0 body L c = None"
| "up_classes (Suc n) body L c =
     (case c of
        None \<Rightarrow> Some None
      | Some c \<Rightarrow> (case body c of Some b \<Rightarrow> Some (Some b) | None \<Rightarrow> up_classes n body L (k_parent (klass L c))))"

definition luaA_toudata :: "nat \<Rightarrow> lstate \<Rightarrow> lval \<Rightarrow> nat \<Rightarrow> nat option option" where
  "luaA_toudata fuel L v cls =
     (case v of
        LUser u \<Rightarrow> up_classes fuel (\<lambda>c. if c = cls then Some u else None) L (luaA_class_get L v)
      | _ \<Rightarrow> Some None)"

datatype check_error = TypeError string | InvalidObject

definition luaA_checkudata :: "nat \<Rightarrow> lstate \<Rightarrow> lval \<Rightarrow> nat \<Rightarrow> (check_error + nat) option" where
  "luaA_checkudata fuel L v cls =
     map_option (\<lambda>p.
       case p of
         None \<Rightarrow> Inl (TypeError (k_name (klass L cls)))
       | Some u \<Rightarrow> if k_checker (klass L cls) \<and> \<not> obj_valid L u then Inl InvalidObject else Inr u)
       (luaA_toudata fuel L v cls)"

text \<open>typename is lua_typename of the other values.\<close>

definition luaA_typename :: "(lval \<Rightarrow> string) \<Rightarrow> lstate \<Rightarrow> lval \<Rightarrow> string" where
  "luaA_typename typename L v =
     (case luaA_class_get L v of Some c \<Rightarrow> k_name (klass L c) | None \<Rightarrow> typename v)"

subsection \<open>Properties\<close>

definition lua_class_property_cmp :: "lua_class_property \<Rightarrow> lua_class_property \<Rightarrow> int" where
  "lua_class_property_cmp x y = a_strcmp (Some (p_name x)) (Some (p_name y))"

definition upd_class :: "nat \<Rightarrow> (lua_class \<Rightarrow> lua_class) \<Rightarrow> lstate \<Rightarrow> lstate" where
  "upd_class c f L = L\<lparr>klass := (klass L)(c := f (klass L c))\<rparr>"

definition luaA_class_add_property ::
  "nat \<Rightarrow> string \<Rightarrow> nat option \<Rightarrow> nat option \<Rightarrow> nat option \<Rightarrow> lstate \<Rightarrow> lstate option" where
  "luaA_class_add_property c name cb_new cb_index cb_newindex L =
     map_option (\<lambda>arr. upd_class c (\<lambda>k. k\<lparr>k_properties := arr\<rparr>) L)
       (barray_insert lua_class_property_cmp (k_properties (klass L c))
          \<lparr>p_name = name, p_new = cb_new, p_index = cb_index, p_newindex = cb_newindex\<rparr>)"

definition luaA_class_add_properties :: "nat \<Rightarrow> lua_class_property list \<Rightarrow> lstate \<Rightarrow> lstate" where
  "luaA_class_add_properties c props L =
     upd_class c (\<lambda>k. k\<lparr>k_properties := barray_inserts lua_class_property_cmp (k_properties k) props\<rparr>) L"

definition lua_class_property_array_getbyname :: "lua_class_property array \<Rightarrow> string \<Rightarrow> lua_class_property option" where
  "lua_class_property_array_getbyname arr name =
     map_option (\<lambda>i. elems arr ! i)
       (barray_lookup lua_class_property_cmp arr
          \<lparr>p_name = name, p_new = None, p_index = None, p_newindex = None\<rparr>)"

definition luaA_class_property_get :: "nat \<Rightarrow> lstate \<Rightarrow> nat option \<Rightarrow> string \<Rightarrow> lua_class_property option option" where
  "luaA_class_property_get fuel L cls attr =
     up_classes fuel (\<lambda>c. lua_class_property_array_getbyname (k_properties (klass L c)) attr) L cls"

subsection \<open>Setting up and collecting\<close>

definition luaA_class_setup ::
  "nat \<Rightarrow> string \<Rightarrow> nat option \<Rightarrow> nat option \<Rightarrow> bool \<Rightarrow> nat option \<Rightarrow> nat option \<Rightarrow> (lval \<Rightarrow> lval) \<Rightarrow> lstate \<Rightarrow> lstate" where
  "luaA_class_setup c name parent collector checker index_miss newindex_miss meta L =
     (let L = L\<lparr>class_meta := (class_meta L)(c := (\<lambda>f.
                 if f = LStr ''__gc'' then LCFun ''luaA_class_gc''
                 else if meta f \<noteq> LNil then meta f
                 else if f = LStr ''__index'' then LTable c else LNil))\<rparr>;
          L = upd_class c (\<lambda>k. k\<lparr>k_collector := collector, k_name := name, k_index_miss := index_miss,
                k_newindex_miss := newindex_miss, k_checker := checker, k_parent := parent,
                k_instances := 0, k_index_handler := None, k_newindex_handler := None\<rparr>) L
      in L\<lparr>luaA_classes := luaA_classes L @ [c]\<rparr>)"

definition luaA_class_cleanup_all :: "lstate \<Rightarrow> lstate" where
  "luaA_class_cleanup_all L =
     (fold (\<lambda>c. upd_class c (\<lambda>k. k\<lparr>k_signals := array_init, k_instances := 0,
        k_index_handler := None, k_newindex_handler := None\<rparr>)) (luaA_classes L) L)\<lparr>luaA_classes := []\<rparr>"

text \<open>The collectors a collection calls, the class's own first; None is out of fuel.\<close>

fun collector_chain :: "nat \<Rightarrow> lstate \<Rightarrow> nat option \<Rightarrow> nat list option" where
  "collector_chain 0 L c = None"
| "collector_chain (Suc n) L c =
     (case c of
        None \<Rightarrow> Some []
      | Some c \<Rightarrow>
          map_option (\<lambda>rest. (case k_collector (klass L c) of Some f \<Rightarrow> f # rest | None \<Rightarrow> rest))
            (collector_chain n L (k_parent (klass L c))))"

text \<open>The collector functions called with the object, and the state with its new metatable.\<close>

definition luaA_class_gc :: "nat \<Rightarrow> nat \<Rightarrow> lstate \<Rightarrow> (nat list \<times> lstate) option" where
  "luaA_class_gc fuel u L =
     (let L = L\<lparr>obj_signals := (obj_signals L)(u := array_init)\<rparr>;
          cls = luaA_class_get L (LUser u)
      in case cls of
           None \<Rightarrow> None
         | Some c \<Rightarrow>
             (let L = upd_class c (\<lambda>k. k\<lparr>k_instances := k_instances k - 1\<rparr>) L
              in map_option (\<lambda>fs. (fs, L\<lparr>obj_meta := (obj_meta L)(u := META_COLLECTED)\<rparr>))
                   (collector_chain fuel L cls)))"

text \<open>The metamethods of a collected object; attr is the result of luaL_checkstring.\<close>

definition luaA_class_newindex_invalid :: "string + lval" where
  "luaA_class_newindex_invalid = Inl ''attempt to index an object that was already garbage collected''"

definition luaA_class_index_invalid :: "string \<Rightarrow> string + lval" where
  "luaA_class_index_invalid attr =
     (if A_STREQ (Some attr) (Some ''valid'') then Inr (LBool False) else luaA_class_newindex_invalid)"

subsection \<open>Indexing\<close>

definition luaA_usemetatable :: "nat \<Rightarrow> lstate \<Rightarrow> lval \<Rightarrow> lval \<Rightarrow> lval option option" where
  "luaA_usemetatable fuel L obj field =
     up_classes fuel (\<lambda>c. if class_meta L c field \<noteq> LNil then Some (class_meta L c field) else None) L
       (luaA_class_get L obj)"

text \<open>
  What an index or newindex metamethod does: push a value, call a property callback with the
  object, call a Lua handler, nothing, or raise an error. Undefined stands for an object
  without a class, where the code follows a null pointer.
\<close>

datatype access =
    Pushed lval | Callback nat nat | Handler nat | Nothing | Error check_error | NotAString | Undefined

definition checked :: "nat \<Rightarrow> lstate \<Rightarrow> lval \<Rightarrow> nat \<Rightarrow> (nat \<Rightarrow> access) \<Rightarrow> access option" where
  "checked fuel L obj cls f =
     map_option (\<lambda>r. case r of Inl e \<Rightarrow> Error e | Inr u \<Rightarrow> f u) (luaA_checkudata fuel L obj cls)"

text \<open>checkstring is luaL_checkstring; None is out of fuel.\<close>

definition luaA_class_index :: "nat \<Rightarrow> (lval \<Rightarrow> string option) \<Rightarrow> lstate \<Rightarrow> lval \<Rightarrow> lval \<Rightarrow> access option" where
  "luaA_class_index fuel checkstring L obj field =
     Option.bind (luaA_usemetatable fuel L obj field) (\<lambda>m.
       case m of
         Some v \<Rightarrow> Some (Pushed v)
       | None \<Rightarrow>
           (case (luaA_class_get L obj, checkstring field) of
              (_, None) \<Rightarrow> Some NotAString
            | (None, _) \<Rightarrow> Some Undefined
            | (Some cls, Some attr) \<Rightarrow>
                if A_STREQ (Some attr) (Some ''valid'') then
                  map_option (\<lambda>p. Pushed (LBool (case p of
                      None \<Rightarrow> False | Some u \<Rightarrow> k_checker (klass L cls) \<longrightarrow> obj_valid L u)))
                    (luaA_toudata fuel L obj cls)
                else
                  Option.bind (luaA_class_property_get fuel L (Some cls) attr) (\<lambda>prop.
                    if A_STREQ (Some attr) (Some ''_private'') then
                      checked fuel L obj cls (\<lambda>u. Pushed (private_data L u))
                    else
                      (case prop of
                         Some p \<Rightarrow>
                           (case p_index p of
                              Some f \<Rightarrow> checked fuel L obj cls (Callback f)
                            | None \<Rightarrow> Some Nothing)
                       | None \<Rightarrow>
                           (case k_index_handler (klass L cls) of
                              Some h \<Rightarrow> Some (Handler h)
                            | None \<Rightarrow>
                                (case k_index_miss (klass L cls) of
                                   Some f \<Rightarrow> checked fuel L obj cls (Callback f)
                                 | None \<Rightarrow> Some Nothing))))))"

definition luaA_class_newindex :: "nat \<Rightarrow> (lval \<Rightarrow> string option) \<Rightarrow> lstate \<Rightarrow> lval \<Rightarrow> lval \<Rightarrow> access option" where
  "luaA_class_newindex fuel checkstring L obj field =
     Option.bind (luaA_usemetatable fuel L obj field) (\<lambda>m.
       case m of
         Some v \<Rightarrow> Some (Pushed v)
       | None \<Rightarrow>
           (case (luaA_class_get L obj, checkstring field) of
              (_, None) \<Rightarrow> Some NotAString
            | (None, _) \<Rightarrow> Some Undefined
            | (Some cls, Some attr) \<Rightarrow>
                Option.bind (luaA_class_property_get fuel L (Some cls) attr) (\<lambda>prop.
                  case prop of
                    Some p \<Rightarrow>
                      (case p_newindex p of
                         Some f \<Rightarrow> checked fuel L obj cls (Callback f)
                       | None \<Rightarrow> Some Nothing)
                  | None \<Rightarrow>
                      (case k_newindex_handler (klass L cls) of
                         Some h \<Rightarrow> Some (Handler h)
                       | None \<Rightarrow>
                           (case k_newindex_miss (klass L cls) of
                              Some f \<Rightarrow> checked fuel L obj cls (Callback f)
                            | None \<Rightarrow> Some Nothing)))))"

text \<open>The callbacks the constructor calls for the entries of its table, in their order.\<close>

fun luaA_class_new :: "nat \<Rightarrow> (lval \<Rightarrow> string option) \<Rightarrow> lstate \<Rightarrow> nat \<Rightarrow> (lval \<times> lval) list \<Rightarrow> (nat \<times> lval) list option" where
  "luaA_class_new fuel checkstring L cls [] = Some []"
| "luaA_class_new fuel checkstring L cls ((key, v) # rest) =
     (case checkstring key of
        None \<Rightarrow> luaA_class_new fuel checkstring L cls rest
      | Some attr \<Rightarrow>
          Option.bind (luaA_class_property_get fuel L (Some cls) attr) (\<lambda>prop.
            map_option (\<lambda>calls. (case Option.bind prop p_new of Some f \<Rightarrow> (f, v) # calls | None \<Rightarrow> calls))
              (luaA_class_new fuel checkstring L cls rest)))"

subsection \<open>Emitting on an object\<close>

text \<open>
  The world the called functions change holds the Lua state, the environment tables and the
  registry; lst, envs_of and registry read them. The object is at the position p of the stack.
\<close>

definition luaA_class_emit_signal ::
  "'w lua_call \<Rightarrow> ('w \<Rightarrow> lstate) \<Rightarrow> ('w \<Rightarrow> store) \<Rightarrow> nat \<Rightarrow> string \<Rightarrow> nat \<Rightarrow> lstack \<times> 'w \<Rightarrow> lstack \<times> 'w" where
  "luaA_class_emit_signal call lst registry c name nargs = (\<lambda>(st, w).
     signal_object_emit call registry (k_signals (klass (lst w) c)) (Some name) nargs (st, w))"

definition object_emit_one :: "'w lua_call \<Rightarrow> nat \<Rightarrow> nat \<Rightarrow> nat \<Rightarrow> nat \<Rightarrow> lstack \<times> 'w \<Rightarrow> lstack \<times> 'w" where
  "object_emit_one call p nargs nbfunc i = (\<lambda>(st, w).
     let st = st @ [st ! p];
         st = (lua_pushvalue (nargs + nbfunc + 1 - i) ^^ nargs) st;
         st = lua_pushvalue (nargs + nbfunc + 1 - i) st;
         st = lua_remove (nargs + nbfunc + 2 - i) st
     in snd (luaA_dofunction call (nargs + 1) 0 (st, w)))"

definition luaA_object_emit_signal ::
  "'w lua_call \<Rightarrow> ('w \<Rightarrow> lstate) \<Rightarrow> ('w \<Rightarrow> envs) \<Rightarrow> ('w \<Rightarrow> store) \<Rightarrow> nat \<Rightarrow> string \<Rightarrow> nat
     \<Rightarrow> lstack \<times> 'w \<Rightarrow> lstack \<times> 'w" where
  "luaA_object_emit_signal call lst envs_of registry oud name nargs = (\<lambda>(st, w).
     let p = length st - oud;
         v = lua_at st oud;
         cls = luaA_class_get (lst w) v
     in case (cls, v) of
          (Some c, LUser u) \<Rightarrow>
            if k_checker (klass (lst w) c) \<and> \<not> obj_valid (lst w) u then (lua_pop nargs st, w)
            else
              (let arr = obj_signals (lst w) u;
                   (st, w) =
                     (case signal_array_getbyname arr (Some name) of
                        None \<Rightarrow> (st, w)
                      | Some k \<Rightarrow>
                          (let funcs = sigfuncs (signal_at arr k);
                               nbfunc = alen funcs;
                               st = foldl (\<lambda>st func. lua_push (luaA_object_push_item (envs_of w) u func) st) st (elems funcs)
                           in fold (object_emit_one call p nargs nbfunc) [0..<nbfunc] (st, w)));
                   st = lua_pushvalue oud st;
                   st = lua_insert (nargs + 1) st
               in case luaA_class_get (lst w) (lua_at st (nargs + 1)) of
                    Some c \<Rightarrow> luaA_class_emit_signal call lst registry c name (nargs + 1) (st, w)
                  | None \<Rightarrow> (lua_pop (nargs + 1) st, w))
        | _ \<Rightarrow> (lua_pop nargs st, w))"

subsection \<open>The parents of a class\<close>

text \<open>
  Classes are set up after their parents: the rank of a class, its place in the list of classes
  from the end, falls towards the root, and a class that was not set up has no parent.
\<close>

definition classes_ok :: "lstate \<Rightarrow> bool" where
  "classes_ok L \<longleftrightarrow> distinct (luaA_classes L) \<and>
     (\<forall>c p. k_parent (klass L c) = Some p \<longrightarrow> (\<exists>A B. luaA_classes L = A @ c # B \<and> p \<in> set A))"

definition rank :: "lstate \<Rightarrow> nat \<Rightarrow> nat" where
  "rank L c = (case index_of c (luaA_classes L) of None \<Rightarrow> 0 | Some i \<Rightarrow> i)"

lemma rank_parent:
  assumes "classes_ok L" and "k_parent (klass L c) = Some p"
  shows "rank L p < rank L c" and "rank L c < length (luaA_classes L)"
proof -
  obtain A B where s: "luaA_classes L = A @ c # B" "p \<in> set A" using assms unfolding classes_ok_def by blast
  have d: "distinct (A @ c # B)" using assms(1) s(1) by (simp add: classes_ok_def)
  have app: "index_of x (A @ D) = (case index_of x A of Some i \<Rightarrow> Some i | None \<Rightarrow> map_option ((+) (length A)) (index_of x D))" for x D
    by (induction A; cases "index_of x D") (auto split: option.splits)
  have c: "index_of c (luaA_classes L) = Some (length A)"
    using d app [of c "c # B"] by (simp add: s(1) index_of_None [THEN iffD2])
  obtain i where i: "index_of p A = Some i" using s(2) index_of_None [of p A] by (cases "index_of p A") auto
  then have "index_of p (luaA_classes L) = Some i" "i < length A"
    using app [of p "c # B"] index_of_Some [OF i] by (simp_all add: s(1))
  then show "rank L p < rank L c" and "rank L c < length (luaA_classes L)" using c s(1) by (simp_all add: rank_def)
qed

text \<open>The class and its ancestors, the nearest first.\<close>

inductive descends_from :: "lstate \<Rightarrow> nat \<Rightarrow> nat \<Rightarrow> bool" for L where
  self: "descends_from L c c"
| up: "k_parent (klass L c) = Some p \<Longrightarrow> descends_from L p d \<Longrightarrow> descends_from L c d"

inductive_simps descends_iff: "descends_from L c d"

fun lineage :: "nat \<Rightarrow> lstate \<Rightarrow> nat option \<Rightarrow> nat list" where
  "lineage 0 L c = []"
| "lineage (Suc n) L c = (case c of None \<Rightarrow> [] | Some c \<Rightarrow> c # lineage n L (k_parent (klass L c)))"

lemma up_classes_lineage:
  assumes "classes_ok L" and "(case c of None \<Rightarrow> 0 | Some c \<Rightarrow> rank L c + 1) < n"
  shows "up_classes n body L c = 
    Some (case find (\<lambda>d. body d \<noteq> None) (lineage n L c) of None \<Rightarrow> None | Some d \<Rightarrow> body d)"
  using assms(2)
proof (induction n arbitrary: c)
  case (Suc n)
  show ?case
  proof (cases c)
    case (Some d)
    have "(case k_parent (klass L d) of None \<Rightarrow> 0 | Some c \<Rightarrow> rank L c + 1) < n"
      using Suc.prems Some rank_parent(1) [OF assms(1), of d] by (fastforce split: option.splits)
    from Suc.IH [OF this] show ?thesis using Some by (cases "body d") auto
  qed simp
qed simp

lemma lineage_descends:
  assumes "classes_ok L" and "(case c of None \<Rightarrow> 0 | Some c \<Rightarrow> rank L c + 1) < n"
  shows "set (lineage n L c) = (case c of None \<Rightarrow> {} | Some c \<Rightarrow> {d. descends_from L c d})"
  using assms(2)
proof (induction n arbitrary: c)
  case (Suc n)
  show ?case
  proof (cases c)
    case (Some d)
    have "(case k_parent (klass L d) of None \<Rightarrow> 0 | Some c \<Rightarrow> rank L c + 1) < n"
      using Suc.prems Some rank_parent(1) [OF assms(1), of d] by (fastforce split: option.splits)
    note ih = Suc.IH [OF this]
    have "{x. descends_from L d x} = insert d (case k_parent (klass L d) of None \<Rightarrow> {} | Some p \<Rightarrow> {x. descends_from L p x})"
      using descends_iff [of L d] by (auto split: option.split)
    then show ?thesis using Some ih by simp
  qed simp
qed simp

lemma rank_bound: "classes_ok L \<Longrightarrow> (case c of None \<Rightarrow> 0 | Some c \<Rightarrow> rank L c + 1) < length (luaA_classes L) + 2"
proof (cases c)
  case (Some d)
  have "rank L d \<le> length (luaA_classes L)"
  proof (cases "index_of d (luaA_classes L)")
    case (Some i)
    then show ?thesis using index_of_Some [OF Some] by (simp add: rank_def)
  qed (simp add: rank_def)
  then show ?thesis using Some by simp
qed simp

subsection \<open>The type check\<close>

abbreviation (input) class_fuel :: "lstate \<Rightarrow> nat" where "class_fuel L \<equiv> length (luaA_classes L) + 2"

lemma find_is: "(case find (\<lambda>d. (if d = x then Some u else None) \<noteq> None) xs of
    None \<Rightarrow> None | Some d \<Rightarrow> if d = x then Some u else None) = (if x \<in> set xs then Some u else None)"
  by (induction xs) auto

lemma toudata_descends:
  assumes "classes_ok L"
  shows "luaA_toudata (class_fuel L) L (LUser u) cls = Some
    (case obj_meta L u of META_CLASS c \<Rightarrow> if descends_from L c cls then Some u else None | _ \<Rightarrow> None)"
proof -
  define n where "n = class_fuel L"
  have b: "(case c of None \<Rightarrow> 0 | Some c \<Rightarrow> rank L c + 1) < n" for c
    using rank_bound [OF assms] by (simp add: n_def)
  have "luaA_toudata n L (LUser u) cls =
      Some (if cls \<in> set (lineage n L (luaA_class_get L (LUser u))) then Some u else None)"
    by (simp only: luaA_toudata_def lval.case up_classes_lineage [OF assms b] find_is)
  then show ?thesis
    using lineage_descends [OF assms b, of "luaA_class_get L (LUser u)"]
    unfolding n_def [symmetric] by (simp add: luaA_class_get_def split: metatable.split)
qed

text \<open>
  C33: The check of an argument against a class returns, one round per class and two more, and
  accepts exactly the userdata whose class is the given one or descends from it and which the
  checker of the given class, if it has one, finds valid; everything else is a type error,
  collected objects included, and an object that is no longer valid is reported as such.
\<close>

theorem checkudata_descends:
  assumes "classes_ok L"
  shows "luaA_checkudata (class_fuel L) L v cls = Some
    (case v of
       LUser u \<Rightarrow>
         (case obj_meta L u of
            META_CLASS c \<Rightarrow>
              if \<not> descends_from L c cls then Inl (TypeError (k_name (klass L cls)))
              else if k_checker (klass L cls) \<and> \<not> obj_valid L u then Inl InvalidObject
              else Inr u
          | _ \<Rightarrow> Inl (TypeError (k_name (klass L cls))))
     | _ \<Rightarrow> Inl (TypeError (k_name (klass L cls))))"
proof (cases v)
  case (LUser u)
  then show ?thesis unfolding luaA_checkudata_def LUser toudata_descends [OF assms]
    by (simp split: metatable.split)
qed (simp_all add: luaA_checkudata_def luaA_toudata_def)

definition no_class :: lua_class where
  "no_class = \<lparr>k_name = '''', k_signals = array_init, k_parent = None, k_collector = None,
     k_properties = array_init, k_index_miss = None, k_newindex_miss = None, k_checker = False,
     k_instances = 0, k_index_handler = None, k_newindex_handler = None\<rparr>"

definition lstate0 :: lstate where
  "lstate0 = \<lparr>klass = (\<lambda>_. no_class), luaA_classes = [], class_meta = (\<lambda>_ _. LNil),
     obj_meta = (\<lambda>_. META_OTHER), obj_valid = (\<lambda>_. True), obj_signals = (\<lambda>_. array_init),
     private_data = (\<lambda>_. LNil)\<rparr>"

lemma classes_ok_init: "classes_ok lstate0"
  by (simp add: classes_ok_def lstate0_def no_class_def)

lemma class_setup_ok:
  assumes "classes_ok L" "c \<notin> set (luaA_classes L)" "\<And>p. parent = Some p \<Longrightarrow> p \<in> set (luaA_classes L)"
  shows "classes_ok (luaA_class_setup c name parent col chk im nm meta L)"
proof -
  let ?L = "luaA_class_setup c name parent col chk im nm meta L"
  have cls: "luaA_classes ?L = luaA_classes L @ [c]" and par: "k_parent (klass ?L x) = (if x = c then parent else k_parent (klass L x))" for x
    by (simp_all add: luaA_class_setup_def Let_def upd_class_def)
  have "\<exists>A B. luaA_classes ?L = A @ x # B \<and> p \<in> set A" if "k_parent (klass ?L x) = Some p" for x p
  proof (cases "x = c")
    case True
    then have "luaA_classes ?L = luaA_classes L @ x # []" "p \<in> set (luaA_classes L)"
      using that par assms(3) cls by auto
    then show ?thesis by blast
  next
    case False
    then have "k_parent (klass L x) = Some p" using that par by simp
    then obtain A B where "luaA_classes L = A @ x # B" "p \<in> set A"
      using assms(1) unfolding classes_ok_def by blast
    then show ?thesis by (intro exI [of _ A] exI [of _ "B @ [c]"]) (simp add: cls)
  qed
  then show ?thesis using assms(1,2) cls by (simp add: classes_ok_def)
qed

text \<open>A window class and a client class below it, with one object of each.\<close>

definition two_classes :: lstate where
  "two_classes =
     (luaA_class_setup 6 ''client'' (Some 5) None True None None (\<lambda>_. LNil)
       (luaA_class_setup 5 ''window'' None None False None None (\<lambda>_. LNil) lstate0))
       \<lparr>obj_meta := (\<lambda>u. if u = 10 then META_CLASS 5 else if u = 20 then META_CLASS 6 else META_COLLECTED)\<rparr>"

lemma two_classes_ok: "classes_ok two_classes"
proof -
  have "classes_ok (luaA_class_setup 6 ''client'' (Some 5) None True None None (\<lambda>_. LNil)
      (luaA_class_setup 5 ''window'' None None False None None (\<lambda>_. LNil) lstate0))"
    by (intro class_setup_ok classes_ok_init) (simp_all add: luaA_class_setup_def lstate0_def upd_class_def Let_def)
  then show ?thesis by (simp add: two_classes_def classes_ok_def)
qed

lemma two_classes_sel:
  "klass two_classes 5 = no_class\<lparr>k_name := ''window''\<rparr>"
  "klass two_classes 6 = no_class\<lparr>k_name := ''client'', k_parent := Some 5, k_checker := True\<rparr>"
  "length (luaA_classes two_classes) = 2" "obj_valid two_classes u"
  "obj_meta two_classes u = (if u = 10 then META_CLASS 5 else if u = 20 then META_CLASS 6 else META_COLLECTED)"
  by (simp_all add: two_classes_def luaA_class_setup_def lstate0_def upd_class_def Let_def no_class_def)

theorem checkudata_descends_witness:
  "luaA_checkudata 4 two_classes (LUser 20) 5 = Some (Inr 20) \<and>
   luaA_checkudata 4 two_classes (LUser 10) 6 = Some (Inl (TypeError ''client'')) \<and>
   luaA_checkudata 4 two_classes (LUser 30) 5 = Some (Inl (TypeError ''window''))"
proof -
  have root: "k_parent (klass two_classes 5) = None" unfolding two_classes_sel by (simp add: no_class_def)
  have up: "k_parent (klass two_classes 6) = Some 5" unfolding two_classes_sel by simp
  have "descends_from two_classes 6 5" using up by (auto intro: descends_from.intros)
  moreover have "\<not> descends_from two_classes 5 6" using root by (subst descends_iff) simp
  ultimately show ?thesis
    using checkudata_descends [OF two_classes_ok, of "LUser 20" 5] checkudata_descends [OF two_classes_ok, of "LUser 10" 6]
      checkudata_descends [OF two_classes_ok, of "LUser 30" 5]
    by (simp add: two_classes_sel no_class_def)
qed

subsection \<open>The property of the nearest class\<close>

interpretation props: barray p_name lua_class_property_cmp
  by unfold_locales (auto simp: lua_class_property_cmp_def a_strcmp_def NONULL_def strcmp_neg)

definition props_ok :: "lstate \<Rightarrow> bool" where
  "props_ok L \<longleftrightarrow> (\<forall>c. wf_array (k_properties (klass L c)) \<and> props.ordered (elems (k_properties (klass L c))))"

definition class_props :: "lstate \<Rightarrow> nat \<Rightarrow> lua_class_property set" where
  "class_props L c = set (elems (k_properties (klass L c)))"

text \<open>The property of that name in the nearest class that has one.\<close>

inductive nearest :: "lstate \<Rightarrow> string \<Rightarrow> nat \<Rightarrow> lua_class_property \<Rightarrow> bool" for L name where
  here: "p \<in> class_props L c \<Longrightarrow> p_name p = name \<Longrightarrow> nearest L name c p"
| above: "name \<notin> p_name ` class_props L c \<Longrightarrow> k_parent (klass L c) = Some d \<Longrightarrow> nearest L name d p \<Longrightarrow>
    nearest L name c p"

inductive_cases nearest_cases: "nearest L name c p"

lemma getbyname:
  assumes "props_ok L"
  shows "case lua_class_property_array_getbyname (k_properties (klass L c)) name of
      None \<Rightarrow> name \<notin> p_name ` class_props L c
    | Some p \<Rightarrow> p \<in> class_props L c \<and> p_name p = name"
proof -
  let ?arr = "k_properties (klass L c)"
  have ok: "wf_array ?arr" "props.ordered (elems ?arr)" using assms by (simp_all add: props_ok_def)
  show ?thesis
    using props.barray_lookup_correct [OF ok, of "\<lparr>p_name = name, p_new = None, p_index = None, p_newindex = None\<rparr>"]
      elems_length [OF ok(1)]
    by (auto simp: lua_class_property_array_getbyname_def class_props_def split: option.splits)
qed

lemma same_name:
  assumes "props_ok L" "p \<in> class_props L c" "q \<in> class_props L c" "p_name p = p_name q"
  shows "p = q"
proof -
  have "distinct (map p_name (elems (k_properties (klass L c))))"
    using assms(1) by (simp add: props_ok_def props.ordered_keys strict_sorted_iff)
  then show ?thesis using assms(2-4) unfolding class_props_def distinct_map inj_on_def by blast
qed

lemma property_get_nearest:
  assumes "classes_ok L" "props_ok L" and "(case c of None \<Rightarrow> 0 | Some c \<Rightarrow> rank L c + 1) < n"
  shows "\<exists>r. luaA_class_property_get n L c name = Some r \<and>
    (\<forall>p. r = Some p \<longleftrightarrow> (\<exists>d. c = Some d \<and> nearest L name d p))"
  using assms(3)
proof (induction n arbitrary: c)
  case (Suc n)
  show ?case
  proof (cases c)
    case (Some d)
    have "(case k_parent (klass L d) of None \<Rightarrow> 0 | Some c \<Rightarrow> rank L c + 1) < n"
      using Suc.prems Some rank_parent(1) [OF assms(1), of d] by (fastforce split: option.splits)
    from Suc.IH [OF this] obtain r where
      r: "luaA_class_property_get n L (k_parent (klass L d)) name = Some r"
        "\<forall>p. r = Some p \<longleftrightarrow> (\<exists>e. k_parent (klass L d) = Some e \<and> nearest L name e p)" by blast
    note here = getbyname [OF assms(2), where c = d and name = name]
    show ?thesis
    proof (cases "lua_class_property_array_getbyname (k_properties (klass L d)) name")
      case None
      then have none: "name \<notin> p_name ` class_props L d" using here by simp
      have "nearest L name d p \<longleftrightarrow> (\<exists>e. k_parent (klass L d) = Some e \<and> nearest L name e p)" for p
      proof
        assume "nearest L name d p"
        then show "\<exists>e. k_parent (klass L d) = Some e \<and> nearest L name e p"
          using none by cases auto
      qed (use none in \<open>blast intro: nearest.above\<close>)
      then show ?thesis using None Some r by (simp add: luaA_class_property_get_def)
    next
      case (Some q)
      then have q: "q \<in> class_props L d" "p_name q = name" using here by simp_all
      have "nearest L name d p \<longleftrightarrow> p = q" for p
      proof
        assume "nearest L name d p"
        then show "p = q" using q same_name [OF assms(2)] by cases auto
      qed (use q in \<open>auto intro: nearest.here\<close>)
      then show ?thesis using Some \<open>c = Some d\<close> by (auto simp: luaA_class_property_get_def)
    qed
  qed (simp add: luaA_class_property_get_def)
qed simp

text \<open>
  Indexing an object of a class where no class of its line has the name as a field of its
  metatable returns, and it calls the index callback of the property of that name in the nearest
  class of the line that has one, with the object, when the object is valid; a nearer property
  without a callback hides those above and gives nothing; and when no class of the line has
  the property only the miss handler of the object's own class is asked, the Lua one first.
\<close>

theorem index_nearest_property:
  assumes "classes_ok L" and "props_ok L" and "obj_meta L u = META_CLASS c" and "k_checker (klass L c) \<longrightarrow> obj_valid L u"
    and "checkstring field = Some attr" and "attr \<notin> {''valid'', ''_private''}"
    and "\<And>d. descends_from L c d \<Longrightarrow> class_meta L d field = LNil"
  shows "\<exists>r. luaA_class_index (class_fuel L) checkstring L (LUser u) field = Some r \<and>
    (\<forall>p. nearest L attr c p \<longrightarrow> r = (case p_index p of Some f \<Rightarrow> Callback f u | None \<Rightarrow> Nothing)) \<and>
    ((\<nexists>p. nearest L attr c p) \<longrightarrow>
       r = (case k_index_handler (klass L c) of Some h \<Rightarrow> Handler h
            | None \<Rightarrow> (case k_index_miss (klass L c) of Some f \<Rightarrow> Callback f u | None \<Rightarrow> Nothing)))"
proof -
  define n where "n = class_fuel L"
  have b: "(case k of None \<Rightarrow> 0 | Some c \<Rightarrow> rank L c + 1) < n" for k
    using rank_bound [OF assms(1)] by (simp add: n_def)
  have cls: "luaA_class_get L (LUser u) = Some c" using assms(3) by (simp add: luaA_class_get_def)
  have "find (\<lambda>d. (if class_meta L d field \<noteq> LNil then Some (class_meta L d field) else None) \<noteq> None) (lineage n L (Some c)) = None"
    using lineage_descends [OF assms(1) b, of "Some c"] assms(7) by (simp add: find_None_iff)
  then have meta: "luaA_usemetatable n L (LUser u) field = Some None"
    by (simp only: luaA_usemetatable_def cls up_classes_lineage [OF assms(1) b] option.case)
  have self: "luaA_checkudata n L (LUser u) c = Some (Inr u)"
    using toudata_descends [OF assms(1), of u c, folded n_def] assms(3,4) self [of L c]
    by (simp add: luaA_checkudata_def)
  obtain r where r: "luaA_class_property_get n L (Some c) attr = Some r"
    "\<forall>p. r = Some p \<longleftrightarrow> nearest L attr c p"
    using property_get_nearest [OF assms(1,2) b, of "Some c" attr] by auto
  have index: "luaA_class_index n checkstring L (LUser u) field =
      (case r of
         Some p \<Rightarrow> Some (case p_index p of Some f \<Rightarrow> Callback f u | None \<Rightarrow> Nothing)
       | None \<Rightarrow> Some (case k_index_handler (klass L c) of Some h \<Rightarrow> Handler h
            | None \<Rightarrow> (case k_index_miss (klass L c) of Some f \<Rightarrow> Callback f u | None \<Rightarrow> Nothing)))"
    using assms(5,6) meta cls self r(1)
    by (simp add: luaA_class_index_def A_STREQ_NONULL NONULL_def checked_def split: option.split)
  show ?thesis
  proof (cases r)
    case None
    then show ?thesis using index r(2) unfolding n_def by auto
  next
    case (Some p)
    then have "nearest L attr c q \<longleftrightarrow> q = p" for q using r(2) by (metis option.inject)
    then show ?thesis using index Some unfolding n_def by auto
  qed
qed

text \<open>The window class of the example with a property the client class does not have.\<close>

definition classes_with_props :: lstate where
  "classes_with_props = luaA_class_add_properties 5
     [\<lparr>p_name = ''window'', p_new = None, p_index = Some 77, p_newindex = None\<rparr>] two_classes"

lemma with_props_arr:
  "wf_array (k_properties (klass classes_with_props c)) \<and> props.ordered (elems (k_properties (klass classes_with_props c))) \<and>
   class_props classes_with_props c =
     (if c = 5 then {\<lparr>p_name = ''window'', p_new = None, p_index = Some 77, p_newindex = None\<rparr>} else {})"
proof -
  have init: "k_properties (klass two_classes c) = array_init" for c
    by (simp add: two_classes_def luaA_class_setup_def lstate0_def upd_class_def Let_def no_class_def)
  have o: "props.ordered (elems array_init)" "wf_array (array_init :: lua_class_property array)"
    "elems (array_init :: lua_class_property array) = []"
    by (simp_all add: props.ordered_def)
  show ?thesis
    using props.barray_inserts_correct [OF o(2), of "[\<lparr>p_name = ''window'', p_new = None, p_index = Some 77, p_newindex = None\<rparr>]"]
      barray_inserts_elems(1) [OF o(2)] o
    by (simp add: classes_with_props_def luaA_class_add_properties_def upd_class_def class_props_def init)
qed

theorem index_nearest_property_witness:
  "luaA_class_index 4 (\<lambda>v. Some ''window'') classes_with_props (LUser 20) (LStr ''window'') = Some (Callback 77 20)"
proof -
  have ok: "classes_ok classes_with_props"
    using two_classes_ok by (simp add: classes_with_props_def luaA_class_add_properties_def upd_class_def classes_ok_def)
  have props: "props_ok classes_with_props" using with_props_arr by (simp add: props_ok_def)
  have sel: "k_parent (klass classes_with_props 6) = Some 5" "length (luaA_classes classes_with_props) = 2"
    "obj_meta classes_with_props 20 = META_CLASS 6" "obj_valid classes_with_props 20"
    "class_meta classes_with_props d (LStr ''window'') = LNil" for d
    by (simp_all add: classes_with_props_def luaA_class_add_properties_def upd_class_def two_classes_def
        luaA_class_setup_def lstate0_def no_class_def Let_def)
  have cp: "class_props classes_with_props 5 = {\<lparr>p_name = ''window'', p_new = None, p_index = Some 77, p_newindex = None\<rparr>}"
    "class_props classes_with_props 6 = {}" using with_props_arr by simp_all
  have "nearest classes_with_props ''window'' 6 \<lparr>p_name = ''window'', p_new = None, p_index = Some 77, p_newindex = None\<rparr>"
    by (rule nearest.above [OF _ sel(1)]; (rule nearest.here)?) (simp_all add: cp)
  then obtain q where q: "nearest classes_with_props ''window'' 6 q" "p_index q = Some 77" by (metis lua_class_property.select_convs(3))
  obtain r where "luaA_class_index 4 (\<lambda>v. Some ''window'') classes_with_props (LUser 20) (LStr ''window'') = Some r"
    "\<forall>p. nearest classes_with_props ''window'' 6 p \<longrightarrow> r = (case p_index p of Some f \<Rightarrow> Callback f 20 | None \<Rightarrow> Nothing)"
    using index_nearest_property [where checkstring = "\<lambda>v. Some ''window''" and attr = "''window''",
        OF ok props sel(3) _ refl _ sel(5)] sel(2,4) by auto
  with q show ?thesis by simp
qed

subsection \<open>The order of an emission\<close>

lemma object_emit_step:
  assumes "length args = nargs" and "length (f # fs) = nbfunc - i" and "i < nbfunc"
  shows "object_emit_one call (length base) nargs nbfunc i (base @ obj # mid @ args @ f # fs, w) =
    (base @ obj # mid @ args @ fs, snd (call f (obj # args) w))"
proof -
  have k: "nargs + nbfunc + 1 - i = nargs + length (f # fs @ [obj])" "nargs + nbfunc + 2 - i = Suc (nargs + length (f # fs @ [obj]))"
    using assms by auto
  let ?b = "base @ obj # mid"
  have 0: "(base @ obj # mid @ args @ f # fs) @ [(base @ obj # mid @ args @ f # fs) ! length base] = ?b @ args @ f # fs @ [obj]"
    by simp
  have 1: "(lua_pushvalue (nargs + length (f # fs @ [obj])) ^^ nargs) (?b @ args @ f # fs @ [obj]) = ?b @ args @ f # fs @ obj # args"
    using pushvalues [OF assms(1) order_refl, of "f # fs @ [obj]" ?b] assms(1) by simp
  have 2: "lua_pushvalue (nargs + length (f # fs @ [obj])) (?b @ args @ f # fs @ obj # args) = ?b @ args @ f # fs @ obj # args @ [f]"
    using lua_at_append [of "?b @ args" f "fs @ obj # args"] assms(1) by (simp add: lua_pushvalue_def add.commute)
  have 3: "lua_remove (Suc (nargs + length (f # fs @ [obj]))) (?b @ args @ f # fs @ obj # args @ [f]) = (?b @ args @ fs) @ (obj # args) @ [f]"
    using lua_remove_append [of "fs @ obj # args @ [f]" "?b @ args" f] assms(1) by (simp add: add.commute)
  have 4: "snd (luaA_dofunction call (nargs + 1) 0 ((?b @ args @ fs) @ (obj # args) @ [f], w)) = (?b @ args @ fs, snd (call f (obj # args) w))"
    by (rule dofunction_stack) (simp add: assms(1))
  show ?thesis
    unfolding object_emit_one_def prod.case Let_def k 0 1 2 3 4 by simp
qed

lemma object_emit_loop:
  assumes "length args = nargs" and "length fs = nbfunc - i" and "i \<le> nbfunc"
  shows "fold (object_emit_one call (length base) nargs nbfunc) [i..<nbfunc] (base @ obj # mid @ args @ fs, w) =
    (base @ obj # mid @ args, fold (\<lambda>f w. snd (call f (obj # args) w)) fs w)"
  using assms(2,3)
proof (induction fs arbitrary: i w)
  case (Cons f fs)
  then have i: "i < nbfunc" by auto
  then have "[i..<nbfunc] = i # [Suc i..<nbfunc]" by (rule upt_conv_Cons)
  moreover have "length fs = nbfunc - Suc i" using Cons.prems by simp
  ultimately show ?case
    using object_emit_step [OF assms(1) Cons.prems(1) i, of call base obj mid w] Cons.IH [of "Suc i"] i by simp
qed simp

text \<open>
  Emitting a signal on a valid object runs the functions connected to the object when the
  emission starts, in the order of connection, then those connected to its class after these
  have run, in theirs, each once and with the object before the arguments; then the arguments
  are gone from the stack and nothing else has changed there. On an object that is not valid
  or has no class it only drops the arguments.
\<close>

theorem object_emission_order:
  assumes "length args = nargs" and "wf_signals (obj_signals (lst w) u)"
    and "\<And>w. wf_signals (k_signals (klass (lst w) c))"
    and "\<And>w. obj_meta (lst w) u = META_CLASS c"
  shows "luaA_object_emit_signal call lst envs_of registry (nargs + length mid + 1) name nargs
      (base @ LUser u # mid @ args, w) =
    (base @ LUser u # mid,
     if k_checker (klass (lst w) c) \<and> \<not> obj_valid (lst w) u then w
     else
       (let w1 = fold (\<lambda>func w'. snd (call (luaA_object_push_item (envs_of w) u func) (LUser u # args) w'))
                   (handlers (obj_signals (lst w) u) (a_strhash name)) w
        in fold (\<lambda>func w'. snd (call (luaA_object_push (registry w1) func) (LUser u # args) w'))
             (handlers (k_signals (klass (lst w1) c)) (a_strhash name)) w1))"
proof -
  let ?st = "base @ LUser u # mid @ args"
  let ?arr = "obj_signals (lst w) u"
  define w1 where "w1 = fold (\<lambda>func w'. snd (call (luaA_object_push_item (envs_of w) u func) (LUser u # args) w'))
      (handlers ?arr (a_strhash name)) w"
  have at: "lua_at ?st (nargs + length mid + 1) = LUser u"
    using lua_at_append [of base "LUser u" "mid @ args"] assms(1) by (simp add: add.commute)
  have pos: "length ?st - (nargs + length mid + 1) = length base" using assms(1) by simp
  have cls: "luaA_class_get (lst v) (LUser u) = Some c" for v using assms(4) by (simp add: luaA_class_get_def)
  have pop: "lua_pop nargs ?st = base @ LUser u # mid"
    using lua_pop_append [of args "base @ LUser u # mid"] assms(1) by simp
  have loop: "(case signal_array_getbyname ?arr (Some name) of
        None \<Rightarrow> (?st, w)
      | Some k \<Rightarrow>
          (let funcs = sigfuncs (signal_at ?arr k);
               nbfunc = alen funcs;
               st = foldl (\<lambda>st func. lua_push (luaA_object_push_item (envs_of w) u func) st) ?st (elems funcs)
           in fold (object_emit_one call (length base) nargs nbfunc) [0..<nbfunc] (st, w))) = (?st, w1)"
  proof (cases "signal_array_getbyname ?arr (Some name)")
    case None
    then have "handlers ?arr (a_strhash name) = []"
      using lookup_none(1) [OF assms(2)] by (simp add: signal_array_getbyname_def NONULL_def)
    then show ?thesis using None by (simp add: w1_def)
  next
    case (Some k)
    then obtain s where s: "signal_at ?arr k = s" "handlers ?arr (a_strhash name) = elems (sigfuncs s)"
      "wf_array (sigfuncs s)"
      unfolding signal_array_getbyname_def NONULL_def option.case by (rule lookup_some [OF assms(2)]) blast
    have push: "foldl (\<lambda>st func. lua_push (g func) st) st xs = st @ map g xs" for g st and xs :: "nat list"
      by (induction xs arbitrary: st) (simp_all add: lua_push_def)
    let ?fs = "map (luaA_object_push_item (envs_of w) u) (elems (sigfuncs s))"
    have "length ?fs = alen (sigfuncs s) - 0" using elems_length [OF s(3)] by simp
    from object_emit_loop [OF assms(1) this, of call base "LUser u" mid w]
    have "fold (object_emit_one call (length base) nargs (alen (sigfuncs s))) [0..<alen (sigfuncs s)] (?st @ ?fs, w) =
        (?st, fold (\<lambda>f w. snd (call f (LUser u # args) w)) ?fs w)" by simp
    then show ?thesis using Some s by (simp add: Let_def push fold_map comp_def w1_def)
  qed
  have ins: "lua_insert (nargs + 1) (lua_pushvalue (nargs + length mid + 1) ?st) = (base @ LUser u # mid) @ (LUser u # args)"
    using lua_insert_append [of args "base @ LUser u # mid" "LUser u"] at assms(1) by (simp add: lua_pushvalue_def)
  have top: "lua_at ((base @ LUser u # mid) @ (LUser u # args)) (nargs + 1) = LUser u"
    using lua_at_append [of "base @ LUser u # mid" "LUser u" args] assms(1) by simp
  have emit: "luaA_class_emit_signal call lst registry c name (nargs + 1) ((base @ LUser u # mid) @ (LUser u # args), w1) =
      (base @ LUser u # mid, fold (\<lambda>func w'. snd (call (luaA_object_push (registry w1) func) (LUser u # args) w'))
             (handlers (k_signals (klass (lst w1) c)) (a_strhash name)) w1)"
    unfolding luaA_class_emit_signal_def prod.case
    using signal_object_emit_runs [OF assms(3), where args = "LUser u # args" and nargs = "nargs + 1" and name = "Some name"
        and base = "base @ LUser u # mid" and w = w1] assms(1) by (simp add: NONULL_def)
  show ?thesis
  proof (cases "k_checker (klass (lst w) c) \<and> \<not> obj_valid (lst w) u")
    case True
    then show ?thesis unfolding luaA_object_emit_signal_def prod.case Let_def at cls by (simp add: pop)
  next
    case False
    show ?thesis
      unfolding w1_def [symmetric] luaA_object_emit_signal_def prod.case Let_def at cls pos option.case lval.case
        if_not_P [OF False] loop [unfolded Let_def] ins top emit ..
  qed
qed

theorem object_emission_order_witness:
  "\<exists>arr. signal_connect array_init ''focus'' 3 = Some arr \<and>
     luaA_object_emit_signal (\<lambda>f as w. (Some [], w @ [as])) (\<lambda>_. two_classes\<lparr>obj_signals := \<lambda>_. arr\<rparr>)
       (\<lambda>_ _. luaA_object_setup) (\<lambda>_. luaA_object_setup) 2 ''focus'' 1 ([LUser 20, LBool True], []) =
     ([LUser 20], [[LUser 20, LBool True]])"
proof -
  obtain arr where arr: "signal_connect array_init ''focus'' 3 = Some arr" "wf_signals arr"
    "handlers arr = (\<lambda>_. [])(a_strhash ''focus'' := [3])"
    using signal_connect_ok [OF wf_signals_init(1), of "''focus''" 3] by (auto simp: wf_signals_init)
  let ?lst = "\<lambda>_. two_classes\<lparr>obj_signals := \<lambda>_. arr\<rparr>"
  have sigs: "k_signals (klass two_classes c) = array_init" for c
    by (simp add: two_classes_def luaA_class_setup_def lstate0_def upd_class_def Let_def no_class_def)
  have none: "k_signals no_class = array_init" by (simp add: no_class_def)
  have "obj_meta two_classes 20 = META_CLASS 6" by (simp add: two_classes_sel)
  then show ?thesis
    using object_emission_order [where args = "[LBool True]" and nargs = 1 and lst = ?lst and u = 20 and c = 6
        and mid = "[]" and base = "[]" and name = "''focus''" and w = "[]"
        and call = "\<lambda>f as w. (Some [], w @ [as])" and envs_of = "\<lambda>_ _. luaA_object_setup"
        and registry = "\<lambda>_. luaA_object_setup"] arr sigs wf_signals_init
    by (simp add: two_classes_sel numeral_2_eq_2 Let_def none)
qed

end
