(* ===== verification/Retained.thy ===== *)
theory Retained
  imports Prelude "HOL-Library.Multiset"
begin

unbundle bit_operations_syntax

text \<open>
  The retained scene of src/render.c: the nodes the renderer keeps from frame to frame, one per
  render command, the open addressing hash table that finds them by key, and the end of the
  reconcile pass, which sweeps the nodes whose commands vanished, rebuilds the table and
  restacks the scene in the order of the commands. What a node draws is not in the model, only
  which scene node it has. size_t is nat and SIZE_MAX is None; allocation is assumed to
  succeed. The lemmas show that the table finds exactly the nodes, that the sweep keeps exactly
  the nodes it should, and that after the pass the scene is stacked as the commands say.
\<close>

subsection \<open>State\<close>

text \<open>One retained record per command id and command type, the key.\<close>

record rnode =
  rn_key :: u64
  rn_node :: "nat option"
  rn_gen :: u64
  rn_borrowed :: bool
  rn_retained :: bool
  rn_handle :: u64

record rnode_slot =
  slot_key :: u64
  slot_index :: nat
  slot_used :: bool

text \<open>
  The render_state of one output. kids are the children of its scene tree, bottom first, lit
  tells which scene nodes are enabled. muts is the counter render_reconcile returns, destroyed
  the field swept.
\<close>

record render_state =
  nodes :: "rnode list"
  rmap :: "rnode_slot list"
  cur_gen :: u64
  paint_order :: "u64 list"
  dark_count :: nat
  node_recreated :: bool
  destroyed :: nat
  muts :: nat
  kids :: "nat list"
  lit :: "nat \<Rightarrow> bool"

subsection \<open>The hash table\<close>

definition rmap_hash :: "u64 \<Rightarrow> u64" where
  "rmap_hash key =
     (let key = key XOR drop_bit 33 key;
          key = key * 0xff51afd7ed558ccd;
          key = key XOR drop_bit 33 key;
          key = key * 0xc4ceb9fe1a85ec53;
          key = key XOR drop_bit 33 key
      in key)"

text \<open>The size of the table: doubled until it holds twice the nodes. It starts at 16.\<close>

function rmap_need :: "nat \<Rightarrow> nat \<Rightarrow> nat" where
  "rmap_need len need = (if 0 < need \<and> need < len * 2 then rmap_need len (need * 2) else need)"
  by pat_completeness auto
termination by (relation "measure (\<lambda>(len, need). len * 2 - need)") auto

declare rmap_need.simps [simp del]

text \<open>Both probe loops, with the rounds they may take; None is a loop still running.\<close>

fun rmap_free_slot :: "nat \<Rightarrow> rnode_slot list \<Rightarrow> nat \<Rightarrow> nat option" where
  "rmap_free_slot 0 tab s = None"
| "rmap_free_slot (Suc n) tab s =
     (if slot_used (tab ! s) then rmap_free_slot n tab ((s + 1) AND (length tab - 1)) else Some s)"

fun rmap_find :: "nat \<Rightarrow> rnode_slot list \<Rightarrow> u64 \<Rightarrow> nat \<Rightarrow> nat option option" where
  "rmap_find 0 tab k s = None"
| "rmap_find (Suc n) tab k s =
     (if \<not> slot_used (tab ! s) then Some None
      else if slot_key (tab ! s) = k then Some (Some (slot_index (tab ! s)))
      else rmap_find n tab k ((s + 1) AND (length tab - 1)))"

definition rmap_insert :: "nat \<Rightarrow> u64 \<Rightarrow> rnode_slot list \<Rightarrow> rnode_slot list option" where
  "rmap_insert i k tab =
     (case rmap_free_slot (length tab) tab (unat (rmap_hash k) AND (length tab - 1)) of
        None \<Rightarrow> None
      | Some s \<Rightarrow> Some (tab[s := \<lparr>slot_key = k, slot_index = i, slot_used = True\<rparr>]))"

fun rmap_fill :: "nat \<Rightarrow> rnode list \<Rightarrow> rnode_slot list \<Rightarrow> rnode_slot list option" where
  "rmap_fill i [] tab = Some tab"
| "rmap_fill i (n # ns) tab =
     (case rmap_insert i (rn_key n) tab of
        None \<Rightarrow> None
      | Some tab \<Rightarrow> rmap_fill (i + 1) ns tab)"

definition empty_slot :: rnode_slot where
  "empty_slot = \<lparr>slot_key = 0, slot_index = 0, slot_used = False\<rparr>"

definition rmap_rebuild :: "render_state \<Rightarrow> render_state option" where
  "rmap_rebuild rs =
     (let need = rmap_need (length (nodes rs)) 16;
          map_cap = (if length (rmap rs) < need then need else length (rmap rs))
      in map_option (\<lambda>tab. rs\<lparr>rmap := tab\<rparr>)
           (rmap_fill 0 (nodes rs) (replicate map_cap empty_slot)))"

text \<open>The outer None is a probe that never ends, the inner one SIZE_MAX.\<close>

definition rmap_get :: "render_state \<Rightarrow> u64 \<Rightarrow> nat option option" where
  "rmap_get rs k =
     (if rmap rs = [] then Some None
      else rmap_find (length (rmap rs)) (rmap rs) k
             (unat (rmap_hash k) AND (length (rmap rs) - 1)))"

text \<open>A new node: everything zero but the key.\<close>

definition rnode_add :: "u64 \<Rightarrow> render_state \<Rightarrow> render_state" where
  "rnode_add k rs = rs\<lparr>nodes := nodes rs @
     [\<lparr>rn_key = k, rn_node = None, rn_gen = 0, rn_borrowed = False, rn_retained = False,
       rn_handle = 0\<rparr>]\<rparr>"

subsection \<open>The end of the reconcile pass\<close>

text \<open>
  The hooks of the owner: declared, which may be null, tells whether an element is still in the
  tree, release whether a borrowed scene tree was still owned by this output.
\<close>

record client_hooks =
  hk_declared :: "(u32 \<Rightarrow> bool) option"
  hk_release :: "u64 \<Rightarrow> bool"

text \<open>A node leaves the scene tree by being destroyed or by moving under the parked tree.\<close>

definition scene_leave :: "nat \<Rightarrow> render_state \<Rightarrow> render_state" where
  "scene_leave x rs = rs\<lparr>kids := remove1 x (kids rs)\<rparr>"

definition set_lit :: "nat \<Rightarrow> bool \<Rightarrow> render_state \<Rightarrow> render_state" where
  "set_lit x b rs = rs\<lparr>lit := (lit rs)(x := b)\<rparr>"

definition render_release :: "client_hooks \<Rightarrow> rnode \<Rightarrow> render_state \<Rightarrow> render_state" where
  "render_release h n rs =
     (case rn_node n of
        None \<Rightarrow> rs
      | Some x \<Rightarrow> if hk_release h (rn_handle n) then set_lit x False (scene_leave x rs) else rs)"

definition rnode_remove :: "client_hooks \<Rightarrow> nat \<Rightarrow> render_state \<Rightarrow> render_state" where
  "rnode_remove h i rs =
     (let n = nodes rs ! i;
          rs = (if rn_borrowed n then render_release h n rs
                else (case rn_node n of
                        None \<Rightarrow> rs
                      | Some x \<Rightarrow> scene_leave x (rs\<lparr>destroyed := destroyed rs + 1\<rparr>)))
      in rs\<lparr>nodes := butlast ((nodes rs)[i := last (nodes rs)])\<rparr>)"

text \<open>The first test of the sweep: a node kept dark while its element is in the tree.\<close>

definition keeps_dark :: "client_hooks \<Rightarrow> rnode \<Rightarrow> bool" where
  "keeps_dark h n \<longleftrightarrow> \<not> rn_borrowed n \<and> rn_node n \<noteq> None \<and>
     (case hk_declared h of None \<Rightarrow> False | Some f \<Rightarrow> f (ucast (rn_key n)))"

definition darken :: "nat \<Rightarrow> render_state \<Rightarrow> render_state" where
  "darken i rs =
     (let n = nodes rs ! i; x = the (rn_node n);
          rs = (if \<not> rn_retained n \<and> lit rs x then set_lit x False (rs\<lparr>muts := muts rs + 1\<rparr>) else rs)
      in rs\<lparr>nodes := (nodes rs)[i := n\<lparr>rn_gen := cur_gen rs, rn_retained := True\<rparr>]\<rparr>)"

definition sweep_one :: "client_hooks \<Rightarrow> nat \<Rightarrow> render_state \<Rightarrow> render_state" where
  "sweep_one h i rs =
     (if rn_gen (nodes rs ! i) \<noteq> cur_gen rs \<and> keeps_dark h (nodes rs ! i) then darken i rs else rs)"

lemma sweep_one_sel [simp]:
  "length (nodes (sweep_one h i rs)) = length (nodes rs)"
  "cur_gen (sweep_one h i rs) = cur_gen rs" "kids (sweep_one h i rs) = kids rs"
  "rmap (sweep_one h i rs) = rmap rs" "paint_order (sweep_one h i rs) = paint_order rs"
  "node_recreated (sweep_one h i rs) = node_recreated rs"
  "dark_count (sweep_one h i rs) = dark_count rs"
  by (simp_all add: sweep_one_def darken_def set_lit_def Let_def)

lemma rnode_remove_sel [simp]:
  "nodes (rnode_remove h i rs) = butlast ((nodes rs)[i := last (nodes rs)])"
  "cur_gen (rnode_remove h i rs) = cur_gen rs" "rmap (rnode_remove h i rs) = rmap rs"
  "paint_order (rnode_remove h i rs) = paint_order rs"
  "node_recreated (rnode_remove h i rs) = node_recreated rs"
  "dark_count (rnode_remove h i rs) = dark_count rs"
  by (simp_all add: rnode_remove_def render_release_def scene_leave_def set_lit_def Let_def
      split: option.split)

text \<open>The loop of the sweep, from index i on; the flag tells whether a node was removed.\<close>

function sweep :: "client_hooks \<Rightarrow> nat \<Rightarrow> bool \<Rightarrow> render_state \<Rightarrow> bool \<times> render_state" where
  "sweep h i swept rs =
     (if i < length (nodes rs) then
        (let rs1 = sweep_one h i rs in
         if rn_gen (nodes rs1 ! i) \<noteq> cur_gen rs1
         then sweep h i True ((rnode_remove h i rs1)\<lparr>muts := muts rs1 + 1\<rparr>)
         else sweep h (i + 1) swept
                (rs1\<lparr>dark_count := dark_count rs1 + (if rn_retained (nodes rs1 ! i) then 1 else 0)\<rparr>))
      else (swept, rs))"
  by pat_completeness auto

termination
  by (relation "measure (\<lambda>(h, i, swept, rs). length (nodes rs) - i)") auto

declare sweep.simps [simp del]

text \<open>What wlroots does to the children of a tree.\<close>

record scene_ops =
  place_above :: "nat \<Rightarrow> nat \<Rightarrow> nat list \<Rightarrow> nat list"
  lower_to_bottom :: "nat \<Rightarrow> nat list \<Rightarrow> nat list"

definition scene_node_retained :: "render_state \<Rightarrow> nat \<Rightarrow> bool" where
  "scene_node_retained rs x \<longleftrightarrow>
     (if dark_count rs = 0 \<or> lit rs x then False
      else list_ex (\<lambda>n. rn_retained n \<and> rn_node n = Some x) (nodes rs))"

text \<open>The sibling under a node, past the dark ones; None is the head of the list.\<close>

definition placed_below :: "render_state \<Rightarrow> nat \<Rightarrow> nat option" where
  "placed_below rs x =
     (case dropWhile (scene_node_retained rs) (rev (takeWhile (\<lambda>y. y \<noteq> x) (kids rs))) of
        [] \<Rightarrow> None
      | y # ys \<Rightarrow> Some y)"

text \<open>
  The restacking loop; below is the node placed last. None is the failed assertion that every
  key of the order has a node, or a lookup that never ends.
\<close>

fun restack :: "scene_ops \<Rightarrow> u64 list \<Rightarrow> nat option \<Rightarrow> render_state \<Rightarrow> render_state option" where
  "restack W [] below rs = Some rs"
| "restack W (k # ks) below rs =
     (case rmap_get rs k of
        None \<Rightarrow> None
      | Some None \<Rightarrow> None
      | Some (Some idx) \<Rightarrow>
          (case rn_node (nodes rs ! idx) of
             None \<Rightarrow> restack W ks below rs
           | Some x \<Rightarrow>
               restack W ks (Some x)
                 (if placed_below rs x \<noteq> below
                  then rs\<lparr>kids := (case below of
                                     Some b \<Rightarrow> place_above W x b (kids rs)
                                   | None \<Rightarrow> lower_to_bottom W x (kids rs)),
                          muts := muts rs + 1\<rparr>
                  else rs)))"

text \<open>
  The pass from the sweep to the restack; pre_len is the number of nodes before the walk over
  the commands, build the keys of the commands in painting order.
\<close>

definition reconcile_end ::
  "client_hooks \<Rightarrow> scene_ops \<Rightarrow> nat \<Rightarrow> u64 list \<Rightarrow> render_state \<Rightarrow> render_state option" where
  "reconcile_end h W pre_len build rs =
     (let (swept, rs) = sweep h 0 False (rs\<lparr>dark_count := 0\<rparr>) in
      case (if swept \<or> length (nodes rs) \<noteq> pre_len then rmap_rebuild rs else Some rs) of
        None \<Rightarrow> None
      | Some rs \<Rightarrow>
          (let order_changed = (node_recreated rs \<or> build \<noteq> paint_order rs);
               rs = rs\<lparr>paint_order := build\<rparr>
           in if order_changed then restack W build None rs else Some rs))"

text \<open>
  verify_order, the check of the verifying build: it walks the children and the order side by
  side. None is the abort.
\<close>

fun next_expected :: "render_state \<Rightarrow> u64 list \<Rightarrow> (nat option \<times> u64 list) option" where
  "next_expected rs [] = Some (None, [])"
| "next_expected rs (k # ks) =
     (case rmap_get rs k of
        None \<Rightarrow> None
      | Some None \<Rightarrow> next_expected rs ks
      | Some (Some idx) \<Rightarrow>
          (case rn_node (nodes rs ! idx) of
             None \<Rightarrow> next_expected rs ks
           | Some x \<Rightarrow> Some (Some x, ks)))"

fun verify_kids :: "render_state \<Rightarrow> nat list \<Rightarrow> u64 list \<Rightarrow> unit option" where
  "verify_kids rs [] ks =
     (case next_expected rs ks of
        Some (None, _) \<Rightarrow> Some ()
      | _ \<Rightarrow> None)"
| "verify_kids rs (x # xs) ks =
     (if scene_node_retained rs x then verify_kids rs xs ks
      else (case next_expected rs ks of
              Some (Some e, ks) \<Rightarrow> if e = x then verify_kids rs xs ks else None
            | _ \<Rightarrow> None))"

definition verify_order :: "render_state \<Rightarrow> unit option" where
  "verify_order rs = verify_kids rs (kids rs) (paint_order rs)"

subsection \<open>What the table finds\<close>

text \<open>The specification: the first node with the key.\<close>

fun first_index :: "u64 \<Rightarrow> u64 list \<Rightarrow> nat option" where
  "first_index k [] = None"
| "first_index k (x # xs) = (if x = k then Some 0 else map_option Suc (first_index k xs))"

lemma first_index_None: "first_index k ks = None \<longleftrightarrow> k \<notin> set ks"
  by (induction ks) auto

lemma first_index_Some:
  "first_index k ks = Some i \<longleftrightarrow> i < length ks \<and> ks ! i = k \<and> (\<forall>j<i. ks ! j \<noteq> k)"
proof (induction ks arbitrary: i)
  case (Cons x xs)
  show ?case
  proof (cases i)
    case 0
    then show ?thesis by auto
  next
    case (Suc j)
    then show ?thesis using Cons.IH [of j] by (auto simp: less_Suc_eq_0_disj)
  qed
qed simp

text \<open>The slot d steps after the home of a key, in a table of c slots.\<close>

definition probe_slot :: "u64 \<Rightarrow> nat \<Rightarrow> nat \<Rightarrow> nat" where
  "probe_slot k c d = (unat (rmap_hash k) + d) mod c"

definition pow2 :: "nat \<Rightarrow> bool" where
  "pow2 c \<longleftrightarrow> (\<exists>p. c = 2 ^ p)"

lemma pow2_and: "pow2 c \<Longrightarrow> x AND (c - Suc 0) = x mod c" for x :: nat
  by (auto simp: pow2_def take_bit_eq_mask mask_eq_exp_minus_1 simp flip: take_bit_eq_mod)

lemma pow2_pos: "pow2 c \<Longrightarrow> 0 < c"
  by (auto simp: pow2_def)

lemma probe_slot_less: "0 < c \<Longrightarrow> probe_slot k c d < c"
  by (simp add: probe_slot_def)

lemma probe_slot_0: "pow2 c \<Longrightarrow> unat (rmap_hash k) AND (c - Suc 0) = probe_slot k c 0"
  by (simp add: probe_slot_def pow2_and)

lemma probe_slot_Suc: "pow2 c \<Longrightarrow> Suc (probe_slot k c d) AND (c - Suc 0) = probe_slot k c (Suc d)"
  by (simp add: probe_slot_def pow2_and mod_Suc_eq)

lemma probe_slot_reaches:
  assumes "s < c" shows "\<exists>d<c. probe_slot k c d = s"
proof -
  let ?h = "unat (rmap_hash k) mod c"
  let ?d = "if ?h \<le> s then s - ?h else c + s - ?h"
  have h: "?h < c" using assms by simp
  have "(?h + ?d) mod c = s"
  proof (cases "?h \<le> s")
    case False
    then have "?h + ?d = c + s" using h by auto
    then show ?thesis using assms by simp
  qed (use assms in simp)
  then have "probe_slot k c ?d = s" by (simp add: probe_slot_def mod_add_left_eq)
  moreover have "?d < c" using assms h by auto
  ultimately show ?thesis by blast
qed

lemma rmap_need_pow2: "pow2 need \<Longrightarrow> pow2 (rmap_need len need)"
proof (induction len need rule: rmap_need.induct)
  case (1 len need)
  have "pow2 (need * 2)" using 1(2) by (auto simp: pow2_def intro: exI [of _ "Suc _"])
  then show ?case using 1 by (subst rmap_need.simps) auto
qed

lemma rmap_need_enough: "0 < need \<Longrightarrow> len * 2 \<le> rmap_need len need \<and> need \<le> rmap_need len need"
proof (induction len need rule: rmap_need.induct)
  case (1 len need)
  then show ?case by (subst (1 2) rmap_need.simps) auto
qed

text \<open>
  What a table holds after the nodes with the keys ks went in: as many used slots as nodes, and
  on the way from the home of a key to its slot only used slots, none of them with the same key
  and a later index.
\<close>

definition chained :: "rnode_slot list \<Rightarrow> u64 \<Rightarrow> nat \<Rightarrow> nat \<Rightarrow> bool" where
  "chained tab k i d \<longleftrightarrow> d < length tab \<and>
     slot_used (tab ! probe_slot k (length tab) d) \<and>
     slot_key (tab ! probe_slot k (length tab) d) = k \<and>
     slot_index (tab ! probe_slot k (length tab) d) = i \<and>
     (\<forall>e<d. slot_used (tab ! probe_slot k (length tab) e) \<and>
        (slot_key (tab ! probe_slot k (length tab) e) = k \<longrightarrow>
         slot_index (tab ! probe_slot k (length tab) e) < i))"

definition table_of :: "rnode_slot list \<Rightarrow> u64 list \<Rightarrow> bool" where
  "table_of tab ks \<longleftrightarrow> pow2 (length tab) \<and>
     card {s. s < length tab \<and> slot_used (tab ! s)} = length ks \<and>
     (\<forall>i<length ks. \<exists>d. chained tab (ks ! i) i d) \<and>
     (\<forall>s<length tab. slot_used (tab ! s) \<longrightarrow>
        slot_index (tab ! s) < length ks \<and> ks ! slot_index (tab ! s) = slot_key (tab ! s))"

lemma table_of_pow2: "table_of tab ks \<Longrightarrow> pow2 (length tab)"
  and table_of_card: "table_of tab ks \<Longrightarrow> card {s. s < length tab \<and> slot_used (tab ! s)} = length ks"
  and table_of_chain: "table_of tab ks \<Longrightarrow> i < length ks \<Longrightarrow> \<exists>d. chained tab (ks ! i) i d"
  and table_of_index: "table_of tab ks \<Longrightarrow> s < length tab \<Longrightarrow> slot_used (tab ! s) \<Longrightarrow>
        slot_index (tab ! s) < length ks \<and> ks ! slot_index (tab ! s) = slot_key (tab ! s)"
  by (simp_all add: table_of_def)

text \<open>The first free slot on the way from a home, when there are fewer nodes than slots.\<close>

lemma table_first_free:
  assumes "table_of tab ks" and "length ks < length tab"
  obtains d where "d < length tab" and "\<not> slot_used (tab ! probe_slot k (length tab) d)"
    and "\<And>e. e < d \<Longrightarrow> slot_used (tab ! probe_slot k (length tab) e)"
proof -
  have "\<exists>s<length tab. \<not> slot_used (tab ! s)"
  proof (rule ccontr)
    assume "\<not> ?thesis"
    then have "{s. s < length tab \<and> slot_used (tab ! s)} = {..<length tab}" by auto
    then show False using table_of_card [OF assms(1)] assms(2) by simp
  qed
  then obtain d0 where d0: "d0 < length tab" "\<not> slot_used (tab ! probe_slot k (length tab) d0)"
    using probe_slot_reaches by metis
  let ?P = "\<lambda>d. \<not> slot_used (tab ! probe_slot k (length tab) d)"
  have "?P (LEAST d. ?P d)" using d0(2) by (rule LeastI)
  moreover have "(LEAST d. ?P d) \<le> d0" using d0(2) by (rule Least_le)
  ultimately have l: "(LEAST d. ?P d) < length tab" "?P (LEAST d. ?P d)" using d0(1) by auto
  have "slot_used (tab ! probe_slot k (length tab) e)" if "e < (LEAST d. ?P d)" for e
    using not_less_Least [OF that] by simp
  with l show ?thesis by (rule that)
qed

lemma rmap_find_walk:
  assumes "pow2 (length tab)" and "d \<le> D" and "D - d < n"
    and "\<And>e. d \<le> e \<Longrightarrow> e < D \<Longrightarrow> slot_used (tab ! probe_slot k (length tab) e) \<and>
           slot_key (tab ! probe_slot k (length tab) e) \<noteq> k"
  shows "rmap_find n tab k (probe_slot k (length tab) d) =
           rmap_find (n - (D - d)) tab k (probe_slot k (length tab) D)"
  using assms(2-)
proof (induction n arbitrary: d)
  case (Suc n)
  show ?case
  proof (cases "d = D")
    case False
    then have "d < D" using Suc.prems(1) by simp
    moreover have "n - (D - Suc d) = Suc n - (D - d)" using \<open>d < D\<close> by simp
    moreover have "rmap_find n tab k (probe_slot k (length tab) (Suc d)) =
        rmap_find (n - (D - Suc d)) tab k (probe_slot k (length tab) D)"
      using Suc.prems \<open>d < D\<close> by (intro Suc.IH) auto
    ultimately show ?thesis using Suc.prems(3) [of d] by (simp add: probe_slot_Suc assms(1))
  qed simp
qed simp

lemma rmap_free_slot_walk:
  assumes "pow2 (length tab)" and "d \<le> D" and "D - d < n"
    and "\<And>e. d \<le> e \<Longrightarrow> e < D \<Longrightarrow> slot_used (tab ! probe_slot k (length tab) e)"
    and "\<not> slot_used (tab ! probe_slot k (length tab) D)"
  shows "rmap_free_slot n tab (probe_slot k (length tab) d) = Some (probe_slot k (length tab) D)"
  using assms(2-4)
proof (induction n arbitrary: d)
  case (Suc n)
  show ?case
  proof (cases "d = D")
    case False
    then have "d < D" using Suc.prems(1) by simp
    then show ?thesis using Suc.prems Suc.IH [of "Suc d"]
      by (auto simp: probe_slot_Suc assms(1))
  qed (use assms(5) in simp)
qed simp

text \<open>Inserting the next node keeps the table right.\<close>

lemma chained_update:
  assumes "chained tab k i d" and "\<not> slot_used (tab ! s)" and "s < length tab"
  shows "chained (tab[s := x]) k i d"
proof -
  have eq: "tab[s := x] ! probe_slot k (length tab) e = tab ! probe_slot k (length tab) e"
    if "e \<le> d" for e
    using assms(1,2) that by (cases "e = d"; cases "s = probe_slot k (length tab) e")
      (auto simp: chained_def)
  show ?thesis using assms(1) by (simp add: chained_def eq)
qed

lemma rmap_insert_table:
  assumes "table_of tab ks" and "length ks < length tab"
  shows "\<exists>tab'. rmap_insert (length ks) k tab = Some tab' \<and> table_of tab' (ks @ [k]) \<and>
           length tab' = length tab"
proof -
  let ?c = "length tab"
  note p = table_of_pow2 [OF assms(1)]
  obtain d where d: "d < ?c" "\<not> slot_used (tab ! probe_slot k ?c d)"
      "\<And>e. e < d \<Longrightarrow> slot_used (tab ! probe_slot k ?c e)"
    using table_first_free [OF assms] by metis
  define s where "s = probe_slot k ?c d"
  define x where "x = \<lparr>slot_key = k, slot_index = length ks, slot_used = True\<rparr>"
  have s: "s < ?c" "\<not> slot_used (tab ! s)"
    using d(2) pow2_pos [OF p] by (simp_all add: s_def probe_slot_less)
  have "rmap_free_slot ?c tab (probe_slot k ?c 0) = Some s"
    using d unfolding s_def by (intro rmap_free_slot_walk p) auto
  then have ins: "rmap_insert (length ks) k tab = Some (tab[s := x])"
    by (simp add: rmap_insert_def probe_slot_0 p x_def)
  have "{r. r < ?c \<and> slot_used (tab[s := x] ! r)} = insert s {r. r < ?c \<and> slot_used (tab ! r)}"
    using s by (auto simp: nth_list_update x_def split: if_splits)
  then have card: "card {r. r < ?c \<and> slot_used (tab[s := x] ! r)} = Suc (length ks)"
    using s table_of_card [OF assms(1)] by simp
  have new: "chained (tab[s := x]) k (length ks) d"
  proof -
    have eq: "tab[s := x] ! probe_slot k ?c e = tab ! probe_slot k ?c e" if "e < d" for e
      using d(3) [OF that] s(2) by (cases "s = probe_slot k ?c e") auto
    have "slot_index (tab ! probe_slot k ?c e) < length ks" if "e < d" for e
      using table_of_index [OF assms(1) probe_slot_less [OF pow2_pos [OF p]] d(3) [OF that]] by simp
    then show ?thesis using d(1,3) s by (simp add: chained_def eq [unfolded x_def] x_def flip: s_def)
  qed
  have chain: "\<exists>d. chained (tab[s := x]) ((ks @ [k]) ! i) i d" if "i < Suc (length ks)" for i
  proof (cases "i = length ks")
    case False
    then have "i < length ks" using that by simp
    then show ?thesis using table_of_chain [OF assms(1)] chained_update s
      by (metis nth_append)
  qed (use new in auto)
  have idx: "slot_index (tab[s := x] ! r) < Suc (length ks) \<and>
      (ks @ [k]) ! slot_index (tab[s := x] ! r) = slot_key (tab[s := x] ! r)"
    if "r < ?c" "slot_used (tab[s := x] ! r)" for r
    using that s table_of_index [OF assms(1), of r]
    by (auto simp: nth_list_update x_def nth_append split: if_splits)
  show ?thesis using ins card chain idx p by (auto simp: table_of_def)
qed

lemma rmap_fill_table:
  assumes "table_of tab ks" and "length ks + length ns < length tab"
  shows "\<exists>tab'. rmap_fill (length ks) ns tab = Some tab' \<and>
           table_of tab' (ks @ map rn_key ns) \<and> length tab' = length tab"
  using assms
proof (induction ns arbitrary: ks tab)
  case (Cons n ns)
  obtain tab1 where t1: "rmap_insert (length ks) (rn_key n) tab = Some tab1"
      "table_of tab1 (ks @ [rn_key n])" "length tab1 = length tab"
    using rmap_insert_table [OF Cons.prems(1), of "rn_key n"] Cons.prems(2) by auto
  then show ?case using Cons.IH [OF t1(2)] Cons.prems(2) by auto
qed simp

lemma table_of_empty: "pow2 c \<Longrightarrow> table_of (replicate c empty_slot) []"
  by (auto simp: table_of_def empty_slot_def)

text \<open>Looking a key up finds its first node.\<close>

lemma rmap_find_table:
  assumes "table_of tab ks" and "length ks < length tab"
  shows "rmap_find (length tab) tab k (probe_slot k (length tab) 0) = Some (first_index k ks)"
proof -
  let ?c = "length tab"
  note p = table_of_pow2 [OF assms(1)]
  show ?thesis
  proof (cases "first_index k ks")
    case None
    obtain d where d: "d < ?c" "\<not> slot_used (tab ! probe_slot k ?c d)"
        "\<And>e. e < d \<Longrightarrow> slot_used (tab ! probe_slot k ?c e)"
      using table_first_free [OF assms] by metis
    have "slot_key (tab ! probe_slot k ?c e) \<noteq> k" if "e < d" for e
      using table_of_index [OF assms(1) probe_slot_less [OF pow2_pos [OF p]] d(3) [OF that]] None
      by (metis first_index_None nth_mem)
    then have "rmap_find ?c tab k (probe_slot k ?c 0) =
        rmap_find (?c - (d - 0)) tab k (probe_slot k ?c d)"
      using d by (intro rmap_find_walk p) auto
    then show ?thesis using d(1,2) None by (cases "?c - d") auto
  next
    case (Some i)
    then have i: "i < length ks" "ks ! i = k" "\<And>j. j < i \<Longrightarrow> ks ! j \<noteq> k"
      by (auto simp: first_index_Some)
    then obtain d where d: "chained tab k i d" using table_of_chain [OF assms(1)] by metis
    then have "slot_key (tab ! probe_slot k ?c e) \<noteq> k" if "e < d" for e
      using table_of_index [OF assms(1) probe_slot_less [OF pow2_pos [OF p]], of k e] i(3) that
      by (auto simp: chained_def)
    then have "rmap_find ?c tab k (probe_slot k ?c 0) =
        rmap_find (?c - (d - 0)) tab k (probe_slot k ?c d)"
      using d by (intro rmap_find_walk p) (auto simp: chained_def)
    then show ?thesis using d Some by (cases "?c - d") (auto simp: chained_def)
  qed
qed

definition rmap_ok :: "render_state \<Rightarrow> bool" where
  "rmap_ok rs \<longleftrightarrow> rmap rs = [] \<or> pow2 (length (rmap rs))"

lemma rmap_rebuild_table:
  assumes "rmap_ok rs"
  shows "\<exists>tab. rmap_rebuild rs = Some (rs\<lparr>rmap := tab\<rparr>) \<and>
           table_of tab (map rn_key (nodes rs)) \<and> length (nodes rs) < length tab \<and>
           2 * length (nodes rs) \<le> length tab"
proof -
  define c where "c = (if length (rmap rs) < rmap_need (length (nodes rs)) 16
      then rmap_need (length (nodes rs)) 16 else length (rmap rs))"
  have "pow2 16" by (auto simp: pow2_def intro: exI [of _ 4])
  then have p: "pow2 c" using assms rmap_need_pow2 [of 16] rmap_need_enough [of 16 "length (nodes rs)"]
    by (auto simp: c_def rmap_ok_def)
  have l: "length (nodes rs) < c" "2 * length (nodes rs) \<le> c"
    using rmap_need_enough [of 16 "length (nodes rs)"] by (auto simp: c_def)
  obtain tab where "rmap_fill 0 (nodes rs) (replicate c empty_slot) = Some tab"
      "table_of tab (map rn_key (nodes rs))" "length tab = c"
    using rmap_fill_table [OF table_of_empty [OF p], of "nodes rs"] l by auto
  then show ?thesis using l by (auto simp: rmap_rebuild_def Let_def simp flip: c_def)
qed

lemma rmap_get_table:
  assumes "table_of (rmap rs) ks" and "length ks < length (rmap rs)"
  shows "rmap_get rs k = Some (first_index k ks)"
  using rmap_find_table [OF assms, of k] table_of_pow2 [OF assms(1)]
  by (auto simp: rmap_get_def probe_slot_0 dest: pow2_pos)

subsection \<open>What the sweep keeps\<close>

definition kept :: "client_hooks \<Rightarrow> u64 \<Rightarrow> rnode \<Rightarrow> bool" where
  "kept h g n \<longleftrightarrow> rn_gen n = g \<or> keeps_dark h n"

definition mark_kept :: "u64 \<Rightarrow> rnode \<Rightarrow> rnode" where
  "mark_kept g n = (if rn_gen n = g then n else n\<lparr>rn_gen := g, rn_retained := True\<rparr>)"

text \<open>The scene nodes that leave the tree with their node, and those the sweep turns dark.\<close>

definition leaves :: "client_hooks \<Rightarrow> u64 \<Rightarrow> nat \<Rightarrow> rnode \<Rightarrow> bool" where
  "leaves h g x n \<longleftrightarrow> \<not> kept h g n \<and> rn_node n = Some x \<and>
     (rn_borrowed n \<longrightarrow> hk_release h (rn_handle n))"

definition turns_dark :: "client_hooks \<Rightarrow> u64 \<Rightarrow> nat \<Rightarrow> rnode \<Rightarrow> bool" where
  "turns_dark h g x n \<longleftrightarrow> rn_node n = Some x \<and> rn_gen n \<noteq> g \<and>
     (if keeps_dark h n then \<not> rn_retained n else rn_borrowed n \<and> hk_release h (rn_handle n))"

lemma swap_remove_drop:
  assumes "i < length ns"
  shows "take i (butlast (ns[i := last ns])) = take i ns"
    and "mset (drop i (butlast (ns[i := last ns]))) = mset (drop (Suc i) ns)"
proof -
  obtain as x ys where ns: "ns = as @ x # ys" "length as = i"
    using assms by (metis id_take_nth_drop length_take min.absorb4)
  show "take i (butlast (ns[i := last ns])) = take i ns"
    using ns by (cases "ys = []") (auto simp: butlast_append list_update_append)
  show "mset (drop i (butlast (ns[i := last ns]))) = mset (drop (Suc i) ns)"
  proof (cases "ys = []")
    case False
    then have "mset (last ys # butlast ys) = mset ys"
      by (metis append_butlast_last_id mset.simps(2) mset_append union_commute add_mset_add_single mset_single_iff)
    then show ?thesis using ns False by (auto simp: butlast_append list_update_append)
  qed (use ns in \<open>simp add: butlast_append list_update_append\<close>)
qed

lemma sweep_one_nodes:
  assumes "i < length (nodes rs)"
  shows "nodes (sweep_one h i rs) =
           (nodes rs)[i := if kept h (cur_gen rs) (nodes rs ! i)
                           then mark_kept (cur_gen rs) (nodes rs ! i) else nodes rs ! i]"
  using assms
  by (auto simp: sweep_one_def darken_def kept_def mark_kept_def set_lit_def Let_def)

lemma sweep_nodes:
  assumes "sweep h i b rs = (b', rs')" and "i \<le> length (nodes rs)"
  shows "take i (nodes rs') = take i (nodes rs) \<and>
    mset (drop i (nodes rs')) = image_mset (mark_kept (cur_gen rs))
       (filter_mset (kept h (cur_gen rs)) (mset (drop i (nodes rs)))) \<and>
    dark_count rs' = dark_count rs + length (filter rn_retained (drop i (nodes rs'))) \<and>
    (b' \<longleftrightarrow> b \<or> (\<exists>n\<in>set (drop i (nodes rs)). \<not> kept h (cur_gen rs) n)) \<and>
    cur_gen rs' = cur_gen rs \<and> rmap rs' = rmap rs \<and> paint_order rs' = paint_order rs \<and>
    node_recreated rs' = node_recreated rs"
  using assms
proof (induction h i b rs rule: sweep.induct)
  case (1 h i swept rs)
  show ?case
  proof (cases "i < length (nodes rs)")
    case False
    then have "(b', rs') = (swept, rs)" using 1(3) by (subst (asm) sweep.simps) simp
    then show ?thesis using False 1(4) by simp
  next
    case True
    define n where "n = nodes rs ! i"
    define rs1 where "rs1 = sweep_one h i rs"
    have d: "drop i (nodes rs) = n # drop (Suc i) (nodes rs)"
      using True by (simp add: n_def Cons_nth_drop_Suc)
    have n1: "nodes rs1 = (nodes rs)[i := if kept h (cur_gen rs) n then mark_kept (cur_gen rs) n else n]"
      using sweep_one_nodes [OF True] by (simp add: rs1_def n_def)
    have l1: "length (nodes rs1) = length (nodes rs)" by (simp add: rs1_def)
    show ?thesis
    proof (cases "kept h (cur_gen rs) n")
      case True
      define rs2 where "rs2 = rs1\<lparr>dark_count := dark_count rs1 + (if rn_retained (nodes rs1 ! i) then 1 else 0)\<rparr>"
      have g: "rn_gen (nodes rs1 ! i) = cur_gen rs1"
        using True n1 \<open>i < length (nodes rs)\<close> by (simp add: rs1_def mark_kept_def)
      have sw: "sweep h (i + 1) swept rs2 = (b', rs')"
        using 1(3) g \<open>i < length (nodes rs)\<close> by (simp add: sweep.simps [of h i] Let_def rs1_def rs2_def split: if_splits)
      have "\<not> rn_gen (nodes rs1 ! i) \<noteq> cur_gen rs1" using g by simp
      note IH = 1(2) [OF \<open>i < length (nodes rs)\<close> rs1_def this, folded rs2_def, OF sw]
      have t: "take (Suc i) (nodes rs') = take i (nodes rs) @ [mark_kept (cur_gen rs) n]"
        using IH \<open>i < length (nodes rs)\<close> True n1 by (simp add: rs2_def l1 take_Suc_conv_app_nth)
      have l': "i < length (nodes rs')"
        using arg_cong [OF t, of length] \<open>i < length (nodes rs)\<close> by (simp split: if_splits)
      then have d': "drop i (nodes rs') = mark_kept (cur_gen rs) n # drop (Suc i) (nodes rs')"
        and t': "take i (nodes rs') = take i (nodes rs)"
        using t \<open>i < length (nodes rs)\<close> by (auto simp: take_Suc_conv_app_nth Cons_nth_drop_Suc [symmetric])
      have m: "nodes rs2 = (nodes rs)[i := mark_kept (cur_gen rs) n]"
          "dark_count rs2 = dark_count rs + (if rn_retained (mark_kept (cur_gen rs) n) then 1 else 0)"
        using n1 True \<open>i < length (nodes rs)\<close> by (simp_all add: rs2_def) (simp_all add: rs1_def)
      show ?thesis using IH True d d' t' \<open>i < length (nodes rs)\<close>
        by (simp add: m) (simp add: rs2_def rs1_def)
    next
      case False
      define rs2 where "rs2 = (rnode_remove h i rs1)\<lparr>muts := muts rs1 + 1\<rparr>"
      have n1': "nodes rs1 = nodes rs" using False n1 by (simp add: n_def)
      have g: "rn_gen (nodes rs1 ! i) \<noteq> cur_gen rs1"
        using False n1' by (simp add: rs1_def kept_def n_def)
      have sw: "sweep h i True rs2 = (b', rs')"
        using 1(3) g \<open>i < length (nodes rs)\<close> by (simp add: sweep.simps [of h i] Let_def rs1_def rs2_def split: if_splits)
      note IH = 1(1) [OF \<open>i < length (nodes rs)\<close> rs1_def g, folded rs2_def, OF sw]
      have ns2: "nodes rs2 = butlast ((nodes rs)[i := last (nodes rs)])"
        by (simp add: rs2_def n1')
      show ?thesis using IH False d swap_remove_drop [OF \<open>i < length (nodes rs)\<close>] True
        by (simp add: ns2) (simp add: rs2_def rs1_def)
    qed
  qed
qed

lemma sweep_one_lit:
  assumes "i < length (nodes rs)"
  shows "lit (sweep_one h i rs) x \<longleftrightarrow>
    lit rs x \<and> \<not> (kept h (cur_gen rs) (nodes rs ! i) \<and> turns_dark h (cur_gen rs) x (nodes rs ! i))"
  by (auto simp: sweep_one_def darken_def set_lit_def Let_def kept_def turns_dark_def keeps_dark_def)

lemma rnode_remove_scene:
  assumes "\<not> kept h (cur_gen rs) (nodes rs ! i)" and "distinct (kids rs)"
  shows "kids (rnode_remove h i rs) =
      filter (\<lambda>x. \<not> leaves h (cur_gen rs) x (nodes rs ! i)) (kids rs)"
    and "lit (rnode_remove h i rs) x \<longleftrightarrow> lit rs x \<and> \<not> turns_dark h (cur_gen rs) x (nodes rs ! i)"
  using assms
  by (auto simp: rnode_remove_def render_release_def scene_leave_def set_lit_def Let_def leaves_def
      turns_dark_def kept_def distinct_remove1_removeAll removeAll_filter_not_eq
      split: option.split intro!: filter_cong)

lemma sweep_scene:
  assumes "sweep h i b rs = (b', rs')" and "distinct (kids rs)"
  shows "kids rs' = filter (\<lambda>x. \<not> (\<exists>n\<in>set (drop i (nodes rs)). leaves h (cur_gen rs) x n)) (kids rs) \<and>
    (lit rs' x \<longleftrightarrow> lit rs x \<and> \<not> (\<exists>n\<in>set (drop i (nodes rs)). turns_dark h (cur_gen rs) x n))"
  using assms
proof (induction h i b rs rule: sweep.induct)
  case (1 h i swept rs)
  show ?case
  proof (cases "i < length (nodes rs)")
    case False
    then have "(b', rs') = (swept, rs)" using 1(3) by (subst (asm) sweep.simps) simp
    then show ?thesis using False by simp
  next
    case True
    define n where "n = nodes rs ! i"
    define rs1 where "rs1 = sweep_one h i rs"
    have d: "drop i (nodes rs) = n # drop (Suc i) (nodes rs)"
      using True by (simp add: n_def Cons_nth_drop_Suc)
    have n1: "nodes rs1 = (nodes rs)[i := if kept h (cur_gen rs) n then mark_kept (cur_gen rs) n else n]"
      using sweep_one_nodes [OF True] by (simp add: rs1_def n_def)
    note lit1 = sweep_one_lit [OF True, of h, folded rs1_def n_def]
    show ?thesis
    proof (cases "kept h (cur_gen rs) n")
      case True
      define rs2 where "rs2 = rs1\<lparr>dark_count := dark_count rs1 + (if rn_retained (nodes rs1 ! i) then 1 else 0)\<rparr>"
      have g: "rn_gen (nodes rs1 ! i) = cur_gen rs1"
        using True n1 \<open>i < length (nodes rs)\<close> by (simp add: rs1_def mark_kept_def)
      have sw: "sweep h (i + 1) swept rs2 = (b', rs')"
        using 1(3) g \<open>i < length (nodes rs)\<close>
        by (simp add: sweep.simps [of h i] Let_def rs1_def rs2_def split: if_splits)
      have "\<not> rn_gen (nodes rs1 ! i) \<noteq> cur_gen rs1" using g by simp
      note IH = 1(2) [OF \<open>i < length (nodes rs)\<close> rs1_def this, folded rs2_def, OF sw]
      have k2: "kids rs2 = kids rs" "cur_gen rs2 = cur_gen rs" "lit rs2 = lit rs1"
          "drop (Suc i) (nodes rs2) = drop (Suc i) (nodes rs)"
        using n1 by (simp_all add: rs2_def) (simp_all add: rs1_def)
      have "\<not> leaves h (cur_gen rs) y n" for y using True by (simp add: leaves_def)
      then show ?thesis using IH 1(4) True d lit1 [of x] by (simp add: k2)
    next
      case False
      define rs2 where "rs2 = (rnode_remove h i rs1)\<lparr>muts := muts rs1 + 1\<rparr>"
      have n1': "nodes rs1 = nodes rs" using False n1 by (simp add: n_def)
      have g: "rn_gen (nodes rs1 ! i) \<noteq> cur_gen rs1"
        using False n1' by (simp add: rs1_def kept_def n_def)
      have sw: "sweep h i True rs2 = (b', rs')"
        using 1(3) g \<open>i < length (nodes rs)\<close>
        by (simp add: sweep.simps [of h i] Let_def rs1_def rs2_def split: if_splits)
      note IH = 1(1) [OF \<open>i < length (nodes rs)\<close> rs1_def g, folded rs2_def, OF sw]
      have r: "cur_gen rs1 = cur_gen rs" "kids rs1 = kids rs" by (simp_all add: rs1_def)
      have nk: "\<not> kept h (cur_gen rs1) (nodes rs1 ! i)" using False n1' r by (simp add: n_def)
      have di: "distinct (kids rs1)" using 1(4) r by simp
      have k2: "kids rs2 = filter (\<lambda>x. \<not> leaves h (cur_gen rs) x n) (kids rs)"
          "\<And>x. lit rs2 x \<longleftrightarrow> lit rs1 x \<and> \<not> turns_dark h (cur_gen rs) x n"
          "cur_gen rs2 = cur_gen rs"
        using rnode_remove_scene [OF nk di] n1' r by (simp_all add: rs2_def n_def)
      have s2: "set (drop i (nodes rs2)) = set (drop (Suc i) (nodes rs))"
        using mset_eq_setD [OF swap_remove_drop(2) [OF \<open>i < length (nodes rs)\<close>]] n1'
        by (simp add: rs2_def)
      have "distinct (kids rs2)" using 1(4) by (simp add: k2)
      note IH' = IH [OF this, unfolded k2 s2 filter_filter]
      have "kids rs' = filter (\<lambda>x. \<not> (\<exists>n\<in>set (drop i (nodes rs)). leaves h (cur_gen rs) x n)) (kids rs)"
        unfolding conjunct1 [OF IH'] d by (rule filter_cong) auto
      moreover have "lit rs' x \<longleftrightarrow>
          lit rs x \<and> \<not> (\<exists>n\<in>set (drop i (nodes rs)). turns_dark h (cur_gen rs) x n)"
        using conjunct2 [OF IH'] lit1 False unfolding d by auto
      ultimately show ?thesis by blast
    qed
  qed
qed

text \<open>Without a removal the nodes keep their places.\<close>

lemma sweep_no_removal:
  assumes "sweep h i b rs = (b', rs')" and "\<not> b'"
  shows "map rn_key (nodes rs') = map rn_key (nodes rs)"
  using assms
proof (induction h i b rs rule: sweep.induct)
  case (1 h i swept rs)
  define rs1 where "rs1 = sweep_one h i rs"
  have k1: "map rn_key (nodes rs1) = map rn_key (nodes rs)" if "i < length (nodes rs)"
    using sweep_one_nodes [OF that, of h] that
    by (auto simp: rs1_def map_update mark_kept_def list_update_same_conv)
  show ?case
  proof (cases "i < length (nodes rs)")
    case False
    then show ?thesis using 1(3) by (subst (asm) sweep.simps) simp
  next
    case True
    show ?thesis
    proof (cases "rn_gen (nodes rs1 ! i) = cur_gen rs1")
      case True
      then show ?thesis
        using 1(2) [OF \<open>i < length (nodes rs)\<close> rs1_def] 1(3,4) k1 \<open>i < length (nodes rs)\<close>
        by (simp add: sweep.simps [of h i] Let_def split: if_splits flip: rs1_def)
    next
      case False
      have len: "i \<le> length (nodes (rnode_remove h i rs1\<lparr>muts := muts rs1 + 1\<rparr>))"
        using True by (simp add: rs1_def)
      have "sweep h i True (rnode_remove h i rs1\<lparr>muts := muts rs1 + 1\<rparr>) = (b', rs')"
        using 1(3) False True by (simp add: sweep.simps [of h i] Let_def flip: rs1_def)
      then have b' using sweep_nodes [OF _ len] by blast
      then show ?thesis using 1(4) by simp
    qed
  qed
qed

subsection \<open>Restacking\<close>

text \<open>The scene node a key names.\<close>

definition key_node :: "render_state \<Rightarrow> u64 \<Rightarrow> nat option" where
  "key_node rs k =
     (case rmap_get rs k of Some (Some i) \<Rightarrow> rn_node (nodes rs ! i) | _ \<Rightarrow> None)"

definition shown :: "render_state \<Rightarrow> nat list" where
  "shown rs = filter (\<lambda>x. \<not> scene_node_retained rs x) (kids rs)"

text \<open>
  What the code relies on of wlroots: a node placed above a sibling comes right after it in the
  list of children, a node lowered to the bottom first, the others keep their order.
\<close>

fun insert_above :: "nat \<Rightarrow> nat \<Rightarrow> nat list \<Rightarrow> nat list" where
  "insert_above x b [] = []"
| "insert_above x b (y # ys) = (if y = b then b # x # ys else y # insert_above x b ys)"

definition scene_ops_ok :: "scene_ops \<Rightarrow> bool" where
  "scene_ops_ok W \<longleftrightarrow>
     (\<forall>x b cs. distinct cs \<longrightarrow> x \<in> set cs \<longrightarrow> b \<in> set cs \<longrightarrow> x \<noteq> b \<longrightarrow>
        place_above W x b cs = insert_above x b (remove1 x cs)) \<and>
     (\<forall>x cs. distinct cs \<longrightarrow> x \<in> set cs \<longrightarrow> lower_to_bottom W x cs = x # remove1 x cs)"

definition list_scene_ops :: scene_ops where
  "list_scene_ops = \<lparr>place_above = (\<lambda>x b cs. insert_above x b (remove1 x cs)),
     lower_to_bottom = (\<lambda>x cs. x # remove1 x cs)\<rparr>"

lemma list_scene_ops_ok: "scene_ops_ok list_scene_ops"
  by (simp add: scene_ops_ok_def list_scene_ops_def)

lemma insert_above_set: "b \<in> set cs \<Longrightarrow> set (insert_above x b cs) = insert x (set cs)"
  by (induction cs) auto

lemma insert_above_distinct:
  "distinct cs \<Longrightarrow> x \<notin> set cs \<Longrightarrow> distinct (insert_above x b cs)"
proof (induction cs)
  case (Cons y ys)
  have "set (insert_above x b ys) \<subseteq> insert x (set ys)"
    by (induction ys) auto
  then show ?case using Cons by auto
qed simp

lemma insert_above_filter:
  "P x \<Longrightarrow> P b \<Longrightarrow> filter P (insert_above x b cs) = insert_above x b (filter P cs)"
  by (induction cs) auto

lemma insert_above_last:
  "distinct (ps @ qs) \<Longrightarrow> ps \<noteq> [] \<Longrightarrow> insert_above x (last ps) (ps @ qs) = ps @ x # qs"
proof (induction ps)
  case (Cons y ys)
  then show ?case by (cases "ys = []") auto
qed simp

lemma placed_below_shown:
  assumes "x \<in> set (kids rs)"
  obtains us vs where "kids rs = us @ x # vs" and "x \<notin> set us"
    and "placed_below rs x =
      (if filter (\<lambda>y. \<not> scene_node_retained rs y) us = [] then None
       else Some (last (filter (\<lambda>y. \<not> scene_node_retained rs y) us)))"
proof -
  obtain us vs where k: "kids rs = us @ x # vs" "x \<notin> set us"
    using assms by (metis split_list_first)
  let ?D = "scene_node_retained rs"
  have t: "takeWhile (\<lambda>y. y \<noteq> x) (kids rs) = us"
    using k by (auto simp: takeWhile_tail takeWhile_append)
  have "(case dropWhile ?D (rev us) of [] \<Rightarrow> None | y # ys \<Rightarrow> Some y) =
      (if filter (\<lambda>y. \<not> ?D y) us = [] then None else Some (last (filter (\<lambda>y. \<not> ?D y) us)))"
    by (induction us rule: rev_induct) auto
  then show ?thesis using that k t by (simp add: placed_below_def)
qed

lemma distinct_split_unique:
  "as @ z # bs = cs @ z # ds \<Longrightarrow> distinct (as @ z # bs) \<Longrightarrow> as = cs"
proof (induction as arbitrary: cs)
  case Nil
  then show ?case by (cases cs) auto
next
  case (Cons a as)
  then show ?case by (cases cs) auto
qed

text \<open>One step: the next node ends up right above those already placed.\<close>

definition restack_step :: "scene_ops \<Rightarrow> nat \<Rightarrow> nat option \<Rightarrow> render_state \<Rightarrow> render_state" where
  "restack_step W x below rs =
     (if placed_below rs x \<noteq> below
      then rs\<lparr>kids := (case below of
                         Some b \<Rightarrow> place_above W x b (kids rs)
                       | None \<Rightarrow> lower_to_bottom W x (kids rs)),
              muts := muts rs + 1\<rparr>
      else rs)"

lemma restack_step_sel [simp]:
  "nodes (restack_step W x below rs) = nodes rs" "rmap (restack_step W x below rs) = rmap rs"
  "lit (restack_step W x below rs) = lit rs"
  "dark_count (restack_step W x below rs) = dark_count rs"
  "paint_order (restack_step W x below rs) = paint_order rs"
  "cur_gen (restack_step W x below rs) = cur_gen rs"
  by (simp_all add: restack_step_def)

lemma retained_restack_step [simp]:
  "scene_node_retained (restack_step W x below rs) = scene_node_retained rs"
  by (simp add: scene_node_retained_def fun_eq_iff)

lemma rmap_get_restack_step [simp]: "rmap_get (restack_step W x below rs) = rmap_get rs"
  by (simp add: rmap_get_def fun_eq_iff)

lemma restack_step_shown:
  assumes "scene_ops_ok W" and "distinct (kids rs)"
    and "shown rs = ps @ rest" and "x \<in> set rest"
    and "below = (if ps = [] then None else Some (last ps))"
  shows "\<exists>rest'. shown (restack_step W x below rs) = (ps @ [x]) @ rest' \<and>
           set rest' = set rest - {x}"
    and "distinct (kids (restack_step W x below rs))"
    and "set (kids (restack_step W x below rs)) = set (kids rs)"
proof -
  let ?D = "scene_node_retained rs"
  have di: "distinct (ps @ rest)" using assms(2,3) by (metis shown_def distinct_filter)
  have sset: "{y \<in> set (kids rs). \<not> ?D y} = set ps \<union> set rest"
    using arg_cong [OF assms(3), of set] by (simp add: shown_def)
  then have x: "x \<in> set (kids rs)" "\<not> ?D x" "x \<notin> set ps"
    using assms(4) di by auto
  have rm: "filter (\<lambda>y. \<not> ?D y) (remove1 x (kids rs)) = ps @ remove1 x rest"
    using assms(3) x(2,3) by (simp add: filter_remove1 shown_def remove1_append)
  have "(\<exists>rest'. shown (restack_step W x below rs) = (ps @ [x]) @ rest' \<and> set rest' = set rest - {x}) \<and>
      distinct (kids (restack_step W x below rs)) \<and>
      set (kids (restack_step W x below rs)) = set (kids rs)"
  proof (cases "placed_below rs x = below")
    case True
    obtain us vs where k: "kids rs = us @ x # vs" "x \<notin> set us"
      and pb: "placed_below rs x = (if filter (\<lambda>y. \<not> ?D y) us = [] then None
         else Some (last (filter (\<lambda>y. \<not> ?D y) us)))"
      using placed_below_shown [OF x(1)] by metis
    define fu where "fu = filter (\<lambda>y. \<not> ?D y) us"
    have sh: "fu @ x # filter (\<lambda>y. \<not> ?D y) vs = ps @ rest"
      using assms(3) k x(2) by (simp add: shown_def fu_def)
    have "fu = ps"
    proof (cases "ps = []")
      case True
      then show ?thesis using \<open>placed_below rs x = below\<close> pb assms(5) by (auto simp: fu_def split: if_splits)
    next
      case False
      then have l: "fu \<noteq> []" "last fu = last ps"
        using \<open>placed_below rs x = below\<close> pb assms(5) by (auto simp: fu_def split: if_splits)
      then obtain fu' ps' where f: "fu = fu' @ [last ps]" "ps = ps' @ [last ps]"
        using False by (metis append_butlast_last_id)
      have "fu' @ last ps # (x # filter (\<lambda>y. \<not> ?D y) vs) = ps' @ last ps # rest"
        using sh f by (metis append.assoc append_Cons append_Nil)
      moreover have "distinct (ps' @ last ps # rest)"
        using di f by (metis append.assoc append_Cons append_Nil)
      ultimately have "fu' = ps'" by (metis distinct_split_unique)
      then show ?thesis using f by simp
    qed
    then have "rest = x # filter (\<lambda>y. \<not> ?D y) vs" using sh by simp
    then show ?thesis using True assms(2,3) di
      by (auto simp: restack_step_def)
  next
    case False
    show ?thesis
    proof (cases "ps = []")
      case True
      then have k: "kids (restack_step W x below rs) = x # remove1 x (kids rs)"
        using False assms(1,2,5) x(1) by (auto simp: restack_step_def scene_ops_ok_def)
      then have "shown (restack_step W x below rs) = ps @ x # remove1 x rest"
        using True x(2) rm by (simp add: shown_def)
      moreover have "distinct (kids (restack_step W x below rs))"
        using assms(2) by (simp add: k)
      moreover have "set (kids (restack_step W x below rs)) = set (kids rs)"
        using assms(2) x(1) by (auto simp: k)
      ultimately show ?thesis using di by auto
    next
      case False
      have l: "last ps \<in> set ps" using False by simp
      then have "last ps \<in> {y \<in> set (kids rs). \<not> ?D y}" unfolding sset by blast
      then have b: "last ps \<in> set (kids rs)" "\<not> ?D (last ps)" by blast+
      have b3: "last ps \<noteq> x" using l x(3) by blast
      have k: "kids (restack_step W x below rs) = insert_above x (last ps) (remove1 x (kids rs))"
        using False \<open>placed_below rs x \<noteq> below\<close> assms(1,2,5) x(1) b b3
        by (simp add: restack_step_def scene_ops_ok_def)
      have "distinct (ps @ remove1 x rest)" using di by (auto dest: set_remove1_subset [THEN subsetD])
      then have "shown (restack_step W x below rs) = ps @ x # remove1 x rest"
        using insert_above_filter [of "\<lambda>y. \<not> ?D y" x "last ps"] x(2) b(2) rm k False
        by (simp add: shown_def insert_above_last)
      moreover have "distinct (kids (restack_step W x below rs))"
        using assms(2) by (simp add: k insert_above_distinct)
      moreover have "set (kids (restack_step W x below rs)) = set (kids rs)"
        using assms(2) x(1) b(1) b3 by (auto simp: k insert_above_set)
      ultimately show ?thesis using di by auto
    qed
  qed
  then show "\<exists>rest'. shown (restack_step W x below rs) = (ps @ [x]) @ rest' \<and>
           set rest' = set rest - {x}"
    and "distinct (kids (restack_step W x below rs))"
    and "set (kids (restack_step W x below rs)) = set (kids rs)" by blast+
qed

definition has_node :: "render_state \<Rightarrow> u64 \<Rightarrow> bool" where
  "has_node rs k \<longleftrightarrow> (\<exists>i. rmap_get rs k = Some (Some i))"

lemma restack_step_key [simp]:
  "key_node (restack_step W x below rs) = key_node rs"
  "has_node (restack_step W x below rs) = has_node rs"
  by (simp_all add: key_node_def has_node_def fun_eq_iff cong: option.case_cong)

lemma restack_shown:
  assumes "scene_ops_ok W" and "distinct (kids rs)"
    and "\<forall>k\<in>set ks. has_node rs k"
    and "shown rs = ps @ rest" and "below = (if ps = [] then None else Some (last ps))"
    and "distinct (List.map_filter (key_node rs) ks)"
    and "set (List.map_filter (key_node rs) ks) \<subseteq> set rest"
  shows "\<exists>rs' rest'. restack W ks below rs = Some rs' \<and>
           shown rs' = (ps @ List.map_filter (key_node rs) ks) @ rest' \<and>
           set rest' = set rest - set (List.map_filter (key_node rs) ks) \<and>
           rmap rs' = rmap rs \<and> nodes rs' = nodes rs \<and> paint_order rs' = paint_order rs \<and>
           scene_node_retained rs' = scene_node_retained rs"
  using assms(2-)
proof (induction ks arbitrary: rs ps rest below)
  case Nil
  then show ?case by (simp add: map_filter_simps)
next
  case (Cons k ks)
  obtain i where i: "rmap_get rs k = Some (Some i)" using Cons.prems(2) by (auto simp: has_node_def)
  show ?case
  proof (cases "rn_node (nodes rs ! i)")
    case None
    then have "key_node rs k = None" using i by (simp add: key_node_def)
    then show ?thesis using Cons.IH [of rs ps rest below] Cons.prems i None
      by (simp add: map_filter_simps)
  next
    case (Some x)
    then have kn: "key_node rs k = Some x" using i by (simp add: key_node_def)
    define rs1 where "rs1 = restack_step W x below rs"
    have x: "x \<in> set rest" "x \<notin> set (List.map_filter (key_node rs) ks)"
      using Cons.prems(5,6) kn by (auto simp: map_filter_simps)
    note st = restack_step_shown [OF assms(1) Cons.prems(1,3) x(1) Cons.prems(4), folded rs1_def]
    obtain rest1 where r1: "shown rs1 = (ps @ [x]) @ rest1" "set rest1 = set rest - {x}"
      using st(1) by blast
    have eq: "restack W (k # ks) below rs = restack W ks (Some x) rs1"
      using i Some by (simp add: rs1_def restack_step_def)
    have "\<exists>rs' rest'. restack W ks (Some x) rs1 = Some rs' \<and>
           shown rs' = ((ps @ [x]) @ List.map_filter (key_node rs1) ks) @ rest' \<and>
           set rest' = set rest1 - set (List.map_filter (key_node rs1) ks) \<and>
           rmap rs' = rmap rs1 \<and> nodes rs' = nodes rs1 \<and> paint_order rs' = paint_order rs1 \<and>
           scene_node_retained rs' = scene_node_retained rs1"
    proof (rule Cons.IH)
      show "distinct (kids rs1)" by (rule st(2))
      show "\<forall>k\<in>set ks. has_node rs1 k" using Cons.prems(2) by (simp add: rs1_def)
      show "shown rs1 = (ps @ [x]) @ rest1" by (rule r1(1))
      show "distinct (List.map_filter (key_node rs1) ks)"
        using Cons.prems(5) kn by (simp add: rs1_def map_filter_simps)
      show "set (List.map_filter (key_node rs1) ks) \<subseteq> set rest1"
        using Cons.prems(6) kn x(2) r1(2) by (auto simp: rs1_def map_filter_simps)
    qed simp
    then obtain rs' rest' where
      res: "restack W ks (Some x) rs1 = Some rs'" "set rest' = set rest1 - set (List.map_filter (key_node rs) ks)"
        "shown rs' = ((ps @ [x]) @ List.map_filter (key_node rs) ks) @ rest'"
        "rmap rs' = rmap rs" "nodes rs' = nodes rs" "paint_order rs' = paint_order rs"
        "scene_node_retained rs' = scene_node_retained rs"
      by (auto simp: rs1_def)
    have mf: "List.map_filter (key_node rs) (k # ks) = x # List.map_filter (key_node rs) ks"
      using kn by (simp add: map_filter_simps)
    have "set rest' = set rest - set (List.map_filter (key_node rs) (k # ks))"
      unfolding mf res(2) r1(2) by auto
    moreover have "shown rs' = (ps @ List.map_filter (key_node rs) (k # ks)) @ rest'"
      unfolding mf res(3) by simp
    ultimately show ?thesis unfolding eq
      by (intro exI [of _ rs'] exI [of _ rest'] conjI res)
  qed
qed

lemma next_expected_eq:
  assumes "\<forall>k\<in>set ks. has_node rs k"
  shows "(case List.map_filter (key_node rs) ks of
           [] \<Rightarrow> next_expected rs ks = Some (None, [])
         | x # xs \<Rightarrow> \<exists>ks'. next_expected rs ks = Some (Some x, ks') \<and>
             List.map_filter (key_node rs) ks' = xs \<and> set ks' \<subseteq> set ks)"
  using assms
proof (induction ks)
  case (Cons k ks)
  obtain i where i: "rmap_get rs k = Some (Some i)" using Cons.prems by (auto simp: has_node_def)
  show ?case
  proof (cases "rn_node (nodes rs ! i)")
    case None
    then have "key_node rs k = None" using i by (simp add: key_node_def)
    then show ?thesis using Cons i None by (auto simp: map_filter_simps split: list.splits)
  next
    case (Some x)
    then have "key_node rs k = Some x" using i by (simp add: key_node_def)
    then show ?thesis using i Some by (auto simp: map_filter_simps)
  qed
qed (simp add: map_filter_simps)

lemma verify_kids_ok:
  assumes "\<forall>k\<in>set ks. has_node rs k"
    and "filter (\<lambda>x. \<not> scene_node_retained rs x) xs = List.map_filter (key_node rs) ks"
  shows "verify_kids rs xs ks = Some ()"
  using assms
proof (induction xs arbitrary: ks)
  case Nil
  then show ?case using next_expected_eq [OF Nil.prems(1)] by simp
next
  case (Cons x xs)
  show ?case
  proof (cases "scene_node_retained rs x")
    case False
    then have "List.map_filter (key_node rs) ks =
        x # filter (\<lambda>x. \<not> scene_node_retained rs x) xs"
      using Cons.prems(2) by simp
    then obtain ks' where "next_expected rs ks = Some (Some x, ks')"
        "List.map_filter (key_node rs) ks' = filter (\<lambda>x. \<not> scene_node_retained rs x) xs"
        "set ks' \<subseteq> set ks"
      using next_expected_eq [OF Cons.prems(1)] by auto
    moreover from this have "\<forall>a\<in>set ks'. has_node rs a" using Cons.prems(1) by blast
    ultimately show ?thesis using Cons.IH [of ks'] False by simp
  qed (use Cons in simp)
qed

subsection \<open>The whole end of the pass\<close>

text \<open>The scene node of the node with a key.\<close>

definition scene_of :: "rnode list \<Rightarrow> u64 \<Rightarrow> nat option" where
  "scene_of ns k = Option.bind (find (\<lambda>n. rn_key n = k) ns) rn_node"

text \<open>
  What holds after the walk over the commands: the keys are distinct, the nodes of this
  generation are those of the commands and not dark, each child of the scene tree is the scene
  node of exactly one node, a dark node is disabled, a borrowed tree that is still a child is
  owned by this output, the table is that of the nodes before the walk, and commands in an
  unchanged order have their scene nodes in that order.
\<close>

definition walked :: "client_hooks \<Rightarrow> nat \<Rightarrow> u64 list \<Rightarrow> render_state \<Rightarrow> bool" where
  "walked h pre_len build rs \<longleftrightarrow>
     distinct (map rn_key (nodes rs)) \<and> distinct build \<and>
     set build = rn_key ` {n \<in> set (nodes rs). rn_gen n = cur_gen rs} \<and>
     (\<forall>n\<in>set (nodes rs). rn_gen n = cur_gen rs \<longrightarrow> \<not> rn_retained n) \<and>
     distinct (kids rs) \<and>
     (\<forall>x\<in>set (kids rs). \<exists>n\<in>set (nodes rs). rn_node n = Some x) \<and>
     (\<forall>n\<in>set (nodes rs). \<forall>m\<in>set (nodes rs). rn_node n \<noteq> None \<longrightarrow> rn_node n = rn_node m \<longrightarrow> n = m) \<and>
     (\<forall>n\<in>set (nodes rs). \<forall>x. rn_node n = Some x \<longrightarrow>
        (rn_gen n = cur_gen rs \<longrightarrow> x \<in> set (kids rs)) \<and>
        (rn_gen n \<noteq> cur_gen rs \<longrightarrow> rn_borrowed n \<longrightarrow> x \<in> set (kids rs) \<longrightarrow> hk_release h (rn_handle n)) \<and>
        (rn_gen n \<noteq> cur_gen rs \<longrightarrow> rn_retained n \<longrightarrow> \<not> lit rs x)) \<and>
     rmap_ok rs \<and> pre_len \<le> length (nodes rs) \<and> pre_len < length (rmap rs) \<and>
     table_of (rmap rs) (map rn_key (take pre_len (nodes rs))) \<and>
     (build = paint_order rs \<and> \<not> node_recreated rs \<longrightarrow>
        filter (\<lambda>x. \<exists>n\<in>set (nodes rs). rn_gen n = cur_gen rs \<and> rn_node n = Some x) (kids rs) =
        List.map_filter (scene_of (nodes rs)) build)"

lemma find_distinct:
  "distinct (map rn_key ns) \<Longrightarrow> n \<in> set ns \<Longrightarrow> find (\<lambda>m. rn_key m = rn_key n) ns = Some n"
  by (induction ns) (auto simp: image_iff)

lemma first_index_distinct:
  assumes "distinct (map rn_key ns)" and "n \<in> set ns"
  shows "\<exists>i<length ns. first_index (rn_key n) (map rn_key ns) = Some i \<and> ns ! i = n"
proof -
  obtain i where i: "i < length ns" "ns ! i = n" using assms(2) by (auto simp: in_set_conv_nth)
  moreover have "map rn_key ns ! j \<noteq> rn_key n" if "j < i" for j
    using that i assms(1) nth_eq_iff_index_eq [OF assms(1), of j i] by auto
  ultimately show ?thesis by (intro exI [of _ i]) (auto simp: first_index_Some)
qed

lemma map_filter_cong: "(\<And>x. x \<in> set xs \<Longrightarrow> f x = g x) \<Longrightarrow> List.map_filter f xs = List.map_filter g xs"
  by (induction xs) (auto simp: map_filter_simps split: option.splits)

lemma set_map_filter_eq: "set (List.map_filter f xs) = {y. \<exists>x\<in>set xs. f x = Some y}"
  by (induction xs) (auto simp: map_filter_simps split: option.splits)

lemma map_filter_distinct:
  assumes "distinct ks" and "\<And>k l x. k \<in> set ks \<Longrightarrow> l \<in> set ks \<Longrightarrow> f k = Some x \<Longrightarrow> f l = Some x \<Longrightarrow> k = l"
  shows "distinct (List.map_filter f ks)"
  using assms
proof (induction ks)
  case (Cons k ks)
  have d: "distinct (List.map_filter f ks)" using Cons.prems by (intro Cons.IH) auto
  show ?case
  proof (cases "f k")
    case (Some x)
    have "x \<notin> set (List.map_filter f ks)"
    proof
      assume "x \<in> set (List.map_filter f ks)"
      then obtain l where "l \<in> set ks" "f l = Some x" by (auto simp: set_map_filter_eq)
      then show False using Cons.prems(1) Cons.prems(2) [of k l x] Some by auto
    qed
    then show ?thesis using d Some by (simp add: map_filter_simps)
  qed (use d in \<open>simp add: map_filter_simps\<close>)
qed (simp add: map_filter_simps)

lemma walked_distinct: "walked h p build rs \<Longrightarrow> distinct (map rn_key (nodes rs))"
  and walked_build: "walked h p build rs \<Longrightarrow> distinct build"
      "walked h p build rs \<Longrightarrow> set build = rn_key ` {n \<in> set (nodes rs). rn_gen n = cur_gen rs}"
  and walked_kids: "walked h p build rs \<Longrightarrow> distinct (kids rs)"
  by (simp_all add: walked_def)

lemma walked_lit_node:
  "walked h p build rs \<Longrightarrow> n \<in> set (nodes rs) \<Longrightarrow> rn_gen n = cur_gen rs \<Longrightarrow> \<not> rn_retained n"
  by (simp add: walked_def)

lemma walked_owner: "walked h p build rs \<Longrightarrow> x \<in> set (kids rs) \<Longrightarrow> \<exists>n\<in>set (nodes rs). rn_node n = Some x"
  by (simp add: walked_def)

lemma walked_unique:
  "walked h p build rs \<Longrightarrow> n \<in> set (nodes rs) \<Longrightarrow> m \<in> set (nodes rs) \<Longrightarrow>
   rn_node n = Some x \<Longrightarrow> rn_node m = Some x \<Longrightarrow> n = m"
  by (simp add: walked_def)

lemma walked_child:
  "walked h p build rs \<Longrightarrow> n \<in> set (nodes rs) \<Longrightarrow> rn_node n = Some x \<Longrightarrow> rn_gen n = cur_gen rs \<Longrightarrow>
   x \<in> set (kids rs)"
  by (simp add: walked_def)

lemma walked_borrowed:
  "walked h p build rs \<Longrightarrow> n \<in> set (nodes rs) \<Longrightarrow> rn_node n = Some x \<Longrightarrow> rn_gen n \<noteq> cur_gen rs \<Longrightarrow>
   rn_borrowed n \<Longrightarrow> x \<in> set (kids rs) \<Longrightarrow> hk_release h (rn_handle n)"
  by (simp add: walked_def)

lemma walked_dark:
  "walked h p build rs \<Longrightarrow> n \<in> set (nodes rs) \<Longrightarrow> rn_node n = Some x \<Longrightarrow> rn_gen n \<noteq> cur_gen rs \<Longrightarrow>
   rn_retained n \<Longrightarrow> \<not> lit rs x"
  by (simp add: walked_def)

text \<open>What the sweep leaves of a walked state: the shown children are those of the commands.\<close>

lemma swept_shown:
  assumes "walked h pre_len build rs" and "sweep h 0 False (rs\<lparr>dark_count := 0\<rparr>) = (b', rs')"
  shows "shown rs' = filter (\<lambda>x. \<exists>n\<in>set (nodes rs). rn_gen n = cur_gen rs \<and> rn_node n = Some x) (kids rs)"
    and "distinct (kids rs')"
    and "distinct (map rn_key (nodes rs'))"
    and "\<And>n. n \<in> set (nodes rs) \<Longrightarrow> rn_gen n = cur_gen rs \<Longrightarrow> n \<in> set (nodes rs')"
    and "set (kids rs') \<subseteq> set (kids rs)"
proof -
  let ?g = "cur_gen rs"
  have ms: "mset (nodes rs') = image_mset (mark_kept ?g) (filter_mset (kept h ?g) (mset (nodes rs)))"
    and dc: "dark_count rs' = length (filter rn_retained (nodes rs'))"
    using sweep_nodes [OF assms(2)] by simp_all
  have k: "kids rs' = filter (\<lambda>x. \<not> (\<exists>n\<in>set (nodes rs). leaves h ?g x n)) (kids rs)"
    and l: "\<And>x. lit rs' x \<longleftrightarrow> lit rs x \<and> \<not> (\<exists>n\<in>set (nodes rs). turns_dark h ?g x n)"
    using sweep_scene [OF assms(2)] walked_kids [OF assms(1)] by simp_all
  show d: "distinct (kids rs')" using walked_kids [OF assms(1)] by (simp add: k)
  show "set (kids rs') \<subseteq> set (kids rs)" by (auto simp: k)
  have s: "set (nodes rs') = mark_kept ?g ` {n \<in> set (nodes rs). kept h ?g n}"
    using arg_cong [OF ms, of set_mset] by auto
  show "n \<in> set (nodes rs')" if "n \<in> set (nodes rs)" "rn_gen n = ?g" for n
    using that by (auto simp: s kept_def mark_kept_def image_iff intro!: bexI [of _ n])
  have "mset (map rn_key (nodes rs')) = image_mset rn_key (filter_mset (kept h ?g) (mset (nodes rs)))"
    using arg_cong [OF ms, of "image_mset rn_key"]
    by (simp add: image_mset.compositionality o_def mark_kept_def if_distrib cong: if_cong)
  then have "mset (map rn_key (nodes rs')) = mset (map rn_key (filter (kept h ?g) (nodes rs)))" by simp
  then show "distinct (map rn_key (nodes rs'))"
    using mset_eq_imp_distinct_iff distinct_map_filter [OF walked_distinct [OF assms(1)]] by metis
  have "scene_node_retained rs' x \<longleftrightarrow> rn_gen n \<noteq> ?g"
    if x: "x \<in> set (kids rs')" "n \<in> set (nodes rs)" "rn_node n = Some x" for x n
  proof -
    have uq: "m = n" if "m \<in> set (nodes rs)" "rn_node m = Some x" for m
      using walked_unique [OF assms(1) that(1) x(2) that(2) x(3)] .
    show ?thesis
    proof (cases "rn_gen n = ?g")
      case True
      have "\<not> (rn_retained m \<and> rn_node m = Some x)" if m: "m \<in> set (nodes rs')" for m
      proof
        assume a: "rn_retained m \<and> rn_node m = Some x"
        obtain m0 where m0: "m0 \<in> set (nodes rs)" "m = mark_kept ?g m0" using m s by auto
        then have "rn_node m0 = Some x" using a by (simp add: mark_kept_def split: if_splits)
        then have "m0 = n" using uq m0(1) by blast
        then have "rn_retained n" using a m0(2) True by (simp add: mark_kept_def)
        then show False using walked_lit_node [OF assms(1) x(2) True] by blast
      qed
      then show ?thesis using True by (auto simp: scene_node_retained_def list_ex_iff)
    next
      case False
      have "\<not> leaves h ?g x n" using x(1,2) by (auto simp: k)
      moreover have "x \<in> set (kids rs)" using x(1) by (simp add: k)
      ultimately have kp: "kept h ?g n"
        using False x walked_borrowed [OF assms(1) x(2,3)] unfolding leaves_def by blast
      then have kd: "keeps_dark h n" using False by (simp add: kept_def)
      have nl: "\<not> lit rs' x"
      proof (cases "rn_retained n")
        case True
        then show ?thesis using l walked_dark [OF assms(1) x(2,3) False] by blast
      next
        case False
        then have "turns_dark h ?g x n" using x \<open>rn_gen n \<noteq> ?g\<close> kd by (simp add: turns_dark_def)
        then show ?thesis using l x by blast
      qed
      have m: "mark_kept ?g n \<in> set (nodes rs')" "rn_retained (mark_kept ?g n)"
          "rn_node (mark_kept ?g n) = Some x"
        using kp x False by (auto simp: s mark_kept_def)
      then have "dark_count rs' \<noteq> 0" by (auto simp: dc filter_empty_conv)
      then show ?thesis using nl m False by (auto simp: scene_node_retained_def list_ex_iff)
    qed
  qed
  note dark = this
  have ow: "\<exists>n\<in>set (nodes rs). rn_node n = Some x" if "x \<in> set (kids rs)" for x
    using walked_owner [OF assms(1) that] .
  have "\<not> leaves h ?g x n" if "rn_gen m = ?g" "rn_node m = Some x" "m \<in> set (nodes rs)" "n \<in> set (nodes rs)" for x n m
    using walked_unique [OF assms(1) that(3,4,2)] that(1) unfolding leaves_def kept_def by blast
  then have "x \<in> set (kids rs') \<and> \<not> scene_node_retained rs' x \<longleftrightarrow>
      (\<exists>n\<in>set (nodes rs). rn_gen n = ?g \<and> rn_node n = Some x)" if "x \<in> set (kids rs)" for x
    using ow [OF that] dark [of x] that unfolding k by fastforce
  then show "shown rs' = filter (\<lambda>x. \<exists>n\<in>set (nodes rs). rn_gen n = ?g \<and> rn_node n = Some x) (kids rs)"
    unfolding shown_def k filter_filter by (intro filter_cong) (auto simp: k)
qed

text \<open>With the table of the nodes, the keys of the commands name their scene nodes.\<close>

lemma command_nodes:
  assumes w: "walked h pre_len build rs"
    and t: "table_of (rmap rs') (map rn_key (nodes rs'))" "length (nodes rs') < length (rmap rs')"
    and n: "distinct (map rn_key (nodes rs'))"
      "\<And>n. n \<in> set (nodes rs) \<Longrightarrow> rn_gen n = cur_gen rs \<Longrightarrow> n \<in> set (nodes rs')"
  shows "\<forall>k\<in>set build. has_node rs' k"
    and "List.map_filter (key_node rs') build = List.map_filter (scene_of (nodes rs)) build"
    and "distinct (List.map_filter (key_node rs') build)"
    and "set (List.map_filter (key_node rs') build) =
      {x. \<exists>n\<in>set (nodes rs). rn_gen n = cur_gen rs \<and> rn_node n = Some x}"
proof -
  have look: "\<exists>n\<in>set (nodes rs). rn_gen n = cur_gen rs \<and> rn_key n = k \<and> has_node rs' k \<and>
      key_node rs' k = rn_node n \<and> scene_of (nodes rs) k = rn_node n" if kb: "k \<in> set build" for k
  proof -
    obtain n where n0: "n \<in> set (nodes rs)" "rn_gen n = cur_gen rs" "rn_key n = k"
      using kb walked_build(2) [OF w] by auto
    obtain i where i: "first_index k (map rn_key (nodes rs')) = Some i" "nodes rs' ! i = n"
      using first_index_distinct [OF n(1) n(2) [OF n0(1,2)]] n0(3) by auto
    have "rmap_get rs' k = Some (Some i)"
      using rmap_get_table [OF t(1)] t(2) i(1) by simp
    moreover have "scene_of (nodes rs) k = rn_node n"
      using find_distinct [OF walked_distinct [OF w] n0(1)] n0(3) by (simp add: scene_of_def)
    ultimately show ?thesis using n0 i(2) by (auto simp: has_node_def key_node_def)
  qed
  show "\<forall>k\<in>set build. has_node rs' k" using look by blast
  show "List.map_filter (key_node rs') build = List.map_filter (scene_of (nodes rs)) build"
    using look by (intro map_filter_cong) metis
  show "distinct (List.map_filter (key_node rs') build)"
    using walked_build(1) [OF w] look walked_unique [OF w]
    by (intro map_filter_distinct) metis+
  have "(\<exists>k\<in>set build. key_node rs' k = Some x) \<longleftrightarrow>
      (\<exists>n\<in>set (nodes rs). rn_gen n = cur_gen rs \<and> rn_node n = Some x)" for x
  proof
    assume "\<exists>k\<in>set build. key_node rs' k = Some x"
    then show "\<exists>n\<in>set (nodes rs). rn_gen n = cur_gen rs \<and> rn_node n = Some x"
      using look by metis
  next
    assume "\<exists>n\<in>set (nodes rs). rn_gen n = cur_gen rs \<and> rn_node n = Some x"
    then obtain n where n0: "n \<in> set (nodes rs)" "rn_gen n = cur_gen rs" "rn_node n = Some x" by blast
    then have k: "rn_key n \<in> set build" using walked_build(2) [OF w] by auto
    have "scene_of (nodes rs) (rn_key n) = Some x"
      using find_distinct [OF walked_distinct [OF w] n0(1)] n0(3) by (simp add: scene_of_def)
    then show "\<exists>k\<in>set build. key_node rs' k = Some x" using look [OF k] k by metis
  qed
  then show "set (List.map_filter (key_node rs') build) =
      {x. \<exists>n\<in>set (nodes rs). rn_gen n = cur_gen rs \<and> rn_node n = Some x}"
    by (auto simp: set_map_filter_eq)
qed

text \<open>After the sweep, rebuilding the table when the code does gives the table of the nodes.\<close>

lemma rebuild_when_needed:
  assumes "walked h pre_len build rs" and "sweep h 0 False (rs\<lparr>dark_count := 0\<rparr>) = (b, rs1)"
  shows "\<exists>tab. (if b \<or> length (nodes rs1) \<noteq> pre_len then rmap_rebuild rs1 else Some rs1) =
             Some (rs1\<lparr>rmap := tab\<rparr>) \<and>
           table_of tab (map rn_key (nodes rs1)) \<and> length (nodes rs1) < length tab"
proof (cases "b \<or> length (nodes rs1) \<noteq> pre_len")
  case True
  have "rmap_ok rs1" using sweep_nodes [OF assms(2)] assms(1) by (simp add: walked_def rmap_ok_def)
  then show ?thesis using rmap_rebuild_table [of rs1] True by auto
next
  case False
  then have keys: "map rn_key (nodes rs1) = map rn_key (nodes rs)"
    using sweep_no_removal [OF assms(2)] by simp
  then have "length (nodes rs) = pre_len" using False map_eq_imp_length_eq by metis
  then have "table_of (rmap rs1) (map rn_key (nodes rs1)) \<and> length (nodes rs1) < length (rmap rs1)"
    using sweep_nodes [OF assms(2)] assms(1) False keys by (simp add: walked_def)
  then show ?thesis using False by (auto intro!: exI [of _ "rmap rs1"])
qed


text \<open>
  C4: The end of a frame's reconcile pass returns, whatever sweep and restack it needs. The
  nodes left are those of this generation, unchanged, and those kept dark. The table finds
  every key at its first node. The children of the scene tree that are not kept dark are
  exactly the scene nodes of the commands in painting order, so the check of the verifying
  build never aborts.
\<close>
theorem frame_order_agrees:
  assumes "scene_ops_ok W" and "walked h pre_len build rs"
  shows "\<exists>rs'. reconcile_end h W pre_len build rs = Some rs' \<and> verify_order rs' = Some () \<and>
    paint_order rs' = build \<and>
    shown rs' = List.map_filter (scene_of (nodes rs)) build \<and>
    mset (nodes rs') = image_mset (mark_kept (cur_gen rs))
      (filter_mset (kept h (cur_gen rs)) (mset (nodes rs))) \<and>
    (\<forall>k. rmap_get rs' k = Some (first_index k (map rn_key (nodes rs'))))"
proof -
  obtain b rs1 where sw: "sweep h 0 False (rs\<lparr>dark_count := 0\<rparr>) = (b, rs1)" by fastforce
  note s = swept_shown [OF assms(2) sw]
  obtain tab where tab: "(if b \<or> length (nodes rs1) \<noteq> pre_len then rmap_rebuild rs1 else Some rs1) =
        Some (rs1\<lparr>rmap := tab\<rparr>)" "table_of tab (map rn_key (nodes rs1))" "length (nodes rs1) < length tab"
    using rebuild_when_needed [OF assms(2) sw] by blast
  define rs2 where "rs2 = rs1\<lparr>rmap := tab, paint_order := build\<rparr>"
  define ch where "ch = (node_recreated rs1 \<or> build \<noteq> paint_order rs1)"
  have t2: "table_of (rmap rs2) (map rn_key (nodes rs2))" "length (nodes rs2) < length (rmap rs2)"
    using tab by (simp_all add: rs2_def)
  have n2: "nodes rs2 = nodes rs1" "kids rs2 = kids rs1" "shown rs2 = shown rs1"
    and p2: "paint_order rs2 = build"
    by (simp_all add: rs2_def shown_def scene_node_retained_def)
  note c = command_nodes [OF assms(2) t2, unfolded n2, OF s(3,4)]
  have fin: "reconcile_end h W pre_len build rs = (if ch then restack W build None rs2 else Some rs2)"
    using sw tab(1) by (simp add: reconcile_end_def rs2_def ch_def)
  have same: "cur_gen rs1 = cur_gen rs" "paint_order rs1 = paint_order rs" "node_recreated rs1 = node_recreated rs"
    using sweep_nodes [OF sw] by simp_all
  have all: "set (shown rs2) = set (List.map_filter (key_node rs2) build)"
    using s(1) c(4) walked_child [OF assms(2)] by (auto simp: n2)
  have "\<exists>rs'. reconcile_end h W pre_len build rs = Some rs' \<and>
      shown rs' = List.map_filter (key_node rs2) build \<and> rmap rs' = rmap rs2 \<and> nodes rs' = nodes rs2 \<and>
      paint_order rs' = build \<and> scene_node_retained rs' = scene_node_retained rs2"
  proof (cases ch)
    case True
    obtain rs' rest' where r: "restack W build None rs2 = Some rs'"
        "shown rs' = ([] @ List.map_filter (key_node rs2) build) @ rest'"
        "set rest' = set (shown rs2) - set (List.map_filter (key_node rs2) build)"
        "rmap rs' = rmap rs2" "nodes rs' = nodes rs2" "paint_order rs' = paint_order rs2"
        "scene_node_retained rs' = scene_node_retained rs2"
      using restack_shown [OF assms(1), of rs2 build "[]" "shown rs2" None] s(2) c(1,3) all
      by (auto simp: n2)
    then show ?thesis using fin True all by (simp add: p2)
  next
    case False
    then have "filter (\<lambda>x. \<exists>n\<in>set (nodes rs). rn_gen n = cur_gen rs \<and> rn_node n = Some x) (kids rs) =
        List.map_filter (scene_of (nodes rs)) build"
      using assms(2) same by (simp add: ch_def walked_def)
    then show ?thesis using fin False s(1) c(2) by (simp add: n2 p2)
  qed
  then obtain rs' where r: "reconcile_end h W pre_len build rs = Some rs'"
      "shown rs' = List.map_filter (key_node rs2) build" "rmap rs' = rmap rs2" "nodes rs' = nodes rs2"
      "paint_order rs' = build" "scene_node_retained rs' = scene_node_retained rs2" by blast
  have g: "rmap_get rs' = rmap_get rs2" "key_node rs' = key_node rs2" "has_node rs' = has_node rs2"
    using r(3,4) by (simp_all add: rmap_get_def key_node_def has_node_def fun_eq_iff cong: option.case_cong)
  have "verify_order rs' = Some ()"
    unfolding verify_order_def using c(1) r by (intro verify_kids_ok) (auto simp: g shown_def)
  moreover have "rmap_get rs' k = Some (first_index k (map rn_key (nodes rs')))" for k
    using rmap_get_table [OF t2(1)] t2(2) r(4) by (simp add: g)
  moreover have "mset (nodes rs') = image_mset (mark_kept (cur_gen rs))
      (filter_mset (kept h (cur_gen rs)) (mset (nodes rs)))"
    using sweep_nodes [OF sw] r(4) by (simp add: n2)
  ultimately show ?thesis using r c(2) by auto
qed

text \<open>
  A frame in which one node appeared, one vanished with its element and one vanished while its
  element stays.
\<close>

definition demo_rnode :: "u64 \<Rightarrow> nat \<Rightarrow> u64 \<Rightarrow> rnode" where
  "demo_rnode k x g = \<lparr>rn_key = k, rn_node = Some x, rn_gen = g, rn_borrowed = False,
     rn_retained = False, rn_handle = 0\<rparr>"

definition demo_before :: "rnode list" where
  "demo_before = [demo_rnode 101 10 2, demo_rnode 102 20 1, demo_rnode 103 30 1]"

definition demo_frame :: render_state where
  "demo_frame = \<lparr>nodes = demo_before @ [demo_rnode 104 40 2],
     rmap = the (rmap_fill 0 demo_before (replicate 16 empty_slot)), cur_gen = 2,
     paint_order = [101, 102, 103], dark_count = 0, node_recreated = False, destroyed = 0,
     muts = 0, kids = [10, 20, 30, 40], lit = (\<lambda>_. True)\<rparr>"

definition demo_hooks :: client_hooks where
  "demo_hooks = \<lparr>hk_declared = Some (\<lambda>i. i = 103), hk_release = (\<lambda>_. True)\<rparr>"

lemma demo_table:
  "table_of (rmap demo_frame) (map rn_key demo_before) \<and> length (rmap demo_frame) = 16"
proof -
  have "pow2 16" by (auto simp: pow2_def intro: exI [of _ 4])
  then show ?thesis
    using rmap_fill_table [OF table_of_empty, of 16 demo_before] by (auto simp: demo_frame_def demo_before_def)
qed

lemma demo_walked: "walked demo_hooks 3 [104, 101] demo_frame"
proof -
  have "rmap_ok demo_frame" using demo_table table_of_pow2 by (metis rmap_ok_def)
  moreover have "table_of (rmap demo_frame) (map rn_key (take 3 (nodes demo_frame)))"
    using demo_table by (simp add: demo_frame_def demo_before_def)
  moreover have "3 < length (rmap demo_frame)" using demo_table by simp
  moreover have "{n \<in> set (nodes demo_frame). rn_gen n = cur_gen demo_frame} =
      {demo_rnode 101 10 2, demo_rnode 104 40 2}"
    by (auto simp: demo_frame_def demo_before_def demo_rnode_def)
  moreover have "rn_key ` {demo_rnode 101 10 2, demo_rnode 104 40 2} = set [104, 101]"
    by (auto simp: demo_rnode_def)
  moreover have "length (nodes demo_frame) = 4" "paint_order demo_frame = [101, 102, 103]"
      "kids demo_frame = [10, 20, 30, 40]" "set (nodes demo_frame) = set (demo_before @ [demo_rnode 104 40 2])"
      "map rn_key (nodes demo_frame) = [101, 102, 103, 104]"
    by (simp_all add: demo_frame_def demo_before_def demo_rnode_def)
  ultimately show ?thesis
    unfolding walked_def by (simp add: demo_before_def) (simp add: demo_rnode_def)
qed

lemma frame_order_agrees_witness:
  "\<exists>rs'. reconcile_end demo_hooks list_scene_ops 3 [104, 101] demo_frame = Some rs' \<and>
     verify_order rs' = Some () \<and> paint_order rs' = [104, 101] \<and> shown rs' = [40, 10] \<and>
     mset (nodes rs') = {#demo_rnode 101 10 2, demo_rnode 104 40 2,
       (demo_rnode 103 30 2)\<lparr>rn_retained := True\<rparr>#}"
  using frame_order_agrees [OF list_scene_ops_ok demo_walked]
  by (auto simp: demo_frame_def demo_before_def demo_rnode_def scene_of_def map_filter_simps
      demo_hooks_def kept_def keeps_dark_def mark_kept_def)

text \<open>
  C36: The node table of the renderer answers as a search through the nodes: after it is rebuilt,
  looking up any key ends and gives the index of the first node with the key, or none when no
  node has it.
\<close>
theorem node_table_lookup:
  assumes "rmap_ok rs"
  shows "\<exists>rs'. rmap_rebuild rs = Some rs' \<and> nodes rs' = nodes rs \<and> rmap_ok rs' \<and>
    2 * length (nodes rs) \<le> length (rmap rs') \<and>
    (\<forall>k. rmap_get rs' k = Some (first_index k (map rn_key (nodes rs))))"
proof -
  obtain tab where "rmap_rebuild rs = Some (rs\<lparr>rmap := tab\<rparr>)" "table_of tab (map rn_key (nodes rs))"
      "2 * length (nodes rs) \<le> length tab" "length (nodes rs) < length tab"
    using rmap_rebuild_table [OF assms] by auto
  then show ?thesis using rmap_get_table [of "rs\<lparr>rmap := tab\<rparr>"] table_of_pow2
    by (auto simp: rmap_ok_def)
qed

lemma node_table_lookup_witness:
  "\<exists>rs'. rmap_rebuild (demo_frame\<lparr>rmap := []\<rparr>) = Some rs' \<and>
     rmap_get rs' 103 = Some (Some 2) \<and> rmap_get rs' 105 = Some None"
  using node_table_lookup [of "demo_frame\<lparr>rmap := []\<rparr>"]
  by (auto simp: rmap_ok_def demo_frame_def demo_before_def demo_rnode_def)

end
