(* ===== verification/Color.thy ===== *)
theory Color
  imports World
begin

unbundle bit_operations_syntax

text \<open>
  Colours: src/color.c. A string of Lua is parsed into the four channels, and a colour is pushed
  as such a string. strtoul is the C library's, written out for base 16; lua_tostring is a
  parameter. The lemmas show that a pushed colour is read back, and what is accepted beyond the
  documented forms.
\<close>

subsection \<open>strtoul in base 16\<close>

text \<open>isspace in the C locale, and the value of a hexadecimal digit.\<close>

definition is_space :: "char \<Rightarrow> bool" where
  "is_space c \<longleftrightarrow> (of_char c :: nat) \<in> {32, 9, 10, 11, 12, 13}"

definition hex_val :: "char \<Rightarrow> nat option" where
  "hex_val c =
     (let n = of_char c :: nat in
      if 48 \<le> n \<and> n \<le> 57 then Some (n - 48)
      else if 97 \<le> n \<and> n \<le> 102 then Some (n - 87)
      else if 65 \<le> n \<and> n \<le> 70 then Some (n - 55)
      else None)"

definition is_hex :: "char \<Rightarrow> bool" where
  "is_hex c \<longleftrightarrow> hex_val c \<noteq> None"

definition hex_number :: "nat \<Rightarrow> string \<Rightarrow> nat" where
  "hex_number a ds = foldl (\<lambda>a d. a * 16 + the (hex_val d)) a ds"

text \<open>
  The value and the number of characters read: white space, a sign, a prefix 0x when a digit
  follows it, digits. Without digits nothing is read; a value that does not fit is ULONG_MAX.
\<close>

definition has_0x :: "string \<Rightarrow> bool" where
  "has_0x u \<longleftrightarrow>
     (case u of
        z # x # d # _ \<Rightarrow> z = CHR ''0'' \<and> (x = CHR ''x'' \<or> x = CHR ''X'') \<and> is_hex d
      | _ \<Rightarrow> False)"

definition strtoul16 :: "string \<Rightarrow> u64 \<times> nat" where
  "strtoul16 s =
     (let ws = length (takeWhile is_space s);
          t = drop ws s;
          sg = (case t of c # _ \<Rightarrow> if c = CHR ''+'' \<or> c = CHR ''-'' then 1 else 0 | [] \<Rightarrow> 0);
          neg = (case t of c # _ \<Rightarrow> c = CHR ''-'' | [] \<Rightarrow> False);
          u = drop sg t;
          px = (if has_0x u then 2 else 0);
          ds = takeWhile is_hex (drop px u);
          v = hex_number 0 ds
      in if ds = [] then (0, 0)
         else (if 2 ^ 64 \<le> v then - 1 else if neg then - of_nat v else of_nat v,
               ws + sg + px + length ds))"

subsection \<open>Parsing and pushing\<close>

text \<open>
  color_parse writes the channels it is given even when it fails: alpha before any test. The
  string is not empty, which the caller has tested.
\<close>

definition color_parse :: "string \<Rightarrow> color \<Rightarrow> bool \<times> color" where
  "color_parse colstr c =
     (let len = length colstr;
          c = c\<lparr>alpha := 0xff\<rparr>;
          (colnum, n) = strtoul16 (tl colstr);
          p = 1 + n;
          long = (len = 9 \<and> p = 9);
          c = (if long then c\<lparr>alpha := ucast (colnum AND 0xff)\<rparr> else c);
          colnum = (if long then drop_bit 8 colnum else colnum);
          len = (if long then len - 2 else len);
          p = (if long then p - 2 else p)
      in if len \<noteq> 7 \<or> hd colstr \<noteq> CHR ''#'' \<or> p \<noteq> 7 then (False, c)
         else (True, c\<lparr>red := ucast (drop_bit 16 colnum AND 0xff),
                       green := ucast (drop_bit 8 colnum AND 0xff),
                       blue := ucast (colnum AND 0xff)\<rparr>))"

definition color_init_from_string :: "color \<Rightarrow> string option \<Rightarrow> bool \<times> color" where
  "color_init_from_string c colstr =
     (case colstr of
        None \<Rightarrow> (False, c)
      | Some s \<Rightarrow>
          if s = [] then (False, c)
          else (let (ok, c) = color_parse s c in
                if ok then (True, c\<lparr>initialized := True\<rparr>) else (False, c)))"

definition color_to_uint32 :: "color \<Rightarrow> u32" where
  "color_to_uint32 c =
     push_bit 24 (ucast (alpha c)) OR push_bit 16 (ucast (red c)) OR push_bit 8 (ucast (green c)) OR
     ucast (blue c)"

text \<open>The conversion "%02x" of a byte.\<close>

definition hex_digit :: "nat \<Rightarrow> char" where
  "hex_digit n = ''0123456789abcdef'' ! n"

definition hex2 :: "u8 \<Rightarrow> string" where
  "hex2 b = [hex_digit (unat b div 16), hex_digit (unat b mod 16)]"

definition luaA_pushcolor :: "color option \<Rightarrow> lval" where
  "luaA_pushcolor c =
     (case c of
        None \<Rightarrow> LNil
      | Some c \<Rightarrow>
          if \<not> initialized c then LNil
          else if 0xff \<le> alpha c then LStr (''#'' @ hex2 (red c) @ hex2 (green c) @ hex2 (blue c))
          else LStr (''#'' @ hex2 (red c) @ hex2 (green c) @ hex2 (blue c) @ hex2 (alpha c)))"

definition luaA_tocolor :: "(lval \<Rightarrow> string option) \<Rightarrow> lval \<Rightarrow> color \<Rightarrow> bool \<times> color" where
  "luaA_tocolor lua_tostring v c =
     (case lua_tostring v of
        None \<Rightarrow> (False, c)
      | Some s \<Rightarrow> color_init_from_string c (Some s))"

subsection \<open>The hexadecimal text of a byte\<close>

lemma less_16: "n < 16 \<Longrightarrow> n \<in> {0, 1, 2, 3, 4, 5, 6, 7, 8, 9, 10, 11, 12, 13, 14, 15}" for n :: nat
  unfolding insert_iff empty_iff by presburger

lemma hex_digit_val: "n < 16 \<Longrightarrow> hex_val (hex_digit n) = Some n"
  by (drule less_16) (auto simp: hex_digit_def hex_val_def)

lemma hex_digit_plain:
  assumes "n < 16"
  shows "\<not> is_space (hex_digit n)" "hex_digit n \<noteq> CHR ''+''" "hex_digit n \<noteq> CHR ''-''"
    "hex_digit n \<noteq> CHR ''x''" "hex_digit n \<noteq> CHR ''X''"
  using less_16 [OF assms] by (auto simp: hex_digit_def is_space_def)

lemma unat_u8: "unat (b :: u8) < 256"
proof -
  have "unat b < 2 ^ LENGTH(8)" by (rule unsigned_less)
  then show ?thesis by simp
qed

lemma unat_u8_digits: "unat (b :: u8) div 16 < 16" "unat b mod 16 < 16"
using unat_u8 [of b] by simp_all

lemma hex_number_hex2: "hex_number a (hex2 b @ s) = hex_number (a * 256 + unat b) s"
proof -
  have "(a * 16 + q) * 16 + r = a * 256 + (q * 16 + r)" for q r :: nat by simp
  then have "(a * 16 + unat b div 16) * 16 + unat b mod 16 = a * 256 + unat b"
    by (simp only: div_mult_mod_eq)
  then show ?thesis by (simp add: hex_number_def hex2_def hex_digit_val unat_u8_digits ac_simps)
qed

lemma is_hex_hex2: "\<forall>c\<in>set (hex2 b). is_hex c"
  by (simp add: hex2_def is_hex_def hex_digit_val unat_u8_digits)

text \<open>strtoul on the digits of bytes reads them all.\<close>

lemma strtoul16_hex2:
  assumes "s = hex2 b @ t" and "\<forall>c\<in>set t. is_hex c" and "hex_number 0 s < 2 ^ 64"
  shows "strtoul16 s = (of_nat (hex_number 0 s), length s)"
proof -
  have h: "\<forall>c\<in>set s. is_hex c" using assms(1,2) is_hex_hex2 by auto
  obtain x y r where s: "s = x # y # r" "\<not> is_space x" "x \<noteq> CHR ''+''" "x \<noteq> CHR ''-''"
      "y \<noteq> CHR ''x''" "y \<noteq> CHR ''X''"
    using assms(1) hex_digit_plain unat_u8_digits by (auto simp: hex2_def)
  then have "\<not> has_0x s" by (auto simp: has_0x_def split: list.split)
  moreover have "takeWhile is_hex s = s" using h by (auto simp: takeWhile_eq_all_conv)
  moreover have "takeWhile is_space s = []" using s by simp
  ultimately show ?thesis using s assms(3) by (simp add: strtoul16_def)
qed

text \<open>A byte of a number.\<close>

lemma bit_of_nat_u64:
  assumes "v < 2 ^ 64" shows "bit (of_nat v :: u64) i = bit v i"
proof (cases "i < 64")
  case False
  then have "v < 2 ^ i" using assms power_increasing [of 64 i "2 :: nat"] by simp
  then have "\<not> bit v i" by (simp add: bit_iff_odd)
  then show ?thesis by (simp add: bit_simps)
qed (simp add: bit_simps)

lemma byte_of_number:
  assumes "v < 2 ^ 64" and "(v div 2 ^ n) mod 256 = unat (b :: u8)"
  shows "ucast (drop_bit n (of_nat v :: u64) AND 0xff) = b"
proof -
  have m: "(0xff :: u64) = mask 8" by (simp add: mask_eq_exp_minus_1)
  have "ucast (drop_bit n (of_nat v :: u64) AND 0xff) = (of_nat (v div 2 ^ n) :: u8)"
  proof (rule bit_word_eqI)
    fix i :: nat
    assume "i < LENGTH(8)"
    moreover have "bit (of_nat v :: u64) (n + i) = bit v (n + i)"
      by (rule bit_of_nat_u64 [OF assms(1)])
    ultimately show "bit (ucast (drop_bit n (of_nat v :: u64) AND 0xff) :: u8) i =
        bit (of_nat (v div 2 ^ n) :: u8) i"
      by (simp add: m bit_simps flip: drop_bit_eq_div)
  qed
  also have "\<dots> = of_nat (v div 2 ^ n mod 256)"
    by (simp add: word_of_nat_eq_iff take_bit_eq_mod)
  finally show ?thesis using assms(2) by simp
qed

lemma drop_bit_of_nat_u64:
  assumes "v < 2 ^ 64" shows "drop_bit n (of_nat v :: u64) = of_nat (v div 2 ^ n)"
proof (rule bit_word_eqI)
  fix i :: nat
  assume "i < LENGTH(64)"
  then show "bit (drop_bit n (of_nat v :: u64)) i = bit (of_nat (v div 2 ^ n) :: u64) i"
    using bit_of_nat_u64 [OF assms, of "n + i"] by (simp add: bit_simps flip: drop_bit_eq_div)
qed

lemma hex2_length [simp]: "length (hex2 b) = 2"
  by (simp add: hex2_def)

subsection \<open>Round trip\<close>

lemma color_bytes:
  fixes r g b :: u8
  defines "v \<equiv> (unat r * 256 + unat g) * 256 + unat b"
  shows "v < 2 ^ 64" and "v div 2 ^ 16 mod 256 = unat r" and "v div 2 ^ 8 mod 256 = unat g"
    and "v mod 256 = unat b"
proof -
  have l: "unat r < 256" "unat g < 256" "unat b < 256"
    by (rule unat_u8)+
  show "v < 2 ^ 64" using l by (simp add: v_def)
  have d: "v div 256 = unat r * 256 + unat g" using l by (simp add: v_def)
  then have "v div 256 div 256 = unat r" using l by simp
  then show "v div 2 ^ 16 mod 256 = unat r" using l by (simp add: div_mult2_eq [of v 256 256, simplified])
  show "v div 2 ^ 8 mod 256 = unat g" using d l by simp
  show "v mod 256 = unat b" unfolding v_def mod_mult_self3 using l by simp
qed

lemma pushcolor_parses:
  assumes "luaA_pushcolor (Some c) = LStr s"
  shows "color_init_from_string c0 (Some s) = (True, c)"
proof -
  have i: "initialized c" using assms by (simp add: luaA_pushcolor_def split: if_splits)
  let ?v = "(unat (red c) * 256 + unat (green c)) * 256 + unat (blue c)"
  note v = color_bytes [of "red c" "green c" "blue c"]
  show ?thesis
  proof (cases "0xff \<le> alpha c")
    case True
    have a: "alpha c = 0xff"
      using True unat_u8 [of "alpha c"] by (simp add: word_le_nat_alt word_unat_eq_iff)
    define t where "t = hex2 (red c) @ hex2 (green c) @ hex2 (blue c)"
    have s: "s = CHR ''#'' # t" using assms i True by (simp add: luaA_pushcolor_def t_def)
    have n: "hex_number 0 t = ?v"
      using hex_number_hex2 [of _ "blue c" "[]"] by (simp add: t_def hex_number_hex2) (simp add: hex_number_def)
    have "strtoul16 t = (of_nat ?v, 6)"
      using strtoul16_hex2 [of t "red c" "hex2 (green c) @ hex2 (blue c)"] is_hex_hex2 v(1) n
      by (auto simp: t_def)
    then show ?thesis using s v byte_of_number [of ?v 16] byte_of_number [of ?v 8] byte_of_number [of ?v 0]
      by (simp add: color_init_from_string_def color_parse_def i a t_def)
  next
    case False
    define t where "t = hex2 (red c) @ hex2 (green c) @ hex2 (blue c) @ hex2 (alpha c)"
    have s: "s = CHR ''#'' # t" using assms i False by (simp add: luaA_pushcolor_def t_def)
    let ?w = "?v * 256 + unat (alpha c)"
    have la: "unat (alpha c) < 256" by (rule unat_u8)
    have n: "hex_number 0 t = ?w"
      using hex_number_hex2 [of _ "alpha c" "[]"]
      by (simp add: t_def hex_number_hex2) (simp add: hex_number_def)
    have w1: "?w < 2 ^ 64" "?w div 2 ^ 8 = ?v"
      using la unat_u8 [of "red c"] unat_u8 [of "green c"] unat_u8 [of "blue c"] by simp_all
    have w2: "?w mod 256 = unat (alpha c)" unfolding mod_mult_self3 using la by simp
    note w = w1 w2
    have "strtoul16 t = (of_nat ?w, 8)"
      using strtoul16_hex2 [of t "red c" "hex2 (green c) @ hex2 (blue c) @ hex2 (alpha c)"]
        is_hex_hex2 w(1) n
      by (auto simp: t_def)
    moreover have "drop_bit 8 (of_nat ?w :: u64) = of_nat ?v"
      unfolding drop_bit_of_nat_u64 [OF w1(1)] w1(2) ..
    ultimately show ?thesis
      using s v byte_of_number [of ?v 16] byte_of_number [of ?v 8] byte_of_number [of ?v 0]
        byte_of_number [of ?w 0 "alpha c"] w
      by (simp add: color_init_from_string_def color_parse_def i t_def)
  qed
qed

text \<open>Only the four channels tell two pushed colours apart in the frame.\<close>

lemma bit_color_uint32:
  "bit (color_to_uint32 c) i \<longleftrightarrow>
     (if i < 8 then bit (blue c) i else if i < 16 then bit (green c) (i - 8)
      else if i < 24 then bit (red c) (i - 16) else i < 32 \<and> bit (alpha c) (i - 24))"
  by (auto simp: color_to_uint32_def bit_simps dest: bit_imp_le_length)

lemma color_to_uint32_eq:
  "color_to_uint32 a = color_to_uint32 b \<longleftrightarrow>
     red a = red b \<and> green a = green b \<and> blue a = blue b \<and> alpha a = alpha b"
proof
  assume eq: "color_to_uint32 a = color_to_uint32 b"
  have bits: "bit (color_to_uint32 a) i = bit (color_to_uint32 b) i" for i by (simp add: eq)
  have "blue a = blue b"
  proof (rule bit_word_eqI)
    fix i :: nat assume "i < LENGTH(8)"
    then show "bit (blue a) i = bit (blue b) i" using bits [of i] by (simp add: bit_color_uint32)
  qed
  moreover have "green a = green b"
  proof (rule bit_word_eqI)
    fix i :: nat assume "i < LENGTH(8)"
    then show "bit (green a) i = bit (green b) i" using bits [of "i + 8"] by (simp add: bit_color_uint32)
  qed
  moreover have "red a = red b"
  proof (rule bit_word_eqI)
    fix i :: nat assume "i < LENGTH(8)"
    then show "bit (red a) i = bit (red b) i" using bits [of "i + 16"] by (simp add: bit_color_uint32)
  qed
  moreover have "alpha a = alpha b"
  proof (rule bit_word_eqI)
    fix i :: nat assume "i < LENGTH(8)"
    then show "bit (alpha a) i = bit (alpha b) i" using bits [of "i + 24"] by (simp add: bit_color_uint32)
  qed
  ultimately show "red a = red b \<and> green a = green b \<and> blue a = blue b \<and> alpha a = alpha b" by simp
qed (simp add: color_to_uint32_def)

text \<open>
  A colour that was set reads back as it was: the string an initialised colour is pushed as
  is accepted, with or without an alpha channel, and gives exactly that colour, whatever was
  there before; the packed form tells any two such colours apart.
\<close>
theorem color_roundtrip:
  assumes "initialized c" and "\<And>s. tostring (LStr s) = Some s"
  shows "luaA_tocolor tostring (luaA_pushcolor (Some c)) c0 = (True, c) \<and>
    (\<forall>d. initialized d \<longrightarrow> color_to_uint32 c = color_to_uint32 d \<longrightarrow> c = d)"
proof -
  obtain s where "luaA_pushcolor (Some c) = LStr s" using assms(1) by (cases "0xff \<le> alpha c") (auto simp: luaA_pushcolor_def)
  then have "luaA_tocolor tostring (luaA_pushcolor (Some c)) c0 = (True, c)"
    using pushcolor_parses [of c s c0] assms(2) by (simp add: luaA_tocolor_def)
  then show ?thesis using assms(1) by (auto simp: color_to_uint32_eq)
qed

definition lua_string_of :: "lval \<Rightarrow> string option" where
  "lua_string_of v = (case v of LStr s \<Rightarrow> Some s | _ \<Rightarrow> None)"

lemma color_roundtrip_witness:
  "luaA_tocolor lua_string_of (luaA_pushcolor (Some
     \<lparr>red = 0x12, green = 0xab, blue = 0, alpha = 0x80, initialized = True\<rparr>)) black0 =
   (True, \<lparr>red = 0x12, green = 0xab, blue = 0, alpha = 0x80, initialized = True\<rparr>)"
  using color_roundtrip [of "\<lparr>red = 0x12, green = 0xab, blue = 0, alpha = 0x80, initialized = True\<rparr>"
      lua_string_of black0]
  by (simp add: lua_string_of_def)

text \<open>
  What a colour string does beyond its documented forms, for every colour it is read into:
  the short form #RGB of color.h is refused, a refused string still makes the colour opaque,
  and strings that are not six digits are accepted where strtoul takes their sign or prefix.
\<close>
theorem color_strings_beyond_doc:
  "color_init_from_string c (Some ''#fff'') = (False, c\<lparr>alpha := 0xff\<rparr>) \<and>
   color_init_from_string c (Some ''red'') = (False, c\<lparr>alpha := 0xff\<rparr>) \<and>
   color_init_from_string c (Some ''#0x1234'') =
     (True, c\<lparr>red := 0, green := 0x12, blue := 0x34, alpha := 0xff, initialized := True\<rparr>) \<and>
   color_init_from_string c (Some ''#-00001'') =
     (True, c\<lparr>red := 0xff, green := 0xff, blue := 0xff, alpha := 0xff, initialized := True\<rparr>)"
  by (simp add: color_init_from_string_def color_parse_def strtoul16_def is_space_def is_hex_def
      hex_val_def hex_number_def has_0x_def mask_eq_exp_minus_1)

end
