(* ===== verification/Input.thy ===== *)
theory Input
  imports Focus Geometry Color
begin

unbundle bit_operations_syntax

text \<open>
  Keys and buttons: the modifier names of objects/key.c and objects/button.c, the key string of
  a key object, the bindings of objects/keybinding.c, the keyboard handlers keybinding,
  keypress and keyrepeat of input.c, and the grab of keygrabber.c. What xkbcommon makes of a
  key is part of the event; strings and symbols it converts are parameters. The lemmas show how
  modifiers survive the way through Lua, which binding a key reaches, and that a locked session
  runs none.
\<close>

subsection \<open>Modifiers in objects/key.c\<close>

definition key_mod_names :: "(string \<times> u16) list" where
  "key_mod_names =
     [(''Shift'', 1), (''Lock'', 2), (''Control'', 4), (''Ctrl'', 4), (''Mod1'', 8), (''Mod2'', 16),
      (''Mod3'', 32), (''Mod4'', 64), (''Mod5'', 128), (''Any'', 0xFFFF)]"

definition key_parse_modifier :: "string \<Rightarrow> u16" where
  "key_parse_modifier m = (case map_of key_mod_names m of Some b \<Rightarrow> b | None \<Rightarrow> 0)"

text \<open>
  lua_isstring and lua_tostring. They take numbers too, but the string of a number names no
  modifier, so a number counts as no string here.
\<close>

fun lua_text :: "lval \<Rightarrow> string option" where
  "lua_text (LStr s) = Some s"
| "lua_text v = None"

text \<open>The values of the table in the order lua_next visits them.\<close>

definition key_tomodifiers :: "lval list \<Rightarrow> u16" where
  "key_tomodifiers vs =
     fold (\<lambda>v mods. case lua_text v of Some s \<Rightarrow> mods OR key_parse_modifier s | None \<Rightarrow> mods) vs 0"

definition key_pushmodifiers :: "u16 \<Rightarrow> lval list" where
  "key_pushmodifiers mods =
     map (LStr \<circ> fst) (filter (\<lambda>(name, b). b \<noteq> 0xFFFF \<and> mods AND b \<noteq> 0) key_mod_names)"

subsection \<open>Modifiers in objects/button.c\<close>

definition to_lower :: "char \<Rightarrow> char" where
  "to_lower c =
     (let n = of_char c :: nat in if 65 \<le> n \<and> n \<le> 90 then char_of (n + 32) else c)"

definition strcasecmp_eq :: "string \<Rightarrow> string \<Rightarrow> bool" where
  "strcasecmp_eq a b \<longleftrightarrow> map to_lower a = map to_lower b"

abbreviation (input) BUTTON_MODIFIER_ANY :: u16 where "BUTTON_MODIFIER_ANY \<equiv> 0xFFFF"

definition button_parse_modifier :: "string \<Rightarrow> u16" where
  "button_parse_modifier m =
     (if strcasecmp_eq m ''Shift'' then 1
      else if strcasecmp_eq m ''Lock'' then 2
      else if strcasecmp_eq m ''Control'' \<or> strcasecmp_eq m ''Ctrl'' then 4
      else if strcasecmp_eq m ''Mod1'' \<or> strcasecmp_eq m ''Alt'' then 8
      else if strcasecmp_eq m ''Mod4'' \<or> strcasecmp_eq m ''Super'' then 64
      else if strcasecmp_eq m ''Mod2'' then 16
      else if strcasecmp_eq m ''Mod3'' then 32
      else if strcasecmp_eq m ''Mod5'' then 128
      else if strcasecmp_eq m ''Any'' then BUTTON_MODIFIER_ANY
      else 0)"

definition button_pushmodifiers :: "u32 \<Rightarrow> lval list" where
  "button_pushmodifiers mods =
     map (LStr \<circ> fst) (filter (\<lambda>(name, b). mods AND b \<noteq> 0)
       [(''Shift'', 1), (''Lock'', 2), (''Control'', 4), (''Mod1'', 8), (''Mod4'', 64), (''Mod2'', 16),
        (''Mod3'', 32), (''Mod5'', 128)])"

text \<open>None is a value that is no table: no modifiers.\<close>

definition button_tomodifiers :: "lval list option \<Rightarrow> u16" where
  "button_tomodifiers t =
     (case t of
        None \<Rightarrow> 0
      | Some vs \<Rightarrow>
          fold (\<lambda>v mods. case lua_text v of Some s \<Rightarrow> mods OR button_parse_modifier s | None \<Rightarrow> mods) vs 0)"

subsection \<open>The key of a key object\<close>

text \<open>atoi of the C library; an overflow is undefined there.\<close>

definition is_digit :: "char \<Rightarrow> bool" where
  "is_digit c \<longleftrightarrow> 48 \<le> (of_char c :: nat) \<and> (of_char c :: nat) \<le> 57"

fun digits_val :: "int \<Rightarrow> string \<Rightarrow> int" where
  "digits_val n [] = n"
| "digits_val n (c # cs) = (if is_digit c then digits_val (n * 10 + int (of_char c) - 48) cs else n)"

definition atoi :: "string \<Rightarrow> int" where
  "atoi s =
     (case dropWhile is_space s of
        [] \<Rightarrow> 0
      | c # cs \<Rightarrow>
          if c = CHR ''-'' then - digits_val 0 cs
          else if c = CHR ''+'' then digits_val 0 cs
          else digits_val 0 (c # cs))"

text \<open>
  What GLib and xkbcommon tell of a string: whether it is UTF-8, the keysym it names, and the
  keysym of the one character it composes to; 0 is XKB_KEY_NoSymbol. name_of_keysym is None on
  an error.
\<close>

record key_lib =
  utf8_validate :: "string \<Rightarrow> bool"
  keysym_from_name :: "string \<Rightarrow> u32"
  composed_keysym :: "string \<Rightarrow> u32"
  name_of_keysym :: "u32 \<Rightarrow> string option"

definition upd_keyb :: "nat \<Rightarrow> (keyb \<Rightarrow> keyb) \<Rightarrow> world \<Rightarrow> world" where
  "upd_keyb k f w = w\<lparr>keyb_at := (keyb_at w)(k := f (keyb_at w k))\<rparr>"

text \<open>Warnings go to stderr and are left out.\<close>

definition luaA_keystore :: "key_lib \<Rightarrow> env \<Rightarrow> nat \<Rightarrow> string \<Rightarrow> world \<Rightarrow> world" where
  "luaA_keystore X env k str w =
     (if str = [] then w
      else if \<not> utf8_validate X str then upd_keyb k (\<lambda>x. x\<lparr>k_keycode := 0, k_keysym := 0\<rparr>) w
      else if length str = 1 then
        emit env k ''property::key'' []
          (upd_keyb k (\<lambda>x. x\<lparr>k_keycode := 0, k_keysym := of_char (hd str)\<rparr>) w)
      else if hd str = CHR ''#'' then
        emit env k ''property::key'' []
          (upd_keyb k (\<lambda>x. x\<lparr>k_keycode := of_int (atoi (tl str)), k_keysym := 0\<rparr>) w)
      else
        (let ks = keysym_from_name X str;
             ks = (if ks = 0 then composed_keysym X str else ks);
             w = upd_keyb k (\<lambda>x. x\<lparr>k_keycode := 0, k_keysym := ks\<rparr>) w
         in if ks = 0 then w else emit env k ''property::key'' [] w))"

text \<open>A value that is no table is a Lua error, None.\<close>

definition luaA_key_set_modifiers :: "env \<Rightarrow> nat \<Rightarrow> lval list option \<Rightarrow> world \<Rightarrow> world option" where
  "luaA_key_set_modifiers env k t w =
     map_option (\<lambda>vs. emit env k ''property::modifiers'' []
         (upd_keyb k (\<lambda>x. x\<lparr>k_modifiers := key_tomodifiers vs\<rparr>) w)) t"

fun decimal :: "nat \<Rightarrow> string" where
  "decimal n = (if n < 10 then [char_of (48 + n)] else decimal (n div 10) @ [char_of (48 + n mod 10)])"

declare decimal.simps [simp del]

text \<open>None is nothing pushed.\<close>

definition luaA_key_get_key :: "key_lib \<Rightarrow> nat \<Rightarrow> world \<Rightarrow> string option" where
  "luaA_key_get_key X k w =
     (if k_keycode (keyb_at w k) \<noteq> 0 then Some (CHR ''#'' # decimal (unat (k_keycode (keyb_at w k))))
      else name_of_keysym X (k_keysym (keyb_at w k)))"

subsection \<open>Bindings\<close>

abbreviation (input) WLR_MODIFIER_SHIFT :: u32 where "WLR_MODIFIER_SHIFT \<equiv> 1"
abbreviation (input) WLR_MODIFIER_CAPS :: u32 where "WLR_MODIFIER_CAPS \<equiv> 2"
abbreviation (input) WLR_MODIFIER_CTRL :: u32 where "WLR_MODIFIER_CTRL \<equiv> 4"
abbreviation (input) WLR_MODIFIER_ALT :: u32 where "WLR_MODIFIER_ALT \<equiv> 8"
abbreviation (input) WLR_MODIFIER_MOD2 :: u32 where "WLR_MODIFIER_MOD2 \<equiv> 16"
abbreviation (input) XKB_KEY_Terminate_Server :: u32 where "XKB_KEY_Terminate_Server \<equiv> 0xfed5"
abbreviation (input) XKB_KEY_XF86Switch_VT_1 :: u32 where "XKB_KEY_XF86Switch_VT_1 \<equiv> 0x1008fe01"
abbreviation (input) XKB_KEY_XF86Switch_VT_12 :: u32 where "XKB_KEY_XF86Switch_VT_12 \<equiv> 0x1008fe0c"

definition CLEANMASK :: "u32 \<Rightarrow> u32" where
  "CLEANMASK m = m AND NOT WLR_MODIFIER_CAPS AND NOT WLR_MODIFIER_MOD2"

text \<open>The test both loops make; lower is xkb_keysym_to_lower of the base keysym.\<close>

definition key_matches :: "u32 \<Rightarrow> u32 \<Rightarrow> u32 \<Rightarrow> keyb \<Rightarrow> bool" where
  "key_matches mods keycode lower k \<longleftrightarrow>
     ucast (k_modifiers k) = mods \<and>
     (k_keycode k \<noteq> 0 \<and> k_keycode k = keycode \<or> k_keysym k \<noteq> 0 \<and> k_keysym k = lower)"

definition press_signal :: "bool \<Rightarrow> string" where
  "press_signal is_keypress = (if is_keypress then ''press'' else ''release'')"

definition luaA_key_check_and_emit ::
  "env \<Rightarrow> (u32 \<Rightarrow> u32) \<Rightarrow> u32 \<Rightarrow> u32 \<Rightarrow> u32 \<Rightarrow> bool \<Rightarrow> world \<Rightarrow> bool \<times> world" where
  "luaA_key_check_and_emit env to_lower_sym mods keycode base_sym is_keypress w =
     (case find (\<lambda>k. key_matches mods keycode (to_lower_sym base_sym) (keyb_at w k)) (keys w) of
        None \<Rightarrow> (False, w)
      | Some k \<Rightarrow> (True, emit env k (press_signal is_keypress) [] w))"

text \<open>The keys of a client may hold NULL, which is skipped.\<close>

definition luaA_client_key_check_and_emit ::
  "env \<Rightarrow> (u32 \<Rightarrow> u32) \<Rightarrow> nat \<Rightarrow> u32 \<Rightarrow> u32 \<Rightarrow> u32 \<Rightarrow> bool \<Rightarrow> world \<Rightarrow> bool \<times> world" where
  "luaA_client_key_check_and_emit env to_lower_sym c mods keycode base_sym is_keypress w =
     (case find (\<lambda>k. k \<noteq> None \<and> key_matches mods keycode (to_lower_sym base_sym) (keyb_at w (the k)))
             (c_keys (cl w c)) of
        Some (Some k) \<Rightarrow> (True, emit env k (press_signal is_keypress) [LUser c] w)
      | _ \<Rightarrow> (False, w))"

text \<open>keybinding of input.c: the client with the keyboard, then the global keys, then the VT keys.\<close>

definition vt_keys :: "env \<Rightarrow> u32 \<Rightarrow> u32 \<Rightarrow> world \<Rightarrow> bool \<times> world" where
  "vt_keys env mods ks w =
     (if CLEANMASK mods = WLR_MODIFIER_CTRL OR WLR_MODIFIER_ALT then
        (if ks = XKB_KEY_Terminate_Server then
           (if session_locked w then (True, w)
            else (True, call_env env (Native ''some_compositor_quit'' []) w))
         else if XKB_KEY_XF86Switch_VT_1 \<le> ks \<and> ks \<le> XKB_KEY_XF86Switch_VT_12 then
           (if session_locked w then (True, w)
            else (True, call_env env (Native ''wlr_session_change_vt''
                          [LInt (uint (ks - XKB_KEY_XF86Switch_VT_1 + 1))]) w))
         else (False, w))
      else (False, w))"

definition keybinding ::
  "env \<Rightarrow> (u32 \<Rightarrow> u32) \<Rightarrow> u32 \<Rightarrow> u32 \<Rightarrow> u32 \<Rightarrow> u32 \<Rightarrow> bool \<Rightarrow> world \<Rightarrow> bool \<times> world" where
  "keybinding env to_lower_sym mods keycode ks base_sym is_keypress w =
     (let focused = some_client_from_surface (seat_focus w) w;
          (handled, w) =
            (case focused of
               None \<Rightarrow> (False, w)
             | Some c \<Rightarrow> luaA_client_key_check_and_emit env to_lower_sym c (CLEANMASK mods) keycode
                           base_sym is_keypress w)
      in if handled then (True, w)
         else
           (let (handled, w) = luaA_key_check_and_emit env to_lower_sym (CLEANMASK mods) keycode
                  base_sym is_keypress w
            in if handled then (True, w) else vt_keys env mods ks w))"

subsection \<open>The grab of the keyboard\<close>

text \<open>keygrabber.c. A Lua error is None. The function a grab registers has been checked.\<close>

definition luaA_keygrabber_run :: "bool \<Rightarrow> world \<Rightarrow> world option" where
  "luaA_keygrabber_run is_function w =
     (if keygrabber w \<or> \<not> is_function then None else Some (w\<lparr>keygrabber := True\<rparr>))"

definition luaA_keygrabber_stop :: "world \<Rightarrow> world" where
  "luaA_keygrabber_stop w = w\<lparr>keygrabber := False\<rparr>"

definition keygrabber_hot_reload :: "world \<Rightarrow> world" where
  "keygrabber_hot_reload w = w\<lparr>keygrabber := False\<rparr>"

definition some_keygrabber_is_running :: "world \<Rightarrow> bool" where
  "some_keygrabber_is_running w \<longleftrightarrow> keygrabber w"

text \<open>
  A key event as the keyboard and xkbcommon report it: the code of libinput, the symbols of the
  key, the symbol at the current level and those at the first one, the active modifiers, the
  UTF-8 text and the name of the symbol. ev_xkb_mods are the effective modifiers of xkbcommon,
  callback_ok whether the grabber's function returns without an error.
\<close>

record key_event =
  ev_keycode :: u32
  ev_pressed :: bool
  ev_syms :: "u32 list"
  ev_one_sym :: u32
  ev_base_syms :: "u32 list"
  ev_mods :: u32
  ev_xkb_mods :: u32
  ev_utf8 :: string
  ev_sym_name :: string
  callback_ok :: "world \<Rightarrow> bool"

definition is_control :: "string \<Rightarrow> bool" where
  "is_control buf \<longleftrightarrow>
     (let c = (case buf of [] \<Rightarrow> 0 | c # cs \<Rightarrow> of_char c) :: nat in c < 0x20 \<or> c = 0x7f)"

definition key_to_text :: "key_event \<Rightarrow> string" where
  "key_to_text ev = (if ev_utf8 ev = [] \<or> is_control (ev_utf8 ev) then ev_sym_name ev else ev_utf8 ev)"

text \<open>The modifiers of the pushed table come first among the arguments.\<close>

definition keygrabber_handlekpress :: "key_event \<Rightarrow> lval list" where
  "keygrabber_handlekpress ev =
     key_pushmodifiers (ucast (ev_xkb_mods ev)) @
     [LStr (key_to_text ev), LStr (press_signal (ev_pressed ev))]"

definition some_keygrabber_handle_key :: "env \<Rightarrow> key_event \<Rightarrow> world \<Rightarrow> bool \<times> world" where
  "some_keygrabber_handle_key env ev w =
     (if \<not> keygrabber w then (False, w)
      else (callback_ok ev w, call_env env (Native ''keygrabber_callback'' (keygrabber_handlekpress ev)) w))"

subsection \<open>The keyboard handlers\<close>

text \<open>KeyboardGroup: what it repeats, the settings of the keyboard, and the delay its timer was
  last set to, 0 when disarmed.\<close>

record kb_group =
  g_mods :: u32
  g_keycode :: u32
  g_syms :: "u32 list"
  g_nsyms :: nat
  g_base_sym :: u32
  g_delay :: int
  g_rate :: int
  g_timer :: int

definition base_symbol :: "key_event \<Rightarrow> u32" where
  "base_symbol ev =
     (if ev_mods ev AND (WLR_MODIFIER_SHIFT OR WLR_MODIFIER_CAPS) \<noteq> 0 \<and> ev_base_syms ev \<noteq> []
      then hd (ev_base_syms ev) else ev_one_sym ev)"

text \<open>The loop over the symbols of the key; releases never count as handled.\<close>

fun bind_syms ::
  "env \<Rightarrow> (u32 \<Rightarrow> u32) \<Rightarrow> u32 \<Rightarrow> u32 \<Rightarrow> u32 \<Rightarrow> bool \<Rightarrow> u32 list \<Rightarrow> bool \<Rightarrow> world \<Rightarrow> bool \<times> world" where
  "bind_syms env lower mods keycode base_sym is_keypress [] handled w = (handled, w)"
| "bind_syms env lower mods keycode base_sym is_keypress (ks # syms) handled w =
     (let (h, w) = keybinding env lower mods keycode ks base_sym is_keypress w
      in bind_syms env lower mods keycode base_sym is_keypress syms
           (if is_keypress then h \<or> handled else handled) w)"

definition keypress ::
  "env \<Rightarrow> (u32 \<Rightarrow> u32) \<Rightarrow> key_event \<Rightarrow> kb_group \<Rightarrow> world \<Rightarrow> kb_group \<times> world" where
  "keypress env lower ev g w =
     (let keycode = ev_keycode ev + 8;
          base_sym = base_symbol ev;
          w = call_env env (Native ''notify_activity'' []) w;
          (grabbed, w) = (if \<not> ext_locked w \<and> some_keygrabber_is_running w
                          then some_keygrabber_handle_key env ev w else (False, w))
      in if grabbed then (if ev_pressed ev then g\<lparr>g_nsyms := 0, g_timer := 0\<rparr> else g, w)
         else
           (let (handled, w) = (if \<not> session_locked w
                  then bind_syms env lower (ev_mods ev) keycode base_sym (ev_pressed ev) (ev_syms ev) False w
                  else (False, w));
                g = (if handled \<and> g_delay g > 0
                     then g\<lparr>g_mods := ev_mods ev, g_keycode := keycode, g_syms := ev_syms ev,
                            g_nsyms := length (ev_syms ev), g_base_sym := base_sym, g_timer := g_delay g\<rparr>
                     else g\<lparr>g_nsyms := 0, g_timer := 0\<rparr>)
            in if handled \<or> lua_locked w then (g, w)
               else (g, call_env env (Native ''wlr_seat_keyboard_notify_key''
                          [LInt (uint (ev_keycode ev)), LBool (ev_pressed ev)])
                        (call_env env (Native ''wlr_seat_set_keyboard'' []) w))))"

text \<open>keyrepeat, the handler of the timer.\<close>

definition keyrepeat :: "env \<Rightarrow> (u32 \<Rightarrow> u32) \<Rightarrow> kb_group \<Rightarrow> world \<Rightarrow> kb_group \<times> world" where
  "keyrepeat env lower g w =
     (if g_nsyms g = 0 \<or> g_rate g \<le> 0 then (g, w)
      else if session_locked w then (g\<lparr>g_nsyms := 0\<rparr>, w)
      else if \<not> ext_locked w \<and> some_keygrabber_is_running w then (g\<lparr>g_nsyms := 0\<rparr>, w)
      else (g\<lparr>g_timer := c_div 1000 (g_rate g)\<rparr>,
            snd (bind_syms env lower (g_mods g) (g_keycode g) (g_base_sym g) True
                   (take (g_nsyms g) (g_syms g)) False w)))"

subsection \<open>Modifiers through Lua\<close>

lemma bit_fold_or:
  "bit (fold (\<lambda>v m. case lua_text v of Some s \<Rightarrow> m OR f s | None \<Rightarrow> m) vs (m0 :: u16)) i \<longleftrightarrow>
     bit m0 i \<or> (\<exists>s. LStr s \<in> set vs \<and> bit (f s) i)"
proof (induction vs arbitrary: m0)
  case (Cons v vs)
  then show ?case by (cases v) (auto simp: bit_simps)
qed simp

lemma bit_key_tomodifiers:
  "bit (key_tomodifiers vs) i \<longleftrightarrow> (\<exists>s. LStr s \<in> set vs \<and> bit (key_parse_modifier s) i)"
  unfolding key_tomodifiers_def bit_fold_or by simp

lemma bit_button_tomodifiers:
  "bit (button_tomodifiers (Some vs)) i \<longleftrightarrow> (\<exists>s. LStr s \<in> set vs \<and> bit (button_parse_modifier s) i)"
  unfolding button_tomodifiers_def option.case bit_fold_or by simp

text \<open>A modifier is a single bit, so testing it is testing its bit.\<close>

lemma and_power_bit: "m AND 2 ^ n \<noteq> 0 \<longleftrightarrow> bit m n" for m :: "'a::len word"
  by (metis and_exp_eq_0_iff_not_bit)

lemma mod_bits:
  "m AND 1 \<noteq> 0 \<longleftrightarrow> bit m 0" "m AND 2 \<noteq> 0 \<longleftrightarrow> bit m 1" "m AND 4 \<noteq> 0 \<longleftrightarrow> bit m 2"
  "m AND 8 \<noteq> 0 \<longleftrightarrow> bit m 3" "m AND 16 \<noteq> 0 \<longleftrightarrow> bit m 4" "m AND 32 \<noteq> 0 \<longleftrightarrow> bit m 5"
  "m AND 64 \<noteq> 0 \<longleftrightarrow> bit m 6" "m AND 128 \<noteq> 0 \<longleftrightarrow> bit m 7" for m :: "'a::len word"
  using and_power_bit [of m 0] and_power_bit [of m 1] and_power_bit [of m 2] and_power_bit [of m 3]
    and_power_bit [of m 4] and_power_bit [of m 5] and_power_bit [of m 6] and_power_bit [of m 7]
  by simp_all

lemma less_8: "(i :: nat) < 8 \<longleftrightarrow> i = 0 \<or> i = 1 \<or> i = 2 \<or> i = 3 \<or> i = 4 \<or> i = 5 \<or> i = 6 \<or> i = 7"
  by auto

text \<open>Both pushers and parsers agree on a table of names and bit numbers.\<close>

lemma bit_named:
  fixes m :: "'a::len word"
  assumes "\<forall>(s, n) \<in> set tab. parse s = (2 ^ n :: u16) \<and> n < 16 \<and> n < LENGTH('a)"
  shows "(\<exists>s. LStr s \<in> set (map (LStr \<circ> fst) (filter (\<lambda>(s, n). m AND 2 ^ n \<noteq> 0) tab)) \<and> bit (parse s) i) \<longleftrightarrow>
    bit m i \<and> i \<in> snd ` set tab"
proof -
  have p: "\<And>s n. (s, n) \<in> set tab \<Longrightarrow> parse s = 2 ^ n \<and> n < 16" using assms by auto
  have "bit (2 ^ n :: u16) i \<longleftrightarrow> i = n" if "n < 16" for n
    using that by (auto simp: bit_exp_iff possible_bit_word)
  then show ?thesis using p by (force simp: and_power_bit)
qed

definition key_bits :: "(string \<times> nat) list" where
  "key_bits = [(''Shift'', 0), (''Lock'', 1), (''Control'', 2), (''Ctrl'', 2), (''Mod1'', 3), (''Mod2'', 4),
     (''Mod3'', 5), (''Mod4'', 6), (''Mod5'', 7)]"

definition button_bits :: "(string \<times> nat) list" where
  "button_bits = [(''Shift'', 0), (''Lock'', 1), (''Control'', 2), (''Mod1'', 3), (''Mod4'', 6),
     (''Mod2'', 4), (''Mod3'', 5), (''Mod5'', 7)]"

lemma bit_low_byte: "i < LENGTH('a) \<Longrightarrow> bit (m AND 0xFF) i \<longleftrightarrow> bit m i \<and> i < 8" for m :: "'a::len word"
proof -
  assume "i < LENGTH('a)"
  then have "bit (mask 8 :: 'a word) i \<longleftrightarrow> i < 8" by (simp add: bit_mask_iff possible_bit_word)
  then show ?thesis by (simp add: bit_and_iff mask_eq_exp_minus_1)
qed

lemma key_push_bits:
  "key_pushmodifiers m = map (LStr \<circ> fst) (filter (\<lambda>(s, n). m AND 2 ^ n \<noteq> 0) key_bits)"
  by (simp add: key_pushmodifiers_def key_mod_names_def key_bits_def)

lemma button_push_bits:
  "button_pushmodifiers m = map (LStr \<circ> fst) (filter (\<lambda>(s, n). m AND 2 ^ n \<noteq> 0)
     button_bits)"
  by (simp add: button_pushmodifiers_def button_bits_def)

lemma key_parse_bits: "\<forall>(s, n) \<in> set key_bits. key_parse_modifier s = 2 ^ n \<and> n < 16 \<and> n < LENGTH(16)"
  by (simp add: key_bits_def key_parse_modifier_def key_mod_names_def)

lemma button_parse_bits: "\<forall>(s, n) \<in> set button_bits.
    button_parse_modifier s = 2 ^ n \<and> n < 16 \<and> n < LENGTH(32)"
  by (simp add: button_bits_def button_parse_modifier_def strcasecmp_eq_def to_lower_def)

lemma in_bits: "i \<in> snd ` set key_bits \<longleftrightarrow> i < 8"
  "i \<in> snd ` set button_bits \<longleftrightarrow> i < 8" for i :: nat
  by (auto simp: key_bits_def button_bits_def less_8)

text \<open>
  Modifiers survive the way to Lua and back: the table a mask of modifiers is pushed as
  reads back as its eight modifier bits, for keys as for buttons. The value that stands for any
  modifiers does not survive; it reads back as all of them.
\<close>
theorem modifiers_roundtrip:
  "key_tomodifiers (key_pushmodifiers m) = m AND 0xFF \<and>
   button_tomodifiers (Some (button_pushmodifiers m')) = ucast (m' AND 0xFF) \<and>
   key_tomodifiers [LStr ''Any''] = 0xFFFF \<and> key_tomodifiers (key_pushmodifiers 0xFFFF) = 0xFF"
proof -
  have key: "key_tomodifiers (key_pushmodifiers m) = m AND 0xFF" for m
  proof (rule bit_word_eqI)
    fix i :: nat assume "i < LENGTH(16)"
    then show "bit (key_tomodifiers (key_pushmodifiers m)) i = bit (m AND 0xFF) i"
      unfolding bit_key_tomodifiers key_push_bits bit_named [OF key_parse_bits] in_bits
      by (simp only: bit_low_byte)
  qed
  have "button_tomodifiers (Some (button_pushmodifiers m')) = ucast (m' AND 0xFF)"
  proof (rule bit_word_eqI)
    fix i :: nat assume i: "i < LENGTH(16)"
    then have "bit (ucast (m' AND 0xFF) :: u16) i \<longleftrightarrow> bit (m' AND 0xFF) i" by (simp add: bit_ucast_iff)
    moreover have "bit (m' AND 0xFF) i \<longleftrightarrow> bit m' i \<and> i < 8" using i by (intro bit_low_byte) simp
    ultimately show "bit (button_tomodifiers (Some (button_pushmodifiers m'))) i = bit (ucast (m' AND 0xFF) :: u16) i"
      unfolding bit_button_tomodifiers button_push_bits bit_named [OF button_parse_bits] in_bits
      by (simp only:)
  qed
  moreover have "key_tomodifiers [LStr ''Any''] = 0xFFFF"
    by (simp add: key_tomodifiers_def key_parse_modifier_def key_mod_names_def)
  ultimately show ?thesis using key [of m] key [of "0xFFFF"] by simp
qed

subsection \<open>Which binding a key reaches\<close>

lemma cleanmask_bits: "\<not> bit (CLEANMASK m) 1" "\<not> bit (CLEANMASK m) 4" "16 \<le> i \<Longrightarrow> \<not> bit (ucast (k :: u16) :: u32) i"
proof -
  have b: "bit (2 :: u32) 1" "bit (16 :: u32) 4" by simp_all
  show "\<not> bit (CLEANMASK m) 1" "\<not> bit (CLEANMASK m) 4"
    using b by (simp_all only: CLEANMASK_def bit_and_iff bit_not_iff not_True_eq_False simp_thms)
  show "\<not> bit (ucast k :: u32) i" if "16 \<le> i" using that by (auto simp: bit_ucast_iff dest: bit_imp_le_length)
qed

text \<open>
  A binding whose modifiers name Any, Lock or Mod2 never fires: the mask of a key event has
  those bits removed before it is compared, and the comparison is for equality.
\<close>
theorem lock_modifiers_never_match:
  assumes "LStr name \<in> set vs" and "name \<in> {''Any'', ''Lock'', ''Mod2''}"
  shows "\<not> key_matches (CLEANMASK mods) keycode lower (k\<lparr>k_modifiers := key_tomodifiers vs\<rparr>)"
proof
  assume "key_matches (CLEANMASK mods) keycode lower (k\<lparr>k_modifiers := key_tomodifiers vs\<rparr>)"
  then have eq: "ucast (key_tomodifiers vs) = CLEANMASK mods" by (simp add: key_matches_def)
  have no: "\<not> bit (key_tomodifiers vs) 1" "\<not> bit (key_tomodifiers vs) 4"
    using cleanmask_bits(1,2) [of mods] unfolding eq [symmetric] by (simp_all add: bit_ucast_iff)
  have "bit (key_parse_modifier name) 1 \<or> bit (key_parse_modifier name) 4"
    using assms(2) by (auto simp: key_parse_modifier_def key_mod_names_def)
  then show False using no assms(1) by (auto simp: bit_key_tomodifiers)
qed

lemma lock_modifiers_never_match_witness:
  "\<not> key_matches (CLEANMASK 64) 10 0 (\<lparr>k_modifiers = key_tomodifiers [LStr ''Mod4'', LStr ''Any''], k_keysym = 0,
     k_keycode = 10\<rparr>)"
  using lock_modifiers_never_match [of "''Any''" "[LStr ''Mod4'', LStr ''Any'']" 64 10 0
      "\<lparr>k_modifiers = 0, k_keysym = 0, k_keycode = 10\<rparr>"] by simp

subsection \<open>Keys of a locked session\<close>

text \<open>
  What the handlers that run in between must leave alone: the locks, the grab and the record of
  the calls the C code makes. The rest of the state is theirs.
\<close>

definition lock_flags where
  "lock_flags w = (ext_locked w, lua_locked w, keygrabber w, trace w)"

lemma lock_flags_call:
  assumes "keeps env lock_flags"
  shows "ext_locked (call_env env k w) = ext_locked w" "lua_locked (call_env env k w) = lua_locked w"
    and "keygrabber (call_env env k w) = keygrabber w" "trace (call_env env k w) = trace w @ [k]"
proof -
  have "lock_flags (call_env env k w) = lock_flags (w\<lparr>trace := trace w @ [k]\<rparr>)"
    using assms by (simp add: keeps_def call_env_def)
  then show "ext_locked (call_env env k w) = ext_locked w" "lua_locked (call_env env k w) = lua_locked w"
    "keygrabber (call_env env k w) = keygrabber w" "trace (call_env env k w) = trace w @ [k]"
    by (simp_all add: lock_flags_def)
qed

lemma locked_keypress:
  assumes "keeps env lock_flags" and "session_locked w"
  shows "(case keypress env lower ev g w of (g', w') \<Rightarrow>
      trace w' = trace w @ Native ''notify_activity'' [] #
        (if lua_locked w then
           (if \<not> ext_locked w \<and> keygrabber w
            then [Native ''keygrabber_callback'' (keygrabber_handlekpress ev)] else [])
         else [Native ''wlr_seat_set_keyboard'' [],
               Native ''wlr_seat_keyboard_notify_key'' [LInt (uint (ev_keycode ev)), LBool (ev_pressed ev)]]) \<and>
      ext_locked w' = ext_locked w \<and> lua_locked w' = lua_locked w \<and> (ev_pressed ev \<longrightarrow> g_nsyms g' = 0)) \<and>
    snd (keyrepeat env lower g w) = w"
  using assms by (auto simp: keypress_def Let_def lock_flags_call some_keygrabber_is_running_def
      some_keygrabber_handle_key_def keyrepeat_def split: if_splits prod.splits)


definition demo_key :: key_event where
  "demo_key = \<lparr>ev_keycode = 30, ev_pressed = True, ev_syms = [97], ev_one_sym = 97, ev_base_syms = [97],
     ev_mods = 64, ev_xkb_mods = 64, ev_utf8 = ''a'', ev_sym_name = ''a'', callback_ok = (\<lambda>w. True)\<rparr>"

definition demo_group :: kb_group where
  "demo_group = \<lparr>g_mods = 0, g_keycode = 0, g_syms = [], g_nsyms = 0, g_base_sym = 0, g_delay = 600,
     g_rate = 25, g_timer = 0\<rparr>"


subsection \<open>A binding and its key\<close>

text \<open>
  The signal a key raises: on the first matching key of the client with the keyboard, else on
  the first matching global key.
\<close>

definition binding_call :: "(u32 \<Rightarrow> u32) \<Rightarrow> key_event \<Rightarrow> world \<Rightarrow> call option" where
  "binding_call lower ev w =
     (let match = (\<lambda>k. key_matches (CLEANMASK (ev_mods ev)) (ev_keycode ev + 8) (lower (base_symbol ev)) (keyb_at w k));
          sig = press_signal (ev_pressed ev);
          own = (case some_client_from_surface (seat_focus w) w of
                   None \<Rightarrow> None
                 | Some c \<Rightarrow> map_option (\<lambda>k. Emit (the k) sig [LUser c])
                               (find (\<lambda>k. k \<noteq> None \<and> match (the k)) (c_keys (cl w c))))
      in if own \<noteq> None then own else map_option (\<lambda>k. Emit k sig []) (find match (keys w)))"

text \<open>What must stay alone while a binding runs for this theorem: the keys and who has the keyboard.\<close>

definition bind_view where
  "bind_view w = (lock_flags w, keys w, keyb_at w, seat_focus w, clients w, cl w)"

lemma bind_view_call:
  assumes "keeps env bind_view"
  shows "bind_view (call_env env k w) = bind_view (w\<lparr>trace := trace w @ [k]\<rparr>)"
  using assms by (simp add: keeps_def call_env_def)

lemma bind_view_sel:
  assumes "bind_view v = bind_view u"
  shows "ext_locked v = ext_locked u" "lua_locked v = lua_locked u" "keygrabber v = keygrabber u"
    "trace v = trace u" "keys v = keys u" "keyb_at v = keyb_at u" "seat_focus v = seat_focus u"
    "clients v = clients u" "cl v = cl u"
  using assms by (simp_all add: bind_view_def lock_flags_def)

lemma binding_call_cong:
  assumes "bind_view v = bind_view (u\<lparr>trace := t\<rparr>)"
  shows "binding_call lower ev v = binding_call lower ev u"
proof -
  have "keys v = keys u" "keyb_at v = keyb_at u" "seat_focus v = seat_focus u" "clients v = clients u" "cl v = cl u"
    using bind_view_sel [OF assms] by simp_all
  then show ?thesis unfolding binding_call_def some_client_from_surface_def by (simp only:)
qed

lemma keybinding_fires:
  assumes "binding_call lower ev w = Some e"
  shows "keybinding env lower (ev_mods ev) (ev_keycode ev + 8) ks (base_symbol ev) (ev_pressed ev) w = (True, call_env env e w)"
proof -
  let ?m = "\<lambda>k. key_matches (CLEANMASK (ev_mods ev)) (ev_keycode ev + 8) (lower (base_symbol ev)) (keyb_at w k)"
  have nn: "find (\<lambda>k. k \<noteq> None \<and> ?m (the k)) xs = Some k \<Longrightarrow> \<exists>x. k = Some x" for xs k
    by (auto simp: find_Some_iff)
  show ?thesis
  proof (cases "some_client_from_surface (seat_focus w) w")
    case None
    then show ?thesis using assms
      by (auto simp: binding_call_def keybinding_def luaA_key_check_and_emit_def)
  next
    case (Some c)
    show ?thesis
    proof (cases "find (\<lambda>k. k \<noteq> None \<and> ?m (the k)) (c_keys (cl w c))")
      case None
      then show ?thesis using assms Some
        by (auto simp: binding_call_def keybinding_def luaA_key_check_and_emit_def luaA_client_key_check_and_emit_def)
    next
      case (Some k)
      then show ?thesis using assms \<open>some_client_from_surface _ _ = Some c\<close> nn [OF Some]
        by (auto simp: binding_call_def keybinding_def luaA_client_key_check_and_emit_def)
    qed
  qed
qed

lemma bind_syms_fire:
  assumes "keeps env bind_view" and "binding_call lower ev w = Some e"
  shows "\<exists>w'. bind_syms env lower (ev_mods ev) (ev_keycode ev + 8) (base_symbol ev) (ev_pressed ev) syms handled w =
      (handled \<or> ev_pressed ev \<and> syms \<noteq> [], w') \<and>
    bind_view w' = bind_view (w\<lparr>trace := trace w @ replicate (length syms) e\<rparr>)"
  using assms(2)
proof (induction syms arbitrary: handled w)
  case (Cons ks syms)
  note v = bind_view_call [OF assms(1), of e w]
  from Cons.IH [of "call_env env e w" "if ev_pressed ev then True else handled"] Cons.prems binding_call_cong [OF v]
  obtain w' where w': "bind_syms env lower (ev_mods ev) (ev_keycode ev + 8) (base_symbol ev) (ev_pressed ev) syms
      (if ev_pressed ev then True else handled) (call_env env e w) =
      ((if ev_pressed ev then True else handled) \<or> ev_pressed ev \<and> syms \<noteq> [], w')"
    "bind_view w' = bind_view ((call_env env e w)\<lparr>trace := trace (call_env env e w) @ replicate (length syms) e\<rparr>)" by auto
  have "bind_view w' = bind_view (w\<lparr>trace := trace w @ replicate (length (ks # syms)) e\<rparr>)"
    using w'(2) bind_view_sel [OF v] by (simp add: bind_view_def lock_flags_def replicate_append_same)
  then show ?case using w'(1) keybinding_fires [OF Cons.prems] by auto
qed auto

text \<open>
  A binding runs once per symbol of the key, not once per key. Without a lock or a grab,
  when the key reaches a binding, the signal of that binding is emitted as many times as the
  key has symbols at its level, since the loop over the symbols looks the binding up by the
  base symbol each time: twice for a key with two symbols, never for a key with none, even when
  the binding names its keycode. Only a press counts as handled; a release is still forwarded.
\<close>
theorem binding_runs_per_symbol:
  assumes "keeps env bind_view" and "\<not> session_locked w" and "\<not> keygrabber w"
    and "binding_call lower ev w = Some e"
  shows "trace (snd (keypress env lower ev g w)) =
    trace w @ Native ''notify_activity'' [] # replicate (length (ev_syms ev)) e @
      (if ev_pressed ev \<and> ev_syms ev \<noteq> [] then []
       else [Native ''wlr_seat_set_keyboard'' [],
             Native ''wlr_seat_keyboard_notify_key'' [LInt (uint (ev_keycode ev)), LBool (ev_pressed ev)]])"
proof -
  let ?v = "call_env env (Native ''notify_activity'' []) w"
  note v = bind_view_call [OF assms(1), of "Native ''notify_activity'' []" w]
  note sel = bind_view_sel [OF v]
  have "binding_call lower ev ?v = Some e" using binding_call_cong [OF v] assms(4) by simp
  from bind_syms_fire [OF assms(1) this, of "ev_syms ev" False] obtain u where
    u: "bind_syms env lower (ev_mods ev) (ev_keycode ev + 8) (base_symbol ev) (ev_pressed ev) (ev_syms ev) False ?v =
      (ev_pressed ev \<and> ev_syms ev \<noteq> [], u)"
    "bind_view u = bind_view (?v\<lparr>trace := trace ?v @ replicate (length (ev_syms ev)) e\<rparr>)" by auto
  note usel = bind_view_sel [OF u(2)]
  have t: "trace (call_env env k x) = trace x @ [k]" for k x
    using bind_view_sel(4) [OF bind_view_call [OF assms(1)]] by simp
  show ?thesis using u(1) sel usel assms(2,3)
    by (simp add: keypress_def Let_def some_keygrabber_is_running_def t)
qed

definition demo_bindings :: world where
  "demo_bindings = world0\<lparr>keys := [5], keyb_at := (\<lambda>_. \<lparr>k_modifiers = 64, k_keysym = 0, k_keycode = 38\<rparr>)\<rparr>"

lemma binding_runs_per_symbol_witness:
  "trace (snd (keypress idle id (demo_key\<lparr>ev_syms := [97, 98]\<rparr>) demo_group demo_bindings)) =
     [Native ''notify_activity'' [], Emit 5 ''press'' [], Emit 5 ''press'' []]"
proof -
  have "binding_call id (demo_key\<lparr>ev_syms := [97, 98]\<rparr>) demo_bindings = Some (Emit 5 ''press'' [])"
    by (simp add: binding_call_def demo_key_def demo_bindings_def world0_def key_matches_def CLEANMASK_def
        press_signal_def some_client_from_surface_def)
  then show ?thesis
    using binding_runs_per_symbol [where env = idle and w = demo_bindings and lower = id and g = demo_group
        and ev = "demo_key\<lparr>ev_syms := [97, 98]\<rparr>"]
    by (simp add: demo_bindings_def world0_def demo_key_def numeral_2_eq_2)
qed

end
