(* ===== verification/Frame.thy ===== *)
theory Frame
  imports Focus
begin

text \<open>
  What moving the focus leaves alone. focus_frame is the interface of a view of the state that
  reads none of the fields the focus code writes: under it a property of the view that no call of
  the environment breaks survives focusclient, focus_restore, client_focus and the end of a grab.
  The session lock and the layer surfaces are views of this kind.
\<close>

locale focus_frame =
  fixes view :: "world \<Rightarrow> 'v"
  assumes view_cl: "view (w\<lparr>cl := x1\<rparr>) = view w"
    and view_queue: "view (w\<lparr>queue := x2\<rparr>) = view w"
    and view_trace: "view (w\<lparr>trace := x3\<rparr>) = view w"
    and view_stack: "view (w\<lparr>stack := x4\<rparr>) = view w"
    and view_selmon: "view (w\<lparr>selmon := x5\<rparr>) = view w"
    and view_focus: "view (w\<lparr>focus_client := x6\<rparr>) = view w"
    and view_need_focus: "view (w\<lparr>focus_need_update := b1\<rparr>) = view w"
    and view_need_stack: "view (w\<lparr>need_stack_refresh := b2\<rparr>) = view w"
    and view_constraint: "view (w\<lparr>active_constraint := x7\<rparr>) = view w"
    and view_grab: "view (w\<lparr>mousegrabber_running := b3\<rparr>) = view w"
begin

lemmas view_field [simp] =
  view_cl view_queue view_trace view_stack view_selmon view_focus view_need_focus view_need_stack
  view_constraint view_grab

lemma view_upd [simp]:
  "view (upd_client c f w) = view w" "view (enqueue q w) = view w"
  "view (stack_windows w) = view w" "view (stack_client_append c w) = view w"
  "view (client_set_border_color c col w) = view w" "view (announce_focus c w) = view w"
  "view (unfocus_previous col oc w) = view w"
  "view (client_unfocus_internal env d False w) = view w" "view (client_ban_unfocus env d w) = view w"
  by (simp_all add: upd_client_def enqueue_def stack_windows_def stack_client_append_def
      stack_client_remove_def Let_def client_set_border_color_def announce_focus_def unfocus_previous_def
      client_ban_unfocus_def client_unfocus_def client_unfocus_internal_def split: option.split)

lemma call_holds:
  "preserves env (\<lambda>w. Q (view w)) \<Longrightarrow> Q (view w) \<Longrightarrow> Q (view (call_env env k w))"
  by (erule call_env_preserves) simp_all

lemma parts_hold:
  assumes "preserves env (\<lambda>w. Q (view w))" and "Q (view w)"
  shows "Q (view (client_activate_surface env s b w))" "Q (view (cursorconstrain env k w))"
    and "Q (view (destroy_popups env t w))" "Q (view (client_set_urgent env c v w))"
  using assms call_holds [OF assms(1)]
  by (simp_all add: client_activate_surface_def cursorconstrain_def destroy_popups_def client_set_urgent_def
      Let_def split: option.split surface_role.split toplevel.split)

lemma focus_parts_hold:
  assumes "preserves env (\<lambda>w. Q (view w))" and "Q (view w)"
  shows "Q (view (focus_stack_front env col c w))" "Q (view (deactivate_old env old t oc w))"
    and "Q (view (keyboard_enter env c w))"
  using assms call_holds [OF assms(1)] parts_hold [OF assms(1)]
  by (simp_all add: focus_stack_front_def deactivate_old_def keyboard_enter_def Let_def
      split: option.split toplevel.split)

lemma stack_refresh_holds:
  assumes "preserves env (\<lambda>w. Q (view w))" and "Q (view w)" and "stack_refresh env w = Some w'"
  shows "Q (view w')"
  using assms call_holds [OF assms(1)] by (auto simp: stack_refresh_def Let_def split: if_splits)

text \<open>A state that was left alone or went through a step that keeps the property.\<close>

lemma step_holds: "Q (view w) \<Longrightarrow> (Q (view w) \<Longrightarrow> Q (view v)) \<Longrightarrow> Q (view (if b then v else w))"
  by simp

lemma focus_new_holds:
  assumes "preserves env (\<lambda>w. Q (view w))" and "Q (view w)" and "focus_new env c w = Some w'"
  shows "Q (view w')"
proof -
  note call = call_holds [OF assms(1)] and parts = parts_hold [OF assms(1)] focus_parts_hold [OF assms(1)]
  define w1 where "w1 = call_env env (Native ''motionnotify'' []) w"
  define w2 where "w2 = stack_windows (w1\<lparr>focus_client := Some c, focus_need_update := True\<rparr>)"
  define w3 where "w3 = client_activate_surface env (client_surface (cl w2 c)) True w2"
  define w4 where "w4 = (if toplevel_handle (cl w3 c)
      then call_env env (Native ''foreign_toplevel_set_activated'' [LUser c, LBool True]) w3 else w3)"
  define w5 where "w5 = announce_focus c (keyboard_enter env c w4)"
  have "Q (view w1)" unfolding w1_def by (rule call [OF assms(2)])
  then have "Q (view w2)" by (simp add: w2_def)
  then have "Q (view w3)" unfolding w3_def by (rule parts)
  then have "Q (view w4)" unfolding w4_def by (rule step_holds) (rule call)
  then have "Q (view w5)" by (simp add: w5_def parts)
  moreover have "stack_refresh env w5 = Some w'"
    using assms(3) unfolding focus_new_def Let_def w1_def [symmetric] w2_def [symmetric] w3_def [symmetric]
      w4_def [symmetric] w5_def [symmetric] by simp
  ultimately show ?thesis by (rule stack_refresh_holds [OF assms(1)])
qed

lemma focusclient_holds:
  assumes "preserves env (\<lambda>w. Q (view w))" and "Q (view w)" and "focusclient fuel env col bor c lift w = Some w'"
  shows "Q (view w')"
proof (cases "session_locked w")
  case True
  then show ?thesis using assms by (simp add: focusclient_def)
next
  case False
  note parts = parts_hold [OF assms(1)] focus_parts_hold [OF assms(1)]
  define w1 where "w1 = (case c of Some d \<Rightarrow> if lift then stack_client_append d w else w | None \<Rightarrow> w)"
  have "Q (view w1)" using assms(2) by (simp add: w1_def split: option.split)
  show ?thesis
  proof (cases "c \<noteq> None \<and> client_surface (cl w1 (the c)) = seat_focus w")
    case True
    then show ?thesis using False assms(3) \<open>Q (view w1)\<close> by (simp add: focusclient_def Let_def w1_def)
  next
    case moves: False
    define losing :: "world \<Rightarrow> bool" where
      "losing v \<longleftrightarrow> seat_focus w \<noteq> None \<and> (c = None \<or> client_surface (cl v (the c)) \<noteq> seat_focus w)" for v
    let ?rest = "\<lambda>t. let v = destroy_popups env t w1;
            v = (case c of Some d \<Rightarrow> if \<not> client_is_unmanaged (cl v d) then focus_stack_front env col d v else v | None \<Rightarrow> v)
        in if losing v \<and> focus_blocked t v then Some v
           else (let v = (if losing v then deactivate_old env (seat_focus w) t c v else v);
                     v = unfocus_previous bor c v
                 in case c of None \<Rightarrow> Some (stack_windows (v\<lparr>focus_client := None, focus_need_update := True\<rparr>))
                    | Some d \<Rightarrow> focus_new env d v)"
    have "Option.bind (toplevel_from_wlr_surface fuel (seat_focus w) w1) ?rest = Some w'"
      using assms(3) unfolding focusclient_def Let_def w1_def [symmetric] losing_def
        if_not_P [OF False] if_not_P [OF moves] .
    then obtain t where t: "?rest t = Some w'" by (auto simp only: bind_eq_Some_conv)
    define w2 where "w2 = destroy_popups env t w1"
    define w3 where "w3 = (case c of Some d \<Rightarrow> if \<not> client_is_unmanaged (cl w2 d) then focus_stack_front env col d w2 else w2 | None \<Rightarrow> w2)"
    define w4 where "w4 = unfocus_previous bor c (if losing w3 then deactivate_old env (seat_focus w) t c w3 else w3)"
    have "Q (view w2)" unfolding w2_def by (rule parts) fact
    then have "Q (view w3)" by (simp add: w3_def parts split: option.split)
    then have "Q (view w4)" by (simp add: w4_def parts)
    then show ?thesis using t \<open>Q (view w3)\<close> focus_new_holds [OF assms(1)]
      unfolding Let_def w2_def [symmetric] w3_def [symmetric] w4_def [symmetric]
      by (auto split: if_splits option.splits)
  qed
qed

lemma focus_restore_holds:
  assumes "preserves env (\<lambda>w. Q (view w))" and "Q (view w)"
    and "focus_restore fuel env col bor lua m w = Some w'"
  shows "Q (view w')"
  using assms call_holds [OF assms(1)] focusclient_holds [OF assms(1)]
  by (fastforce simp: focus_restore_def Let_def split: if_splits option.splits)

lemma client_focus_holds:
  assumes "preserves env (\<lambda>w. Q (view w))" and "Q (view w)"
  shows "Q (view (client_focus env c w))"
proof -
  have "Q (view (snd (client_focus_update env d v)))" if "Q (view v)" for d v
    using that parts_hold [OF assms(1)] by (simp add: client_focus_update_def Let_def split: option.split)
  then have "Q (view u)" if "client_focus_update env d w = (b, u)" for d b u
    using that assms(2) by (metis snd_conv)
  then show ?thesis using call_holds [OF assms(1)]
    by (simp add: client_focus_def Let_def split: option.split prod.split)
qed

lemma mousegrabber_stop_holds:
  assumes "preserves env (\<lambda>w. Q (view w))" and "Q (view w)"
  shows "Q (view (luaA_mousegrabber_stop env w))"
proof -
  have "Q (view (mousegrabber_release_focus env v))" if "Q (view v)" for v
    using that call_holds [OF assms(1)] by (simp add: mousegrabber_release_focus_def Let_def split: option.split)
  then show ?thesis using assms(2) call_holds [OF assms(1)] by (simp add: luaA_mousegrabber_stop_def)
qed

end

end
