(* ===== verification/Lock.thy ===== *)
theory Lock
  imports Frame Input
begin

text \<open>
  Locking the session: the lock of Lua (luaa.c and somewm.c: the lock surface and its covers,
  authentication, unlocking, the forced unlocks when the surface dies or the configuration is
  reloaded) and the lock of the ext-session-lock protocol (protocols.c). PAM, the class check
  for drawins and the field access of wibox tables are parameters. The lemmas show that the two
  locks exclude each other, that no Lua code unlocks without a password PAM accepts, and that
  locking and unlocking gives the keyboard back.
\<close>

text \<open>
  The parameters: fuel for the searches of focusclient, the two border colours, luaA_todrawin,
  the field drawin of a table, and what PAM answers in a state.
\<close>

record lock_lib =
  lib_fuel :: nat
  lib_focuscolor :: "rat list"
  lib_bordercolor :: "rat list"
  todrawin :: "lval \<Rightarrow> nat option"
  drawin_field :: "lval \<Rightarrow> lval"
  pam :: "string \<Rightarrow> world \<Rightarrow> bool"

abbreviation (input) MAX_LOCK_COVERS :: nat where "MAX_LOCK_COVERS \<equiv> 16"

definition emit_global :: "env \<Rightarrow> string \<Rightarrow> lval list \<Rightarrow> world \<Rightarrow> world" where
  "emit_global env name args = call_env env (Native ''emit_signal_global'' (LStr name # args))"

definition mark_all_dirty :: "env \<Rightarrow> world \<Rightarrow> world" where
  "mark_all_dirty env = call_env env (Native ''declare_mark_all_dirty'' [])"

subsection \<open>The compositor's side of the lock of Lua\<close>

definition some_activate_lua_lock :: "env \<Rightarrow> world \<Rightarrow> world" where
  "some_activate_lua_lock env w =
     (let w = w\<lparr>pre_lock_client := focus_client w\<rparr>;
          w = call_env env (Native ''seat_keyboard_notify_clear_focus'' []) w;
          w = (if mousegrabber_running w then luaA_mousegrabber_stop env w else w)
      in mark_all_dirty env w)"

text \<open>None is a search of focusclient out of fuel.\<close>

definition some_deactivate_lua_lock :: "lock_lib \<Rightarrow> env \<Rightarrow> world \<Rightarrow> world option" where
  "some_deactivate_lua_lock X env w =
     (let w = mark_all_dirty env w;
          pre = (case pre_lock_client w of Some c \<Rightarrow> if has_scene (cl w c) then Some c else None | None \<Rightarrow> None)
      in map_option (\<lambda>w. call_env env (Native ''motionnotify'' []) (w\<lparr>pre_lock_client := None\<rparr>))
           (if pre \<noteq> None
            then focusclient (lib_fuel X) env (lib_focuscolor X) (lib_bordercolor X) pre True w
            else focus_restore (lib_fuel X) env (lib_focuscolor X) (lib_bordercolor X) True (selmon w) w))"

definition some_deactivate_lua_lock_no_focus :: "env \<Rightarrow> world \<Rightarrow> world" where
  "some_deactivate_lua_lock_no_focus env w = (mark_all_dirty env w)\<lparr>pre_lock_client := None\<rparr>"

definition some_promote_lock_cover :: "env \<Rightarrow> nat option \<Rightarrow> world \<Rightarrow> world" where
  "some_promote_lock_cover env d w = (if d \<noteq> None then mark_all_dirty env w else w)"

subsection \<open>The lock functions of Lua\<close>

definition luaA_awesome_lock :: "env \<Rightarrow> world \<Rightarrow> bool \<times> world" where
  "luaA_awesome_lock env w =
     (if lua_locked w then (True, w)
      else if lock_surface w = None then (False, w)
      else if ext_locked w then (False, w)
      else
        (let w = w\<lparr>lua_locked := True, lua_authenticated := False\<rparr>;
             w = some_activate_lua_lock env w;
             w = emit_global env ''lock::activate'' [LStr ''user''] w
         in (True, w)))"

definition luaA_awesome_unlock :: "lock_lib \<Rightarrow> env \<Rightarrow> world \<Rightarrow> (bool \<times> world) option" where
  "luaA_awesome_unlock X env w =
     (if \<not> lua_locked w then Some (True, w)
      else if \<not> lua_authenticated w then Some (False, w)
      else map_option (\<lambda>w. (True, emit_global env ''lock::deactivate'' [] w))
             (some_deactivate_lua_lock X env (w\<lparr>lua_locked := False, lua_authenticated := False\<rparr>)))"

definition resolve_drawin_arg :: "lock_lib \<Rightarrow> lval \<Rightarrow> nat option" where
  "resolve_drawin_arg X v =
     (case todrawin X v of
        Some d \<Rightarrow> Some d
      | None \<Rightarrow> (case v of
                   LTable _ \<Rightarrow> if drawin_field X v \<noteq> LNil then todrawin X (drawin_field X v) else None
                 | _ \<Rightarrow> None))"

text \<open>
  A reference in the registry holds its value; None is LUA_NOREF, or a Lua error where it is
  the result.
\<close>

definition luaA_awesome_set_lock_surface :: "lock_lib \<Rightarrow> lval \<Rightarrow> world \<Rightarrow> world option" where
  "luaA_awesome_set_lock_surface X v w =
     map_option (\<lambda>d. w\<lparr>lock_surface_ref := Some v, lock_surface := Some d\<rparr>) (resolve_drawin_arg X v)"

definition luaA_awesome_clear_lock_surface :: "world \<Rightarrow> world" where
  "luaA_awesome_clear_lock_surface w = w\<lparr>lock_surface_ref := None, lock_surface := None\<rparr>"

definition cover_index :: "nat \<Rightarrow> world \<Rightarrow> nat option" where
  "cover_index d w = index_of d (map fst (lock_covers w))"

definition remove_lock_cover_at :: "nat \<Rightarrow> world \<Rightarrow> world" where
  "remove_lock_cover_at i w = w\<lparr>lock_covers := take i (lock_covers w) @ drop (Suc i) (lock_covers w)\<rparr>"

definition luaA_awesome_add_lock_cover :: "lock_lib \<Rightarrow> env \<Rightarrow> lval \<Rightarrow> world \<Rightarrow> world option" where
  "luaA_awesome_add_lock_cover X env v w =
     (case resolve_drawin_arg X v of
        None \<Rightarrow> None
      | Some d \<Rightarrow>
          if cover_index d w \<noteq> None then Some w
          else if length (lock_covers w) \<ge> MAX_LOCK_COVERS then None
          else
            (let w = w\<lparr>lock_covers := lock_covers w @ [(d, v)]\<rparr>
             in Some (if lua_locked w then some_promote_lock_cover env (Some d) w else w)))"

definition luaA_awesome_remove_lock_cover :: "lock_lib \<Rightarrow> lval \<Rightarrow> world \<Rightarrow> world" where
  "luaA_awesome_remove_lock_cover X v w =
     (case resolve_drawin_arg X v of
        None \<Rightarrow> w
      | Some d \<Rightarrow> (case cover_index d w of None \<Rightarrow> w | Some i \<Rightarrow> remove_lock_cover_at i w))"

definition luaA_awesome_clear_lock_covers :: "world \<Rightarrow> world" where
  "luaA_awesome_clear_lock_covers w = w\<lparr>lock_covers := []\<rparr>"

definition luaA_awesome_authenticate :: "lock_lib \<Rightarrow> env \<Rightarrow> string \<Rightarrow> world \<Rightarrow> bool \<times> world" where
  "luaA_awesome_authenticate X env password w =
     (if pam X password w then (True, w\<lparr>lua_authenticated := True\<rparr>)
      else (False, emit_global env ''lock::auth_failed'' [] w))"

text \<open>The property lock_mechanism of awesome.\<close>

definition lock_mechanism :: "world \<Rightarrow> lval" where
  "lock_mechanism w =
     (if lua_locked w then LStr ''lua'' else if ext_locked w then LStr ''ext'' else LNil)"

definition some_is_lock_drawin :: "nat option \<Rightarrow> world \<Rightarrow> bool" where
  "some_is_lock_drawin d w \<longleftrightarrow>
     (case d of None \<Rightarrow> False | Some d \<Rightarrow> lock_surface w = Some d \<or> d \<in> set (map fst (lock_covers w)))"

subsection \<open>Forced unlocks\<close>

definition lock_hot_reload :: "lock_lib \<Rightarrow> env \<Rightarrow> bool \<Rightarrow> world \<Rightarrow> world option" where
  "lock_hot_reload X env lua_safe w =
     map_option (\<lambda>w. w\<lparr>lua_authenticated := False, lock_surface := None, lock_surface_ref := None,
                       lock_covers := []\<rparr>)
       (if lua_locked w then
          (let w = w\<lparr>lua_locked := False\<rparr>
           in if lua_safe then some_deactivate_lua_lock X env w
              else Some (some_deactivate_lua_lock_no_focus env w))
        else Some w)"

text \<open>some_notify_drawin_destroyed; the calls are made with a drawin, never NULL.\<close>

definition some_notify_drawin_destroyed :: "lock_lib \<Rightarrow> env \<Rightarrow> nat \<Rightarrow> world \<Rightarrow> world option" where
  "some_notify_drawin_destroyed X env d w =
     map_option (\<lambda>w. case cover_index d w of None \<Rightarrow> w | Some i \<Rightarrow> remove_lock_cover_at i w)
       (if lock_surface w = Some d then
          (let w = w\<lparr>lock_surface_ref := None, lock_surface := None\<rparr>
           in if lua_locked w
              then map_option (emit_global env ''lock::deactivate'' [])
                     (some_deactivate_lua_lock X env (w\<lparr>lua_locked := False, lua_authenticated := False\<rparr>))
              else Some w)
        else Some w)"

subsection \<open>The lock protocol\<close>

text \<open>Freeing the lock and its scene changes no modelled state but cur_lock.\<close>

definition destroylock :: "lock_lib \<Rightarrow> env \<Rightarrow> bool \<Rightarrow> world \<Rightarrow> world option" where
  "destroylock X env unlock w =
     (let w = call_env env (Native ''seat_keyboard_notify_clear_focus'' []) w;
          w = w\<lparr>ext_locked := \<not> unlock\<rparr>
      in map_option (\<lambda>w. (call_env env (Native ''wlr_scene_node_destroy'' []) w)\<lparr>cur_lock := None\<rparr>)
           (if \<not> unlock then Some w
            else map_option (call_env env (Native ''motionnotify'' []))
                   (focus_restore (lib_fuel X) env (lib_focuscolor X) (lib_bordercolor X) True
                      (selmon w) (mark_all_dirty env w))))"

definition unlocksession :: "lock_lib \<Rightarrow> env \<Rightarrow> world \<Rightarrow> world option" where
  "unlocksession X env = destroylock X env True"

definition destroysessionlock :: "lock_lib \<Rightarrow> env \<Rightarrow> world \<Rightarrow> world option" where
  "destroysessionlock X env = destroylock X env False"

definition locksession :: "lock_lib \<Rightarrow> env \<Rightarrow> nat \<Rightarrow> world \<Rightarrow> world option" where
  "locksession X env lock w =
     (if cur_lock w \<noteq> None \<or> lua_locked w
      then Some (call_env env (Native ''wlr_session_lock_v1_destroy'' [LLight lock]) w)
      else
        map_option (\<lambda>w.
            let w = w\<lparr>cur_lock := Some lock, ext_locked := True\<rparr>;
                w = mark_all_dirty env w
            in call_env env (Native ''wlr_session_lock_v1_send_locked'' [LLight lock]) w)
          (focusclient (lib_fuel X) env (lib_focuscolor X) (lib_bordercolor X) None False w))"

definition upd_monitor :: "nat \<Rightarrow> (monitor \<Rightarrow> monitor) \<Rightarrow> world \<Rightarrow> world" where
  "upd_monitor m f w = w\<lparr>mo := (mo w)(m := f (mo w m))\<rparr>"

text \<open>
  The surfaces of the lock. surf is its wl_surface; client_notify_enter enters the keyboard on
  it. m_lock_surface holds the surface as its identity, and the list of the lock's surfaces is
  that of wlroots when the event comes.
\<close>

definition createlocksurface :: "env \<Rightarrow> nat \<Rightarrow> nat \<Rightarrow> world \<Rightarrow> world" where
  "createlocksurface env m s w =
     (let w = upd_monitor m (\<lambda>x. x\<lparr>m_lock_surface := Some s\<rparr>) w;
          w = call_env env (Native ''wlr_session_lock_surface_v1_configure'' [LUser s]) w;
          w = call_env env (Native ''declare_output_mark_dirty'' [LLight m]) w
      in if Some m = selmon w then call_env env (Native ''seat_keyboard_notify_enter'' [LUser s]) w else w)"

definition destroylocksurface :: "lock_lib \<Rightarrow> env \<Rightarrow> nat \<Rightarrow> nat \<Rightarrow> world \<Rightarrow> world option" where
  "destroylocksurface X env m s w =
     (let w = (if m_lock_render_owner (mo w m)
               then upd_monitor m (\<lambda>x. x\<lparr>m_lock_render_owner := False\<rparr>)
                      (call_env env (Native ''render_park'' [LUser s]) w)
               else w);
          w = upd_monitor m (\<lambda>x. x\<lparr>m_lock_surface := None\<rparr>) w;
          w = call_env env (Native ''declare_handle_drop'' [LUser s]) w;
          w = call_env env (Native ''declare_output_mark_dirty'' [LLight m]) w
      in if seat_focus w \<noteq> Some s then Some w
         else if ext_locked w \<and> cur_lock w \<noteq> None \<and> ext_surfaces w \<noteq> []
         then Some (call_env env (Native ''seat_keyboard_notify_enter'' [LUser (hd (ext_surfaces w))]) w)
         else if \<not> ext_locked w
         then focus_restore (lib_fuel X) env (lib_focuscolor X) (lib_bordercolor X) True (selmon w) w
         else Some (call_env env (Native ''seat_keyboard_clear_focus'' []) w))"

subsection \<open>Lua code that uses the lock\<close>

text \<open>
  The lock functions as operations, together with those that move the focus or grab the
  keyboard. An error of Lua ends the call without an effect. The collector finalises drawins
  that nothing refers to. The registry holds what was registered as the lock surface: a drawin is
  so kept, but a wibox keeps its drawin only as long as its field drawin refers to it, which Lua
  code may change.
\<close>

datatype lua_op =
    OpLock | OpUnlock | OpAuthenticate string
  | OpSetSurface lval | OpClearSurface
  | OpAddCover lval | OpRemoveCover lval | OpClearCovers
  | OpCollect nat | OpFocus "nat option" | OpGrab bool

definition or_unchanged :: "world option \<Rightarrow> world \<Rightarrow> world" where
  "or_unchanged r w = (case r of Some w' \<Rightarrow> w' | None \<Rightarrow> w)"

definition registry_keeps :: "lock_lib \<Rightarrow> nat \<Rightarrow> world \<Rightarrow> bool" where
  "registry_keeps X d w \<longleftrightarrow> (case lock_surface_ref w of None \<Rightarrow> False | Some v \<Rightarrow> todrawin X v = Some d)"

fun run_lua_op :: "lock_lib \<Rightarrow> env \<Rightarrow> lua_op \<Rightarrow> world \<Rightarrow> world option" where
  "run_lua_op X env OpLock w = Some (snd (luaA_awesome_lock env w))"
| "run_lua_op X env OpUnlock w = map_option snd (luaA_awesome_unlock X env w)"
| "run_lua_op X env (OpAuthenticate pw) w = Some (snd (luaA_awesome_authenticate X env pw w))"
| "run_lua_op X env (OpSetSurface v) w = Some (or_unchanged (luaA_awesome_set_lock_surface X v w) w)"
| "run_lua_op X env OpClearSurface w = Some (luaA_awesome_clear_lock_surface w)"
| "run_lua_op X env (OpAddCover v) w = Some (or_unchanged (luaA_awesome_add_lock_cover X env v w) w)"
| "run_lua_op X env (OpRemoveCover v) w = Some (luaA_awesome_remove_lock_cover X v w)"
| "run_lua_op X env OpClearCovers w = Some (luaA_awesome_clear_lock_covers w)"
| "run_lua_op X env (OpCollect d) w =
     (if registry_keeps X d w then Some w else some_notify_drawin_destroyed X env d w)"
| "run_lua_op X env (OpFocus c) w = Some (client_focus env c w)"
| "run_lua_op X env (OpGrab f) w = Some (or_unchanged (luaA_keygrabber_run f w) w)"

fun run_lua_ops :: "lock_lib \<Rightarrow> env \<Rightarrow> lua_op list \<Rightarrow> world \<Rightarrow> world option" where
  "run_lua_ops X env [] w = Some w"
| "run_lua_ops X env (oper # opers) w = Option.bind (run_lua_op X env oper w) (run_lua_ops X env opers)"

text \<open>
  Handlers call the same functions. script says what the handlers of a call do, base what the
  call does besides, and the number how deep handlers may nest. The listed calls are requests
  to wlroots that run no Lua code.
\<close>

definition wlroots_call :: "call \<Rightarrow> bool" where
  "wlroots_call k \<longleftrightarrow>
     (case k of
        Native n _ \<Rightarrow> n \<in> {''xdg_popups_destroy'', ''xwayland_surface_activate'', ''xdg_toplevel_set_activated'',
          ''foreign_toplevel_set_activated'', ''seat_keyboard_notify_clear_focus'', ''seat_keyboard_notify_enter'',
          ''declare_mark_all_dirty'', ''wlr_session_lock_v1_send_locked'', ''wlr_session_lock_v1_destroy'',
          ''wlr_scene_node_destroy''}
      | _ \<Rightarrow> False)"

fun lua_env :: "lock_lib \<Rightarrow> (call \<Rightarrow> world \<Rightarrow> lua_op list) \<Rightarrow> env \<Rightarrow> nat \<Rightarrow> env" where
  "lua_env X script base 0 k w = base k w"
| "lua_env X script base (Suc n) k w =
     (if wlroots_call k then base k w
      else or_unchanged (run_lua_ops X (lua_env X script base n) (script k w) (base k w)) (base k w))"

subsection \<open>What the operations do to the locks\<close>

record lock_state =
  st_lua :: bool
  st_auth :: bool
  st_ext :: bool
  st_cur :: "nat option"
  st_surface :: "nat option"
  st_ref :: "lval option"
  st_covers :: "(nat \<times> lval) list"

definition lock_view :: "world \<Rightarrow> lock_state" where
  "lock_view w = \<lparr>st_lua = lua_locked w, st_auth = lua_authenticated w, st_ext = ext_locked w,
     st_cur = cur_lock w, st_surface = lock_surface w, st_ref = lock_surface_ref w, st_covers = lock_covers w\<rparr>"

text \<open>A property of the locks that no call of the environment breaks.\<close>

definition holds :: "env \<Rightarrow> (lock_state \<Rightarrow> bool) \<Rightarrow> bool" where
  "holds env Q \<longleftrightarrow> preserves env (\<lambda>w. Q (lock_view w))"

lemma holds_call: "holds env Q \<Longrightarrow> Q (lock_view w) \<Longrightarrow> Q (lock_view (call_env env k w))"
  unfolding holds_def by (erule call_env_preserves) (simp_all add: lock_view_def)

interpretation lockf: focus_frame lock_view
  by unfold_locales (simp_all add: lock_view_def)

lemma lock_view_field [simp]:
  "lock_view (w\<lparr>pre_lock_client := x1\<rparr>) = lock_view w" "lock_view (w\<lparr>keygrabber := x2\<rparr>) = lock_view w"
  "lock_view (w\<lparr>mo := x3\<rparr>) = lock_view w"
  by (simp_all add: lock_view_def)

lemma holds_parts:
  assumes "holds env Q" and "Q (lock_view w)"
  shows "Q (lock_view (mark_all_dirty env w))" "Q (lock_view (emit_global env name args w))"
  using assms(2) holds_call [OF assms(1)] by (simp_all add: mark_all_dirty_def emit_global_def)

lemmas holds_focusclient = lockf.focusclient_holds [where Q = Q for Q, folded holds_def]
  and holds_focus_restore = lockf.focus_restore_holds [where Q = Q for Q, folded holds_def]
  and holds_client_focus = lockf.client_focus_holds [where Q = Q for Q, folded holds_def]

lemma holds_activate:
  assumes "holds env Q" and "Q (lock_view w)"
  shows "Q (lock_view (some_activate_lua_lock env w))"
  using assms(2) holds_call [OF assms(1)] holds_parts [OF assms(1)]
    lockf.mousegrabber_stop_holds [OF assms(1) [unfolded holds_def]]
  by (simp add: some_activate_lua_lock_def Let_def)

lemma holds_deactivate:
  assumes "holds env Q" and "Q (lock_view w)" and "some_deactivate_lua_lock X env w = Some w'"
  shows "Q (lock_view w')"
proof -
  define v where "v = mark_all_dirty env w"
  have v: "Q (lock_view v)" unfolding v_def using assms(1,2) by (rule holds_parts)
  obtain u where u: "w' = call_env env (Native ''motionnotify'' []) (u\<lparr>pre_lock_client := None\<rparr>)"
    "(\<exists>pre. focusclient (lib_fuel X) env (lib_focuscolor X) (lib_bordercolor X) pre True v = Some u) \<or>
     focus_restore (lib_fuel X) env (lib_focuscolor X) (lib_bordercolor X) True (selmon v) v = Some u"
    using assms(3) unfolding some_deactivate_lua_lock_def Let_def v_def [symmetric]
    by (auto split: if_splits)
  have "Q (lock_view u)" using u(2) holds_focusclient [OF assms(1) v] holds_focus_restore [OF assms(1) v] by blast
  then show ?thesis unfolding u(1) by (intro holds_call [OF assms(1)]) simp
qed

subsection \<open>No unlocking without a password\<close>

text \<open>
  An operation that tries no password PAM would accept and, with L the drawins that stay alive,
  registers only those as lock surface and lets none of them be collected.
\<close>

definition wrong :: "lock_lib \<Rightarrow> nat set \<Rightarrow> lua_op \<Rightarrow> bool" where
  "wrong X L oper \<longleftrightarrow>
     (case oper of
        OpAuthenticate pw \<Rightarrow> \<forall>v. \<not> pam X pw v
      | OpSetSurface v \<Rightarrow> (case resolve_drawin_arg X v of None \<Rightarrow> True | Some d \<Rightarrow> d \<in> L)
      | OpCollect d \<Rightarrow> d \<notin> L
      | _ \<Rightarrow> True)"

definition shut :: "nat set \<Rightarrow> lock_state \<Rightarrow> bool" where
  "shut L s \<longleftrightarrow> st_lua s \<and> \<not> st_auth s \<and> set_option (st_surface s) \<subseteq> L"

lemma shut_op:
  assumes env: "holds env (shut L)" and w: "shut L (lock_view w)" and "wrong X L oper"
  shows "\<exists>w'. run_lua_op X env oper w = Some w' \<and> shut L (lock_view w')"
proof -
  have locked: "lua_locked w" "\<not> lua_authenticated w" using w by (simp_all add: shut_def lock_view_def)
  have upd: "shut L (lock_view (v\<lparr>lock_covers := x\<rparr>)) = shut L (lock_view v)" for v x
    by (simp add: shut_def lock_view_def)
  note parts = holds_parts [OF env] holds_client_focus [OF env]
  show ?thesis
  proof (cases oper)
    case (OpAuthenticate pw)
    then show ?thesis using assms(3) w parts by (simp add: wrong_def luaA_awesome_authenticate_def)
  next
    case (OpFocus c)
    then show ?thesis using w parts by simp
  next
    case (OpAddCover v)
    then show ?thesis using w parts upd locked
      by (simp add: luaA_awesome_add_lock_cover_def some_promote_lock_cover_def or_unchanged_def Let_def split: option.split)
  next
    case (OpCollect d)
    then have "lock_surface w \<noteq> Some d" using w assms(3) by (auto simp: shut_def lock_view_def wrong_def)
    then show ?thesis using OpCollect w upd
      by (auto simp: some_notify_drawin_destroyed_def remove_lock_cover_at_def split: option.split)
  next
    case (OpSetSurface v)
    then show ?thesis using assms(3) w
      by (auto simp: wrong_def luaA_awesome_set_lock_surface_def or_unchanged_def shut_def lock_view_def split: option.splits)
  qed (use w locked in \<open>auto simp: luaA_awesome_lock_def luaA_awesome_unlock_def
      luaA_awesome_clear_lock_surface_def luaA_awesome_remove_lock_cover_def luaA_awesome_clear_lock_covers_def
      luaA_keygrabber_run_def remove_lock_cover_at_def or_unchanged_def
      shut_def lock_view_def split: option.split\<close>)
qed

lemma lock_shuts:
  assumes "holds env (shut L)" and "\<not> lua_locked w" and "lock_surface w = Some d" and "d \<in> L" and "\<not> ext_locked w"
  shows "shut L (lock_view (snd (luaA_awesome_lock env w)))"
proof -
  have "shut L (lock_view (w\<lparr>lua_locked := True, lua_authenticated := False\<rparr>))"
    using assms(3,4) by (simp add: shut_def lock_view_def)
  from holds_parts(2) [OF assms(1) holds_activate [OF assms(1) this]] show ?thesis
    using assms by (auto simp: luaA_awesome_lock_def Let_def)
qed

lemma shut_ops:
  assumes "holds env (shut L)" and "shut L (lock_view w)" and "list_all (wrong X L) ops"
  shows "\<exists>w'. run_lua_ops X env ops w = Some w' \<and> shut L (lock_view w')"
  using assms(2,3)
proof (induction ops arbitrary: w)
  case (Cons oper ops)
  then obtain v where "run_lua_op X env oper w = Some v" "shut L (lock_view v)"
    using shut_op [OF assms(1), of w X oper] by auto
  then show ?case using Cons by simp
qed simp

lemma shut_env:
  assumes "holds base (shut L)" and "\<And>k v. list_all (wrong X L) (script k v)"
  shows "holds (lua_env X script base n) (shut L)"
proof (induction n)
  case 0
  have "lua_env X script base 0 = base" by (simp add: fun_eq_iff)
  then show ?case using assms(1) by simp
next
  case (Suc n)
  have "shut L (lock_view (lua_env X script base (Suc n) k w))" if w: "shut L (lock_view w)" for k w
  proof -
    have b: "shut L (lock_view (base k w))" using assms(1) w by (simp add: holds_def preserves_def)
    obtain v where "run_lua_ops X (lua_env X script base n) (script k w) (base k w) = Some v" "shut L (lock_view v)"
      using shut_ops [OF Suc b assms(2)] by blast
    then show ?thesis using b by (simp add: or_unchanged_def)
  qed
  then show ?case by (simp add: holds_def preserves_def)
qed


definition demo_lock_lib :: lock_lib where
  "demo_lock_lib = \<lparr>lib_fuel = 3, lib_focuscolor = [], lib_bordercolor = [],
     todrawin = (\<lambda>v. case v of LUser d \<Rightarrow> Some d | _ \<Rightarrow> None), drawin_field = (\<lambda>v. LNil),
     pam = (\<lambda>pw v. pw = ''secret'')\<rparr>"

text \<open>A handler that tries to unlock whenever authentication fails.\<close>

definition demo_script :: "call \<Rightarrow> world \<Rightarrow> lua_op list" where
  "demo_script k v = (case k of Native n _ \<Rightarrow> [OpUnlock, OpAuthenticate ''12345'', OpClearSurface] | _ \<Rightarrow> [])"

lemma demo_wrong: "list_all (wrong demo_lock_lib L) (demo_script k v)"
  by (simp add: demo_script_def wrong_def demo_lock_lib_def split: call.split)


subsection \<open>Events and reachable states of the locks\<close>

definition locks_ok :: "lock_state \<Rightarrow> bool" where
  "locks_ok s \<longleftrightarrow> \<not> (st_lua s \<and> st_ext s) \<and> distinct (map fst (st_covers s)) \<and>
     length (st_covers s) \<le> MAX_LOCK_COVERS \<and> (st_surface s = None \<longleftrightarrow> st_ref s = None)"

text \<open>While Lua code runs, the lock of the protocol does not change.\<close>

definition locks_in :: "bool \<Rightarrow> nat option \<Rightarrow> lock_state \<Rightarrow> bool" where
  "locks_in e c s \<longleftrightarrow> locks_ok s \<and> st_ext s = e \<and> st_cur s = c"

lemma view_of_cover:
  assumes w: "locks_in e c (lock_view w)" and "cover_index d w = Some i"
  shows "locks_in e c (lock_view (remove_lock_cover_at i w))"
proof -
  have ok: "locks_ok (lock_view w)" using w by (simp add: locks_in_def)
  have i: "i < length (lock_covers w)" using assms(2) by (auto simp: cover_index_def dest: index_of_Some)
  let ?cs = "take i (lock_covers w) @ drop (Suc i) (lock_covers w)"
  define xs where "xs = map fst (lock_covers w)"
  have "xs = take i xs @ xs ! i # drop (Suc i) xs" by (rule id_take_nth_drop) (simp add: xs_def i)
  moreover have "distinct xs" using ok by (simp add: xs_def locks_ok_def lock_view_def)
  ultimately have "distinct (take i xs @ xs ! i # drop (Suc i) xs)" by metis
  then have "distinct (take i xs @ drop (Suc i) xs)" by auto
  then have "distinct (map fst ?cs)" by (simp add: xs_def take_map drop_map)
  then show ?thesis using w i by (auto simp: locks_in_def locks_ok_def lock_view_def remove_lock_cover_at_def)
qed

lemma locks_lock:
  assumes env: "holds env (locks_in e c)" and w: "locks_in e c (lock_view w)"
  shows "locks_in e c (lock_view (snd (luaA_awesome_lock env w)))"
proof (cases "lua_locked w \<or> lock_surface w = None \<or> ext_locked w")
  case False
  have "locks_in e c (lock_view (w\<lparr>lua_locked := True, lua_authenticated := False\<rparr>))"
    using w False by (simp add: locks_in_def locks_ok_def lock_view_def)
  from holds_parts(2) [OF env holds_activate [OF env this]] show ?thesis
    using False by (auto simp: luaA_awesome_lock_def Let_def)
qed (use w in \<open>auto simp: luaA_awesome_lock_def\<close>)

lemma locks_unlock:
  assumes env: "holds env (locks_in e c)" and w: "locks_in e c (lock_view w)"
    and "some_deactivate_lua_lock X env (w\<lparr>lua_locked := False, lua_authenticated := a\<rparr>) = Some w'"
  shows "locks_in e c (lock_view w')"
proof -
  have "locks_in e c (lock_view (w\<lparr>lua_locked := False, lua_authenticated := a\<rparr>))"
    using w by (auto simp: locks_in_def locks_ok_def lock_view_def)
  from holds_deactivate [OF env this assms(3)] show ?thesis .
qed

lemma locks_collected:
  assumes env: "holds env (locks_in e c)" and w: "locks_in e c (lock_view w)"
    and "some_notify_drawin_destroyed X env d w = Some w'"
  shows "locks_in e c (lock_view w')"
proof -
  let ?v = "w\<lparr>lock_surface_ref := None, lock_surface := None\<rparr>"
  have v: "locks_in e c (lock_view ?v)" using w by (auto simp: locks_in_def locks_ok_def lock_view_def)
  obtain u where u: "locks_in e c (lock_view u)"
    "w' = (case cover_index d u of None \<Rightarrow> u | Some i \<Rightarrow> remove_lock_cover_at i u)"
  proof (cases "lock_surface w = Some d \<and> lua_locked w")
    case True
    then obtain u where "some_deactivate_lua_lock X env (?v\<lparr>lua_locked := False, lua_authenticated := False\<rparr>) = Some u"
      "w' = (case cover_index d (emit_global env ''lock::deactivate'' [] u) of None \<Rightarrow> emit_global env ''lock::deactivate'' [] u
         | Some i \<Rightarrow> remove_lock_cover_at i (emit_global env ''lock::deactivate'' [] u))"
      using assms(3) by (auto simp: some_notify_drawin_destroyed_def)
    with that show ?thesis using locks_unlock [OF env v] holds_parts(2) [OF env] by blast
  next
    case False
    show ?thesis
    proof (rule that)
      show "locks_in e c (lock_view (if lock_surface w = Some d then ?v else w))" using v w by simp
      show "w' = (case cover_index d (if lock_surface w = Some d then ?v else w) of
          None \<Rightarrow> (if lock_surface w = Some d then ?v else w)
        | Some i \<Rightarrow> remove_lock_cover_at i (if lock_surface w = Some d then ?v else w))"
        using False assms(3) by (auto simp: some_notify_drawin_destroyed_def)
    qed
  qed
  show ?thesis
  proof (cases "cover_index d u")
    case (Some i)
    then show ?thesis using u view_of_cover [OF u(1)] by simp
  qed (use u in simp)
qed

lemma locks_op:
  assumes env: "holds env (locks_in e c)" and w: "locks_in e c (lock_view w)"
    and "run_lua_op X env oper w = Some w'"
  shows "locks_in e c (lock_view w')"
proof (cases oper)
  case OpLock
  then show ?thesis using assms(3) locks_lock [OF env w] by auto
next
  case OpUnlock
  then show ?thesis using assms(3) w locks_unlock [OF env w] holds_parts(2) [OF env]
    by (auto simp: luaA_awesome_unlock_def split: if_splits)
next
  case (OpCollect d)
  then show ?thesis using assms(3) w locks_collected [OF env w] by (auto split: if_splits)
next
  case (OpFocus d)
  then show ?thesis using assms(3) holds_client_focus [OF env w] by auto
next
  case (OpAuthenticate pw)
  have "locks_in e c (lock_view (w\<lparr>lua_authenticated := True\<rparr>))"
    using w by (auto simp: locks_in_def locks_ok_def lock_view_def)
  then show ?thesis using OpAuthenticate assms(3) w holds_parts(2) [OF env]
    by (auto simp: luaA_awesome_authenticate_def split: if_splits)
next
  case (OpAddCover v)
  show ?thesis
  proof (cases "\<exists>d. resolve_drawin_arg X v = Some d \<and> cover_index d w = None \<and> length (lock_covers w) < MAX_LOCK_COVERS")
    case True
    then obtain d where d: "resolve_drawin_arg X v = Some d" "cover_index d w = None" "length (lock_covers w) < MAX_LOCK_COVERS" by blast
    have "locks_in e c (lock_view (w\<lparr>lock_covers := lock_covers w @ [(d, v)]\<rparr>))"
      using w d by (auto simp: locks_in_def locks_ok_def lock_view_def cover_index_def index_of_None)
    then show ?thesis using OpAddCover assms(3) d holds_parts(1) [OF env]
      by (auto simp: luaA_awesome_add_lock_cover_def some_promote_lock_cover_def or_unchanged_def Let_def split: if_splits)
  next
    case False
    then show ?thesis using OpAddCover assms(3) w
      by (auto simp: luaA_awesome_add_lock_cover_def or_unchanged_def not_less split: option.splits if_splits)
  qed
next
  case (OpRemoveCover v)
  then show ?thesis using assms(3) w view_of_cover [OF w]
    by (auto simp: luaA_awesome_remove_lock_cover_def split: option.splits)
qed (use assms(3) w in \<open>auto simp: luaA_awesome_set_lock_surface_def luaA_awesome_clear_lock_surface_def
    luaA_awesome_clear_lock_covers_def luaA_keygrabber_run_def or_unchanged_def locks_in_def locks_ok_def lock_view_def
    split: option.splits if_splits\<close>)

lemma locks_ops:
  assumes env: "holds env (locks_in e c)"
  shows "locks_in e c (lock_view w) \<Longrightarrow> run_lua_ops X env ops w = Some w' \<Longrightarrow> locks_in e c (lock_view w')"
  by (induction ops arbitrary: w) (auto simp: bind_eq_Some_conv dest: locks_op [OF env])

lemma locks_env:
  assumes "keeps base lock_view"
  shows "holds (lua_env X script base n) (locks_in e c)"
proof (induction n)
  case 0
  have "lua_env X script base 0 = base" by (simp add: fun_eq_iff)
  then show ?case using assms by (simp add: holds_def preserves_def keeps_def)
next
  case (Suc n)
  have "locks_in e c (lock_view (lua_env X script base (Suc n) k w))" if w: "locks_in e c (lock_view w)" for k w
  proof -
    have b: "locks_in e c (lock_view (base k w))" using assms w by (simp add: keeps_def)
    show ?thesis using b locks_ops [OF Suc b] by (simp add: or_unchanged_def split: option.split)
  qed
  then show ?case by (simp add: holds_def preserves_def)
qed

text \<open>
  What can happen to the locks: Lua code runs, a client asks for the lock of the protocol, ends
  it or dies, its surfaces come and go, the configuration is reloaded, a drawin is destroyed.
  wlroots reports the end of a lock only while there is one.
\<close>

datatype lock_event =
    EvLua "lua_op list" | EvLockSession nat | EvUnlockSession | EvDestroyLock
  | EvNewSurface nat nat | EvSurfaceGone nat nat | EvReload bool | EvWiped nat

fun run_event :: "lock_lib \<Rightarrow> env \<Rightarrow> lock_event \<Rightarrow> world \<Rightarrow> world option" where
  "run_event X env (EvLua ops) w = run_lua_ops X env ops w"
| "run_event X env (EvLockSession l) w = locksession X env l w"
| "run_event X env EvUnlockSession w = (if cur_lock w = None then Some w else unlocksession X env w)"
| "run_event X env EvDestroyLock w = (if cur_lock w = None then Some w else destroysessionlock X env w)"
| "run_event X env (EvNewSurface m s) w = Some (createlocksurface env m s w)"
| "run_event X env (EvSurfaceGone m s) w = destroylocksurface X env m s w"
| "run_event X env (EvReload safe) w = lock_hot_reload X env safe w"
| "run_event X env (EvWiped d) w = some_notify_drawin_destroyed X env d w"

inductive lock_reach :: "lock_lib \<Rightarrow> env \<Rightarrow> world \<Rightarrow> bool" for X env where
  start: "\<not> lua_locked w \<Longrightarrow> \<not> ext_locked w \<Longrightarrow> cur_lock w = None \<Longrightarrow> lock_surface w = None \<Longrightarrow>
    lock_surface_ref w = None \<Longrightarrow> lock_covers w = [] \<Longrightarrow> lock_reach X env w"
| step: "lock_reach X env w \<Longrightarrow> run_event X env ev w = Some w' \<Longrightarrow> lock_reach X env w'"

definition session_ok :: "world \<Rightarrow> bool" where
  "session_ok w \<longleftrightarrow> locks_ok (lock_view w) \<and> (cur_lock w \<noteq> None \<longrightarrow> ext_locked w)"

text \<open>The requests to wlroots leave the locks alone.\<close>

definition quiet_wlroots :: "env \<Rightarrow> bool" where
  "quiet_wlroots env \<longleftrightarrow> (\<forall>k w. wlroots_call k \<longrightarrow> lock_view (env k w) = lock_view w)"

lemma quiet_call: "quiet_wlroots env \<Longrightarrow> wlroots_call k \<Longrightarrow> lock_view (call_env env k w) = lock_view w"
  by (simp add: quiet_wlroots_def call_env_def)

lemma quiet_lua_env: "keeps base lock_view \<Longrightarrow> quiet_wlroots (lua_env X script base n)"
  by (cases n) (simp_all add: quiet_wlroots_def keeps_def)

lemma wlroots_calls [simp]:
  "wlroots_call (Native ''xdg_popups_destroy'' xs)" "wlroots_call (Native ''xwayland_surface_activate'' xs)"
  "wlroots_call (Native ''xdg_toplevel_set_activated'' xs)" "wlroots_call (Native ''foreign_toplevel_set_activated'' xs)"
  "wlroots_call (Native ''seat_keyboard_notify_clear_focus'' xs)" "wlroots_call (Native ''seat_keyboard_notify_enter'' xs)"
  "wlroots_call (Native ''declare_mark_all_dirty'' xs)" "wlroots_call (Native ''wlr_session_lock_v1_send_locked'' xs)"
  "wlroots_call (Native ''wlr_session_lock_v1_destroy'' xs)" "wlroots_call (Native ''wlr_scene_node_destroy'' xs)"
  by (simp_all add: wlroots_call_def)

lemma focus_none_quiet:
  assumes "quiet_wlroots env" and "focusclient fuel env col bor None False w = Some w'"
  shows "lock_view w' = lock_view w"
proof -
  note q = quiet_call [OF assms(1)]
  have act: "lock_view (client_activate_surface env s b v) = lock_view v" for s b v
    by (simp add: client_activate_surface_def q split: option.split surface_role.split)
  have pop: "lock_view (destroy_popups env t v) = lock_view v" for t v
    by (simp add: destroy_popups_def q split: toplevel.split)
  have dea: "lock_view (deactivate_old env old t None v) = lock_view v" for old t v
    by (simp add: deactivate_old_def Let_def q act split: toplevel.split)
  have unf: "unfocus_previous bor None v = v" for v by (simp add: unfocus_previous_def split: option.split)
  show ?thesis using assms(2)
    by (auto simp: focusclient_def Let_def bind_eq_Some_conv pop dea unf split: if_splits)
qed

lemma session_locks_in: "session_ok w \<Longrightarrow> locks_in (ext_locked w) (cur_lock w) (lock_view w)"
  by (simp add: session_ok_def locks_in_def lock_view_def)

lemma session_ok_in: "locks_in e c (lock_view w) \<Longrightarrow> (c \<noteq> None \<longrightarrow> e) \<Longrightarrow> session_ok w"
  by (auto simp: session_ok_def locks_in_def lock_view_def)

lemma session_destroylock:
  assumes env: "\<And>e c. holds env (locks_in e c)" and quiet: "quiet_wlroots env"
    and w: "session_ok w" "cur_lock w \<noteq> None" and "destroylock X env unlock w = Some w'"
  shows "session_ok w'"
proof -
  define v where "v = (call_env env (Native ''seat_keyboard_notify_clear_focus'' []) w)\<lparr>ext_locked := \<not> unlock\<rparr>"
  have "lock_view (call_env env (Native ''seat_keyboard_notify_clear_focus'' []) w) = lock_view w"
    using quiet by (simp add: quiet_call)
  then have v: "locks_in (\<not> unlock) (cur_lock w) (lock_view v)"
    using w by (auto simp: v_def session_ok_def locks_in_def locks_ok_def lock_view_def)
  obtain u where u: "locks_in (\<not> unlock) (cur_lock w) (lock_view u)"
    "w' = (call_env env (Native ''wlr_scene_node_destroy'' []) u)\<lparr>cur_lock := None\<rparr>"
  proof (cases unlock)
    case True
    then obtain x where "focus_restore (lib_fuel X) env (lib_focuscolor X) (lib_bordercolor X) True (selmon v) (mark_all_dirty env v) = Some x"
      "w' = (call_env env (Native ''wlr_scene_node_destroy'' []) (call_env env (Native ''motionnotify'' []) x))\<lparr>cur_lock := None\<rparr>"
      using assms(5) by (auto simp: destroylock_def Let_def v_def)
    with that v show ?thesis
      using holds_focus_restore [OF env holds_parts(1) [OF env v]] holds_call [OF env] by metis
  next
    case False
    with that v assms(5) show ?thesis by (auto simp: destroylock_def Let_def v_def)
  qed
  have "locks_in (\<not> unlock) (cur_lock w) (lock_view (call_env env (Native ''wlr_scene_node_destroy'' []) u))"
    by (rule holds_call [OF env u(1)])
  then show ?thesis unfolding u(2) by (auto simp: session_ok_def locks_in_def locks_ok_def lock_view_def)
qed

lemma session_step:
  assumes env: "\<And>e c. holds env (locks_in e c)" and quiet: "quiet_wlroots env"
    and w: "session_ok w" and "run_event X env ev w = Some w'"
  shows "session_ok w'"
proof -
  note here = session_locks_in [OF w] and sok = session_ok_in [of "ext_locked w" "cur_lock w"]
  have c: "cur_lock w \<noteq> None \<longrightarrow> ext_locked w" using w by (simp add: session_ok_def)
  show ?thesis
  proof (cases ev)
    case (EvLua ops)
    then show ?thesis using assms(4) locks_ops [OF env here] sok c by simp
  next
    case (EvLockSession l)
    show ?thesis
    proof (cases "cur_lock w \<noteq> None \<or> lua_locked w")
      case True
      then show ?thesis using EvLockSession assms(4) holds_call [OF env here] sok c by (auto simp: locksession_def)
    next
      case False
      then obtain x where x: "focusclient (lib_fuel X) env (lib_focuscolor X) (lib_bordercolor X) None False w = Some x"
        "w' = call_env env (Native ''wlr_session_lock_v1_send_locked'' [LLight l]) (mark_all_dirty env (x\<lparr>cur_lock := Some l, ext_locked := True\<rparr>))"
        using EvLockSession assms(4) by (auto simp: locksession_def Let_def)
      have "locks_in True (Some l) (lock_view (x\<lparr>cur_lock := Some l, ext_locked := True\<rparr>))"
        using focus_none_quiet [OF quiet x(1)] False w by (auto simp: session_ok_def locks_in_def locks_ok_def lock_view_def)
      from holds_call [OF env holds_parts(1) [OF env this]] show ?thesis unfolding x(2) by (rule session_ok_in) simp
    qed
  next
    case EvUnlockSession
    then show ?thesis using assms(4) w session_destroylock [OF env quiet w] by (auto simp: unlocksession_def split: if_splits)
  next
    case EvDestroyLock
    then show ?thesis using assms(4) w session_destroylock [OF env quiet w] by (auto simp: destroysessionlock_def split: if_splits)
  next
    case (EvNewSurface m s)
    have "locks_in (ext_locked w) (cur_lock w) (lock_view (createlocksurface env m s w))"
      using here holds_call [OF env] by (simp add: createlocksurface_def upd_monitor_def Let_def)
    then show ?thesis using EvNewSurface assms(4) sok c by simp
  next
    case (EvSurfaceGone m s)
    define v where "v = (if m_lock_render_owner (mo w m) then upd_monitor m (\<lambda>x. x\<lparr>m_lock_render_owner := False\<rparr>)
      (call_env env (Native ''render_park'' [LUser s]) w) else w)"
    define u where "u = call_env env (Native ''declare_output_mark_dirty'' [LLight m])
      (call_env env (Native ''declare_handle_drop'' [LUser s]) (upd_monitor m (\<lambda>x. x\<lparr>m_lock_surface := None\<rparr>) v))"
    have "locks_in (ext_locked w) (cur_lock w) (lock_view v)"
      using here holds_call [OF env here] by (simp add: v_def upd_monitor_def)
    then have u: "locks_in (ext_locked w) (cur_lock w) (lock_view u)"
      unfolding u_def by (intro holds_call [OF env]) (simp add: upd_monitor_def)
    have "locks_in (ext_locked w) (cur_lock w) (lock_view w')"
      using EvSurfaceGone assms(4) u holds_call [OF env u] holds_focus_restore [OF env u]
      by (auto simp: destroylocksurface_def Let_def v_def [symmetric] u_def [symmetric] split: if_splits)
    then show ?thesis using sok c by simp
  next
    case (EvReload safe)
    define v where "v = w\<lparr>lua_locked := False\<rparr>"
    have v: "locks_in (ext_locked w) (cur_lock w) (lock_view v)"
      using here by (auto simp: v_def locks_in_def locks_ok_def lock_view_def)
    obtain u where u: "locks_in (ext_locked w) (cur_lock w) (lock_view u)"
      "w' = u\<lparr>lua_authenticated := False, lock_surface := None, lock_surface_ref := None, lock_covers := []\<rparr>"
    proof (cases "lua_locked w")
      case True
      have "locks_in (ext_locked w) (cur_lock w) (lock_view (some_deactivate_lua_lock_no_focus env v))"
        using holds_parts(1) [OF env v] by (simp add: some_deactivate_lua_lock_no_focus_def)
      then show ?thesis using that EvReload True assms(4) holds_deactivate [OF env v]
        by (auto simp: lock_hot_reload_def v_def Let_def split: if_splits)
    next
      case False
      then show ?thesis using that EvReload here assms(4) by (auto simp: lock_hot_reload_def)
    qed
    have "locks_in (ext_locked w) (cur_lock w) (lock_view w')"
      using u(1) unfolding u(2) by (auto simp: locks_in_def locks_ok_def lock_view_def)
    then show ?thesis using sok c by simp
  next
    case (EvWiped d)
    then show ?thesis using assms(4) locks_collected [OF env here] sok c by simp
  qed
qed

text \<open>
  C6: At most one of the two locks is ever active. In every state reachable from one with no
  lock, by Lua code, lock clients and their surfaces, reloads and destroyed drawins, in any
  order and with handlers that use the lock functions nested to any depth: the lock of Lua and
  that of the protocol are not both active, a lock client exists only while its lock is active,
  a lock surface is registered exactly when its reference is held, and the covers are at most
  16 and distinct.
\<close>
theorem locks_exclude_each_other:
  assumes "keeps base lock_view" and "lock_reach X (lua_env X script base n) w"
  shows "\<not> (lua_locked w \<and> ext_locked w) \<and> (cur_lock w \<noteq> None \<longrightarrow> ext_locked w) \<and>
    (lock_surface w = None \<longleftrightarrow> lock_surface_ref w = None) \<and>
    length (lock_covers w) \<le> 16 \<and> distinct (map fst (lock_covers w))"
proof -
  have "session_ok w" using assms(2)
  proof (induction rule: lock_reach.induct)
    case (start w)
    then show ?case by (simp add: session_ok_def locks_ok_def lock_view_def)
  next
    case (step w ev w')
    from session_step [OF locks_env [OF assms(1)] quiet_lua_env [OF assms(1)] step.IH step.hyps(2)] show ?case .
  qed
  then show ?thesis by (simp add: session_ok_def locks_ok_def lock_view_def)
qed

lemma locks_exclude_each_other_witness:
  "\<exists>w. lock_reach demo_lock_lib (lua_env demo_lock_lib demo_script idle 2) w \<and>
     lua_locked w \<and> \<not> ext_locked w \<and> length (lock_covers w) \<le> 16"
proof -
  define w1 where "w1 = world0\<lparr>lock_surface_ref := Some (LUser 7), lock_surface := Some 7\<rparr>"
  define w2 where "w2 = snd (luaA_awesome_lock (lua_env demo_lock_lib demo_script idle 2) w1)"
  have "lock_reach demo_lock_lib (lua_env demo_lock_lib demo_script idle 2) world0"
    by (rule lock_reach.start) (simp_all add: world0_def)
  then have "lock_reach demo_lock_lib (lua_env demo_lock_lib demo_script idle 2) w1"
    by (rule lock_reach.step [where ev = "EvLua [OpSetSurface (LUser 7)]"])
      (simp add: w1_def luaA_awesome_set_lock_surface_def resolve_drawin_arg_def demo_lock_lib_def or_unchanged_def)
  then have r: "lock_reach demo_lock_lib (lua_env demo_lock_lib demo_script idle 2) w2"
    by (rule lock_reach.step [where ev = "EvLua [OpLock]"]) (simp add: w2_def)
  have "holds (lua_env demo_lock_lib demo_script idle 2) (shut {7})"
    by (rule shut_env [OF _ demo_wrong]) (simp add: holds_def)
  then have "shut {7} (lock_view w2)" unfolding w2_def by (rule lock_shuts) (simp_all add: w1_def world0_def)
  then show ?thesis
    using r locks_exclude_each_other [of idle demo_lock_lib demo_script 2 w2] by (auto simp: shut_def lock_view_def)
qed

subsection \<open>The keyboard comes back\<close>

lemma seat_env_locks:
  assumes "seat_env env" shows "lock_view (call_env env k w) = lock_view w"
proof -
  have "lock_view (calm v) = lock_view v" for v by (simp add: lock_view_def calm_def)
  then show ?thesis using calm_call [OF assms] by metis
qed

lemma seat_env_holds: "seat_env env \<Longrightarrow> holds env Q"
proof -
  assume env: "seat_env env"
  have "lock_view (env k v) = lock_view v" for k v
  proof -
    have "keeps env calm" using env by (simp add: seat_env_def)
    then have "calm (env k v) = calm v" by (simp add: keeps_def)
    moreover have "lock_view (calm v) = lock_view v" for v by (simp add: lock_view_def calm_def)
    ultimately show ?thesis by metis
  qed
  then show ?thesis by (simp add: holds_def preserves_def)
qed

lemma focusclient_locks:
  assumes "seat_env env" and "focusclient fuel env col bor c lift w = Some w'"
  shows "lock_view w' = lock_view w"
  by (rule holds_focusclient [OF seat_env_holds [OF assms(1)] refl assms(2)])

lemma calm_sel2: "calm v = calm w \<Longrightarrow> cl v = cl w \<and> surf v = surf w \<and> stack v = stack w \<and> focus_client v = focus_client w \<and>
   mousegrabber_running v = mousegrabber_running w \<and> pre_lock_client v = pre_lock_client w \<and> queue v = queue w"
  by (metis calm_def world.select_convs world.surjective world.update_convs)

text \<open>The lock of Lua, and what happens when it ends, for an environment that only has a seat.\<close>

definition restorable :: "nat \<Rightarrow> nat \<Rightarrow> world \<Rightarrow> bool" where
  "restorable c s w \<longleftrightarrow> has_scene (cl w c) \<and> \<not> client_is_unmanaged (cl w c) \<and> client_surface (cl w c) = Some s \<and>
     (client_type (cl w c) = X11 \<or> sf_mapped (surf w s)) \<and> distinct (stack w)"

lemma lock_runs:
  assumes env: "seat_env env" and "ungrabbed w" and "\<not> session_locked w" and "lock_surface w = Some d"
    and "\<not> mousegrabber_running w"
  shows "\<exists>w1. luaA_awesome_lock env w = (True, w1) \<and> seat_focus w1 = None \<and> ungrabbed w1 \<and>
    lock_view w1 = (lock_view w)\<lparr>st_lua := True, st_auth := False\<rparr> \<and> pre_lock_client w1 = focus_client w \<and>
    cl w1 = cl w \<and> surf w1 = surf w \<and> stack w1 = stack w"
proof -
  note call = calm_call [OF env]
  define w0 where "w0 = w\<lparr>lua_locked := True, lua_authenticated := False, pre_lock_client := focus_client w\<rparr>"
  define w1 where "w1 = emit_global env ''lock::activate'' [LStr ''user'']
    (mark_all_dirty env (call_env env (Native ''seat_keyboard_notify_clear_focus'' []) w0))"
  have g0: "ungrabbed w0" using assms(2) by (simp add: w0_def)
  have c1: "calm w1 = calm w0" by (simp add: w1_def emit_global_def mark_all_dirty_def call)
  have "mousegrabber_running (call_env env (Native ''seat_keyboard_notify_clear_focus'' []) w0) = mousegrabber_running w0"
    using calm_sel2 [OF call] by blast
  then have "luaA_awesome_lock env w = (True, w1)"
    using assms(3-5) by (simp add: luaA_awesome_lock_def some_activate_lua_lock_def Let_def w1_def w0_def)
  moreover have "seat_focus w1 = None" "ungrabbed w1"
    using env g0 by (simp_all add: w1_def emit_global_def mark_all_dirty_def seat_call_def)
  moreover have "lock_view w1 = lock_view w0" by (simp add: w1_def emit_global_def mark_all_dirty_def seat_env_locks [OF env])
  then have "lock_view w1 = (lock_view w)\<lparr>st_lua := True, st_auth := False\<rparr>" by (simp add: lock_view_def w0_def)
  ultimately show ?thesis using calm_sel2 [OF c1] by (simp add: w0_def)
qed

lemma deactivate_runs:
  assumes env: "seat_env env" and "ungrabbed w" and "\<not> session_locked w" and "seat_focus w = None"
    and "pre_lock_client w = Some c" and r: "restorable c s w"
  shows "\<exists>w'. some_deactivate_lua_lock X env w = Some w' \<and> lock_view w' = lock_view w \<and> ungrabbed w' \<and>
    focus_client w' = Some c \<and> seat_focus w' = Some s \<and> pre_lock_client w' = None"
proof -
  note call = calm_call [OF env]
  define u where "u = mark_all_dirty env w"
  have cu: "calm u = calm w" by (simp add: u_def mark_all_dirty_def call)
  have gu: "ungrabbed u" "seat_focus u = None" using env assms(2,4) by (simp_all add: u_def mark_all_dirty_def seat_call_def)
  have lu: "lock_view u = lock_view w" by (simp add: u_def mark_all_dirty_def seat_env_locks [OF env])
  then have un: "\<not> session_locked u" using assms(3) by (simp add: lock_view_def)
  note parts = calm_sel2 [OF cu]
  have man: "\<not> client_is_unmanaged (cl u c)" and sf: "client_surface (cl u c) = Some s" and seatu: "seat_focus u \<noteq> Some s"
    and rdy: "if client_type (cl u c) = X11 then has_scene (cl u c) else sf_mapped (surf u s)"
    and top: "toplevel_from_wlr_surface (lib_fuel X) (seat_focus u) u = Some TOP_NONE"
    and fre: "\<not> (seat_focus u \<noteq> None \<and> focus_blocked TOP_NONE u)" and dist: "distinct (stack u)"
    and yie: "grab_yields TOP_NONE u"
    using parts r gu by (auto simp: restorable_def toplevel_from_wlr_surface_def grab_yields_def)
  obtain v x where x: "focusclient (lib_fuel X) env (lib_focuscolor X) (lib_bordercolor X) (Some c) True u = Some x"
    "calm v = taken c (unfocus_previous (lib_bordercolor X) (Some c) (moved_front (lib_focuscolor X) c (calm (lifted True c u))))"
    "seat_focus x = Some s" "ungrabbed x" "calm x = (calm v)\<lparr>stack := arranged v, need_stack_refresh := False\<rparr>"
    using focusclient_runs [OF env un man sf seatu rdy top fre dist yie, of "lib_focuscolor X" "lib_bordercolor X" True] by blast
  define w' where "w' = call_env env (Native ''motionnotify'' []) (x\<lparr>pre_lock_client := None\<rparr>)"
  have c3: "calm w' = (calm x)\<lparr>pre_lock_client := None\<rparr>" by (simp add: w'_def call) (simp add: calm_def)
  have "some_deactivate_lua_lock X env w = Some w'"
    using x(1) parts assms(5) r unfolding some_deactivate_lua_lock_def Let_def u_def [symmetric]
    by (simp add: w'_def restorable_def)
  moreover have "lock_view w' = lock_view w"
    using focusclient_locks [OF env x(1)] lu by (simp add: w'_def seat_env_locks [OF env])
  moreover have "seat_focus w' = Some s" "ungrabbed w'" using env x(3,4) by (simp_all add: w'_def seat_call_def)
  moreover have "focus_client w' = Some c"
  proof -
    have "focus_client (calm w') = Some c" unfolding c3 x(5) using x(2) by simp
    then show ?thesis by simp
  qed
  moreover have "pre_lock_client w' = None"
  proof -
    have "pre_lock_client (calm w') = None" unfolding c3 by simp
    then show ?thesis by (simp add: calm_def)
  qed
  ultimately show ?thesis by blast
qed

text \<open>
  C30: Locking and unlocking gives the keyboard back. From an unlocked session with a registered
  lock surface, and while no popup or drag has grabbed the keyboard, the lock takes the keyboard
  from every surface; after an accepted password the unlock succeeds, ends the lock and gives
  focus and keyboard to the client that had the focus before, as long as it is still there. The
  environment is assumed to change only what wlroots documents of the seat.
\<close>
theorem lock_unlock_restores_focus:
  assumes env: "seat_env env" and "ungrabbed w" and unlocked: "\<not> session_locked w"
    and surface: "lock_surface w = Some d" and focus: "focus_client w = Some c" "has_scene (cl w c)"
    and managed: "\<not> client_is_unmanaged (cl w c)" and surf: "client_surface (cl w c) = Some s"
    and ready: "client_type (cl w c) = X11 \<or> sf_mapped (surf w s)"
    and rest: "\<not> mousegrabber_running w" "distinct (stack w)" and "\<And>v. pam X pw v"
  shows "\<exists>w1 w2 w3. luaA_awesome_lock env w = (True, w1) \<and> lua_locked w1 \<and> seat_focus w1 = None \<and>
    luaA_awesome_authenticate X env pw w1 = (True, w2) \<and> lua_locked w2 \<and>
    luaA_awesome_unlock X env w2 = Some (True, w3) \<and> \<not> session_locked w3 \<and>
    focus_client w3 = Some c \<and> seat_focus w3 = Some s \<and> pre_lock_client w3 = None"
proof -
  obtain w1 where w1: "luaA_awesome_lock env w = (True, w1)" "seat_focus w1 = None" "ungrabbed w1"
    "lock_view w1 = (lock_view w)\<lparr>st_lua := True, st_auth := False\<rparr>" "pre_lock_client w1 = Some c"
    "cl w1 = cl w" "surf w1 = surf w" "stack w1 = stack w"
    using lock_runs [OF env assms(2) unlocked surface rest(1)] focus(1) by auto
  let ?w2 = "w1\<lparr>lua_authenticated := True\<rparr>"
  let ?u = "?w2\<lparr>lua_locked := False, lua_authenticated := False\<rparr>"
  have locked: "lua_locked w1" "\<not> ext_locked w1" using w1(4) unlocked by (simp_all add: lock_view_def)
  have "restorable c s ?u" using w1(6-8) focus managed surf ready rest(2) by (simp add: restorable_def)
  then obtain x where x: "some_deactivate_lua_lock X env ?u = Some x" "lock_view x = lock_view ?u" "ungrabbed x"
    "focus_client x = Some c" "seat_focus x = Some s" "pre_lock_client x = None"
    using deactivate_runs [OF env, of ?u c s X] w1(2,3,5) locked by auto
  define w3 where "w3 = emit_global env ''lock::deactivate'' [] x"
  have "luaA_awesome_unlock X env ?w2 = Some (True, w3)" using x(1) locked by (simp add: luaA_awesome_unlock_def w3_def)
  moreover have "luaA_awesome_authenticate X env pw w1 = (True, ?w2)" using assms(12) by (simp add: luaA_awesome_authenticate_def)
  moreover have "seat_focus w3 = Some s" using env x(3,5) by (simp add: w3_def emit_global_def seat_call_def)
  moreover have "focus_client w3 = Some c" "pre_lock_client w3 = None"
    using calm_sel2 [OF calm_call [OF env]] x(4,6) by (simp_all add: w3_def emit_global_def)
  moreover have "lock_view w3 = lock_view ?u" using x(2) by (simp add: w3_def emit_global_def seat_env_locks [OF env])
  then have "\<not> session_locked w3" using locked by (simp add: lock_view_def)
  ultimately show ?thesis using w1(1,2) locked by (intro exI [of _ w1] exI [of _ ?w2] exI [of _ w3]) simp
qed


definition restore_demo :: world where
  "restore_demo = world0\<lparr>cl := (\<lambda>c. client0\<lparr>has_surface := True, surface := Some (c + 10), has_scene := True\<rparr>),
     surf := (\<lambda>s. \<lparr>root_surface = s, sf_role = Other_surface, sf_mapped = True, sf_constraint = None\<rparr>),
     stack := [5, 6], focus_client := Some 6, seat_focus := Some 16, lock_surface := Some 7\<rparr>"

lemma restore_demo_sel [simp]:
  "lua_locked restore_demo = False" "ext_locked restore_demo = False" "lock_surface restore_demo = Some 7"
  "focus_client restore_demo = Some 6" "cl restore_demo c = client0\<lparr>has_surface := True, surface := Some (c + 10), has_scene := True\<rparr>"
  "sf_mapped (surf restore_demo s)" "mousegrabber_running restore_demo = False" "stack restore_demo = [5, 6]"
  "kb_grab restore_demo = Ungrabbed"
  by (simp_all add: restore_demo_def world0_def)

text \<open>A library where the lock surface is a wibox at table 9 with the drawin 7, and no password is right.\<close>

definition wibox_lock_lib :: lock_lib where
  "wibox_lock_lib = demo_lock_lib\<lparr>todrawin := (\<lambda>v. if v = LUser 7 then Some 7 else None),
     drawin_field := (\<lambda>v. if v = LTable 9 then LUser 7 else LNil), pam := (\<lambda>pw w. False)\<rparr>"


lemma lock_unlock_restores_focus_witness:
  "\<exists>w1 w2 w3. luaA_awesome_lock seat restore_demo = (True, w1) \<and> seat_focus w1 = None \<and>
     luaA_awesome_authenticate demo_lock_lib seat ''secret'' w1 = (True, w2) \<and>
     luaA_awesome_unlock demo_lock_lib seat w2 = Some (True, w3) \<and> seat_focus w3 = Some 16"
  using lock_unlock_restores_focus [of seat restore_demo 7 6 16 demo_lock_lib "''secret''"] seat_env_seat
  by (fastforce simp: client0_def client_is_unmanaged_def client_is_x11_def client_surface_def demo_lock_lib_def)

subsection \<open>The keyboard under the lock protocol\<close>

text \<open>The environment whose keyboard call is the function of somewm_api.c.\<close>

definition code_seat :: "nat \<Rightarrow> env \<Rightarrow> env" where
  "code_seat fuel base k w =
     (case k of
        Native n [v, LBool changed] \<Rightarrow>
          if n = ''seat_keyboard_focus''
          then or_unchanged (some_set_seat_keyboard_focus fuel base (case v of LUser c \<Rightarrow> Some c | _ \<Rightarrow> None) changed w) w
          else base k w
      | _ \<Rightarrow> base k w)"

lemma seat_flags: "keeps seat lock_flags"
  by (simp add: keeps_def seat_def lock_flags_def split: call.split)

definition plain_client :: "client \<Rightarrow> nat \<Rightarrow> bool" where
  "plain_client x s \<longleftrightarrow> client_type x = XDGShell \<and> has_surface x \<and> surface x = Some s"

lemma seat_field:
  assumes "calm v = calm w" shows "ext_locked v = ext_locked w" "lua_locked v = lua_locked w"
  using arg_cong [OF assms, of ext_locked] arg_cong [OF assms, of lua_locked] unfolding calm_def by simp_all

lemma seat_call_calm: "calm (call_env seat k w) = calm w"
  by (simp add: seat_env_seat)

lemma seat_call_focus: "seat_focus (call_env seat k w) = seat_call k (seat_focus w)"
  by (simp add: seat_def call_env_def seat_call_def split: call.split)

lemmas seat_calls = seat_call_calm seat_call_focus

lemma seat_cursorconstrain: "calm (cursorconstrain seat x w) = calm w \<and> seat_focus (cursorconstrain seat x w) = seat_focus w"
  by (auto simp: cursorconstrain_def Let_def seat_calls seat_call_def split: option.split)

lemma seat_activate: "calm (client_activate_surface seat x b w) = calm w \<and> seat_focus (client_activate_surface seat x b w) = seat_focus w"
  by (simp add: client_activate_surface_def seat_calls seat_call_def split: option.split surface_role.split)

lemma seat_enter_moves: "calm (seat_enter seat c s v) = calm v \<and> seat_focus (seat_enter seat c s v) = Some s"
  by (simp add: seat_enter_def Let_def seat_cursorconstrain seat_activate seat_calls seat_call_def)

lemma seat_moves:
  assumes "seat_focus v = Some ls" and "sf_role (surf v (root_surface (surf v ls))) = Other_surface"
    and "plain_client (cl v c) s" and "sf_mapped (surf v s)" and "s \<noteq> ls"
  shows "\<exists>v'. some_set_seat_keyboard_focus (Suc n) seat (Some c) ch v = Some v' \<and> seat_focus v' = Some s \<and>
    ext_locked v' = ext_locked v \<and> lua_locked v' = lua_locked v"
proof -
  have top: "toplevel_from_wlr_surface (Suc n) (Some ls) v = Some TOP_NONE"
    using assms(2) by (simp add: toplevel_from_wlr_surface_def)
  have "some_set_seat_keyboard_focus (Suc n) seat (Some c) ch v = Some (seat_enter seat c s v)"
    using assms top
    by (simp add: some_set_seat_keyboard_focus_def seat_switch_def plain_client_def client_surface_def client_is_x11_def
        destroy_popups_def focus_blocked_def)
  moreover note seat_enter_moves [of c s v]
  ultimately show ?thesis using seat_field by blast
qed

lemma focus_update_keeps:
  assumes "\<And>k v. k = Emit c ''property::urgent'' [] \<Longrightarrow> env k v = v"
  shows "\<exists>b v. client_focus_update env (Some c) w = (Some b, v) \<and> seat_focus v = seat_focus w \<and> surf v = surf w \<and>
    ext_locked v = ext_locked w \<and> lua_locked v = lua_locked w \<and> (\<forall>s. plain_client (cl v c) s = plain_client (cl w c) s)"
  using assms
  by (auto simp: client_focus_update_def client_unfocus_internal_def client_set_urgent_def call_env_def Let_def
      plain_client_def split: option.split)

text \<open>
  C39: The lock protocol does not hold the keyboard. Under its lock, with the keyboard on the
  surface of the locker, focusing a client from Lua moves the keyboard to the client's surface
  and leaves the session locked, and the keys pressed from then on are forwarded there.
\<close>
theorem ext_lock_keyboard_escapes:
  assumes "ext_locked w" and "\<not> lua_locked w" and "seat_focus w = Some ls"
    and "sf_role (surf w (root_surface (surf w ls))) = Other_surface"
    and "plain_client (cl w c) s" and "sf_mapped (surf w s)" and "s \<noteq> ls"
  shows "\<exists>w'. client_focus (code_seat (Suc n) seat) (Some c) w = w' \<and> ext_locked w' \<and> seat_focus w' = Some s \<and>
    trace (snd (keypress seat lower ev g w')) = trace w' @ [Native ''notify_activity'' [],
      Native ''wlr_seat_set_keyboard'' [],
      Native ''wlr_seat_keyboard_notify_key'' [LInt (uint (ev_keycode ev)), LBool (ev_pressed ev)]]"
proof -
  have "code_seat (Suc n) seat (Emit c x y) v = v" for x y v by (simp add: code_seat_def seat_def seat_call_def)
  then obtain b v where v: "client_focus_update (code_seat (Suc n) seat) (Some c) w = (Some b, v)" "seat_focus v = Some ls"
    "surf v = surf w" "ext_locked v" "\<not> lua_locked v" "plain_client (cl v c) s"
    using focus_update_keeps [of c "code_seat (Suc n) seat" w] assms by auto
  define u where "u = (if b then v\<lparr>focus_need_update := True\<rparr> else v)\<lparr>trace := trace v @ [Native ''seat_keyboard_focus'' [LUser c, LBool b]]\<rparr>"
  have u: "seat_focus u = seat_focus v" "surf u = surf v" "cl u = cl v" "ext_locked u = ext_locked v" "lua_locked u = lua_locked v"
    by (simp_all add: u_def)
  have "\<exists>v'. some_set_seat_keyboard_focus (Suc n) seat (Some c) b u = Some v' \<and> seat_focus v' = Some s \<and>
      ext_locked v' = ext_locked u \<and> lua_locked v' = lua_locked u"
    by (rule seat_moves [where ls = ls]) (use v u assms in simp_all)
  then obtain w' where w': "some_set_seat_keyboard_focus (Suc n) seat (Some c) b u = Some w'" "seat_focus w' = Some s"
    "ext_locked w'" "\<not> lua_locked w'" using v u by auto
  have "client_focus (code_seat (Suc n) seat) (Some c) w = w'"
    using v(1) w'(1) by (cases b) (simp_all add: client_focus_def call_env_def code_seat_def obj_of_def u_def or_unchanged_def)
  then show ?thesis using w' locked_keypress [OF seat_flags, where w = w' and lower = lower and ev = ev and g = g] by (auto split: prod.splits)
qed

lemma ext_lock_keyboard_escapes_witness:
  "\<exists>w'. client_focus (code_seat 1 seat) (Some 5) (restore_demo\<lparr>ext_locked := True\<rparr>) = w' \<and> ext_locked w' \<and>
     seat_focus w' = Some 15"
  using ext_lock_keyboard_escapes [of "restore_demo\<lparr>ext_locked := True\<rparr>" 16 5 15 0]
  by (auto simp: restore_demo_def world0_def client0_def plain_client_def)

end
