(* ===== verification/Layer.thy ===== *)
theory Layer
  imports Lock
begin

unbundle bit_operations_syntax

text \<open>
  Layer surfaces: the handlers of the layer shell in protocols.c, the Lua object of
  objects/layer_surface.c and the keyboard functions of somewm_api.c. The lemmas show that the C
  surface and its object stay linked both ways, that the keyboard is never owed to a surface that is
  not mapped, what a grab defers, and how a surface that was covered loses the keyboard for good.
\<close>

subsection \<open>Objects\<close>

definition LAYER_CLASS :: nat where "LAYER_CLASS = 3"

abbreviation (input) KEYBOARD_NONE :: nat where "KEYBOARD_NONE \<equiv> 0"
abbreviation (input) KEYBOARD_EXCLUSIVE :: nat where "KEYBOARD_EXCLUSIVE \<equiv> 1"
abbreviation (input) KEYBOARD_ON_DEMAND :: nat where "KEYBOARD_ON_DEMAND \<equiv> 2"

abbreviation (input) LAYER_OVERLAY :: nat where "LAYER_OVERLAY \<equiv> 3"
abbreviation (input) LAYER_TOP :: nat where "LAYER_TOP \<equiv> 2"

definition upd_layer :: "nat \<Rightarrow> (layer \<Rightarrow> layer) \<Rightarrow> world \<Rightarrow> world" where
  "upd_layer l f w = w\<lparr>ly := (ly w)(l := f (ly w l))\<rparr>"

definition upd_lobj :: "nat \<Rightarrow> (layer_obj \<Rightarrow> layer_obj) \<Rightarrow> world \<Rightarrow> world" where
  "upd_lobj x f w = w\<lparr>lobj := (lobj w)(x := f (lobj w x))\<rparr>"

definition layer_surface_allocator :: "nat \<Rightarrow> world \<Rightarrow> world" where
  "layer_surface_allocator x =
     upd_lobj x (\<lambda>_. \<lparr>lo_ls = None, has_keyboard_focus = False, lo_screen = None, lo_buttons = []\<rparr>)"

definition layer_surface_unlink :: "nat \<Rightarrow> world \<Rightarrow> world" where
  "layer_surface_unlink x w =
     (case lo_ls (lobj w x) of
        None \<Rightarrow> w
      | Some l \<Rightarrow> upd_lobj x (\<lambda>y. y\<lparr>lo_ls := None\<rparr>) (upd_layer l (\<lambda>y. y\<lparr>l_object := None\<rparr>) w))"

definition layer_surface_wipe :: "nat \<Rightarrow> world \<Rightarrow> world" where
  "layer_surface_wipe x w =
     upd_lobj x (\<lambda>y. y\<lparr>lo_screen := None\<rparr>) (upd_lobj x (\<lambda>y. y\<lparr>lo_buttons := []\<rparr>) (layer_surface_unlink x w))"

definition layer_surface_checker :: "nat \<Rightarrow> world \<Rightarrow> bool" where
  "layer_surface_checker x w \<longleftrightarrow> lo_ls (lobj w x) \<noteq> None"

text \<open>x is the address Lua gives the new object.\<close>

definition layer_surface_manage :: "nat \<Rightarrow> nat \<Rightarrow> world \<Rightarrow> world" where
  "layer_surface_manage x l w =
     (let w = layer_surface_allocator x w;
          w = upd_layer l (\<lambda>y. y\<lparr>l_object := Some x\<rparr>) (upd_lobj x (\<lambda>y. y\<lparr>lo_ls := Some l\<rparr>) w);
          w = upd_lobj x (\<lambda>y. y\<lparr>lo_screen := luaA_screen_get_by_monitor (l_mon (ly w l)) w\<rparr>) w;
          w = w\<lparr>registry := add_mset x (registry w), layer_surfaces := layer_surfaces w @ [x]\<rparr>
      in enqueue (QClass LAYER_CLASS SIG_LIST) w)"

definition layer_surface_emit_manage :: "env \<Rightarrow> nat \<Rightarrow> string \<Rightarrow> world \<Rightarrow> world" where
  "layer_surface_emit_manage env x ctx = emit env x ''request::manage'' [LStr ctx, LTable 0]"

definition layer_surface_emit_request_keyboard :: "env \<Rightarrow> nat \<Rightarrow> string \<Rightarrow> world \<Rightarrow> world" where
  "layer_surface_emit_request_keyboard env x ctx = emit env x ''request::keyboard'' [LStr ctx, LTable 0]"

definition layer_surface_emit_unmanage :: "env \<Rightarrow> nat \<Rightarrow> world \<Rightarrow> world" where
  "layer_surface_emit_unmanage env x w =
     (let w = emit env x ''request::unmanage'' [LStr ''destroyed'', LTable 0] w;
          w = layer_surface_unlink x w;
          w = (case index_of x (layer_surfaces w) of
                 None \<Rightarrow> w
               | Some i \<Rightarrow> w\<lparr>layer_surfaces := take i (layer_surfaces w) @ drop (Suc i) (layer_surfaces w),
                             registry := registry w - {#x#}\<rparr>)
      in enqueue (QClass LAYER_CLASS SIG_LIST) w)"

text \<open>The hot reload; new_object gives the address of the new object of a surface.\<close>

definition layer_surface_hot_reload_detach :: "world \<Rightarrow> world" where
  "layer_surface_hot_reload_detach w =
     (fold layer_surface_unlink (layer_surfaces w) w)\<lparr>layer_surfaces := []\<rparr>"

definition reload_surface :: "env \<Rightarrow> (nat \<Rightarrow> nat) \<Rightarrow> nat \<Rightarrow> world \<Rightarrow> world" where
  "reload_surface env new_object l w =
     (if \<not> l_mapped (ly w l) \<or> l_object (ly w l) \<noteq> None then w
      else layer_surface_emit_manage env (new_object l) ''restart''
             (layer_surface_manage (new_object l) l w))"

definition layer_surface_hot_reload :: "env \<Rightarrow> (nat \<Rightarrow> nat) \<Rightarrow> world \<Rightarrow> world" where
  "layer_surface_hot_reload env new_object w =
     fold (\<lambda>m w. fold (\<lambda>i w. fold (reload_surface env new_object) (rev (m_layers (mo w m) i)) w) [0..<4] w)
       (mons w) w"

subsection \<open>The keyboard\<close>

definition layer_enter :: "env \<Rightarrow> nat \<Rightarrow> world \<Rightarrow> world" where
  "layer_enter env l w = call_env env (Native ''seat_keyboard_notify_enter'' [LUser (l_surface (ly w l))]) w"

definition layer_take_keyboard :: "lock_lib \<Rightarrow> env \<Rightarrow> nat \<Rightarrow> world \<Rightarrow> world option" where
  "layer_take_keyboard X env l w =
     map_option (\<lambda>w. layer_enter env l (w\<lparr>exclusive_focus := Some l\<rparr>))
       (focusclient (lib_fuel X) env (lib_focuscolor X) (lib_bordercolor X) None False w)"

definition layer_surface_grant_keyboard :: "lock_lib \<Rightarrow> env \<Rightarrow> nat \<Rightarrow> world \<Rightarrow> world option" where
  "layer_surface_grant_keyboard X env l w =
     (if \<not> l_mapped (ly w l) then Some w else layer_take_keyboard X env l w)"

definition layer_surface_revoke_keyboard :: "lock_lib \<Rightarrow> env \<Rightarrow> nat \<Rightarrow> world \<Rightarrow> world option" where
  "layer_surface_revoke_keyboard X env l w =
     (if exclusive_focus w \<noteq> Some l then Some w
      else
        (let w = seat_clear_focus env (w\<lparr>exclusive_focus := None\<rparr>)
         in focusclient (lib_fuel X) env (lib_focuscolor X) (lib_bordercolor X) (focustop (selmon w) w) True w))"

definition layer_surface_focus :: "lock_lib \<Rightarrow> env \<Rightarrow> nat \<Rightarrow> world \<Rightarrow> world option" where
  "layer_surface_focus X env x w =
     (case lo_ls (lobj w x) of None \<Rightarrow> Some w | Some l \<Rightarrow> layer_surface_grant_keyboard X env l w)"

definition layer_surface_unfocus :: "lock_lib \<Rightarrow> env \<Rightarrow> nat \<Rightarrow> world \<Rightarrow> world option" where
  "layer_surface_unfocus X env x w =
     (case lo_ls (lobj w x) of None \<Rightarrow> Some w | Some l \<Rightarrow> layer_surface_revoke_keyboard X env l w)"

definition luaA_layer_surface_set_has_keyboard_focus ::
  "lock_lib \<Rightarrow> env \<Rightarrow> nat \<Rightarrow> bool \<Rightarrow> world \<Rightarrow> world option" where
  "luaA_layer_surface_set_has_keyboard_focus X env x focus w =
     (if focus = has_keyboard_focus (lobj w x) then Some w
      else
        (let w = upd_lobj x (\<lambda>y. y\<lparr>has_keyboard_focus := focus\<rparr>) w
         in map_option (emit env x ''property::has_keyboard_focus'' [])
              (if focus then layer_surface_focus X env x w else layer_surface_unfocus X env x w)))"

definition luaA_layer_surface_get_focusable :: "nat \<Rightarrow> world \<Rightarrow> bool" where
  "luaA_layer_surface_get_focusable x w \<longleftrightarrow>
     (case lo_ls (lobj w x) of None \<Rightarrow> False | Some l \<Rightarrow> l_interactive (ly w l) \<noteq> KEYBOARD_NONE)"

text \<open>
  layer_keyboard_focus: the loop over the surfaces of one layer, and the two layers above the
  windows. The first component tells that a surface took the keyboard, which returns. A list is
  read when its layer is entered: handlers run Lua code, which maps and destroys no surface.
\<close>

fun keyboard_focus_loop :: "lock_lib \<Rightarrow> env \<Rightarrow> nat list \<Rightarrow> world \<Rightarrow> (bool \<times> world) option" where
  "keyboard_focus_loop X env [] w = Some (False, w)"
| "keyboard_focus_loop X env (l # ls) w =
     (if ext_locked w \<or> l_interactive (ly w l) = KEYBOARD_NONE \<or> \<not> l_mapped (ly w l)
      then keyboard_focus_loop X env ls w
      else
        (case l_object (ly w l) of
           Some x \<Rightarrow>
             (let w = layer_surface_emit_request_keyboard env x
                        (if l_interactive (ly w l) = KEYBOARD_EXCLUSIVE then ''exclusive'' else ''on_demand'') w
              in if has_keyboard_focus (lobj w x) then Some (True, w) else keyboard_focus_loop X env ls w)
         | None \<Rightarrow> map_option (Pair True) (layer_take_keyboard X env l w)))"

definition layer_keyboard_focus :: "lock_lib \<Rightarrow> env \<Rightarrow> nat \<Rightarrow> world \<Rightarrow> world option" where
  "layer_keyboard_focus X env m w =
     (if \<not> m_enabled (mo w m) then Some w
      else
        Option.bind (keyboard_focus_loop X env (rev (m_layers (mo w m) LAYER_OVERLAY)) w) (\<lambda>(taken, w).
          if taken then Some w
          else map_option snd (keyboard_focus_loop X env (rev (m_layers (mo w m) LAYER_TOP)) w)))"

text \<open>
  A click on a layer surface: it gets the keyboard if it takes one at all. The outer option is the
  fuel of the focus search.
\<close>

definition click_layer :: "lock_lib \<Rightarrow> env \<Rightarrow> nat \<Rightarrow> nat \<Rightarrow> world \<Rightarrow> world option" where
  "click_layer X env l x w =
     (if l_interactive (ly w l) = KEYBOARD_EXCLUSIVE \<or> l_interactive (ly w l) = KEYBOARD_ON_DEMAND then
        (let w = layer_surface_emit_request_keyboard env x ''click'' w;
             w = (if \<not> has_keyboard_focus (lobj w x)
                  then emit env x ''property::has_keyboard_focus'' []
                         (upd_lobj x (\<lambda>y. y\<lparr>has_keyboard_focus := True\<rparr>) w) else w)
         in layer_surface_grant_keyboard X env l w)
      else Some w)"

subsection \<open>The handlers of the layer shell\<close>

text \<open>
  A commit: whether it is the initial one, the changed fields and, taken over into the surface
  before, its current state. The monitor of a surface is not NULL here, and has a frame.
\<close>

record commit =
  cm_initial :: bool
  cm_committed :: u32

abbreviation (input) SIG_PROPERTY_LAYER :: nat where "SIG_PROPERTY_LAYER \<equiv> 36"
abbreviation (input) SIG_PROPERTY_ANCHOR :: nat where "SIG_PROPERTY_ANCHOR \<equiv> 37"
abbreviation (input) SIG_PROPERTY_EXCLUSIVE_ZONE :: nat where "SIG_PROPERTY_EXCLUSIVE_ZONE \<equiv> 38"
abbreviation (input) SIG_PROPERTY_KEYBOARD_INTERACTIVE :: nat where "SIG_PROPERTY_KEYBOARD_INTERACTIVE \<equiv> 39"
abbreviation (input) SIG_PROPERTY_MARGIN :: nat where "SIG_PROPERTY_MARGIN \<equiv> 40"

definition mark_layer_dirty :: "env \<Rightarrow> nat \<Rightarrow> world \<Rightarrow> world" where
  "mark_layer_dirty env l w = call_env env (Native ''declare_output_mark_dirty'' [obj_of (l_mon (ly w l))]) w"

definition queue_bit :: "u32 \<Rightarrow> nat \<Rightarrow> nat \<Rightarrow> nat \<Rightarrow> world \<Rightarrow> world" where
  "queue_bit committed n x sig w = (if bit committed n then enqueue (QSignal0 (LUser x) sig) w else w)"

definition queue_committed :: "u32 \<Rightarrow> nat \<Rightarrow> world \<Rightarrow> world" where
  "queue_committed committed x w =
     queue_bit committed 3 x SIG_PROPERTY_MARGIN
       (queue_bit committed 4 x SIG_PROPERTY_KEYBOARD_INTERACTIVE
         (queue_bit committed 2 x SIG_PROPERTY_EXCLUSIVE_ZONE
           (queue_bit committed 1 x SIG_PROPERTY_ANCHOR
             (queue_bit committed 5 x SIG_PROPERTY_LAYER w))))"

definition move_band :: "nat \<Rightarrow> world \<Rightarrow> world" where
  "move_band l w =
     (let old = l_band (ly w l); band = l_layer (ly w l); m = the (l_mon (ly w l)) in
      if old = band then w
      else
        (let w = upd_layer l (\<lambda>y. y\<lparr>l_band := band\<rparr>) w;
             w = upd_monitor m (\<lambda>x. x\<lparr>m_layers := (m_layers x)(old := removeAll l (m_layers x old))\<rparr>) w
         in upd_monitor m (\<lambda>x. x\<lparr>m_layers := (m_layers x)(band := l # m_layers x band)\<rparr>) w))"

text \<open>The half after mapping: the layer, the keyboard, the pointer and the signals.\<close>

definition commit_mapped :: "lock_lib \<Rightarrow> env \<Rightarrow> nat \<Rightarrow> u32 \<Rightarrow> bool \<Rightarrow> world \<Rightarrow> world option" where
  "commit_mapped X env l committed was_mapped w =
     (let w = move_band l w
      in map_option (\<lambda>w.
           let w = mark_layer_dirty env l w;
               w = (if \<not> was_mapped \<and> l_mapped (ly w l) \<and> exclusive_focus w = None
                    then call_env env (Native ''motionnotify'' []) w else w)
           in case l_object (ly w l) of
                Some y \<Rightarrow> queue_committed committed y w
              | None \<Rightarrow> w)
           (layer_keyboard_focus X env (the (l_mon (ly w l))) w))"

definition commitlayersurfacenotify ::
  "lock_lib \<Rightarrow> env \<Rightarrow> nat \<Rightarrow> nat \<Rightarrow> commit \<Rightarrow> world \<Rightarrow> world option" where
  "commitlayersurfacenotify X env x l cm w =
     (if cm_initial cm then
        Some (mark_layer_dirty env l (call_env env (Native ''client_set_scale'' [LUser (l_surface (ly w l))]) w))
      else if cm_committed cm = 0 \<and> l_mapped (ly w l) = l_surface_mapped (ly w l) then Some w
      else
        (let was_mapped = l_mapped (ly w l);
             w = upd_layer l (\<lambda>y. y\<lparr>l_mapped := l_surface_mapped y\<rparr>) w;
             w = (if \<not> was_mapped \<and> l_mapped (ly w l) \<and> l_object (ly w l) = None
                  then layer_surface_emit_manage env x ''new'' (layer_surface_manage x l w) else w)
         in commit_mapped X env l (cm_committed cm) was_mapped w))"

text \<open>
  A new surface: out is the monitor of the output it names, layer and pending the layer of its
  current and its pending state.
\<close>

definition createlayersurface :: "env \<Rightarrow> nat \<Rightarrow> nat option \<Rightarrow> nat \<Rightarrow> nat \<Rightarrow> nat \<Rightarrow> world \<Rightarrow> world" where
  "createlayersurface env l out s current pending w =
     (case (if out = None then selmon w else out) of
        None \<Rightarrow> call_env env (Native ''wlr_layer_surface_v1_destroy'' [LLight l]) w
      | Some m \<Rightarrow>
          (let w = upd_layer l (\<lambda>_. \<lparr>l_mapped = False, l_layer = current, l_band = pending, l_mon = Some m,
                      l_output = Some m, l_surface = s, l_surface_mapped = False, l_interactive = KEYBOARD_NONE,
                      l_object = None\<rparr>) w;
               w = call_env env (Native ''wlr_scene_layer_surface_v1_create'' [LUser l]) w;
               w = upd_monitor m (\<lambda>x. x\<lparr>m_layers := (m_layers x)(pending := l # m_layers x pending)\<rparr>) w
           in call_env env (Native ''wlr_surface_send_enter'' [LUser s, LUser m]) w))"

text \<open>
  wl_list_remove takes the surface out of the list it is linked into, that of its monitor and band.
\<close>

definition unlink_band :: "nat \<Rightarrow> world \<Rightarrow> world" where
  "unlink_band l w =
     (case l_mon (ly w l) of
        None \<Rightarrow> w
      | Some m \<Rightarrow> upd_monitor m
          (\<lambda>x. x\<lparr>m_layers := (m_layers x)(l_band (ly w l) := removeAll l (m_layers x (l_band (ly w l))))\<rparr>) w)"

definition destroylayersurfacenotify :: "env \<Rightarrow> nat \<Rightarrow> world \<Rightarrow> world" where
  "destroylayersurfacenotify env l w =
     (let w = (if exclusive_focus w = Some l then w\<lparr>exclusive_focus := None\<rparr> else w);
          w = unlink_band l w;
          w = call_env env (Native ''declare_handle_drop'' [LUser l]) w;
          w = call_env env (Native ''wlr_scene_node_destroy'' []) w
      in mark_all_dirty env w)"

definition layer_focus_restore_deferred :: "lock_lib \<Rightarrow> env \<Rightarrow> bool \<Rightarrow> world \<Rightarrow> world option" where
  "layer_focus_restore_deferred X env run w =
     (case deferred_focus w of
        None \<Rightarrow> Some w
      | Some m \<Rightarrow>
          (let w = w\<lparr>deferred_focus := None\<rparr> in
           if run then focus_restore (lib_fuel X) env (lib_focuscolor X) (lib_bordercolor X) True m w
           else Some w))"

definition layer_focus_forget_monitor :: "nat \<Rightarrow> world \<Rightarrow> world" where
  "layer_focus_forget_monitor m w =
     (if deferred_focus w = Some (Some m) then w\<lparr>deferred_focus := Some None\<rparr> else w)"

text \<open>The end of unmaplayersurfacenotify: who gets the focus.\<close>

definition unmap_focus :: "lock_lib \<Rightarrow> env \<Rightarrow> nat \<Rightarrow> bool \<Rightarrow> world \<Rightarrow> world option" where
  "unmap_focus X env l had_exclusive_focus w =
     (if \<not> had_exclusive_focus then Some w
      else if mousegrabber_running w then Some (w\<lparr>deferred_focus := Some (l_mon (ly w l))\<rparr>)
      else focus_restore (lib_fuel X) env (lib_focuscolor X) (lib_bordercolor X) True
             (if l_mon (ly w l) \<noteq> None then l_mon (ly w l) else selmon w) w)"

definition unmaplayersurfacenotify :: "lock_lib \<Rightarrow> env \<Rightarrow> nat \<Rightarrow> world \<Rightarrow> world option" where
  "unmaplayersurfacenotify X env l w =
     (let had_exclusive_focus = (exclusive_focus w = Some l);
          w = upd_layer l (\<lambda>y. y\<lparr>l_mapped := False\<rparr>) w;
          w = (if had_exclusive_focus then w\<lparr>exclusive_focus := None\<rparr> else w)
      in Option.bind
           (case l_output (ly w l) of
              None \<Rightarrow> Some w
            | Some m \<Rightarrow>
                (let w = call_env env (Native ''wlr_surface_send_leave'' [LUser (l_surface (ly w l)), LUser m]) w;
                     w = upd_layer l (\<lambda>y. y\<lparr>l_mon := Some m\<rparr>) w
                 in map_option (mark_layer_dirty env l) (layer_keyboard_focus X env m w)))
           (\<lambda>w.
             let w = (case l_object (ly w l) of Some x \<Rightarrow> layer_surface_emit_unmanage env x w | None \<Rightarrow> w)
             in map_option (call_env env (Native ''motionnotify'' []))
                  (unmap_focus X env l had_exclusive_focus w)))"

subsection \<open>Links, mapped surfaces and the keyboard\<close>

record layer_state =
  st_object :: "nat \<Rightarrow> nat option"
  st_ls :: "nat \<Rightarrow> nat option"
  st_objs :: "nat list"
  st_mapped :: "nat \<Rightarrow> bool"
  st_excl :: "nat option"

definition layer_view :: "world \<Rightarrow> layer_state" where
  "layer_view w = \<lparr>st_object = (\<lambda>l. l_object (ly w l)), st_ls = (\<lambda>x. lo_ls (lobj w x)),
     st_objs = layer_surfaces w, st_mapped = (\<lambda>l. l_mapped (ly w l)), st_excl = exclusive_focus w\<rparr>"

interpretation layerf: focus_frame layer_view
  by unfold_locales (simp_all add: layer_view_def)

text \<open>
  What Lua code cannot do: map or unmap a surface or change its object; and it may give the
  keyboard to mapped surfaces only. layer says which addresses are those of layer surfaces.
\<close>

definition links where "links v = (st_object v, st_ls v, st_objs v, st_mapped v)"

definition excl_ok :: "(nat \<Rightarrow> bool) \<Rightarrow> layer_state \<Rightarrow> bool" where
  "excl_ok layer v \<longleftrightarrow> (\<forall>l. st_excl v = Some l \<and> layer l \<longrightarrow> st_mapped v l)"

definition layer_env :: "(nat \<Rightarrow> bool) \<Rightarrow> env \<Rightarrow> bool" where
  "layer_env layer env \<longleftrightarrow>
     keeps env (\<lambda>w. links (layer_view w)) \<and> preserves env (\<lambda>w. excl_ok layer (layer_view w))"

definition in_links :: "(nat \<Rightarrow> bool) \<Rightarrow> layer_state \<Rightarrow> layer_state \<Rightarrow> bool" where
  "in_links layer v0 v \<longleftrightarrow> links v = links v0 \<and> excl_ok layer v"

lemma in_links_env: "layer_env layer env \<Longrightarrow> preserves env (\<lambda>w. in_links layer v0 (layer_view w))"
  by (simp add: layer_env_def preserves_def keeps_def in_links_def)

lemma in_links_refl: "excl_ok layer v \<Longrightarrow> in_links layer v v"
  by (simp add: in_links_def)

lemma in_links_mapped: "in_links layer v0 v \<Longrightarrow> st_mapped v = st_mapped v0"
  by (simp add: in_links_def links_def)

lemmas links_call = layerf.call_holds [OF in_links_env]
  and links_focusclient = layerf.focusclient_holds [OF in_links_env]
  and links_restore = layerf.focus_restore_holds [OF in_links_env]

lemma layer_view_field [simp]:
  "layer_view (w\<lparr>exclusive_focus := e\<rparr>) = (layer_view w)\<lparr>st_excl := e\<rparr>"
  "layer_view (w\<lparr>deferred_focus := d\<rparr>) = layer_view w" "layer_view (w\<lparr>mo := x\<rparr>) = layer_view w"
  "layer_view (w\<lparr>registry := r\<rparr>) = layer_view w" "layer_view (upd_monitor m f w) = layer_view w"
  by (simp_all add: layer_view_def upd_monitor_def)

lemma view_upd_lobj:
  assumes "\<And>y. lo_ls (f y) = lo_ls y" shows "layer_view (upd_lobj x f w) = layer_view w"
  using assms by (auto simp: layer_view_def upd_lobj_def)

lemma in_links_excl:
  "in_links layer v0 v \<Longrightarrow> st_mapped v0 l \<Longrightarrow> in_links layer v0 (v\<lparr>st_excl := Some l\<rparr>)"
  "in_links layer v0 v \<Longrightarrow> in_links layer v0 (v\<lparr>st_excl := None\<rparr>)"
  by (auto simp: in_links_def links_def excl_ok_def)

lemma links_take:
  assumes env: "layer_env layer env" and "in_links layer v0 (layer_view w)" and "st_mapped v0 l"
    and "layer_take_keyboard X env l w = Some w'"
  shows "in_links layer v0 (layer_view w')"
proof -
  obtain u where u: "focusclient (lib_fuel X) env (lib_focuscolor X) (lib_bordercolor X) None False w = Some u"
    "w' = layer_enter env l (u\<lparr>exclusive_focus := Some l\<rparr>)"
    using assms(4) by (auto simp: layer_take_keyboard_def)
  have "in_links layer v0 (layer_view u)" by (rule links_focusclient [OF env assms(2) u(1)])
  then have "in_links layer v0 (layer_view (u\<lparr>exclusive_focus := Some l\<rparr>))" using assms(3) by (simp add: in_links_excl)
  then show ?thesis unfolding u(2) layer_enter_def by (rule links_call [OF env])
qed

lemma links_loop:
  assumes env: "layer_env layer env"
  shows "in_links layer v0 (layer_view w) \<Longrightarrow> keyboard_focus_loop X env ls w = Some (b, w') \<Longrightarrow> in_links layer v0 (layer_view w')"
proof (induction ls arbitrary: w)
  case (Cons l ls)
  let ?w1 = "\<lambda>x. layer_surface_emit_request_keyboard env x
     (if l_interactive (ly w l) = KEYBOARD_EXCLUSIVE then ''exclusive'' else ''on_demand'') w"
  have w1: "in_links layer v0 (layer_view (?w1 x))" for x
    unfolding layer_surface_emit_request_keyboard_def by (rule links_call [OF env Cons.prems(1)])
  show ?case
  proof (cases "ext_locked w \<or> l_interactive (ly w l) = KEYBOARD_NONE \<or> \<not> l_mapped (ly w l)")
    case True
    then show ?thesis using Cons.prems by (intro Cons.IH) simp_all
  next
    case False
    have mapped: "st_mapped v0 l"
      using in_links_mapped [OF Cons.prems(1)] False by (metis layer_view_def layer_state.select_convs(4))
    show ?thesis
    proof (cases "l_object (ly w l)")
      case None
      then show ?thesis using False Cons.prems links_take [OF env Cons.prems(1) mapped] by auto
    next
      case (Some x)
      then show ?thesis using False Cons.prems(2) w1 [of x] Cons.IH [OF w1 [of x]]
        by (auto simp: Let_def split: if_splits)
    qed
  qed
qed simp

lemma keyboard_focus_by_loop:
  assumes loop: "\<And>v ls t v'. P v \<Longrightarrow> keyboard_focus_loop X env ls v = Some (t, v') \<Longrightarrow> P v'"
    and "P w" and "layer_keyboard_focus X env m w = Some w'"
  shows "P w'"
proof (cases "m_enabled (mo w m)")
  case True
  then obtain t u where u: "keyboard_focus_loop X env (rev (m_layers (mo w m) LAYER_OVERLAY)) w = Some (t, u)"
    "(if t then Some u else map_option snd (keyboard_focus_loop X env (rev (m_layers (mo u m) LAYER_TOP)) u)) = Some w'"
    using assms(3) unfolding layer_keyboard_focus_def by (auto simp only: if_False not_not bind_eq_Some_conv simp_thms split_paired_all prod.case)
  note v = loop [OF assms(2) u(1)]
  show ?thesis using u(2) v loop [OF v] by (cases t) auto
next
  case False
  then show ?thesis using assms(2,3) by (simp add: layer_keyboard_focus_def)
qed

lemma links_keyboard_focus:
  assumes "layer_env layer env" and "in_links layer v0 (layer_view w)" and "layer_keyboard_focus X env m w = Some w'"
  shows "in_links layer v0 (layer_view w')"
  by (rule keyboard_focus_by_loop [where P = "\<lambda>w. in_links layer v0 (layer_view w)", OF links_loop [OF assms(1)] assms(2,3)])

lemma links_set_focus:
  assumes env: "layer_env layer env" and "in_links layer v0 (layer_view w)"
    and "luaA_layer_surface_set_has_keyboard_focus X env x focus w = Some w'"
  shows "in_links layer v0 (layer_view w')"
proof -
  let ?u = "upd_lobj x (\<lambda>y. y\<lparr>has_keyboard_focus := focus\<rparr>) w"
  have u: "in_links layer v0 (layer_view ?u)" using assms(2) by (simp add: view_upd_lobj)
  have grant: "in_links layer v0 (layer_view v)" if "layer_surface_grant_keyboard X env l ?u = Some v" for l v
  proof (cases "l_mapped (ly ?u l)")
    case True
    then have "st_mapped v0 l" using in_links_mapped [OF u] by (simp add: layer_view_def fun_eq_iff)
    then show ?thesis using that True links_take [OF env u] by (simp add: layer_surface_grant_keyboard_def)
  next
    case False
    then show ?thesis using that u by (simp add: layer_surface_grant_keyboard_def)
  qed
  have revoke: "in_links layer v0 (layer_view v)" if r: "layer_surface_revoke_keyboard X env l ?u = Some v" for l v
  proof (cases "exclusive_focus ?u = Some l")
    case True
    have "in_links layer v0 (layer_view (?u\<lparr>exclusive_focus := None\<rparr>))" using u by (simp add: in_links_excl)
    then have "in_links layer v0 (layer_view (seat_clear_focus env (?u\<lparr>exclusive_focus := None\<rparr>)))"
      unfolding seat_clear_focus_def by (rule links_call [OF env])
    then show ?thesis using r True links_focusclient [OF env] by (auto simp: layer_surface_revoke_keyboard_def Let_def)
  next
    case False
    then show ?thesis using r u by (simp add: layer_surface_revoke_keyboard_def)
  qed
  have "in_links layer v0 (layer_view v)"
    if "(if focus then layer_surface_focus X env x ?u else layer_surface_unfocus X env x ?u) = Some v" for v
    using that u grant revoke by (auto simp: layer_surface_focus_def layer_surface_unfocus_def split: if_splits option.splits)
  then show ?thesis using assms(2,3) links_call [OF env]
    by (auto simp: luaA_layer_surface_set_has_keyboard_focus_def Let_def split: if_splits)
qed

lemma links_deferred:
  assumes "layer_env layer env" and "in_links layer v0 (layer_view w)" and "layer_focus_restore_deferred X env run w = Some w'"
  shows "in_links layer v0 (layer_view w')"
proof -
  let ?u = "w\<lparr>deferred_focus := None\<rparr>"
  have u: "in_links layer v0 (layer_view ?u)" using assms(2) by simp
  show ?thesis using assms(2,3) u links_restore [OF assms(1) u]
    by (auto simp: layer_focus_restore_deferred_def Let_def split: option.splits if_splits)
qed

lemma layer_reads:
  "l_object (ly w l) = st_object (layer_view w) l" "lo_ls (lobj w x) = st_ls (layer_view w) x"
  "l_mapped (ly w l) = st_mapped (layer_view w) l" "layer_surfaces w = st_objs (layer_view w)"
  "exclusive_focus w = st_excl (layer_view w)"
  by (simp_all add: layer_view_def)

definition layer_inv :: "(nat \<Rightarrow> bool) \<Rightarrow> nat set \<Rightarrow> layer_state \<Rightarrow> bool" where
  "layer_inv layer born v \<longleftrightarrow>
     (\<forall>l x. st_object v l = Some x \<longleftrightarrow> st_ls v x = Some l) \<and>
     (\<forall>l. st_mapped v l \<longleftrightarrow> st_object v l \<noteq> None) \<and> (\<forall>l. st_mapped v l \<longrightarrow> l \<in> born) \<and>
     distinct (st_objs v) \<and> (\<forall>x. x \<in> set (st_objs v) \<longleftrightarrow> st_ls v x \<noteq> None) \<and> excl_ok layer v"

lemma inv_in_links: "layer_inv layer born v0 \<Longrightarrow> in_links layer v0 v \<Longrightarrow> layer_inv layer born v"
  by (simp add: layer_inv_def in_links_def links_def)

lemma inv_excl: "layer_inv layer born v \<Longrightarrow> excl_ok layer v"
  by (simp add: layer_inv_def)

definition managed :: "nat \<Rightarrow> nat \<Rightarrow> layer_state \<Rightarrow> layer_state" where
  "managed x l v = v\<lparr>st_object := (st_object v)(l := Some x), st_ls := (st_ls v)(x := Some l), st_objs := st_objs v @ [x]\<rparr>"

definition unmanaged :: "nat \<Rightarrow> nat \<Rightarrow> layer_state \<Rightarrow> layer_state" where
  "unmanaged x l v = v\<lparr>st_object := (st_object v)(l := None), st_ls := (st_ls v)(x := None), st_objs := remove1 x (st_objs v)\<rparr>"

definition mapping :: "nat \<Rightarrow> bool \<Rightarrow> layer_state \<Rightarrow> layer_state" where
  "mapping l b v = v\<lparr>st_mapped := (st_mapped v)(l := b)\<rparr>"

lemma enqueue_layers [simp]: "lobj (enqueue q w) = lobj w" "layer_surfaces (enqueue q w) = layer_surfaces w"
  by (simp_all add: enqueue_def)

lemma view_manage: "layer_view (layer_surface_manage x l w) = managed x l (layer_view w)"
  by (auto simp: layer_surface_manage_def layer_surface_allocator_def managed_def layer_view_def Let_def
      upd_lobj_def upd_layer_def)

lemma view_mapping:
  "layer_view (upd_layer l (\<lambda>y. y\<lparr>l_mapped := l_surface_mapped y\<rparr>) w) = mapping l (l_surface_mapped (ly w l)) (layer_view w)"
  "layer_view (upd_layer l (\<lambda>y. y\<lparr>l_mapped := False\<rparr>) w) = mapping l False (layer_view w)"
  "layer_view (upd_layer l (\<lambda>y. y\<lparr>l_mon := m\<rparr>) w) = layer_view w"
  "layer_view (upd_layer l (\<lambda>y. y\<lparr>l_band := b\<rparr>) w) = layer_view w"
  by (auto simp: layer_view_def upd_layer_def mapping_def)

lemma view_unlink:
  assumes "lo_ls (lobj w x) = Some l"
  shows "layer_view (layer_surface_unlink x w) =
    (layer_view w)\<lparr>st_object := (st_object (layer_view w))(l := None), st_ls := (st_ls (layer_view w))(x := None)\<rparr>"
  using assms by (auto simp: layer_surface_unlink_def layer_view_def upd_layer_def upd_lobj_def)

lemma view_take:
  "layer_view (case index_of x (layer_surfaces u) of None \<Rightarrow> u
     | Some i \<Rightarrow> u\<lparr>layer_surfaces := take i (layer_surfaces u) @ drop (Suc i) (layer_surfaces u), registry := r\<rparr>) =
   (layer_view u)\<lparr>st_objs := remove1 x (st_objs (layer_view u))\<rparr>"
proof (cases "index_of x (layer_surfaces u)")
  case None
  then have "remove1 x (layer_surfaces u) = layer_surfaces u" by (intro remove1_idem) (simp add: index_of_None)
  then show ?thesis using None by (simp add: layer_view_def)
next
  case (Some i)
  then show ?thesis using remove_at_index [OF Some] by (simp add: layer_view_def)
qed

lemma links_unmanage:
  assumes env: "layer_env layer env" and "in_links layer v0 (layer_view w)" and "st_ls v0 x = Some l"
  shows "in_links layer (unmanaged x l v0) (layer_view (layer_surface_emit_unmanage env x w))"
proof -
  let ?u = "emit env x ''request::unmanage'' [LStr ''destroyed'', LTable 0] w"
  have u: "in_links layer v0 (layer_view ?u)" by (rule links_call [OF env assms(2)])
  then have "lo_ls (lobj ?u x) = Some l" using assms(3) by (simp add: in_links_def links_def layer_reads)
  note w2 = view_unlink [OF this]
  let ?w2 = "layer_surface_unlink x ?u"
  let ?w3 = "case index_of x (layer_surfaces ?w2) of None \<Rightarrow> ?w2
     | Some i \<Rightarrow> ?w2\<lparr>layer_surfaces := take i (layer_surfaces ?w2) @ drop (Suc i) (layer_surfaces ?w2), registry := registry ?w2 - {#x#}\<rparr>"
  have "in_links layer (unmanaged x l v0) (layer_view ?w3)"
    unfolding view_take w2 using u by (auto simp: in_links_def links_def unmanaged_def excl_ok_def)
  then show ?thesis by (simp add: layer_surface_emit_unmanage_def Let_def)
qed

lemma queue_view: "layer_view (queue_committed cm x w) = layer_view w"
  by (simp add: queue_committed_def queue_bit_def)

lemma move_view: "layer_view (move_band l w) = layer_view w"
  by (simp add: move_band_def Let_def view_mapping)

lemma inv_managed:
  assumes "layer_inv layer born v" and "\<not> st_mapped v l" and "st_ls v x = None" and "l \<in> born"
  shows "layer_inv layer born (managed x l (mapping l True v))"
  using assms unfolding layer_inv_def managed_def mapping_def excl_ok_def by auto

lemma inv_unmanaged:
  assumes "layer_inv layer born v" and "st_object v l = Some x"
  shows "layer_inv layer born (unmanaged x l (mapping l False (if st_excl v = Some l then v\<lparr>st_excl := None\<rparr> else v)))"
    (is "layer_inv layer born ?v")
proof -
  have v: "st_object ?v = (st_object v)(l := None)" "st_ls ?v = (st_ls v)(x := None)" "st_objs ?v = remove1 x (st_objs v)"
    "st_mapped ?v = (st_mapped v)(l := False)" "st_excl ?v = (if st_excl v = Some l then None else st_excl v)"
    by (simp_all add: unmanaged_def mapping_def)
  have inv: "\<And>l x. st_object v l = Some x \<longleftrightarrow> st_ls v x = Some l" "\<And>l. st_mapped v l \<longleftrightarrow> st_object v l \<noteq> None"
    "\<And>l. st_mapped v l \<Longrightarrow> l \<in> born" "distinct (st_objs v)" "\<And>x. x \<in> set (st_objs v) \<longleftrightarrow> st_ls v x \<noteq> None"
    "excl_ok layer v"
    using assms(1) unfolding layer_inv_def by blast+
  have x: "a = x" if "st_ls v a = Some l" for a using that assms(2) inv(1) by (metis option.inject)
  have l: "a = l" if "st_object v a = Some x" for a using that assms(2) inv(1) by (metis option.inject)
  have "st_object ?v a = Some b \<longleftrightarrow> st_ls ?v b = Some a" for a b
    unfolding v using inv(1) x l by (metis fun_upd_apply option.distinct(1))
  moreover have "st_mapped ?v a \<longleftrightarrow> st_object ?v a \<noteq> None" for a unfolding v using inv(2) by simp
  moreover have "st_mapped ?v a \<Longrightarrow> a \<in> born" for a unfolding v using inv(3) by (simp split: if_splits)
  moreover have "distinct (st_objs ?v)" unfolding v using inv(4) by simp
  moreover have "a \<in> set (st_objs ?v) \<longleftrightarrow> st_ls ?v a \<noteq> None" for a unfolding v using inv(4,5) by (simp add: set_remove1_eq)
  moreover have "excl_ok layer ?v" using inv(6) unfolding excl_ok_def v by (simp split: if_splits)
  ultimately show ?thesis unfolding layer_inv_def by blast
qed

text \<open>The second half of a commit, after the surface was mapped and managed.\<close>

lemma links_commit_tail:
  assumes env: "layer_env layer env" and "in_links layer v0 (layer_view w)"
    and "commit_mapped X env l cm b w = Some w'"
  shows "in_links layer v0 (layer_view w')"
proof -
  obtain u where u: "layer_keyboard_focus X env (the (l_mon (ly (move_band l w) l))) (move_band l w) = Some u"
    and w': "w' = (let w = mark_layer_dirty env l u;
                  w = (if \<not> b \<and> l_mapped (ly w l) \<and> exclusive_focus w = None
                       then call_env env (Native ''motionnotify'' []) w else w)
              in case l_object (ly w l) of Some y \<Rightarrow> queue_committed cm y w | None \<Rightarrow> w)"
    using assms(3) unfolding commit_mapped_def by (auto simp only: Let_def map_option_eq_Some)
  have "in_links layer v0 (layer_view (move_band l w))" using assms(2) by (simp add: move_view)
  then have "in_links layer v0 (layer_view u)" by (rule links_keyboard_focus [OF env _ u])
  then have "in_links layer v0 (layer_view (mark_layer_dirty env l u))"
    unfolding mark_layer_dirty_def by (rule links_call [OF env])
  then show ?thesis using links_call [OF env] by (simp add: w' Let_def queue_view split: option.split)
qed

lemma inv_commit:
  assumes env: "layer_env layer env" and inv: "layer_inv layer born (layer_view w)" and "l \<in> born"
    and fresh: "lo_ls (lobj w x) = None" and first: "l_mapped (ly w l) \<Longrightarrow> l_surface_mapped (ly w l)"
    and run: "commitlayersurfacenotify X env x l cm w = Some w'"
  shows "layer_inv layer born (layer_view w')"
proof -
  have keep: "layer_inv layer born (layer_view w')" if "in_links layer v0 (layer_view w')" "layer_inv layer born v0" for v0
    using inv_in_links that by blast
  let ?s = "l_surface_mapped (ly w l)"
  let ?w1 = "upd_layer l (\<lambda>y. y\<lparr>l_mapped := l_surface_mapped y\<rparr>) w"
  let ?w2 = "if \<not> l_mapped (ly w l) \<and> l_mapped (ly ?w1 l) \<and> l_object (ly ?w1 l) = None
    then layer_surface_emit_manage env x ''new'' (layer_surface_manage x l ?w1) else ?w1"
  have sel: "l_mapped (ly ?w1 l) = ?s" "l_object (ly ?w1 l) = l_object (ly w l)" by (simp_all add: upd_layer_def)
  show ?thesis
  proof (cases "cm_initial cm \<or> cm_committed cm = 0 \<and> l_mapped (ly w l) = ?s")
    case True
    have "in_links layer (layer_view w) (layer_view w')"
      using True run in_links_refl [OF inv_excl [OF inv]] links_call [OF env]
      by (auto simp: commitlayersurfacenotify_def mark_layer_dirty_def split: if_splits)
    then show ?thesis using inv keep by blast
  next
    case False
    have n1: "\<not> cm_initial cm" and n2: "\<not> (cm_committed cm = 0 \<and> l_mapped (ly w l) = ?s)" using False by simp_all
    have "commit_mapped X env l (cm_committed cm) (l_mapped (ly w l)) ?w2 = Some w'"
      using run unfolding commitlayersurfacenotify_def Let_def if_not_P [OF n1] if_not_P [OF n2] .
    then have run2: "in_links layer v0 (layer_view ?w2) \<Longrightarrow> in_links layer v0 (layer_view w')" for v0
      using links_commit_tail [OF env] by blast
    show ?thesis
    proof (cases "\<not> l_mapped (ly w l) \<and> ?s")
      case True
      then have none: "l_object (ly w l) = None"
        using inv unfolding layer_inv_def layer_reads by (metis option.exhaust)
      let ?v = "managed x l (mapping l True (layer_view w))"
      have inv2: "layer_inv layer born ?v" using inv_managed [OF inv] True fresh assms(3) by (simp add: layer_reads)
      have "in_links layer ?v (layer_view (layer_surface_manage x l ?w1))"
        using True inv_excl [OF inv2] by (simp add: view_manage view_mapping in_links_refl)
      then have "in_links layer ?v (layer_view ?w2)"
        using True none sel links_call [OF env] by (simp add: layer_surface_emit_manage_def)
      then show ?thesis using run2 keep inv2 by blast
    next
      case same: False
      then have "?w2 = ?w1" "?s = st_mapped (layer_view w) l" using sel first by (auto simp: layer_reads)
      moreover have "mapping l (st_mapped v l) v = v" for v by (simp add: mapping_def)
      ultimately have "layer_view ?w2 = layer_view w" by (simp add: view_mapping)
      then show ?thesis using run2 [of "layer_view w"] keep inv in_links_refl [OF inv_excl [OF inv]] by auto
    qed
  qed
qed

lemma inv_unmap:
  assumes env: "layer_env layer env" and inv: "layer_inv layer born (layer_view w)"
    and run: "unmaplayersurfacenotify X env l w = Some w'"
  shows "layer_inv layer born (layer_view w')"
proof -
  let ?had = "exclusive_focus w = Some l"
  define w1 where "w1 = (if ?had then (upd_layer l (\<lambda>y. y\<lparr>l_mapped := False\<rparr>) w)\<lparr>exclusive_focus := None\<rparr>
    else upd_layer l (\<lambda>y. y\<lparr>l_mapped := False\<rparr>) w)"
  define v1 where "v1 = mapping l False (if st_excl (layer_view w) = Some l
    then (layer_view w)\<lparr>st_excl := None\<rparr> else layer_view w)"
  define send where "send m v = upd_layer l (\<lambda>y. y\<lparr>l_mon := Some m\<rparr>)
    (call_env env (Native ''wlr_surface_send_leave'' [LUser (l_surface (ly v l)), LUser m]) v)" for m v
  have "layer_view w1 = v1" by (simp add: w1_def v1_def view_mapping layer_reads) (simp add: mapping_def)
  moreover have ok: "excl_ok layer v1" using inv_excl [OF inv] by (auto simp: excl_ok_def v1_def mapping_def)
  ultimately have w1: "in_links layer v1 (layer_view w1)" by (simp add: in_links_refl)
  have had: "exclusive_focus (upd_layer l f w) = exclusive_focus w" for f by (simp add: upd_layer_def)
  obtain u where u: "(case l_output (ly w1 l) of None \<Rightarrow> Some w1
      | Some m \<Rightarrow> map_option (mark_layer_dirty env l) (layer_keyboard_focus X env m (send m w1))) = Some u"
    and tail: "map_option (call_env env (Native ''motionnotify'' []))
      (unmap_focus X env l ?had (case l_object (ly u l) of Some x \<Rightarrow> layer_surface_emit_unmanage env x u | None \<Rightarrow> u)) = Some w'"
    using run unfolding unmaplayersurfacenotify_def Let_def had w1_def [symmetric] send_def [symmetric]
    by (auto simp only: bind_eq_Some_conv)
  have "in_links layer v1 (layer_view (send m w1))" for m
    unfolding send_def view_mapping by (rule links_call [OF env w1])
  then have linked: "in_links layer v1 (layer_view u)"
  proof (cases "l_output (ly w1 l)")
    case None
    then show ?thesis using u w1 by simp
  next
    case (Some m)
    then obtain z where z: "layer_keyboard_focus X env m (send m w1) = Some z" "u = mark_layer_dirty env l z"
      using u by auto
    have "in_links layer v1 (layer_view z)" by (rule links_keyboard_focus [OF env _ z(1)]) fact
    then show ?thesis unfolding z(2) mark_layer_dirty_def by (rule links_call [OF env])
  qed
  define u2 where "u2 = (case l_object (ly u l) of Some x \<Rightarrow> layer_surface_emit_unmanage env x u | None \<Rightarrow> u)"
  have obj: "l_object (ly u l) = st_object (layer_view w) l" "st_ls v1 = st_ls (layer_view w)"
    using linked by (simp_all add: layer_reads in_links_def links_def v1_def mapping_def)
  have "\<exists>v2. layer_inv layer born v2 \<and> in_links layer v2 (layer_view u2)"
  proof (cases "st_object (layer_view w) l")
    case None
    then have "\<not> st_mapped (layer_view w) l" using inv by (simp add: layer_inv_def)
    then have "layer_inv layer born v1"
      using inv ok by (simp add: layer_inv_def v1_def mapping_def fun_upd_idem)
    then show ?thesis using None linked obj by (auto simp: u2_def)
  next
    case (Some x)
    then have "st_ls v1 x = Some l" using inv obj by (simp add: layer_inv_def)
    then have "in_links layer (unmanaged x l v1) (layer_view u2)"
      using links_unmanage [OF env linked] Some obj by (simp add: u2_def)
    then show ?thesis using inv_unmanaged [OF inv Some] unfolding v1_def by blast
  qed
  then obtain v2 where v2: "layer_inv layer born v2" "in_links layer v2 (layer_view u2)" by blast
  obtain u3 where u3: "unmap_focus X env l ?had u2 = Some u3" "w' = call_env env (Native ''motionnotify'' []) u3"
    using tail unfolding u2_def [symmetric] by auto
  have "in_links layer v2 (layer_view u3)"
    using u3(1) v2(2) links_restore [OF env v2(2)] by (auto simp: unmap_focus_def split: if_splits)
  then have "in_links layer v2 (layer_view w')" unfolding u3(2) by (rule links_call [OF env])
  then show ?thesis using inv_in_links v2(1) by blast
qed

lemma links_click:
  assumes env: "layer_env layer env" and "in_links layer v0 (layer_view w)" and "click_layer X env l x w = Some w'"
  shows "in_links layer v0 (layer_view w')"
proof -
  have grant: "in_links layer v0 (layer_view v)"
    if u: "in_links layer v0 (layer_view u)" and "layer_surface_grant_keyboard X env l u = Some v" for u v
  proof (cases "l_mapped (ly u l)")
    case True
    then have "st_mapped v0 l" using in_links_mapped [OF u] by (simp add: layer_view_def fun_eq_iff)
    then show ?thesis using that True links_take [OF env u] by (simp add: layer_surface_grant_keyboard_def)
  qed (use that in \<open>simp add: layer_surface_grant_keyboard_def\<close>)
  define w1 where "w1 = layer_surface_emit_request_keyboard env x ''click'' w"
  define w2 where "w2 = (if \<not> has_keyboard_focus (lobj w1 x) then emit env x ''property::has_keyboard_focus'' []
     (upd_lobj x (\<lambda>y. y\<lparr>has_keyboard_focus := True\<rparr>) w1) else w1)"
  have w1: "in_links layer v0 (layer_view w1)"
    unfolding w1_def layer_surface_emit_request_keyboard_def by (rule links_call [OF env assms(2)])
  then have "in_links layer v0 (layer_view (upd_lobj x (\<lambda>y. y\<lparr>has_keyboard_focus := True\<rparr>) w1))"
    by (simp add: view_upd_lobj)
  then have w2: "in_links layer v0 (layer_view w2)" using w1 links_call [OF env] by (simp add: w2_def)
  have "(if l_interactive (ly w l) = KEYBOARD_EXCLUSIVE \<or> l_interactive (ly w l) = KEYBOARD_ON_DEMAND
     then layer_surface_grant_keyboard X env l w2 else Some w) = Some w'"
    using assms(3) unfolding click_layer_def Let_def w1_def [symmetric] w2_def [symmetric] .
  then show ?thesis using grant [OF w2] assms(2) by (auto split: if_splits)
qed

subsection \<open>The reload\<close>

text \<open>While rc.lua runs, the mapped surfaces have no objects; detached is the state it starts in.\<close>

definition detached :: "layer_state \<Rightarrow> layer_state" where
  "detached v = v\<lparr>st_object := (\<lambda>_. None), st_ls := (\<lambda>_. None), st_objs := []\<rparr>"

lemma view_detach:
  assumes inv: "layer_inv layer born (layer_view w)"
  shows "layer_view (layer_surface_hot_reload_detach w) = detached (layer_view w)"
proof -
  have step: "st_object (layer_view (fold layer_surface_unlink xs v)) =
        (\<lambda>l. if \<exists>x \<in> set xs. st_ls (layer_view v) x = Some l then None else st_object (layer_view v) l) \<and>
      st_ls (layer_view (fold layer_surface_unlink xs v)) = (\<lambda>x. if x \<in> set xs then None else st_ls (layer_view v) x) \<and>
      st_mapped (layer_view (fold layer_surface_unlink xs v)) = st_mapped (layer_view v) \<and>
      st_excl (layer_view (fold layer_surface_unlink xs v)) = st_excl (layer_view v)" if "distinct xs" for xs v
    using that
  proof (induction xs arbitrary: v)
    case (Cons x xs)
    let ?v = "layer_surface_unlink x v"
    have one: "st_object (layer_view ?v) = (\<lambda>l. if st_ls (layer_view v) x = Some l then None else st_object (layer_view v) l) \<and>
      st_ls (layer_view ?v) = (st_ls (layer_view v))(x := None) \<and> st_mapped (layer_view ?v) = st_mapped (layer_view v) \<and>
      st_excl (layer_view ?v) = st_excl (layer_view v)"
      by (auto simp: layer_surface_unlink_def layer_view_def upd_layer_def upd_lobj_def fun_eq_iff split: option.split)
    have "distinct xs" "x \<notin> set xs" using Cons.prems by simp_all
    then show ?case using Cons.IH [of ?v] one by (auto simp: fun_eq_iff)
  qed simp
  have d: "distinct (st_objs (layer_view w))" "\<And>x. x \<in> set (st_objs (layer_view w)) \<longleftrightarrow> st_ls (layer_view w) x \<noteq> None"
    "\<And>l x. st_object (layer_view w) l = Some x \<longleftrightarrow> st_ls (layer_view w) x = Some l"
    using inv unfolding layer_inv_def by blast+
  let ?u = "fold layer_surface_unlink (layer_surfaces w) w"
  note all = step [OF d(1) [folded layer_reads], of w]
  have o: "st_object (layer_view ?u) l = None" for l
  proof (cases "st_object (layer_view w) l")
    case (Some x)
    then have "x \<in> set (layer_surfaces w)" "st_ls (layer_view w) x = Some l" using d(2,3) by (simp_all add: layer_reads)
    then show ?thesis using all by auto
  qed (use all in simp)
  have "st_ls (layer_view ?u) x = None" for x using all d(2) [of x] by (simp add: layer_reads)
  then have u: "st_object (layer_view ?u) l = None" "st_ls (layer_view ?u) x = None"
    "st_mapped (layer_view ?u) = st_mapped (layer_view w)" "st_excl (layer_view ?u) = st_excl (layer_view w)" for l x
    using all o by blast+
  have "layer_view (?u\<lparr>layer_surfaces := []\<rparr>) = (layer_view ?u)\<lparr>st_objs := []\<rparr>" by (simp add: layer_view_def)
  then show ?thesis using u by (auto simp: layer_surface_hot_reload_detach_def detached_def fun_eq_iff)
qed

text \<open>
  The lists of the surfaces that the reload walks. Reloaded: as far as the walk came, the objects
  are those of the surfaces, at their new addresses.
\<close>

definition layer_bands :: "world \<Rightarrow> nat list \<times> (nat \<Rightarrow> nat \<Rightarrow> nat list)" where
  "layer_bands w = (mons w, \<lambda>m. m_layers (mo w m))"

definition reloaded :: "(nat \<Rightarrow> bool) \<Rightarrow> (nat \<Rightarrow> nat) \<Rightarrow> layer_state \<Rightarrow> layer_state \<Rightarrow> bool" where
  "reloaded layer new_object v0 v \<longleftrightarrow> st_mapped v = st_mapped v0 \<and> excl_ok layer v \<and>
     (\<forall>l x. st_object v l = Some x \<longleftrightarrow> st_ls v x = Some l) \<and> (\<forall>l x. st_object v l = Some x \<longrightarrow> x = new_object l) \<and>
     (\<forall>l. st_object v l \<noteq> None \<longrightarrow> st_mapped v l) \<and> distinct (st_objs v) \<and> (\<forall>x. x \<in> set (st_objs v) \<longleftrightarrow> st_ls v x \<noteq> None)"

definition has_objects :: "nat set \<Rightarrow> layer_state \<Rightarrow> bool" where
  "has_objects A v \<longleftrightarrow> (\<forall>l \<in> A. st_mapped v l \<longrightarrow> st_object v l \<noteq> None)"

lemma reloaded_links:
  assumes "in_links layer v v'"
  shows "reloaded layer no v0 v \<Longrightarrow> reloaded layer no v0 v'" "has_objects A v \<Longrightarrow> has_objects A v'"
proof -
  have eq: "st_object v' = st_object v" "st_ls v' = st_ls v" "st_objs v' = st_objs v" "st_mapped v' = st_mapped v"
    and "excl_ok layer v'" using assms by (simp_all add: in_links_def links_def)
  then show "reloaded layer no v0 v \<Longrightarrow> reloaded layer no v0 v'" unfolding reloaded_def eq by blast
  show "has_objects A v \<Longrightarrow> has_objects A v'" unfolding has_objects_def eq .
qed

lemma reloaded_manage:
  assumes v: "reloaded layer new_object v0 v" and o: "has_objects A v" and fresh: "st_ls v (new_object l) = None"
    and none: "st_object v l = None" "st_mapped v l"
  shows "reloaded layer new_object v0 (managed (new_object l) l v)" "has_objects (insert l A) (managed (new_object l) l v)"
proof -
  let ?v = "managed (new_object l) l v"
  have sel: "st_object ?v = (st_object v)(l := Some (new_object l))" "st_ls ?v = (st_ls v)(new_object l := Some l)"
    "st_objs ?v = st_objs v @ [new_object l]" "st_mapped ?v = st_mapped v" "st_excl ?v = st_excl v" by (simp_all add: managed_def)
  have r: "st_mapped v = st_mapped v0" "excl_ok layer v" "\<And>l x. st_object v l = Some x \<longleftrightarrow> st_ls v x = Some l"
    "\<And>l x. st_object v l = Some x \<Longrightarrow> x = new_object l" "\<And>l. st_object v l \<noteq> None \<Longrightarrow> st_mapped v l"
    "distinct (st_objs v)" "\<And>x. x \<in> set (st_objs v) \<longleftrightarrow> st_ls v x \<noteq> None" using v unfolding reloaded_def by blast+
  have "st_object ?v a = Some b \<longleftrightarrow> st_ls ?v b = Some a" for a b
    unfolding sel fun_upd_apply using r(3) [of a b] r(3) [of l b] r(3) [of a "new_object l"] none fresh by auto
  moreover have "st_object ?v a = Some b \<Longrightarrow> b = new_object a" for a b
    unfolding sel fun_upd_apply using r(4) by (simp split: if_splits)
  moreover have "st_object ?v a \<noteq> None \<Longrightarrow> st_mapped ?v a" for a
    unfolding sel fun_upd_apply using r(5) none(2) by (simp split: if_splits)
  moreover have "distinct (st_objs ?v)" unfolding sel using r(6) r(7) [of "new_object l"] fresh by simp
  moreover have "x \<in> set (st_objs ?v) \<longleftrightarrow> st_ls ?v x \<noteq> None" for x unfolding sel using r(7) by simp
  ultimately show "reloaded layer new_object v0 ?v"
    using r(1,2) unfolding reloaded_def excl_ok_def sel(4,5) by blast
  show "has_objects (insert l A) ?v" using o unfolding has_objects_def sel by simp
qed

lemma reload_step:
  assumes env: "layer_env layer env" and bands: "keeps env layer_bands" and "inj new_object"
    and w: "reloaded layer new_object v0 (layer_view w)" "has_objects A (layer_view w)"
  shows "reloaded layer new_object v0 (layer_view (reload_surface env new_object l w)) \<and>
    has_objects (insert l A) (layer_view (reload_surface env new_object l w)) \<and>
    layer_bands (reload_surface env new_object l w) = layer_bands w"
proof (cases "\<not> l_mapped (ly w l) \<or> l_object (ly w l) \<noteq> None")
  case True
  then show ?thesis using w by (auto simp: reload_surface_def has_objects_def layer_reads)
next
  case False
  let ?u = "layer_surface_manage (new_object l) l w"
  have v: "\<And>l x. st_object (layer_view w) l = Some x \<longleftrightarrow> st_ls (layer_view w) x = Some l"
    "\<And>l x. st_object (layer_view w) l = Some x \<Longrightarrow> x = new_object l"
    using w(1) unfolding reloaded_def by blast+
  have none: "st_object (layer_view w) l = None" "st_mapped (layer_view w) l" using False by (simp_all add: layer_reads)
  have fresh: "st_ls (layer_view w) (new_object l) = None"
  proof (rule ccontr)
    assume "st_ls (layer_view w) (new_object l) \<noteq> None"
    then obtain k where "st_object (layer_view w) k = Some (new_object l)" using v(1) by blast
    then have "k = l" using v(2) \<open>inj new_object\<close> by (metis injD)
    then show False using none \<open>st_object (layer_view w) k = Some (new_object l)\<close> by simp
  qed
  have u: "reloaded layer new_object v0 (layer_view ?u)" "has_objects (insert l A) (layer_view ?u)"
    unfolding view_manage by (rule reloaded_manage [OF w fresh none])+
  have "excl_ok layer (layer_view ?u)" using u(1) unfolding reloaded_def by blast
  from links_call [OF env in_links_refl [OF this]]
  have e: "in_links layer (layer_view ?u) (layer_view (reload_surface env new_object l w))"
    unfolding reload_surface_def layer_surface_emit_manage_def if_not_P [OF False] .
  have "layer_bands ?u = layer_bands w"
    by (simp add: layer_bands_def layer_surface_manage_def layer_surface_allocator_def upd_lobj_def upd_layer_def Let_def enqueue_def)
  moreover have "layer_bands (x\<lparr>trace := t\<rparr>) = layer_bands x" for x t by (simp add: layer_bands_def)
  ultimately have "layer_bands (reload_surface env new_object l w) = layer_bands w"
    using False bands by (simp add: reload_surface_def layer_surface_emit_manage_def keeps_def call_env_def)
  then show ?thesis using reloaded_links(1) [OF e u(1)] reloaded_links(2) [OF e u(2)] by blast
qed

text \<open>A walk of steps that each reach a set reaches their union.\<close>

lemma fold_reaches:
  assumes step: "\<And>x A w. P A w \<Longrightarrow> P (A \<union> f x) (g x w)"
  shows "P A w \<Longrightarrow> P (A \<union> (\<Union>x \<in> set xs. f x)) (fold g xs w)"
proof (induction xs arbitrary: A w)
  case (Cons x xs)
  have "P (A \<union> f x) (g x w)" by (rule step [OF Cons.prems])
  from Cons.IH [OF this] show ?case by (simp add: Un_assoc)
qed simp

lemma reload_all:
  assumes env: "layer_env layer env" and bands: "keeps env layer_bands" and inj: "inj new_object"
    and w: "reloaded layer new_object v0 (layer_view w)"
  shows "reloaded layer new_object v0 (layer_view (layer_surface_hot_reload env new_object w)) \<and>
    has_objects (\<Union>m \<in> set (mons w). \<Union>i \<in> {0..<4}. set (m_layers (mo w m) i)) (layer_view (layer_surface_hot_reload env new_object w))"
proof -
  let ?P = "\<lambda>A v. reloaded layer new_object v0 (layer_view v) \<and> has_objects A (layer_view v) \<and> layer_bands v = layer_bands w"
  have one: "?P (A \<union> {l}) (reload_surface env new_object l v)" if "?P A v" for A l v
    using reload_step [OF env bands inj, of v0 v A l] that by simp
  have band: "?P (A \<union> set (m_layers (mo w m) i)) (fold (reload_surface env new_object) (rev (m_layers (mo v m) i)) v)"
    if "?P A v" for A v m i
  proof -
    have "m_layers (mo v m) i = m_layers (mo w m) i" using that by (simp add: layer_bands_def fun_eq_iff)
    then show ?thesis
      using fold_reaches [of ?P "\<lambda>l. {l}" "reload_surface env new_object" A v "rev (m_layers (mo v m) i)", OF one that] by simp
  qed
  have mon: "?P (A \<union> (\<Union>i \<in> {0..<4}. set (m_layers (mo w m) i)))
      (fold (\<lambda>i w. fold (reload_surface env new_object) (rev (m_layers (mo w m) i)) w) [0..<4] v)" if "?P A v" for A v m
    using fold_reaches [of ?P "\<lambda>i. set (m_layers (mo w m) i)"
        "\<lambda>i w. fold (reload_surface env new_object) (rev (m_layers (mo w m) i)) w" A v "[0..<4]", OF band that] by (simp only: set_upt)
  have "?P {} w" using w by (simp add: has_objects_def)
  from fold_reaches [of ?P "\<lambda>m. \<Union>i \<in> {0..<4}. set (m_layers (mo w m) i)"
      "\<lambda>m w. fold (\<lambda>i w. fold (reload_surface env new_object) (rev (m_layers (mo w m) i)) w) [0..<4] w" "{}" w "mons w", OF mon this]
  show ?thesis unfolding layer_surface_hot_reload_def by (simp only: Un_empty_left)
qed

lemma inv_reload:
  assumes env: "layer_env layer env" and bands: "keeps env layer_bands" and inj: "inj new_object"
    and inv: "layer_inv layer born (layer_view w)"
    and v: "in_links layer (detached (layer_view w)) (layer_view v)"
    and listed: "\<And>l. l_mapped (ly v l) \<Longrightarrow> \<exists>m \<in> set (mons v). \<exists>i < 4. l \<in> set (m_layers (mo v m) i)"
  shows "layer_inv layer born (layer_view (layer_surface_hot_reload env new_object v))"
proof -
  let ?r = "layer_view (layer_surface_hot_reload env new_object v)"
  have mapped: "st_mapped (layer_view v) = st_mapped (layer_view w)" using v by (simp add: in_links_def links_def detached_def)
  have start: "reloaded layer new_object (layer_view w) (layer_view v)"
    using v by (simp add: reloaded_def in_links_def links_def detached_def)
  note all = reload_all [OF env bands inj start]
  have r: "st_mapped ?r = st_mapped (layer_view w)" "excl_ok layer ?r" "\<And>l x. st_object ?r l = Some x \<longleftrightarrow> st_ls ?r x = Some l"
    "\<And>l. st_object ?r l \<noteq> None \<Longrightarrow> st_mapped ?r l" "distinct (st_objs ?r)" "\<And>x. x \<in> set (st_objs ?r) \<longleftrightarrow> st_ls ?r x \<noteq> None"
    using all unfolding reloaded_def by blast+
  have "st_object ?r l \<noteq> None" if "st_mapped ?r l" for l
  proof -
    have "l_mapped (ly v l)" using that r(1) mapped by (simp add: layer_reads)
    then obtain m i where "m \<in> set (mons v)" "i < 4" "l \<in> set (m_layers (mo v m) i)" using listed by blast
    then show ?thesis using all that unfolding has_objects_def by fastforce
  qed
  moreover have "st_mapped ?r l \<Longrightarrow> l \<in> born" for l using inv r(1) unfolding layer_inv_def by simp
  ultimately show ?thesis using r(2-6) unfolding layer_inv_def by blast
qed

subsection \<open>What happens to the layer surfaces\<close>

text \<open>
  The events with the surfaces that exist. wlroots unmaps a surface before it commits an unmapped
  state and before it destroys it; the object of a surface gets an address no object has. A click
  grants the keyboard, and an unmanaged X11 window takes and returns it. A reload is one step: its
  objects go, the new rc.lua runs and brings the state to v, and the surfaces that are mapped get
  new objects; they are in the lists of the monitors. A step outside of this theory leaves the
  surfaces alone.
\<close>

inductive layer_reach :: "(nat \<Rightarrow> bool) \<Rightarrow> lock_lib \<Rightarrow> env \<Rightarrow> nat set \<Rightarrow> world \<Rightarrow> bool"
  for layer X env where
  start: "(\<And>l. \<not> l_mapped (ly w l) \<and> l_object (ly w l) = None) \<Longrightarrow> (\<And>x. lo_ls (lobj w x) = None) \<Longrightarrow>
    layer_surfaces w = [] \<Longrightarrow> (\<And>l. exclusive_focus w = Some l \<Longrightarrow> \<not> layer l) \<Longrightarrow> layer_reach layer X env {} w"
| create: "layer_reach layer X env born w \<Longrightarrow> layer l \<Longrightarrow> l \<notin> born \<Longrightarrow> out \<noteq> None \<or> selmon w \<noteq> None \<Longrightarrow>
    layer_reach layer X env (insert l born) (createlayersurface env l out s current pending w)"
| commit: "layer_reach layer X env born w \<Longrightarrow> l \<in> born \<Longrightarrow> lo_ls (lobj w x) = None \<Longrightarrow>
    (l_mapped (ly w l) \<Longrightarrow> mapped) \<Longrightarrow>
    commitlayersurfacenotify X env x l cm
      (upd_layer l (\<lambda>y. y\<lparr>l_surface_mapped := mapped, l_layer := k, l_interactive := i\<rparr>) w) = Some w' \<Longrightarrow>
    layer_reach layer X env born w'"
| unmap: "layer_reach layer X env born w \<Longrightarrow> l \<in> born \<Longrightarrow> unmaplayersurfacenotify X env l w = Some w' \<Longrightarrow>
    layer_reach layer X env born w'"
| destroy: "layer_reach layer X env born w \<Longrightarrow> l \<in> born \<Longrightarrow> \<not> l_mapped (ly w l) \<Longrightarrow>
    layer_reach layer X env (born - {l}) (destroylayersurfacenotify env l w)"
| set_focus: "layer_reach layer X env born w \<Longrightarrow>
    luaA_layer_surface_set_has_keyboard_focus X env x focus w = Some w' \<Longrightarrow> layer_reach layer X env born w'"
| deferred: "layer_reach layer X env born w \<Longrightarrow> layer_focus_restore_deferred X env run w = Some w' \<Longrightarrow>
    layer_reach layer X env born w'"
| click: "layer_reach layer X env born w \<Longrightarrow> l_object (ly w l) = Some x \<Longrightarrow> click_layer X env l x w = Some w' \<Longrightarrow>
    layer_reach layer X env born w'"
| unmanaged: "layer_reach layer X env born w \<Longrightarrow> (\<And>c. e = Some c \<Longrightarrow> \<not> layer c) \<Longrightarrow>
    layer_reach layer X env born (w\<lparr>exclusive_focus := e\<rparr>)"
| reload: "layer_reach layer X env born w \<Longrightarrow> keeps env layer_bands \<Longrightarrow> inj new_object \<Longrightarrow>
    links (layer_view v) = links (layer_view (layer_surface_hot_reload_detach w)) \<Longrightarrow> excl_ok layer (layer_view v) \<Longrightarrow>
    (\<And>l. l_mapped (ly v l) \<Longrightarrow> \<exists>m \<in> set (mons v). \<exists>i < 4. l \<in> set (m_layers (mo v m) i)) \<Longrightarrow>
    layer_reach layer X env born (layer_surface_hot_reload env new_object v)"
| other: "layer_reach layer X env born w \<Longrightarrow> layer_view w' = layer_view w \<Longrightarrow> layer_reach layer X env born w'"

lemma inv_create:
  assumes env: "layer_env layer env" and inv: "layer_inv layer born (layer_view w)" and "layer l" "l \<notin> born"
    and "out \<noteq> None \<or> selmon w \<noteq> None"
  shows "layer_inv layer (insert l born) (layer_view (createlayersurface env l out s current pending w))"
proof -
  obtain m where m: "(if out = None then selmon w else out) = Some m" using assms(5) by (cases out) auto
  let ?f = "\<lambda>_::layer. \<lparr>l_mapped = False, l_layer = current, l_band = pending, l_mon = Some m,
    l_output = Some m, l_surface = s, l_surface_mapped = False, l_interactive = KEYBOARD_NONE, l_object = None\<rparr>"
  have new: "\<not> st_mapped (layer_view w) l" "st_object (layer_view w) l = None"
    using inv assms(4) unfolding layer_inv_def by (blast, metis option.exhaust)
  then have "layer_view (upd_layer l ?f w) = layer_view w"
    by (auto simp: layer_view_def upd_layer_def)
  then have "in_links layer (layer_view w) (layer_view (upd_layer l ?f w))"
    using inv_excl [OF inv] by (simp add: in_links_refl)
  then have "in_links layer (layer_view w) (layer_view (createlayersurface env l out s current pending w))"
    using links_call [OF env] by (simp add: createlayersurface_def m Let_def)
  then have "layer_inv layer born (layer_view (createlayersurface env l out s current pending w))"
    by (rule inv_in_links [OF inv])
  then show ?thesis by (auto simp: layer_inv_def)
qed

lemma inv_destroy:
  assumes env: "layer_env layer env" and inv: "layer_inv layer born (layer_view w)" and "\<not> l_mapped (ly w l)"
  shows "layer_inv layer (born - {l}) (layer_view (destroylayersurfacenotify env l w))"
proof -
  let ?u = "if exclusive_focus w = Some l then w\<lparr>exclusive_focus := None\<rparr> else w"
  have "in_links layer (layer_view w) (layer_view w)" using inv_excl [OF inv] by (rule in_links_refl)
  then have u: "in_links layer (layer_view w) (layer_view ?u)" by (simp add: in_links_excl)
  have "layer_view (unlink_band l v) = layer_view v" for v by (simp add: unlink_band_def split: option.split)
  then have "in_links layer (layer_view w) (layer_view (destroylayersurfacenotify env l w))"
    using u links_call [OF env] by (simp add: destroylayersurfacenotify_def Let_def mark_all_dirty_def)
  then have "layer_inv layer born (layer_view (destroylayersurfacenotify env l w))" by (rule inv_in_links [OF inv])
  moreover have "\<not> st_mapped (layer_view (destroylayersurfacenotify env l w)) l"
    using in_links_mapped [OF \<open>in_links layer (layer_view w) (layer_view (destroylayersurfacenotify env l w))\<close>] assms(3)
    by (simp add: layer_reads)
  moreover have "(\<forall>a. P a \<longrightarrow> a \<in> born) \<Longrightarrow> \<not> P l \<Longrightarrow> (\<forall>a. P a \<longrightarrow> a \<in> born - {l})" for P by auto
  ultimately show ?thesis unfolding layer_inv_def by blast
qed

lemma reach_inv:
  assumes env: "layer_env layer env" shows "layer_reach layer X env born w \<Longrightarrow> layer_inv layer born (layer_view w)"
proof (induction rule: layer_reach.induct)
  case (start w)
  then show ?case by (auto simp: layer_inv_def layer_view_def excl_ok_def)
next
  case (create born w l out s current pending)
  then show ?case using inv_create [OF env] by blast
next
  case (commit born w l x mapped cm i k w')
  let ?u = "upd_layer l (\<lambda>y. y\<lparr>l_surface_mapped := mapped, l_layer := k, l_interactive := i\<rparr>) w"
  have "layer_view ?u = layer_view w" by (auto simp: layer_view_def upd_layer_def)
  then have "layer_inv layer born (layer_view ?u)" using commit.IH by simp
  then show ?case
    by (rule inv_commit [OF env _ commit.hyps(2) _ _ commit.hyps(5)]) (use commit.hyps(3,4) in \<open>simp_all add: upd_layer_def\<close>)
next
  case (unmap born w l w')
  then show ?case using inv_unmap [OF env] by blast
next
  case (destroy born w l)
  then show ?case using inv_destroy [OF env] by blast
next
  case (set_focus born w x focus w')
  show ?case
    by (rule inv_in_links [OF set_focus.IH links_set_focus [OF env in_links_refl [OF inv_excl [OF set_focus.IH]] set_focus.hyps(2)]])
next
  case (deferred born w run w')
  show ?case
    by (rule inv_in_links [OF deferred.IH links_deferred [OF env in_links_refl [OF inv_excl [OF deferred.IH]] deferred.hyps(2)]])
next
  case (click born w l x w')
  show ?case
    by (rule inv_in_links [OF click.IH links_click [OF env in_links_refl [OF inv_excl [OF click.IH]] click.hyps(3)]])
next
  case (unmanaged born w e)
  have "in_links layer (layer_view w) (layer_view (w\<lparr>exclusive_focus := e\<rparr>))"
    using unmanaged.hyps(2) by (auto simp: in_links_def links_def excl_ok_def)
  then show ?case by (rule inv_in_links [OF unmanaged.IH])
next
  case (reload born w new_object v)
  have "in_links layer (detached (layer_view w)) (layer_view v)"
    using reload.hyps(4,5) view_detach [OF reload.IH] by (simp add: in_links_def)
  then show ?case by (rule inv_reload [OF env reload.hyps(2,3) reload.IH _ reload.hyps(6)])
next
  case (other born w w')
  then show ?case by simp
qed

text \<open>
  C10: In every state the layer surfaces can be brought into between two events (creation, commits,
  unmapping, destruction, grants to Lua and to clicks, grants to unmanaged X11 windows, whole
  reloads), the mapped surfaces are exactly those with a Lua object, a surface and its object point at each other, layer_surface.get() lists the
  objects that have a surface, each once, no freed surface is mapped or has an object, and a layer
  surface that owns the keyboard is mapped.
\<close>
theorem layer_surfaces_consistent:
  assumes "layer_env layer env" and "layer_reach layer X env born w"
  shows "(\<forall>l. l_mapped (ly w l) \<longleftrightarrow> l_object (ly w l) \<noteq> None) \<and> (\<forall>l. l_mapped (ly w l) \<longrightarrow> l \<in> born) \<and>
    (\<forall>l x. l_object (ly w l) = Some x \<longleftrightarrow> lo_ls (lobj w x) = Some l) \<and>
    distinct (layer_surfaces w) \<and> (\<forall>x. x \<in> set (layer_surfaces w) \<longleftrightarrow> layer_surface_checker x w) \<and>
    (\<forall>l. exclusive_focus w = Some l \<and> layer l \<longrightarrow> l_mapped (ly w l))"
  using reach_inv [OF assms] unfolding layer_inv_def layer_surface_checker_def layer_reads excl_ok_def by blast

text \<open>
  The handler of request::keyboard that lua/awful/permissions/init.lua connects: an exclusive
  surface in the top or the overlay layer gets the keyboard.
\<close>

definition layer_surface_keyboard :: "lock_lib \<Rightarrow> env \<Rightarrow> env" where
  "layer_surface_keyboard X base k w =
     (case k of
        Emit x n (LStr ctx # _) \<Rightarrow>
          if n = ''request::keyboard'' \<and> ctx = ''exclusive'' \<and>
             (case lo_ls (lobj w x) of None \<Rightarrow> False | Some l \<Rightarrow> l_layer (ly w l) \<in> {LAYER_TOP, LAYER_OVERLAY})
          then or_unchanged (luaA_layer_surface_set_has_keyboard_focus X base x True (base k w)) (base k w)
          else base k w
      | _ \<Rightarrow> base k w)"

lemma layer_env_weak: "layer_env layer env \<Longrightarrow> layer_env (\<lambda>_. False) env"
  by (simp add: layer_env_def preserves_def excl_ok_def)

lemma layer_env_seat: "layer_env layer seat"
  by (simp add: layer_env_def keeps_def preserves_def seat_def layer_view_def split: call.split)

lemma layer_env_base:
  assumes "layer_env layer env" shows "links (layer_view (env k w)) = links (layer_view w)"
    and "excl_ok layer (layer_view w) \<Longrightarrow> excl_ok layer (layer_view (env k w))"
  using assms by (simp_all add: layer_env_def keeps_def preserves_def)

lemma set_focus_links:
  assumes "layer_env layer env" and "luaA_layer_surface_set_has_keyboard_focus X env x b w = Some w'"
  shows "links (layer_view w') = links (layer_view w)"
    and "excl_ok layer (layer_view w) \<Longrightarrow> excl_ok layer (layer_view w')"
proof -
  have "in_links (\<lambda>_. False) (layer_view w) (layer_view w)" by (simp add: in_links_def excl_ok_def)
  from links_set_focus [OF layer_env_weak [OF assms(1)] this assms(2)]
  show "links (layer_view w') = links (layer_view w)" by (simp add: in_links_def)
  show "excl_ok layer (layer_view w')" if "excl_ok layer (layer_view w)"
    using links_set_focus [OF assms(1) in_links_refl [OF that] assms(2)] by (simp add: in_links_def)
qed

lemma layer_env_keyboard:
  assumes "layer_env layer base" shows "layer_env layer (layer_surface_keyboard X base)"
proof -
  let ?r = "\<lambda>x k w. or_unchanged (luaA_layer_surface_set_has_keyboard_focus X base x True (base k w)) (base k w)"
  have r: "links (layer_view (?r x k w)) = links (layer_view w)"
    "excl_ok layer (layer_view w) \<Longrightarrow> excl_ok layer (layer_view (?r x k w))" for x k w
    using set_focus_links [OF assms, where w = "base k w"] layer_env_base [OF assms]
    by (auto simp: or_unchanged_def split: option.split)
  have cases: "layer_surface_keyboard X base k w = base k w \<or> (\<exists>x. layer_surface_keyboard X base k w = ?r x k w)" for k w
    by (auto simp: layer_surface_keyboard_def split: call.split list.split lval.split)
  then have "links (layer_view (layer_surface_keyboard X base k w)) = links (layer_view w)" for k w
    using r(1) layer_env_base(1) [OF assms] by metis
  moreover have "excl_ok layer (layer_view w) \<Longrightarrow> excl_ok layer (layer_view (layer_surface_keyboard X base k w))" for k w
    using cases r(2) layer_env_base(2) [OF assms] by metis
  ultimately show ?thesis by (simp add: layer_env_def keeps_def preserves_def)
qed

definition layer_demo :: world where
  "layer_demo = world0\<lparr>mo := (\<lambda>_. monitor0\<lparr>m_enabled := True\<rparr>), selmon := Some 5\<rparr>"

definition demo_mapped :: "nat \<Rightarrow> nat \<Rightarrow> nat \<Rightarrow> world \<Rightarrow> world option" where
  "demo_mapped x l k w =
     commitlayersurfacenotify demo_lock_lib (layer_surface_keyboard demo_lock_lib seat) x l
       \<lparr>cm_initial = False, cm_committed = 32\<rparr>
       (upd_layer l (\<lambda>y. y\<lparr>l_surface_mapped := True, l_layer := k, l_interactive := KEYBOARD_EXCLUSIVE\<rparr>)
         (createlayersurface (layer_surface_keyboard demo_lock_lib seat) l None (l + 10) k k w))"

lemma layer_surfaces_consistent_witness:
  "\<exists>w. demo_mapped 20 7 3 layer_demo = Some w \<and> l_mapped (ly w 7) \<and> exclusive_focus w = Some 7 \<and>
     layer_reach (\<lambda>l. l = 7) demo_lock_lib (layer_surface_keyboard demo_lock_lib seat) {7} w \<and>
     l_object (ly w 7) \<noteq> None \<and> (\<forall>x. l_object (ly w 7) = Some x \<longrightarrow> layer_surface_checker x w)"
proof -
  let ?env = "layer_surface_keyboard demo_lock_lib seat" and ?layer = "\<lambda>l::nat. l = 7"
  have env: "layer_env ?layer ?env" by (rule layer_env_keyboard [OF layer_env_seat])
  have "map_option (\<lambda>w. (l_mapped (ly w 7), exclusive_focus w)) (demo_mapped 20 7 3 layer_demo) = Some (True, Some 7)"
    by code_simp
  then obtain w where w: "demo_mapped 20 7 3 layer_demo = Some w" "l_mapped (ly w 7)" "exclusive_focus w = Some 7" by auto
  have "layer_reach ?layer demo_lock_lib ?env {} layer_demo"
    by (rule layer_reach.start) (simp_all add: layer_demo_def world0_def)
  from layer_reach.create [OF this refl, where out = None and s = 17 and current = 3 and pending = 3]
  have new: "layer_reach ?layer demo_lock_lib ?env {7} (createlayersurface ?env 7 None 17 3 3 layer_demo)"
    by (simp add: layer_demo_def)
  have "lo_ls (lobj (createlayersurface ?env 7 None 17 3 3 layer_demo) 20) = None" by code_simp
  then have reach: "layer_reach ?layer demo_lock_lib ?env {7} w"
    using w(1) layer_reach.commit [OF new, of 7 20 True] unfolding demo_mapped_def by simp
  note all = layer_surfaces_consistent [OF env reach]
  have "l_object (ly w 7) \<noteq> None" using all w(2) by blast
  moreover have "layer_surface_checker x w" if "l_object (ly w 7) = Some x" for x
  proof -
    have "lo_ls (lobj w x) = Some 7" using all that by blast
    then show ?thesis by (simp add: layer_surface_checker_def)
  qed
  ultimately show ?thesis using w reach by (intro exI [of _ w]) simp
qed

subsection \<open>A surface that was covered\<close>

definition flag_view where "flag_view w = (layer_view w, \<lambda>x. has_keyboard_focus (lobj w x))"

interpretation flagf: focus_frame flag_view
  by unfold_locales (simp_all add: flag_view_def layer_view_def)

text \<open>
  Nothing owns the keyboard, and every mapped surface has the flag: m are the mapped ones, ob and ls
  the links.
\<close>

definition spent ::
  "(nat \<Rightarrow> bool) \<Rightarrow> (nat \<Rightarrow> nat option) \<Rightarrow> (nat \<Rightarrow> nat option) \<Rightarrow> layer_state \<times> (nat \<Rightarrow> bool) \<Rightarrow> bool" where
  "spent m ob ls vf \<longleftrightarrow>
     (let (v, f) = vf in st_excl v = None \<and> st_mapped v = m \<and> st_object v = ob \<and> st_ls v = ls \<and>
       (\<forall>l. m l \<longrightarrow> (\<exists>x. ob l = Some x \<and> f x)) \<and> (\<forall>l x. m l \<and> ls x = Some l \<longrightarrow> f x))"

lemma spent_base: "keeps base flag_view \<Longrightarrow> spent m ob ls (flag_view (base k w)) = spent m ob ls (flag_view w)"
  by (simp add: keeps_def)

lemma spent_set_focus:
  assumes "keeps base flag_view" and "spent m ob ls (flag_view w)"
    and "luaA_layer_surface_set_has_keyboard_focus X base x True w = Some w'"
  shows "spent m ob ls (flag_view w')"
proof (cases "has_keyboard_focus (lobj w x)")
  case True
  then show ?thesis using assms(2,3) by (simp add: luaA_layer_surface_set_has_keyboard_focus_def)
next
  case False
  let ?u = "upd_lobj x (\<lambda>y. y\<lparr>has_keyboard_focus := True\<rparr>) w"
  have u: "spent m ob ls (flag_view ?u)"
    using assms(2) by (auto simp: spent_def flag_view_def view_upd_lobj) (auto simp: upd_lobj_def)
  have "\<not> l_mapped (ly w l)" if "lo_ls (lobj w x) = Some l" for l
    using that False assms(2) by (auto simp: spent_def flag_view_def layer_view_def)
  then have "layer_surface_focus X base x ?u = Some ?u"
    by (auto simp: layer_surface_focus_def layer_surface_grant_keyboard_def upd_lobj_def split: option.split)
  then show ?thesis using assms(1,3) False u
    by (auto simp: luaA_layer_surface_set_has_keyboard_focus_def Let_def call_env_def spent_base)
qed

lemma spent_env:
  assumes "keeps base flag_view" shows "preserves (layer_surface_keyboard X base) (\<lambda>w. spent m ob ls (flag_view w))"
  unfolding preserves_def
proof (intro allI impI)
  fix k w assume w: "spent m ob ls (flag_view w)"
  then have b: "spent m ob ls (flag_view (base k w))" using spent_base [OF assms] by simp
  then have r: "spent m ob ls (flag_view (or_unchanged (luaA_layer_surface_set_has_keyboard_focus X base x True (base k w)) (base k w)))" for x
    using spent_set_focus [OF assms b] by (auto simp: or_unchanged_def split: option.split)
  show "spent m ob ls (flag_view (layer_surface_keyboard X base k w))"
    using b r by (auto simp: layer_surface_keyboard_def split: call.split list.split lval.split)
qed

lemmas spent_call = flagf.call_holds [OF spent_env] and spent_restore = flagf.focus_restore_holds [OF spent_env]

lemma spent_loop:
  assumes "keeps base flag_view"
  shows "spent m ob ls (flag_view w) \<Longrightarrow> keyboard_focus_loop X (layer_surface_keyboard X base) xs w = Some (t, w') \<Longrightarrow>
    spent m ob ls (flag_view w')"
proof (induction xs arbitrary: w)
  case (Cons l xs)
  show ?case
  proof (cases "ext_locked w \<or> l_interactive (ly w l) = KEYBOARD_NONE \<or> \<not> l_mapped (ly w l)")
    case True
    then show ?thesis using Cons by simp
  next
    case False
    then obtain x where x: "l_object (ly w l) = Some x"
      using Cons.prems(1) by (fastforce simp: spent_def flag_view_def layer_view_def)
    let ?u = "layer_surface_emit_request_keyboard (layer_surface_keyboard X base) x
      (if l_interactive (ly w l) = KEYBOARD_EXCLUSIVE then ''exclusive'' else ''on_demand'') w"
    have u: "spent m ob ls (flag_view ?u)"
      unfolding layer_surface_emit_request_keyboard_def by (rule spent_call [OF assms Cons.prems(1)])
    then show ?thesis using False Cons.prems(2) x Cons.IH [OF u] by (auto simp: Let_def split: if_splits)
  qed
qed simp

lemma spent_keyboard_focus:
  assumes "keeps base flag_view" and "spent m ob ls (flag_view w)"
    and "layer_keyboard_focus X (layer_surface_keyboard X base) d w = Some w'"
  shows "spent m ob ls (flag_view w')"
  by (rule keyboard_focus_by_loop [where P = "\<lambda>w. spent m ob ls (flag_view w)", OF spent_loop [OF assms(1)] assms(2,3)])

lemma spent_unlink:
  assumes "spent m ob ls (flag_view v)" and "lo_ls (lobj v x) = Some b" and "\<not> m b"
  shows "spent m (ob(b := None)) (ls(x := None)) (flag_view (enqueue q (let w = layer_surface_unlink x v in
    case index_of x (layer_surfaces w) of None \<Rightarrow> w
     | Some i \<Rightarrow> w\<lparr>layer_surfaces := take i (layer_surfaces w) @ drop (Suc i) (layer_surfaces w), registry := registry w - {#x#}\<rparr>)))"
proof -
  let ?w = "layer_surface_unlink x v"
  have flags: "has_keyboard_focus (lobj ?w y) = has_keyboard_focus (lobj v y)" for y
    by (simp add: layer_surface_unlink_def upd_layer_def upd_lobj_def split: option.split)
  have take: "lobj (case index_of x (layer_surfaces w) of None \<Rightarrow> w
     | Some i \<Rightarrow> w\<lparr>layer_surfaces := take i (layer_surfaces w) @ drop (Suc i) (layer_surfaces w), registry := r\<rparr>) = lobj w" for w r
    by (simp split: option.split)
  show ?thesis using assms
    by (auto simp: spent_def flag_view_def view_take view_unlink Let_def flags take)
qed

text \<open>
  A layer surface that another one covered does not get the keyboard back. When b, which owns
  the keyboard, is unmapped, and every other mapped surface has been given the keyboard before,
  then with the handler of request::keyboard the library installs no surface owns the keyboard
  afterwards, although each of them is still mapped and says it has the keyboard focus: the
  handler sets a flag that no one has cleared, which does nothing.
\<close>
theorem covered_layer_loses_keyboard:
  assumes "keeps base flag_view" and "exclusive_focus w = Some b"
    and before: "\<And>l. l \<noteq> b \<Longrightarrow> l_mapped (ly w l) \<Longrightarrow>
      \<exists>x. l_object (ly w l) = Some x \<and> has_keyboard_focus (lobj w x)"
    and linked: "\<And>l x. l_object (ly w l) = Some x \<longleftrightarrow> lo_ls (lobj w x) = Some l"
    and run: "unmaplayersurfacenotify X (layer_surface_keyboard X base) b w = Some w'"
  shows "exclusive_focus w' = None \<and> (\<forall>l. l \<noteq> b \<and> l_mapped (ly w l) \<longrightarrow> l_mapped (ly w' l) \<and>
    (\<exists>x. l_object (ly w' l) = Some x \<and> has_keyboard_focus (lobj w' x)))"
proof -
  let ?env = "layer_surface_keyboard X base"
  let ?m = "\<lambda>l. l \<noteq> b \<and> l_mapped (ly w l)" and ?ob = "\<lambda>l. l_object (ly w l)" and ?ls = "\<lambda>x. lo_ls (lobj w x)"
  let ?P = "\<lambda>v. spent ?m ?ob ?ls (flag_view v)"
  note call = spent_call [OF assms(1), where m = ?m and ob = ?ob and ls = ?ls]
  define w1 where "w1 = (upd_layer b (\<lambda>y. y\<lparr>l_mapped := False\<rparr>) w)\<lparr>exclusive_focus := None\<rparr>"
  have view1: "flag_view w1 = ((mapping b False (layer_view w))\<lparr>st_excl := None\<rparr>, \<lambda>x. has_keyboard_focus (lobj w x))"
    by (simp add: flag_view_def w1_def view_mapping) (simp add: upd_layer_def)
  have "has_keyboard_focus (lobj w x)" if "l \<noteq> b" "l_mapped (ly w l)" "lo_ls (lobj w x) = Some l" for l x
    using before [OF that(1,2)] linked [of l x] that(3) by auto
  then have w1: "?P w1"
    unfolding view1 spent_def using before by (auto simp: mapping_def layer_view_def fun_eq_iff)
  define send where "send d v = upd_layer b (\<lambda>y. y\<lparr>l_mon := Some d\<rparr>)
    (call_env ?env (Native ''wlr_surface_send_leave'' [LUser (l_surface (ly v b)), LUser d]) v)" for d v
  have send: "?P (send d w1)" for d
  proof -
    have "flag_view (upd_layer b (\<lambda>y. y\<lparr>l_mon := Some d\<rparr>) v) = flag_view v" for v
      by (simp add: flag_view_def view_mapping) (simp add: upd_layer_def)
    then show ?thesis unfolding send_def using call [OF w1] by simp
  qed
  have ex: "exclusive_focus (upd_layer b f w) = Some b" for f using assms(2) by (simp add: upd_layer_def)
  obtain u where u: "(case l_output (ly w1 b) of None \<Rightarrow> Some w1
      | Some d \<Rightarrow> map_option (mark_layer_dirty ?env b) (layer_keyboard_focus X ?env d (send d w1))) = Some u"
    and tail: "map_option (call_env ?env (Native ''motionnotify'' []))
      (unmap_focus X ?env b True (case l_object (ly u b) of Some x \<Rightarrow> layer_surface_emit_unmanage ?env x u | None \<Rightarrow> u)) = Some w'"
    using run assms(2) unfolding unmaplayersurfacenotify_def Let_def ex send_def [symmetric]
    by (auto simp only: bind_eq_Some_conv w1_def [symmetric] if_True simp_thms)
  have pu: "?P u"
  proof (cases "l_output (ly w1 b)")
    case None
    then show ?thesis using u w1 by simp
  next
    case (Some d)
    then obtain z where z: "layer_keyboard_focus X ?env d (send d w1) = Some z" "u = mark_layer_dirty ?env b z"
      using u by auto
    have "?P z" by (rule spent_keyboard_focus [OF assms(1) send z(1)])
    then show ?thesis unfolding z(2) mark_layer_dirty_def by (rule call)
  qed
  define u2 where "u2 = (case l_object (ly u b) of Some x \<Rightarrow> layer_surface_emit_unmanage ?env x u | None \<Rightarrow> u)"
  have "\<exists>ob' ls'. (\<forall>l. l \<noteq> b \<longrightarrow> ob' l = ?ob l) \<and> spent ?m ob' ls' (flag_view u2)"
  proof (cases "l_object (ly u b)")
    case None
    then show ?thesis using pu by (auto simp: u2_def)
  next
    case (Some x)
    let ?v = "emit ?env x ''request::unmanage'' [LStr ''destroyed'', LTable 0] u"
    have v: "?P ?v" by (rule call [OF pu])
    have "?ob b = Some x" using pu Some by (auto simp: spent_def flag_view_def layer_view_def fun_eq_iff)
    then have "lo_ls (lobj ?v x) = Some b" using linked v by (auto simp: spent_def flag_view_def layer_view_def fun_eq_iff)
    then have "spent ?m (?ob(b := None)) (?ls(x := None)) (flag_view (layer_surface_emit_unmanage ?env x u))"
      unfolding layer_surface_emit_unmanage_def Let_def
      by (intro spent_unlink [OF v, unfolded Let_def]) simp_all
    then have "spent ?m (?ob(b := None)) (?ls(x := None)) (flag_view u2)" using Some by (simp add: u2_def)
    then show ?thesis by (intro exI [of _ "?ob(b := None)"] exI [of _ "?ls(x := None)"]) simp
  qed
  then obtain ob' ls' where ob': "\<And>l. l \<noteq> b \<Longrightarrow> ob' l = ?ob l" and u2: "spent ?m ob' ls' (flag_view u2)" by blast
  obtain u3 where u3: "unmap_focus X ?env b True u2 = Some u3" "w' = call_env ?env (Native ''motionnotify'' []) u3"
    using tail unfolding u2_def [symmetric] by auto
  have "flag_view (v\<lparr>deferred_focus := d\<rparr>) = flag_view v" for v d by (simp add: flag_view_def)
  then have "spent ?m ob' ls' (flag_view u3)"
    using u3(1) u2 spent_restore [OF assms(1) u2] by (auto simp: unmap_focus_def split: if_splits)
  then have "spent ?m ob' ls' (flag_view w')" unfolding u3(2) by (rule spent_call [OF assms(1)])
  then show ?thesis using ob' by (auto simp: spent_def flag_view_def layer_view_def fun_eq_iff)
qed

text \<open>Two exclusive surfaces, 7 in the top layer and 8 over it; the client 5 shows on the monitor.\<close>

definition covered_demo :: world where
  "covered_demo = restore_demo\<lparr>mo := (\<lambda>_. monitor0\<lparr>m_enabled := True, m_layers := (\<lambda>k. if k = 2 then [7] else if k = 3 then [8] else [])\<rparr>),
     selmon := Some 5,
     cl := (\<lambda>c. client0\<lparr>has_surface := True, surface := Some (c + 10), has_scene := True, c_mon := Some 5, sticky := True\<rparr>),
     surf := (\<lambda>s. \<lparr>root_surface = s, sf_role = if s \<in> {17, 18} then Layer_surface (s - 10) else Other_surface,
       sf_mapped = True, sf_constraint = None\<rparr>),
     ly := (\<lambda>l. if l \<in> {7, 8} then \<lparr>l_mapped = True, l_layer = l - 5, l_band = l - 5, l_mon = Some 5, l_output = Some 5,
         l_surface = l + 10, l_surface_mapped = True, l_interactive = KEYBOARD_EXCLUSIVE, l_object = Some (l + 13)\<rparr>
       else ly world0 l),
     lobj := (\<lambda>x. if x \<in> {20, 21} then \<lparr>lo_ls = Some (x - 13), has_keyboard_focus = True, lo_screen = None, lo_buttons = []\<rparr>
       else lobj world0 x),
     layer_surfaces := [20, 21], exclusive_focus := Some 8, seat_focus := Some 18\<rparr>"

lemma covered_layer_loses_keyboard_witness:
  "\<exists>w. unmaplayersurfacenotify demo_lock_lib (layer_surface_keyboard demo_lock_lib seat) 8 covered_demo = Some w \<and>
     exclusive_focus w = None \<and> seat_focus w = Some 15 \<and> l_mapped (ly w 7) \<and> l_interactive (ly w 7) = KEYBOARD_EXCLUSIVE"
proof -
  have "map_option (\<lambda>w. (seat_focus w, l_interactive (ly w 7)))
      (unmaplayersurfacenotify demo_lock_lib (layer_surface_keyboard demo_lock_lib seat) 8 covered_demo) = Some (Some 15, KEYBOARD_EXCLUSIVE)"
    by code_simp
  then obtain w where w: "unmaplayersurfacenotify demo_lock_lib (layer_surface_keyboard demo_lock_lib seat) 8 covered_demo = Some w"
    "seat_focus w = Some 15" "l_interactive (ly w 7) = KEYBOARD_EXCLUSIVE" by auto
  have "keeps seat flag_view" by (simp add: keeps_def seat_def flag_view_def layer_view_def split: call.split)
  moreover have "l \<noteq> 8 \<Longrightarrow> l_mapped (ly covered_demo l) \<Longrightarrow>
      \<exists>x. l_object (ly covered_demo l) = Some x \<and> has_keyboard_focus (lobj covered_demo x)" for l
    by (simp add: covered_demo_def world0_def split: if_splits)
  moreover have "l_object (ly covered_demo l) = Some x \<longleftrightarrow> lo_ls (lobj covered_demo x) = Some l" for l x
    by (auto simp: covered_demo_def world0_def)
  moreover have "exclusive_focus covered_demo = Some 8" "l_mapped (ly covered_demo 7)" by (simp_all add: covered_demo_def)
  ultimately show ?thesis using covered_layer_loses_keyboard [of seat covered_demo 8 demo_lock_lib w] w by auto
qed

end
