(* ===== verification/Pointer.thy ===== *)
theory Pointer
  imports Layer
begin

unbundle bit_operations_syntax

text \<open>
  The pointer's buttons and wheel: the button objects of drawins, clients and the root
  (objects/button.c, root.c), the grab of the mouse (event.c), and the handlers buttonpress and
  axisnotify of input.c. What lies under the pointer is asked of the frame and is a parameter.
  The lemmas show which clicks a locked session lets through, and when turning the wheel counts.
\<close>

subsection \<open>Button objects\<close>

definition translate_button_code :: "u32 \<Rightarrow> u32" where
  "translate_button_code b =
     (if b = 0x110 then 1 else if b = 0x111 then 3 else if b = 0x112 then 2
      else if b = 0x113 then 8 else if b = 0x114 then 9
      else if 0x110 \<le> b \<and> b \<le> 0x11f then b - 0x110 + 1
      else b)"

text \<open>The tests of drawins and clients, and the one of the root.\<close>

definition button_matches :: "u32 \<Rightarrow> u32 \<Rightarrow> button \<Rightarrow> bool" where
  "button_matches b mods x \<longleftrightarrow>
     (b_button x = 0 \<or> b_button x = translate_button_code b) \<and>
     (b_modifiers x = BUTTON_MODIFIER_ANY \<or> b_modifiers x = ucast (mods AND 0xFF))"

definition root_button_matches :: "u32 \<Rightarrow> u32 \<Rightarrow> button \<Rightarrow> bool" where
  "root_button_matches b mods x \<longleftrightarrow>
     (b_button x = 0 \<or> b_button x = translate_button_code b) \<and>
     (b_modifiers x = 0 \<or> ucast (b_modifiers x) = mods)"

text \<open>
  The loop over an array of buttons, which reads the array again in every round, as handlers may
  change it; the result counts the matches, None is a loop still running.
\<close>

fun emit_buttons ::
  "nat \<Rightarrow> nat \<Rightarrow> (world \<Rightarrow> nat list) \<Rightarrow> (button \<Rightarrow> bool) \<Rightarrow> (nat \<Rightarrow> world \<Rightarrow> world) \<Rightarrow> nat \<Rightarrow> world \<Rightarrow>
   (nat \<times> world) option" where
  "emit_buttons 0 i arr match fire matched w = None"
| "emit_buttons (Suc n) i arr match fire matched w =
     (if i < length (arr w) then
        (if match (button_at w (arr w ! i))
         then emit_buttons n (Suc i) arr match fire (matched + 1) (fire (arr w ! i) w)
         else emit_buttons n (Suc i) arr match fire matched w)
      else Some (matched, w))"

definition button_signal :: "bool \<Rightarrow> string" where
  "button_signal is_press = (if is_press then ''button::press'' else ''button::release'')"

text \<open>The arguments x, y, the button and the modifiers; the table of modifiers is written out.\<close>

definition button_args :: "int \<Rightarrow> int \<Rightarrow> u32 \<Rightarrow> u32 \<Rightarrow> lval list" where
  "button_args x y b mods =
     [LInt x, LInt y, LInt (uint (translate_button_code b))] @ button_pushmodifiers mods"

definition emit_drawable_button_signal :: "env \<Rightarrow> nat \<Rightarrow> int \<Rightarrow> int \<Rightarrow> u32 \<Rightarrow> u32 \<Rightarrow> bool \<Rightarrow> world \<Rightarrow> world" where
  "emit_drawable_button_signal env d x y b mods is_press w =
     (case d_drawable (dw w d) of
        None \<Rightarrow> w
      | Some r \<Rightarrow> emit env r (button_signal is_press) (button_args x y b mods) w)"

definition drawin_emit_button_signals ::
  "nat \<Rightarrow> env \<Rightarrow> nat \<Rightarrow> u32 \<Rightarrow> u32 \<Rightarrow> bool \<Rightarrow> world \<Rightarrow> (nat \<times> world) option" where
  "drawin_emit_button_signals fuel env d b mods is_press =
     emit_buttons fuel 0 (\<lambda>w. d_buttons (dw w d)) (button_matches b mods)
       (\<lambda>x. emit env x (press_signal is_press) []) 0"

definition luaA_drawin_button_check ::
  "nat \<Rightarrow> env \<Rightarrow> nat \<Rightarrow> int \<Rightarrow> int \<Rightarrow> u32 \<Rightarrow> u32 \<Rightarrow> bool \<Rightarrow> world \<Rightarrow> (bool \<times> world) option" where
  "luaA_drawin_button_check fuel env d x y b mods is_press w =
     map_option (\<lambda>(matched, w). (matched > 0, w))
       (drawin_emit_button_signals fuel env d b mods is_press
          (emit_drawable_button_signal env d x y b mods is_press w))"

text \<open>The offset is that of the bar the point is in; outside of them it stays as it is.\<close>

definition luaA_drawable_button_emit ::
  "env \<Rightarrow> nat \<Rightarrow> nat \<Rightarrow> int \<Rightarrow> int \<Rightarrow> u32 \<Rightarrow> u32 \<Rightarrow> bool \<Rightarrow> world \<Rightarrow> world" where
  "luaA_drawable_button_emit env c r x y b mods is_press w =
     (let (x, y) = (case client_get_drawable_offset (cl w c) x y of
                      Some (_, x, y) \<Rightarrow> (x, y) | None \<Rightarrow> (x, y))
      in emit env r (button_signal is_press) (button_args x y b mods) w)"

definition client_emit_button_signals ::
  "nat \<Rightarrow> env \<Rightarrow> nat \<Rightarrow> u32 \<Rightarrow> u32 \<Rightarrow> bool \<Rightarrow> world \<Rightarrow> (nat \<times> world) option" where
  "client_emit_button_signals fuel env c b mods is_press =
     emit_buttons fuel 0 (\<lambda>w. c_buttons (cl w c)) (button_matches b mods)
       (\<lambda>x. emit env x (press_signal is_press) [LUser c]) 0"

definition luaA_client_button_check ::
  "nat \<Rightarrow> env \<Rightarrow> nat \<Rightarrow> int \<Rightarrow> int \<Rightarrow> u32 \<Rightarrow> u32 \<Rightarrow> bool \<Rightarrow> world \<Rightarrow> (bool \<times> world) option" where
  "luaA_client_button_check fuel env c x y b mods is_press w =
     map_option (\<lambda>(matched, w). (matched > 0, w))
       (client_emit_button_signals fuel env c b mods is_press
          (emit env c (button_signal is_press) (button_args x y b mods) w))"

definition luaA_root_button_check ::
  "nat \<Rightarrow> env \<Rightarrow> u32 \<Rightarrow> u32 \<Rightarrow> bool \<Rightarrow> world \<Rightarrow> (nat \<times> world) option" where
  "luaA_root_button_check fuel env b mods is_press =
     emit_buttons fuel 0 root_buttons (root_button_matches b mods)
       (\<lambda>x. emit env x (press_signal is_press) []) 0"

subsection \<open>The grab of the mouse\<close>

text \<open>
  What the handlers ask of the surroundings: the hit of xytonode with its client, layer surface,
  drawin and titlebar, whether the inspector covers the point, the modifiers of the keyboard, the
  point (truncated to integers) and the monitor at it, whether the function of the grabber returned
  true, and fuel for the loops over buttons.
\<close>

record hit =
  hit_client :: "nat option"
  hit_layer :: "nat option"
  hit_drawin :: "nat option"
  hit_titlebar :: "nat option"

record pointer_lib =
  xytonode :: "world \<Rightarrow> hit"
  inspector_covers :: "world \<Rightarrow> bool"
  keyboard_mods :: "world \<Rightarrow> u32"
  cur_x :: int
  cur_y :: int
  xytomon :: "world \<Rightarrow> nat option"
  grab_continues :: "world \<Rightarrow> bool"
  button_fuel :: nat

datatype cursor_mode = CurNormal | CurPressed

text \<open>
  The state of the handlers: globalconf.button_state, the mode of the cursor and the static
  accumulators of axisnotify.
\<close>

record pointer_state =
  button_state :: "bool list"
  cursor_mode :: cursor_mode
  scroll_acc_v :: int
  scroll_acc_h :: int

definition some_button_state_mask :: "pointer_state \<Rightarrow> u16" where
  "some_button_state_mask p =
     fold (\<lambda>i m. if button_state p ! i then m OR push_bit (8 + i) 1 else m) [0..<5] 0"

definition mousegrabber_isrunning :: "world \<Rightarrow> bool" where
  "mousegrabber_isrunning w \<longleftrightarrow> mousegrabber_running w"

text \<open>The callback gets the table of luaA_mouse_pushstatus, written as its coordinates and mask.\<close>

definition event_handle_mousegrabber ::
  "pointer_lib \<Rightarrow> env \<Rightarrow> pointer_state \<Rightarrow> u16 \<Rightarrow> world \<Rightarrow> bool \<times> world" where
  "event_handle_mousegrabber P env p extra_mask w =
     (if \<not> mousegrabber_isrunning w then (False, w)
      else
        (let w = call_env env (Native ''mousegrabber_callback''
                   [LInt (cur_x P), LInt (cur_y P), LInt (uint (extra_mask OR some_button_state_mask p))]) w
         in (True, if grab_continues P w then w else luaA_mousegrabber_stop env w)))"

definition scroll_press_mask :: "nat \<Rightarrow> u16" where
  "scroll_press_mask b = (if b \<le> 5 then push_bit (7 + b) 1 else 0)"

fun event_handle_mousegrabber_scroll ::
  "pointer_lib \<Rightarrow> env \<Rightarrow> pointer_state \<Rightarrow> nat \<Rightarrow> nat \<Rightarrow> world \<Rightarrow> world" where
  "event_handle_mousegrabber_scroll P env p b 0 w = w"
| "event_handle_mousegrabber_scroll P env p b (Suc ticks) w =
     (let (h, w) = event_handle_mousegrabber P env p (scroll_press_mask b) w in
      if \<not> h then w
      else
        (let (h, w) = event_handle_mousegrabber P env p 0 w in
         if \<not> h then w else event_handle_mousegrabber_scroll P env p b ticks w))"

text \<open>mousegrabber.run, stop and the reload; the function has been checked, None is a Lua error.\<close>

definition luaA_mousegrabber_run :: "env \<Rightarrow> bool \<Rightarrow> string option \<Rightarrow> world \<Rightarrow> world option" where
  "luaA_mousegrabber_run env is_function cursor_name w =
     (if mousegrabber_running w \<or> \<not> is_function then None
      else
        (let w = (case cursor_name of
                    Some n \<Rightarrow> call_env env (Native ''cursor_set_xcursor'' [LStr n]) w | None \<Rightarrow> w)
         in Some (mark_all_dirty env (w\<lparr>mousegrabber_running := True\<rparr>))))"

definition mousegrabber_hot_reload :: "env \<Rightarrow> world \<Rightarrow> world" where
  "mousegrabber_hot_reload env w =
     (let w = (if mousegrabber_running w then call_env env (Native ''cursor_set_xcursor'' [LStr ''default'']) w else w)
      in call_env env (Native ''layer_focus_restore_deferred'' [LBool False]) (w\<lparr>mousegrabber_running := False\<rparr>))"

subsection \<open>A press and a release\<close>

text \<open>A button event: the code, whether it is a press, and its time.\<close>

record button_event =
  be_button :: u32
  be_pressed :: bool
  be_time :: int

abbreviation (input) SIG_SCREEN_FOCUS :: nat where "SIG_SCREEN_FOCUS \<equiv> 48"
abbreviation (input) BTN_LEFT :: u32 where "BTN_LEFT \<equiv> 0x110"

definition track_button :: "button_event \<Rightarrow> pointer_state \<Rightarrow> pointer_state" where
  "track_button e p =
     (let track = (\<lambda>i. p\<lparr>button_state := (button_state p)[i := be_pressed e]\<rparr>) in
      if be_button e = 0x110 then track 0
      else if be_button e = 0x112 then track 1
      else if be_button e = 0x111 then track 2
      else p)"

text \<open>
  The result of the part that runs Lua code: whether the handler returns before the event is
  forwarded.
\<close>

definition press_root :: "pointer_lib \<Rightarrow> env \<Rightarrow> u32 \<Rightarrow> u32 \<Rightarrow> world \<Rightarrow> (bool \<times> world) option" where
  "press_root P env b mods w =
     map_option (\<lambda>(matched, w).
        if matched > 0 then (True, w)
        else if xytomon P w \<noteq> None \<and> xytomon P w \<noteq> selmon w
        then (False, enqueue (QGlobal SIG_SCREEN_FOCUS) (w\<lparr>selmon := xytomon P w\<rparr>))
        else (False, w))
       (luaA_root_button_check (button_fuel P) env b mods True w)"

definition press_client :: "pointer_lib \<Rightarrow> env \<Rightarrow> nat \<Rightarrow> nat option \<Rightarrow> u32 \<Rightarrow> u32 \<Rightarrow> bool \<Rightarrow> world \<Rightarrow> (bool \<times> world) option" where
  "press_client P env c titlebar b mods is_press w =
     (let rel_x = cur_x P - ax (geometry (cl w c));
          rel_y = cur_y P - ay (geometry (cl w c));
          w = (case titlebar of
                 Some r \<Rightarrow> luaA_drawable_button_emit env c r rel_x rel_y b mods is_press w | None \<Rightarrow> w)
      in map_option (\<lambda>(h, w). (False, w)) (luaA_client_button_check (button_fuel P) env c rel_x rel_y b mods is_press w))"

definition press_drawin :: "pointer_lib \<Rightarrow> env \<Rightarrow> nat \<Rightarrow> u32 \<Rightarrow> u32 \<Rightarrow> bool \<Rightarrow> world \<Rightarrow> (bool \<times> world) option" where
  "press_drawin P env d b mods is_press w =
     luaA_drawin_button_check (button_fuel P) env d (cur_x P - ax (d_area (dw w d))) (cur_y P - ay (d_area (dw w d)))
       b mods is_press w"

definition press_layer :: "lock_lib \<Rightarrow> env \<Rightarrow> nat option \<Rightarrow> world \<Rightarrow> (bool \<times> world) option" where
  "press_layer X env l w =
     (case l of
        None \<Rightarrow> Some (False, w)
      | Some l \<Rightarrow>
          (case l_object (ly w l) of
             None \<Rightarrow> Some (False, w)
           | Some x \<Rightarrow> map_option (Pair False) (click_layer X env l x w)))"

definition pressed :: "lock_lib \<Rightarrow> pointer_lib \<Rightarrow> env \<Rightarrow> u32 \<Rightarrow> world \<Rightarrow> (bool \<times> world) option" where
  "pressed X P env b w =
     (let h = xytonode P w in
      if lua_locked w \<and> hit_drawin h \<noteq> lock_surface w then Some (True, w)
      else
        (let inside = inspector_covers P w;
             w = call_env env (Native ''declare_inspector_pointer''
                   [LInt (if b = BTN_LEFT then 1 else -1), LBool (inside \<and> b = BTN_LEFT)]) w
         in if inside then Some (True, w)
            else
              (let mods = CLEANMASK (keyboard_mods P w) in
               case hit_drawin h of
                 Some d \<Rightarrow> press_drawin P env d b mods True w
               | None \<Rightarrow>
                   (case hit_client h of
                      Some c \<Rightarrow>
                        if \<not> client_is_unmanaged (cl w c) \<or> client_wants_focus (cl w c)
                        then press_client P env c (hit_titlebar h) b mods True w
                        else press_layer X env (hit_layer h) w
                    | None \<Rightarrow>
                        (case hit_layer h of
                           Some l \<Rightarrow> press_layer X env (Some l) w
                         | None \<Rightarrow> press_root P env b mods w)))))"
definition released :: "pointer_lib \<Rightarrow> env \<Rightarrow> u32 \<Rightarrow> world \<Rightarrow> (bool \<times> world) option" where
  "released P env b w =
     (let w = call_env env (Native ''declare_inspector_pointer''
                [LInt (if b = BTN_LEFT then 0 else -1), LBool False]) w
      in if inspector_covers P w then Some (True, w)
         else if session_locked w then Some (False, w)
         else
           (let h = xytonode P w; mods = CLEANMASK (keyboard_mods P w) in
            case hit_drawin h of
              Some d \<Rightarrow> press_drawin P env d b mods False w
            | None \<Rightarrow>
                (case hit_client h of
                   Some c \<Rightarrow> press_client P env c (hit_titlebar h) b mods False w
                 | None \<Rightarrow>
                     map_option (\<lambda>(matched, w). (matched > 0, w))
                       (luaA_root_button_check (button_fuel P) env b mods False w))))"

definition forward_button :: "env \<Rightarrow> button_event \<Rightarrow> world \<Rightarrow> world" where
  "forward_button env e w =
     (if mousegrabber_isrunning w then w
      else call_env env (Native ''wlr_seat_pointer_notify_button''
             [LInt (be_time e), LInt (uint (be_button e)), LBool (be_pressed e)]) w)"

definition buttonpress ::
  "lock_lib \<Rightarrow> pointer_lib \<Rightarrow> env \<Rightarrow> button_event \<Rightarrow> pointer_state \<Rightarrow> world \<Rightarrow> (pointer_state \<times> world) option" where
  "buttonpress X P env e p w =
     (let w = call_env env (Native ''notify_activity'' []) w;
          p = track_button e p;
          (grabbed, w) = event_handle_mousegrabber P env p 0 w
      in if grabbed then Some (p, w)
         else
           (let p = p\<lparr>cursor_mode := (if be_pressed e then CurPressed else CurNormal)\<rparr> in
            map_option (\<lambda>(done, w). (p, if done then w else forward_button env e w))
              (if be_pressed e
               then (if ext_locked w then Some (False, w) else pressed X P env (be_button e) w)
               else released P env (be_button e) w)))"

subsection \<open>The wheel\<close>

text \<open>
  An axis event: whether it is vertical, the sign of delta and delta_discrete. The static
  accumulators are int32_t in the code; between events their amount is below 120, so adding a
  delta_discrete of up to 2^31 - 121 does not overflow.
\<close>

record axis_event =
  ae_vertical :: bool
  ae_delta :: rat
  ae_discrete :: int
  ae_time :: int

function ticks_up :: "int \<Rightarrow> nat \<Rightarrow> nat \<times> int" where
  "ticks_up acc ticks = (if acc \<ge> 120 then ticks_up (acc - 120) (ticks + 1) else (ticks, acc))"
  by auto
termination by (relation "measure (\<lambda>(acc, _). nat acc)") auto

declare ticks_up.simps [simp del]

function ticks_down :: "int \<Rightarrow> nat \<Rightarrow> nat \<times> int" where
  "ticks_down acc ticks = (if acc \<le> -120 then ticks_down (acc + 120) (ticks + 1) else (ticks, acc))"
  by auto
termination by (relation "measure (\<lambda>(acc, _). nat (- acc))") auto

declare ticks_down.simps [simp del]

text \<open>The full steps of an event and the accumulator it leaves.\<close>

definition scroll_ticks :: "axis_event \<Rightarrow> int \<Rightarrow> nat \<times> int" where
  "scroll_ticks e acc =
     (let (ticks, acc) =
            (if ae_discrete e \<noteq> 0
             then (let (ticks, acc) = ticks_up (acc + ae_discrete e) 0 in ticks_down acc ticks)
             else (1, acc));
          acc = (if ae_delta e > 0 \<and> acc < 0 \<or> ae_delta e < 0 \<and> acc > 0 then 0 else acc)
      in (ticks, acc))"

definition scroll_button :: "axis_event \<Rightarrow> nat" where
  "scroll_button e =
     (if ae_vertical e then (if ae_delta e < 0 then 4 else 5) else (if ae_delta e < 0 then 6 else 7))"

definition scroll_root :: "pointer_lib \<Rightarrow> env \<Rightarrow> u32 \<Rightarrow> u32 \<Rightarrow> world \<Rightarrow> world option" where
  "scroll_root P env b mods w =
     Option.bind (luaA_root_button_check (button_fuel P) env b mods True w) (\<lambda>(n, w).
       map_option snd (luaA_root_button_check (button_fuel P) env b mods False w))"

text \<open>A tick: a press and a release of the button on what the event hit.\<close>

definition scroll_tick :: "pointer_lib \<Rightarrow> env \<Rightarrow> hit \<Rightarrow> u32 \<Rightarrow> world \<Rightarrow> world option" where
  "scroll_tick P env h b w =
     (let mods = CLEANMASK (keyboard_mods P w) in
      case hit_drawin h of
        Some d \<Rightarrow>
          (let rel_x = cur_x P - ax (d_area (dw w d)); rel_y = cur_y P - ay (d_area (dw w d)) in
           Option.bind (luaA_drawin_button_check (button_fuel P) env d rel_x rel_y b mods True w) (\<lambda>(h, w).
             map_option snd (luaA_drawin_button_check (button_fuel P) env d rel_x rel_y b mods False w)))
      | None \<Rightarrow>
          (case hit_client h of
             Some c \<Rightarrow>
               if \<not> client_is_unmanaged (cl w c) \<or> client_wants_focus (cl w c) then
                 (let rel_x = cur_x P - ax (geometry (cl w c)); rel_y = cur_y P - ay (geometry (cl w c));
                      w = (case hit_titlebar h of
                             None \<Rightarrow> w
                           | Some r \<Rightarrow>
                               luaA_drawable_button_emit env c r rel_x rel_y b mods False
                                 (luaA_drawable_button_emit env c r rel_x rel_y b mods True w))
                  in Option.bind (luaA_client_button_check (button_fuel P) env c rel_x rel_y b mods True w) (\<lambda>(h, w).
                       map_option snd (luaA_client_button_check (button_fuel P) env c rel_x rel_y b mods False w)))
               else scroll_root P env b mods w
           | None \<Rightarrow> scroll_root P env b mods w))"

fun scroll_loop :: "pointer_lib \<Rightarrow> env \<Rightarrow> hit \<Rightarrow> u32 \<Rightarrow> nat \<Rightarrow> world \<Rightarrow> world option" where
  "scroll_loop P env h b 0 w = Some w"
| "scroll_loop P env h b (Suc n) w = Option.bind (scroll_tick P env h b w) (scroll_loop P env h b n)"

definition acc_of :: "axis_event \<Rightarrow> pointer_state \<Rightarrow> int" where
  "acc_of e p = (if ae_vertical e then scroll_acc_v p else scroll_acc_h p)"

definition set_acc :: "axis_event \<Rightarrow> int \<Rightarrow> pointer_state \<Rightarrow> pointer_state" where
  "set_acc e a p = (if ae_vertical e then p\<lparr>scroll_acc_v := a\<rparr> else p\<lparr>scroll_acc_h := a\<rparr>)"

definition notify_axis :: "env \<Rightarrow> axis_event \<Rightarrow> world \<Rightarrow> world" where
  "notify_axis env e w =
     (if mousegrabber_isrunning w then w
      else call_env env (Native ''wlr_seat_pointer_notify_axis'' [LInt (ae_time e), LBool (ae_vertical e), LInt (ae_discrete e)]) w)"

text \<open>declare_wheel gets -delta / 5 on the axis; only the axis is written here.\<close>

definition axisnotify ::
  "pointer_lib \<Rightarrow> env \<Rightarrow> axis_event \<Rightarrow> pointer_state \<Rightarrow> world \<Rightarrow> (pointer_state \<times> world) option" where
  "axisnotify P env e p w =
     (let w = call_env env (Native ''notify_activity'' []) w;
          h = xytonode P w
      in if session_locked w \<or> ae_delta e = 0 then Some (p, notify_axis env e w)
         else
           (let w = (if hit_client h = None \<and> hit_layer h = None
                     then call_env env (Native ''declare_wheel'' [LBool (ae_vertical e)]) w else w)
            in if inspector_covers P w then Some (p, w)
               else if session_locked w then Some (p, notify_axis env e w)
               else
                 (let (ticks, acc) = scroll_ticks e (acc_of e p);
                      p = set_acc e acc p;
                      b = scroll_button e
                  in if mousegrabber_isrunning w
                     then Some (p, event_handle_mousegrabber_scroll P env p b ticks w)
                     else map_option (\<lambda>w. (p, notify_axis env e w)) (scroll_loop P env h (of_nat b) ticks w))))"

subsection \<open>Counting the wheel\<close>

lemma ticks_up_small: "acc < 120 \<Longrightarrow> ticks_up acc n = (n, acc)"
  by (subst ticks_up.simps) simp

lemma ticks_up_div: "0 \<le> acc \<Longrightarrow> ticks_up acc n = (n + nat (acc div 120), acc mod 120)"
proof (induction acc n rule: ticks_up.induct)
  case (1 acc n)
  show ?case
  proof (cases "acc \<ge> 120")
    case True
    have step: "acc div 120 = (acc - 120) div 120 + 1" "acc mod 120 = (acc - 120) mod 120"
      using div_pos_geq [OF _ True] mod_pos_geq [OF _ True] by auto
    have q: "(acc - 120) div 120 \<ge> 0" using True by (intro pos_imp_zdiv_nonneg_iff [THEN iffD2]) auto
    have "ticks_up acc n = ticks_up (acc - 120) (n + 1)" using ticks_up.simps [of acc n] True by simp
    also have "\<dots> = (n + 1 + nat ((acc - 120) div 120), (acc - 120) mod 120)" using 1(1) True by simp
    also have "\<dots> = (n + nat (acc div 120), acc mod 120)" unfolding step using q by (simp add: nat_add_distrib)
    finally show ?thesis .
  next
    case False
    then show ?thesis using 1(2) by (simp add: ticks_up_small)
  qed
qed

lemma ticks_down_up: "ticks_down acc n = (fst (ticks_up (- acc) n), - snd (ticks_up (- acc) n))"
proof (induction acc n rule: ticks_down.induct)
  case (1 acc n)
  have "- acc - 120 = - (acc + 120)" by simp
  then show ?case using 1 ticks_down.simps [of acc n] ticks_up.simps [of "- acc" n] by (auto simp: not_le)
qed

text \<open>The ticks of a run of events on one axis, one after the other.\<close>

fun run_ticks :: "axis_event list \<Rightarrow> int \<Rightarrow> nat \<times> int" where
  "run_ticks [] acc = (0, acc)"
| "run_ticks (e # es) acc =
     (let (n, acc) = scroll_ticks e acc; (m, acc) = run_ticks es acc in (n + m, acc))"

lemma scroll_up:
  assumes "0 < ae_discrete e" and "0 < ae_delta e" and "0 \<le> acc"
  shows "scroll_ticks e acc = (nat ((acc + ae_discrete e) div 120), (acc + ae_discrete e) mod 120)"
proof -
  let ?a = "acc + ae_discrete e"
  have "ticks_down (?a mod 120) n = (n, ?a mod 120)" for n
    unfolding ticks_down_up using ticks_up_small [of "- (?a mod 120)" n] by (simp add: order_le_less_trans)
  moreover have "\<not> ?a mod 120 < 0" using pos_mod_sign [of 120 ?a] by simp
  ultimately show ?thesis
    using assms ticks_up_div [of ?a 0] by (simp add: scroll_ticks_def)
qed

lemma scroll_down:
  assumes "ae_discrete e < 0" and "ae_delta e < 0" and "acc \<le> 0"
  shows "scroll_ticks e acc = (nat (- (acc + ae_discrete e) div 120), - (- (acc + ae_discrete e) mod 120))"
proof -
  let ?a = "acc + ae_discrete e"
  have "ticks_up ?a 0 = (0, ?a)" using assms by (intro ticks_up_small) simp
  moreover have "ticks_down ?a 0 = (nat (- ?a div 120), - (- ?a mod 120))"
    unfolding ticks_down_up using ticks_up_div [of "- ?a" 0] assms by simp
  moreover have "\<not> - (- ?a mod 120) > 0" using pos_mod_sign [of 120 "- ?a"] by simp
  ultimately show ?thesis using assms by (simp add: scroll_ticks_def)
qed

lemma nat_div_split:
  fixes a b :: int assumes "0 \<le> a" and "0 \<le> b"
  shows "nat (a div 120) + nat ((a mod 120 + b) div 120) = nat ((a + b) div 120)"
    and "(a mod 120 + b) mod 120 = (a + b) mod 120"
proof -
  have "a + b = (a mod 120 + b) + (a div 120) * 120" by (simp add: mult.commute)
  then have "(a + b) div 120 = a div 120 + (a mod 120 + b) div 120" by (metis div_mult_self1 zero_neq_numeral)
  moreover have "0 \<le> a div 120" "0 \<le> (a mod 120 + b) div 120"
    using assms by (simp_all add: pos_imp_zdiv_nonneg_iff)
  ultimately show "nat (a div 120) + nat ((a mod 120 + b) div 120) = nat ((a + b) div 120)"
    by (simp add: nat_add_distrib)
  show "(a mod 120 + b) mod 120 = (a + b) mod 120" by (simp add: mod_add_left_eq)
qed

text \<open>
  C29: A wheel turned one way ticks once for every full 120 units, however the turns are cut into
  events: after any run of events of one direction the ticks are the sum of their steps and the
  residue divided by 120, the accumulator keeps the rest, and so does the other direction.
\<close>
theorem scroll_counts_notches:
  fixes es :: "axis_event list" and acc :: int
  defines "s \<equiv> acc + sum_list (map ae_discrete es)"
  shows "(0 \<le> acc \<and> acc < 120 \<and> (\<forall>e\<in>set es. 0 < ae_discrete e \<and> 0 < ae_delta e) \<longrightarrow>
      run_ticks es acc = (nat (s div 120), s mod 120)) \<and>
    (-120 < acc \<and> acc \<le> 0 \<and> (\<forall>e\<in>set es. ae_discrete e < 0 \<and> ae_delta e < 0) \<longrightarrow>
      run_ticks es acc = (nat (- s div 120), - (- s mod 120)))"
proof -
  have "0 \<le> acc \<Longrightarrow> acc < 120 \<Longrightarrow> \<forall>e\<in>set es. 0 < ae_discrete e \<and> 0 < ae_delta e \<Longrightarrow>
    run_ticks es acc = (nat ((acc + sum_list (map ae_discrete es)) div 120), (acc + sum_list (map ae_discrete es)) mod 120)" for acc
  proof (induction es arbitrary: acc)
    case (Cons e es)
    let ?a = "acc + ae_discrete e" and ?b = "sum_list (map ae_discrete es)"
    have b: "0 \<le> ?b" using Cons.prems(3) by (intro sum_list_nonneg) auto
    have a: "0 \<le> ?a" using Cons.prems by simp
    have step: "scroll_ticks e acc = (nat (?a div 120), ?a mod 120)" using Cons.prems by (intro scroll_up) simp_all
    have rest: "run_ticks es (?a mod 120) = (nat ((?a mod 120 + ?b) div 120), (?a mod 120 + ?b) mod 120)"
      by (rule Cons.IH) (use Cons.prems in simp_all)
    have "run_ticks (e # es) acc = (nat (?a div 120) + nat ((?a mod 120 + ?b) div 120), (?a mod 120 + ?b) mod 120)"
      by (simp only: run_ticks.simps step rest Let_def prod.case)
    also have "\<dots> = (nat ((?a + ?b) div 120), (?a + ?b) mod 120)" unfolding nat_div_split [OF a b] ..
    also have "?a + ?b = acc + sum_list (map ae_discrete (e # es))" by simp
    finally show ?case .
  qed simp
  moreover have "-120 < acc \<Longrightarrow> acc \<le> 0 \<Longrightarrow> \<forall>e\<in>set es. ae_discrete e < 0 \<and> ae_delta e < 0 \<Longrightarrow>
    run_ticks es acc = (nat (- (acc + sum_list (map ae_discrete es)) div 120), - (- (acc + sum_list (map ae_discrete es)) mod 120))" for acc
  proof (induction es arbitrary: acc)
    case (Cons e es)
    let ?a = "- (acc + ae_discrete e)" and ?b = "- sum_list (map ae_discrete es)"
    have "sum_list (map ae_discrete es) \<le> 0" using Cons.prems(3) by (intro sum_list_nonpos) auto
    then have b: "0 \<le> ?b" by simp
    have a: "0 \<le> ?a" using Cons.prems by simp
    have step: "scroll_ticks e acc = (nat (?a div 120), - (?a mod 120))" using Cons.prems by (intro scroll_down) simp_all
    have "- (- (?a mod 120) + sum_list (map ae_discrete es)) = ?a mod 120 + ?b" by simp
    moreover have "run_ticks es (- (?a mod 120)) =
        (nat (- (- (?a mod 120) + sum_list (map ae_discrete es)) div 120), - (- (- (?a mod 120) + sum_list (map ae_discrete es)) mod 120))"
      by (rule Cons.IH) (use Cons.prems in simp_all)
    ultimately have rest: "run_ticks es (- (?a mod 120)) = (nat ((?a mod 120 + ?b) div 120), - ((?a mod 120 + ?b) mod 120))"
      by (simp only:)
    have "run_ticks (e # es) acc = (nat (?a div 120) + nat ((?a mod 120 + ?b) div 120), - ((?a mod 120 + ?b) mod 120))"
      by (simp only: run_ticks.simps step rest Let_def prod.case)
    also have "\<dots> = (nat ((?a + ?b) div 120), - ((?a + ?b) mod 120))" unfolding nat_div_split [OF a b] ..
    also have "?a + ?b = - (acc + sum_list (map ae_discrete (e # es)))" by simp
    finally show ?case .
  qed simp
  ultimately show ?thesis unfolding s_def by blast
qed

definition wheel :: "int \<Rightarrow> axis_event" where
  "wheel d = \<lparr>ae_vertical = True, ae_delta = of_int d, ae_discrete = d, ae_time = 0\<rparr>"

lemma scroll_counts_notches_witness:
  "run_ticks [wheel 30, wheel 60, wheel 150] 15 = (2, 15) \<and> run_ticks [wheel (-90), wheel (-40)] (-5) = (1, -15)"
  using scroll_counts_notches [of 15 "[wheel 30, wheel 60, wheel 150]"] scroll_counts_notches [of "-5" "[wheel (-90), wheel (-40)]"]
  by (simp add: wheel_def)

text \<open>
  A wheel that is turned back loses a step. The accumulator is cleared only after the steps
  were counted, and only when it still has the old sign: with a residue of the other direction a
  full step back gives no tick and leaves less than a step, and a smaller one that does not use
  the residue up is dropped altogether.
\<close>
theorem wheel_turned_back:
  assumes "0 < acc" and "acc < 120" and "ae_delta e < 0"
  shows "(ae_discrete e = -120 \<longrightarrow> scroll_ticks e acc = (0, acc - 120)) \<and>
    (- acc < ae_discrete e \<and> ae_discrete e < 0 \<longrightarrow> scroll_ticks e acc = (0, 0))"
proof -
  have down: "ticks_down a n = (n, a)" if "- 120 < a" for a n
    unfolding ticks_down_up using ticks_up_small [of "- a" n] that by simp
  show ?thesis
    using assms ticks_up_small [of "acc + ae_discrete e" 0] down [of "acc + ae_discrete e" 0]
    by (auto simp: scroll_ticks_def)
qed

lemma wheel_turned_back_witness: "scroll_ticks (wheel (-120)) 60 = (0, -60) \<and> scroll_ticks (wheel (-30)) 60 = (0, 0)"
  using wheel_turned_back [of 60 "wheel (-120)"] wheel_turned_back [of 60 "wheel (-30)"] by (simp add: wheel_def)

subsection \<open>Buttons in a locked session\<close>

definition button_view where
  "button_view w = (lua_locked w, ext_locked w, lock_surface w, mousegrabber_running w)"

lemma button_view_call:
  assumes "keeps env button_view"
  shows "lua_locked (call_env env k w) = lua_locked w" "ext_locked (call_env env k w) = ext_locked w"
    and "lock_surface (call_env env k w) = lock_surface w" "mousegrabber_running (call_env env k w) = mousegrabber_running w"
  using call_env_keeps [OF assms, where w = w and k = k] by (simp_all add: button_view_def)

text \<open>
  C28: In a session locked from Lua, with a lock surface still registered and no mousegrabber
  running, a press over anything but that surface, a client or one of the registered covers say,
  reaches no one: no handler runs and no client is told. A release runs no handler, over the lock
  surface too, whose widgets so see presses that never end; it is forwarded to the surface under the
  pointer unless the inspector covers it. For handlers and wlroots calls that leave the locks alone.
\<close>
theorem locked_buttons:
  fixes e :: button_event
  assumes "keeps env button_view" and "lua_locked w" and "\<not> ext_locked w" and "lock_surface w = Some d"
    and "\<not> mousegrabber_running w"
  defines "w1 \<equiv> call_env env (Native ''notify_activity'' []) w"
  defines "w2 \<equiv> call_env env (Native ''declare_inspector_pointer''
    [LInt (if be_button e = BTN_LEFT then 0 else -1), LBool False]) w1"
  shows "(be_pressed e \<and> hit_drawin (xytonode P w1) \<noteq> Some d \<longrightarrow>
      map_option snd (buttonpress X P env e p w) = Some w1) \<and>
    (\<not> be_pressed e \<longrightarrow>
      map_option snd (buttonpress X P env e p w) = Some (if inspector_covers P w2 then w2 else
        call_env env (Native ''wlr_seat_pointer_notify_button''
          [LInt (be_time e), LInt (uint (be_button e)), LBool False]) w2))"
proof -
  note sel = button_view_call [OF assms(1)]
  have grab: "event_handle_mousegrabber P env q 0 w1 = (False, w1)" for q
    using assms(5) sel by (simp add: event_handle_mousegrabber_def mousegrabber_isrunning_def w1_def)
  have flags: "lua_locked w1" "\<not> ext_locked w1" "lock_surface w1 = Some d" "lua_locked w2" "\<not> mousegrabber_running w2"
    using assms(2-5) sel by (simp_all add: w1_def w2_def)
  have press: "hit_drawin (xytonode P w1) \<noteq> Some d \<Longrightarrow> pressed X P env b w1 = Some (True, w1)" for b
    using flags by (simp add: pressed_def)
  have release: "released P env (be_button e) w1 = Some (inspector_covers P w2, w2)"
    using flags unfolding released_def w2_def [symmetric] Let_def by simp
  have run: "map_option snd (buttonpress X P env e p w) =
      map_option (\<lambda>r. if fst r then snd r else forward_button env e (snd r))
        (if be_pressed e then pressed X P env (be_button e) w1 else released P env (be_button e) w1)"
    using flags(2) by (simp add: buttonpress_def Let_def w1_def [symmetric] grab option.map_comp comp_def split_def)
  show ?thesis unfolding run using press release flags(5)
    by (simp add: forward_button_def mousegrabber_isrunning_def)
qed

definition demo_pointer :: pointer_lib where
  "demo_pointer = \<lparr>xytonode = (\<lambda>_. \<lparr>hit_client = Some 5, hit_layer = None, hit_drawin = None, hit_titlebar = None\<rparr>),
     inspector_covers = (\<lambda>_. False), keyboard_mods = (\<lambda>_. 0), cur_x = 10, cur_y = 10, xytomon = (\<lambda>_. None),
     grab_continues = (\<lambda>_. True), button_fuel = 10\<rparr>"

definition demo_press :: button_event where
  "demo_press = \<lparr>be_button = 0x110, be_pressed = True, be_time = 0\<rparr>"

definition demo_buttons :: pointer_state where
  "demo_buttons = \<lparr>button_state = replicate 5 False, cursor_mode = CurNormal, scroll_acc_v = 0, scroll_acc_h = 0\<rparr>"

lemma locked_buttons_witness:
  "map_option (trace \<circ> snd) (buttonpress demo_lock_lib demo_pointer seat demo_press demo_buttons
     (restore_demo\<lparr>lua_locked := True\<rparr>)) = Some [Native ''notify_activity'' []]"
proof -
  have "keeps seat button_view" by (simp add: keeps_def seat_def button_view_def split: call.split)
  from locked_buttons [OF this, of "restore_demo\<lparr>lua_locked := True\<rparr>" 7 demo_press demo_pointer demo_lock_lib demo_buttons]
  show ?thesis
    by (auto simp: restore_demo_def world0_def demo_pointer_def demo_press_def call_env_def seat_def)
qed

text \<open>
  Once the lock surface is deregistered, which Lua may do while the lock lasts, the same press
  over a client passes: no drawin is hit, and none is registered.
\<close>

lemma cleared_surface_lets_press_through:
  "map_option (\<lambda>r. (lua_locked (snd r), last (trace (snd r))))
     (buttonpress demo_lock_lib demo_pointer seat demo_press demo_buttons
       (luaA_awesome_clear_lock_surface (restore_demo\<lparr>lua_locked := True\<rparr>))) =
   Some (True, Native ''wlr_seat_pointer_notify_button'' [LInt 0, LInt 272, LBool True])"
  by code_simp

end
