(* ===== verification/Drawin.thy ===== *)
theory Drawin
  imports Layer
begin

unbundle bit_operations_syntax

text \<open>
  Drawins, the windows Lua code draws (objects/drawin.c), their drawables (objects/drawable.c) and
  the struts of strut.c: allocation and collection, geometry, visibility, bars and the plain
  properties. The lemmas show which drawins are shown and kept alive whatever handlers do, and what
  a move or resize changes and announces.
\<close>

subsection \<open>Numbers of Lua\<close>

text \<open>round of the C library rounds halves away from zero. A number is a finite double here.\<close>

definition c_round :: "rat \<Rightarrow> int" where
  "c_round r = (if r \<ge> 0 then \<lfloor>r + 1/2\<rfloor> else - \<lfloor>1/2 - r\<rfloor>)"

definition upd_drawin :: "nat \<Rightarrow> (drawin \<Rightarrow> drawin) \<Rightarrow> world \<Rightarrow> world" where
  "upd_drawin d f w = w\<lparr>dw := (dw w)(d := f (dw w d))\<rparr>"

definition upd_drawable :: "nat \<Rightarrow> (drawable \<Rightarrow> drawable) \<Rightarrow> world \<Rightarrow> world" where
  "upd_drawable r f w = w\<lparr>da := (da w)(r := f (da w r))\<rparr>"

subsection \<open>Drawables\<close>

definition drawable_allocator :: "nat \<Rightarrow> world \<Rightarrow> world" where
  "drawable_allocator r = upd_drawable r (\<lambda>_. \<lparr>da_geometry = box 0 0 0 0, da_valid = True, da_owner = None\<rparr>)"

definition emit_if :: "env \<Rightarrow> bool \<Rightarrow> nat \<Rightarrow> string \<Rightarrow> world \<Rightarrow> world" where
  "emit_if env b obj name w = (if b then emit env obj name [] w else w)"

definition drawable_set_geometry :: "(area \<Rightarrow> area \<Rightarrow> bool) \<Rightarrow> env \<Rightarrow> nat \<Rightarrow> area \<Rightarrow> bool \<Rightarrow> world \<Rightarrow> world" where
  "drawable_set_geometry wlr_box_equal env r geom solved w =
     (let old = da_geometry (da w r);
          w = upd_drawable r (\<lambda>x. x\<lparr>da_geometry := geom\<rparr>) w;
          area_changed = \<not> wlr_box_equal old geom;
          w = emit_if env (\<not> solved \<and> (aw old \<noteq> aw geom \<or> ah old \<noteq> ah geom) \<and> aw geom > 0 \<and> ah geom > 0)
                r ''property::surface'' w;
          w = emit_if env area_changed r ''property::geometry'' w;
          w = emit_if env (ax old \<noteq> ax geom) r ''property::x'' w;
          w = emit_if env (ay old \<noteq> ay geom) r ''property::y'' w;
          w = emit_if env (aw old \<noteq> aw geom) r ''property::width'' w
      in emit_if env (ah old \<noteq> ah geom) r ''property::height'' w)"

text \<open>drawable_push; None is nil.\<close>

definition drawable_push :: "nat \<Rightarrow> world \<Rightarrow> nat option" where
  "drawable_push r w = (case da_owner (da w r) of None \<Rightarrow> None | Some d \<Rightarrow> if d \<in># registry w then Some r else None)"

definition luaA_drawable_get_clay_opaque :: "nat \<Rightarrow> bool \<Rightarrow> world \<Rightarrow> bool" where
  "luaA_drawable_get_clay_opaque r drawin_owner w =
     (let opacity = (if da_valid (da w r) \<and> drawin_owner then d_opacity (dw w (the (da_owner (da w r)))) else 1)
      in opacity < 0 \<or> opacity = 1)"

subsection \<open>The screen of a drawin\<close>

text \<open>xytomon asks wlroots for the output at a point; that is output_at.\<close>

definition drawin_mark_dirty :: "env \<Rightarrow> nat \<Rightarrow> world \<Rightarrow> world" where
  "drawin_mark_dirty env d w =
     (case luaA_monitor_get_by_screen (d_screen (dw w d)) w of
        None \<Rightarrow> w
      | Some m \<Rightarrow> call_env env (Native ''declare_output_mark_dirty'' [LUser m]) w)"

definition drawin_assign_screen ::
  "(int \<Rightarrow> int \<Rightarrow> world \<Rightarrow> nat option) \<Rightarrow> env \<Rightarrow> nat \<Rightarrow> world \<Rightarrow> world" where
  "drawin_assign_screen output_at env d w =
     (let old_screen = d_screen (dw w d);
          x = ax (d_area (dw w d));
          y = ay (d_area (dw w d));
          new_screen =
            (case luaA_screen_getbycoord x y w of
               Some s \<Rightarrow> Some s
             | None \<Rightarrow>
                 luaA_screen_get_by_monitor (if output_at x y w = None then selmon w else output_at x y w) w)
      in if old_screen \<noteq> new_screen
         then emit env d ''property::screen'' [] (upd_drawin d (\<lambda>a. a\<lparr>d_screen := new_screen\<rparr>) w)
         else w)"

definition luaA_drawin_reassign_screen ::
  "(int \<Rightarrow> int \<Rightarrow> world \<Rightarrow> nat option) \<Rightarrow> env \<Rightarrow> nat \<Rightarrow> world \<Rightarrow> world" where
  "luaA_drawin_reassign_screen output_at env d w =
     (let old_screen = d_screen (dw w d);
          w = drawin_assign_screen output_at env d w
      in if old_screen \<noteq> d_screen (dw w d) then mark_all_dirty env w else w)"

subsection \<open>Allocation and collection\<close>

text \<open>The addresses of the new drawin and its drawable are d and r.\<close>

definition drawin_allocator ::
  "(int \<Rightarrow> int \<Rightarrow> world \<Rightarrow> nat option) \<Rightarrow> env \<Rightarrow> nat \<Rightarrow> nat \<Rightarrow> world \<Rightarrow> world" where
  "drawin_allocator output_at env d r w =
     (let w = upd_drawin d (\<lambda>_. drawin0) w;
          w = drawable_allocator r w;
          w = upd_drawin d (\<lambda>a. a\<lparr>d_drawable := Some r\<rparr>) w;
          w = upd_drawable r (\<lambda>x. x\<lparr>da_owner := Some d\<rparr>) w
      in drawin_assign_screen output_at env d w)"

definition drawin_wipe :: "lock_lib \<Rightarrow> env \<Rightarrow> nat \<Rightarrow> world \<Rightarrow> world option" where
  "drawin_wipe X env d w =
     map_option (\<lambda>w. upd_drawin d (\<lambda>a. a\<lparr>d_drawable := None, d_cursor := [], d_buttons := []\<rparr>)
                       (call_env env (Native ''declare_handle_drop'' [LUser d]) w))
       (some_notify_drawin_destroyed X env d w)"

definition luaA_drawin_gc :: "env \<Rightarrow> nat \<Rightarrow> world \<Rightarrow> world" where
  "luaA_drawin_gc env d w =
     mark_all_dirty env (call_env env (Native ''declare_handle_drop'' [LUser d])
       (upd_drawin d (\<lambda>a. a\<lparr>d_drawable := None, d_cursor := [], d_buttons := []\<rparr>) w))"

subsection \<open>Geometry\<close>

text \<open>The drawable follows the drawin; its redraw is asked for when its size changed.\<close>

definition move_drawable :: "env \<Rightarrow> nat \<Rightarrow> bool \<Rightarrow> world \<Rightarrow> world" where
  "move_drawable env d solved w =
     (case d_drawable (dw w d) of
        None \<Rightarrow> w
      | Some r \<Rightarrow>
          (let old = da_geometry (da w r);
               now = d_area (dw w d);
               w = upd_drawable r (\<lambda>x. x\<lparr>da_geometry := now\<rparr>) w
           in emit_if env (\<not> solved \<and> (aw old \<noteq> aw now \<or> ah old \<noteq> ah now)) r ''property::surface'' w))"

definition emit_moved :: "env \<Rightarrow> nat \<Rightarrow> area \<Rightarrow> (area \<Rightarrow> area \<Rightarrow> bool) \<Rightarrow> string \<Rightarrow> world \<Rightarrow> world" where
  "emit_moved env d old differs name w = emit_if env (differs old (d_area (dw w d))) d name w"

definition drawin_moveresize ::
  "(int \<Rightarrow> int \<Rightarrow> world \<Rightarrow> nat option) \<Rightarrow> env \<Rightarrow> nat \<Rightarrow> int \<Rightarrow> int \<Rightarrow> int \<Rightarrow> int \<Rightarrow> bool \<Rightarrow> world \<Rightarrow> world" where
  "drawin_moveresize output_at env d x y width height solved w =
     (let old = d_area (dw w d);
          w = upd_drawin d (\<lambda>a. a\<lparr>d_area := \<lparr>ax = x, ay = y, aw = (if width > 0 then width else aw old),
                                              ah = (if height > 0 then height else ah old)\<rparr>,
                                  geometry_dirty := True\<rparr>) w;
          w = move_drawable env d solved w;
          w = emit_moved env d old (\<lambda>a b. ax a \<noteq> ax b \<or> ay a \<noteq> ay b \<or> aw a \<noteq> aw b \<or> ah a \<noteq> ah b) ''property::geometry'' w;
          w = emit_moved env d old (\<lambda>a b. ax a \<noteq> ax b) ''property::x'' w;
          w = emit_moved env d old (\<lambda>a b. ay a \<noteq> ay b) ''property::y'' w;
          w = emit_moved env d old (\<lambda>a b. aw a \<noteq> aw b) ''property::width'' w;
          w = emit_moved env d old (\<lambda>a b. ah a \<noteq> ah b) ''property::height'' w;
          w = (if (\<not> solved \<or> \<not> d_anim_enabled (dw w d)) \<and>
                  (ax old \<noteq> ax (d_area (dw w d)) \<or> ay old \<noteq> ay (d_area (dw w d)))
               then drawin_assign_screen output_at env d w else w);
          w = (if aw old \<noteq> aw (d_area (dw w d)) \<or> ah old \<noteq> ah (d_area (dw w d))
               then upd_drawin d (\<lambda>a. a\<lparr>border_need_update := True\<rparr>) w else w);
          now = d_area (dw w d)
      in if \<not> solved \<and> (ax old \<noteq> ax now \<or> ay old \<noteq> ay now \<or> aw old \<noteq> aw now \<or> ah old \<noteq> ah now)
         then mark_all_dirty env w else w)"

definition luaA_drawin_set_solved_geometry ::
  "(int \<Rightarrow> int \<Rightarrow> world \<Rightarrow> nat option) \<Rightarrow> env \<Rightarrow> nat \<Rightarrow> int \<Rightarrow> int \<Rightarrow> int \<Rightarrow> int \<Rightarrow> world \<Rightarrow> world" where
  "luaA_drawin_set_solved_geometry output_at env d x y width height w =
     (if d \<in># registry w then drawin_moveresize output_at env d x y width height True w else w)"

text \<open>The table of drawin:geometry, nil fields being None.\<close>

record geometry_table =
  gt_x :: "rat option"
  gt_y :: "rat option"
  gt_width :: "rat option"
  gt_height :: "rat option"

definition luaA_drawin_geometry ::
  "(int \<Rightarrow> int \<Rightarrow> world \<Rightarrow> nat option) \<Rightarrow> env \<Rightarrow> nat \<Rightarrow> geometry_table \<Rightarrow> world \<Rightarrow> world" where
  "luaA_drawin_geometry output_at env d t w =
     (let g = d_area (dw w d);
          get = (\<lambda>conv v dflt. case v of None \<Rightarrow> dflt | Some r \<Rightarrow> conv r)
      in drawin_moveresize output_at env d (get c_round (gt_x t) (ax g)) (get c_round (gt_y t) (ay g))
           (get ceiling (gt_width t) (aw g)) (get ceiling (gt_height t) (ah g)) False w)"

definition luaA_drawin_set_x where
  "luaA_drawin_set_x output_at env d v w =
     (let g = d_area (dw w d) in drawin_moveresize output_at env d (c_round v) (ay g) (aw g) (ah g) False w)"

definition luaA_drawin_set_y where
  "luaA_drawin_set_y output_at env d v w =
     (let g = d_area (dw w d) in drawin_moveresize output_at env d (ax g) (c_round v) (aw g) (ah g) False w)"

definition luaA_drawin_set_width where
  "luaA_drawin_set_width output_at env d v w =
     (let g = d_area (dw w d); width = ceiling v
      in drawin_moveresize output_at env d (ax g) (ay g) (if width < 1 then 1 else width) (ah g) False w)"

definition luaA_drawin_set_height where
  "luaA_drawin_set_height output_at env d v w =
     (let g = d_area (dw w d); height = ceiling v
      in drawin_moveresize output_at env d (ax g) (ay g) (aw g) (if height < 1 then 1 else height) False w)"

subsection \<open>Visibility\<close>

text \<open>drawin_update_drawing of a drawin with a drawable.\<close>

definition drawin_update_drawing :: "(area \<Rightarrow> area \<Rightarrow> bool) \<Rightarrow> env \<Rightarrow> nat \<Rightarrow> world \<Rightarrow> world" where
  "drawin_update_drawing wlr_box_equal env d w =
     (case d_drawable (dw w d) of
        None \<Rightarrow> w
      | Some r \<Rightarrow> drawable_set_geometry wlr_box_equal env r (d_area (dw w d)) False w)"

text \<open>None is the Lua error for a change from inside a frame.\<close>

definition drawin_show :: "(area \<Rightarrow> area \<Rightarrow> bool) \<Rightarrow> env \<Rightarrow> nat \<Rightarrow> world \<Rightarrow> world" where
  "drawin_show wlr_box_equal env d w =
     (let w = (if d \<in> set (drawins w) then w else w\<lparr>drawins := drawins w @ [d]\<rparr>);
          w = w\<lparr>registry := add_mset d (registry w)\<rparr>;
          w = stack_windows w
      in drawin_update_drawing wlr_box_equal env d w)"

definition drawin_hide :: "nat \<Rightarrow> world \<Rightarrow> world" where
  "drawin_hide d w = (w\<lparr>registry := registry w - {#d#}\<rparr>)\<lparr>drawins := remove1 d (drawins w)\<rparr>"

definition drawin_set_visible ::
  "(area \<Rightarrow> area \<Rightarrow> bool) \<Rightarrow> env \<Rightarrow> nat \<Rightarrow> bool \<Rightarrow> world \<Rightarrow> world option" where
  "drawin_set_visible wlr_box_equal env d v w =
     (if in_frame w then None
      else if d_visible (dw w d) = v then Some w
      else
        (let w = upd_drawin d (\<lambda>a. a\<lparr>d_visible := v\<rparr>) w;
             w = (if v then drawin_show wlr_box_equal env d w else drawin_hide d w);
             w = emit env d ''property::visible'' [] w
         in Some (mark_all_dirty env w)))"

definition luaA_drawin_apply_geometry :: "nat \<Rightarrow> world \<Rightarrow> world" where
  "luaA_drawin_apply_geometry d = upd_drawin d (\<lambda>a. a\<lparr>geometry_dirty := False\<rparr>)"

definition drawin_refresh :: "world \<Rightarrow> world" where
  "drawin_refresh w =
     fold (\<lambda>d w. if geometry_dirty (dw w d) then upd_drawin d (\<lambda>a. a\<lparr>geometry_dirty := False\<rparr>) w else w) (drawins w) w"

definition luaA_drawin_set_ontop :: "env \<Rightarrow> nat \<Rightarrow> bool \<Rightarrow> world \<Rightarrow> world" where
  "luaA_drawin_set_ontop env d b w =
     (if b \<noteq> d_ontop (dw w d)
      then emit env d ''property::ontop'' [] (stack_windows (upd_drawin d (\<lambda>a. a\<lparr>d_ontop := b\<rparr>) w))
      else w)"

definition luaA_drawin_set_cursor :: "env \<Rightarrow> nat \<Rightarrow> string \<Rightarrow> world \<Rightarrow> world" where
  "luaA_drawin_set_cursor env d s w = emit env d ''property::cursor'' [] (upd_drawin d (\<lambda>a. a\<lparr>d_cursor := s\<rparr>) w)"

definition opaque :: "rat \<Rightarrow> bool" where "opaque v \<longleftrightarrow> v < 0 \<or> v = 1"

definition set_opacity_to :: "env \<Rightarrow> nat \<Rightarrow> rat \<Rightarrow> world \<Rightarrow> world option" where
  "set_opacity_to env d v w =
     (if d_opacity (dw w d) = v then Some w
      else if in_frame w then None
      else
        (let was_opaque = opaque (d_opacity (dw w d));
             w = upd_drawin d (\<lambda>a. a\<lparr>d_opacity := v\<rparr>) w;
             w = mark_all_dirty env w;
             w = (case d_drawable (dw w d) of
                    Some r \<Rightarrow> if was_opaque \<noteq> opaque v then emit env r ''property::_clay_opaque'' [] w else w
                  | None \<Rightarrow> w)
         in Some (emit env d ''property::opacity'' [] w)))"

text \<open>The argument is nil as None; the result is None on a Lua error.\<close>

definition luaA_drawin_set_opacity :: "env \<Rightarrow> nat \<Rightarrow> rat option \<Rightarrow> world \<Rightarrow> world option" where
  "luaA_drawin_set_opacity env d arg w =
     (case arg of
        Some v \<Rightarrow> if v < 0 \<or> v > 1 then Some w else set_opacity_to env d v w
      | None \<Rightarrow> set_opacity_to env d (-1) w)"

definition luaA_drawin_get_opacity :: "nat \<Rightarrow> world \<Rightarrow> rat option" where
  "luaA_drawin_get_opacity d w = (if d_opacity (dw w d) < 0 then None else Some (d_opacity (dw w d)))"

subsection \<open>Borders, struts and type\<close>

definition drawin_border_dirty :: "env \<Rightarrow> nat \<Rightarrow> world \<Rightarrow> world" where
  "drawin_border_dirty env d w =
     (case d_screen (dw w d) of
        Some s \<Rightarrow> if s_monitor (sc w s) \<noteq> None then drawin_mark_dirty env d w else mark_all_dirty env w
      | None \<Rightarrow> mark_all_dirty env w)"

text \<open>The int of the argument is stored in 16 bits. Conversions to int truncate.\<close>

definition c_trunc :: "rat \<Rightarrow> int" where
  "c_trunc r = (if r \<ge> 0 then \<lfloor>r\<rfloor> else \<lceil>r\<rceil>)"

definition luaA_drawin_set_border_width :: "env \<Rightarrow> nat \<Rightarrow> rat \<Rightarrow> world \<Rightarrow> world" where
  "luaA_drawin_set_border_width env d v w =
     (let old_width = uint (d_border_width (dw w d));
          new_width = (if c_trunc v < 0 then 0 else c_trunc v);
          w = upd_drawin d (\<lambda>a. a\<lparr>d_border_width := of_int new_width\<rparr>) w
      in if old_width \<noteq> new_width
         then emit env d ''property::border_width'' []
                (drawin_border_dirty env d (upd_drawin d (\<lambda>a. a\<lparr>border_need_update := True\<rparr>) w))
         else w)"

text \<open>A colour that is refused is a Lua error, but has changed the colour; ok tells of the error.\<close>

definition luaA_drawin_set_border_color ::
  "(lval \<Rightarrow> string option) \<Rightarrow> env \<Rightarrow> nat \<Rightarrow> lval \<Rightarrow> world \<Rightarrow> bool \<times> world" where
  "luaA_drawin_set_border_color lua_tostring env d v w =
     (let old = d_border_color (dw w d);
          (ok, c) = luaA_tocolor lua_tostring v old;
          w = upd_drawin d (\<lambda>a. a\<lparr>d_border_color := c\<rparr>) w
      in if \<not> ok then (False, w)
         else
           (let w = upd_drawin d (\<lambda>a. a\<lparr>d_border_color_parsed := c\<rparr>) w;
                w = (if initialized c then upd_drawin d (\<lambda>a. a\<lparr>border_need_update := True\<rparr>) w else w);
                w = (if initialized old \<noteq> initialized c \<or> color_to_uint32 old \<noteq> color_to_uint32 c
                     then drawin_border_dirty env d w else w)
            in (True, emit env d ''property::border_color'' [] w)))"

text \<open>The struts of a table: left, right, top, bottom, None being nil.\<close>

definition luaA_drawin_struts :: "env \<Rightarrow> nat \<Rightarrow> (string \<Rightarrow> rat option) \<Rightarrow> world \<Rightarrow> world" where
  "luaA_drawin_struts env d t w =
     (let old = d_strut (dw w d);
          get = (\<lambda>k. case t k of None \<Rightarrow> 0 | Some v \<Rightarrow> of_int (c_trunc v));
          new = \<lparr>strut_left = get ''left'', strut_right = get ''right'', strut_top = get ''top'', strut_bottom = get ''bottom''\<rparr>;
          w = upd_drawin d (\<lambda>a. a\<lparr>d_strut := new\<rparr>) w
      in if old \<noteq> new then emit env d ''property::struts'' [] w else w)"

text \<open>
  strut.c, for windows. A number out of range is a Lua error, which the first component tells and
  which keeps what was written before; nil and what is no number keep the field.
\<close>

definition strut_field ::
  "(string \<Rightarrow> rat option) \<Rightarrow> string \<Rightarrow> (u16 \<Rightarrow> strut \<Rightarrow> strut) \<Rightarrow> bool \<times> strut \<Rightarrow> bool \<times> strut" where
  "strut_field t k put r =
     (case t k of
        None \<Rightarrow> r
      | Some v \<Rightarrow>
          if \<not> fst r then r
          else if v < 0 \<or> v > 65535 then (False, snd r)
          else (True, put (of_int \<lceil>v\<rceil>) (snd r)))"

definition luaA_tostrut :: "(string \<Rightarrow> rat option) \<Rightarrow> strut \<Rightarrow> bool \<times> strut" where
  "luaA_tostrut t s =
     strut_field t ''bottom'' (\<lambda>v s. s\<lparr>strut_bottom := v\<rparr>)
       (strut_field t ''top'' (\<lambda>v s. s\<lparr>strut_top := v\<rparr>)
         (strut_field t ''right'' (\<lambda>v s. s\<lparr>strut_right := v\<rparr>)
           (strut_field t ''left'' (\<lambda>v s. s\<lparr>strut_left := v\<rparr>) (True, s))))"

definition luaA_pushstrut :: "strut \<Rightarrow> string \<Rightarrow> rat option" where
  "luaA_pushstrut s k =
     (if k = ''left'' then Some (of_int (uint (strut_left s)))
      else if k = ''right'' then Some (of_int (uint (strut_right s)))
      else if k = ''top'' then Some (of_int (uint (strut_top s)))
      else if k = ''bottom'' then Some (of_int (uint (strut_bottom s)))
      else None)"

text \<open>The window types by the numbers of window_type_t.\<close>

definition window_type_names :: "string list" where
  "window_type_names =
     [''normal'', ''desktop'', ''dock'', ''toolbar'', ''menu'', ''utility'', ''splash'', ''dialog'', ''dropdown_menu'',
      ''popup_menu'', ''tooltip'', ''notification'', ''combo'', ''dnd'']"

definition luaA_drawin_get_type :: "nat \<Rightarrow> world \<Rightarrow> string" where
  "luaA_drawin_get_type d w =
     (if d_type (dw w d) < length window_type_names then window_type_names ! d_type (dw w d) else ''normal'')"

text \<open>An unknown type only warns.\<close>

definition luaA_drawin_set_type :: "env \<Rightarrow> nat \<Rightarrow> string option \<Rightarrow> world \<Rightarrow> world" where
  "luaA_drawin_set_type env d s w =
     (case s of
        None \<Rightarrow> w
      | Some s \<Rightarrow>
          (case index_of s window_type_names of
             None \<Rightarrow> w
           | Some k \<Rightarrow>
               if d_type (dw w d) \<noteq> k then emit env d ''property::type'' [] (upd_drawin d (\<lambda>a. a\<lparr>d_type := k\<rparr>) w) else w))"

definition luaA_drawin_set_input_passthrough :: "env \<Rightarrow> nat \<Rightarrow> bool \<Rightarrow> world \<Rightarrow> world" where
  "luaA_drawin_set_input_passthrough env d b w =
     emit env d ''property::input_passthrough'' [] (upd_drawin d (\<lambda>a. a\<lparr>d_passthrough := b\<rparr>) w)"

subsection \<open>Bars\<close>

text \<open>A table for drawin.bar; nil fields are None, the margins are left, right, top and bottom.\<close>

record bar_table =
  bt_edge :: string
  bt_reserve :: "bool option"
  bt_stretch :: "bool option"
  bt_align :: "string option"
  bt_margins :: "rat list option"

definition bar_margin :: "rat \<Rightarrow> u16" where
  "bar_margin v = of_int (max 0 (min 65535 \<lfloor>v + 1/2\<rfloor>))"

text \<open>A wrong edge is a Lua error, raised after the edge was cleared; the first component tells.\<close>

definition luaA_drawin_set_bar :: "env \<Rightarrow> nat \<Rightarrow> bar_table option \<Rightarrow> world \<Rightarrow> bool \<times> world" where
  "luaA_drawin_set_bar env d arg w =
     (let set_bar = (\<lambda>f. upd_drawin d (\<lambda>a. a\<lparr>d_bar := f (d_bar a)\<rparr>));
          finish = (\<lambda>w. (True, emit env d ''property::bar'' [] (mark_all_dirty env w)))
      in case arg of
           None \<Rightarrow> finish (set_bar (\<lambda>b. b\<lparr>bar_edge := 0\<rparr>) w)
         | Some t \<Rightarrow>
             (case index_of (bt_edge t) [''top'', ''bottom'', ''left'', ''right''] of
                None \<Rightarrow> (False, set_bar (\<lambda>b. b\<lparr>bar_edge := 0\<rparr>) w)
              | Some i \<Rightarrow>
                  finish (set_bar (\<lambda>b. b\<lparr>bar_edge := i + 1, bar_reserve := (bt_reserve t \<noteq> Some False),
                      bar_stretch := (bt_stretch t \<noteq> Some False),
                      bar_align := (if bt_align t = Some ''start'' then 1 else if bt_align t = Some ''end'' then 2 else 0),
                      bar_margins := (case bt_margins t of None \<Rightarrow> [0, 0, 0, 0] | Some ms \<Rightarrow> map bar_margin ms)\<rparr>) w)))"

text \<open>drawin.bar; None is nil.\<close>

definition luaA_drawin_get_bar :: "nat \<Rightarrow> world \<Rightarrow> bar_table option" where
  "luaA_drawin_get_bar d w =
     (let b = d_bar (dw w d) in
      if bar_edge b = 0 then None
      else Some \<lparr>bt_edge = [''top'', ''bottom'', ''left'', ''right''] ! (bar_edge b - 1), bt_reserve = Some (bar_reserve b),
             bt_stretch = Some (bar_stretch b), bt_align = Some ([''centered'', ''start'', ''end''] ! bar_align b),
             bt_margins = Some (map (of_int \<circ> uint) (bar_margins b))\<rparr>)"

definition luaA_drawin_get :: "world \<Rightarrow> nat list" where
  "luaA_drawin_get w = drawins w"

subsection \<open>The list of visible drawins\<close>

text \<open>
  Operations on drawins as Lua code and the frame run them. A new object gets the address of no
  visible one, and the collector takes only drawins that nothing refers to.
\<close>

datatype drawin_op =
    DoVisible nat bool | DoNew nat nat | DoCollect nat
  | DoGeometry nat geometry_table | DoSolved nat int int int int | DoReassign nat
  | DoOntop nat bool | DoOpacity nat "rat option" | DoBorderWidth nat rat | DoBar nat "bar_table option"
  | DoStruts nat "string \<Rightarrow> rat option"

fun run_drawin_op ::
  "(int \<Rightarrow> int \<Rightarrow> world \<Rightarrow> nat option) \<Rightarrow> (area \<Rightarrow> area \<Rightarrow> bool) \<Rightarrow> env \<Rightarrow> drawin_op \<Rightarrow> world \<Rightarrow> world" where
  "run_drawin_op outp eq env (DoVisible d v) w = or_unchanged (drawin_set_visible eq env d v w) w"
| "run_drawin_op outp eq env (DoNew d r) w = (if d \<in> set (drawins w) then w else drawin_allocator outp env d r w)"
| "run_drawin_op outp eq env (DoCollect d) w = (if d \<in># registry w then w else luaA_drawin_gc env d w)"
| "run_drawin_op outp eq env (DoGeometry d t) w = luaA_drawin_geometry outp env d t w"
| "run_drawin_op outp eq env (DoSolved d x y wd ht) w = luaA_drawin_set_solved_geometry outp env d x y wd ht w"
| "run_drawin_op outp eq env (DoReassign d) w = luaA_drawin_reassign_screen outp env d w"
| "run_drawin_op outp eq env (DoOntop d b) w = luaA_drawin_set_ontop env d b w"
| "run_drawin_op outp eq env (DoOpacity d v) w = or_unchanged (luaA_drawin_set_opacity env d v w) w"
| "run_drawin_op outp eq env (DoBorderWidth d v) w = luaA_drawin_set_border_width env d v w"
| "run_drawin_op outp eq env (DoBar d t) w = snd (luaA_drawin_set_bar env d t w)"
| "run_drawin_op outp eq env (DoStruts d t) w = luaA_drawin_struts env d t w"

text \<open>Handlers that run such operations themselves, to a depth n.\<close>

fun drawin_env ::
  "(int \<Rightarrow> int \<Rightarrow> world \<Rightarrow> nat option) \<Rightarrow> (area \<Rightarrow> area \<Rightarrow> bool) \<Rightarrow> (call \<Rightarrow> world \<Rightarrow> drawin_op list) \<Rightarrow> env \<Rightarrow> nat \<Rightarrow> env" where
  "drawin_env outp eq script base 0 k w = base k w"
| "drawin_env outp eq script base (Suc n) k w =
     fold (run_drawin_op outp eq (drawin_env outp eq script base n)) (script k w) (base k w)"

definition shown_view where
  "shown_view w = (drawins w, \<lambda>d. d_visible (dw w d), registry w)"

definition shown_ok :: "world \<Rightarrow> bool" where
  "shown_ok w \<longleftrightarrow> distinct (drawins w) \<and> (\<forall>d. d \<in> set (drawins w) \<longleftrightarrow> d_visible (dw w d)) \<and>
     (\<forall>d \<in> set (drawins w). d \<in># registry w)"

lemma shown_by_view: "shown_view v = shown_view w \<Longrightarrow> shown_ok v = shown_ok w"
  by (simp add: shown_view_def shown_ok_def fun_eq_iff)

lemma shown_call:
  assumes "preserves env shown_ok" and "shown_ok w" shows "shown_ok (call_env env k w)"
  by (rule call_env_preserves [where P = shown_ok, OF assms(1) _ assms(2)]) (simp add: shown_ok_def)

lemma shown_upd [simp]:
  "(\<And>a. d_visible (f a) = d_visible a) \<Longrightarrow> shown_ok (upd_drawin d f w) = shown_ok w"
  "shown_ok (upd_drawable r g w) = shown_ok w" "shown_ok (stack_windows w) = shown_ok w"
  by (rule shown_by_view, simp add: shown_view_def upd_drawin_def upd_drawable_def stack_windows_def fun_eq_iff)+

lemma shown_emit_if [simp]:
  "preserves env shown_ok \<Longrightarrow> shown_ok w \<Longrightarrow> shown_ok (emit_if env b x n w)"
  "preserves env shown_ok \<Longrightarrow> shown_ok w \<Longrightarrow> shown_ok (mark_all_dirty env w)"
  "preserves env shown_ok \<Longrightarrow> shown_ok w \<Longrightarrow> shown_ok (drawin_mark_dirty env d w)"
  "preserves env shown_ok \<Longrightarrow> shown_ok w \<Longrightarrow> shown_ok (drawin_border_dirty env d w)"
  by (auto simp: emit_if_def mark_all_dirty_def drawin_mark_dirty_def drawin_border_dirty_def shown_call split: option.split)

lemma shown_set_geometry: "preserves env shown_ok \<Longrightarrow> shown_ok w \<Longrightarrow> shown_ok (drawable_set_geometry eq env r g s w)"
  by (simp add: drawable_set_geometry_def Let_def)

lemma shown_assign:
  "preserves env shown_ok \<Longrightarrow> shown_ok w \<Longrightarrow> shown_ok (drawin_assign_screen outp env d w)"
  by (simp add: drawin_assign_screen_def Let_def shown_call)

lemma shown_moveresize:
  assumes env: "preserves env shown_ok" and "shown_ok w"
  shows "shown_ok (drawin_moveresize outp env d x y wd ht solved w)"
proof -
  have "shown_ok (move_drawable env d solved v)" if "shown_ok v" for v
    using that env by (simp add: move_drawable_def Let_def split: option.split)
  moreover have "shown_ok (emit_moved env d old f n v)" if "shown_ok v" for old f n v
    using that env by (simp add: emit_moved_def)
  ultimately have steps: "shown_ok v \<Longrightarrow> shown_ok (move_drawable env d solved v)"
    "shown_ok v \<Longrightarrow> shown_ok (emit_moved env d old f n v)" for old f n v by blast+
  define w1 where "w1 = emit_moved env d (d_area (dw w d)) (\<lambda>a b. ah a \<noteq> ah b) ''property::height''
    (emit_moved env d (d_area (dw w d)) (\<lambda>a b. aw a \<noteq> aw b) ''property::width''
    (emit_moved env d (d_area (dw w d)) (\<lambda>a b. ay a \<noteq> ay b) ''property::y''
    (emit_moved env d (d_area (dw w d)) (\<lambda>a b. ax a \<noteq> ax b) ''property::x''
    (emit_moved env d (d_area (dw w d)) (\<lambda>a b. ax a \<noteq> ax b \<or> ay a \<noteq> ay b \<or> aw a \<noteq> aw b \<or> ah a \<noteq> ah b) ''property::geometry''
    (move_drawable env d solved
    (upd_drawin d (\<lambda>a. a\<lparr>d_area := \<lparr>ax = x, ay = y, aw = (if wd > 0 then wd else aw (d_area (dw w d))),
       ah = (if ht > 0 then ht else ah (d_area (dw w d)))\<rparr>, geometry_dirty := True\<rparr>) w))))))"
  define w2 where "w2 = (if (\<not> solved \<or> \<not> d_anim_enabled (dw w1 d)) \<and>
      (ax (d_area (dw w d)) \<noteq> ax (d_area (dw w1 d)) \<or> ay (d_area (dw w d)) \<noteq> ay (d_area (dw w1 d)))
    then drawin_assign_screen outp env d w1 else w1)"
  have "shown_ok w1" unfolding w1_def by (intro steps) (use assms(2) in simp)
  then have "shown_ok w2" using shown_assign [OF env] by (simp add: w2_def)
  then show ?thesis
    using env unfolding drawin_moveresize_def Let_def w1_def [symmetric] w2_def [symmetric] by simp
qed

lemma shown_set_visible:
  assumes env: "preserves env shown_ok" and "shown_ok w" and "drawin_set_visible eq env d v w = Some w'"
  shows "shown_ok w'"
proof (cases "d_visible (dw w d) = v")
  case True
  then show ?thesis using assms(2,3) by (simp add: drawin_set_visible_def split: if_splits)
next
  case False
  define w1 where "w1 = upd_drawin d (\<lambda>a. a\<lparr>d_visible := v\<rparr>) w"
  define w2 where "w2 = (if v then drawin_show eq env d w1 else drawin_hide d w1)"
  have sel: "drawins w1 = drawins w" "registry w1 = registry w" "d_visible (dw w1 e) = (if e = d then v else d_visible (dw w e))" for e
    by (simp_all add: w1_def upd_drawin_def)
  have "shown_ok w2"
  proof (cases v)
    case True
    let ?u = "w1\<lparr>drawins := drawins w1 @ [d], registry := add_mset d (registry w1)\<rparr>"
    have "d \<notin> set (drawins w1)" using assms(2) False True by (simp add: shown_ok_def sel)
    moreover from this have "shown_ok ?u" using assms(2) True by (auto simp: shown_ok_def sel)
    then have "shown_ok (drawin_update_drawing eq env d (stack_windows ?u))"
      using env shown_set_geometry by (simp add: drawin_update_drawing_def split: option.split)
    ultimately show ?thesis using True by (simp add: w2_def drawin_show_def Let_def)
  next
    case False
    have "e \<in># registry w - {#d#}" if "e \<in># registry w" "e \<noteq> d" for e using that by (simp add: in_diff_count)
    then show ?thesis using False assms(2) by (auto simp: w2_def drawin_hide_def shown_ok_def sel)
  qed
  then show ?thesis using assms(3) False env shown_call [OF env]
    by (auto simp: drawin_set_visible_def Let_def w1_def [symmetric] w2_def [symmetric] split: if_splits)
qed

lemma shown_allocator:
  assumes env: "preserves env shown_ok" and "shown_ok w" and "d \<notin> set (drawins w)"
  shows "shown_ok (drawin_allocator outp env d r w)"
proof -
  let ?u = "upd_drawin d (\<lambda>a. a\<lparr>d_drawable := Some r\<rparr>) (drawable_allocator r (upd_drawin d (\<lambda>_. drawin0) w))"
  have "shown_view (upd_drawin d (\<lambda>_. drawin0) w) = shown_view w"
    using assms(2,3) by (auto simp: shown_view_def upd_drawin_def drawin0_def shown_ok_def)
  then have "shown_ok (upd_drawin d (\<lambda>_. drawin0) w)" using assms(2) shown_by_view by metis
  then have "shown_ok ?u" by (simp add: drawable_allocator_def)
  then show ?thesis using shown_assign [OF env] by (simp add: drawin_allocator_def Let_def)
qed

lemma shown_op:
  assumes env: "preserves env shown_ok" and "shown_ok w" shows "shown_ok (run_drawin_op outp eq env oper w)"
proof (cases oper)
  case (DoVisible d v)
  then show ?thesis using assms shown_set_visible [OF env] by (auto simp: or_unchanged_def split: option.split)
next
  case (DoNew d r)
  then show ?thesis using assms shown_allocator by simp
next
  case (DoOpacity d v)
  have "shown_ok w'" if "set_opacity_to env d v w = Some w'" for v w'
    using that assms shown_call [OF env] by (auto simp: set_opacity_to_def Let_def split: if_splits option.splits)
  then show ?thesis using DoOpacity assms
    by (auto simp: or_unchanged_def luaA_drawin_set_opacity_def split: option.split)
next
  case (DoBar d t)
  then show ?thesis using assms shown_call [OF env]
    by (simp add: luaA_drawin_set_bar_def Let_def split: option.split)
qed (use assms shown_moveresize [OF env] shown_assign [OF env] shown_call [OF env] in
    \<open>simp_all add: luaA_drawin_gc_def luaA_drawin_geometry_def luaA_drawin_set_solved_geometry_def
      luaA_drawin_reassign_screen_def luaA_drawin_set_ontop_def luaA_drawin_set_border_width_def luaA_drawin_struts_def Let_def\<close>)

lemma shown_env:
  assumes "keeps base shown_view" shows "preserves (drawin_env outp eq script base n) shown_ok"
proof (induction n)
  have base: "shown_ok (base k w) = shown_ok w" for k w by (rule shown_by_view) (use assms in \<open>simp add: keeps_def\<close>)
  {
    case 0
    then show ?case by (simp add: preserves_def base)
  next
    case (Suc n)
  have "shown_ok (fold (run_drawin_op outp eq (drawin_env outp eq script base n)) opers w)" if "shown_ok w" for opers w
    using that by (induction opers arbitrary: w) (simp_all add: shown_op [OF Suc])
  then show ?case by (simp add: preserves_def base)
  }
qed

text \<open>
  C11: Whatever operations Lua code runs on drawins, and whatever operations its handlers run while
  one of them is still going on, the drawins drawin.get() lists are exactly the visible ones, each
  once, and every visible drawin is held in the registry, so never collected.
\<close>
theorem visible_drawins_listed:
  assumes "keeps base shown_view" and "shown_ok w"
    and w': "w' = fold (run_drawin_op outp eq (drawin_env outp eq script base n)) opers w"
  shows "distinct (luaA_drawin_get w') \<and> (\<forall>d. d \<in> set (luaA_drawin_get w') \<longleftrightarrow> d_visible (dw w' d)) \<and>
    (\<forall>d. d_visible (dw w' d) \<longrightarrow> d \<in># registry w')"
proof -
  have "shown_ok (fold (run_drawin_op outp eq (drawin_env outp eq script base n)) opers w)"
    using assms(2) by (induction opers arbitrary: w) (simp_all add: shown_op [OF shown_env [OF assms(1)]])
  then show ?thesis by (auto simp: shown_ok_def w' luaA_drawin_get_def)
qed

text \<open>A handler that hides a drawin while it is being shown, and shows it again.\<close>

definition drawin_script :: "call \<Rightarrow> world \<Rightarrow> drawin_op list" where
  "drawin_script k w =
     (case k of
        Emit d n args \<Rightarrow> if n = ''property::visible'' \<and> d_visible (dw w d) then [DoVisible d False, DoVisible d True] else []
      | _ \<Rightarrow> [])"

lemma visible_drawins_listed_witness:
  "luaA_drawin_get (fold (run_drawin_op (\<lambda>_ _ _. None) (=) (drawin_env (\<lambda>_ _ _. None) (=) drawin_script idle 2))
     [DoNew 5 6, DoVisible 5 True, DoNew 7 8, DoVisible 7 True, DoVisible 5 False] world0) = [7] \<and>
   d_visible (dw (fold (run_drawin_op (\<lambda>_ _ _. None) (=) (drawin_env (\<lambda>_ _ _. None) (=) drawin_script idle 2))
     [DoNew 5 6, DoVisible 5 True, DoNew 7 8, DoVisible 7 True, DoVisible 5 False] world0) 7)"
proof -
  let ?w = "fold (run_drawin_op (\<lambda>_ _ _. None) (=) (drawin_env (\<lambda>_ _ _. None) (=) drawin_script idle 2))
     [DoNew 5 6, DoVisible 5 True, DoNew 7 8, DoVisible 7 True, DoVisible 5 False] world0"
  have "luaA_drawin_get ?w = [7]" by code_simp
  moreover have "keeps idle shown_view" by (simp add: keeps_def idle_def)
  moreover have "shown_ok world0" by (simp add: shown_ok_def world0_def drawin0_def)
  ultimately show ?thesis
    using visible_drawins_listed [OF _ _ refl, of idle world0 "\<lambda>_ _ _. None" "(=)" drawin_script 2] by (metis list.set_intros(1))
qed

subsection \<open>What a move or resize announces\<close>

definition drawn_view where
  "drawn_view w = (dw w, da w, trace w, screens w, sc w)"

lemma drawn_call:
  assumes "keeps env drawn_view"
  shows "dw (call_env env k w) = dw w" "da (call_env env k w) = da w" "trace (call_env env k w) = trace w @ [k]"
    "screens (call_env env k w) = screens w" "sc (call_env env k w) = sc w"
  using assms by (simp_all add: keeps_def call_env_def drawn_view_def)

definition told :: "bool \<Rightarrow> call \<Rightarrow> call list" where "told b k = (if b then [k] else [])"

lemma drawn_emit:
  assumes "keeps env drawn_view"
  shows "dw (emit_if env b x n w) = dw w" "da (emit_if env b x n w) = da w"
    "trace (emit_if env b x n w) = trace w @ told b (Emit x n [])"
    "screens (emit_if env b x n w) = screens w" "sc (emit_if env b x n w) = sc w"
  using drawn_call [OF assms] by (simp_all add: emit_if_def told_def)

lemma area_neq: "(ax a \<noteq> ax b \<or> ay a \<noteq> ay b \<or> aw a \<noteq> aw b \<or> ah a \<noteq> ah b) = (a \<noteq> b)" for a b :: area
  by (auto intro: area.equality)

text \<open>
  Moving or resizing a drawin with a drawable r, when no handler interferes and the point it
  moves to is on its screen: the drawin and its drawable get the new geometry, a width or height
  that is not positive being ignored; the drawable is asked for a new surface exactly when its size
  changes and the size was not solved by the layout; then the changed properties are announced,
  each once and geometry first, and an authored change has all outputs declared anew.
\<close>
theorem moveresize_announces:
  assumes "keeps env drawn_view" and r: "d_drawable (dw w d) = Some r"
    and stays: "luaA_screen_getbycoord x y w = d_screen (dw w d)" "d_screen (dw w d) \<noteq> None"
    and n: "n = \<lparr>ax = x, ay = y, aw = (if width > 0 then width else aw (d_area (dw w d))),
                 ah = (if height > 0 then height else ah (d_area (dw w d)))\<rparr>"
    and old: "old = d_area (dw w d)" and odr: "odr = da_geometry (da w r)"
    and w': "w' = drawin_moveresize output_at env d x y width height solved w"
  shows "d_area (dw w' d) = n \<and> da_geometry (da w' r) = n \<and>
    trace w' = trace w @ told (\<not> solved \<and> (aw odr \<noteq> aw n \<or> ah odr \<noteq> ah n)) (Emit r ''property::surface'' []) @
      told (old \<noteq> n) (Emit d ''property::geometry'' []) @ told (ax old \<noteq> ax n) (Emit d ''property::x'' []) @
      told (ay old \<noteq> ay n) (Emit d ''property::y'' []) @ told (aw old \<noteq> aw n) (Emit d ''property::width'' []) @
      told (ah old \<noteq> ah n) (Emit d ''property::height'' []) @
      told (\<not> solved \<and> old \<noteq> n) (Native ''declare_mark_all_dirty'' [])"
proof -
  note call = drawn_call [OF assms(1)] and em = drawn_emit [OF assms(1)]
  define w1 where "w1 = upd_drawin d (\<lambda>a. a\<lparr>d_area := n, geometry_dirty := True\<rparr>) w"
  have s1: "dw w1 d = (dw w d)\<lparr>d_area := n, geometry_dirty := True\<rparr>" "da w1 = da w" "trace w1 = trace w" "screens w1 = screens w" "sc w1 = sc w"
    by (simp_all add: w1_def upd_drawin_def)
  define w2 where "w2 = move_drawable env d solved w1"
  have s2: "dw w2 = dw w1" "da_geometry (da w2 r) = n" "screens w2 = screens w" "sc w2 = sc w"
    "trace w2 = trace w @ told (\<not> solved \<and> (aw odr \<noteq> aw n \<or> ah odr \<noteq> ah n)) (Emit r ''property::surface'' [])"
    using r s1 by (simp_all add: w2_def move_drawable_def Let_def em odr upd_drawable_def)
  define w3 where "w3 = emit_moved env d old (\<lambda>a b. ah a \<noteq> ah b) ''property::height''
    (emit_moved env d old (\<lambda>a b. aw a \<noteq> aw b) ''property::width''
    (emit_moved env d old (\<lambda>a b. ay a \<noteq> ay b) ''property::y''
    (emit_moved env d old (\<lambda>a b. ax a \<noteq> ax b) ''property::x''
    (emit_moved env d old (\<lambda>a b. ax a \<noteq> ax b \<or> ay a \<noteq> ay b \<or> aw a \<noteq> aw b \<or> ah a \<noteq> ah b) ''property::geometry'' w2))))"
  have s3: "dw w3 = dw w1" "da w3 = da w2" "screens w3 = screens w" "sc w3 = sc w"
    "trace w3 = trace w2 @ told (old \<noteq> n) (Emit d ''property::geometry'' []) @ told (ax old \<noteq> ax n) (Emit d ''property::x'' []) @
      told (ay old \<noteq> ay n) (Emit d ''property::y'' []) @ told (aw old \<noteq> aw n) (Emit d ''property::width'' []) @
      told (ah old \<noteq> ah n) (Emit d ''property::height'' [])"
    unfolding w3_def area_neq by (simp_all add: emit_moved_def em s1 s2)
  have "luaA_screen_getbycoord (ax (d_area (dw w3 d))) (ay (d_area (dw w3 d))) w3 = d_screen (dw w3 d)"
    using stays(1) getbycoord_cong [OF s3(3,4)] by (simp add: s1 s3 n)
  moreover have "d_screen (dw w3 d) \<noteq> None" using stays(2) by (simp add: s1 s3)
  ultimately have same: "drawin_assign_screen output_at env d w3 = w3"
    by (auto simp: drawin_assign_screen_def Let_def split: option.split)
  have now: "d_area (dw w3 d) = n" by (simp add: s1 s3)
  define w4 where "w4 = (if aw old \<noteq> aw n \<or> ah old \<noteq> ah n then upd_drawin d (\<lambda>a. a\<lparr>border_need_update := True\<rparr>) w3 else w3)"
  have s4: "d_area (dw w4 d) = n" "da w4 = da w3" "trace w4 = trace w3"
    by (simp_all add: w4_def upd_drawin_def now)
  have "w' = (if \<not> solved \<and> (ax old \<noteq> ax n \<or> ay old \<noteq> ay n \<or> aw old \<noteq> aw n \<or> ah old \<noteq> ah n) then mark_all_dirty env w4 else w4)"
    unfolding w' drawin_moveresize_def Let_def old [symmetric] n [symmetric, unfolded old [symmetric]] w1_def [symmetric] w2_def [symmetric]
      w3_def [symmetric] same if_cancel now w4_def [symmetric] s4(1) by (rule refl)
  then have w4: "w' = (if \<not> solved \<and> old \<noteq> n then mark_all_dirty env w4 else w4)" unfolding area_neq .
  have "trace w' = trace w4 @ told (\<not> solved \<and> old \<noteq> n) (Native ''declare_mark_all_dirty'' [])"
    by (simp add: w4 mark_all_dirty_def call told_def)
  then show ?thesis by (simp add: s4 s3 s2) (simp add: w4 s4 s3 s2 mark_all_dirty_def call)
qed

definition drawin_demo :: world where
  "drawin_demo = world0\<lparr>screens := [9], sc := (\<lambda>_. screen0\<lparr>s_valid := True, s_geometry := box 0 0 1000 500\<rparr>),
     dw := (\<lambda>_. drawin0\<lparr>d_screen := Some 9, d_drawable := Some 6\<rparr>), da := (\<lambda>_. drawable0\<lparr>da_geometry := box 0 0 1 1\<rparr>)\<rparr>"

lemma moveresize_announces_witness:
  "trace (drawin_moveresize (\<lambda>_ _ _. None) idle 5 30 0 200 (-1) False drawin_demo) =
     [Emit 6 ''property::surface'' [], Emit 5 ''property::geometry'' [], Emit 5 ''property::x'' [],
      Emit 5 ''property::width'' [], Native ''declare_mark_all_dirty'' []]"
proof -
  have "keeps idle drawn_view" by (simp add: keeps_def idle_def)
  moreover have "luaA_screen_getbycoord 30 0 drawin_demo = Some 9" by code_simp
  moreover have "d_drawable (dw drawin_demo 5) = Some 6" "d_screen (dw drawin_demo 5) = Some 9" "trace drawin_demo = []"
    "d_area (dw drawin_demo 5) = box 0 0 1 1" "da_geometry (da drawin_demo 6) = box 0 0 1 1"
    by (simp_all add: drawin_demo_def drawin0_def world0_def)
  ultimately show ?thesis
    using moveresize_announces [OF _ _ _ _ refl refl refl refl, where env = idle and w = drawin_demo and d = 5 and r = 6
        and x = 30 and y = 0 and width = 200 and height = "-1" and output_at = "\<lambda>_ _ _. None" and solved = False]
    by (simp add: told_def box_def)
qed

subsection \<open>Bars and struts\<close>

text \<open>A table with all its fields, whole margins in range and known words.\<close>

definition plain_bar :: "bar_table \<Rightarrow> bool" where
  "plain_bar t \<longleftrightarrow> bt_edge t \<in> {''top'', ''bottom'', ''left'', ''right''} \<and> bt_reserve t \<noteq> None \<and> bt_stretch t \<noteq> None \<and>
     bt_align t \<in> {Some ''centered'', Some ''start'', Some ''end''} \<and>
     (\<exists>ms :: u16 list. bt_margins t = Some (map (of_int \<circ> uint) ms))"

lemma bar_margin_whole: "bar_margin (of_int (uint m)) = m" for m :: u16
proof -
  have "\<lfloor>of_int (uint m) + 1 / 2 :: rat\<rfloor> = uint m" by (simp add: floor_unique)
  moreover have "0 \<le> uint m" "uint m < 65536" using uint_lt2p [of m] by simp_all
  ultimately show ?thesis by (simp add: bar_margin_def)
qed

lemmas bar_margin_unsigned [simp] = bar_margin_whole [simplified]

text \<open>
  A bar written from Lua reads back as it was written: for a table with known words and whole
  margins below 65536, drawin.bar returns that table, and nil after nil was assigned.
\<close>
theorem bar_roundtrip:
  assumes "keeps env dw" and "plain_bar t"
  shows "luaA_drawin_get_bar d (snd (luaA_drawin_set_bar env d (Some t) w)) = Some t \<and>
    luaA_drawin_get_bar d (snd (luaA_drawin_set_bar env d None w)) = None"
proof -
  have call: "dw (call_env env k v) = dw v" for k v using assms(1) by (simp add: keeps_def call_env_def)
  obtain ms :: "u16 list" where ms: "bt_margins t = Some (map (of_int \<circ> uint) ms)" using assms(2) by (auto simp: plain_bar_def)
  have readback: "map (of_int \<circ> uint) (map bar_margin (map (of_int \<circ> uint) ms)) = (map (of_int \<circ> uint) ms :: rat list)"
    by (simp add: bar_margin_whole)
  obtain i where i: "index_of (bt_edge t) [''top'', ''bottom'', ''left'', ''right''] = Some i"
    "[''top'', ''bottom'', ''left'', ''right''] ! i = bt_edge t"
    using assms(2) by (auto simp: plain_bar_def)
  have align: "Some ([''centered'', ''start'', ''end''] ! (if bt_align t = Some ''start'' then 1 else if bt_align t = Some ''end'' then 2 else 0)) = bt_align t"
    using assms(2) by (auto simp: plain_bar_def)
  have flags: "Some (bt_reserve t \<noteq> Some False) = bt_reserve t" "Some (bt_stretch t \<noteq> Some False) = bt_stretch t"
    using assms(2) by (auto simp: plain_bar_def)
  have "luaA_drawin_get_bar d (snd (luaA_drawin_set_bar env d (Some t) w)) =
    Some \<lparr>bt_edge = bt_edge t, bt_reserve = bt_reserve t, bt_stretch = bt_stretch t, bt_align = bt_align t,
      bt_margins = bt_margins t\<rparr>"
    unfolding luaA_drawin_set_bar_def Let_def option.case i(1) snd_conv luaA_drawin_get_bar_def call mark_all_dirty_def ms
    using i(2) align flags readback by (simp add: upd_drawin_def bar_margin_whole)
  moreover have "luaA_drawin_get_bar d (snd (luaA_drawin_set_bar env d None w)) = None"
    by (simp add: luaA_drawin_set_bar_def luaA_drawin_get_bar_def call mark_all_dirty_def upd_drawin_def)
  ultimately show ?thesis by simp
qed

definition demo_bar :: bar_table where
  "demo_bar = \<lparr>bt_edge = ''top'', bt_reserve = Some True, bt_stretch = Some False, bt_align = Some ''end'', bt_margins = Some [1, 2, 3, 4]\<rparr>"

lemma bar_roundtrip_witness: "luaA_drawin_get_bar 5 (snd (luaA_drawin_set_bar idle 5 (Some demo_bar) world0)) = Some demo_bar"
proof -
  have "bt_margins demo_bar = Some (map (of_int \<circ> uint) [1, 2, 3, 4 :: u16])" by (simp add: demo_bar_def)
  then have "\<exists>ms :: u16 list. bt_margins demo_bar = Some (map (of_int \<circ> uint) ms)" by blast
  then have "plain_bar demo_bar" unfolding plain_bar_def by (simp add: demo_bar_def)
  moreover have "keeps idle dw" by (simp add: keeps_def idle_def)
  ultimately show ?thesis using bar_roundtrip [of idle demo_bar 5 world0] by simp
qed

text \<open>A wrong edge drops the bar the drawin had, tells no one, and raises the error.\<close>

lemma wrong_edge_drops_bar:
  assumes "bt_edge t \<notin> {''top'', ''bottom'', ''left'', ''right''}"
  shows "\<exists>w'. luaA_drawin_set_bar env d (Some t) w = (False, w') \<and> luaA_drawin_get_bar d w' = None \<and> trace w' = trace w"
  using assms by (auto simp: luaA_drawin_set_bar_def luaA_drawin_get_bar_def upd_drawin_def)

text \<open>drawin:struts takes what strut.c refuses: -1 becomes 65535.\<close>

lemma struts_wrap:
  assumes "keeps env dw" and "t = (\<lambda>k. if k = ''left'' then Some (-1) else None)"
  shows "strut_left (d_strut (dw (luaA_drawin_struts env d t w) d)) = 65535 \<and> fst (luaA_tostrut t s) = False"
proof -
  have "dw (call_env env k v) = dw v" for k v using assms(1) by (simp add: keeps_def call_env_def)
  moreover have "\<lceil>- 1 :: rat\<rceil> = - 1" by (simp add: ceiling_def)
  ultimately show ?thesis
    by (simp add: assms(2) luaA_drawin_struts_def Let_def upd_drawin_def c_trunc_def luaA_tostrut_def strut_field_def)
qed

end
