(* ===== verification/Window.thy ===== *)
theory Window
  imports Drawin Refresh Tags ClientState "HOL-Library.Monad_Syntax"
begin

text \<open>
  The life of a window (window.c, property.c and the helpers of client.h): created, configured,
  mapped, resized, made fullscreen, moved between monitors, unmapped and destroyed. The wlroots
  requests are calls of the environment; what wlroots keeps of a window is its toplevel record.
  The lemmas show what full screen restores, that no second size is sent while the first is not
  acknowledged, how often a size is sent again, which lists a window is in during its life, and
  what an unmanaged window does to its listeners.
\<close>

subsection \<open>What the code asks of libraries\<close>

text \<open>
  xytomon asks wlroots for the output at a point. lib_floating is the Lua property floating,
  lib_now the monotonic clock in milliseconds, lib_scene_made whether wlroots could make the scene
  of a surface, lib_cursor the place of the cursor. The colours are those of get_focuscolor and
  get_bordercolor, the fuel is for the loops over arrays that handlers may change.
\<close>

record window_lib =
  lib_box_empty :: "area \<Rightarrow> bool"
  lib_output_at :: "int \<Rightarrow> int \<Rightarrow> world \<Rightarrow> nat option"
  lib_floating :: "nat \<Rightarrow> world \<Rightarrow> bool"
  lib_now :: "world \<Rightarrow> int"
  lib_rnd :: rounding
  lib_scene_made :: "nat \<Rightarrow> world \<Rightarrow> bool"
  lib_cursor :: "world \<Rightarrow> rat \<times> rat"
  lib_focuscolor :: "rat list"
  lib_bordercolor :: "rat list"
  lib_fuel :: nat

abbreviation (input) SIG_CLIENT_PROPERTY_GEOMETRY :: nat where "SIG_CLIENT_PROPERTY_GEOMETRY \<equiv> 25"
abbreviation (input) SIG_REQUEST_ACTIVATE :: nat where "SIG_REQUEST_ACTIVATE \<equiv> 18"
abbreviation (input) SIG_CLIENT_MAP :: nat where "SIG_CLIENT_MAP \<equiv> 49"
abbreviation (input) SIG_CLIENT_UNMAP :: nat where "SIG_CLIENT_UNMAP \<equiv> 50"

text \<open>client_surface(c)->mapped, where the client has a surface.\<close>

definition surface_mapped :: "nat \<Rightarrow> world \<Rightarrow> bool" where
  "surface_mapped c w = (case client_surface (cl w c) of None \<Rightarrow> False | Some s \<Rightarrow> sf_mapped (surf w s))"

definition mark_output :: "env \<Rightarrow> nat option \<Rightarrow> world \<Rightarrow> world" where
  "mark_output env m w = (case m of None \<Rightarrow> w | Some m \<Rightarrow> call_env env (Native ''declare_output_mark_dirty'' [LUser m]) w)"

subsection \<open>Sizes\<close>

definition applybounds :: "client \<Rightarrow> area \<Rightarrow> area" where
  "applybounds x bbox =
     (let min_w = 1 + tb_size x BAR_LEFT + tb_size x BAR_RIGHT;
          min_h = 1 + tb_size x BAR_TOP + tb_size x BAR_BOTTOM;
          g = geometry x;
          g = g\<lparr>aw := max min_w (aw g)\<rparr>;
          g = g\<lparr>ah := max min_h (ah g)\<rparr>;
          g = (if ax g \<ge> ax bbox + aw bbox then g\<lparr>ax := ax bbox + aw bbox - aw g\<rparr> else g);
          g = (if ay g \<ge> ay bbox + ah bbox then g\<lparr>ay := ay bbox + ah bbox - ah g\<rparr> else g);
          g = (if ax g + aw g \<le> ax bbox then g\<lparr>ax := ax bbox\<rparr> else g)
      in if ay g + ah g \<le> ay bbox then g\<lparr>ay := ay bbox\<rparr> else g)"

text \<open>XDG_TOPLEVEL_CONFIGURE_BOUNDS_SINCE_VERSION is 4.\<close>

definition client_set_bounds :: "env \<Rightarrow> nat \<Rightarrow> int \<Rightarrow> int \<Rightarrow> world \<Rightarrow> world" where
  "client_set_bounds env c wd ht w =
     (if client_is_x11 (cl w c) then w
      else if tp_version (tp w c) \<ge> 4 \<and> wd \<ge> 0 \<and> ht \<ge> 0 \<and> c_bounds (cl w c) \<noteq> (wd, ht)
      then call_env env (Native ''xdg_toplevel_set_bounds'' [LUser c, LInt wd, LInt ht])
             (upd_client c (\<lambda>x. x\<lparr>c_bounds := (wd, ht)\<rparr>) w)
      else w)"

text \<open>wlr_xdg_toplevel_set_size returns the serial of the configure it scheduled.\<close>

definition toplevel_set_size :: "env \<Rightarrow> nat \<Rightarrow> int \<Rightarrow> int \<Rightarrow> world \<Rightarrow> u32 \<times> world" where
  "toplevel_set_size env c wd ht w =
     (let w = call_env env (Native ''xdg_toplevel_set_size'' [LUser c, LInt wd, LInt ht]) w
      in (tp_scheduled (tp w c), w))"

definition client_set_size :: "env \<Rightarrow> nat \<Rightarrow> int \<Rightarrow> int \<Rightarrow> world \<Rightarrow> u32 \<times> world" where
  "client_set_size env c wd ht w =
     (let t = tp w c in
      if client_is_x11 (cl w c) then
        (if \<not> client_is_unmanaged (cl w c) then (0, w)
         else
           (let cx = sint (of_int (ax (surface_box (cl w c))) :: 16 word);
                cy = sint (of_int (ay (surface_box (cl w c))) :: 16 word)
            in if tp_geometry t = \<lparr>ax = cx, ay = cy, aw = wd, ah = ht\<rparr> then (0, w)
               else (0, call_env env (Native ''xwayland_surface_configure'' [LUser c, LInt cx, LInt cy, LInt wd, LInt ht]) w)))
      else if wd = aw (tp_geometry t) \<and> ht = ah (tp_geometry t) then (0, w)
      else if wd = tp_width t \<and> ht = tp_height t then (0, w)
      else toplevel_set_size env c wd ht w)"

definition client_set_fullscreen_internal :: "env \<Rightarrow> nat \<Rightarrow> bool \<Rightarrow> world \<Rightarrow> world" where
  "client_set_fullscreen_internal env c b w =
     call_env env
       (Native (if client_is_x11 (cl w c) then ''xwayland_surface_set_fullscreen'' else ''xdg_toplevel_set_fullscreen'')
          [LUser c, LBool b]) w"

text \<open>The configure event of client_configure_to_box, sent when none is in flight.\<close>

definition send_configure :: "env \<Rightarrow> nat \<Rightarrow> area \<Rightarrow> world \<Rightarrow> world" where
  "send_configure env c b w =
     (let w = (if has_surface (cl w c) \<and> tp_fullscreen (tp w c) \<noteq> fullscreen (cl w c)
               then client_set_fullscreen_internal env c (fullscreen (cl w c)) w else w);
          w = (if client_type (cl w c) = XDGShell \<and> has_surface (cl w c) \<and> tp_maximized (tp w c) \<noteq> maximized (cl w c)
               then call_env env (Native ''xdg_toplevel_set_maximized'' [LUser c, LBool (maximized (cl w c))]) w else w);
          (serial, w) = client_set_size env c (aw b) (ah b) w
      in upd_client c (\<lambda>x. x\<lparr>resize_serial := serial\<rparr>) w)"

text \<open>The clip of the surface and its corners are drawing, two calls.\<close>

definition client_configure_to_box :: "env \<Rightarrow> nat \<Rightarrow> world \<Rightarrow> world" where
  "client_configure_to_box env c w =
     (let b = surface_box (cl w c) in
      if \<not> has_scene (cl w c) \<or> \<not> surface_mapped c w \<or> aw b \<le> 0 \<or> ah b \<le> 0 then w
      else
        (let w = (case c_mon (cl w c) of
                    None \<Rightarrow> w
                  | Some m \<Rightarrow> client_set_bounds env c (aw (m_workarea (mo w m))) (ah (m_workarea (mo w m))) w);
             w = (if resize_serial (cl w c) = 0 then send_configure env c b w else w);
             w = call_env env (Native ''scene_subsurface_tree_set_clip'' [LUser c, LArea b]) w
         in call_env env (Native ''client_apply_corners'' [LUser c]) w))"

text \<open>The timer of the re-sends; CONFIGURE_RETRIES is 3 and CONFIGURE_RETRY_MS 1000.\<close>

definition CONFIGURE_RETRIES :: int where "CONFIGURE_RETRIES = 3"

text \<open>The callback of the timer. None is a null pointer that is followed.\<close>

definition configure_retry :: "window_lib \<Rightarrow> env \<Rightarrow> nat \<Rightarrow> world \<Rightarrow> world option" where
  "configure_retry X env c w =
     (if \<not> has_surface (cl w c) then None
      else
        (let x = cl w c; wd = tp_width (tp w c); ht = tp_height (tp w c) in
         if \<not> surface_mapped c w \<or> resize_serial x \<noteq> 0 \<or> committed_width x = 0
            \<or> configure_retries x \<ge> CONFIGURE_RETRIES \<or> aw (surface_box x) \<noteq> wd \<or> ah (surface_box x) \<noteq> ht
         then Some w
         else
           (let w = upd_client c (\<lambda>x. x\<lparr>configure_retries := configure_retries x + 1\<rparr>) w;
                now = lib_now X w;
                w = upd_client c (\<lambda>x. x\<lparr>configure_retry_msec := now\<rparr>) w;
                (serial, w) = toplevel_set_size env c wd ht w
            in Some (upd_client c (\<lambda>x. x\<lparr>resize_serial := serial\<rparr>) w))))"

definition configure_retry_arm :: "window_lib \<Rightarrow> env \<Rightarrow> nat \<Rightarrow> world \<Rightarrow> world" where
  "configure_retry_arm X env c w =
     (if committed_width (cl w c) = 0 \<or> configure_retries (cl w c) \<ge> CONFIGURE_RETRIES then w
      else
        (let w = (if \<not> retry_source (cl w c)
                  then upd_client c (\<lambda>x. x\<lparr>retry_source := True\<rparr>) (call_env env (Native ''event_loop_add_timer'' [LUser c]) w)
                  else w);
             wait = configure_retry_msec (cl w c) + 1000 - lib_now X w
         in call_env env (Native ''event_source_timer_update'' [LUser c, LInt (if wait > 1 then wait else 1)]) w))"

definition resize :: "window_lib \<Rightarrow> env \<Rightarrow> nat \<Rightarrow> area \<Rightarrow> bool \<Rightarrow> world \<Rightarrow> world" where
  "resize X env c geo interact w =
     (case c_mon (cl w c) of
        None \<Rightarrow> w
      | Some m \<Rightarrow>
          if \<not> surface_mapped c w then w
          else
            (let old = geometry (cl w c);
                 w = client_set_bounds env c (aw (m_workarea (mo w m))) (ah (m_workarea (mo w m))) w;
                 bbox = (if interact then sgeom w else m_workarea (mo w m));
                 w = upd_client c (\<lambda>x. x\<lparr>geometry := geo\<rparr>) w;
                 w = upd_client c (\<lambda>x. x\<lparr>geometry := applybounds x bbox\<rparr>) w;
                 w = upd_client c (\<lambda>x. x\<lparr>geometry := aspect_ratio_fix (lib_rnd X) x (geometry x)\<rparr>) w;
                 w = (if \<not> AREA_EQUAL old (geometry (cl w c))
                      then call_env env (Native ''xwayland_geometry_authored'' [LUser c]) w else w);
                 w = mark_output env (c_mon (cl w c)) w;
                 w = (if \<not> AREA_EQUAL old (geometry (cl w c)) then queue_geometry_signals c old (geometry (cl w c)) w else w)
             in enqueue (QGlobal SIG_CLIENT_PROPERTY_GEOMETRY) w))"

subsection \<open>Full screen and monitors\<close>

text \<open>From here on None is also a stack refresh or a loop over an array that is out of fuel.\<close>

definition setfullscreen :: "window_lib \<Rightarrow> env \<Rightarrow> nat \<Rightarrow> bool \<Rightarrow> world \<Rightarrow> world option" where
  "setfullscreen X env c b w =
     (let was_fullscreen = fullscreen (cl w c);
          w = upd_client c (\<lambda>x. x\<lparr>fullscreen := b\<rparr>) w
      in if c_mon (cl w c) = None \<or> \<not> surface_mapped c w then Some w
         else
           (let w = (if b \<and> (maximized (cl w c) \<or> maximized_horizontal (cl w c) \<or> maximized_vertical (cl w c))
                     then
                       (let w = upd_client c (\<lambda>x. x\<lparr>maximized := False, maximized_horizontal := False,
                                                    maximized_vertical := False\<rparr>) w
                        in if client_type (cl w c) = XDGShell
                           then call_env env (Native ''xdg_toplevel_set_maximized'' [LUser c, LBool False]) w else w)
                     else w);
                w = (if was_fullscreen \<noteq> b then client_set_fullscreen_internal env c b w else w);
                w = (if b
                     then
                       (let w = (if \<not> was_fullscreen then upd_client c (\<lambda>x. x\<lparr>prev_geometry := geometry x\<rparr>) w else w)
                        in resize X env c (m_box (mo w (the (c_mon (cl w c))))) False w)
                     else if was_fullscreen then resize X env c (prev_geometry (cl w c)) False w
                     else w);
                w = emit env c ''property::fullscreen'' [] w;
                w = some_monitor_arrange env (c_mon (cl w c)) w
            in stack_refresh env w))"

definition setmon :: "window_lib \<Rightarrow> env \<Rightarrow> nat \<Rightarrow> nat option \<Rightarrow> world \<Rightarrow> world option" where
  "setmon X env c m w =
     (let oldmon = c_mon (cl w c) in
      if oldmon = m then Some w
      else
        (let old_screen = c_screen (cl w c);
             w = upd_client c (\<lambda>x. x\<lparr>c_mon := m\<rparr>) w;
             w = upd_client c (\<lambda>x. x\<lparr>c_screen := luaA_screen_get_by_monitor m w\<rparr>) w;
             w = (if c_screen (cl w c) \<noteq> old_screen then emit env c ''property::screen'' [obj_of old_screen] w else w);
             w = (if toplevel_handle (cl w c)
                  then call_env env (Native ''foreign_toplevel_output_change'' [LUser c, obj_of oldmon, obj_of m]) w else w);
             w = some_monitor_arrange env oldmon w
         in if m = None then Some w
            else
              (let w = resize X env c (geometry (cl w c)) False w;
                   w = banning_need_update env w
               in setfullscreen X env c (fullscreen (cl w c)) w)))"


subsection \<open>Properties\<close>

text \<open>property.c: the first reading of the properties of a window. A pid is stored in 32 bits.\<close>

definition property_update_wayland_properties :: "env \<Rightarrow> nat \<Rightarrow> world \<Rightarrow> world" where
  "property_update_wayland_properties env c w =
     (if client_type (cl w c) \<noteq> XDGShell \<or> \<not> has_surface (cl w c) then w
      else
        (let w = (case tp_title (tp w c) of None \<Rightarrow> w | Some t \<Rightarrow> client_set_name env c (Some t) w);
             w = (case tp_app_id (tp w c) of None \<Rightarrow> w | Some a \<Rightarrow> client_set_class_instance env c (Some a) (Some []) w)
         in client_set_pid env c (unat (of_int (tp_pid (tp w c)) :: u32)) w))"

definition property_register_wayland_listeners :: "env \<Rightarrow> nat \<Rightarrow> world \<Rightarrow> world" where
  "property_register_wayland_listeners env c w =
     (if client_type (cl w c) \<noteq> XDGShell \<or> \<not> has_surface (cl w c) then w
      else property_update_wayland_properties env c w)"

definition property_handle_toplevel_title :: "env \<Rightarrow> nat \<Rightarrow> world \<Rightarrow> world" where
  "property_handle_toplevel_title env c w =
     (if client_type (cl w c) \<noteq> XDGShell \<or> \<not> has_surface (cl w c) then w
      else client_set_name env c (tp_title (tp w c)) w)"

text \<open>The window types in the order in which they are looked for, by their numbers.\<close>

definition type_priority :: "nat list" where
  "type_priority = [1, 2, 6, 7, 5, 3, 4, 8, 9, 10, 11, 12, 13, 0]"

definition xwayland_type :: "nat \<Rightarrow> world \<Rightarrow> world" where
  "xwayland_type c w =
     (case find (\<lambda>t. t \<in> set (tp_types (tp w c))) type_priority of
        None \<Rightarrow> w
      | Some t \<Rightarrow> upd_client c (\<lambda>x. x\<lparr>c_type := t\<rparr>) w)"

definition xwayland_wm_hints :: "env \<Rightarrow> nat \<Rightarrow> wm_hints \<Rightarrow> world \<Rightarrow> world" where
  "xwayland_wm_hints env c h w =
     (let w = (case wm_input h of None \<Rightarrow> w | Some i \<Rightarrow> upd_client c (\<lambda>x. x\<lparr>nofocus := \<not> i\<rparr>) w);
          w = (case wm_group h of None \<Rightarrow> w | Some g \<Rightarrow> client_set_group_window env c g w)
      in client_set_urgent env c (wm_urgent h) w)"

definition property_update_xwayland_properties :: "env \<Rightarrow> nat \<Rightarrow> world \<Rightarrow> world" where
  "property_update_xwayland_properties env c w =
     (if client_type (cl w c) \<noteq> X11 \<or> \<not> has_surface (cl w c) then w
      else
        (let w = (case tp_title (tp w c) of None \<Rightarrow> w | Some t \<Rightarrow> client_set_name env c (Some t) w);
             or_empty = (\<lambda>s. case s of None \<Rightarrow> Some [] | Some s \<Rightarrow> Some s);
             w = client_set_class_instance env c (or_empty (tp_app_id (tp w c))) (or_empty (tp_instance (tp w c))) w;
             w = (if tp_pid (tp w c) > 0 then client_set_pid env c (nat (tp_pid (tp w c))) w else w);
             w = (case tp_role (tp w c) of None \<Rightarrow> w | Some r \<Rightarrow> client_set_role env c (Some r) w);
             w = (case tp_size_hints (tp w c) of
                    None \<Rightarrow> w
                  | Some h \<Rightarrow> emit env c ''property::size_hints'' [] (upd_client c (\<lambda>x. x\<lparr>hints := h\<rparr>) w));
             w = (case tp_wm_hints (tp w c) of None \<Rightarrow> w | Some h \<Rightarrow> xwayland_wm_hints env c h w);
             w = (if tp_has_parent (tp w c)
                  then client_find_transient_for env c
                         (upd_client c (\<lambda>x. x\<lparr>transient_for_window := tp_parent_window (tp w c)\<rparr>) w)
                  else w)
         in xwayland_type c w))"

definition window_properties :: "env \<Rightarrow> nat \<Rightarrow> world \<Rightarrow> world" where
  "window_properties env c w =
     (if client_type (cl w c) = XDGShell then property_register_wayland_listeners env c w
      else property_update_xwayland_properties env c w)"

text \<open>client_is_float_type of an xdg toplevel; tp_limits holds minimum and maximum width and height.\<close>

definition client_is_float_type :: "toplevel_state \<Rightarrow> bool" where
  "client_is_float_type t \<longleftrightarrow>
     (let min_w = tp_limits t ! 0; min_h = tp_limits t ! 1; max_w = tp_limits t ! 2; max_h = tp_limits t ! 3
      in tp_has_parent t \<or> (min_w \<noteq> 0 \<and> min_h \<noteq> 0 \<and> (min_w = max_w \<or> min_h = max_h)))"

subsection \<open>Creation\<close>

definition requestdecorationmode :: "env \<Rightarrow> nat \<Rightarrow> world \<Rightarrow> world" where
  "requestdecorationmode env c w =
     (if tp_initialized (tp w c) then call_env env (Native ''decoration_set_server_side'' [LUser c]) w else w)"

definition createdecoration :: "env \<Rightarrow> nat \<Rightarrow> world \<Rightarrow> world" where
  "createdecoration env c w = requestdecorationmode env c (upd_client c (\<lambda>x. x\<lparr>c_decoration := True\<rparr>) w)"

definition destroydecoration :: "nat \<Rightarrow> world \<Rightarrow> world" where
  "destroydecoration c = upd_client c (\<lambda>x. x\<lparr>c_decoration := False\<rparr>)"

text \<open>
  createnotify for a toplevel with surface s; d is the address of the new client. client_new emits
  new on the class before the client has any of its fields.
\<close>

definition createnotify :: "env \<Rightarrow> nat \<Rightarrow> nat \<Rightarrow> world \<Rightarrow> world" where
  "createnotify env d s w =
     (let w = upd_client d (\<lambda>_. client0) w;
          w = call_env env (EmitClass ''client'' ''new'' [LUser d]) w;
          w = upd_client d (\<lambda>x. x\<lparr>c_id := next_client_id w\<rparr>) w;
          w = w\<lparr>next_client_id := next_client_id w + 1\<rparr>;
          w = upd_client d (\<lambda>x. x\<lparr>c_opacity := -1, size_hints_honor := True, has_surface := True, surface := Some s,
                                  client_type := XDGShell\<rparr>) w;
          w = luaA_object_registry_ref d w
      in w\<lparr>clients := d # clients w\<rparr>)"

text \<open>Without its listeners a client has no toplevel handle and no decoration.\<close>

definition client_remove_all_listeners :: "env \<Rightarrow> nat \<Rightarrow> world \<Rightarrow> world" where
  "client_remove_all_listeners env c w =
     (let w = (if client_type (cl w c) \<noteq> XDGShell then call_env env (Native ''x11_forget_dissociated_surface'' [LUser c]) w else w);
          w = (if toplevel_handle (cl w c)
               then upd_client c (\<lambda>x. x\<lparr>toplevel_handle := False\<rparr>)
                      (call_env env (Native ''foreign_toplevel_handle_destroy'' [LUser c]) w)
               else w)
      in upd_client c (\<lambda>x. x\<lparr>c_decoration := False\<rparr>) w)"

text \<open>
  The commit of a surface s before its client is mapped, or the one that unmapped it: then the
  toplevel goes to a new client at d.
\<close>

definition initialcommitnotify :: "env \<Rightarrow> nat \<Rightarrow> nat \<Rightarrow> nat \<Rightarrow> world \<Rightarrow> world" where
  "initialcommitnotify env c d s w =
     (if \<not> has_surface (cl w c) \<and> \<not> sf_mapped (surf w s) then
        (let deco = c_decoration (cl w c);
             w = upd_client c (\<lambda>x. x\<lparr>retry_source := False\<rparr>) w;
             w = client_remove_all_listeners env c w;
             w = createnotify env d s w;
             w = (if deco then createdecoration env d w else w)
         in luaA_object_registry_unref c w)
      else if \<not> has_surface (cl w c) \<or> \<not> tp_initial_commit (tp w c) then w
      else
        (let m = (if c_mon (cl w c) \<noteq> None then c_mon (cl w c) else selmon w);
             w = (case m of None \<Rightarrow> w | Some m \<Rightarrow> call_env env (Native ''client_set_scale'' [LUser c, LUser m]) w);
             w = call_env env (Native ''xdg_toplevel_set_wm_capabilities'' [LUser c]) w;
             w = (if c_decoration (cl w c) then requestdecorationmode env c w else w);
             w = (case m of
                    None \<Rightarrow> w
                  | Some m \<Rightarrow>
                      if \<not> client_is_unmanaged (cl w c)
                      then client_set_bounds env c (aw (m_workarea (mo w m))) (ah (m_workarea (mo w m))) w else w)
         in snd (toplevel_set_size env c 0 0 w)))"


subsection \<open>Mapping\<close>

text \<open>The foreach of common/array.h, with a body that may fail.\<close>

fun foreach_opt :: "nat \<Rightarrow> nat \<Rightarrow> ('s \<Rightarrow> 'a list) \<Rightarrow> ('a \<Rightarrow> 's \<Rightarrow> 's option) \<Rightarrow> 's \<Rightarrow> 's option" where
  "foreach_opt 0 i arr f w = None"
| "foreach_opt (Suc n) i arr f w =
     (if i < length (arr w) then Option.bind (f (arr w ! i) w) (foreach_opt n (Suc i) arr f) else Some w)"

definition schedule_flush_clients :: "env \<Rightarrow> world \<Rightarrow> world" where
  "schedule_flush_clients env w =
     (if flush_pending w then w
      else (call_env env (Native ''event_loop_add_idle'' []) w)\<lparr>flush_pending := True\<rparr>)"

definition flush_clients_idle :: "env \<Rightarrow> world \<Rightarrow> world" where
  "flush_clients_idle env w = call_env env (Native ''display_flush_clients'' []) (w\<lparr>flush_pending := False\<rparr>)"

definition client_scene_node_destroy :: "env \<Rightarrow> nat \<Rightarrow> world \<Rightarrow> world" where
  "client_scene_node_destroy env c w =
     (let w = (if client_has_surface (cl w c) then call_env env (Native ''client_surface_clear_scene_data'' [LUser c]) w else w);
          w = call_env env (Native ''declare_handle_drop'' [LUser c]) w;
          w = call_env env (Native ''scene_node_destroy'' [LUser c]) w
      in upd_client c (\<lambda>x. x\<lparr>has_scene := False\<rparr>) w)"

text \<open>The toplevel handle, with the five listeners on it.\<close>

definition map_toplevel_handle :: "env \<Rightarrow> nat \<Rightarrow> world \<Rightarrow> world" where
  "map_toplevel_handle env c w =
     (if foreign_toplevel_mgr w
      then upd_client c (\<lambda>x. x\<lparr>toplevel_handle := True\<rparr>) (call_env env (Native ''foreign_toplevel_handle_create'' [LUser c]) w)
      else w)"

definition send_first_configure :: "env \<Rightarrow> nat \<Rightarrow> world \<Rightarrow> world" where
  "send_first_configure env c w =
     schedule_flush_clients env (client_configure_to_box env c (upd_client c (\<lambda>x. x\<lparr>resize_serial := 0\<rparr>) w))"

text \<open>A window with a parent p takes its tags and its monitor. WINDOW_TYPE_DIALOG is 7.\<close>

definition map_transient :: "window_lib \<Rightarrow> env \<Rightarrow> nat \<Rightarrow> nat \<Rightarrow> world \<Rightarrow> world option" where
  "map_transient X env c p w =
     (let w = window_properties env c w;
          w = upd_client c (\<lambda>x. x\<lparr>c_type := 7\<rparr>) w;
          w = client_set_transient_for env c (Some p) w
      in do {
        w \<leftarrow> foreach (lib_fuel X) 0 tags (\<lambda>t w. if is_client_tagged p t w then tag_client env t c w else w) w;
        w \<leftarrow> setmon X env c (c_mon (cl w p)) w;
        let w = fold (\<lambda>s. enqueue (QSignal0 (LUser c) s))
          [SIG_PROPERTY_X, SIG_PROPERTY_Y, SIG_PROPERTY_WIDTH, SIG_PROPERTY_HEIGHT, SIG_PROPERTY_GEOMETRY] w;
        let w = emit env c ''property::type'' [] w;
        let w = emit env c ''request::manage'' [LStr ''new'', LTable 0] w;
        Some (send_first_configure env c w)
      })"

text \<open>Where a window without a parent goes: the tags selected where it wants to be, and its monitor.\<close>

definition default_mon :: "window_lib \<Rightarrow> nat \<Rightarrow> world \<Rightarrow> nat option" where
  "default_mon X c w =
     (let m = lib_output_at X (ax (geometry (cl w c))) (ay (geometry (cl w c))) w in if m = None then selmon w else m)"

definition place_toplevel :: "window_lib \<Rightarrow> env \<Rightarrow> nat \<Rightarrow> world \<Rightarrow> world option" where
  "place_toplevel X env c w =
     (let target_screen = luaA_screen_get_by_monitor (default_mon X c w) w
      in do {
        w \<leftarrow> foreach (lib_fuel X) 0 tags
          (\<lambda>t w. if selected (tg w t) \<and> t_screen (tg w t) = target_screen then tag_client env t c w else w) w;
        setmon X env c (if c_mon (cl w c) \<noteq> None then c_mon (cl w c) else default_mon X c w) w
      })"

definition announce_toplevel :: "env \<Rightarrow> nat \<Rightarrow> world \<Rightarrow> world" where
  "announce_toplevel env c w =
     (let w = fold (\<lambda>s. enqueue (QSignal0 (LUser c) s)) [SIG_PROPERTY_X, SIG_PROPERTY_Y, SIG_PROPERTY_WIDTH, SIG_PROPERTY_HEIGHT] w;
          w = emit env c ''property::window'' [] w;
          w = enqueue (QSignal0 (LUser c) SIG_PROPERTY_GEOMETRY) w;
          w = emit env c ''property::size_hints_honor'' [] w;
          w = emit env c ''property::type'' [] w;
          w = emit env c ''request::manage'' [LStr ''new'', LTable 0] w
      in if client_type (cl w c) = X11
         then enqueue (QSignal (LUser c) SIG_REQUEST_ACTIVATE [LStr ''xwayland_map'', LTable 0])
                (call_env env (Native ''xwayland_surface_activate'' [LUser c, LBool True]) w)
         else w)"

definition map_toplevel :: "window_lib \<Rightarrow> env \<Rightarrow> nat \<Rightarrow> world \<Rightarrow> world option" where
  "map_toplevel X env c w =
     (let w = window_properties env c w;
          w = (if client_type (cl w c) = XDGShell
               then upd_client c (\<lambda>x. x\<lparr>c_type := (if client_is_float_type (tp w c) then 7 else 0)\<rparr>) w else w)
      in do {
        w \<leftarrow> place_toplevel X env c w;
        let w = announce_toplevel env c w;
        let w = call_env env (Native ''emit_signal_global'' [LStr ''refresh'']) w;
        Some (send_first_configure env c w)
      })"

text \<open>The keyboard goes to a window that got the focus before its surface was mapped.\<close>

definition map_keyboard :: "env \<Rightarrow> nat \<Rightarrow> world \<Rightarrow> world" where
  "map_keyboard env c w =
     (case client_surface (cl w c) of
        None \<Rightarrow> w
      | Some s \<Rightarrow>
          if focus_client w = Some c
             \<and> (if client_type (cl w c) = X11 then has_scene (cl w c) else sf_mapped (surf w s))
             \<and> seat_focus w \<noteq> Some s
          then
            (let w = (if client_type (cl w c) = X11 then call_env env (Native ''xwayland_set_seat'' []) w else w)
             in call_env env (Native ''seat_keyboard_notify_enter'' [LUser s]) w)
          else w)"

definition unset_fullscreen :: "window_lib \<Rightarrow> env \<Rightarrow> nat \<Rightarrow> nat option \<Rightarrow> world \<Rightarrow> world option" where
  "unset_fullscreen X env c p w =
     (let m = (if c_mon (cl w c) \<noteq> None then c_mon (cl w c)
               else lib_output_at X (ax (geometry (cl w c))) (ay (geometry (cl w c))) w)
      in foreach_opt (lib_fuel X) 0 clients
           (\<lambda>d w. if d \<noteq> c \<and> Some d \<noteq> p \<and> fullscreen (cl w d) \<and> m = c_mon (cl w d) \<and> clients_share_tags d c w
                  then setfullscreen X env d False w else Some w) w)"

text \<open>The window gets the pointer when the cursor is over its content.\<close>

definition map_pointer :: "window_lib \<Rightarrow> env \<Rightarrow> nat \<Rightarrow> world \<Rightarrow> world" where
  "map_pointer X env c w =
     (let x = cl w c; g = geometry x;
          tb = (\<lambda>bar. if fullscreen x then 0 else tb_size x bar);
          bw = client_border x;
          x0 = ax g + bw + tb BAR_LEFT; y0 = ay g + bw + tb BAR_TOP;
          x1 = ax g + bw + aw g - tb BAR_RIGHT; y1 = ay g + bw + ah g - tb BAR_BOTTOM;
          (cx, cy) = lib_cursor X w
      in if surface_mapped c w \<and> cx \<ge> of_int x0 \<and> cx < of_int x1 \<and> cy \<ge> of_int y0 \<and> cy < of_int y1
         then call_env env (Native ''pointerfocus'' [LUser c]) w else w)"

text \<open>
  The rest of mapnotify, after a managed window was placed or at once for an unmanaged one; p is
  the parent.
\<close>

definition map_finish :: "window_lib \<Rightarrow> env \<Rightarrow> nat \<Rightarrow> nat option \<Rightarrow> world \<Rightarrow> world option" where
  "map_finish X env c p w = do {
     w \<leftarrow> unset_fullscreen X env c p w;
     let w = enqueue (QGlobal SIG_CLIENT_MAP) w;
     let w = call_env env (Native ''declare_mark_all_dirty'' []) w;
     Some (map_pointer X env c w)
   }"

definition map_unmanaged :: "window_lib \<Rightarrow> env \<Rightarrow> nat \<Rightarrow> world \<Rightarrow> world option" where
  "map_unmanaged X env c w =
     (let w = snd (client_set_size env c (aw (geometry (cl w c))) (ah (geometry (cl w c))) w)
      in if client_wants_focus (cl w c)
         then map_option (\<lambda>w. w\<lparr>exclusive_focus := Some c\<rparr>)
                (focusclient (lib_fuel X) env (lib_focuscolor X) (lib_bordercolor X) (Some c) True w)
         else Some w)"

definition mapnotify :: "window_lib \<Rightarrow> env \<Rightarrow> nat \<Rightarrow> world \<Rightarrow> world option" where
  "mapnotify X env c w =
     (let w = upd_client c (\<lambda>x. x\<lparr>has_scene := True\<rparr>) w
      in if \<not> lib_scene_made X c w then Some (client_scene_node_destroy env c w)
         else
           (let w = call_env env (Native ''client_set_node_data'' [LUser c]) w;
                w = upd_client c (\<lambda>x. x\<lparr>geometry := tp_geometry (tp w c)\<rparr>) w;
                w = (if client_type (cl w c) = X11 \<and> window (cl w c) = 0
                     then (upd_client c (\<lambda>x. x\<lparr>window := tp_window (tp w c)\<rparr>) w)\<lparr>clients := c # clients w\<rparr>
                     else w);
                w = stack_client_push c w;
                w = enqueue (QClass CLIENT_CLASS SIG_LIST) w
            in if client_is_unmanaged (cl w c)
               then Option.bind (map_unmanaged X env c w) (map_finish X env c None)
               else
                 (let w = map_toplevel_handle env c w;
                      p = tp_parent (tp w c)
                  in do {
                    w \<leftarrow> (case p of Some p \<Rightarrow> map_transient X env c p w | None \<Rightarrow> map_toplevel X env c w);
                    map_finish X env c p (map_keyboard env c w)
                  })))"


subsection \<open>Commits, unmapping and destruction\<close>

definition committed_size :: "window_lib \<Rightarrow> toplevel_state \<Rightarrow> int \<times> int" where
  "committed_size X t =
     (let drawn = (if lib_box_empty X (tp_geometry t) then tp_drawn t else (aw (tp_geometry t), ah (tp_geometry t)));
          same = (tp_width t = 0 \<or> tp_height t = 0 \<or> drawn = (tp_width t, tp_height t))
      in if same then (0, 0) else drawn)"

text \<open>
  commitnotify. None is a null pointer that is followed: the client has lost its surface, before
  the commit or in a handler of property::_committed_size.
\<close>

definition commitnotify :: "window_lib \<Rightarrow> env \<Rightarrow> nat \<Rightarrow> world \<Rightarrow> world option" where
  "commitnotify X env c w =
     (if \<not> has_surface (cl w c) then None
      else if tp_initial_commit (tp w c) then Some w
      else
        (let (wd, ht) = committed_size X (tp w c);
             w = (if wd \<noteq> committed_width (cl w c) \<or> ht \<noteq> committed_height (cl w c)
                  then
                    (let w = upd_client c (\<lambda>x. x\<lparr>committed_width := wd, committed_height := ht, configure_retries := 0\<rparr>) w;
                         w = emit env c ''property::_committed_size'' [] w;
                         w = mark_output env (c_mon (cl w c)) w
                     in call_env env (Native ''client_apply_corners'' [LUser c]) w)
                  else w)
         in if \<not> has_surface (cl w c) then None
            else
              (let w = (if resize_serial (cl w c) \<noteq> 0 \<and> resize_serial (cl w c) \<le> tp_serial (tp w c)
                        then mark_output env (c_mon (cl w c)) (upd_client c (\<lambda>x. x\<lparr>resize_serial := 0\<rparr>) w) else w);
                   floating = lib_floating X c w;
                   w = (if floating \<or> fullscreen (cl w c)
                        then resize X env c (geometry (cl w c)) (floating \<and> \<not> fullscreen (cl w c)) w
                        else client_configure_to_box env c w);
                   w = configure_retry_arm X env c w
               in Some (if tp_limits (tp w c) \<noteq> xdg_bounds (cl w c)
                        then emit env c ''property::size_hints'' [] (upd_client c (\<lambda>x. x\<lparr>xdg_bounds := tp_limits (tp w c)\<rparr>) w)
                        else w))))"

definition unmap_unmanaged :: "window_lib \<Rightarrow> env \<Rightarrow> nat \<Rightarrow> world \<Rightarrow> world option" where
  "unmap_unmanaged X env c w =
     (let w = (if focus_client w = Some c then w\<lparr>focus_client := None, focus_need_update := True\<rparr> else w)
      in if exclusive_focus w = Some c
         then focus_restore (lib_fuel X) env (lib_focuscolor X) (lib_bordercolor X) True
                (if c_mon (cl w c) \<noteq> None then c_mon (cl w c) else selmon w) (w\<lparr>exclusive_focus := None\<rparr>)
         else Some w)"

definition unmapnotify :: "window_lib \<Rightarrow> env \<Rightarrow> nat \<Rightarrow> world \<Rightarrow> world option" where
  "unmapnotify X env c w =
     (if \<not> has_scene (cl w c) then Some w
      else
        (let w = enqueue (QGlobal SIG_CLIENT_UNMAP) w;
             w = (if toplevel_handle (cl w c)
                  then upd_client c (\<lambda>x. x\<lparr>toplevel_handle := False\<rparr>)
                         (call_env env (Native ''foreign_toplevel_handle_destroy'' [LUser c]) w)
                  else w);
             w = (if focus_client w = Some c \<and> seat_focus w = client_surface (cl w c) then seat_clear_focus env w else w)
         in map_option (\<lambda>w. call_env env (Native ''motionnotify'' []) (client_scene_node_destroy env c w))
              (if client_is_unmanaged (cl w c) then unmap_unmanaged X env c w
               else client_unmanage (lib_fuel X) env c CLIENT_UNMANAGE_UNMAP w)))"

text \<open>destroynotify; the Lua state is there, as at all times but the end of the program.\<close>

definition destroynotify :: "window_lib \<Rightarrow> env \<Rightarrow> nat \<Rightarrow> world \<Rightarrow> world option" where
  "destroynotify X env c w =
     (let w = upd_client c (\<lambda>x. x\<lparr>retry_source := False\<rparr>) w
      in map_option (client_remove_all_listeners env c)
           (if c \<notin> set (clients w) then Some (luaA_object_registry_unref c w)
            else client_unmanage (lib_fuel X) env c CLIENT_UNMANAGE_DESTROYED w))"

definition luaA_client_unmanage :: "window_lib \<Rightarrow> env \<Rightarrow> nat \<Rightarrow> world \<Rightarrow> world option" where
  "luaA_client_unmanage X env c w = client_unmanage (lib_fuel X) env c CLIENT_UNMANAGE_USER w"

subsection \<open>Requests of the window\<close>

text \<open>None is a null pointer that is followed, or as for setfullscreen.\<close>

definition fullscreennotify :: "window_lib \<Rightarrow> env \<Rightarrow> nat \<Rightarrow> world \<Rightarrow> world option" where
  "fullscreennotify X env c w =
     (if client_type (cl w c) = X11 \<and> window (cl w c) = 0 then Some w
      else if \<not> has_surface (cl w c) then None
      else setfullscreen X env c (if client_is_x11 (cl w c) then tp_fullscreen (tp w c) else tp_wants_fullscreen (tp w c)) w)"

definition maximizenotify :: "env \<Rightarrow> nat \<Rightarrow> world \<Rightarrow> world option" where
  "maximizenotify env c w =
     (if \<not> has_surface (cl w c) then Some w
      else
        (let before = maximized (cl w c);
             w = (if \<not> fullscreen (cl w c) then client_set_maximized env c (tp_wants_maximized (tp w c)) w else w)
         in if \<not> has_surface (cl w c) then None
            else if tp_initialized (tp w c) \<and> before = maximized (cl w c)
            then Some (call_env env (Native ''xdg_surface_schedule_configure'' [LUser c]) w) else Some w))"

definition minimizenotify :: "env \<Rightarrow> nat \<Rightarrow> world \<Rightarrow> world" where
  "minimizenotify env c w =
     (if \<not> has_surface (cl w c) \<or> \<not> tp_initialized (tp w c) then w else client_set_minimized env c True w)"

definition updatetitle :: "env \<Rightarrow> nat \<Rightarrow> world \<Rightarrow> world" where
  "updatetitle env c w =
     (if client_type (cl w c) = X11 \<and> window (cl w c) = 0 then w
      else
        (let w = (if client_type (cl w c) = XDGShell then property_handle_toplevel_title env c w
                  else client_set_name env c (tp_title (tp w c)) w)
         in if toplevel_handle (cl w c) then call_env env (Native ''foreign_toplevel_set_title'' [LUser c]) w else w))"

text \<open>protocols.c: the requests of taskbars.\<close>

definition foreign_toplevel_request_activate :: "nat \<Rightarrow> world \<Rightarrow> world" where
  "foreign_toplevel_request_activate c =
     enqueue (QSignal (LUser c) SIG_REQUEST_ACTIVATE [LStr ''foreign_toplevel'', LTable 0])"

definition client_send_close :: "env \<Rightarrow> nat \<Rightarrow> world \<Rightarrow> world" where
  "client_send_close env c w =
     call_env env (Native (if client_is_x11 (cl w c) then ''xwayland_surface_close'' else ''xdg_toplevel_send_close'') [LUser c]) w"

definition foreign_toplevel_request_close :: "env \<Rightarrow> nat \<Rightarrow> world \<Rightarrow> world" where
  "foreign_toplevel_request_close env c w = client_send_close env c w"

definition foreign_toplevel_request_fullscreen :: "window_lib \<Rightarrow> env \<Rightarrow> nat \<Rightarrow> bool \<Rightarrow> world \<Rightarrow> world option" where
  "foreign_toplevel_request_fullscreen X env c b w = setfullscreen X env c b w"

definition foreign_toplevel_request_maximize :: "env \<Rightarrow> nat \<Rightarrow> bool \<Rightarrow> world \<Rightarrow> world" where
  "foreign_toplevel_request_maximize env c b w = client_set_maximized env c b w"

definition foreign_toplevel_request_minimize :: "env \<Rightarrow> nat \<Rightarrow> bool \<Rightarrow> world \<Rightarrow> world" where
  "foreign_toplevel_request_minimize env c b w = client_set_minimized env c b w"


subsection \<open>What full screen restores\<close>

text \<open>The windows, monitors, surfaces and the stack; an environment that keeps them runs no handler that moves a window.\<close>

definition still :: "world \<Rightarrow> (nat \<Rightarrow> client) \<times> (nat \<Rightarrow> monitor) \<times> (nat \<Rightarrow> wlr_surface) \<times> nat list" where
  "still w = (cl w, mo w, surf w, stack w)"

lemma still_call:
  assumes "keeps env still"
  shows "cl (call_env env k w) = cl w" "mo (call_env env k w) = mo w" "surf (call_env env k w) = surf w"
    "stack (call_env env k w) = stack w"
  using assms by (simp_all add: keeps_def still_def call_env_def)

lemma still_upd: "still (upd_client c f w) = ((cl w)(c := f (cl w c)), mo w, surf w, stack w)"
  by (simp add: still_def)

lemma signals_sel [simp]:
  "cl (queue_geometry_signals c old new w) = cl w" "mo (queue_geometry_signals c old new w) = mo w"
  "surf (queue_geometry_signals c old new w) = surf w" "stack (queue_geometry_signals c old new w) = stack w"
  by (simp_all add: queue_geometry_signals_def Let_def)

lemma surface_mapped_cong: "surface (cl v c) = surface (cl w c) \<Longrightarrow> surf v = surf w \<Longrightarrow> surface_mapped c v = surface_mapped c w"
  by (simp add: surface_mapped_def client_surface_def cong: option.case_cong)

lemma still_mark: "keeps env still \<Longrightarrow> still (mark_output env m w) = still w"
  by (auto simp: mark_output_def still_def still_call split: option.splits)

lemma still_arrange: "keeps env still \<Longrightarrow> still (some_monitor_arrange env m w) = still w"
  by (auto simp: some_monitor_arrange_def still_def still_call split: option.splits)

lemma still_internal: "keeps env still \<Longrightarrow> still (client_set_fullscreen_internal env c b w) = still w"
  by (simp add: client_set_fullscreen_internal_def still_def still_call)

lemma still_set_bounds:
  assumes "keeps env still"
  shows "\<exists>b. still (client_set_bounds env c wd ht w) = still (upd_client c (\<lambda>x. x\<lparr>c_bounds := b\<rparr>) w)"
proof -
  have same: "still (upd_client c (\<lambda>x. x\<lparr>c_bounds := c_bounds (cl w c)\<rparr>) w) = still w" by (simp add: still_def)
  show ?thesis
  proof (cases "\<not> client_is_x11 (cl w c) \<and> tp_version (tp w c) \<ge> 4 \<and> wd \<ge> 0 \<and> ht \<ge> 0 \<and> c_bounds (cl w c) \<noteq> (wd, ht)")
    case True
    then show ?thesis using assms by (intro exI [of _ "(wd, ht)"]) (simp add: client_set_bounds_def still_def still_call)
  next
    case False
    then have "client_set_bounds env c wd ht w = w" by (auto simp: client_set_bounds_def)
    then show ?thesis using same by metis
  qed
qed

text \<open>The geometry a window ends up with when it is resized to g within b.\<close>

definition resized :: "rounding \<Rightarrow> client \<Rightarrow> area \<Rightarrow> area \<Rightarrow> area" where
  "resized rnd x g b =
     (let x = x\<lparr>geometry := g\<rparr>; x = x\<lparr>geometry := applybounds x b\<rparr> in aspect_ratio_fix rnd x (geometry x))"

lemma applybounds_fields: "geometry x = geometry y \<Longrightarrow> tb_size x = tb_size y \<Longrightarrow> applybounds x b = applybounds y b"
proof -
  assume a: "geometry x = geometry y" "tb_size x = tb_size y"
  show ?thesis unfolding applybounds_def a by (rule refl)
qed

lemma aspect_ratio_fix_fields:
  "fullscreen x = fullscreen y \<Longrightarrow> maximized x = maximized y \<Longrightarrow> aspect_ratio x = aspect_ratio y
   \<Longrightarrow> aspect_ratio_fix rnd x g = aspect_ratio_fix rnd y g"
proof -
  assume a: "fullscreen x = fullscreen y" "maximized x = maximized y" "aspect_ratio x = aspect_ratio y"
  show ?thesis unfolding aspect_ratio_fix_def a by (rule refl)
qed

lemma resized_fields:
  "fullscreen x = fullscreen y \<Longrightarrow> maximized x = maximized y \<Longrightarrow> aspect_ratio x = aspect_ratio y \<Longrightarrow> tb_size x = tb_size y
   \<Longrightarrow> resized rnd x g b = resized rnd y g b"
proof -
  assume a: "fullscreen x = fullscreen y" "maximized x = maximized y" "aspect_ratio x = aspect_ratio y" "tb_size x = tb_size y"
  have "applybounds (x\<lparr>geometry := g\<rparr>) b = applybounds (y\<lparr>geometry := g\<rparr>) b" by (rule applybounds_fields) (simp_all add: a)
  moreover have "aspect_ratio_fix rnd (x\<lparr>geometry := p\<rparr>) k = aspect_ratio_fix rnd (y\<lparr>geometry := p\<rparr>) k" for p k
    by (rule aspect_ratio_fix_fields) (simp_all add: a)
  ultimately show ?thesis by (simp add: resized_def Let_def)
qed

lemma resize_still:
  assumes "keeps env still" and "c_mon (cl w c) = Some m" and "surface_mapped c w"
  shows "\<exists>b. still (resize X env c g False w) =
    still (upd_client c (\<lambda>x. x\<lparr>c_bounds := b, geometry := resized (lib_rnd X) (cl w c) g (m_workarea (mo w m))\<rparr>) w)"
proof -
  let ?w1 = "client_set_bounds env c (aw (m_workarea (mo w m))) (ah (m_workarea (mo w m))) w"
  obtain b where b: "still ?w1 = still (upd_client c (\<lambda>x. x\<lparr>c_bounds := b\<rparr>) w)"
    using still_set_bounds [OF assms(1)] by metis
  then have f: "cl ?w1 = (cl w)(c := (cl w c)\<lparr>c_bounds := b\<rparr>)" "mo ?w1 = mo w" "surf ?w1 = surf w" "stack ?w1 = stack w"
    by (simp_all add: still_def)
  have "resized (lib_rnd X) ((cl w c)\<lparr>c_bounds := b\<rparr>) g (m_workarea (mo w m)) = resized (lib_rnd X) (cl w c) g (m_workarea (mo w m))"
    by (rule resized_fields) simp_all
  moreover have mark: "cl (mark_output env k v) = cl v" "mo (mark_output env k v) = mo v" "surf (mark_output env k v) = surf v"
    "stack (mark_output env k v) = stack v" for k v
    using still_mark [OF assms(1), of k v] by (simp_all add: still_def)
  ultimately have "still (resize X env c g False w) =
    still (upd_client c (\<lambda>x. x\<lparr>c_bounds := b, geometry := resized (lib_rnd X) (cl w c) g (m_workarea (mo w m))\<rparr>) w)"
    unfolding resize_def assms(2) option.case
    using assms(3) by (simp add: Let_def still_def f still_call [OF assms(1)] mark resized_def)
  then show ?thesis by blast
qed


lemma still_stack_refresh:
  assumes "keeps env still" and "distinct (stack w)"
  shows "\<exists>w'. stack_refresh env w = Some w' \<and> cl w' = cl w \<and> mo w' = mo w \<and> surf w' = surf w \<and>
    distinct (stack w') \<and> set (stack w') = set (stack w)"
proof (cases "need_stack_refresh w")
  case True
  note arr = stack_refresh_arranges [OF assms(2) True, of env]
  have "mset (arranged w) = mset (stack w)" by (rule stack_forest.arrange_mset [OF assms(2)])
  then have "distinct (arranged w) \<and> set (arranged w) = set (stack w)"
    using assms(2) mset_eq_imp_distinct_iff mset_eq_setD by blast
  then show ?thesis unfolding arr by (simp add: still_call [OF assms(1)])
next
  case False
  then show ?thesis using assms(2) by (simp add: stack_refresh_def)
qed

definition unmaximized :: "bool \<Rightarrow> client \<Rightarrow> client" where
  "unmaximized b x = (if b then x\<lparr>maximized := False, maximized_horizontal := False, maximized_vertical := False\<rparr> else x)"

lemma unmaximized_same: "\<not> (maximized x \<or> maximized_horizontal x \<or> maximized_vertical x) \<Longrightarrow> unmaximized b x = x"
  by (simp add: unmaximized_def)

lemma unmaximized_sel [simp]:
  "geometry (unmaximized b x) = geometry x" "prev_geometry (unmaximized b x) = prev_geometry x" "fullscreen (unmaximized b x) = fullscreen x"
  "c_mon (unmaximized b x) = c_mon x" "surface (unmaximized b x) = surface x" "aspect_ratio (unmaximized b x) = aspect_ratio x"
  "tb_size (unmaximized b x) = tb_size x"
  by (simp_all add: unmaximized_def)

text \<open>The window as setfullscreen leaves it, up to the bounds it was told.\<close>

definition fullscreen_set :: "bool \<Rightarrow> client \<Rightarrow> client" where
  "fullscreen_set b x =
     (let y = unmaximized b (x\<lparr>fullscreen := b\<rparr>)
      in if b \<and> \<not> fullscreen x then y\<lparr>prev_geometry := geometry x\<rparr> else y)"

definition fullscreen_target :: "world \<Rightarrow> nat \<Rightarrow> bool \<Rightarrow> client \<Rightarrow> area" where
  "fullscreen_target w m b x = (if b then m_box (mo w m) else prev_geometry x)"

lemma setfullscreen_still:
  assumes env: "keeps env still" and "distinct (stack w)" and mon: "c_mon (cl w c) = Some m" and mapped: "surface_mapped c w"
  shows "\<exists>w' k. setfullscreen X env c b w = Some w' \<and> mo w' = mo w \<and> surf w' = surf w \<and> distinct (stack w') \<and>
    cl w' = (cl w)(c := (fullscreen_set b (cl w c))\<lparr>c_bounds := k, geometry :=
      (if b \<or> fullscreen (cl w c)
       then resized (lib_rnd X) (fullscreen_set b (cl w c)) (fullscreen_target w m b (cl w c)) (m_workarea (mo w m))
       else geometry (cl w c))\<rparr>)"
proof -
  let ?x = "cl w c" and ?was = "fullscreen (cl w c)"
  note call = still_call [OF env]
  define w1 where "w1 = upd_client c (\<lambda>x. x\<lparr>fullscreen := b\<rparr>) w"
  define w2 where "w2 = (if b \<and> (maximized (cl w1 c) \<or> maximized_horizontal (cl w1 c) \<or> maximized_vertical (cl w1 c))
      then (let v = upd_client c (\<lambda>x. x\<lparr>maximized := False, maximized_horizontal := False, maximized_vertical := False\<rparr>) w1
            in if client_type (cl v c) = XDGShell
               then call_env env (Native ''xdg_toplevel_set_maximized'' [LUser c, LBool False]) v else v) else w1)"
  have s2: "cl w2 = (cl w)(c := unmaximized b (?x\<lparr>fullscreen := b\<rparr>))" "mo w2 = mo w" "surf w2 = surf w" "stack w2 = stack w"
    by (auto simp: w2_def w1_def Let_def call unmaximized_def)
  define w3 where "w3 = (if ?was \<noteq> b then client_set_fullscreen_internal env c b w2 else w2)"
  have s3: "cl w3 = (cl w)(c := unmaximized b (?x\<lparr>fullscreen := b\<rparr>))" "mo w3 = mo w" "surf w3 = surf w" "stack w3 = stack w"
    using still_internal [OF env, of c b w2] s2 by (simp_all add: w3_def still_def)
  define w4 where "w4 = (if b \<and> \<not> ?was then upd_client c (\<lambda>x. x\<lparr>prev_geometry := geometry x\<rparr>) w3 else w3)"
  have s4: "cl w4 = (cl w)(c := fullscreen_set b ?x)" "mo w4 = mo w" "surf w4 = surf w" "stack w4 = stack w"
    by (auto simp: w4_def s3 fullscreen_set_def Let_def)
  have m4: "c_mon (cl w4 c) = Some m" "surface_mapped c w4" "prev_geometry (cl w4 c) = (if b \<and> \<not> ?was then geometry ?x else prev_geometry ?x)"
    using mon mapped surface_mapped_cong [of w4 c w] by (simp_all add: s4 fullscreen_set_def Let_def)
  define w5 where "w5 = (if b \<or> ?was then resize X env c (fullscreen_target w m b ?x) False w4 else w4)"
  obtain k where s5: "cl w5 = (cl w)(c := (fullscreen_set b ?x)\<lparr>c_bounds := k, geometry := (if b \<or> ?was
       then resized (lib_rnd X) (fullscreen_set b ?x) (fullscreen_target w m b ?x) (m_workarea (mo w m)) else geometry ?x)\<rparr>)"
    "mo w5 = mo w" "surf w5 = surf w" "stack w5 = stack w"
  proof (cases "b \<or> ?was")
    case True
    then have w5: "w5 = resize X env c (fullscreen_target w m b ?x) False w4" by (simp add: w5_def)
    obtain k where "still w5 = still (upd_client c (\<lambda>x. x\<lparr>c_bounds := k, geometry :=
        resized (lib_rnd X) (cl w4 c) (fullscreen_target w m b ?x) (m_workarea (mo w4 m))\<rparr>) w4)"
      unfolding w5 using resize_still [OF env m4(1,2)] by blast
    then show ?thesis using that [of k] True by (simp add: still_def s4)
  next
    case False
    then have "w5 = w4" "geometry (fullscreen_set b ?x) = geometry ?x" by (simp_all add: w5_def fullscreen_set_def Let_def)
    moreover from this have eq: "(fullscreen_set b ?x)\<lparr>c_bounds := c_bounds (fullscreen_set b ?x), geometry := geometry ?x\<rparr> = fullscreen_set b ?x"
      by (intro client.equality) simp_all
    moreover have "cl w5 = (cl w)(c := (fullscreen_set b ?x)\<lparr>c_bounds := c_bounds (fullscreen_set b ?x), geometry := geometry ?x\<rparr>)"
      unfolding eq \<open>w5 = w4\<close> by (rule s4(1))
    ultimately show ?thesis using that [of "c_bounds (fullscreen_set b ?x)"] False s4(2-4) by (simp only: if_False)
  qed
  define w6 where "w6 = some_monitor_arrange env (c_mon (cl w5 c)) (emit env c ''property::fullscreen'' [] w5)"
  have s6: "cl w6 = cl w5" "mo w6 = mo w5" "surf w6 = surf w5" "stack w6 = stack w5"
    using still_arrange [OF env, of "c_mon (cl w5 c)" "emit env c ''property::fullscreen'' [] w5"] by (simp_all add: w6_def still_def call)
  have "c_mon (cl w1 c) = Some m" "surface_mapped c w1"
    using mon mapped surface_mapped_cong [of w1 c w] by (simp_all add: w1_def)
  moreover have "w5 = (if b then let v = (if \<not> ?was then upd_client c (\<lambda>x. x\<lparr>prev_geometry := geometry x\<rparr>) w3 else w3)
           in resize X env c (m_box (mo v (the (c_mon (cl v c))))) False v
      else if ?was then resize X env c (prev_geometry (cl w3 c)) False w3 else w3)"
    using m4 mon by (auto simp: w5_def w4_def fullscreen_target_def s3 Let_def)
  ultimately have "setfullscreen X env c b w = stack_refresh env w6"
    unfolding setfullscreen_def w6_def by (simp add: Let_def w3_def w2_def flip: w1_def) (simp add: call)
  moreover have "distinct (stack w6)" using assms(2) by (simp add: s6 s5)
  ultimately obtain w' where w': "setfullscreen X env c b w = Some w'" "cl w' = cl w5" "mo w' = mo w" "surf w' = surf w" "distinct (stack w')"
    using still_stack_refresh [OF env, of w6] s5(2,3) s6 by auto
  show ?thesis by (intro exI [of _ w'] exI [of _ k] conjI w'(1,3-5)) (rule w'(2) [unfolded s5(1)])
qed

definition lies_in :: "client \<Rightarrow> area \<Rightarrow> area \<Rightarrow> bool" where
  "lies_in x g b \<longleftrightarrow> aw g \<ge> 1 + tb_size x BAR_LEFT + tb_size x BAR_RIGHT \<and> ah g \<ge> 1 + tb_size x BAR_TOP + tb_size x BAR_BOTTOM \<and>
     ax g < ax b + aw b \<and> ax b < ax g + aw g \<and> ay g < ay b + ah b \<and> ay b < ay g + ah g"

lemma applybounds_lies: "lies_in x (geometry x) b \<Longrightarrow> applybounds x b = geometry x"
  by (simp add: applybounds_def lies_in_def Let_def max_absorb2)

lemma resized_lies:
  assumes "lies_in x g b" and "aspect_ratio x \<le> 0 \<or> fullscreen x"
  shows "resized rnd x g b = g"
proof -
  have "lies_in (x\<lparr>geometry := g\<rparr>) g b" using assms(1) by (simp add: lies_in_def)
  then show ?thesis using assms(2) applybounds_lies [of "x\<lparr>geometry := g\<rparr>" b] by (auto simp: resized_def aspect_ratio_fix_def)
qed

text \<open>
  C23: Full screen and back: a mapped window whose geometry meets the workarea of its monitor and
  has room for its titlebars gets exactly the box of the monitor when it becomes fullscreen, and
  its old geometry when it stops, whatever it asks for first; both calls return. Handlers are
  assumed to move no window.
\<close>
theorem fullscreen_roundtrip:
  assumes "keeps env still" and "distinct (stack w)" and "c_mon (cl w c) = Some m" and "surface_mapped c w"
    and "\<not> fullscreen (cl w c)" and "aspect_ratio (cl w c) \<le> 0"
    and "lies_in (cl w c) (geometry (cl w c)) (m_workarea (mo w m))"
    and "lies_in (cl w c) (m_box (mo w m)) (m_workarea (mo w m))"
  shows "\<exists>w1 w2. setfullscreen X env c True w = Some w1 \<and> setfullscreen X env c False w1 = Some w2 \<and>
    fullscreen (cl w1 c) \<and> geometry (cl w1 c) = m_box (mo w m) \<and>
    \<not> fullscreen (cl w2 c) \<and> geometry (cl w2 c) = geometry (cl w c)"
proof -
  let ?x = "cl w c"
  obtain w1 k where w1: "setfullscreen X env c True w = Some w1" "mo w1 = mo w" "surf w1 = surf w" "distinct (stack w1)"
    "cl w1 c = (fullscreen_set True ?x)\<lparr>c_bounds := k, geometry := resized (lib_rnd X) (fullscreen_set True ?x)
       (m_box (mo w m)) (m_workarea (mo w m))\<rparr>"
    using setfullscreen_still [OF assms(1-4), of X True] by (auto simp: fullscreen_target_def)
  have big: "geometry (cl w1 c) = m_box (mo w m)"
    using resized_lies [of "fullscreen_set True ?x" "m_box (mo w m)"] assms(8)
    by (simp add: w1(5) lies_in_def fullscreen_set_def Let_def)
  have x1: "c_mon (cl w1 c) = Some m" "fullscreen (cl w1 c)" "prev_geometry (cl w1 c) = geometry ?x" "tb_size (cl w1 c) = tb_size ?x"
    "aspect_ratio (cl w1 c) = aspect_ratio ?x" "surface (cl w1 c) = surface ?x"
    using assms(3,5) by (simp_all add: w1(5) fullscreen_set_def Let_def)
  have "surface_mapped c w1" using assms(4) surface_mapped_cong [OF x1(6) w1(3)] by simp
  from setfullscreen_still [OF assms(1) w1(4) x1(1) this, of X False] obtain w2 k2
    where w2: "setfullscreen X env c False w1 = Some w2"
      "cl w2 c = (fullscreen_set False (cl w1 c))\<lparr>c_bounds := k2, geometry := resized (lib_rnd X)
         (fullscreen_set False (cl w1 c)) (geometry ?x) (m_workarea (mo w m))\<rparr>"
    using x1(2,3) w1(2) by (auto simp: fullscreen_target_def)
  have "geometry (cl w2 c) = geometry ?x"
    using resized_lies [of "fullscreen_set False (cl w1 c)" "geometry ?x"] assms(6,7) x1
    by (simp add: w2(2) lies_in_def fullscreen_set_def Let_def)
  then show ?thesis using w1(1) w2 big x1(2) by (auto simp: fullscreen_set_def Let_def)
qed


definition window_lib0 :: window_lib where
  "window_lib0 = \<lparr>lib_box_empty = (\<lambda>b. aw b \<le> 0 \<or> ah b \<le> 0), lib_output_at = (\<lambda>_ _ _. Some 7), lib_floating = (\<lambda>_ _. True),
     lib_now = (\<lambda>_. 0), lib_rnd = (\<lambda>q. q), lib_scene_made = (\<lambda>_ _. True), lib_cursor = (\<lambda>_. (0, 0)),
     lib_focuscolor = [], lib_bordercolor = [], lib_fuel = 10\<rparr>"

text \<open>A window 5 with surface 8, mapped on monitor 7.\<close>

definition window_demo :: world where
  "window_demo = world0\<lparr>
     cl := (\<lambda>_. client0)(5 := client0\<lparr>has_surface := True, has_scene := True, surface := Some 8, c_mon := Some 7,
              geometry := box 10 40 300 200\<rparr>),
     mo := (\<lambda>_. monitor0)(7 := monitor0\<lparr>m_box := box 0 0 1920 1080, m_workarea := box 0 30 1920 1050, m_enabled := True\<rparr>),
     surf := (\<lambda>s. \<lparr>root_surface = s, sf_role = Xdg_toplevel 5, sf_mapped = True, sf_constraint = None\<rparr>),
     clients := [5], stack := [5], mons := [7]\<rparr>"

lemma window_demo_sel:
  "c_mon (cl window_demo 5) = Some 7" "surface_mapped 5 window_demo" "\<not> fullscreen (cl window_demo 5)"
  "geometry (cl window_demo 5) = box 10 40 300 200" "aspect_ratio (cl window_demo 5) = 0" "tb_size (cl window_demo 5) = (\<lambda>_. 0)"
  "m_box (mo window_demo 7) = box 0 0 1920 1080" "m_workarea (mo window_demo 7) = box 0 30 1920 1050" "distinct (stack window_demo)"
  by (simp_all add: window_demo_def world0_def client0_def monitor0_def surface_mapped_def client_surface_def)

lemma fullscreen_roundtrip_witness:
  "\<exists>w1 w2. setfullscreen window_lib0 idle 5 True window_demo = Some w1 \<and> geometry (cl w1 5) = box 0 0 1920 1080 \<and>
    setfullscreen window_lib0 idle 5 False w1 = Some w2 \<and> geometry (cl w2 5) = box 10 40 300 200"
  using fullscreen_roundtrip [of idle window_demo 5 7 window_lib0] by (auto simp: window_demo_sel lies_in_def box_def)


subsection \<open>Full screen asked for too early, and over the layer flags\<close>

lemma still_need_update: "still (banning_need_update env w) = still w"
proof -
  have "still (settled v) = still v" for v by (simp add: settled_def still_def)
  then show ?thesis using settled_need_update [of env w] by metis
qed

lemma setmon_still:
  assumes env: "keeps env still" and "c_mon (cl w c) = None" and "surface_mapped c w"
  shows "\<exists>v k s. setmon X env c (Some m) w = setfullscreen X env c (fullscreen (cl v c)) v \<and> mo v = mo w \<and> surf v = surf w \<and>
    stack v = stack w \<and> cl v c = (cl w c)\<lparr>c_mon := Some m, c_screen := s, c_bounds := k,
      geometry := resized (lib_rnd X) (cl w c) (geometry (cl w c)) (m_workarea (mo w m))\<rparr>"
proof -
  note call = still_call [OF env]
  define w1 where "w1 = upd_client c (\<lambda>x. x\<lparr>c_screen := luaA_screen_get_by_monitor (Some m) (upd_client c (\<lambda>x. x\<lparr>c_mon := Some m\<rparr>) w)\<rparr>)
    (upd_client c (\<lambda>x. x\<lparr>c_mon := Some m\<rparr>) w)"
  define w2 where "w2 = (if c_screen (cl w1 c) \<noteq> c_screen (cl w c)
    then emit env c ''property::screen'' [obj_of (c_screen (cl w c))] w1 else w1)"
  define w3 where "w3 = (if toplevel_handle (cl w2 c)
    then call_env env (Native ''foreign_toplevel_output_change'' [LUser c, obj_of None, obj_of (Some m)]) w2 else w2)"
  have s3: "cl w3 c = (cl w c)\<lparr>c_mon := Some m, c_screen := c_screen (cl w1 c)\<rparr>" "mo w3 = mo w" "surf w3 = surf w" "stack w3 = stack w"
    by (simp_all add: w3_def w2_def w1_def call)
  define w4 where "w4 = some_monitor_arrange env None w3"
  have w4: "w4 = w3" by (simp add: w4_def some_monitor_arrange_def)
  define w5 where "w5 = resize X env c (geometry (cl w4 c)) False w4"
  have map3: "c_mon (cl w3 c) = Some m" "surface_mapped c w3"
    using assms(3) surface_mapped_cong [of w3 c w] by (simp_all add: s3)
  obtain k where w5: "still w5 = still (upd_client c (\<lambda>x. x\<lparr>c_bounds := k, geometry :=
      resized (lib_rnd X) (cl w3 c) (geometry (cl w3 c)) (m_workarea (mo w3 m))\<rparr>) w3)"
    using resize_still [OF env map3, of X "geometry (cl w3 c)"] by (auto simp: w5_def w4)
  have same: "resized (lib_rnd X) ((cl w c)\<lparr>c_mon := Some m, c_screen := q\<rparr>) g b = resized (lib_rnd X) (cl w c) g b" for q g b
    by (rule resized_fields) simp_all
  define v where "v = banning_need_update env w5"
  have "still v = still w5" unfolding v_def by (rule still_need_update)
  then have sv: "mo v = mo w" "surf v = surf w" "stack v = stack w" "cl v c = (cl w c)\<lparr>c_mon := Some m, c_screen := c_screen (cl w1 c),
      c_bounds := k, geometry := resized (lib_rnd X) (cl w c) (geometry (cl w c)) (m_workarea (mo w m))\<rparr>"
    using w5 by (simp_all add: still_def s3 same)
  have "setmon X env c (Some m) w = setfullscreen X env c (fullscreen (cl v c)) v"
    unfolding setmon_def Let_def assms(2) w1_def [symmetric] w2_def [symmetric] w3_def [symmetric] w4_def [symmetric]
      w5_def [symmetric] v_def [symmetric] by simp
  with sv show ?thesis by blast
qed

text \<open>
  C25: A window that asks for full screen before it is mapped has no geometry to go back to: the
  request sets the flag but saves nothing, and moving it to its monitor when it is mapped counts
  as no change. When it leaves full screen it is restored to the zeroed box, that is, to one pixel
  of content, at the corner of the workarea for a workarea off the origin.
\<close>
theorem early_fullscreen_forgets:
  assumes "keeps env still" and "distinct (stack w)" and "c_mon (cl w c) = None" and "surface_mapped c w"
    and "fullscreen (cl w c)" and "prev_geometry (cl w c) = box 0 0 0 0" and "aspect_ratio (cl w c) \<le> 0"
  shows "\<exists>w1 w2. setmon X env c (Some m) w = Some w1 \<and> fullscreen (cl w1 c) \<and>
    setfullscreen X env c False w1 = Some w2 \<and> \<not> fullscreen (cl w2 c) \<and>
    aw (geometry (cl w2 c)) = max (1 + tb_size (cl w c) BAR_LEFT + tb_size (cl w c) BAR_RIGHT) 0 \<and>
    ah (geometry (cl w2 c)) = max (1 + tb_size (cl w c) BAR_TOP + tb_size (cl w c) BAR_BOTTOM) 0"
proof -
  obtain v k s where v: "setmon X env c (Some m) w = setfullscreen X env c True v" "mo v = mo w" "surf v = surf w" "stack v = stack w"
    "cl v c = (cl w c)\<lparr>c_mon := Some m, c_screen := s, c_bounds := k,
      geometry := resized (lib_rnd X) (cl w c) (geometry (cl w c)) (m_workarea (mo w m))\<rparr>"
    using setmon_still [OF assms(1,3,4), of X m] assms(5) by auto
  have v': "c_mon (cl v c) = Some m" "surface_mapped c v" "distinct (stack v)" "fullscreen (cl v c)"
    using assms(2,4,5) v(5) surface_mapped_cong [of v c w] v(3,4) by simp_all
  obtain w1 k1 where w1: "setfullscreen X env c True v = Some w1" "mo w1 = mo v" "surf w1 = surf v" "distinct (stack w1)"
    "cl w1 c = (fullscreen_set True (cl v c))\<lparr>c_bounds := k1, geometry := resized (lib_rnd X) (fullscreen_set True (cl v c))
       (m_box (mo v m)) (m_workarea (mo v m))\<rparr>"
    using setfullscreen_still [OF assms(1) v'(3,1,2), of X True] by (auto simp: fullscreen_target_def)
  have x1: "c_mon (cl w1 c) = Some m" "fullscreen (cl w1 c)" "prev_geometry (cl w1 c) = box 0 0 0 0" "tb_size (cl w1 c) = tb_size (cl w c)"
    "aspect_ratio (cl w1 c) = aspect_ratio (cl w c)" "surface (cl w1 c) = surface (cl v c)"
    using v'(1,4) assms(6) by (simp_all add: w1(5) fullscreen_set_def Let_def v(5))
  have "surface_mapped c w1" using v'(2) surface_mapped_cong [OF x1(6) w1(3)] by simp
  from setfullscreen_still [OF assms(1) w1(4) x1(1) this, of X False] obtain w2 k2
    where w2: "setfullscreen X env c False w1 = Some w2"
      "cl w2 c = (fullscreen_set False (cl w1 c))\<lparr>c_bounds := k2, geometry := resized (lib_rnd X)
         (fullscreen_set False (cl w1 c)) (box 0 0 0 0) (m_workarea (mo w m))\<rparr>"
    using x1(2,3) w1(2) v(2) by (auto simp: fullscreen_target_def)
  have "geometry (cl w2 c) = applybounds ((fullscreen_set False (cl w1 c))\<lparr>geometry := box 0 0 0 0\<rparr>) (m_workarea (mo w m))"
    using assms(7) x1(5) by (simp add: w2(2) resized_def aspect_ratio_fix_def fullscreen_set_def unmaximized_def)
  moreover have "aw (applybounds x b) = max (1 + tb_size x BAR_LEFT + tb_size x BAR_RIGHT) (aw (geometry x))"
    "ah (applybounds x b) = max (1 + tb_size x BAR_TOP + tb_size x BAR_BOTTOM) (ah (geometry x))" for x b
    by (simp_all add: applybounds_def Let_def)
  ultimately show ?thesis using v(1) w1(1) w2 x1(2,4) by (simp add: fullscreen_set_def unmaximized_def box_def)
qed


definition early_demo :: world where
  "early_demo = window_demo\<lparr>cl := (cl window_demo)(5 := (cl window_demo 5)\<lparr>c_mon := None, fullscreen := True\<rparr>)\<rparr>"

lemma early_fullscreen_forgets_witness:
  "\<exists>w1 w2. setmon window_lib0 idle 5 (Some 7) early_demo = Some w1 \<and> setfullscreen window_lib0 idle 5 False w1 = Some w2 \<and>
    aw (geometry (cl w2 5)) = 1 \<and> ah (geometry (cl w2 5)) = 1"
proof -
  have "c_mon (cl early_demo 5) = None" "surface_mapped 5 early_demo" "fullscreen (cl early_demo 5)" "distinct (stack early_demo)"
    "prev_geometry (cl early_demo 5) = box 0 0 0 0" "aspect_ratio (cl early_demo 5) \<le> 0" "tb_size (cl early_demo 5) = (\<lambda>_. 0)"
    by (simp_all add: early_demo_def window_demo_def world0_def client0_def surface_mapped_def client_surface_def)
  then show ?thesis using early_fullscreen_forgets [of idle early_demo 5 window_lib0 7] by auto
qed

text \<open>The whole life of such a window: created, asking for full screen, mapped, and leaving full screen again.\<close>

definition fullscreen_life :: "world \<Rightarrow> world option" where
  "fullscreen_life w = do {
     let w = createnotify idle 5 8 w;
     let w = w\<lparr>tp := (tp w)(5 := toplevel0\<lparr>tp_wants_fullscreen := True, tp_geometry := box 0 0 640 480\<rparr>)\<rparr>;
     w \<leftarrow> fullscreennotify window_lib0 idle 5 w;
     let w = w\<lparr>surf := \<lambda>s. (surf w s)\<lparr>sf_mapped := True\<rparr>\<rparr>;
     w \<leftarrow> mapnotify window_lib0 idle 5 w;
     let w = w\<lparr>tp := (tp w)(5 := (tp w 5)\<lparr>tp_wants_fullscreen := False\<rparr>)\<rparr>;
     fullscreennotify window_lib0 idle 5 w
   }"

lemma fullscreen_life_pixel:
  "map_option (\<lambda>w. (geometry (cl w 5), clients w, stack w)) (fullscreen_life (window_demo\<lparr>clients := [], stack := []\<rparr>))
     = Some (\<lparr>ax = 0, ay = 30, aw = 1, ah = 1\<rparr>, [5], [5])"
  by code_simp


text \<open>
  A full screen request of the window, unlike c.fullscreen from Lua, leaves the other layer
  flags alone: a window that is above the others ends up both above and fullscreen, which the
  setters of Lua exclude.
\<close>
theorem fullscreen_request_two_layers:
  assumes "keeps env still" and "distinct (stack w)" and "c_mon (cl w c) = Some m" and "surface_mapped c w"
    and "above (cl w c) \<or> below (cl w c) \<or> ontop (cl w c)"
  shows "\<exists>w'. setfullscreen X env c True w = Some w' \<and> \<not> one_layer (cl w' c) \<and>
    (above (cl w' c), below (cl w' c), ontop (cl w' c)) = (above (cl w c), below (cl w c), ontop (cl w c))"
proof -
  obtain w' k where "setfullscreen X env c True w = Some w'"
    "cl w' c = (fullscreen_set True (cl w c))\<lparr>c_bounds := k, geometry := resized (lib_rnd X) (fullscreen_set True (cl w c))
       (m_box (mo w m)) (m_workarea (mo w m))\<rparr>"
    using setfullscreen_still [OF assms(1-4), of X True] by (auto simp: fullscreen_target_def)
  then show ?thesis using assms(5) by (auto simp: fullscreen_set_def unmaximized_def one_layer_def Let_def)
qed

lemma fullscreen_request_two_layers_witness:
  "\<exists>w'. setfullscreen window_lib0 idle 5 True (upd_client 5 (\<lambda>x. x\<lparr>above := True\<rparr>) window_demo) = Some w' \<and> \<not> one_layer (cl w' 5)"
proof -
  let ?w = "upd_client 5 (\<lambda>x. x\<lparr>above := True\<rparr>) window_demo"
  have "c_mon (cl ?w 5) = Some 7" "surface_mapped 5 ?w" "distinct (stack ?w)" "above (cl ?w 5)"
    using window_demo_sel surface_mapped_cong [of ?w 5 window_demo] by simp_all
  then show ?thesis using fullscreen_request_two_layers [of idle ?w 5 7 window_lib0] by auto
qed

subsection \<open>Sizes in flight\<close>

text \<open>The sizes sent to a window, and what the sending looks at.\<close>

definition is_size :: "nat \<Rightarrow> call \<Rightarrow> bool" where
  "is_size c k = (case k of Native n (LUser d # _) \<Rightarrow> n = ''xdg_toplevel_set_size'' \<and> d = c | _ \<Rightarrow> False)"

definition sizes_sent :: "nat \<Rightarrow> world \<Rightarrow> nat" where
  "sizes_sent c w = length (filter (is_size c) (trace w))"

definition flight_view :: "nat \<Rightarrow> world \<Rightarrow> (nat \<Rightarrow> client) \<times> (nat \<Rightarrow> toplevel_state) \<times> nat" where
  "flight_view c w = (cl w, tp w, sizes_sent c w)"

definition flight :: "nat \<Rightarrow> world \<Rightarrow> _" where
  "flight c w = (let x = cl w c in (resize_serial x, configure_retries x, committed_width x, committed_height x, surface_box x,
     has_surface x, tp w c, sizes_sent c w))"

lemma flight_call:
  assumes "keeps env (flight_view c)"
  shows "cl (call_env env k w) = cl w" "tp (call_env env k w) = tp w"
    "sizes_sent c (call_env env k w) = sizes_sent c w + (if is_size c k then 1 else 0)"
proof -
  have "flight_view c (env k v) = flight_view c v" for v using assms by (simp add: keeps_def)
  moreover have "sizes_sent c (w\<lparr>trace := trace w @ [k]\<rparr>) = sizes_sent c w + (if is_size c k then 1 else 0)" by (simp add: sizes_sent_def)
  ultimately show "cl (call_env env k w) = cl w" "tp (call_env env k w) = tp w"
    "sizes_sent c (call_env env k w) = sizes_sent c w + (if is_size c k then 1 else 0)"
    by (simp_all add: call_env_def flight_view_def)
qed

lemma sizes_upd [simp]: "sizes_sent c (upd_client d f w) = sizes_sent c w" "sizes_sent c (enqueue op w) = sizes_sent c w"
  "sizes_sent c (queue_geometry_signals d old new w) = sizes_sent c w" "sizes_sent c (w\<lparr>tp := h\<rparr>) = sizes_sent c w"
  by (simp_all add: sizes_sent_def queue_geometry_signals_def Let_def)

lemma signals_tp [simp]: "tp (queue_geometry_signals d old new w) = tp w"
  by (simp add: queue_geometry_signals_def Let_def)

lemma not_size [simp]: "n \<noteq> ''xdg_toplevel_set_size'' \<Longrightarrow> \<not> is_size c (Native n args)" "\<not> is_size c (Emit a b d)"
  by (auto simp: is_size_def split: list.splits lval.splits)

lemma flight_call_other:
  "keeps env (flight_view c) \<Longrightarrow> \<not> is_size c k \<Longrightarrow> flight c (call_env env k w) = flight c w"
  by (simp add: flight_def flight_call)

lemma flight_mark: "keeps env (flight_view c) \<Longrightarrow> flight c (mark_output env m w) = flight c w"
  by (simp add: mark_output_def flight_call_other split: option.split)

lemma flight_set_bounds: "keeps env (flight_view c) \<Longrightarrow> flight c (client_set_bounds env c wd ht w) = flight c w"
  by (simp add: client_set_bounds_def flight_def flight_call Let_def)

lemma flight_resize:
  assumes "keeps env (flight_view c)"
  shows "flight c (resize X env c g i w) = flight c w"
proof (cases "c_mon (cl w c)")
  case (Some m)
  define w1 where "w1 = client_set_bounds env c (aw (m_workarea (mo w m))) (ah (m_workarea (mo w m))) w"
  define w2 where "w2 = upd_client c (\<lambda>x. x\<lparr>geometry := aspect_ratio_fix (lib_rnd X) x (geometry x)\<rparr>)
    (upd_client c (\<lambda>x. x\<lparr>geometry := applybounds x (if i then sgeom w1 else m_workarea (mo w1 m))\<rparr>)
      (upd_client c (\<lambda>x. x\<lparr>geometry := g\<rparr>) w1))"
  have "flight c w2 = flight c w1" by (simp add: w2_def flight_def Let_def)
  define w3 where "w3 = (if \<not> AREA_EQUAL (geometry (cl w c)) (geometry (cl w2 c))
    then call_env env (Native ''xwayland_geometry_authored'' [LUser c]) w2 else w2)"
  define w4 where "w4 = mark_output env (c_mon (cl w3 c)) w3"
  define w5 where "w5 = (if \<not> AREA_EQUAL (geometry (cl w c)) (geometry (cl w4 c))
    then queue_geometry_signals c (geometry (cl w c)) (geometry (cl w4 c)) w4 else w4)"
  have "flight c w5 = flight c w4" by (simp add: w5_def flight_def)
  moreover have "flight c w4 = flight c w3" unfolding w4_def by (rule flight_mark [OF assms])
  moreover have "flight c w3 = flight c w2" by (simp add: w3_def flight_call_other [OF assms])
  moreover have "flight c w1 = flight c w" unfolding w1_def by (rule flight_set_bounds [OF assms])
  moreover have "resize X env c g i w = (if \<not> surface_mapped c w then w else enqueue (QGlobal SIG_CLIENT_PROPERTY_GEOMETRY) w5)"
    unfolding resize_def Some option.case Let_def w1_def [symmetric] w2_def [symmetric] w3_def [symmetric] w4_def [symmetric]
      w5_def [symmetric] by (rule refl)
  moreover have "flight c (enqueue (QGlobal SIG_CLIENT_PROPERTY_GEOMETRY) w5) = flight c w5" by (simp add: flight_def)
  ultimately show ?thesis using \<open>flight c w2 = flight c w1\<close> by simp
qed (simp add: resize_def)

lemma flight_arm: "keeps env (flight_view c) \<Longrightarrow> flight c (configure_retry_arm X env c w) = flight c w"
  by (simp add: configure_retry_arm_def Let_def flight_call_other) (simp add: flight_def flight_call Let_def)


text \<open>Configuring to the box sends no size while one is in flight, nor the size already acknowledged.\<close>

lemma flight_configure_pending:
  assumes "keeps env (flight_view c)" and "resize_serial (cl w c) \<noteq> 0"
  shows "flight c (client_configure_to_box env c w) = flight c w"
proof -
  define w1 where "w1 = (case c_mon (cl w c) of None \<Rightarrow> w
    | Some m \<Rightarrow> client_set_bounds env c (aw (m_workarea (mo w m))) (ah (m_workarea (mo w m))) w)"
  have f1: "flight c w1 = flight c w" by (simp add: w1_def flight_set_bounds [OF assms(1)] split: option.split)
  then have "resize_serial (cl w1 c) \<noteq> 0" using assms(2) by (simp add: flight_def Let_def)
  then show ?thesis
    using f1 by (simp add: client_configure_to_box_def Let_def flight_call_other [OF assms(1)] flip: w1_def)
qed

lemma flight_configure_acked:
  assumes env: "keeps env (flight_view c)" and size: "aw (surface_box (cl w c)) = tp_width (tp w c)" "ah (surface_box (cl w c)) = tp_height (tp w c)"
    and none: "resize_serial (cl w c) = 0"
  shows "flight c (client_configure_to_box env c w) = flight c w"
proof -
  define w1 where "w1 = (case c_mon (cl w c) of None \<Rightarrow> w
    | Some m \<Rightarrow> client_set_bounds env c (aw (m_workarea (mo w m))) (ah (m_workarea (mo w m))) w)"
  have f1: "flight c w1 = flight c w" by (simp add: w1_def flight_set_bounds [OF env] split: option.split)
  define w2 where "w2 = (if has_surface (cl w1 c) \<and> tp_fullscreen (tp w1 c) \<noteq> fullscreen (cl w1 c)
    then client_set_fullscreen_internal env c (fullscreen (cl w1 c)) w1 else w1)"
  have f2: "flight c w2 = flight c w1" by (simp add: w2_def client_set_fullscreen_internal_def flight_call_other [OF env])
  define w3 where "w3 = (if client_type (cl w2 c) = XDGShell \<and> has_surface (cl w2 c) \<and> tp_maximized (tp w2 c) \<noteq> maximized (cl w2 c)
    then call_env env (Native ''xdg_toplevel_set_maximized'' [LUser c, LBool (maximized (cl w2 c))]) w2 else w2)"
  have f3: "flight c w3 = flight c w2" by (simp add: w3_def flight_call_other [OF env])
  have s3: "resize_serial (cl w3 c) = 0" "surface_box (cl w3 c) = surface_box (cl w c)" "tp w3 c = tp w c"
    using f1 f2 f3 none by (simp_all add: flight_def Let_def)
  define v where "v = snd (client_set_size env c (aw (surface_box (cl w c))) (ah (surface_box (cl w c))) w3)"
  have v: "client_set_size env c (aw (surface_box (cl w c))) (ah (surface_box (cl w c))) w3 = (0, v)" "flight c v = flight c w3"
    using size flight_call_other [OF env] by (simp_all add: v_def client_set_size_def Let_def s3(3))
  have "flight c (upd_client c (\<lambda>x. x\<lparr>resize_serial := 0\<rparr>) v) = flight c v"
    using v(2) s3(1) by (simp add: flight_def Let_def)
  moreover have "send_configure env c (surface_box (cl w c)) w1 = upd_client c (\<lambda>x. x\<lparr>resize_serial := 0\<rparr>) v"
    unfolding send_configure_def Let_def w2_def [symmetric] w3_def [symmetric] v(1) by simp
  ultimately have "flight c (if resize_serial (cl w1 c) = 0 then send_configure env c (surface_box (cl w c)) w1 else w1) = flight c w"
    using f1 f2 f3 v(2) by simp
  then show ?thesis
    by (simp add: client_configure_to_box_def Let_def flight_call_other [OF env] flip: w1_def)
qed

text \<open>What happens to a mapped window between two frames: commits, the timer, and frames that configure it.\<close>

datatype window_event = WCommit | WRetry | WConfigure

fun run_window_event :: "window_lib \<Rightarrow> env \<Rightarrow> nat \<Rightarrow> window_event \<Rightarrow> world \<Rightarrow> world option" where
  "run_window_event X env c WCommit w = commitnotify X env c w"
| "run_window_event X env c WRetry w = configure_retry X env c w"
| "run_window_event X env c WConfigure w = Some (client_configure_to_box env c w)"

text \<open>Each event comes with what wlroots knows of the toplevel by then.\<close>

fun run_window_events :: "window_lib \<Rightarrow> env \<Rightarrow> nat \<Rightarrow> (toplevel_state \<times> window_event) list \<Rightarrow> world \<Rightarrow> world option" where
  "run_window_events X env c [] w = Some w"
| "run_window_events X env c ((t, e) # es) w =
     Option.bind (run_window_event X env c e (w\<lparr>tp := (tp w)(c := t)\<rparr>)) (run_window_events X env c es)"

definition acknowledged :: "toplevel_state \<Rightarrow> client \<Rightarrow> client" where
  "acknowledged t x = (if resize_serial x \<noteq> 0 \<and> resize_serial x \<le> tp_serial t then x\<lparr>resize_serial := 0\<rparr> else x)"

definition size_noted :: "int \<times> int \<Rightarrow> client \<Rightarrow> client" where
  "size_noted s x = (if s = (committed_width x, committed_height x) then x
     else x\<lparr>committed_width := fst s, committed_height := snd s, configure_retries := 0\<rparr>)"

lemma commit_flight:
  assumes env: "keeps env (flight_view c)" and "has_surface (cl w c)"
    and pending: "resize_serial (cl w c) \<noteq> 0 \<and> tp_serial (tp w c) < resize_serial (cl w c) \<or>
      aw (surface_box (cl w c)) = tp_width (tp w c) \<and> ah (surface_box (cl w c)) = tp_height (tp w c)"
  shows "\<exists>w'. commitnotify X env c w = Some w' \<and>
    flight c w' = flight c (if tp_initial_commit (tp w c) then w
      else upd_client c (\<lambda>x. acknowledged (tp w c) (size_noted (committed_size X (tp w c)) x)) w)"
proof (cases "tp_initial_commit (tp w c)")
  case True
  then show ?thesis using assms(2) by (simp add: commitnotify_def)
next
  case False
  obtain wd ht where size: "committed_size X (tp w c) = (wd, ht)" by fastforce
  define w1 where "w1 = (if wd \<noteq> committed_width (cl w c) \<or> ht \<noteq> committed_height (cl w c)
    then (let v = upd_client c (\<lambda>x. x\<lparr>committed_width := wd, committed_height := ht, configure_retries := 0\<rparr>) w;
              v = emit env c ''property::_committed_size'' [] v;
              v = mark_output env (c_mon (cl v c)) v
          in call_env env (Native ''client_apply_corners'' [LUser c]) v)
    else w)"
  have f1: "flight c w1 = flight c (upd_client c (size_noted (wd, ht)) w)"
    by (auto simp: w1_def Let_def flight_call_other [OF env] flight_mark [OF env] size_noted_def) (auto simp: flight_def Let_def size_noted_def)
  then have s1: "has_surface (cl w1 c)" "resize_serial (cl w1 c) = resize_serial (cl w c)" "tp w1 c = tp w c"
    "surface_box (cl w1 c) = surface_box (cl w c)"
    using assms(2) by (auto simp: flight_def Let_def size_noted_def)
  define w2 where "w2 = (if resize_serial (cl w1 c) \<noteq> 0 \<and> resize_serial (cl w1 c) \<le> tp_serial (tp w1 c)
    then mark_output env (c_mon (cl w1 c)) (upd_client c (\<lambda>x. x\<lparr>resize_serial := 0\<rparr>) w1) else w1)"
  have f2: "flight c w2 = flight c (upd_client c (\<lambda>x. acknowledged (tp w c) (size_noted (wd, ht) x)) w)"
    using f1 s1 by (auto simp: w2_def flight_mark [OF env] acknowledged_def) (auto simp: flight_def Let_def size_noted_def split: if_splits)
  then have s2: "tp w2 c = tp w c" "surface_box (cl w2 c) = surface_box (cl w c)"
    "resize_serial (cl w2 c) = 0 \<or> resize_serial (cl w2 c) = resize_serial (cl w c) \<and> \<not> resize_serial (cl w c) \<le> tp_serial (tp w c)"
    by (auto simp: flight_def Let_def size_noted_def acknowledged_def split: if_splits)
  define w3 where "w3 = (if lib_floating X c w2 \<or> fullscreen (cl w2 c)
    then resize X env c (geometry (cl w2 c)) (lib_floating X c w2 \<and> \<not> fullscreen (cl w2 c)) w2
    else client_configure_to_box env c w2)"
  have "flight c (client_configure_to_box env c w2) = flight c w2"
  proof (cases "resize_serial (cl w2 c) = 0")
    case True
    have "resize_serial (cl w2 c) = 0 \<Longrightarrow> \<not> (resize_serial (cl w c) \<noteq> 0 \<and> tp_serial (tp w c) < resize_serial (cl w c))"
      using f2 by (auto simp: flight_def Let_def size_noted_def acknowledged_def split: if_splits)
    then show ?thesis using True pending flight_configure_acked [OF env, of w2] s2 by metis
  qed (rule flight_configure_pending [OF env])
  then have f3: "flight c w3 = flight c w2" by (simp add: w3_def flight_resize [OF env])
  define w4 where "w4 = configure_retry_arm X env c w3"
  have f4: "flight c w4 = flight c w3" unfolding w4_def by (rule flight_arm [OF env])
  define w5 where "w5 = (if tp_limits (tp w4 c) \<noteq> xdg_bounds (cl w4 c)
    then emit env c ''property::size_hints'' [] (upd_client c (\<lambda>x. x\<lparr>xdg_bounds := tp_limits (tp w4 c)\<rparr>) w4) else w4)"
  have "flight c (upd_client c (\<lambda>x. x\<lparr>xdg_bounds := b\<rparr>) w4) = flight c w4" for b by (simp add: flight_def Let_def)
  then have f5: "flight c w5 = flight c w4" by (simp add: w5_def flight_call_other [OF env])
  have "commitnotify X env c w = Some w5"
    unfolding commitnotify_def size Let_def prod.case if_not_P [OF False] w1_def [unfolded Let_def, symmetric]
      w2_def [symmetric] w3_def [symmetric] w4_def [symmetric] w5_def [symmetric]
    using assms(2) s1(1) by (simp only: not_True_eq_False not_False_eq_True if_False)
  moreover have "flight c w5 = flight c w2" using f3 f4 f5 by simp
  ultimately show ?thesis using f2 False size by auto
qed

lemma retry_flight:
  assumes env: "keeps env (flight_view c)" and surface: "has_surface (cl w c)"
  shows "\<exists>w'. configure_retry X env c w = Some w' \<and> (flight c w' = flight c w \<or>
    configure_retries (cl w c) < 3 \<and> (\<exists>s. flight c w' = (s, configure_retries (cl w c) + 1, committed_width (cl w c),
      committed_height (cl w c), surface_box (cl w c), True, tp w c, sizes_sent c w + 1)))"
proof -
  let ?stay = "\<not> surface_mapped c w \<or> resize_serial (cl w c) \<noteq> 0 \<or> committed_width (cl w c) = 0
    \<or> configure_retries (cl w c) \<ge> CONFIGURE_RETRIES \<or> aw (surface_box (cl w c)) \<noteq> tp_width (tp w c)
    \<or> ah (surface_box (cl w c)) \<noteq> tp_height (tp w c)"
  show ?thesis
  proof (cases ?stay)
    case True
    then have "configure_retry X env c w = Some w" using surface unfolding configure_retry_def Let_def by simp
    then show ?thesis by blast
  next
    case False
    define w1 where "w1 = upd_client c (\<lambda>x. x\<lparr>configure_retries := configure_retries x + 1\<rparr>) w"
    define w2 where "w2 = upd_client c (\<lambda>x. x\<lparr>configure_retry_msec := lib_now X w1\<rparr>) w1"
    define w3 where "w3 = call_env env (Native ''xdg_toplevel_set_size'' [LUser c, LInt (tp_width (tp w c)), LInt (tp_height (tp w c))]) w2"
    define w4 where "w4 = upd_client c (\<lambda>x. x\<lparr>resize_serial := tp_scheduled (tp w3 c)\<rparr>) w3"
    have "configure_retry X env c w = Some w4"
      unfolding configure_retry_def Let_def toplevel_set_size_def prod.case w1_def [symmetric] w2_def [symmetric] w3_def [symmetric]
        w4_def [symmetric] using False surface by (simp only: not_True_eq_False if_False)
    moreover have "flight c w4 = (tp_scheduled (tp w3 c), configure_retries (cl w c) + 1, committed_width (cl w c),
        committed_height (cl w c), surface_box (cl w c), True, tp w c, sizes_sent c w + 1)"
      using surface by (simp add: w4_def w3_def w2_def w1_def flight_def Let_def flight_call [OF env] is_size_def)
    ultimately show ?thesis using False by (auto simp: CONFIGURE_RETRIES_def)
  qed
qed

text \<open>
  C24: While a size is in flight to a window no other is sent: however many commits, timers and
  frames come before the window acknowledges it, and whatever the window commits meanwhile, the
  number of sizes sent and the serial waited for stay the same. Handlers that run on the way are
  assumed to leave the windows alone.
\<close>
theorem one_size_in_flight:
  assumes "keeps env (flight_view c)" and "has_surface (cl w c)" and "resize_serial (cl w c) \<noteq> 0"
    and "\<forall>(t, e) \<in> set es. tp_serial t < resize_serial (cl w c)"
  shows "\<exists>w'. run_window_events X env c es w = Some w' \<and> sizes_sent c w' = sizes_sent c w \<and>
    resize_serial (cl w' c) = resize_serial (cl w c)"
  using assms(2-)
proof (induction es arbitrary: w)
  case (Cons te es)
  obtain t e where te: "te = (t, e)" by fastforce
  let ?w = "w\<lparr>tp := (tp w)(c := t)\<rparr>"
  have pend: "resize_serial (cl ?w c) \<noteq> 0 \<and> tp_serial (tp ?w c) < resize_serial (cl ?w c)" using Cons.prems te by auto
  obtain v where v: "run_window_event X env c e ?w = Some v" "sizes_sent c v = sizes_sent c w"
    "resize_serial (cl v c) = resize_serial (cl w c)" "has_surface (cl v c)"
  proof (cases e)
    case WCommit
    obtain v where "commitnotify X env c ?w = Some v" "flight c v = flight c (if tp_initial_commit t then ?w
        else upd_client c (\<lambda>x. acknowledged t (size_noted (committed_size X t) x)) ?w)"
      using commit_flight [OF assms(1), of ?w X] pend Cons.prems(1) by auto
    then show ?thesis using that [of v] WCommit pend Cons.prems(1)
      by (auto simp: flight_def Let_def acknowledged_def size_noted_def split: if_splits)
  next
    case WRetry
    then show ?thesis using that [of ?w] pend Cons.prems(1) by (simp add: configure_retry_def Let_def)
  next
    case WConfigure
    have "flight c (client_configure_to_box env c ?w) = flight c ?w" using flight_configure_pending [OF assms(1), of ?w] pend by simp
    then show ?thesis using that [of "client_configure_to_box env c ?w"] WConfigure Cons.prems(1) by (auto simp: flight_def Let_def)
  qed
  from Cons.IH [of v] v Cons.prems show ?case by (auto simp: te)
qed simp

text \<open>
  C27: A window that acknowledges the size it was sent but keeps drawing another is sent that size
  again at most three times: as long as it commits the same size, no sequence of commits, timers
  and frames sends more sizes than are left of the three.
\<close>
theorem resends_bounded:
  assumes "keeps env (flight_view c)" and "has_surface (cl w c)"
    and "\<forall>(t, e) \<in> set es. tp_width t = aw (surface_box (cl w c)) \<and> tp_height t = ah (surface_box (cl w c)) \<and>
      committed_size X t = (committed_width (cl w c), committed_height (cl w c))"
  shows "\<exists>w'. run_window_events X env c es w = Some w' \<and>
    int (sizes_sent c w') \<le> int (sizes_sent c w) + max 0 (3 - configure_retries (cl w c))"
  using assms(2-)
proof (induction es arbitrary: w)
  case (Cons te es)
  obtain t e where te: "te = (t, e)" by fastforce
  let ?w = "w\<lparr>tp := (tp w)(c := t)\<rparr>"
  have hyp: "tp_width t = aw (surface_box (cl w c))" "tp_height t = ah (surface_box (cl w c))"
    "committed_size X t = (committed_width (cl w c), committed_height (cl w c))" using Cons.prems te by auto
  obtain v where v: "run_window_event X env c e ?w = Some v" "has_surface (cl v c)" "surface_box (cl v c) = surface_box (cl w c)"
    "committed_width (cl v c) = committed_width (cl w c)" "committed_height (cl v c) = committed_height (cl w c)"
    "int (sizes_sent c v) + max 0 (3 - configure_retries (cl v c)) \<le> int (sizes_sent c w) + max 0 (3 - configure_retries (cl w c))"
  proof (cases e)
    case WCommit
    obtain v where "commitnotify X env c ?w = Some v" "flight c v = flight c (if tp_initial_commit t then ?w
        else upd_client c (\<lambda>x. acknowledged t (size_noted (committed_size X t) x)) ?w)"
      using commit_flight [OF assms(1), of ?w X] hyp Cons.prems(1) by auto
    then show ?thesis using that [of v] WCommit Cons.prems(1) hyp(3)
      by (auto simp: flight_def Let_def acknowledged_def size_noted_def split: if_splits)
  next
    case WRetry
    obtain v where v: "configure_retry X env c ?w = Some v" "flight c v = flight c ?w \<or>
      configure_retries (cl w c) < 3 \<and> (\<exists>s. flight c v = (s, configure_retries (cl w c) + 1, committed_width (cl w c),
        committed_height (cl w c), surface_box (cl w c), True, t, sizes_sent c w + 1))"
      using retry_flight [OF assms(1), of ?w X] Cons.prems(1) by auto
    then show ?thesis using that [of v] WRetry Cons.prems(1) by (auto simp: flight_def Let_def)
  next
    case WConfigure
    have "flight c (client_configure_to_box env c ?w) = flight c ?w"
      using flight_configure_pending [OF assms(1), of ?w] flight_configure_acked [OF assms(1), of ?w] hyp by fastforce
    then show ?thesis using that [of "client_configure_to_box env c ?w"] WConfigure Cons.prems(1) by (auto simp: flight_def Let_def)
  qed
  have "\<forall>(t, e) \<in> set es. tp_width t = aw (surface_box (cl v c)) \<and> tp_height t = ah (surface_box (cl v c)) \<and>
      committed_size X t = (committed_width (cl v c), committed_height (cl v c))"
    using Cons.prems(2) by (auto simp: v(3-5))
  from Cons.IH [OF v(2) this] v(1,6) show ?case by (auto simp: te)
qed simp


definition in_flight :: world where
  "in_flight = upd_client 5 (\<lambda>x. x\<lparr>resize_serial := 4, surface_box := box 10 40 300 200\<rparr>) window_demo"

lemma one_size_in_flight_witness:
  "\<exists>w'. run_window_events window_lib0 idle 5
     [(toplevel0\<lparr>tp_serial := 3, tp_geometry := box 0 0 80 24\<rparr>, WCommit), (toplevel0, WRetry), (toplevel0, WConfigure)] in_flight = Some w' \<and>
     sizes_sent 5 w' = 0 \<and> resize_serial (cl w' 5) = 4"
proof -
  have "has_surface (cl in_flight 5)" "resize_serial (cl in_flight 5) = 4" "sizes_sent 5 in_flight = 0"
    by (simp_all add: in_flight_def window_demo_def world0_def sizes_sent_def)
  then show ?thesis using one_size_in_flight [of idle 5 in_flight
      "[(toplevel0\<lparr>tp_serial := 3, tp_geometry := box 0 0 80 24\<rparr>, WCommit), (toplevel0, WRetry), (toplevel0, WConfigure)]" window_lib0]
    by (simp add: toplevel0_def)
qed

text \<open>A terminal that draws 290 by 190 in a box of 300 by 200.\<close>

definition terminal :: world where
  "terminal = upd_client 5 (\<lambda>x. x\<lparr>surface_box := box 10 40 300 200, committed_width := 290, committed_height := 190\<rparr>) window_demo"

definition terminal_top :: toplevel_state where
  "terminal_top = toplevel0\<lparr>tp_width := 300, tp_height := 200, tp_geometry := box 0 0 290 190, tp_scheduled := 1, tp_serial := 1\<rparr>"

lemma resends_bounded_witness:
  "\<exists>w'. run_window_events window_lib0 idle 5 (concat (replicate 9 [(terminal_top, WRetry), (terminal_top, WCommit)])) terminal = Some w' \<and>
     sizes_sent 5 w' \<le> 3"
proof -
  have t: "committed_size window_lib0 terminal_top = (290, 190)"
    by (simp add: committed_size_def window_lib0_def terminal_top_def toplevel0_def box_def Let_def)
  have s: "has_surface (cl terminal 5)" "surface_box (cl terminal 5) = box 10 40 300 200" "committed_width (cl terminal 5) = 290"
    "committed_height (cl terminal 5) = 190" "configure_retries (cl terminal 5) = 0" "sizes_sent 5 terminal = 0"
    by (simp_all add: terminal_def window_demo_def world0_def client0_def sizes_sent_def)
  have "tp_width terminal_top = 300" "tp_height terminal_top = 200" by (simp_all add: terminal_top_def)
  then have "\<forall>(t, e) \<in> set (concat (replicate 9 [(terminal_top, WRetry), (terminal_top, WCommit)])).
      tp_width t = aw (surface_box (cl terminal 5)) \<and> tp_height t = ah (surface_box (cl terminal 5)) \<and>
      committed_size window_lib0 t = (committed_width (cl terminal 5), committed_height (cl terminal 5))"
    by (auto simp: t s box_def)
  from resends_bounded [OF idle_keeps s(1) this] show ?thesis by (auto simp: s)
qed

subsection \<open>Unmanaging from Lua\<close>

lemma Let_E: "Let a f = r \<Longrightarrow> (\<And>x. x = a \<Longrightarrow> f x = r \<Longrightarrow> P) \<Longrightarrow> P"
  by (simp add: Let_def)

lemma map_option_E: "map_option g F = Some r \<Longrightarrow> (\<And>z. F = Some z \<Longrightarrow> g z = r \<Longrightarrow> P) \<Longrightarrow> P"
  by (cases F) simp_all

lemma unmanage_surface:
  assumes "client_unmanage fuel env c reason w = Some w'" and "client_type (cl w' c) = XDGShell"
  shows "\<not> has_surface (cl w' c)"
  using assms(1) unfolding client_unmanage_def
  apply (elim Let_E map_option_E)
  subgoal premises prems
    using prems(15-) assms(2) by (auto simp: luaA_object_registry_unref_def split: if_splits)
  done

text \<open>
  C26: c:unmanage() from Lua takes the surface from an xdg window but leaves its listeners: the
  next commit, a pending re-send of its size and a full screen request each follow a null pointer.
  This holds for whatever handlers do, for every window that is still an xdg window afterwards.
\<close>
theorem unmanaged_window_crashes:
  assumes "luaA_client_unmanage X env c w = Some w'" and "client_type (cl w' c) = XDGShell"
  shows "commitnotify X env c w' = None \<and> configure_retry X env c w' = None \<and> fullscreennotify X env c w' = None"
proof -
  have "\<not> has_surface (cl w' c)"
    using unmanage_surface assms unfolding luaA_client_unmanage_def by blast
  then show ?thesis using assms(2) by (simp add: commitnotify_def configure_retry_def fullscreennotify_def)
qed

lemma idle_call: "cl (call_env idle k w) = cl w" "tags (call_env idle k w) = tags w"
  by (simp_all add: idle_def call_env_def)

lemma unmanaged_idle:
  assumes "tags w = []"
  shows "\<exists>w'. luaA_client_unmanage window_lib0 idle c w = Some w' \<and> client_type (cl w' c) = client_type (cl w c)"
proof -
  define w1 where "w1 = clear_transients c w"
  define w2 where "w2 = (if focus_client w1 = Some c then client_unfocus idle c True w1 else w1)"
  define w3 where "w3 = some_clear_pre_lock_client c w2"
  define w4 where "w4 = (if mouse_under w3 = UNDER_CLIENT c
      then (enqueue (QSignal0 (LUser c) SIG_MOUSE_LEAVE) w3)\<lparr>mouse_under := UNDER_NONE\<rparr> else w3)"
  define w5 where "w5 = (case index_of c (clients w4) of None \<Rightarrow> w4
      | Some i \<Rightarrow> w4\<lparr>clients := take i (clients w4) @ drop (Suc i) (clients w4)\<rparr>)"
  define w6 where "w6 = stack_client_remove c w5"
  have "client_type (cl (fold (\<lambda>tc w. if transient_for (cl w tc) = Some c
      then stack_windows (upd_client tc (\<lambda>x. x\<lparr>transient_for := None\<rparr>) w) else w) xs v) c) = client_type (cl v c)" for xs v
    by (induction xs arbitrary: v) (simp_all add: stack_windows_def)
  then have t1: "client_type (cl w1 c) = client_type (cl w c)" by (simp add: w1_def clear_transients_def)
  have "tags w1 = []" using clear_transients_view [of c w] assms by (simp add: w1_def)
  then have t2: "client_type (cl w2 c) = client_type (cl w c)" "tags w2 = []"
    using t1 by (simp_all add: w2_def client_unfocus_def client_unfocus_internal_def Let_def idle_call)
  then have t6: "client_type (cl w6 c) = client_type (cl w c)" "tags w6 = []"
    by (simp_all add: w6_def w5_def w4_def w3_def some_clear_pre_lock_client_def stack_client_remove_def stack_windows_def split: option.split)
  have drop: "client_type (cl (fold (drop_titlebar idle c) bs v) c) = client_type (cl v c)" for bs v
    by (induction bs arbitrary: v) (simp_all add: drop_titlebar_def Let_def idle_call split: option.split)
  have "foreach (lib_fuel window_lib0) 0 tags (\<lambda>t w. untag_client idle c t w) w6 = Some w6"
    using t6(2) by (simp add: window_lib0_def eval_nat_numeral)
  then have "\<exists>w'. luaA_client_unmanage window_lib0 idle c w = Some w'"
    by (simp only: luaA_client_unmanage_def client_unmanage_def Let_def w1_def [symmetric] w2_def [symmetric] w3_def [symmetric]
        w4_def [symmetric] w5_def [symmetric] w6_def [symmetric] option.map) simp
  then obtain w' where w': "luaA_client_unmanage window_lib0 idle c w = Some w'" by blast
  then have "client_type (cl w' c) = client_type (cl w6 c)"
    unfolding luaA_client_unmanage_def client_unmanage_def w1_def [symmetric]
    apply (elim Let_E map_option_E)
    subgoal premises prems for v1 v2 v3 v4 v5 v6 z e1 e2 e3 e4 e5 e6 e7 e8 e9
    proof -
      have "v6 = w6" unfolding prems(1-6) w2_def w3_def w4_def w5_def w6_def by (rule refl)
      then have "z = w6" using prems(7) t6(2) by (simp add: window_lib0_def eval_nat_numeral)
      then have "client_type (cl e3 c) = client_type (cl w6 c)" unfolding prems(8-10) by (simp add: idle_call)
      then have "client_type (cl e4 c) = client_type (cl w6 c)" unfolding prems(11) by (simp add: drop)
      then have "client_type (cl e5 c) = client_type (cl w6 c)" unfolding prems(12) by (simp add: idle_call)
      then have "client_type (cl e7 c) = client_type (cl w6 c)" unfolding prems(13,14) by (simp add: idle_call)
      then have "client_type (cl e9 c) = client_type (cl w6 c)" unfolding prems(15,16) by simp
      then show ?thesis using prems(17) by (auto simp: luaA_object_registry_unref_def)
    qed
    done
  with w' t6(1) show ?thesis by metis
qed

lemma unmanaged_window_crashes_witness:
  "\<exists>w'. luaA_client_unmanage window_lib0 idle 5 window_demo = Some w' \<and> commitnotify window_lib0 idle 5 w' = None"
proof -
  have "tags window_demo = []" "client_type (cl window_demo 5) = XDGShell" by (simp_all add: window_demo_def world0_def client0_def)
  then obtain w' where "luaA_client_unmanage window_lib0 idle 5 window_demo = Some w'" "client_type (cl w' 5) = XDGShell"
    using unmanaged_idle by metis
  with unmanaged_window_crashes [OF this] show ?thesis by blast
qed

end
