(* ===== verification/Ipc.thy ===== *)
theory Ipc
  imports CBuffer
begin

text \<open>
  The command socket: src/ipc.c and its Lua side, src/objects/ipc.c. Clients connect to a Unix
  socket and send lines; each line is a command that Lua answers, and a client that subscribed
  is sent events. The memory of a connection's buffer is modelled byte by byte, the connections
  in a heap, so that a write outside the buffer and an access to a freed connection are results
  of their own.
\<close>

subsection \<open>Outcomes\<close>

datatype ipc_fault = UseAfterFree | OutOfBounds | OutOfFuel

definition bnd :: "'e + 'a \<Rightarrow> ('a \<Rightarrow> 'e + 'b) \<Rightarrow> 'e + 'b" where
  "bnd r f = (case r of Inl e \<Rightarrow> Inl e | Inr a \<Rightarrow> f a)"

lemma bnd_simps [simp]: "bnd (Inl e) f = Inl e" "bnd (Inr a) f = f a"
  by (simp_all add: bnd_def)

text \<open>errno, as far as the code distinguishes its values.\<close>

datatype errno = ENOENT | ECONNREFUSED | ENAMETOOLONG | EAGAIN | EINTR | EOther nat

datatype write_result = Wrote nat | WriteError errno

subsection \<open>State\<close>

abbreviation NL :: char where "NL \<equiv> CHR 0x0A"

definition IPC_MAX_CLIENTS :: nat where "IPC_MAX_CLIENTS = 10"
definition IPC_BUFFER_INITIAL :: nat where "IPC_BUFFER_INITIAL = 4096"
definition IPC_BUFFER_MAX :: nat where "IPC_BUFFER_MAX = 1024 * 1024"

text \<open>A byte of the buffer is None as long as nothing was written to it.\<close>

record ipc_client =
  ic_fd :: int
  ic_source :: bool
  ic_buffer :: "char option list"
  ic_size :: nat
  ic_used :: nat
  ic_subscribed :: bool

text \<open>What the server does to the outside, in order: system calls, and commands handed to Lua.\<close>

datatype ipc_act =
    Write int string
  | Close int
  | Unlink string
  | Sleep
  | Dispatch int string

record ipc =
  ipc_socket_fd :: int
  ipc_event_source :: bool
  ipc_clients :: "nat list"
  ipc_subscriber_count :: int
  ipc_socket_path :: string
  ipc_socket_stat :: "(nat \<times> nat) option"
  ipc_heap :: "nat \<Rightarrow> ipc_client option"
  ipc_log :: "ipc_act list"

definition log_act :: "ipc_act \<Rightarrow> ipc \<Rightarrow> ipc" where
  "log_act a s = s\<lparr>ipc_log := ipc_log s @ [a]\<rparr>"

definition put_client :: "nat \<Rightarrow> ipc_client \<Rightarrow> ipc \<Rightarrow> ipc" where
  "put_client c k s = s\<lparr>ipc_heap := (ipc_heap s)(c \<mapsto> k)\<rparr>"

text \<open>
  What the code leaves to others: the result of a write, whether realloc finds memory, and the
  Lua side. A Lua handler is a tree of the calls it makes to the functions that
  objects/ipc.c registers, ending in what it returns; what it does next may depend on the
  answers, and the handler found depends on the whole state.
\<close>

datatype lua_ret = RError "string option" | RNil | RString string | ROther

datatype lua_code =
    LDone lua_ret
  | LSend int string lua_code
  | LSubscribe int lua_code
  | LBroadcast string lua_code
  | LHas "bool \<Rightarrow> lua_code"

datatype lua_side = NoLua | NoDispatcher | Dispatcher "string \<Rightarrow> int \<Rightarrow> lua_code"

record ipc_env =
  os_write :: "ipc \<Rightarrow> int \<Rightarrow> string \<Rightarrow> write_result"
  os_realloc :: "ipc \<Rightarrow> nat \<Rightarrow> bool"
  lua_state :: "ipc \<Rightarrow> lua_side"

subsection \<open>Operations\<close>

definition ipc_client_destroy :: "nat \<Rightarrow> ipc \<Rightarrow> ipc_fault + ipc" where
  "ipc_client_destroy c s =
     (case ipc_heap s c of None \<Rightarrow> Inl UseAfterFree
      | Some k \<Rightarrow>
          let s = (if ic_subscribed k then s\<lparr>ipc_subscriber_count := ipc_subscriber_count s - 1\<rparr> else s);
              s = (if 0 \<le> ic_fd k then log_act (Close (ic_fd k)) s else s)
          in Inr (s\<lparr>ipc_clients := remove1 c (ipc_clients s), ipc_heap := (ipc_heap s)(c := None)\<rparr>))"

definition ipc_send_response :: "int \<Rightarrow> string \<Rightarrow> ipc \<Rightarrow> ipc" where
  "ipc_send_response fd response s =
     (if 0 \<le> fd
      then let len = length response;
               s = log_act (Write fd response) s
           in if len < 2 \<or> response ! (len - 1) \<noteq> NL \<or> response ! (len - 2) \<noteq> NL
              then log_act (Write fd [NL]) s else s
      else s)"

fun subscribe_loop :: "int \<Rightarrow> nat list \<Rightarrow> ipc \<Rightarrow> ipc_fault + ipc" where
  "subscribe_loop fd [] s = Inr s"
| "subscribe_loop fd (c # cs) s =
     (case ipc_heap s c of None \<Rightarrow> Inl UseAfterFree
      | Some k \<Rightarrow>
          if ic_fd k = fd
          then Inr (if \<not> ic_subscribed k
                    then (put_client c (k\<lparr>ic_subscribed := True\<rparr>) s)
                           \<lparr>ipc_subscriber_count := ipc_subscriber_count s + 1\<rparr>
                    else s)
          else subscribe_loop fd cs s)"

definition ipc_subscribe_client :: "int \<Rightarrow> ipc \<Rightarrow> ipc_fault + ipc" where
  "ipc_subscribe_client fd s = subscribe_loop fd (ipc_clients s) s"

definition ipc_has_subscribers :: "ipc \<Rightarrow> bool" where
  "ipc_has_subscribers s \<longleftrightarrow> ipc_subscriber_count s > 0"

text \<open>The safe iteration: the next client is read before the current one may be destroyed.\<close>

fun broadcast_loop :: "ipc_env \<Rightarrow> string \<Rightarrow> nat list \<Rightarrow> ipc \<Rightarrow> ipc_fault + ipc" where
  "broadcast_loop env message [] s = Inr s"
| "broadcast_loop env message (c # cs) s =
     (case ipc_heap s c of None \<Rightarrow> Inl UseAfterFree
      | Some k \<Rightarrow>
          if \<not> ic_subscribed k then broadcast_loop env message cs s
          else
            (let written = os_write env s (ic_fd k) message;
                 s = log_act (Write (ic_fd k) message) s
             in case written of
                  Wrote n \<Rightarrow> broadcast_loop env message cs s
                | WriteError e \<Rightarrow>
                    if e \<noteq> EAGAIN \<and> e \<noteq> EINTR
                    then bnd (ipc_client_destroy c s) (broadcast_loop env message cs)
                    else broadcast_loop env message cs s))"

definition ipc_broadcast :: "ipc_env \<Rightarrow> string \<Rightarrow> ipc \<Rightarrow> ipc_fault + ipc" where
  "ipc_broadcast env message s =
     (if ipc_subscriber_count s \<le> 0 then Inr s else broadcast_loop env message (ipc_clients s) s)"

text \<open>The functions Lua calls, and a handler that calls them.\<close>

primrec lua_run :: "ipc_env \<Rightarrow> lua_code \<Rightarrow> ipc \<Rightarrow> ipc_fault + lua_ret \<times> ipc" where
  "lua_run env (LDone r) = (\<lambda>s. Inr (r, s))"
| "lua_run env (LSend fd response k) = (\<lambda>s. lua_run env k (ipc_send_response fd response s))"
| "lua_run env (LSubscribe fd k) = (\<lambda>s. bnd (ipc_subscribe_client fd s) (lua_run env k))"
| "lua_run env (LBroadcast message k) = (\<lambda>s. bnd (ipc_broadcast env message s) (lua_run env k))"
| "lua_run env (LHas k) = (\<lambda>s. lua_run env (k (ipc_has_subscribers s)) s)"

text \<open>snprintf of ``ERROR %s'' and two newlines into 1024 bytes; glibc prints a null string so.\<close>

definition error_response :: "string option \<Rightarrow> string" where
  "error_response err =
     take 1023 (''ERROR '' @ (case err of None \<Rightarrow> ''(null)'' | Some e \<Rightarrow> e) @ [NL, NL])"

definition ipc_dispatch_to_lua :: "ipc_env \<Rightarrow> int \<Rightarrow> string \<Rightarrow> ipc \<Rightarrow> ipc_fault + ipc" where
  "ipc_dispatch_to_lua env fd command s =
     (case lua_state env s of
        NoLua \<Rightarrow> Inr (ipc_send_response fd (''ERROR Lua not initialized'' @ [NL, NL]) s)
      | NoDispatcher \<Rightarrow>
          Inr (ipc_send_response fd (''ERROR IPC dispatcher not initialized'' @ [NL, NL]) s)
      | Dispatcher f \<Rightarrow>
          bnd (lua_run env (f command fd) (log_act (Dispatch fd command) s))
            (\<lambda>(r, s). Inr (case r of
                RError err \<Rightarrow> ipc_send_response fd (error_response err) s
              | RNil \<Rightarrow> s
              | RString result \<Rightarrow> ipc_send_response fd result s
              | ROther \<Rightarrow> ipc_send_response fd (''ERROR No response from dispatcher'' @ [NL, NL]) s)))"

definition ipc_process_command :: "ipc_env \<Rightarrow> nat \<Rightarrow> string \<Rightarrow> ipc \<Rightarrow> ipc_fault + ipc" where
  "ipc_process_command env c command s =
     (case ipc_heap s c of None \<Rightarrow> Inl UseAfterFree
      | Some k \<Rightarrow> ipc_dispatch_to_lua env (ic_fd k) command s)"

text \<open>A new connection: accept answers with a descriptor, calloc with the address c.\<close>

definition new_client :: "int \<Rightarrow> ipc_client" where
  "new_client fd =
     \<lparr>ic_fd = fd, ic_source = True, ic_buffer = replicate IPC_BUFFER_INITIAL (Some NUL),
      ic_size = IPC_BUFFER_INITIAL, ic_used = 0, ic_subscribed = False\<rparr>"

definition ipc_handle_connection :: "int + errno \<Rightarrow> nat \<Rightarrow> bool \<Rightarrow> ipc \<Rightarrow> ipc" where
  "ipc_handle_connection accepted c add_ok s =
     (if length (ipc_clients s) \<ge> IPC_MAX_CLIENTS
      then (case accepted of
              Inl fd \<Rightarrow> log_act (Close fd) (log_act (Write fd (''ERROR Too many clients'' @ [NL, NL])) s)
            | Inr e \<Rightarrow> s)
      else (case accepted of
              Inr e \<Rightarrow> s
            | Inl fd \<Rightarrow>
                if \<not> add_ok then log_act (Close fd) s
                else s\<lparr>ipc_heap := (ipc_heap s)(c \<mapsto> new_client fd),
                       ipc_clients := c # ipc_clients s\<rparr>))"

text \<open>None is the answer false.\<close>

definition ipc_buffer_grow :: "bool \<Rightarrow> ipc_client \<Rightarrow> ipc_client option" where
  "ipc_buffer_grow mem_ok k =
     (if ic_size k \<ge> IPC_BUFFER_MAX then None
      else let new_size = ic_size k * 2;
               new_size = (if new_size > IPC_BUFFER_MAX then IPC_BUFFER_MAX else new_size)
           in if \<not> mem_ok then None
              else Some (k\<lparr>ic_buffer := ic_buffer k @ replicate (new_size - ic_size k) None,
                           ic_size := new_size\<rparr>))"

text \<open>
  The block that both ends of the read handler have: grow the buffer if it is nearly full, or
  give the client up. The answer says whether the client is still there.
\<close>

definition ipc_ensure_room :: "ipc_env \<Rightarrow> nat \<Rightarrow> ipc \<Rightarrow> ipc_fault + bool \<times> ipc" where
  "ipc_ensure_room env c s =
     (case ipc_heap s c of None \<Rightarrow> Inl UseAfterFree
      | Some k \<Rightarrow>
          if ic_used k \<ge> ic_size k - 1
          then (case ipc_buffer_grow (os_realloc env s (ic_size k)) k of
                  Some k' \<Rightarrow> Inr (True, put_client c k' s)
                | None \<Rightarrow>
                    bnd (ipc_client_destroy c
                           (log_act (Write (ic_fd k) (''ERROR Command too long'' @ [NL, NL])) s))
                      (\<lambda>s. Inr (False, s)))
          else Inr (True, s))"

text \<open>strchr for the newline: it stops at the terminator, and must not read past what was written.\<close>

fun strchr_nl :: "char option list \<Rightarrow> ipc_fault + nat option" where
  "strchr_nl [] = Inl OutOfBounds"
| "strchr_nl (None # m) = Inl OutOfBounds"
| "strchr_nl (Some x # m) =
     (if x = NL then Inr (Some 0)
      else if x = NUL then Inr None
      else bnd (strchr_nl m) (\<lambda>r. Inr (map_option Suc r)))"

text \<open>The loop over the complete lines. buffer_used is unsigned: below the line it would wrap.\<close>

fun ipc_commands :: "ipc_env \<Rightarrow> nat \<Rightarrow> nat \<Rightarrow> ipc \<Rightarrow> ipc_fault + ipc" where
  "ipc_commands env 0 c s = Inl OutOfFuel"
| "ipc_commands env (Suc fuel) c s =
     (case ipc_heap s c of None \<Rightarrow> Inl UseAfterFree
      | Some k \<Rightarrow>
          bnd (strchr_nl (ic_buffer k)) (\<lambda>newline.
          case newline of None \<Rightarrow> Inr s
          | Some command_len \<Rightarrow>
              let command = map the (take command_len (ic_buffer k))
              in bnd (if command_len > 0 then ipc_process_command env c command s else Inr s) (\<lambda>s.
                 case ipc_heap s c of None \<Rightarrow> Inl UseAfterFree
                 | Some k \<Rightarrow>
                     if ic_used k < command_len + 1 then Inl OutOfBounds
                     else let used = ic_used k - (command_len + 1)
                          in if command_len + 1 + (used + 1) > length (ic_buffer k) then Inl OutOfBounds
                             else ipc_commands env fuel c
                               (put_client c
                                  (k\<lparr>ic_used := used,
                                     ic_buffer := take (used + 1) (drop (command_len + 1) (ic_buffer k))
                                       @ drop (used + 1) (ic_buffer k)\<rparr>) s))))"

text \<open>
  A client is readable: waiting holds the bytes that arrived (none: the other end closed), or
  the error of read. The answer holds the bytes that were not read.
\<close>

datatype read_input = Waiting string | ReadError errno

text \<open>read stores what it got after the text, and the terminator follows it.\<close>

definition append_read :: "string \<Rightarrow> ipc_client \<Rightarrow> ipc_client" where
  "append_read got k = k\<lparr>ic_used := ic_used k + length got,
     ic_buffer := take (ic_used k) (ic_buffer k) @ map Some got
       @ Some NUL # drop (ic_used k + length got + 1) (ic_buffer k)\<rparr>"

definition ipc_read :: "ipc_env \<Rightarrow> nat \<Rightarrow> read_input \<Rightarrow> nat \<Rightarrow> ipc \<Rightarrow> ipc_fault + string \<times> ipc" where
  "ipc_read env fuel input c s =
     (case ipc_heap s c of None \<Rightarrow> Inl UseAfterFree
      | Some k \<Rightarrow>
          (let room = ic_size k - ic_used k - 1
           in case input of
                ReadError e \<Rightarrow> bnd (ipc_client_destroy c s) (\<lambda>s. Inr ([], s))
              | Waiting bytes \<Rightarrow>
                  let got = take room bytes; rest = drop room bytes
                  in if got = [] then bnd (ipc_client_destroy c s) (\<lambda>s. Inr (rest, s))
                     else if ic_used k + length got + 1 > length (ic_buffer k) then Inl OutOfBounds
                     else bnd (ipc_commands env fuel c (put_client c (append_read got k) s)) (\<lambda>s.
                          bnd (ipc_ensure_room env c s) (\<lambda>(_, s). Inr (rest, s)))))"

definition ipc_handle_client_data ::
    "ipc_env \<Rightarrow> nat \<Rightarrow> read_input \<Rightarrow> nat \<Rightarrow> ipc \<Rightarrow> ipc_fault + string \<times> ipc" where
  "ipc_handle_client_data env fuel input c s =
     bnd (ipc_ensure_room env c s) (\<lambda>(there, s).
       if there then ipc_read env fuel input c s
       else Inr (case input of Waiting bytes \<Rightarrow> bytes | ReadError e \<Rightarrow> [], s))"

subsection \<open>Start and end of the server\<close>

text \<open>
  The calls ipc_init makes, with what they answer: the environment variables, socket, the
  connect of the n-th probe (a missing socket or its errno), bind, stat, listen and the event
  loop. IPC_SOCKET_NAME is appended to the directory; snprintf cuts the path at 255 characters,
  and a socket address holds 107.
\<close>

record init_env =
  runtime_dir :: "string option"
  socket_override :: "string option"
  new_socket :: int
  probe_connect :: "nat \<Rightarrow> int \<times> errno option"
  bind_ok :: bool
  stat_answer :: "(nat \<times> nat) option"
  listen_ok :: bool
  add_fd_ok :: bool

definition sun_path_size :: nat where "sun_path_size = 108"

definition ipc_probe_socket :: "init_env \<Rightarrow> nat \<Rightarrow> string \<Rightarrow> int" where
  "ipc_probe_socket e n path =
     (if length path \<ge> sun_path_size then -1
      else if fst (probe_connect e n) < 0 then -1
      else case snd (probe_connect e n) of
             None \<Rightarrow> 1
           | Some err \<Rightarrow> if err = ENOENT \<or> err = ECONNREFUSED then 0 else -1)"

text \<open>The retries: what the last probe said, its number, and the state with the pauses.\<close>

fun probe_retry :: "init_env \<Rightarrow> nat \<Rightarrow> nat \<Rightarrow> int \<Rightarrow> ipc \<Rightarrow> int \<times> nat \<times> ipc" where
  "probe_retry e 0 n probe s = (probe, n, s)"
| "probe_retry e (Suc left) n probe s =
     (if probe > 0
      then probe_retry e left (Suc n) (ipc_probe_socket e (Suc n) (ipc_socket_path s)) (log_act Sleep s)
      else (probe, n, s))"

definition close_socket :: "ipc \<Rightarrow> ipc" where
  "close_socket s = (log_act (Close (ipc_socket_fd s)) s)\<lparr>ipc_socket_fd := -1\<rparr>"

definition ipc_bind :: "init_env \<Rightarrow> ipc \<Rightarrow> int \<times> ipc" where
  "ipc_bind e s =
     (if length (ipc_socket_path s) \<ge> sun_path_size then (-1, close_socket s)
      else if \<not> bind_ok e then (-1, close_socket s)
      else let s = s\<lparr>ipc_socket_stat := stat_answer e\<rparr>
           in if \<not> listen_ok e
              then let p = ipc_socket_path s in (-1, (log_act (Unlink p) (log_act (Close (ipc_socket_fd s)) s))\<lparr>ipc_socket_fd := -1\<rparr>)
              else if \<not> add_fd_ok e
              then let p = ipc_socket_path s in
                   (-1, (log_act (Unlink p) (log_act (Close (ipc_socket_fd s)) (s\<lparr>ipc_event_source := False\<rparr>)))\<lparr>ipc_socket_fd := -1\<rparr>)
              else (0, s\<lparr>ipc_event_source := True\<rparr>))"

definition build_path :: "init_env \<Rightarrow> string \<Rightarrow> string" where
  "build_path e dir =
     take 255 (case socket_override e of
                 Some (x # xs) \<Rightarrow> x # xs
               | _ \<Rightarrow> dir @ ''/'' @ ''somewm-socket'')"

definition ipc_init :: "init_env \<Rightarrow> ipc \<Rightarrow> int \<times> ipc" where
  "ipc_init e s =
     (let s = s\<lparr>ipc_clients := []\<rparr>
      in case runtime_dir e of None \<Rightarrow> (-1, s)
         | Some dir \<Rightarrow>
             let s = s\<lparr>ipc_socket_path := build_path e dir, ipc_socket_fd := new_socket e\<rparr>
             in if new_socket e < 0 then (-1, s)
                else let (probe, _, s) = probe_retry e 50 0 (ipc_probe_socket e 0 (ipc_socket_path s)) s
                     in if probe \<noteq> 0 then (-1, (close_socket s)\<lparr>ipc_socket_path := ''''\<rparr>)
                        else ipc_bind e (log_act (Unlink (ipc_socket_path s)) s))"

text \<open>now: the device and inode that stat finds at the path, if any.\<close>

fun destroy_all :: "nat list \<Rightarrow> ipc \<Rightarrow> ipc_fault + ipc" where
  "destroy_all [] s = Inr s"
| "destroy_all (c # cs) s = bnd (ipc_client_destroy c s) (destroy_all cs)"

definition ipc_cleanup :: "(nat \<times> nat) option \<Rightarrow> ipc \<Rightarrow> ipc_fault + ipc" where
  "ipc_cleanup now s =
     bnd (destroy_all (ipc_clients s) s) (\<lambda>s.
       let s = s\<lparr>ipc_event_source := False\<rparr>;
           s = (if ipc_socket_path s \<noteq> ''''
                then (if now \<noteq> None \<and> now = Some (case ipc_socket_stat s of None \<Rightarrow> (0, 0) | Some i \<Rightarrow> i)
                      then log_act (Unlink (ipc_socket_path s)) s else s)\<lparr>ipc_socket_path := ''''\<rparr>
                else s)
       in Inr (if 0 \<le> ipc_socket_fd s then close_socket s else s))"

subsection \<open>Rules for outcomes\<close>

text \<open>The outcome is one of the faults in F, or a value with the property P.\<close>

definition gives :: "ipc_fault set \<Rightarrow> ('a \<Rightarrow> bool) \<Rightarrow> ipc_fault + 'a \<Rightarrow> bool" where
  "gives F P r = (case r of Inl e \<Rightarrow> e \<in> F | Inr x \<Rightarrow> P x)"

lemma gives_simps [simp]: "gives F P (Inl e) \<longleftrightarrow> e \<in> F" "gives F P (Inr x) \<longleftrightarrow> P x"
  by (simp_all add: gives_def)

lemma gives_bnd: "gives F Q r \<Longrightarrow> (\<And>x. Q x \<Longrightarrow> gives F P (f x)) \<Longrightarrow> gives F P (bnd r f)"
  by (cases r) auto

lemma gives_mono: "gives F P r \<Longrightarrow> F \<subseteq> G \<Longrightarrow> (\<And>x. P x \<Longrightarrow> Q x) \<Longrightarrow> gives G Q r"
  by (cases r) auto

lemma gives_conj: "gives F P r \<Longrightarrow> gives F Q r \<Longrightarrow> gives F (\<lambda>x. P x \<and> Q x) r"
  by (cases r) auto

lemma gives_obtain: "gives {} P r \<Longrightarrow> (\<And>x. r = Inr x \<Longrightarrow> P x \<Longrightarrow> thesis) \<Longrightarrow> thesis"
  by (cases r) auto

lemma log_act_sel [simp]:
  "ipc_socket_fd (log_act a s) = ipc_socket_fd s" "ipc_clients (log_act a s) = ipc_clients s"
  "ipc_subscriber_count (log_act a s) = ipc_subscriber_count s"
  "ipc_socket_path (log_act a s) = ipc_socket_path s" "ipc_socket_stat (log_act a s) = ipc_socket_stat s"
  "ipc_heap (log_act a s) = ipc_heap s" "ipc_log (log_act a s) = ipc_log s @ [a]"
  by (simp_all add: log_act_def)

lemma put_client_sel [simp]:
  "ipc_clients (put_client c k s) = ipc_clients s" "ipc_log (put_client c k s) = ipc_log s"
  "ipc_subscriber_count (put_client c k s) = ipc_subscriber_count s"
  "ipc_heap (put_client c k s) = (ipc_heap s)(c \<mapsto> k)"
  by (simp_all add: put_client_def)

lemma send_response_sel [simp]:
  "ipc_clients (ipc_send_response fd r s) = ipc_clients s" "ipc_heap (ipc_send_response fd r s) = ipc_heap s"
  "ipc_subscriber_count (ipc_send_response fd r s) = ipc_subscriber_count s"
  by (simp_all add: ipc_send_response_def Let_def)

text \<open>
  What a handler may do to the server is three calls. A property of the state that survives
  them survives every handler, and with it the delivery of a command.
\<close>

locale lua_kept =
  fixes env :: ipc_env and P :: "ipc \<Rightarrow> bool"
  assumes log: "(\<And>fd command. a \<noteq> Dispatch fd command) \<Longrightarrow> P s \<Longrightarrow> P (log_act a s)"
    and subscribe: "P s \<Longrightarrow> gives {} P (ipc_subscribe_client fd s)"
    and broadcast: "P s \<Longrightarrow> gives {} P (ipc_broadcast env message s)"
begin

lemma send: "P s \<Longrightarrow> P (ipc_send_response fd r s)"
  by (simp add: ipc_send_response_def Let_def log)

lemma reply:
  "P s \<Longrightarrow> P (case r of RError err \<Rightarrow> ipc_send_response fd (error_response err) s | RNil \<Rightarrow> s
     | RString result \<Rightarrow> ipc_send_response fd result s
     | ROther \<Rightarrow> ipc_send_response fd (''ERROR No response from dispatcher'' @ [NL, NL]) s)"
  by (cases r) (simp_all add: send)

lemma run: "P s \<Longrightarrow> gives {} (\<lambda>(r, s). P s) (lua_run env k s)"
  by (induction k arbitrary: s) (auto intro: send gives_bnd [OF subscribe] gives_bnd [OF broadcast])

lemma dispatch:
  "P s \<Longrightarrow> P (log_act (Dispatch fd command) s) \<Longrightarrow> gives {} P (ipc_dispatch_to_lua env fd command s)"
  unfolding ipc_dispatch_to_lua_def
  by (auto split: lua_side.splits intro!: send reply gives_bnd [OF run])

lemma process:
  "P s \<Longrightarrow> P (log_act (Dispatch (ic_fd k) command) s) \<Longrightarrow> ipc_heap s c = Some k \<Longrightarrow>
     gives {} P (ipc_process_command env c command s)"
  unfolding ipc_process_command_def by (simp add: dispatch)

end

subsection \<open>The invariant\<close>

definition holds_text :: "ipc_client \<Rightarrow> string \<Rightarrow> bool" where
  "holds_text k t \<longleftrightarrow> ic_used k = length t \<and> length (ic_buffer k) = ic_size k \<and>
     (\<exists>rest. ic_buffer k = map Some t @ Some NUL # rest)"

definition wf_client :: "ipc_client \<Rightarrow> bool" where
  "wf_client k \<longleftrightarrow> (\<exists>t. holds_text k t) \<and> IPC_BUFFER_INITIAL \<le> ic_size k \<and> ic_size k \<le> IPC_BUFFER_MAX"

definition subscribed :: "ipc \<Rightarrow> nat \<Rightarrow> bool" where
  "subscribed s c \<longleftrightarrow> (case ipc_heap s c of None \<Rightarrow> False | Some k \<Rightarrow> ic_subscribed k)"

definition ipc_inv :: "ipc \<Rightarrow> bool" where
  "ipc_inv s \<longleftrightarrow> distinct (ipc_clients s) \<and> length (ipc_clients s) \<le> IPC_MAX_CLIENTS \<and>
     (\<forall>c. ipc_heap s c \<noteq> None \<longleftrightarrow> c \<in> set (ipc_clients s)) \<and>
     ipc_subscriber_count s = int (length (filter (subscribed s) (ipc_clients s))) \<and>
     (\<forall>c k. ipc_heap s c = Some k \<longrightarrow> wf_client k)"

lemma ipc_inv_log [simp]: "ipc_inv (log_act a s) = ipc_inv s"
  by (simp add: ipc_inv_def subscribed_def [abs_def])

lemma holds_text_used: "holds_text k t \<Longrightarrow> length t < ic_size k"
  by (auto simp: holds_text_def)

lemma holds_text_subscribed [simp]: "holds_text (k\<lparr>ic_subscribed := b\<rparr>) t = holds_text k t"
  "wf_client (k\<lparr>ic_subscribed := b\<rparr>) = wf_client k"
  by (simp_all add: holds_text_def wf_client_def)

text \<open>A client is replaced by one with the same subscription.\<close>

lemma ipc_inv_put:
  assumes "ipc_inv s" "ipc_heap s c = Some k" "wf_client k'" "ic_subscribed k' = ic_subscribed k"
  shows "ipc_inv (put_client c k' s)"
proof -
  have "subscribed (put_client c k' s) = subscribed s"
    using assms(2,4) by (auto simp: subscribed_def fun_eq_iff)
  then show ?thesis using assms unfolding ipc_inv_def by auto
qed

lemma inv_client:
  assumes "ipc_inv s" "c \<in> set (ipc_clients s)" obtains k where "ipc_heap s c = Some k" "wf_client k"
proof -
  have "ipc_heap s c \<noteq> None" using assms unfolding ipc_inv_def by blast
  then obtain k where k: "ipc_heap s c = Some k" by blast
  then have "wf_client k" using assms(1) by (simp add: ipc_inv_def)
  with k show ?thesis by (rule that)
qed

lemma destroy_ok:
  assumes "ipc_inv s" "c \<in> set (ipc_clients s)"
  shows "gives {} (\<lambda>s'. ipc_inv s' \<and> ipc_clients s' = remove1 c (ipc_clients s) \<and>
           ipc_heap s' = (ipc_heap s)(c := None)) (ipc_client_destroy c s)"
proof -
  obtain k where k: "ipc_heap s c = Some k" using assms by (rule inv_client)
  let ?cs = "ipc_clients s"
  have d: "distinct ?cs" and l: "length ?cs \<le> IPC_MAX_CLIENTS"
    and n: "ipc_subscriber_count s = int (length (filter (subscribed s) ?cs))"
    using assms(1) by (simp_all add: ipc_inv_def)
  obtain s' where s': "ipc_client_destroy c s = Inr s'" "ipc_clients s' = remove1 c ?cs"
      "ipc_heap s' = (ipc_heap s)(c := None)"
      "ipc_subscriber_count s' = ipc_subscriber_count s - (if ic_subscribed k then 1 else 0)"
    using k by (simp add: ipc_client_destroy_def Let_def)
  have "filter (subscribed s') (remove1 c ?cs) = filter (subscribed s) (remove1 c ?cs)"
    using d s'(3) by (intro filter_cong) (auto simp: subscribed_def)
  then have f: "filter (subscribed s') (remove1 c ?cs) = remove1 c (filter (subscribed s) ?cs)"
    by (simp add: filter_remove1 remove1_idem)
  have "c \<in> set (filter (subscribed s) ?cs) \<longleftrightarrow> ic_subscribed k"
    using assms(2) k by (simp add: subscribed_def)
  then have "ipc_subscriber_count s' = int (length (filter (subscribed s') (ipc_clients s')))"
    using length_pos_if_in_set [of c "filter (subscribed s) ?cs"] n s'(2,4) f
    by (auto simp: length_remove1 remove1_idem of_nat_diff Suc_leI)
  moreover have "length (remove1 c ?cs) \<le> IPC_MAX_CLIENTS"
    using l by (auto simp: length_remove1 intro: le_trans [OF diff_le_self])
  ultimately have "ipc_inv s'" using assms(1) d s'(2,3) unfolding ipc_inv_def by auto
  then show ?thesis using s' by simp
qed

lemma filter_upd_length:
  "c \<in> set xs \<Longrightarrow> distinct xs \<Longrightarrow> \<not> p c \<Longrightarrow> length (filter (p(c := True)) xs) = Suc (length (filter p xs))"
proof (induction xs)
  case (Cons x xs)
  show ?case
  proof (cases "x = c")
    case True
    then have "filter (p(c := True)) xs = filter p xs" using Cons.prems by (intro filter_cong) auto
    then show ?thesis using True Cons.prems by (simp del: fun_upd_apply add: fun_upd_same)
  next
    case False
    then show ?thesis using Cons by simp
  qed
qed simp

lemma subscribe_ok:
  assumes "ipc_inv s" shows "gives {} ipc_inv (ipc_subscribe_client fd s)"
proof -
  have "set cs \<subseteq> set (ipc_clients s) \<Longrightarrow> gives {} ipc_inv (subscribe_loop fd cs s)" for cs
  proof (induction cs)
    case Nil
    then show ?case using assms by simp
  next
    case (Cons c cs)
    have c: "c \<in> set (ipc_clients s)" using Cons.prems by simp
    obtain k where k: "ipc_heap s c = Some k" "wf_client k" using assms c by (rule inv_client)
    show ?case
    proof (cases "ic_fd k = fd \<and> \<not> ic_subscribed k")
      case True
      let ?s = "(put_client c (k\<lparr>ic_subscribed := True\<rparr>) s)
                  \<lparr>ipc_subscriber_count := ipc_subscriber_count s + 1\<rparr>"
      have d: "distinct (ipc_clients s)" using assms by (simp add: ipc_inv_def)
      have "subscribed ?s = (subscribed s)(c := True)" by (auto simp: subscribed_def fun_eq_iff)
      moreover have "\<not> subscribed s c" using True k by (simp add: subscribed_def)
      ultimately have "length (filter (subscribed ?s) (ipc_clients s)) =
          Suc (length (filter (subscribed s) (ipc_clients s)))"
        using filter_upd_length [OF c d] by metis
      moreover have "ipc_clients ?s = ipc_clients s" by simp
      ultimately show ?thesis
        using True k c d assms unfolding ipc_inv_def by (auto simp: put_client_def)
    next
      case False
      then show ?thesis using Cons assms k by auto
    qed
  qed
  then show ?thesis by (simp add: ipc_subscribe_client_def)
qed

lemma broadcast_loop_ok:
  "ipc_inv s \<Longrightarrow> set cs \<subseteq> set (ipc_clients s) \<Longrightarrow> distinct cs \<Longrightarrow>
     gives {} ipc_inv (broadcast_loop env message cs s)"
proof (induction cs arbitrary: s)
  case Nil
  then show ?case by simp
next
  case (Cons c cs)
  have c: "c \<in> set (ipc_clients s)" using Cons.prems by simp
  obtain k where k: "ipc_heap s c = Some k" using Cons.prems(1) c by (rule inv_client)
  let ?s = "log_act (Write (ic_fd k) message) s"
  have inv: "ipc_inv ?s" and sub: "set cs \<subseteq> set (ipc_clients ?s)" using Cons.prems by auto
  have next_ok: "gives {} ipc_inv (broadcast_loop env message cs ?s)"
    using Cons.prems by (intro Cons.IH) auto
  have "gives {} ipc_inv (bnd (ipc_client_destroy c ?s) (broadcast_loop env message cs))"
  proof (rule gives_bnd [OF destroy_ok])
    show "ipc_inv ?s" by (rule inv)
    show "c \<in> set (ipc_clients ?s)" using c by simp
  next
    fix s'
    assume s': "ipc_inv s' \<and> ipc_clients s' = remove1 c (ipc_clients ?s) \<and>
      ipc_heap s' = (ipc_heap ?s)(c := None)"
    have "distinct (ipc_clients s)" using Cons.prems(1) by (simp add: ipc_inv_def)
    then show "gives {} ipc_inv (broadcast_loop env message cs s')"
      using s' Cons.prems by (intro Cons.IH) (auto simp: set_remove1_eq)
  qed
  then show ?case
    using next_ok Cons k by (auto simp: Let_def split: write_result.splits)
qed

lemma broadcast_ok: "ipc_inv s \<Longrightarrow> gives {} ipc_inv (ipc_broadcast env message s)"
  unfolding ipc_broadcast_def using broadcast_loop_ok by (auto simp: ipc_inv_def)

interpretation inv: lua_kept env ipc_inv
  by unfold_locales (auto intro: subscribe_ok broadcast_ok)

lemma connection_ok:
  assumes "ipc_inv s" "ipc_heap s c = None"
  shows "ipc_inv (ipc_handle_connection accepted c add_ok s)"
proof -
  have c: "c \<notin> set (ipc_clients s)" using assms unfolding ipc_inv_def by blast
  have "0 < n \<Longrightarrow> replicate n x = x # replicate (n - 1) x" for n and x :: "char option"
    by (cases n) auto
  moreover have pos: "0 < IPC_BUFFER_INITIAL" by (simp add: IPC_BUFFER_INITIAL_def)
  ultimately have
    "replicate IPC_BUFFER_INITIAL (Some NUL) = Some NUL # replicate (IPC_BUFFER_INITIAL - 1) (Some NUL)"
    by blast
  then have "holds_text (new_client fd) []" for fd
    unfolding holds_text_def new_client_def using pos by auto
  then have wf: "wf_client (new_client fd)" for fd
    unfolding wf_client_def by (auto simp: new_client_def IPC_BUFFER_INITIAL_def IPC_BUFFER_MAX_def)
  show ?thesis
  proof (cases "IPC_MAX_CLIENTS \<le> length (ipc_clients s)")
    case True
    then show ?thesis using assms by (simp add: ipc_handle_connection_def split: sum.split)
  next
    case False
    have "ipc_inv (s\<lparr>ipc_heap := (ipc_heap s)(c \<mapsto> new_client fd), ipc_clients := c # ipc_clients s\<rparr>)"
      (is "ipc_inv ?s") for fd
    proof -
      have "filter (subscribed ?s) (ipc_clients s) = filter (subscribed s) (ipc_clients s)"
        using c by (intro filter_cong) (auto simp: subscribed_def)
      moreover have "\<not> subscribed ?s c" by (simp add: subscribed_def new_client_def)
      ultimately show ?thesis
        using assms c wf [of fd] False unfolding ipc_inv_def by auto
    qed
    then show ?thesis using assms False by (simp add: ipc_handle_connection_def split: sum.split)
  qed
qed

subsection \<open>What a handler leaves of a client\<close>

text \<open>Handlers subscribe clients and may lose some; nothing else of a client changes.\<close>

definition evolves :: "ipc \<Rightarrow> ipc \<Rightarrow> bool" where
  "evolves s s' \<longleftrightarrow> (\<forall>c k'. ipc_heap s' c = Some k' \<longrightarrow>
     (\<exists>k b. ipc_heap s c = Some k \<and> k' = k\<lparr>ic_subscribed := b\<rparr>))"

lemma evolves_refl [simp]: "ipc_heap s' = ipc_heap s \<Longrightarrow> evolves s s'"
proof -
  have "k = k\<lparr>ic_subscribed := ic_subscribed k\<rparr>" for k :: ipc_client by simp
  then show "ipc_heap s' = ipc_heap s \<Longrightarrow> evolves s s'" unfolding evolves_def by metis
qed

lemma evolves_trans [trans]: "evolves s t \<Longrightarrow> evolves t u \<Longrightarrow> evolves s u"
  unfolding evolves_def by fastforce

lemma evolvesD:
  "evolves s s' \<Longrightarrow> ipc_heap s c = Some k \<Longrightarrow> ipc_heap s' c \<noteq> None \<Longrightarrow>
     \<exists>b. ipc_heap s' c = Some (k\<lparr>ic_subscribed := b\<rparr>)"
  unfolding evolves_def by fastforce

text \<open>No handler dispatches a command, and a client whose writes succeed is not lost.\<close>

fun dispatches :: "ipc_act list \<Rightarrow> (int \<times> string) list" where
  "dispatches [] = []"
| "dispatches (Dispatch fd command # l) = (fd, command) # dispatches l"
| "dispatches (_ # l) = dispatches l"

lemma dispatches_append [simp]: "dispatches (l @ m) = dispatches l @ dispatches m"
  by (induction l rule: dispatches.induct) auto

definition quiet :: "ipc_env \<Rightarrow> int \<Rightarrow> bool" where
  "quiet env fd \<longleftrightarrow> (\<forall>s message e. os_write env s fd message = WriteError e \<longrightarrow> e = EAGAIN \<or> e = EINTR)"

text \<open>
  survives s s': s' came from s through handlers. A client of s with descriptor fd is still
  there if its writes succeed, and the commands dispatched are the same.
\<close>

definition survives :: "ipc_env \<Rightarrow> ipc \<Rightarrow> ipc \<Rightarrow> bool" where
  "survives env s s' \<longleftrightarrow> evolves s s' \<and> dispatches (ipc_log s') = dispatches (ipc_log s) \<and>
     (\<forall>c k. ipc_heap s c = Some k \<longrightarrow> quiet env (ic_fd k) \<longrightarrow> ipc_heap s' c \<noteq> None)"

lemma survives_refl [simp]: "survives env s s"
  by (simp add: survives_def)

lemma survives_trans [trans]: "survives env s t \<Longrightarrow> survives env t u \<Longrightarrow> survives env s u"
  unfolding survives_def
  by (metis (mono_tags, lifting) evolvesD evolves_trans ipc_client.select_convs(1)
      ipc_client.surjective ipc_client.update_convs(6))

lemma survives_log: "(\<And>fd command. a \<noteq> Dispatch fd command) \<Longrightarrow> survives env s (log_act a s)"
  by (cases a) (auto simp: survives_def)

lemma survives_destroy:
  assumes "ipc_client_destroy c s = Inr s'" "ipc_heap s c = Some k" "\<not> quiet env (ic_fd k)"
  shows "survives env s s'"
proof -
  have h: "ipc_heap s' = (ipc_heap s)(c := None)"
    and l: "dispatches (ipc_log s') = dispatches (ipc_log s)"
    using assms by (auto simp: ipc_client_destroy_def Let_def)
  have "evolves s (s\<lparr>ipc_heap := ipc_heap s\<rparr>)" by (rule evolves_refl) simp
  then show ?thesis using h l assms unfolding survives_def evolves_def by auto
qed

lemma survives_subscribe: "gives UNIV (survives env s) (ipc_subscribe_client fd s)"
proof -
  have "gives UNIV (survives env s) (subscribe_loop fd cs s)" for cs
  proof (induction cs)
    case (Cons c cs)
    have "survives env s ((put_client c (k\<lparr>ic_subscribed := True\<rparr>) s)\<lparr>ipc_subscriber_count := n\<rparr>)"
      if "ipc_heap s c = Some k" for k n
    proof -
      have "evolves s s" by simp
      then show ?thesis using that by (auto simp: survives_def evolves_def)
    qed
    then show ?case using Cons by (auto split: option.splits)
  qed simp
  then show ?thesis by (simp add: ipc_subscribe_client_def)
qed

lemma survives_broadcast: "gives UNIV (survives env s) (ipc_broadcast env message s)"
proof -
  have "gives UNIV (survives env s) (broadcast_loop env message cs s)" for cs
  proof (induction cs arbitrary: s)
    case (Cons c cs)
    show ?case
    proof (cases "ipc_heap s c")
      case (Some k)
      let ?s = "log_act (Write (ic_fd k) message) s"
      have log: "survives env s ?s" by (rule survives_log) simp
      have next_ok: "gives UNIV (survives env s) (broadcast_loop env message cs ?s)"
        using Cons.IH [of ?s] by (rule gives_mono) (auto intro: survives_trans [OF log])
      have "gives UNIV (survives env s) (bnd (ipc_client_destroy c ?s) (broadcast_loop env message cs))"
        if "os_write env s (ic_fd k) message = WriteError e" "e \<noteq> EAGAIN" "e \<noteq> EINTR" for e
      proof -
        have "\<not> quiet env (ic_fd k)" using that unfolding quiet_def by blast
        then have "gives UNIV (survives env s) (ipc_client_destroy c ?s)"
          using Some by (cases "ipc_client_destroy c ?s")
            (auto intro!: survives_trans [OF log] survives_destroy)
        then show ?thesis
          by (rule gives_bnd) (rule gives_mono [OF Cons.IH], auto intro: survives_trans)
      qed
      then show ?thesis
        using next_ok Cons.IH [of s] Some by (auto simp: Let_def split: write_result.splits)
    qed simp
  qed simp
  then show ?thesis by (simp add: ipc_broadcast_def)
qed

lemma gives_both: "gives F P r \<Longrightarrow> gives UNIV Q r \<Longrightarrow> gives F (\<lambda>x. P x \<and> Q x) r"
  by (cases r) auto

interpretation surv: lua_kept env "\<lambda>s. ipc_inv s \<and> survives env s0 s"
proof
  fix s a fd message
  assume s: "ipc_inv s \<and> survives env s0 s"
  show "ipc_inv (log_act a s) \<and> survives env s0 (log_act a s)" if "\<And>fd command. a \<noteq> Dispatch fd command"
    using s survives_log [OF that] by (auto intro: survives_trans)
  show "gives {} (\<lambda>s. ipc_inv s \<and> survives env s0 s) (ipc_subscribe_client fd s)"
    using s by (intro gives_both subscribe_ok gives_mono [OF survives_subscribe]) (auto intro: survives_trans)
  show "gives {} (\<lambda>s. ipc_inv s \<and> survives env s0 s) (ipc_broadcast env message s)"
    using s by (intro gives_both broadcast_ok gives_mono [OF survives_broadcast]) (auto intro: survives_trans)
qed

subsection \<open>The read handler keeps the buffer\<close>

fun first_nl :: "string \<Rightarrow> nat option" where
  "first_nl [] = None"
| "first_nl (x # t) = (if x = NL then Some 0 else if x = NUL then None else map_option Suc (first_nl t))"

lemma strchr_nl_text: "strchr_nl (map Some t @ Some NUL # rest) = Inr (first_nl t)"
  by (induction t) auto

lemma first_nl_Some: "first_nl t = Some n \<Longrightarrow> n < length t \<and> t = take n t @ NL # drop (Suc n) t \<and> NL \<notin> set (take n t)"
  by (induction t arbitrary: n) (auto split: if_splits)

lemma first_nl_None: "first_nl t = None \<Longrightarrow> NUL \<notin> set t \<Longrightarrow> NL \<notin> set t"
  by (induction t) (auto split: if_splits)

text \<open>The first line is moved out of the buffer.\<close>

definition drop_line :: "nat \<Rightarrow> ipc_client \<Rightarrow> ipc_client" where
  "drop_line n k = k\<lparr>ic_used := ic_used k - (n + 1),
     ic_buffer := take (ic_used k - (n + 1) + 1) (drop (n + 1) (ic_buffer k))
       @ drop (ic_used k - (n + 1) + 1) (ic_buffer k)\<rparr>"

lemma drop_line_ok:
  assumes "holds_text k t" "n < length t"
  shows "n + 1 + (ic_used k - (n + 1) + 1) \<le> length (ic_buffer k)" and "holds_text (drop_line n k) (drop (Suc n) t)"
proof -
  obtain rest where b: "ic_buffer k = map Some t @ Some NUL # rest" and u: "ic_used k = length t"
    and l: "length (ic_buffer k) = ic_size k"
    using assms by (auto simp: holds_text_def)
  show "n + 1 + (ic_used k - (n + 1) + 1) \<le> length (ic_buffer k)" using assms(2) b u by simp
  have "take (Suc (length ys)) (map Some ys @ x # zs) = map Some ys @ [x]" for ys :: string and x zs by simp
  from this [of "drop (Suc n) t"]
  have "take (length t - Suc n + 1) (drop (Suc n) (ic_buffer k)) = map Some (drop (Suc n) t) @ [Some NUL]"
    using assms(2) by (simp add: b drop_map)
  moreover have "length t < ic_size k" using assms(1) by (rule holds_text_used)
  ultimately show "holds_text (drop_line n k) (drop (Suc n) t)"
    using assms(2) u l by (auto simp: holds_text_def drop_line_def)
qed

lemma drop_line_sel [simp]:
  "ic_fd (drop_line n k) = ic_fd k" "ic_size (drop_line n k) = ic_size k"
  "ic_subscribed (drop_line n k) = ic_subscribed k"
  "drop_line n (k\<lparr>ic_subscribed := b\<rparr>) = (drop_line n k)\<lparr>ic_subscribed := b\<rparr>"
  by (simp_all add: drop_line_def)

lemma wf_drop_line: "wf_client k \<Longrightarrow> holds_text k t \<Longrightarrow> n < length t \<Longrightarrow> wf_client (drop_line n k)"
  using drop_line_ok(2) by (fastforce simp: wf_client_def)

text \<open>One round of the loop, for the text the buffer holds.\<close>

lemma commands_round:
  assumes "ipc_heap s c = Some k" "holds_text k t"
  shows "ipc_commands env (Suc fuel) c s =
    (case first_nl t of None \<Rightarrow> Inr s
     | Some n \<Rightarrow>
         bnd (if n > 0 then ipc_process_command env c (take n t) s else Inr s) (\<lambda>s.
           case ipc_heap s c of None \<Rightarrow> Inl UseAfterFree
           | Some k \<Rightarrow>
               if ic_used k < n + 1 then Inl OutOfBounds
               else if n + 1 + (ic_used k - (n + 1) + 1) > length (ic_buffer k) then Inl OutOfBounds
               else ipc_commands env fuel c (put_client c (drop_line n k) s)))"
proof -
  obtain rest where b: "ic_buffer k = map Some t @ Some NUL # rest"
    using assms by (auto simp: holds_text_def)
  have "take n (ic_buffer k) = map Some (take n t)" if "first_nl t = Some n" for n
    using first_nl_Some [OF that] by (simp add: b take_map)
  then have cmd: "map the (take n (ic_buffer k)) = take n t" if "first_nl t = Some n" for n
    using that by (simp add: comp_def)
  show ?thesis
  proof (cases "first_nl t")
    case None
    then show ?thesis using assms by (simp add: strchr_nl_text b)
  next
    case (Some n)
    have "strchr_nl (ic_buffer k) = Inr (Some n)" using Some by (simp add: strchr_nl_text b)
    then show ?thesis
      by (simp only: ipc_commands.simps assms(1) option.case bnd_simps Some cmd [OF Some] Let_def drop_line_def)
  qed
qed

text \<open>A command leaves every client whose writes succeed, and dispatches itself only.\<close>

lemma dispatch_survives:
  assumes "ipc_inv s"
  shows "gives {} (\<lambda>s'. ipc_inv s' \<and>
      survives env (case lua_state env s of Dispatcher f \<Rightarrow> log_act (Dispatch fd command) s | _ \<Rightarrow> s) s')
    (ipc_dispatch_to_lua env fd command s)"
proof -
  let ?s = "log_act (Dispatch fd command) s"
  have s: "ipc_inv s \<and> survives env s s" and d: "ipc_inv ?s \<and> survives env ?s ?s" using assms by simp_all
  have "gives {} (\<lambda>s'. ipc_inv s' \<and> survives env ?s s')
      (bnd (lua_run env k ?s) (\<lambda>(r, s). Inr (case r of
                RError err \<Rightarrow> ipc_send_response fd (error_response err) s
              | RNil \<Rightarrow> s
              | RString result \<Rightarrow> ipc_send_response fd result s
              | ROther \<Rightarrow> ipc_send_response fd (''ERROR No response from dispatcher'' @ [NL, NL]) s)))" for k
    by (rule gives_bnd [OF surv.run [OF d]]) (simp only: gives_simps split_beta, rule surv.reply)
  then show ?thesis
    unfolding ipc_dispatch_to_lua_def using surv.send [OF s] by (auto split: lua_side.splits)
qed

lemma dispatch_evolves:
  assumes "ipc_inv s"
  shows "gives {} (\<lambda>s'. ipc_inv s' \<and> evolves s s') (ipc_dispatch_to_lua env fd command s)"
proof (rule gives_mono [OF dispatch_survives [OF assms]])
  fix s'
  assume "ipc_inv s' \<and> survives env
    (case lua_state env s of Dispatcher f \<Rightarrow> log_act (Dispatch fd command) s | _ \<Rightarrow> s) s'"
  moreover have e: "evolves s (log_act (Dispatch fd command) s)" by (rule evolves_refl) simp
  ultimately show "ipc_inv s' \<and> evolves s s'"
    by (auto simp: survives_def split: lua_side.splits intro: evolves_trans [OF e])
qed simp

lemma client_listed: "ipc_inv s \<Longrightarrow> ipc_heap s c = Some k \<Longrightarrow> c \<in> set (ipc_clients s) \<and> wf_client k"
  unfolding ipc_inv_def by blast

lemma commands_ok:
  assumes "ipc_inv s" "ipc_heap s c = Some k" "holds_text k t" "length t < fuel"
  shows "gives {UseAfterFree} (\<lambda>s'. ipc_inv s' \<and> c \<in> set (ipc_clients s')) (ipc_commands env fuel c s)"
  using assms
proof (induction fuel arbitrary: s k t)
  case 0
  then show ?case by simp
next
  case (Suc fuel)
  note c = client_listed [OF Suc.prems(1,2)]
  show ?case
  proof (cases "first_nl t")
    case None
    then show ?thesis using commands_round [OF Suc.prems(2,3)] Suc.prems(1) c by simp
  next
    case (Some n)
    note nl = first_nl_Some [OF Some]
    let ?r = "if n > 0 then ipc_process_command env c (take n t) s else Inr s"
    have "gives {} (\<lambda>s'. ipc_inv s' \<and> evolves s s') ?r"
      using Suc.prems(1,2) dispatch_evolves by (simp add: ipc_process_command_def)
    then obtain s' where r: "?r = Inr s'" and inv: "ipc_inv s'" and ev: "evolves s s'"
      by (rule gives_obtain) auto
    show ?thesis
    proof (cases "ipc_heap s' c")
      case None
      then show ?thesis unfolding commands_round [OF Suc.prems(2,3)] Some option.case r by simp
    next
      case (Some k')
      then obtain b where k': "k' = k\<lparr>ic_subscribed := b\<rparr>" using evolvesD [OF ev Suc.prems(2)] by auto
      then have h': "holds_text k' t" using Suc.prems(3) by simp
      note dl = drop_line_ok [OF h', of n]
      have u: "\<not> ic_used k' < n + 1" using nl h' by (simp add: holds_text_def)
      have "wf_client (drop_line n k')"
        using wf_drop_line [OF _ h'] client_listed [OF inv Some] nl by blast
      then have "ipc_inv (put_client c (drop_line n k') s')" by (intro ipc_inv_put [OF inv Some]) simp_all
      then have "gives {UseAfterFree} (\<lambda>s'. ipc_inv s' \<and> c \<in> set (ipc_clients s'))
          (ipc_commands env fuel c (put_client c (drop_line n k') s'))"
        by (rule Suc.IH [where t = "drop (Suc n) t"]) (use dl nl Suc.prems(4) in auto)
      then show ?thesis
        using u dl(1) nl Some
        unfolding commands_round [OF Suc.prems(2,3)] \<open>first_nl t = Some n\<close> option.case r by simp
    qed
  qed
qed

lemma grow_ok:
  assumes "ipc_buffer_grow ok k = Some k'" "holds_text k t" "wf_client k"
  shows "wf_client k'" and "holds_text k' t" and "ic_fd k' = ic_fd k" and "ic_subscribed k' = ic_subscribed k"
    and "ic_size k < ic_size k'" and "ic_size k' = min (2 * ic_size k) IPC_BUFFER_MAX"
proof -
  let ?n = "if ic_size k * 2 > IPC_BUFFER_MAX then IPC_BUFFER_MAX else ic_size k * 2"
  have k': "k' = k\<lparr>ic_buffer := ic_buffer k @ replicate (?n - ic_size k) None, ic_size := ?n\<rparr>"
    and small: "ic_size k < IPC_BUFFER_MAX"
    using assms(1) by (auto simp: ipc_buffer_grow_def Let_def split: if_splits)
  have pos: "0 < ic_size k" using holds_text_used [OF assms(2)] by simp
  show "ic_fd k' = ic_fd k" "ic_subscribed k' = ic_subscribed k" by (simp_all add: k')
  show "ic_size k < ic_size k'" "ic_size k' = min (2 * ic_size k) IPC_BUFFER_MAX"
    using small pos by (auto simp: k')
  show h: "holds_text k' t" using assms(2) small by (auto simp: k' holds_text_def)
  show "wf_client k'" using h assms(3) small by (auto simp: k' wf_client_def)
qed

lemma ensure_room_ok:
  assumes "ipc_inv s" "ipc_heap s c = Some k" "holds_text k t"
  shows "gives {} (\<lambda>(there, s'). ipc_inv s' \<and> (there \<longrightarrow>
           (\<exists>k'. ipc_heap s' c = Some k' \<and> holds_text k' t \<and> length t < ic_size k' - 1))) (ipc_ensure_room env c s)"
proof (cases "ic_used k \<ge> ic_size k - 1")
  case False
  then show ?thesis using assms by (auto simp: ipc_ensure_room_def holds_text_def)
next
  case True
  note cl = client_listed [OF assms(1,2)]
  show ?thesis
  proof (cases "ipc_buffer_grow (os_realloc env s (ic_size k)) k")
    case None
    let ?s = "log_act (Write (ic_fd k) (''ERROR Command too long'' @ [NL, NL])) s"
    have "gives {} ipc_inv (ipc_client_destroy c ?s)"
      by (rule gives_mono [OF destroy_ok]) (use assms(1) cl in auto)
    then show ?thesis
      using True None assms(2) by (simp add: ipc_ensure_room_def) (rule gives_bnd, auto)
  next
    case (Some k')
    note g = grow_ok [OF Some assms(3) cl [THEN conjunct2]]
    have "length t < ic_size k' - 1" using g(5) holds_text_used [OF assms(3)] by simp
    then show ?thesis
      using True Some assms(2) g ipc_inv_put [OF assms(1,2) g(1)] by (auto simp: ipc_ensure_room_def)
  qed
qed

lemma fill_ok:
  assumes "holds_text k t" "wf_client k" "length t + length got < ic_size k"
  shows "ic_used k + length got + 1 \<le> length (ic_buffer k)"
    and "holds_text (append_read got k) (t @ got)" and "wf_client (append_read got k)"
proof -
  let ?k = "append_read got k"
  have l: "length (ic_buffer k) = ic_size k" and u: "ic_used k = length t"
    and b: "take (length t) (ic_buffer k) = map Some t"
    using assms(1) by (auto simp: holds_text_def)
  show "ic_used k + length got + 1 \<le> length (ic_buffer k)" using assms(3) l u by simp
  show "holds_text ?k (t @ got)" using assms(3) l u b by (auto simp: holds_text_def append_read_def)
  then show "wf_client ?k" using assms(2) by (auto simp: wf_client_def append_read_def)
qed

lemma read_waiting:
  assumes "ipc_heap s c = Some k" "got = take (ic_size k - ic_used k - 1) bytes" "got \<noteq> []"
    "ic_used k + length got + 1 \<le> length (ic_buffer k)"
  shows "ipc_read env fuel (Waiting bytes) c s =
     bnd (ipc_commands env fuel c (put_client c (append_read got k) s)) (\<lambda>s.
       bnd (ipc_ensure_room env c s) (\<lambda>(_, s). Inr (drop (ic_size k - ic_used k - 1) bytes, s)))"
  using assms by (simp add: ipc_read_def Let_def)

lemma read_ok:
  assumes "ipc_inv s" "ipc_heap s c = Some k" "holds_text k t" "IPC_BUFFER_MAX < fuel"
  shows "gives {UseAfterFree} (\<lambda>(rest, s'). ipc_inv s') (ipc_read env fuel input c s)"
proof -
  note cl = client_listed [OF assms(1,2)]
  have gone: "gives {UseAfterFree} (\<lambda>(rest, s'). ipc_inv s') (bnd (ipc_client_destroy c s) (\<lambda>s. Inr (rest, s)))"
    for rest :: string
    by (rule gives_bnd [OF gives_mono [OF destroy_ok]]) (use assms(1) cl in auto)
  show ?thesis
  proof (cases input)
    case (ReadError e)
    then show ?thesis using gone assms(2) by (simp add: ipc_read_def)
  next
    case (Waiting bytes)
    define got where "got = take (ic_size k - ic_used k - 1) bytes"
    show ?thesis
    proof (cases "got = []")
      case True
      then show ?thesis using gone assms(2) Waiting by (simp add: ipc_read_def Let_def got_def)
    next
      case False
      then have room: "length t + length got < ic_size k"
        using assms(3) by (auto simp: got_def holds_text_def)
      let ?k = "append_read got k"
      note f = fill_ok [OF assms(3) cl [THEN conjunct2] room]
      have "ipc_inv (put_client c ?k s)" by (rule ipc_inv_put [OF assms(1,2) f(3)]) (simp add: append_read_def)
      then have "gives {UseAfterFree} (\<lambda>s'. ipc_inv s' \<and> c \<in> set (ipc_clients s')) (ipc_commands env fuel c (put_client c ?k s))"
      proof (rule commands_ok)
        show "ipc_heap (put_client c ?k s) c = Some ?k" by simp
        show "holds_text ?k (t @ got)" by (rule f(2))
        show "length (t @ got) < fuel" using room cl assms(4) by (simp add: wf_client_def)
      qed
      then have "gives {UseAfterFree} (\<lambda>(rest, s'). ipc_inv s')
         (bnd (ipc_commands env fuel c (put_client c ?k s)) (\<lambda>s.
            bnd (ipc_ensure_room env c s) (\<lambda>(_, s). Inr (rest, s))))" for rest :: string
      proof (rule gives_bnd)
        fix s1
        assume s1: "ipc_inv s1 \<and> c \<in> set (ipc_clients s1)"
        then obtain k1 where k1: "ipc_heap s1 c = Some k1" "wf_client k1" using inv_client by blast
        then obtain t1 where "holds_text k1 t1" by (auto simp: wf_client_def)
        with s1 k1 have "gives {} (\<lambda>(there, s'). ipc_inv s') (ipc_ensure_room env c s1)"
          by (intro gives_mono [OF ensure_room_ok]) auto
        then show "gives {UseAfterFree} (\<lambda>(rest, s'). ipc_inv s')
            (bnd (ipc_ensure_room env c s1) (\<lambda>(_, s). Inr (rest, s)))"
          by (cases "ipc_ensure_room env c s1") auto
      qed
      then show ?thesis
        unfolding Waiting read_waiting [OF assms(2) got_def False f(1)] .
    qed
  qed
qed

lemma handle_ok:
  assumes "ipc_inv s" "ipc_heap s c \<noteq> None" "IPC_BUFFER_MAX < fuel"
  shows "gives {UseAfterFree} (\<lambda>(rest, s'). ipc_inv s') (ipc_handle_client_data env fuel input c s)"
proof -
  obtain k where k: "ipc_heap s c = Some k" using assms(2) by auto
  then obtain t where t: "holds_text k t" using client_listed [OF assms(1) k] by (auto simp: wf_client_def)
  from ensure_room_ok [OF assms(1) k t, of env]
  obtain there s1 where r: "ipc_ensure_room env c s = Inr (there, s1)" and s1: "ipc_inv s1"
    "there \<Longrightarrow> \<exists>k'. ipc_heap s1 c = Some k' \<and> holds_text k' t"
    by (rule gives_obtain) auto
  then show ?thesis
    using read_ok [OF s1(1) _ _ assms(3)] by (auto simp: ipc_handle_client_data_def)
qed

subsection \<open>Reachable states of the server\<close>

definition ipc_fuel :: nat where "ipc_fuel = Suc IPC_BUFFER_MAX"

text \<open>
  The server starts once. Then connections arrive at a free address, clients become readable,
  and Lua code that runs for other reasons calls the registered functions.
\<close>

inductive ipc_reachable :: "ipc_env \<Rightarrow> ipc \<Rightarrow> bool" for env where
  ipc_started: "ipc_init e s0 = (0, s) \<Longrightarrow> ipc_heap s0 = (\<lambda>_. None) \<Longrightarrow> ipc_subscriber_count s0 = 0 \<Longrightarrow>
     ipc_reachable env s"
| ipc_connected: "ipc_reachable env s \<Longrightarrow> ipc_heap s c = None \<Longrightarrow>
     ipc_reachable env (ipc_handle_connection accepted c add_ok s)"
| ipc_readable: "ipc_reachable env s \<Longrightarrow> ipc_heap s c \<noteq> None \<Longrightarrow>
     ipc_handle_client_data env ipc_fuel input c s = Inr (rest, s') \<Longrightarrow> ipc_reachable env s'"
| ipc_lua: "ipc_reachable env s \<Longrightarrow> lua_run env k s = Inr (r, s') \<Longrightarrow> ipc_reachable env s'"

lemma probe_retry_frame:
  "probe_retry e left n probe s = (p, m, s') \<Longrightarrow> ipc_heap s' = ipc_heap s \<and> ipc_clients s' = ipc_clients s \<and>
     ipc_subscriber_count s' = ipc_subscriber_count s \<and> ipc_socket_path s' = ipc_socket_path s \<and>
     ipc_socket_fd s' = ipc_socket_fd s"
  by (induction left arbitrary: n probe s) (auto split: if_splits)

lemma ipc_bind_frame:
  assumes "ipc_bind e s = (rc, s')"
  shows "ipc_heap s' = ipc_heap s \<and> ipc_clients s' = ipc_clients s \<and>
    ipc_subscriber_count s' = ipc_subscriber_count s \<and> ipc_socket_path s' = ipc_socket_path s"
  using assms by (auto simp: ipc_bind_def close_socket_def Let_def split: if_splits)

lemma ipc_init_frame:
  assumes "ipc_init e s = (rc, s')"
  shows "ipc_heap s' = ipc_heap s \<and> ipc_clients s' = [] \<and> ipc_subscriber_count s' = ipc_subscriber_count s"
proof (cases "runtime_dir e")
  case None
  then show ?thesis using assms by (auto simp: ipc_init_def)
next
  case (Some dir)
  define s1 where "s1 = s\<lparr>ipc_clients := [], ipc_socket_path := build_path e dir, ipc_socket_fd := new_socket e\<rparr>"
  obtain p n s2 where r: "probe_retry e 50 0 (ipc_probe_socket e 0 (ipc_socket_path s1)) s1 = (p, n, s2)"
    by (rule prod_cases3)
  have "ipc_init e s = (if new_socket e < 0 then (-1, s1)
      else if p \<noteq> 0 then (-1, (close_socket s2)\<lparr>ipc_socket_path := ''''\<rparr>)
      else ipc_bind e (log_act (Unlink (ipc_socket_path s2)) s2))"
    using Some r by (simp add: ipc_init_def Let_def s1_def)
  then show ?thesis
    using assms probe_retry_frame [OF r] ipc_bind_frame [of e _ rc s']
    by (auto simp: s1_def close_socket_def split: if_splits)
qed

lemma reachable_inv: "ipc_reachable env s \<Longrightarrow> ipc_inv s"
proof (induction rule: ipc_reachable.induct)
  case (ipc_started e s0 s)
  then show ?case using ipc_init_frame [OF ipc_started(1)] by (simp add: ipc_inv_def)
next
  case (ipc_connected s c accepted add_ok)
  then show ?case by (simp add: connection_ok)
next
  case (ipc_readable s c input rest s')
  have "gives {UseAfterFree} (\<lambda>(rest, s'). ipc_inv s') (ipc_handle_client_data env ipc_fuel input c s)"
    using ipc_readable by (intro handle_ok) (simp_all add: ipc_fuel_def)
  then show ?case using ipc_readable by simp
next
  case (ipc_lua s k r s')
  have "gives {} (\<lambda>(r, s). ipc_inv s) (lua_run env k s)" using ipc_lua by (intro inv.run)
  then show ?case using ipc_lua by simp
qed

text \<open>
  C19: In every reachable state there are at most ten connections, the number of subscribers
  is counted right, every buffer holds its text with a terminator inside memory of at most a
  megabyte, and whatever a readable client sends, the handler comes to an end and never leaves
  its buffer.
\<close>

theorem ipc_server_sound:
  assumes "ipc_reachable env s"
  shows "length (ipc_clients s) \<le> 10 \<and>
    ipc_subscriber_count s = int (length (filter (subscribed s) (ipc_clients s))) \<and>
    (\<forall>c k. ipc_heap s c = Some k \<longrightarrow> c \<in> set (ipc_clients s) \<and> ic_used k < ic_size k \<and>
       ic_size k = length (ic_buffer k) \<and> ic_size k \<le> 1024 * 1024 \<and> ic_buffer k ! ic_used k = Some NUL) \<and>
    (\<forall>c input. ipc_heap s c \<noteq> None \<longrightarrow>
       ipc_handle_client_data env ipc_fuel input c s \<notin> {Inl OutOfBounds, Inl OutOfFuel})"
proof -
  have inv: "ipc_inv s" using assms by (rule reachable_inv)
  have "ic_used k < ic_size k \<and> ic_size k = length (ic_buffer k) \<and> ic_size k \<le> 1024 * 1024 \<and>
      ic_buffer k ! ic_used k = Some NUL" if "wf_client k" for k
    using that by (auto simp: wf_client_def holds_text_def IPC_BUFFER_MAX_def nth_append)
  moreover have "ipc_handle_client_data env ipc_fuel input c s \<notin> {Inl OutOfBounds, Inl OutOfFuel}"
    if "ipc_heap s c \<noteq> None" for c input
    using handle_ok [OF inv that, of ipc_fuel env input] by (auto simp: ipc_fuel_def)
  ultimately have c1: "\<forall>c k. ipc_heap s c = Some k \<longrightarrow> c \<in> set (ipc_clients s) \<and> ic_used k < ic_size k \<and>
      ic_size k = length (ic_buffer k) \<and> ic_size k \<le> 1024 * 1024 \<and> ic_buffer k ! ic_used k = Some NUL"
    and c2: "\<forall>c input. ipc_heap s c \<noteq> None \<longrightarrow>
      ipc_handle_client_data env ipc_fuel input c s \<notin> {Inl OutOfBounds, Inl OutOfFuel}"
    using client_listed [OF inv] by blast+
  show ?thesis
    using inv by (intro conjI c1 c2) (simp_all add: ipc_inv_def IPC_MAX_CLIENTS_def)
qed

subsection \<open>Commands are the lines of the stream\<close>

text \<open>The reference: cutting a stream of bytes into its lines, one byte at a time.\<close>

definition frame_step :: "string list \<times> string \<Rightarrow> char \<Rightarrow> string list \<times> string" where
  "frame_step acc x =
     (case acc of (ls, cur) \<Rightarrow> if x = NL then (ls @ [cur], []) else (ls, cur @ [x]))"

definition frames :: "string \<Rightarrow> string list \<times> string" where
  "frames t = foldl frame_step ([], []) t"

lemma foldl_frame_no_nl: "NL \<notin> set t \<Longrightarrow> foldl frame_step (ls, cur) t = (ls, cur @ t)"
  by (induction t arbitrary: cur) (auto simp: frame_step_def)

lemma foldl_frame_acc:
  "foldl frame_step (ls @ ms, cur) t =
     (ls @ fst (foldl frame_step (ms, cur) t), snd (foldl frame_step (ms, cur) t))"
  by (induction t arbitrary: ms cur) (auto simp: frame_step_def)

lemma frames_no_nl: "NL \<notin> set t \<Longrightarrow> frames t = ([], t)"
  by (simp add: frames_def foldl_frame_no_nl)

lemma frames_line:
  assumes "NL \<notin> set a" shows "frames (a @ NL # b) = (a # fst (frames b), snd (frames b))"
proof -
  have "frames (a @ NL # b) = foldl frame_step ([a] @ [], []) b"
    using assms by (simp add: frames_def foldl_frame_no_nl frame_step_def)
  then show ?thesis by (simp only: foldl_frame_acc frames_def) simp
qed

lemma frames_append:
  "frames (a @ b) = (fst (frames a) @ fst (frames (snd (frames a) @ b)), snd (frames (snd (frames a) @ b)))"
proof -
  obtain ls r where a: "foldl frame_step ([], []) a = (ls, r)" by (cases "foldl frame_step ([], []) a")
  have "foldl frame_step (ls, cur) x = (ls', r) \<Longrightarrow> NL \<notin> set cur \<Longrightarrow> NL \<notin> set r" for ls cur x ls' r
  proof (induction x arbitrary: ls cur)
    case (Cons y x)
    then show ?case by (cases "y = NL") (auto simp: frame_step_def)
  qed simp
  from this [OF a] have "NL \<notin> set r" by simp
  then have eq: "foldl frame_step (ls, r) b = foldl frame_step (ls @ [], []) (r @ b)"
    by (simp add: foldl_frame_no_nl)
  have f: "frames (a @ b) = foldl frame_step (ls, r) b" using a by (simp add: frames_def)
  show ?thesis unfolding f eq foldl_frame_acc using a by (simp add: frames_def del: foldl_append)
qed

definition nonempty_lines :: "string \<Rightarrow> string list" where
  "nonempty_lines t = filter (\<lambda>l. l \<noteq> []) (fst (frames t))"

text \<open>What a client holds and what was dispatched, in a state with the invariant.\<close>

definition holding :: "ipc \<Rightarrow> nat \<Rightarrow> int \<Rightarrow> string \<Rightarrow> (int \<times> string) list \<Rightarrow> bool" where
  "holding s c fd t ds \<longleftrightarrow> ipc_inv s \<and> dispatches (ipc_log s) = ds \<and>
     (\<exists>k. ipc_heap s c = Some k \<and> ic_fd k = fd \<and> holds_text k t)"

definition lua_ready :: "ipc_env \<Rightarrow> bool" where
  "lua_ready env \<longleftrightarrow> (\<forall>s. \<exists>f. lua_state env s = Dispatcher f)"

lemma process_holding:
  assumes "holding s c fd t ds" "quiet env fd" "lua_ready env"
  shows "gives {} (\<lambda>s'. holding s' c fd t (ds @ [(fd, command)])) (ipc_process_command env c command s)"
proof -
  obtain k where k: "ipc_heap s c = Some k" "ic_fd k = fd" "holds_text k t" and inv: "ipc_inv s"
    and ds: "dispatches (ipc_log s) = ds" using assms(1) by (auto simp: holding_def)
  obtain f where f: "lua_state env s = Dispatcher f" using assms(3) by (auto simp: lua_ready_def)
  have "gives {} (\<lambda>s'. ipc_inv s' \<and> survives env (log_act (Dispatch fd command) s) s')
      (ipc_process_command env c command s)"
    using dispatch_survives [OF inv, of env fd command] f k by (simp add: ipc_process_command_def)
  then show ?thesis
  proof (rule gives_mono)
    fix s'
    assume s': "ipc_inv s' \<and> survives env (log_act (Dispatch fd command) s) s'"
    then have "ipc_heap s' c \<noteq> None" using k assms(2) by (auto simp: survives_def)
    then obtain b where "ipc_heap s' c = Some (k\<lparr>ic_subscribed := b\<rparr>)"
      using evolvesD [of "log_act (Dispatch fd command) s" s' c k] s' k by (auto simp: survives_def)
    then show "holding s' c fd t (ds @ [(fd, command)])"
      using s' k ds by (auto simp: holding_def survives_def)
  qed simp
qed

lemma commands_frames:
  assumes "holding s c fd t ds" "quiet env fd" "lua_ready env" "NUL \<notin> set t" "length t < fuel"
  shows "gives {} (\<lambda>s'. holding s' c fd (snd (frames t)) (ds @ map (Pair fd) (nonempty_lines t)))
    (ipc_commands env fuel c s)"
  using assms(1,4,5)
proof (induction fuel arbitrary: s t ds)
  case 0
  then show ?case by simp
next
  case (Suc fuel)
  obtain k where k: "ipc_heap s c = Some k" "ic_fd k = fd" and t: "holds_text k t"
    using Suc.prems(1) by (auto simp: holding_def)
  show ?case
  proof (cases "first_nl t")
    case None
    then have "frames t = ([], t)" using first_nl_None frames_no_nl Suc.prems(2) by blast
    then show ?thesis
      unfolding commands_round [OF k(1) t] None option.case
      using Suc.prems(1) by (simp add: nonempty_lines_def)
  next
    case (Some n)
    note nl = first_nl_Some [OF Some]
    define rest where "rest = drop (Suc n) t"
    have t_eq: "t = take n t @ NL # rest" and no: "NL \<notin> set (take n t)" using nl by (auto simp: rest_def)
    have fr: "frames t = (take n t # fst (frames rest), snd (frames rest))"
      using frames_line [OF no, of rest] t_eq by simp
    define ds1 where "ds1 = ds @ (if n > 0 then [(fd, take n t)] else [])"
    have "take n t \<noteq> [] \<longleftrightarrow> n > 0" using nl by auto
    then have lines: "ds @ map (Pair fd) (nonempty_lines t) = ds1 @ map (Pair fd) (nonempty_lines rest)"
      by (simp add: nonempty_lines_def fr ds1_def)
    let ?r = "if n > 0 then ipc_process_command env c (take n t) s else Inr s"
    have "gives {} (\<lambda>s'. holding s' c fd t ds1) ?r"
      using Suc.prems(1) process_holding [OF Suc.prems(1) assms(2,3), of "take n t"] by (simp add: ds1_def)
    then obtain s' where r: "?r = Inr s'" and h: "holding s' c fd t ds1" by (rule gives_obtain)
    obtain k' where k': "ipc_heap s' c = Some k'" "ic_fd k' = fd" and t': "holds_text k' t"
      and inv: "ipc_inv s'" and ds1: "dispatches (ipc_log s') = ds1" using h by (auto simp: holding_def)
    have n: "n < length t" using nl by blast
    note dl = drop_line_ok [OF t' n]
    have u: "\<not> ic_used k' < n + 1" using n t' by (simp add: holds_text_def)
    have "wf_client (drop_line n k')" using client_listed [OF inv k'(1)] wf_drop_line [OF _ t' n] by blast
    then have "ipc_inv (put_client c (drop_line n k') s')" by (intro ipc_inv_put [OF inv k'(1)]) simp_all
    then have "holding (put_client c (drop_line n k') s') c fd rest ds1"
      using dl(2) k'(2) ds1 by (simp add: holding_def rest_def)
    moreover have "NUL \<notin> set rest" using Suc.prems(2) t_eq by (metis Un_iff set_append set_subset_Cons subsetD)
    moreover have "length rest < fuel" using Suc.prems(3) n by (simp add: rest_def)
    ultimately have "gives {} (\<lambda>s'. holding s' c fd (snd (frames rest)) (ds1 @ map (Pair fd) (nonempty_lines rest)))
        (ipc_commands env fuel c (put_client c (drop_line n k') s'))" by (rule Suc.IH)
    then have "gives {} (\<lambda>s'. holding s' c fd (snd (frames t)) (ds @ map (Pair fd) (nonempty_lines t)))
        (ipc_commands env fuel c (put_client c (drop_line n k') s'))" unfolding lines fr snd_conv .
    then show ?thesis
      using u dl(1) k'
      unfolding commands_round [OF k(1) t] \<open>first_nl t = Some n\<close> option.case r by simp
  qed
qed

lemma frames_tail_no_nl: "NL \<notin> set (snd (frames t))"
proof -
  have "NL \<notin> set cur \<Longrightarrow> NL \<notin> set (snd (foldl frame_step (ls, cur) t))" for ls cur
    by (induction t arbitrary: ls cur) (auto simp: frame_step_def)
  then show ?thesis by (simp add: frames_def)
qed

lemma frames_tail_subset: "set (snd (frames t)) \<subseteq> set t"
proof -
  have "set (snd (foldl frame_step (ls, cur) t)) \<subseteq> set cur \<union> set t" for ls cur
  proof (induction t arbitrary: ls cur)
    case (Cons x t)
    then show ?case using Cons [of "ls @ [cur]" "[]"] Cons [of ls "cur @ [x]"]
      by (auto simp: frame_step_def)
  qed simp
  then show ?thesis by (fastforce simp: frames_def)
qed

definition memory_ok :: "ipc_env \<Rightarrow> bool" where
  "memory_ok env \<longleftrightarrow> (\<forall>s n. os_realloc env s n)"

lemma ensure_room_holding:
  assumes "holding s c fd t ds" "memory_ok env" "length t < IPC_BUFFER_MAX - 1"
  shows "\<exists>s' k'. ipc_ensure_room env c s = Inr (True, s') \<and> holding s' c fd t ds \<and>
    ipc_heap s' c = Some k' \<and> length t < ic_size k' - 1"
proof -
  obtain k where k: "ipc_heap s c = Some k" "ic_fd k = fd" and t: "holds_text k t"
    and inv: "ipc_inv s" and ds: "dispatches (ipc_log s) = ds"
    using assms(1) by (auto simp: holding_def)
  note cl = client_listed [OF inv k(1)]
  show ?thesis
  proof (cases "ic_used k \<ge> ic_size k - 1")
    case False
    then show ?thesis using assms(1) k t by (auto simp: ipc_ensure_room_def holds_text_def)
  next
    case True
    then have "ic_size k < IPC_BUFFER_MAX" using t assms(3) by (simp add: holds_text_def)
    then obtain k' where g: "ipc_buffer_grow (os_realloc env s (ic_size k)) k = Some k'"
      using assms(2) by (auto simp: ipc_buffer_grow_def memory_ok_def Let_def)
    note gr = grow_ok [OF g t cl [THEN conjunct2]]
    have "holding (put_client c k' s) c fd t ds"
      using ipc_inv_put [OF inv k(1) gr(1) gr(4)] gr k ds by (simp add: holding_def)
    moreover have "length t < ic_size k' - 1" using gr(5) holds_text_used [OF t] by simp
    ultimately show ?thesis using True g k by (auto simp: ipc_ensure_room_def)
  qed
qed

lemma handle_frames:
  assumes "holding s c fd t ds" "quiet env fd" "lua_ready env" "memory_ok env"
    and "NL \<notin> set t" "NUL \<notin> set (t @ bytes)" "bytes \<noteq> []"
    and "\<And>got rest. bytes = got @ rest \<Longrightarrow> length (snd (frames (t @ got))) < IPC_BUFFER_MAX - 1"
  shows "\<exists>got rest s'. bytes = got @ rest \<and> got \<noteq> [] \<and>
    ipc_handle_client_data env ipc_fuel (Waiting bytes) c s = Inr (rest, s') \<and>
    holding s' c fd (snd (frames (t @ got))) (ds @ map (Pair fd) (nonempty_lines (t @ got)))"
proof -
  have "length t < IPC_BUFFER_MAX - 1" using assms(8) [of "[]" bytes] assms(5) by (simp add: frames_no_nl)
  from ensure_room_holding [OF assms(1,4) this] obtain s1 k where
    r1: "ipc_ensure_room env c s = Inr (True, s1)" and h1: "holding s1 c fd t ds"
    and k: "ipc_heap s1 c = Some k" and room: "length t < ic_size k - 1" by blast
  have t: "holds_text k t" and inv: "ipc_inv s1" and fd: "ic_fd k = fd" and ds: "dispatches (ipc_log s1) = ds"
    using h1 k by (auto simp: holding_def)
  note cl = client_listed [OF inv k]
  define m where "m = ic_size k - ic_used k - 1"
  define got where "got = take m bytes"
  define rest where "rest = drop m bytes"
  have u: "ic_used k = length t" using t by (simp add: holds_text_def)
  have m: "0 < m" using room u by (simp add: m_def)
  have split: "bytes = got @ rest" and got: "got \<noteq> []" using m assms(7) by (auto simp: got_def rest_def)
  have "length got \<le> m" by (simp add: got_def)
  then have fits: "length t + length got < ic_size k" using m u by (simp add: m_def)
  note f = fill_ok [OF t cl [THEN conjunct2] fits]
  let ?s2 = "put_client c (append_read got k) s1"
  have "ipc_inv ?s2" by (rule ipc_inv_put [OF inv k f(3)]) (simp add: append_read_def)
  then have h2: "holding ?s2 c fd (t @ got) ds"
    using f(2) fd ds by (simp add: holding_def append_read_def)
  have "NUL \<notin> set (t @ got)" using assms(6) split by auto
  moreover have "length (t @ got) < ipc_fuel" using fits cl by (simp add: wf_client_def ipc_fuel_def)
  ultimately have "gives {} (\<lambda>s'. holding s' c fd (snd (frames (t @ got)))
      (ds @ map (Pair fd) (nonempty_lines (t @ got)))) (ipc_commands env ipc_fuel c ?s2)"
    by (rule commands_frames [OF h2 assms(2,3)])
  then obtain s3 where r3: "ipc_commands env ipc_fuel c ?s2 = Inr s3" and
    h3: "holding s3 c fd (snd (frames (t @ got))) (ds @ map (Pair fd) (nonempty_lines (t @ got)))"
    by (rule gives_obtain)
  from ensure_room_holding [OF h3 assms(4) assms(8) [OF split]] obtain s4 where
    r4: "ipc_ensure_room env c s3 = Inr (True, s4)" and
    h4: "holding s4 c fd (snd (frames (t @ got))) (ds @ map (Pair fd) (nonempty_lines (t @ got)))" by blast
  have "got = take (ic_size k - ic_used k - 1) bytes" by (simp add: got_def m_def)
  from read_waiting [OF k this got f(1), of env ipc_fuel]
  have "ipc_read env ipc_fuel (Waiting bytes) c s1 = Inr (rest, s4)"
    unfolding r3 bnd_simps r4 prod.case by (simp add: rest_def m_def)
  then have "ipc_handle_client_data env ipc_fuel (Waiting bytes) c s = Inr (rest, s4)"
    by (simp add: ipc_handle_client_data_def r1)
  then show ?thesis using split got h4 by blast
qed

text \<open>
  A run of the handler: bytes arrive in pieces, each makes the client readable once more, and
  what a call did not read stays in front.
\<close>

fun ipc_feed :: "ipc_env \<Rightarrow> nat \<Rightarrow> string list \<Rightarrow> string \<Rightarrow> ipc \<Rightarrow> ipc_fault + string \<times> ipc" where
  "ipc_feed env c [] queue s = Inr (queue, s)"
| "ipc_feed env c (bytes # later) queue s =
     bnd (ipc_handle_client_data env ipc_fuel (Waiting (queue @ bytes)) c s)
       (\<lambda>(rest, s). ipc_feed env c later rest s)"

lemma feed_frames:
  assumes "quiet env fd" "lua_ready env" "memory_ok env"
  shows "holding s c fd t ds \<Longrightarrow> NL \<notin> set t \<Longrightarrow> NUL \<notin> set (t @ queue @ concat arrivals) \<Longrightarrow>
    [] \<notin> set arrivals \<Longrightarrow>
    (\<And>got rest. queue @ concat arrivals = got @ rest \<Longrightarrow> length (snd (frames (t @ got))) < IPC_BUFFER_MAX - 1) \<Longrightarrow>
    \<exists>got rest s'. queue @ concat arrivals = got @ rest \<and> length arrivals \<le> length got \<and>
      ipc_feed env c arrivals queue s = Inr (rest, s') \<and>
      holding s' c fd (snd (frames (t @ got))) (ds @ map (Pair fd) (nonempty_lines (t @ got)))"
proof (induction arrivals arbitrary: s t ds queue)
  case Nil
  then show ?case
    by (intro exI [of _ "[]"] exI [of _ queue] exI [of _ s]) (simp add: frames_no_nl nonempty_lines_def)
next
  case (Cons bytes arrivals)
  have short: "length (snd (frames (t @ got))) < IPC_BUFFER_MAX - 1" if "queue @ bytes = got @ rest" for got rest
    using Cons.prems(5) [of got "rest @ concat arrivals"] that by simp
  have nul: "NUL \<notin> set (t @ queue @ bytes)" and ne: "queue @ bytes \<noteq> []" using Cons.prems by auto
  have "\<exists>got rest s'. queue @ bytes = got @ rest \<and> got \<noteq> [] \<and>
      ipc_handle_client_data env ipc_fuel (Waiting (queue @ bytes)) c s = Inr (rest, s') \<and>
      holding s' c fd (snd (frames (t @ got))) (ds @ map (Pair fd) (nonempty_lines (t @ got)))"
    by (rule handle_frames [OF Cons.prems(1) assms Cons.prems(2) nul ne]) (rule short)
  then obtain got rest s1 where b: "queue @ bytes = got @ rest" and ne: "got \<noteq> []"
    and r: "ipc_handle_client_data env ipc_fuel (Waiting (queue @ bytes)) c s = Inr (rest, s1)"
    and h: "holding s1 c fd (snd (frames (t @ got))) (ds @ map (Pair fd) (nonempty_lines (t @ got)))"
    by blast
  let ?t = "snd (frames (t @ got))"
  have all: "queue @ concat (bytes # arrivals) = got @ rest @ concat arrivals" using b by simp
  have fr: "frames (t @ got @ more) = (fst (frames (t @ got)) @ fst (frames (?t @ more)), snd (frames (?t @ more)))"
    for more using frames_append [of "t @ got" more] by simp
  have "set ?t \<subseteq> set (t @ got)" by (rule frames_tail_subset)
  moreover have "set queue \<union> set bytes = set got \<union> set rest" using arg_cong [OF b, of set] by simp
  ultimately have "set (?t @ rest @ concat arrivals) \<subseteq> set (t @ queue @ concat (bytes # arrivals))" by auto
  then have "NUL \<notin> set (?t @ rest @ concat arrivals)" using Cons.prems(3) by blast
  moreover have "length (snd (frames (?t @ more))) < IPC_BUFFER_MAX - 1"
    if "rest @ concat arrivals = more @ left" for more left
    using Cons.prems(5) [of "got @ more" left] all that by (simp add: fr)
  ultimately have "\<exists>more left s'. rest @ concat arrivals = more @ left \<and> length arrivals \<le> length more \<and>
      ipc_feed env c arrivals rest s1 = Inr (left, s') \<and>
      holding s' c fd (snd (frames (?t @ more)))
        ((ds @ map (Pair fd) (nonempty_lines (t @ got))) @ map (Pair fd) (nonempty_lines (?t @ more)))"
    using Cons.prems(4) by (intro Cons.IH [OF h frames_tail_no_nl]) auto
  then obtain more left s' where m: "rest @ concat arrivals = more @ left" "length arrivals \<le> length more"
      "ipc_feed env c arrivals rest s1 = Inr (left, s')"
    and h': "holding s' c fd (snd (frames (?t @ more)))
        ((ds @ map (Pair fd) (nonempty_lines (t @ got))) @ map (Pair fd) (nonempty_lines (?t @ more)))"
    by blast
  have "holding s' c fd (snd (frames (t @ got @ more))) (ds @ map (Pair fd) (nonempty_lines (t @ got @ more)))"
    using h' by (simp add: fr nonempty_lines_def)
  moreover have "queue @ concat (bytes # arrivals) = (got @ more) @ left" using all m by simp
  moreover have "length (bytes # arrivals) \<le> length (got @ more)" using m(2) ne by (cases got) auto
  moreover have "ipc_feed env c (bytes # arrivals) queue s = Inr (left, s')" using r m(3) by simp
  ultimately show ?case by blast
qed

text \<open>
  C18: However the bytes of a client are cut into pieces on their way, the commands Lua gets are
  the nonempty lines of the stream, in order and once each, and the buffer holds the last,
  unfinished line. It holds for streams without null bytes whose lines stay below a megabyte,
  when memory is found and the writes to this client do not fail; every call makes progress.
\<close>

theorem ipc_commands_are_lines:
  assumes "ipc_reachable env s" "ipc_heap s c = Some k" "holds_text k []"
    and "quiet env (ic_fd k)" "lua_ready env" "memory_ok env"
    and "[] \<notin> set arrivals" "NUL \<notin> set (concat arrivals)"
    and "\<And>got rest. concat arrivals = got @ rest \<Longrightarrow> length (snd (frames got)) < 1024 * 1024 - 1"
  shows "\<exists>got rest s' k'. concat arrivals = got @ rest \<and> length arrivals \<le> length got \<and>
    ipc_feed env c arrivals [] s = Inr (rest, s') \<and>
    dispatches (ipc_log s') = dispatches (ipc_log s) @ map (Pair (ic_fd k)) (nonempty_lines got) \<and>
    ipc_heap s' c = Some k' \<and> ic_fd k' = ic_fd k \<and> holds_text k' (snd (frames got))"
proof -
  have "holding s c (ic_fd k) [] (dispatches (ipc_log s))"
    using assms(2,3) reachable_inv [OF assms(1)] by (simp add: holding_def)
  from feed_frames [OF assms(4,5,6) this, of "[]" arrivals] assms(7-9)
  obtain got rest s' where "concat arrivals = got @ rest" "length arrivals \<le> length got"
    "ipc_feed env c arrivals [] s = Inr (rest, s')"
    "holding s' c (ic_fd k) (snd (frames got))
       (dispatches (ipc_log s) @ map (Pair (ic_fd k)) (nonempty_lines got))"
    by (auto simp: IPC_BUFFER_MAX_def)
  then show ?thesis unfolding holding_def by blast
qed

subsection \<open>A handler that loses its own client\<close>

lemma evolves_gone: "evolves s s' \<Longrightarrow> ipc_heap s c = None \<Longrightarrow> ipc_heap s' c = None"
  unfolding evolves_def by (metis not_Some_eq option.distinct(1))

lemma broadcast_loses:
  assumes "ipc_inv s" "ipc_heap s c = Some k" "ic_subscribed k"
    and fails: "\<And>s message. os_write env s (ic_fd k) message = WriteError e" "e \<noteq> EAGAIN" "e \<noteq> EINTR"
  shows "gives {} (\<lambda>s'. ipc_inv s' \<and> ipc_heap s' c = None) (ipc_broadcast env message s)"
proof -
  have loop: "ipc_inv s \<Longrightarrow> set cs \<subseteq> set (ipc_clients s) \<Longrightarrow> distinct cs \<Longrightarrow>
      (c \<in> set cs \<Longrightarrow> ipc_heap s c = Some k) \<Longrightarrow> (c \<notin> set cs \<Longrightarrow> ipc_heap s c = None) \<Longrightarrow>
      gives {} (\<lambda>s'. ipc_inv s' \<and> ipc_heap s' c = None) (broadcast_loop env message cs s)" for cs s
  proof (induction cs arbitrary: s)
    case Nil
    then show ?case by simp
  next
    case (Cons d cs)
    have d: "d \<in> set (ipc_clients s)" using Cons.prems by simp
    obtain kd where kd: "ipc_heap s d = Some kd" using Cons.prems(1) d by (rule inv_client)
    let ?s = "log_act (Write (ic_fd kd) message) s"
    have gone: "gives {} (\<lambda>s'. ipc_inv s' \<and> ipc_heap s' c = None)
        (bnd (ipc_client_destroy d ?s) (broadcast_loop env message cs))"
    proof (rule gives_bnd [OF destroy_ok])
      show "ipc_inv ?s" "d \<in> set (ipc_clients ?s)" using Cons.prems d by simp_all
    next
      fix s'
      assume s': "ipc_inv s' \<and> ipc_clients s' = remove1 d (ipc_clients ?s) \<and> ipc_heap s' = (ipc_heap ?s)(d := None)"
      have "distinct (ipc_clients s)" using Cons.prems(1) by (simp add: ipc_inv_def)
      then show "gives {} (\<lambda>s'. ipc_inv s' \<and> ipc_heap s' c = None) (broadcast_loop env message cs s')"
        using s' Cons.prems by (intro Cons.IH) (auto simp: set_remove1_eq)
    qed
    show ?case
    proof (cases "d = c")
      case True
      then show ?thesis
        using gone kd Cons.prems(4) assms(3) fails by (auto simp: Let_def)
    next
      case False
      then have "gives {} (\<lambda>s'. ipc_inv s' \<and> ipc_heap s' c = None) (broadcast_loop env message cs t)"
        if "t = s \<or> t = ?s" for t
        using Cons.prems that by (intro Cons.IH) auto
      then show ?thesis using gone kd by (auto simp: Let_def split: write_result.splits)
    qed
  qed
  have c: "c \<in> set (ipc_clients s)" using client_listed [OF assms(1,2)] by blast
  then have "c \<in> set (filter (subscribed s) (ipc_clients s))" using assms(2,3) by (simp add: subscribed_def)
  then have "0 < ipc_subscriber_count s"
    using assms(1) length_pos_if_in_set [of c "filter (subscribed s) (ipc_clients s)"] by (simp add: ipc_inv_def)
  moreover have "distinct (ipc_clients s)" using assms(1) by (simp add: ipc_inv_def)
  ultimately show ?thesis
    using loop [OF assms(1), of "ipc_clients s"] c assms(2) by (simp add: ipc_broadcast_def)
qed

text \<open>
  C20: A subscriber that sends a command and goes away brings the server down to memory it has
  freed: when the handler of the command broadcasts an event, the write to this client fails,
  the broadcast frees the client, and the read handler goes on with its buffer.
\<close>

theorem broadcast_frees_reader:
  assumes "ipc_reachable env s" "ipc_heap s c = Some k" "ic_subscribed k" "holds_text k []"
    and "\<And>s. lua_state env s = Dispatcher f" "f line (ic_fd k) = LBroadcast event after"
    and "\<And>s message. os_write env s (ic_fd k) message = WriteError e" "e \<noteq> EAGAIN" "e \<noteq> EINTR"
    and "line \<noteq> []" "NL \<notin> set line" "NUL \<notin> set line" "length line < 4000"
  shows "ipc_handle_client_data env ipc_fuel (Waiting (line @ [NL])) c s = Inl UseAfterFree"
proof -
  have inv: "ipc_inv s" using assms(1) by (rule reachable_inv)
  note cl = client_listed [OF inv assms(2)]
  have size: "4096 \<le> ic_size k" using cl by (simp add: wf_client_def IPC_BUFFER_INITIAL_def)
  have u: "ic_used k = 0" using assms(4) by (simp add: holds_text_def)
  let ?got = "line @ [NL]"
  have got: "?got = take (ic_size k - ic_used k - 1) ?got" using size u assms(13) by simp
  have fits: "length [] + length ?got < ic_size k" using size assms(13) by simp
  note f = fill_ok [OF assms(4) cl [THEN conjunct2] fits]
  let ?k = "append_read ?got k"
  let ?s = "put_client c ?k s"
  have inv2: "ipc_inv ?s" by (rule ipc_inv_put [OF inv assms(2) f(3)]) (simp add: append_read_def)
  have k2: "ipc_heap ?s c = Some ?k" by simp
  have t2: "holds_text ?k ?got" using f(2) by simp
  have sel: "ic_fd ?k = ic_fd k" "ic_subscribed ?k = ic_subscribed k" by (simp_all add: append_read_def)
  have "NL \<notin> set l \<Longrightarrow> NUL \<notin> set l \<Longrightarrow> first_nl (l @ [NL]) = Some (length l)" for l
    by (induction l) auto
  then have nl: "first_nl ?got = Some (length line)" using assms(11,12) by blast
  let ?d = "log_act (Dispatch (ic_fd k) line) ?s"
  have "gives {} (\<lambda>s'. ipc_inv s' \<and> ipc_heap s' c = None) (ipc_broadcast env event ?d)"
    by (rule broadcast_loses [where k = ?k]) (use inv2 k2 sel assms(3,7-9) in auto)
  then obtain s3 where b: "ipc_broadcast env event ?d = Inr s3" and inv3: "ipc_inv s3"
    and gone: "ipc_heap s3 c = None" by (rule gives_obtain) auto
  have s3: "ipc_inv s3 \<and> survives env s3 s3" using inv3 by simp
  have "gives {} (\<lambda>(r, s). ipc_inv s \<and> survives env s3 s) (lua_run env after s3)" using s3 by (rule surv.run)
  then obtain r s4 where a: "lua_run env after s3 = Inr (r, s4)" and s4: "survives env s3 s4"
    by (rule gives_obtain) auto
  have gone4: "ipc_heap s4 c = None" using s4 gone by (auto simp: survives_def intro: evolves_gone)
  have "\<exists>s5. ipc_dispatch_to_lua env (ic_fd k) line ?s = Inr s5 \<and> ipc_heap s5 c = None"
    using assms(5,6) b a gone4 by (auto simp: ipc_dispatch_to_lua_def split: lua_ret.splits)
  then obtain s5 where p: "ipc_process_command env c line ?s = Inr s5" and gone5: "ipc_heap s5 c = None"
    using sel by (auto simp: ipc_process_command_def)
  have "ipc_commands env (Suc IPC_BUFFER_MAX) c ?s = Inl UseAfterFree"
    unfolding commands_round [OF k2 t2] nl option.case using p gone5 assms(10) by simp
  then have "ipc_read env ipc_fuel (Waiting ?got) c s = Inl UseAfterFree"
    using read_waiting [OF assms(2) got _ f(1), of env ipc_fuel] by (simp add: ipc_fuel_def)
  moreover have "ipc_ensure_room env c s = Inr (True, s)"
    using assms(2) size u by (simp add: ipc_ensure_room_def)
  ultimately show ?thesis by (simp add: ipc_handle_client_data_def)
qed

subsection \<open>Faults of the text protocol\<close>

text \<open>A null byte ends the search for lines: nothing after it is ever dispatched.\<close>

lemma null_byte_silences:
  assumes "ipc_heap s c = Some k" "holds_text k (a @ NUL # b)" "NL \<notin> set a"
  shows "ipc_commands env (Suc fuel) c s = Inr s"
proof -
  have "first_nl (a @ NUL # b) = None" using assms(3) by (induction a) auto
  then show ?thesis unfolding commands_round [OF assms(1,2)] by simp
qed

text \<open>
  ``Ensure response ends with double newline'': a response without any gets one. The same holds
  of a Lua error whose message was cut at 1023 bytes.
\<close>

lemma response_ends_once:
  "0 \<le> fd \<Longrightarrow> ipc_log (ipc_send_response fd ''OK'' s) = ipc_log s @ [Write fd ''OK'', Write fd [NL]]"
  by (simp add: ipc_send_response_def Let_def)

subsection \<open>Start and end\<close>

lemma probe_retry_ok:
  "probe_retry e left n (ipc_probe_socket e n (ipc_socket_path s)) s = (p, m, s') \<Longrightarrow>
     p = ipc_probe_socket e m (ipc_socket_path s) \<and> n \<le> m \<and> m \<le> n + left \<and>
     (\<forall>j. n \<le> j \<and> j < m \<longrightarrow> ipc_probe_socket e j (ipc_socket_path s) > 0) \<and>
     set (ipc_log s') \<subseteq> insert Sleep (set (ipc_log s))"
proof (induction left arbitrary: n s)
  case 0
  then show ?case by auto
next
  case (Suc left)
  show ?case
  proof (cases "ipc_probe_socket e n (ipc_socket_path s) > 0")
    case False
    then show ?thesis using Suc.prems by auto
  next
    case True
    then have "probe_retry e left (Suc n) (ipc_probe_socket e (Suc n) (ipc_socket_path (log_act Sleep s)))
        (log_act Sleep s) = (p, m, s')" using Suc.prems by simp
    from Suc.IH [OF this] show ?thesis using True
      by (auto simp: le_Suc_eq not_less_eq_eq) (metis Suc_leI le_neq_implies_less)+
  qed
qed

lemma ipc_bind_log:
  assumes "ipc_bind e s = (rc, s')"
  shows "set (ipc_log s') \<subseteq> set (ipc_log s) \<union> {Close (ipc_socket_fd s), Unlink (ipc_socket_path s)}"
    and "rc \<noteq> 0 \<Longrightarrow> ipc_socket_fd s' = -1"
    and "rc \<noteq> 0 \<Longrightarrow> Close (ipc_socket_fd s) \<in> set (ipc_log s')"
    and "rc = 0 \<Longrightarrow> ipc_event_source s' \<and> ipc_socket_fd s' = ipc_socket_fd s"
  using assms by (auto simp: ipc_bind_def close_socket_def Let_def split: if_splits)

text \<open>
  C40: Starting the server removes the file at its path only after a probe found nobody
  listening there, with every probe before it answered by a running compositor (at most fifty
  retries). When the start fails, the socket it opened is closed again; when it succeeds, the
  server listens.
\<close>

theorem ipc_init_spares_running:
  assumes "ipc_init e s = (rc, s')" "ipc_log s = []" "ipc_socket_fd s = -1"
    and "runtime_dir e = Some dir" "0 \<le> new_socket e"
  shows "(\<forall>p. Unlink p \<in> set (ipc_log s') \<longrightarrow> (\<exists>n \<le> 50. ipc_probe_socket e n p = 0 \<and>
            (\<forall>m < n. ipc_probe_socket e m p > 0))) \<and>
    (rc \<noteq> 0 \<longrightarrow> ipc_socket_fd s' = -1 \<and> Close (new_socket e) \<in> set (ipc_log s')) \<and>
    (rc = 0 \<longrightarrow> ipc_socket_fd s' = new_socket e \<and> ipc_event_source s')"
proof -
  define s1 where "s1 = s\<lparr>ipc_clients := [], ipc_socket_path := build_path e dir, ipc_socket_fd := new_socket e\<rparr>"
  obtain p n s2 where r: "probe_retry e 50 0 (ipc_probe_socket e 0 (ipc_socket_path s1)) s1 = (p, n, s2)"
    by (rule prod_cases3)
  note ok = probe_retry_ok [OF r] and fr = probe_retry_frame [OF r]
  have path: "ipc_socket_path s2 = build_path e dir" "ipc_socket_path s1 = build_path e dir"
    and fd: "ipc_socket_fd s2 = new_socket e" using fr by (simp_all add: s1_def)
  have log: "set (ipc_log s2) \<subseteq> {Sleep}" using ok assms(2) by (simp add: s1_def)
  let ?s3 = "log_act (Unlink (ipc_socket_path s2)) s2"
  have init: "ipc_init e s = (if p \<noteq> 0 then (-1, (close_socket s2)\<lparr>ipc_socket_path := ''''\<rparr>) else ipc_bind e ?s3)"
    using assms(4,5) r by (simp add: ipc_init_def Let_def s1_def)
  show ?thesis
  proof (cases "p = 0")
    case False
    then have "s' = (close_socket s2)\<lparr>ipc_socket_path := ''''\<rparr>" "rc = -1" using init assms(1) by auto
    then show ?thesis using log fd by (auto simp: close_socket_def)
  next
    case True
    then have b: "ipc_bind e ?s3 = (rc, s')" using init assms(1) by simp
    note bl = ipc_bind_log [OF b]
    have "q = build_path e dir" if "Unlink q \<in> set (ipc_log s')" for q using bl(1) log path that by auto
    moreover have "ipc_probe_socket e n (build_path e dir) = 0 \<and> n \<le> 50 \<and>
        (\<forall>m < n. ipc_probe_socket e m (build_path e dir) > 0)"
      using ok True path by simp
    ultimately show ?thesis using bl fd by auto
  qed
qed

text \<open>
  At the end every connection is closed and freed, and the socket file is removed only if it is
  still the one this process bound.
\<close>

lemma destroy_all_ok:
  "ipc_inv s \<Longrightarrow> ipc_clients s = cs \<Longrightarrow> gives {} (\<lambda>s'. (ipc_inv s' \<and> ipc_clients s' = []) \<and>
     ipc_socket_path s' = ipc_socket_path s \<and> ipc_socket_stat s' = ipc_socket_stat s \<and>
     (\<forall>q. Unlink q \<in> set (ipc_log s') \<longrightarrow> Unlink q \<in> set (ipc_log s))) (destroy_all cs s)"
proof (induction cs arbitrary: s)
  case Nil
  then show ?case by simp
next
  case (Cons c cs)
  have "gives {} (\<lambda>s'. (ipc_inv s' \<and> ipc_clients s' = remove1 c (ipc_clients s) \<and>
      ipc_heap s' = (ipc_heap s)(c := None)) \<and> ipc_socket_path s' = ipc_socket_path s \<and>
      ipc_socket_stat s' = ipc_socket_stat s \<and>
      (\<forall>q. Unlink q \<in> set (ipc_log s') \<longrightarrow> Unlink q \<in> set (ipc_log s))) (ipc_client_destroy c s)"
    using Cons.prems by (intro gives_conj destroy_ok)
      (auto simp: ipc_client_destroy_def Let_def split: option.split elim: inv_client)
  then show ?case
    unfolding destroy_all.simps
    by (rule gives_bnd) (rule gives_mono [OF Cons.IH], use Cons.prems in auto)
qed

lemma cleanup_spares_others:
  assumes "ipc_reachable env s"
  shows "gives {} (\<lambda>s'. ipc_clients s' = [] \<and> ipc_heap s' = (\<lambda>_. None) \<and> ipc_subscriber_count s' = 0 \<and>
    ipc_socket_fd s' < 0 \<and> (\<forall>q. Unlink q \<in> set (ipc_log s') \<longrightarrow> Unlink q \<in> set (ipc_log s) \<or>
      q = ipc_socket_path s \<and> now = Some (case ipc_socket_stat s of None \<Rightarrow> (0, 0) | Some i \<Rightarrow> i)))
    (ipc_cleanup now s)"
  unfolding ipc_cleanup_def
proof (rule gives_bnd [OF destroy_all_ok])
  show "ipc_inv s" using assms by (rule reachable_inv)
qed (auto simp: ipc_inv_def Let_def close_socket_def fun_eq_iff split: if_splits)

subsection \<open>Runs\<close>

text \<open>A start that succeeds at the second probe, and two environments.\<close>

definition first_start :: init_env where
  "first_start = \<lparr>runtime_dir = Some ''/run'', socket_override = None, new_socket = 7,
     probe_connect = (\<lambda>n. (8, if n = 0 then None else Some ECONNREFUSED)), bind_ok = True,
     stat_answer = Some (1, 2), listen_ok = True, add_fd_ok = True\<rparr>"

definition ipc_off :: ipc where
  "ipc_off = \<lparr>ipc_socket_fd = -1, ipc_event_source = False, ipc_clients = [], ipc_subscriber_count = 0,
     ipc_socket_path = '''', ipc_socket_stat = None, ipc_heap = (\<lambda>_. None), ipc_log = []\<rparr>"

definition ipc_on :: ipc where
  "ipc_on = ipc_off\<lparr>ipc_socket_fd := 7, ipc_event_source := True, ipc_socket_path := ''/run/somewm-socket'',
     ipc_socket_stat := Some (1, 2), ipc_log := [Sleep, Unlink ''/run/somewm-socket'']\<rparr>"

lemma first_start_ok: "ipc_init first_start ipc_off = (0, ipc_on)"
  by (simp add: ipc_init_def first_start_def ipc_off_def ipc_on_def Let_def build_path_def ipc_probe_socket_def
      sun_path_size_def ipc_bind_def log_act_def eval_nat_numeral)

definition echo_env :: "write_result \<Rightarrow> lua_code \<Rightarrow> ipc_env" where
  "echo_env w k = \<lparr>os_write = (\<lambda>s fd m. w), os_realloc = (\<lambda>s n. True), lua_state = (\<lambda>s. Dispatcher (\<lambda>c fd. k))\<rparr>"

definition ipc_one :: ipc where
  "ipc_one = ipc_handle_connection (Inl 9) 50 True ipc_on"

lemma ipc_one_reachable: "ipc_reachable env ipc_one"
  unfolding ipc_one_def
  by (intro ipc_connected ipc_started [OF first_start_ok]) (simp_all add: ipc_off_def ipc_on_def)

lemma ipc_one_heap: "ipc_heap ipc_one = [50 \<mapsto> new_client 9]" "ipc_clients ipc_one = [50]"
  "ipc_subscriber_count ipc_one = 0"
  by (simp_all add: ipc_one_def ipc_handle_connection_def ipc_on_def ipc_off_def IPC_MAX_CLIENTS_def)

lemma new_client_empty: "holds_text (new_client fd) []"
proof -
  have "replicate n x = x # replicate (n - 1) x" if "0 < n" for n and x :: "char option"
    using that by (cases n) auto
  moreover have "0 < IPC_BUFFER_INITIAL" by (simp add: IPC_BUFFER_INITIAL_def)
  ultimately show ?thesis unfolding holds_text_def new_client_def by auto
qed

lemma ipc_server_sound_witness: "length (ipc_clients ipc_one) \<le> 10 \<and> ipc_clients ipc_one = [50]"
  using ipc_server_sound [OF ipc_one_reachable] by (simp add: ipc_one_heap)

lemma frames_tail_length: "length (snd (frames t)) \<le> length t"
proof -
  have "length (snd (foldl frame_step (ls, cur) t)) \<le> length cur + length t" for ls cur
  proof (induction t arbitrary: ls cur)
    case (Cons x t)
    show ?case using Cons [of "ls @ [cur]" "[]"] Cons [of ls "cur @ [x]"] by (auto simp: frame_step_def)
  qed simp
  from this [of "[]" "[]"] show ?thesis by (simp add: frames_def)
qed

lemma ipc_commands_are_lines_witness:
  "\<exists>got rest s' k'. concat [''ta'', ''g'' @ [NL] @ ''x''] = got @ rest \<and>
     length [''ta'', ''g'' @ [NL] @ ''x''] \<le> length got \<and>
     ipc_feed (echo_env (Wrote 1) (LDone RNil)) 50 [''ta'', ''g'' @ [NL] @ ''x''] [] ipc_one = Inr (rest, s') \<and>
     dispatches (ipc_log s') = dispatches (ipc_log ipc_one) @ map (Pair (ic_fd (new_client 9))) (nonempty_lines got) \<and>
     ipc_heap s' 50 = Some k' \<and> ic_fd k' = ic_fd (new_client 9) \<and> holds_text k' (snd (frames got))"
proof (rule ipc_commands_are_lines [OF ipc_one_reachable])
  fix got rest
  assume "concat [''ta'', ''g'' @ [NL] @ ''x''] = got @ rest"
  then have "length got \<le> length (concat [''ta'', ''g'' @ [NL] @ ''x''])" by simp
  then show "length (snd (frames got)) < 1024 * 1024 - 1" using frames_tail_length [of got] by simp
qed (simp_all add: ipc_one_heap new_client_empty quiet_def lua_ready_def memory_ok_def echo_env_def)

lemma broadcast_frees_reader_witness:
  "\<exists>s. ipc_handle_client_data (echo_env (WriteError (EOther 32)) (LBroadcast ''EVENT'' (LDone RNil))) ipc_fuel
     (Waiting (''view'' @ [NL])) 50 s = Inl UseAfterFree"
proof -
  let ?env = "echo_env (WriteError (EOther 32)) (LBroadcast ''EVENT'' (LDone RNil))"
  let ?k = "(new_client 9)\<lparr>ic_subscribed := True\<rparr>"
  let ?s = "(put_client 50 ?k ipc_one)\<lparr>ipc_subscriber_count := 1\<rparr>"
  have "lua_run ?env (LSubscribe 9 (LDone RNil)) ipc_one = Inr (RNil, ?s)"
    by (simp add: ipc_subscribe_client_def ipc_one_heap) (simp add: new_client_def)
  then have "ipc_reachable ?env ?s" by (rule ipc_lua [OF ipc_one_reachable])
  then have "ipc_handle_client_data ?env ipc_fuel (Waiting (''view'' @ [NL])) 50 ?s = Inl UseAfterFree"
    by (rule broadcast_frees_reader
        [where k = ?k and f = "\<lambda>c fd. LBroadcast ''EVENT'' (LDone RNil)" and e = "EOther 32"])
      (simp_all add: new_client_empty echo_env_def)
  then show ?thesis by blast
qed

lemma ipc_init_spares_running_witness:
  "Unlink ''/run/somewm-socket'' \<in> set (ipc_log ipc_on) \<and>
   (\<exists>n \<le> 50. ipc_probe_socket first_start n ''/run/somewm-socket'' = 0 \<and>
     (\<forall>m < n. ipc_probe_socket first_start m ''/run/somewm-socket'' > 0))"
  using ipc_init_spares_running [OF first_start_ok, of "''/run''"]
  by (simp add: ipc_off_def ipc_on_def first_start_def)

end
