(* ===== verification/Returns.thy ===== *)
theory Returns
  imports Window Layer Screens
begin

text \<open>
  That the operations on windows, the focus and the screens return. The options of the model stand
  for loops out of fuel; run_frame is the interface of a condition under which no loop runs out: it
  bounds the array of the clients and the chains of popups by the fuel, keeps the stack distinct
  and does not depend on what the operations write. Under it they return a state with the condition.
\<close>

subsection \<open>Results that are there\<close>

definition ends :: "('s \<Rightarrow> bool) \<Rightarrow> 's option \<Rightarrow> bool" where
  "ends P r \<longleftrightarrow> (\<exists>w. r = Some w \<and> P w)"

lemma ends_Some [simp]: "ends P (Some w) = P w"
  by (simp add: ends_def)

lemma ends_map: "ends P r \<Longrightarrow> (\<And>w. P w \<Longrightarrow> Q (f w)) \<Longrightarrow> ends Q (map_option f r)"
  by (auto simp: ends_def)

lemma ends_bind: "ends P r \<Longrightarrow> (\<And>w. P w \<Longrightarrow> ends Q (f w)) \<Longrightarrow> ends Q (Option.bind r f)"
  by (auto simp: ends_def)

lemma ends_fold: "(\<And>x w. P w \<Longrightarrow> ends P (f x w)) \<Longrightarrow> P w \<Longrightarrow> ends P (fold_opt f xs w)"
  by (induction xs arbitrary: w) (auto intro: ends_bind)

text \<open>A loop over an array that is shorter than the fuel ends, whatever the steps do to the array.\<close>

lemma ends_foreach:
  assumes arr: "\<And>w. P w \<Longrightarrow> length (arr w) < F" and step: "\<And>x w. P w \<Longrightarrow> P (f x w)"
  shows "P w \<Longrightarrow> 0 < n \<Longrightarrow> F \<le> n + i \<Longrightarrow> ends P (foreach n i arr f w)"
proof (induction n arbitrary: i w)
  case (Suc n)
  have "F \<le> n + Suc i" using Suc.prems by simp
  moreover have "0 < n" if "i < length (arr w)" using that arr [OF Suc.prems(1)] Suc.prems(3) by simp
  ultimately show ?case using Suc.IH [of "f (arr w ! i) w" "Suc i"] step [OF Suc.prems(1)] Suc.prems(1) by simp
qed simp

lemma ends_foreach_opt:
  assumes arr: "\<And>w. P w \<Longrightarrow> length (arr w) < F" and step: "\<And>x w. P w \<Longrightarrow> ends P (f x w)"
  shows "P w \<Longrightarrow> 0 < n \<Longrightarrow> F \<le> n + i \<Longrightarrow> ends P (foreach_opt n i arr f w)"
proof (induction n arbitrary: i w)
  case (Suc n)
  have "F \<le> n + Suc i" using Suc.prems by simp
  moreover have "0 < n" if "i < length (arr w)" using that arr [OF Suc.prems(1)] Suc.prems(3) by simp
  ultimately have "ends P (foreach_opt n (Suc i) arr f v)" if "P v" "i < length (arr w)" for v
    using Suc.IH [of v "Suc i"] that by blast
  then have "ends P (Option.bind (f (arr w ! i) w) (foreach_opt n (Suc i) arr f))" if "i < length (arr w)"
    using that by (intro ends_bind [OF step [OF Suc.prems(1)]])
  then show ?case using Suc.prems(1) by simp
qed simp

subsection \<open>The interface\<close>

locale run_frame =
  fixes P :: "world \<Rightarrow> bool" and F :: nat
  assumes P_cl: "P (w\<lparr>cl := x1\<rparr>) = P w" and P_queue: "P (w\<lparr>queue := x2\<rparr>) = P w"
    and P_trace: "P (w\<lparr>trace := x3\<rparr>) = P w" and P_selmon: "P (w\<lparr>selmon := x4\<rparr>) = P w"
    and P_focus: "P (w\<lparr>focus_client := x5\<rparr>) = P w" and P_need_focus: "P (w\<lparr>focus_need_update := b1\<rparr>) = P w"
    and P_need_stack: "P (w\<lparr>need_stack_refresh := b2\<rparr>) = P w" and P_constraint: "P (w\<lparr>active_constraint := x6\<rparr>) = P w"
    and P_lazy: "P (w\<lparr>need_lazy_banning := b3\<rparr>) = P w" and P_exclusive: "P (w\<lparr>exclusive_focus := x7\<rparr>) = P w"
    and P_in_refresh: "P (w\<lparr>in_refresh := b4\<rparr>) = P w" and P_primary: "P (w\<lparr>primary_screen := x8\<rparr>) = P w"
    and P_sc: "P (w\<lparr>sc := x9\<rparr>) = P w" and P_screens: "P (w\<lparr>screens := x10\<rparr>) = P w"
    and P_mo: "P (w\<lparr>mo := x11\<rparr>) = P w" and P_registry: "P (w\<lparr>registry := x12\<rparr>) = P w"
    and P_stack: "P w \<Longrightarrow> distinct st \<Longrightarrow> P (w\<lparr>stack := st\<rparr>)" and P_distinct: "P w \<Longrightarrow> distinct (stack w)"
    and P_clients: "P w \<Longrightarrow> length (clients w) < F" and P_popups: "P w \<Longrightarrow> toplevel_up F s w \<noteq> None"
begin

lemmas P_field [simp] =
  P_cl P_queue P_trace P_selmon P_focus P_need_focus P_need_stack P_constraint P_lazy P_exclusive
  P_in_refresh P_primary P_sc P_screens P_mo P_registry

lemma P_upd [simp]:
  "P (upd_client c f w) = P w" "P (enqueue q w) = P w" "P (stack_windows w) = P w" "P (upd_screen s h w) = P w"
  "P (upd_monitor m g w) = P w"
  "P (client_set_border_color c col w) = P w" "P (announce_focus c w) = P w" "P (unfocus_previous col oc w) = P w"
  "P (client_unfocus_internal env d False w) = P w" "P (client_ban_unfocus env d w) = P w"
  "P (queue_geometry_signals c old new w) = P w"
  by (simp_all add: upd_client_def enqueue_def stack_windows_def upd_screen_def upd_monitor_def Let_def
      client_set_border_color_def announce_focus_def unfocus_previous_def client_ban_unfocus_def client_unfocus_def
      client_unfocus_internal_def queue_geometry_signals_def split: option.split)

lemma stack_rest:
  assumes "P w" shows "P (stack_client_append c w)" "P (stack_client_remove c w)"
proof -
  have gone: "c \<notin> set (take i xs @ drop (Suc i) xs)" if "index_of c xs = Some i" "distinct xs" for i xs
    using that remove_at_index [OF that(1)] by simp
  have d: "distinct (take i xs @ drop (Suc i) xs)" if "index_of c xs = Some i" "distinct xs" for i xs
    using that remove_at_index [OF that(1)] by simp
  have out: "P (stack_client_remove c w) \<and> c \<notin> set (stack (stack_client_remove c w))"
    using assms d gone P_distinct [OF assms] P_stack [OF assms] index_of_None [of c "stack w"]
    by (auto simp: stack_client_remove_def stack_windows_def split: option.split)
  then show "P (stack_client_append c w)" "P (stack_client_remove c w)"
    using P_distinct P_stack by (auto simp: stack_client_append_def Let_def)
qed

lemma call: "preserves env P \<Longrightarrow> P w \<Longrightarrow> P (call_env env k w)"
  by (erule call_env_preserves) simp_all

lemma parts:
  assumes "preserves env P" and "P w"
  shows "P (client_activate_surface env s b w)" "P (cursorconstrain env k w)" "P (destroy_popups env t w)"
    "P (client_set_urgent env c v w)" "P (client_set_bounds env c wd ht w)" "P (mark_output env m w)"
    "P (client_set_fullscreen_internal env c b w)" "P (some_monitor_arrange env m w)" "P (layer_enter env l w)"
    "P (layer_surface_emit_request_keyboard env x ctx w)" "P (emit_screen env sn name args w)"
  using assms call [OF assms(1)]
  by (simp_all add: client_activate_surface_def cursorconstrain_def destroy_popups_def client_set_urgent_def
      client_set_bounds_def mark_output_def client_set_fullscreen_internal_def some_monitor_arrange_def layer_enter_def
      layer_surface_emit_request_keyboard_def emit_screen_def
      Let_def split: option.split surface_role.split toplevel.split)

lemma focus_parts:
  assumes "preserves env P" and "P w"
  shows "P (focus_stack_front env col c w)" "P (deactivate_old env old t oc w)" "P (keyboard_enter env c w)"
proof -
  have "P (focus_stack_front env col c w)"
  proof -
    define w1 where "w1 = (case index_of c (stack w) of None \<Rightarrow> w | Some i \<Rightarrow> w\<lparr>stack := take i (stack w) @ drop (Suc i) (stack w)\<rparr>)"
    have "P w1 \<and> c \<notin> set (stack w1)"
      using P_distinct [OF assms(2)] P_stack [OF assms(2)] assms(2) index_of_None [of c "stack w"] remove_at_index [of c "stack w"]
      by (auto simp: w1_def split: option.split)
    then have "P (w1\<lparr>stack := c # stack w1\<rparr>)" using P_distinct P_stack by auto
    then show ?thesis using parts [OF assms(1)]
      unfolding focus_stack_front_def Let_def w1_def [symmetric] by simp
  qed
  then show "P (focus_stack_front env col c w)" "P (deactivate_old env old t oc w)" "P (keyboard_enter env c w)"
    using assms(2) call [OF assms(1)] parts [OF assms(1)]
    by (simp_all add: deactivate_old_def keyboard_enter_def Let_def split: option.split toplevel.split)
qed

lemma ends_stack_refresh:
  assumes "preserves env P" and "P w" shows "ends P (stack_refresh env w)"
proof (cases "need_stack_refresh w")
  case True
  have dist: "distinct (stack w)" by (rule P_distinct [OF assms(2)])
  have "distinct (arranged w)"
    using dist mset_eq_imp_distinct_iff [OF stack_forest.arrange_mset [OF dist]] by simp
  then have "P (w\<lparr>stack := arranged w\<rparr>)" by (rule P_stack [OF assms(2)])
  then show ?thesis using call [OF assms(1)] by (simp add: stack_refresh_arranges [OF dist True])
qed (use assms(2) in \<open>simp add: stack_refresh_def\<close>)

lemma ends_focus_new:
  assumes "preserves env P" and "P w" shows "ends P (focus_new env c w)"
  unfolding focus_new_def Let_def
  using assms(2) by (intro ends_stack_refresh [OF assms(1)])
    (simp add: call [OF assms(1)] parts [OF assms(1)] focus_parts [OF assms(1)])

lemma surface_ends: "P w \<Longrightarrow> \<exists>t. toplevel_from_wlr_surface F s w = Some t"
  using P_popups by (simp add: toplevel_from_wlr_surface_def split: option.split)

lemma ends_focusclient:
  assumes "preserves env P" and "P w" shows "ends P (focusclient F env col bor c lift w)"
proof -
  note parts = parts [OF assms(1)] focus_parts [OF assms(1)]
  define w1 where "w1 = (case c of Some d \<Rightarrow> if lift then stack_client_append d w else w | None \<Rightarrow> w)"
  have w1: "P w1" using assms(2) stack_rest by (simp add: w1_def split: option.split)
  obtain t where t: "toplevel_from_wlr_surface F (seat_focus w) w1 = Some t" using surface_ends [OF w1] by blast
  define w2 where "w2 = destroy_popups env t w1"
  define w3 where "w3 = (case c of Some d \<Rightarrow> if \<not> client_is_unmanaged (cl w2 d) then focus_stack_front env col d w2 else w2 | None \<Rightarrow> w2)"
  define w4 where "w4 = (if seat_focus w \<noteq> None \<and> (c = None \<or> client_surface (cl w3 (the c)) \<noteq> seat_focus w)
     then deactivate_old env (seat_focus w) t c w3 else w3)"
  have "P w2" unfolding w2_def by (rule parts) fact
  then have w3: "P w3" by (simp add: w3_def parts split: option.split)
  then have w4: "P w4" by (simp add: w4_def parts)
  then have "ends P (case c of None \<Rightarrow> Some (stack_windows ((unfocus_previous bor c w4)\<lparr>focus_client := None, focus_need_update := True\<rparr>))
      | Some d \<Rightarrow> focus_new env d (unfocus_previous bor c w4))"
    by (simp add: ends_focus_new [OF assms(1)] split: option.split)
  then show ?thesis using assms(2) w1 w3 w4
    unfolding focusclient_def Let_def w1_def [symmetric] t bind.bind_lunit w2_def [symmetric] w3_def [symmetric] w4_def [symmetric]
    by simp
qed

lemma ends_focus_restore:
  assumes "preserves env P" and "P w" shows "ends P (focus_restore F env col bor lua m w)"
  using assms call [OF assms(1)] ends_focusclient [OF assms(1)]
  by (simp add: focus_restore_def Let_def split: option.split)

subsection \<open>Windows\<close>

lemma banning_need: "P w \<Longrightarrow> P (banning_need_update env w)"
proof -
  have "P v \<Longrightarrow> P (fold (\<lambda>c w. if \<not> client_isvisible c w then client_ban_unfocus env c w else w) cs v)" for cs v
    by (induction cs arbitrary: v) simp_all
  then show "P w \<Longrightarrow> P (banning_need_update env w)" by (simp add: banning_need_update_def)
qed

lemma window_parts:
  assumes "preserves env P" and "P w"
  shows "P (client_set_minimized env c b w)" "P (client_set_hidden env c b w)" "P (resize X env c g i w)"
    "P (client_ban env c w)"
  using assms call [OF assms(1)] parts [OF assms(1)] banning_need
  by (simp_all add: client_set_minimized_def client_set_hidden_def resize_def client_ban_def Let_def split: option.split)

lemma unban:
  assumes "preserves env P" and "P w" shows "P (client_unban env c w)"
  using assms window_parts [OF assms(1)] by (simp add: client_unban_def Let_def)

lemma ends_banning:
  assumes "preserves env P" and "P w" shows "ends P (banning_refresh F env w)"
proof -
  have F: "0 < F" using P_clients [OF assms(2)] by simp
  have "ends P (foreach F 0 clients (\<lambda>c w. if client_isvisible c w then client_unban env c w else w) (w\<lparr>need_lazy_banning := False\<rparr>))"
    by (rule ends_foreach [OF P_clients]) (use assms F unban in auto)
  moreover have "ends P (foreach F 0 clients (\<lambda>c w. if \<not> client_isvisible c w then client_ban env c w else w) v)" if "P v" for v
    by (rule ends_foreach [OF P_clients]) (use that assms F window_parts in auto)
  ultimately show ?thesis using assms(2) by (auto simp: banning_refresh_def intro: ends_bind)
qed

lemma ends_some_refresh:
  assumes "preserves env P" and "P w" shows "ends P (some_refresh F env w)"
proof (cases "in_refresh w")
  case False
  define v where "v = before_banning env w"
  have v: "P v" unfolding v_def by (rule before_banning_keeps [OF assms]) simp_all
  have r: "some_refresh F env w = Option.bind (banning_refresh F env v) (\<lambda>b.
     map_option (\<lambda>w. (call_env env (Native ''client_destroy_later'' []) w)\<lparr>in_refresh := False\<rparr>)
       (stack_refresh env
         (let w = (if need_lazy_banning v then call_env env (Native ''declare_mark_all_dirty'' []) b else b)
          in if need_lazy_banning v then call_env env (Native ''motionnotify'' []) w else w)))"
    using False by (simp add: some_refresh_def Let_def v_def before_banning_def)
  show ?thesis unfolding r
    using call [OF assms(1)] v
    by (intro ends_bind [OF ends_banning [OF assms(1)]] ends_map [OF ends_stack_refresh [OF assms(1)]])
      (simp_all add: Let_def)
qed (use assms(2) in \<open>simp add: some_refresh_def\<close>)

lemma ends_setfullscreen:
  assumes "preserves env P" and "P w" shows "ends P (setfullscreen X env c b w)"
proof -
  note call = call [OF assms(1)] and parts = parts [OF assms(1)] window_parts [OF assms(1)]
  define w1 where "w1 = upd_client c (\<lambda>x. x\<lparr>fullscreen := b\<rparr>) w"
  define w2 where "w2 = (if b \<and> (maximized (cl w1 c) \<or> maximized_horizontal (cl w1 c) \<or> maximized_vertical (cl w1 c))
     then (let w = upd_client c (\<lambda>x. x\<lparr>maximized := False, maximized_horizontal := False, maximized_vertical := False\<rparr>) w1
           in if client_type (cl w c) = XDGShell
              then call_env env (Native ''xdg_toplevel_set_maximized'' [LUser c, LBool False]) w else w)
     else w1)"
  define w3 where "w3 = (if fullscreen (cl w c) \<noteq> b then client_set_fullscreen_internal env c b w2 else w2)"
  define w4 where "w4 = (if b then (let w' = (if \<not> fullscreen (cl w c) then upd_client c (\<lambda>x. x\<lparr>prev_geometry := geometry x\<rparr>) w3 else w3)
        in resize X env c (m_box (mo w' (the (c_mon (cl w' c))))) False w')
     else if fullscreen (cl w c) then resize X env c (prev_geometry (cl w3 c)) False w3 else w3)"
  have "P w1" using assms(2) by (simp add: w1_def)
  then have "P w2" by (simp add: w2_def Let_def call)
  then have "P w3" by (simp add: w3_def parts)
  then have "P w4" by (simp add: w4_def Let_def parts)
  then have "ends P (stack_refresh env (some_monitor_arrange env k (emit env c n [] w4)))" for k n
    by (intro ends_stack_refresh [OF assms(1)] parts call)
  then show ?thesis using \<open>P w1\<close>
    unfolding setfullscreen_def Let_def w1_def [symmetric] w2_def [unfolded Let_def, symmetric]
      w3_def [symmetric] w4_def [unfolded Let_def, symmetric] by simp
qed

lemma ends_setmon:
  assumes "preserves env P" and "P w" shows "ends P (setmon X env c m w)"
proof (cases "c_mon (cl w c) = m")
  case True
  then show ?thesis using assms(2) by (simp add: setmon_def)
next
  case False
  note call = call [OF assms(1)] and parts = parts [OF assms(1)] window_parts [OF assms(1)]
  define w1 where "w1 = upd_client c (\<lambda>x. x\<lparr>c_screen := luaA_screen_get_by_monitor m (upd_client c (\<lambda>x. x\<lparr>c_mon := m\<rparr>) w)\<rparr>)
    (upd_client c (\<lambda>x. x\<lparr>c_mon := m\<rparr>) w)"
  define w2 where "w2 = (if c_screen (cl w1 c) \<noteq> c_screen (cl w c) then emit env c ''property::screen'' [obj_of (c_screen (cl w c))] w1 else w1)"
  define w3 where "w3 = (if toplevel_handle (cl w2 c)
      then call_env env (Native ''foreign_toplevel_output_change'' [LUser c, obj_of (c_mon (cl w c)), obj_of m]) w2 else w2)"
  define w4 where "w4 = some_monitor_arrange env (c_mon (cl w c)) w3"
  have "P w1" using assms(2) by (simp add: w1_def)
  then have "P w2" by (simp add: w2_def call)
  then have "P w3" by (simp add: w3_def call)
  then have q: "P w4" by (simp add: w4_def parts)
  let ?w5 = "banning_need_update env (resize X env c (geometry (cl w4 c)) False w4)"
  have "P ?w5" using q by (simp add: parts banning_need)
  then show ?thesis using q False ends_setfullscreen [OF assms(1)]
    unfolding setmon_def Let_def if_not_P [OF False] w1_def [symmetric] w2_def [symmetric]
      w3_def [symmetric] w4_def [symmetric] by simp
qed

subsection \<open>Screens and layer surfaces\<close>

lemma focus_update:
  assumes "preserves env P" and "P w" shows "P (client_focus env c w)"
proof -
  have "P (snd (client_focus_update env d v))" if "P v" for d v
    using that parts [OF assms(1)] by (simp add: client_focus_update_def Let_def split: option.split)
  then have "P u" if "client_focus_update env d w = (b, u)" for d b u
    using that assms(2) by (metis snd_conv)
  then show ?thesis using call [OF assms(1)]
    by (simp add: client_focus_def Let_def split: option.split prod.split)
qed

lemma relocate:
  assumes "preserves env P" and "P w" shows "P (relocate_client env s c w)"
proof -
  have r: "P (screen_reassign env c n w)" for n using assms(2) by (simp add: screen_reassign_def Let_def banning_need)
  have "P (screen_emit_moved env c o' b v)" if "P v" for o' b v
    using that call [OF assms(1)] focus_update [OF assms(1)] by (simp add: screen_emit_moved_def Let_def)
  then have "P (screen_client_moveto_stay env c n w)" for n
    using assms(2) r by (simp add: screen_client_moveto_stay_def)
  then show ?thesis using assms(2) by (simp add: relocate_client_def Let_def)
qed

lemma reindex: "P (reindex_from i w) = P w"
proof -
  have "P (fold (\<lambda>j w. upd_screen (screens w ! j) (\<lambda>x. x\<lparr>s_index := int (j + 1)\<rparr>) w) js v) = P v" for js v
    by (induction js arbitrary: v) simp_all
  then show ?thesis by (simp add: reindex_from_def)
qed

lemma ends_screen_removed:
  assumes "preserves env P" and "P w" shows "ends P (screen_removed F env s w)"
proof -
  define v where "v = emit_screen env s ''removed'' [] w"
  have F: "0 < F" using P_clients [OF assms(2)] by simp
  have "P v" by (simp add: v_def parts [OF assms])
  then have l: "ends P (foreach F 0 clients (\<lambda>c w. relocate_client env s c w)
      (if primary_screen v = Some s then v\<lparr>primary_screen := None\<rparr> else v))"
    by (intro ends_foreach [OF P_clients] relocate [OF assms(1)]) (use F in simp_all)
  have "P (call_env env (EmitClass ''screen'' ''list'' []) (call_env env (Native ''drawins_reassign_screen'' [LUser s])
      (drop_screen s (upd_screen s (\<lambda>x. x\<lparr>s_valid := False, s_monitor := None\<rparr>) u))))" if "P u" for u
    using that by (intro call [OF assms(1)]) (simp add: drop_screen_def reindex split: option.split)
  from ends_map [OF l, of P, OF this] show ?thesis using assms(2)
    unfolding screen_removed_def Let_def v_def [symmetric] by simp
qed

lemma ends_layer_focus:
  assumes "preserves env P" and "lock_lib.lib_fuel X = F" and "P w"
  shows "ends P (layer_keyboard_focus X env m w)"
proof -
  have take: "ends P (layer_take_keyboard X env l v)" if "P v" for l v
    using that parts [OF assms(1)] unfolding layer_take_keyboard_def assms(2)
    by (intro ends_map [OF ends_focusclient [OF assms(1)]]) simp_all
  have loop: "P v \<Longrightarrow> ends (\<lambda>r. P (snd r)) (keyboard_focus_loop X env ls v)" for v ls
  proof (induction ls arbitrary: v)
    case (Cons l ls)
    then show ?case using parts [OF assms(1)] ends_map [OF take, of v "\<lambda>r. P (snd r)" "Pair True"]
      by (simp add: Let_def split: option.split)
  qed simp
  have "ends P (if taken then Some v else map_option snd (keyboard_focus_loop X env ls v))" if "P v" for taken v ls
    using that ends_map [OF loop [OF that], of P snd] by simp
  then show ?thesis using assms(3) unfolding layer_keyboard_focus_def
    by (auto intro!: ends_bind [OF loop])
qed

end

subsection \<open>The condition\<close>

text \<open>
  The fuel is longer than the array of the clients and than any chain of popups, and no window is in
  the stack twice. What one operation needs of another is that a note of the layout stays.
\<close>

definition ready :: "nat \<Rightarrow> world \<Rightarrow> bool" where
  "ready F w \<longleftrightarrow> distinct (stack w) \<and> length (clients w) < F \<and> (\<forall>s. toplevel_up F s w \<noteq> None)"

definition ready_up :: "nat \<Rightarrow> world \<Rightarrow> bool" where
  "ready_up F w \<longleftrightarrow> ready F w \<and> in_updatemons w"

lemma toplevel_same: "surf v = surf w \<Longrightarrow> toplevel_up n s v = toplevel_up n s w"
  by (induction n arbitrary: s) (auto split: surface_role.split option.split)

lemma ready_same:
  "stack v = stack w \<Longrightarrow> clients v = clients w \<Longrightarrow> surf v = surf w \<Longrightarrow> ready F v = ready F w"
  using toplevel_same [of v w F] by (simp add: ready_def)

lemma ready_stack: "ready F w \<Longrightarrow> distinct st \<Longrightarrow> ready F (w\<lparr>stack := st\<rparr>)"
  using toplevel_same [of "w\<lparr>stack := st\<rparr>" w F] by (simp add: ready_def)

lemma ready_parts:
  assumes "ready F w" shows "distinct (stack w)" "length (clients w) < F" "toplevel_up F s w \<noteq> None"
  using assms by (simp_all add: ready_def)

lemma ready_up_same:
  "stack v = stack w \<Longrightarrow> clients v = clients w \<Longrightarrow> surf v = surf w \<Longrightarrow> in_updatemons v = in_updatemons w \<Longrightarrow>
    ready_up F v = ready_up F w"
  using ready_same [of v w F] by (simp add: ready_up_def)

interpretation rd: run_frame "ready F" F
  by unfold_locales ((rule ready_same; simp) | (erule ready_stack, assumption) | (drule ready_parts, assumption))+

lemma ready_up_stack: "ready_up F w \<Longrightarrow> distinct st \<Longrightarrow> ready_up F (w\<lparr>stack := st\<rparr>)"
  by (simp add: ready_up_def ready_stack)

lemma ready_up_parts:
  assumes "ready_up F w" shows "distinct (stack w)" "length (clients w) < F" "toplevel_up F s w \<noteq> None"
  using assms by (simp_all add: ready_up_def ready_def)

interpretation ru: run_frame "ready_up F" F
  by unfold_locales ((rule ready_up_same; simp) | (erule ready_up_stack, assumption) | (drule ready_up_parts, assumption))+

end
