(* ===== verification/Monitors.thy ===== *)
theory Monitors
  imports Returns
begin

text \<open>
  Monitors (monitor.c): plugging in and out, the settling of the output layout with its screens,
  boxes and windows, configurations of output managers, power, frames, and moving between
  monitors. It composes the screens, windows, layer surfaces and the focus. The lemmas show
  which monitors and screens are left after the layout was settled, where the windows of a
  closed monitor go, and what a test configuration does to a sleeping monitor.
\<close>

subsection \<open>What the code asks of wlroots and Lua\<close>

text \<open>
  The layout of wlroots: out_layout holds the monitors whose outputs are in it, ml_box is the box
  of an output, or of the whole layout; ml_adjacent and ml_farthest the neighbours in a direction.
  ml_commit is whether wlroots accepts a state for an output, ml_fresh the address of a new object,
  ml_viewports the table of the viewports, ml_changed whether the frame changed the scene,
  ml_presented whether there was something to present and ml_stopped whether the process of a
  client is stopped.
\<close>

record mon_lib =
  ml_window :: window_lib
  ml_lock :: lock_lib
  ml_box :: "world \<Rightarrow> nat option \<Rightarrow> area"
  ml_box_equal :: "area \<Rightarrow> area \<Rightarrow> bool"
  ml_adjacent :: "world \<Rightarrow> u32 \<Rightarrow> nat \<Rightarrow> nat option"
  ml_farthest :: "world \<Rightarrow> u32 \<Rightarrow> nat \<Rightarrow> nat option"
  ml_fresh :: "world \<Rightarrow> nat"
  ml_viewports :: "world \<Rightarrow> lval"
  ml_commit :: "world \<Rightarrow> nat \<Rightarrow> bool"
  ml_changed :: "world \<Rightarrow> nat \<Rightarrow> bool"
  ml_presented :: "world \<Rightarrow> nat \<Rightarrow> bool"
  ml_stopped :: "world \<Rightarrow> nat \<Rightarrow> bool"

abbreviation (input) SIG_PROPERTY_ENABLED :: nat where "SIG_PROPERTY_ENABLED \<equiv> 26"
abbreviation (input) SIG_PROPERTY_SCALE :: nat where "SIG_PROPERTY_SCALE \<equiv> 27"
abbreviation (input) SIG_PROPERTY_TRANSFORM :: nat where "SIG_PROPERTY_TRANSFORM \<equiv> 28"
abbreviation (input) SIG_PROPERTY_MODE :: nat where "SIG_PROPERTY_MODE \<equiv> 29"
abbreviation (input) SIG_PROPERTY_ADAPTIVE_SYNC :: nat where "SIG_PROPERTY_ADAPTIVE_SYNC \<equiv> 30"
abbreviation (input) SIG_PROPERTY_SCREEN :: nat where "SIG_PROPERTY_SCREEN \<equiv> 31"
abbreviation (input) SIG_OUTPUT_ADDED :: nat where "SIG_OUTPUT_ADDED \<equiv> 35"

definition OUTPUT_CLASS :: nat where "OUTPUT_CLASS = 4"

abbreviation (input) fuel_of :: "mon_lib \<Rightarrow> nat" where "fuel_of X \<equiv> lock_lib.lib_fuel (ml_lock X)"

text \<open>
  focus_restore with the colours of the configuration. The loops over the monitors read the list
  when they begin: handlers run Lua code, which plugs no monitor.
\<close>

definition restore_focus :: "mon_lib \<Rightarrow> env \<Rightarrow> nat option \<Rightarrow> world \<Rightarrow> world option" where
  "restore_focus X env m w =
     focus_restore (fuel_of X) env (lock_lib.lib_focuscolor (ml_lock X)) (lock_lib.lib_bordercolor (ml_lock X)) True m w"

subsection \<open>Closing a monitor\<close>

definition next_enabled :: "nat \<Rightarrow> world \<Rightarrow> nat option" where
  "next_enabled m w = find (\<lambda>i. i \<noteq> m \<and> m_enabled (mo w i)) (mons w)"

text \<open>The windows of the closed monitor go to the selected one, and floating ones move left.\<close>

definition close_client :: "mon_lib \<Rightarrow> env \<Rightarrow> nat \<Rightarrow> nat \<Rightarrow> world \<Rightarrow> world option" where
  "close_client X env m c w =
     (let g = geometry (cl w c);
          w = (if lib_floating (ml_window X) c w \<and> ax g > aw (m_box (mo w m))
               then resize (ml_window X) env c (box (ax g - aw (m_workarea (mo w m))) (ay g) (aw g) (ah g)) False w
               else w)
      in if c_mon (cl w c) = Some m then setmon (ml_window X) env c (selmon w) w else Some w)"

definition closemon :: "mon_lib \<Rightarrow> env \<Rightarrow> nat \<Rightarrow> world \<Rightarrow> world option" where
  "closemon X env m w =
     (let w = (if mons w = [] then w\<lparr>selmon := None\<rparr>
               else if selmon w = Some m then w\<lparr>selmon := next_enabled m w\<rparr> else w)
      in Option.bind (foreach_opt (fuel_of X) 0 clients (close_client X env m) w)
           (\<lambda>w. restore_focus X env (selmon w) w))"

text \<open>The screen of a monitor that goes is removed, and the primary screen announced anew.\<close>

definition remove_screen_of :: "mon_lib \<Rightarrow> env \<Rightarrow> nat \<Rightarrow> world \<Rightarrow> world option" where
  "remove_screen_of X env s w =
     (let was_primary = (luaA_screen_get_primary_screen w = Some s)
      in map_option (\<lambda>w.
           let w = luaA_screen_emit_viewports (ml_viewports X w) w;
               new_primary = luaA_screen_get_primary_screen w
           in if was_primary \<and> new_primary \<noteq> None \<and> new_primary \<noteq> Some s
              then luaA_screen_emit_primary_changed new_primary w else w)
         (screen_removed (fuel_of X) env s w))"

definition emit_output :: "env \<Rightarrow> nat \<Rightarrow> string \<Rightarrow> world \<Rightarrow> world" where
  "emit_output env m name w =
     (case m_output (mo w m) of None \<Rightarrow> w | Some x \<Rightarrow> emit env x name [] w)"

text \<open>
  Whatever changes the layout of wlroots makes it emit layout::change, which runs updatemons; that
  is the argument changed of the operations below. While updatemons runs, it only takes a note.
\<close>

definition layout_add :: "(world \<Rightarrow> world option) \<Rightarrow> nat \<Rightarrow> world \<Rightarrow> world option" where
  "layout_add changed m w =
     changed (if m \<in> set (out_layout w) then w else w\<lparr>out_layout := out_layout w @ [m]\<rparr>)"

definition layout_remove :: "(world \<Rightarrow> world option) \<Rightarrow> nat \<Rightarrow> world \<Rightarrow> world option" where
  "layout_remove changed m w =
     (if m \<in> set (out_layout w) then changed (w\<lparr>out_layout := remove1 m (out_layout w)\<rparr>) else Some w)"

subsection \<open>Settling the layout\<close>

text \<open>The steps of updatemons, a loop each. A monitor that was disabled:\<close>

definition disable_monitor :: "mon_lib \<Rightarrow> env \<Rightarrow> (world \<Rightarrow> world option) \<Rightarrow> nat \<Rightarrow> world \<Rightarrow> world option" where
  "disable_monitor X env changed m w =
     (if m_enabled (mo w m) \<or> m_asleep (mo w m) then Some w
      else
        (let w = call_env env (Native ''output_configuration_head'' [LUser m]) w
         in if m \<notin> set (out_layout w) then Some w
            else
              Option.bind (case luaA_screen_get_by_monitor (Some m) w of
                             None \<Rightarrow> Some w | Some s \<Rightarrow> remove_screen_of X env s w) (\<lambda>w.
              Option.bind (layout_remove changed m (emit_output env m ''property::screen'' w)) (\<lambda>w.
              map_option (upd_monitor m (\<lambda>x. x\<lparr>m_box := box 0 0 0 0, m_workarea := box 0 0 0 0\<rparr>))
                (closemon X env m w)))))"

definition insert_monitor :: "(world \<Rightarrow> world option) \<Rightarrow> nat \<Rightarrow> world \<Rightarrow> world option" where
  "insert_monitor changed m w =
     (if m_enabled (mo w m) \<and> m \<notin> set (out_layout w) then layout_add changed m w else Some w)"

text \<open>The screen of an enabled monitor: made if there is none, and given the box of the monitor.\<close>

definition settle_screen :: "mon_lib \<Rightarrow> nat \<Rightarrow> world \<Rightarrow> world" where
  "settle_screen X m w =
     (let w = (case luaA_screen_get_by_monitor (Some m) w of
                 Some s \<Rightarrow> w
               | None \<Rightarrow>
                   upd_monitor m (\<lambda>x. x\<lparr>needs_screen_added := True\<rparr>)
                     (luaA_screen_new (ml_fresh X w) m (updatemons_screen_index m w) w))
      in case luaA_screen_get_by_monitor (Some m) w of
           None \<Rightarrow> w
         | Some s \<Rightarrow>
             if needs_screen_added (mo w m)
             then upd_screen s (\<lambda>x. x\<lparr>s_geometry := m_box (mo w m), s_workarea := m_box (mo w m)\<rparr>) w
             else luaA_screen_update_geometry (ml_box_equal X) s w)"

definition settle_monitor :: "mon_lib \<Rightarrow> env \<Rightarrow> nat \<Rightarrow> world \<Rightarrow> world option" where
  "settle_monitor X env m w =
     (if \<not> m_enabled (mo w m) then Some w
      else
        (let w = call_env env (Native ''output_configuration_head'' [LUser m]) w;
             w = upd_monitor m (\<lambda>x. x\<lparr>m_box := ml_box X w (Some m), m_workarea := ml_box X w (Some m)\<rparr>) w;
             w = call_env env (Native ''scene_output_set_position'' [LUser m]) w;
             w = call_env env (Native ''declare_output_update'' [LUser m]) w;
             w = (case m_lock_surface (mo w m) of
                    None \<Rightarrow> w
                  | Some s \<Rightarrow> call_env env (Native ''wlr_session_lock_surface_v1_configure'' [LUser s]) w)
         in map_option (\<lambda>w.
              let w = settle_screen X m w;
                  w = call_env env (Arrange m) w;
                  w = (case focustop (Some m) w of
                         Some c \<Rightarrow> if fullscreen (cl w c)
                                  then resize (ml_window X) env c (m_box (mo w m)) False w else w
                       | None \<Rightarrow> w);
                  w = upd_monitor m (\<lambda>x. x\<lparr>gamma_lut_changed := True\<rparr>) w
              in if selmon w = None then w\<lparr>selmon := Some m\<rparr> else w)
            (layer_keyboard_focus (ml_lock X) env m w)))"

text \<open>A screen that was announced to Lua as added.\<close>

definition announce_screen :: "mon_lib \<Rightarrow> env \<Rightarrow> nat \<Rightarrow> world \<Rightarrow> world option" where
  "announce_screen X env m w =
     (if \<not> needs_screen_added (mo w m) \<or> \<not> m_enabled (mo w m) then Some w
      else
        (let w = upd_monitor m (\<lambda>x. x\<lparr>needs_screen_added := False\<rparr>) w
         in case luaA_screen_get_by_monitor (Some m) w of
              None \<Rightarrow> Some w
            | Some s \<Rightarrow>
                if \<not> s_valid (sc w s) then Some w
                else
                  (let old_primary = luaA_screen_get_primary_screen w;
                       w = screen_added env s w;
                       w = luaA_screen_emit_list w;
                       w = luaA_screen_emit_viewports (ml_viewports X w) w;
                       w = (if luaA_screen_get_primary_screen w = Some s \<and> old_primary \<noteq> Some s
                            then luaA_screen_emit_primary_changed (Some s) w else w);
                       w = (case m_output (mo w m) of
                              None \<Rightarrow> w | Some x \<Rightarrow> enqueue (QSignal0 (LUser x) SIG_PROPERTY_SCREEN) w)
                   in Option.bind (banning_refresh (fuel_of X) env w) (some_refresh (fuel_of X) env))))"

definition announce_output :: "nat \<Rightarrow> world \<Rightarrow> world" where
  "announce_output m w =
     (if \<not> needs_output_added (mo w m) then w
      else
        (let w = upd_monitor m (\<lambda>x. x\<lparr>needs_output_added := False\<rparr>) w
         in case m_output (mo w m) of
              None \<Rightarrow> w
            | Some x \<Rightarrow> enqueue (QClassArgs OUTPUT_CLASS SIG_OUTPUT_ADDED [LUser x]) w))"

text \<open>Mapped windows without a monitor go to the selected one.\<close>

definition adopt_orphan :: "mon_lib \<Rightarrow> env \<Rightarrow> nat \<Rightarrow> world \<Rightarrow> world option" where
  "adopt_orphan X env c w =
     (if c_mon (cl w c) = None \<and> surface_mapped c w then setmon (ml_window X) env c (selmon w) w else Some w)"

definition adopt_orphans :: "mon_lib \<Rightarrow> env \<Rightarrow> world \<Rightarrow> world option" where
  "adopt_orphans X env w =
     (case selmon w of
        None \<Rightarrow> Some w
      | Some m \<Rightarrow>
          if \<not> m_enabled (mo w m) then Some w
          else
            Option.bind (foreach_opt (fuel_of X) 0 clients (adopt_orphan X env) w) (\<lambda>w.
            map_option (\<lambda>w.
              case selmon w of
                None \<Rightarrow> w
              | Some m \<Rightarrow>
                  (case m_lock_surface (mo w m) of
                     None \<Rightarrow> w
                   | Some s \<Rightarrow>
                       client_activate_surface env (Some s) True
                         (call_env env (Native ''seat_keyboard_notify_enter'' [LUser s]) w)))
              (restore_focus X env (selmon w) w)))"

definition settle_layout :: "mon_lib \<Rightarrow> env \<Rightarrow> (world \<Rightarrow> world option) \<Rightarrow> world \<Rightarrow> world option" where
  "settle_layout X env changed w =
     (let w = call_env env (Native ''output_configuration_create'' []) (w\<lparr>in_updatemons := True\<rparr>)
      in Option.bind (fold_opt (disable_monitor X env changed) (mons w) w) (\<lambda>w.
         Option.bind (fold_opt (insert_monitor changed) (mons w) w) (\<lambda>w.
         Option.bind (fold_opt (settle_monitor X env) (mons w) (w\<lparr>sgeom := ml_box X w None\<rparr>)) (\<lambda>w.
         Option.bind (fold_opt (announce_screen X env) (mons w) w) (\<lambda>w.
         map_option (\<lambda>w.
           let w = call_env env (Native ''cursor_move'' []) w;
               w = call_env env (Native ''declare_cursor_changed'' []) w;
               w = call_env env (Native ''output_manager_set_configuration'' []) (w\<lparr>in_updatemons := False\<rparr>)
           in w\<lparr>in_updatemons := False\<rparr>)
           (adopt_orphans X env (fold announce_output (mons w) w)))))))"

text \<open>
  updatemons: a call that comes while it runs is made up for at its end. The fuel bounds how often.
\<close>

fun updatemons :: "mon_lib \<Rightarrow> env \<Rightarrow> nat \<Rightarrow> world \<Rightarrow> world option" where
  "updatemons X env 0 w = (if in_updatemons w then Some (w\<lparr>updatemons_pending := True\<rparr>) else None)"
| "updatemons X env (Suc n) w =
     (if in_updatemons w then Some (w\<lparr>updatemons_pending := True\<rparr>)
      else
        Option.bind (settle_layout X env (updatemons X env n) w) (\<lambda>w.
          if updatemons_pending w then updatemons X env n (w\<lparr>updatemons_pending := False\<rparr>) else Some w))"

subsection \<open>Plugging in and out\<close>

text \<open>
  A new output: m is the address of its monitor. The arguments say whether the output already has
  a monitor and whether its renderer could be made; the commit of its mode is ml_commit. The box of
  a new monitor is at -1, -1, which lets wlroots place it.
\<close>

definition createmon_objects :: "mon_lib \<Rightarrow> nat \<Rightarrow> world \<Rightarrow> world" where
  "createmon_objects X m w =
     (let w = upd_monitor m (\<lambda>x. x\<lparr>m_output := Some (ml_fresh X w), needs_output_added := True\<rparr>) w;
          w = upd_monitor m (\<lambda>x. x\<lparr>m_scene_output := True\<rparr>) w;
          w = createmon_screen (ml_fresh X w) m w
      in if luaA_screen_scanned_done w then upd_monitor m (\<lambda>x. x\<lparr>needs_screen_added := True\<rparr>) w else w)"

definition createmon :: "mon_lib \<Rightarrow> env \<Rightarrow> nat \<Rightarrow> nat \<Rightarrow> bool \<Rightarrow> bool \<Rightarrow> world \<Rightarrow> world option" where
  "createmon X env n m has_monitor render_ok w =
     (if has_monitor \<or> m \<in> set (out_layout w) \<or> \<not> render_ok then Some w
      else
        (let w = call_env env (Native ''nested_inhibitor_attach_output'' [LUser m]) w;
             w = upd_monitor m (\<lambda>_. monitor0\<lparr>m_box := box (-1) (-1) 0 0\<rparr>) w;
             committed = ml_commit X w m;
             w = call_env env (Native ''output_commit_state'' [LUser m]) w
         in if \<not> committed then Some w
            else
              (let w = upd_monitor m (\<lambda>x. x\<lparr>m_enabled := True\<rparr>) w;
                   w = createmon_objects X m (w\<lparr>mons := m # mons w\<rparr>)
               in layout_add (updatemons X env n) m w)))"

text \<open>The surfaces of a monitor that goes are destroyed, layer by layer.\<close>

definition destroy_layers :: "env \<Rightarrow> nat \<Rightarrow> world \<Rightarrow> world" where
  "destroy_layers env m w =
     fold (\<lambda>i w. fold (\<lambda>l. call_env env (Native ''layer_surface_destroy'' [LUser l])) (m_layers (mo w m) i) w) [0..<4] w"

definition drop_output :: "env \<Rightarrow> nat \<Rightarrow> world \<Rightarrow> world" where
  "drop_output env m w =
     (case m_output (mo w m) of
        None \<Rightarrow> w
      | Some x \<Rightarrow>
          (let w = call_env env (EmitClass ''output'' ''removed'' [LUser x]) w;
               w = call_env env (Native ''output_invalidate'' [LUser x]) w
           in upd_monitor m (\<lambda>y. y\<lparr>m_output := None\<rparr>) w))"

definition cleanupmon :: "mon_lib \<Rightarrow> env \<Rightarrow> nat \<Rightarrow> nat \<Rightarrow> world \<Rightarrow> world option" where
  "cleanupmon X env n m w =
     Option.bind (case luaA_screen_get_by_monitor (Some m) w of
                    None \<Rightarrow> Some w
                  | Some s \<Rightarrow> map_option (emit_output env m ''property::screen'') (remove_screen_of X env s w)) (\<lambda>w.
     let w = destroy_layers env m (drop_output env m w);
         w = w\<lparr>mons := remove1 m (mons w)\<rparr>
     in Option.bind (case m_lock_surface (mo w m) of
                       None \<Rightarrow> Some w | Some s \<Rightarrow> destroylocksurface (ml_lock X) env m s w) (\<lambda>w.
        let w = call_env env (Native ''scene_output_destroy'' [LUser m]) (w\<lparr>in_updatemons := True\<rparr>)
        in Option.bind (layout_remove (updatemons X env n) m w) (\<lambda>w.
           Option.bind (closemon X env m (w\<lparr>in_updatemons := False\<rparr>)) (\<lambda>w.
             let w = call_env env (Native ''declare_output_destroy'' [LUser m]) w;
                 w = layer_focus_forget_monitor m w
             in if updatemons_pending w then updatemons X env n (w\<lparr>updatemons_pending := False\<rparr>) else Some w))))"

subsection \<open>Configurations, power and frames\<close>

text \<open>A head of a configuration: the monitor of its output, if it has one, and what it asks.\<close>

record config_head =
  ch_monitor :: "nat option"
  ch_enabled :: bool
  ch_x :: int
  ch_y :: int

text \<open>Whether all heads were accepted, and the state after them.\<close>

definition apply_head ::
    "mon_lib \<Rightarrow> env \<Rightarrow> nat \<Rightarrow> bool \<Rightarrow> config_head \<Rightarrow> bool \<times> world \<Rightarrow> (bool \<times> world) option" where
  "apply_head X env n test h acc =
     (case (ch_monitor h, acc) of
        (None, _) \<Rightarrow> Some acc
      | (Some m, (ok, w)) \<Rightarrow>
          (let w = upd_monitor m (\<lambda>x. x\<lparr>m_asleep := False\<rparr>) w;
               accepted = ml_commit X w m;
               w = call_env env (Native (if test then ''output_test_state'' else ''output_commit_state'') [LUser m]) w;
               w = (if \<not> test \<and> accepted then upd_monitor m (\<lambda>x. x\<lparr>m_enabled := ch_enabled h\<rparr>) w else w);
               ok = (ok \<and> accepted)
           in if \<not> test \<and> m_enabled (mo w m) \<and> (ax (m_box (mo w m)) \<noteq> ch_x h \<or> ay (m_box (mo w m)) \<noteq> ch_y h)
              then map_option (Pair ok) (layout_add (updatemons X env n) m w)
              else Some (ok, w)))"

definition outputmgrapplyortest :: "mon_lib \<Rightarrow> env \<Rightarrow> nat \<Rightarrow> config_head list \<Rightarrow> bool \<Rightarrow> world \<Rightarrow> world option" where
  "outputmgrapplyortest X env n heads test w =
     Option.bind (fold_opt (apply_head X env n test) heads (True, w)) (\<lambda>(ok, w).
       let w = call_env env (Native (if ok then ''output_configuration_send_succeeded'' else ''output_configuration_send_failed'') []) w
       in updatemons X env n w)"

definition outputmgrapply :: "mon_lib \<Rightarrow> env \<Rightarrow> nat \<Rightarrow> config_head list \<Rightarrow> world \<Rightarrow> world option" where
  "outputmgrapply X env n heads w = outputmgrapplyortest X env n heads False w"

definition outputmgrtest :: "mon_lib \<Rightarrow> env \<Rightarrow> nat \<Rightarrow> config_head list \<Rightarrow> world \<Rightarrow> world option" where
  "outputmgrtest X env n heads w = outputmgrapplyortest X env n heads True w"

definition powermgrsetmode :: "mon_lib \<Rightarrow> env \<Rightarrow> nat \<Rightarrow> nat option \<Rightarrow> bool \<Rightarrow> world \<Rightarrow> world option" where
  "powermgrsetmode X env n monitor mode w =
     (case monitor of
        None \<Rightarrow> Some w
      | Some m \<Rightarrow>
          (let w = upd_monitor m (\<lambda>x. x\<lparr>gamma_lut_changed := True\<rparr>) w;
               accepted = ml_commit X w m;
               w = call_env env (Native ''output_commit_state'' [LUser m]) w;
               w = (if accepted then upd_monitor m (\<lambda>x. x\<lparr>m_enabled := mode\<rparr>) w else w);
               w = upd_monitor m (\<lambda>x. x\<lparr>m_asleep := \<not> mode\<rparr>) w
           in updatemons X env n w))"

text \<open>A state the backend asks for: its committed bits, with the new enabled bit if it has one.\<close>

record out_state =
  os_enabled :: "bool option"
  os_scale :: bool
  os_transform :: bool
  os_mode :: bool
  os_adaptive_sync :: bool

definition queue_state :: "out_state \<Rightarrow> nat \<Rightarrow> nat \<Rightarrow> world \<Rightarrow> world" where
  "queue_state st m x w =
     (let sig = (\<lambda>b n w. if b then enqueue (QSignal0 (LUser x) n) w else w);
          w = sig (os_enabled st \<noteq> None) SIG_PROPERTY_ENABLED w;
          w = sig (os_scale st) SIG_PROPERTY_SCALE w;
          w = (case luaA_screen_get_by_monitor (Some m) w of
                 Some s \<Rightarrow> if os_scale st then enqueue (QSignal0 (LUser s) SIG_PROPERTY_SCALE) w else w
               | None \<Rightarrow> w);
          w = sig (os_transform st) SIG_PROPERTY_TRANSFORM w;
          w = sig (os_mode st) SIG_PROPERTY_MODE w
      in sig (os_adaptive_sync st) SIG_PROPERTY_ADAPTIVE_SYNC w)"

definition requestmonstate :: "mon_lib \<Rightarrow> env \<Rightarrow> nat \<Rightarrow> nat \<Rightarrow> bool \<Rightarrow> out_state \<Rightarrow> world \<Rightarrow> world option" where
  "requestmonstate X env n m has_monitor st w =
     (let accepted = ml_commit X w m;
          w = call_env env (Native ''output_commit_state'' [LUser m]) w
      in if \<not> accepted then updatemons X env n w
         else
           (let w = (case os_enabled st of
                       Some b \<Rightarrow> if has_monitor then upd_monitor m (\<lambda>x. x\<lparr>m_enabled := b\<rparr>) w else w
                     | None \<Rightarrow> w);
                w = (if has_monitor
                     then (case m_output (mo w m) of Some x \<Rightarrow> queue_state st m x w | None \<Rightarrow> w) else w)
            in updatemons X env n w))"

text \<open>
  A frame: skipped while a tiled window of the monitor has not answered its size, unless its
  process is stopped. What is presented is counted.
\<close>

definition waits_for :: "mon_lib \<Rightarrow> nat \<Rightarrow> world \<Rightarrow> nat \<Rightarrow> bool" where
  "waits_for X m w c \<longleftrightarrow> resize_serial (cl w c) \<noteq> 0 \<and> \<not> lib_floating (ml_window X) c w \<and>
     c_mon (cl w c) = Some m \<and> \<not> ml_stopped X w c"

definition rendermon :: "mon_lib \<Rightarrow> env \<Rightarrow> nat \<Rightarrow> world \<Rightarrow> world" where
  "rendermon X env m w =
     (if \<not> m_scene_output (mo w m) then w
      else
        (let w = (if m_enabled (mo w m) \<and> \<not> list_ex (waits_for X m w) (clients w)
                  then
                    (let changed = ml_changed X w m;
                         w = call_env env (Native ''declare_output_frame'' [LUser m]) w;
                         w = (if changed then call_env env (Native ''motionnotify'' []) w else w);
                         presented = ml_presented X w m; committed = ml_commit X w m;
                         w = call_env env (Native ''scene_output_commit'' [LUser m]) w
                     in if committed \<and> presented
                        then w\<lparr>frame_commit_count := frame_commit_count w + 1\<rparr> else w)
                  else w)
         in call_env env (Native ''scene_output_send_frame_done'' [LUser m]) w))"

subsection \<open>Moving between monitors\<close>

text \<open>A direction is a bit set, 4 and 8 being left and right. None is the use of a null selmon.\<close>

definition dirtomon :: "mon_lib \<Rightarrow> u32 \<Rightarrow> world \<Rightarrow> nat option" where
  "dirtomon X dir w =
     Option.bind (selmon w) (\<lambda>m.
       Some (if m \<notin> set (out_layout w) then m
             else case ml_adjacent X w dir m of
                    Some next \<Rightarrow> next
                  | None \<Rightarrow> (case ml_farthest X w (xor dir (or 4 8)) m of Some next \<Rightarrow> next | None \<Rightarrow> m)))"

fun focusmon_loop :: "mon_lib \<Rightarrow> u32 \<Rightarrow> nat \<Rightarrow> world \<Rightarrow> world option" where
  "focusmon_loop X dir left w =
     Option.bind (dirtomon X dir w) (\<lambda>m.
       let w = w\<lparr>selmon := Some m\<rparr>
       in if \<not> m_enabled (mo w m) \<and> left > 0 then focusmon_loop X dir (left - 1) w else Some w)"

definition focusmon :: "mon_lib \<Rightarrow> env \<Rightarrow> u32 \<Rightarrow> world \<Rightarrow> world option" where
  "focusmon X env dir w =
     Option.bind (if mons w \<noteq> [] then focusmon_loop X dir (length (mons w)) w else Some w)
       (\<lambda>w. restore_focus X env (selmon w) w)"

subsection \<open>What moving windows leaves alone\<close>

text \<open>A view that reads none of the fields the operations on windows write.\<close>

locale window_frame = focus_frame view for view :: "world \<Rightarrow> 'v" +
  assumes view_lazy [simp]: "view (w\<lparr>need_lazy_banning := b4\<rparr>) = view w"
    and view_exclusive [simp]: "view (w\<lparr>exclusive_focus := x8\<rparr>) = view w"
    and view_in_refresh [simp]: "view (w\<lparr>in_refresh := b5\<rparr>) = view w"
begin

lemma banning_view [simp]: "view (banning_need_update env w) = view w"
proof -
  have "view (fold (\<lambda>c w. if \<not> client_isvisible c w then client_ban_unfocus env c w else w) cs v) = view v" for cs v
    by (induction cs arbitrary: v) simp_all
  then show ?thesis by (simp add: banning_need_update_def)
qed

lemma signals_view [simp]: "view (queue_geometry_signals c old new w) = view w"
  by (simp add: queue_geometry_signals_def Let_def)

lemma fold_opt_holds:
  "(\<And>x v v'. f x v = Some v' \<Longrightarrow> Q (view v) \<Longrightarrow> Q (view v')) \<Longrightarrow> Q (view w) \<Longrightarrow> fold_opt f xs w = Some w' \<Longrightarrow> Q (view w')"
  by (induction xs arbitrary: w) (auto split: bind_splits)

lemma foreach_holds:
  "(\<And>x v. Q (view v) \<Longrightarrow> Q (view (f x v))) \<Longrightarrow> Q (view w) \<Longrightarrow> foreach n i arr f w = Some w' \<Longrightarrow> Q (view w')"
  by (induction n arbitrary: i w) (auto split: if_splits)

lemma foreach_opt_holds:
  "(\<And>x v v'. f x v = Some v' \<Longrightarrow> Q (view v) \<Longrightarrow> Q (view v')) \<Longrightarrow> Q (view w) \<Longrightarrow>
     foreach_opt n i arr f w = Some w' \<Longrightarrow> Q (view w')"
proof (induction n arbitrary: i w)
  case (Suc n)
  show ?case
  proof (cases "i < length (arr w)")
    case True
    then obtain v where "f (arr w ! i) w = Some v" "foreach_opt n (Suc i) arr f v = Some w'"
      using Suc.prems(3) by (auto split: bind_splits)
    then show ?thesis using Suc.IH Suc.prems(1,2) by blast
  qed (use Suc.prems in simp)
qed simp
lemma window_parts_hold:
  assumes "preserves env (\<lambda>w. Q (view w))" and "Q (view w)"
  shows "Q (view (client_set_bounds env c wd ht w))" "Q (view (mark_output env m w))"
    and "Q (view (client_set_fullscreen_internal env c b w))" "Q (view (some_monitor_arrange env m w))"
    and "Q (view (client_set_minimized env c b w))" "Q (view (client_set_hidden env c b w))"
  using assms(2) call_holds [OF assms(1)]
  by (simp_all add: client_set_bounds_def mark_output_def client_set_fullscreen_internal_def
      some_monitor_arrange_def client_set_minimized_def client_set_hidden_def Let_def split: option.split)

lemma resize_holds:
  assumes "preserves env (\<lambda>w. Q (view w))" and "Q (view w)"
  shows "Q (view (resize X env c g i w))"
  using assms(2) call_holds [OF assms(1)] window_parts_hold [OF assms(1)]
  by (simp add: resize_def Let_def split: option.split)

lemma setfullscreen_holds:
  assumes "preserves env (\<lambda>w. Q (view w))" and "Q (view w)" and "setfullscreen X env c b w = Some w'"
  shows "Q (view w')"
proof -
  note call = call_holds [OF assms(1)] and parts = window_parts_hold [OF assms(1)] resize_holds [OF assms(1)]
  define w1 where "w1 = upd_client c (\<lambda>x. x\<lparr>fullscreen := b\<rparr>) w"
  define w2 where "w2 = (if b \<and> (maximized (cl w1 c) \<or> maximized_horizontal (cl w1 c) \<or> maximized_vertical (cl w1 c))
     then (let w = upd_client c (\<lambda>x. x\<lparr>maximized := False, maximized_horizontal := False, maximized_vertical := False\<rparr>) w1
           in if client_type (cl w c) = XDGShell
              then call_env env (Native ''xdg_toplevel_set_maximized'' [LUser c, LBool False]) w else w)
     else w1)"
  define w3 where "w3 = (if fullscreen (cl w c) \<noteq> b then client_set_fullscreen_internal env c b w2 else w2)"
  define w4 where "w4 = (if b then (let w' = (if \<not> fullscreen (cl w c) then upd_client c (\<lambda>x. x\<lparr>prev_geometry := geometry x\<rparr>) w3 else w3)
        in resize X env c (m_box (mo w' (the (c_mon (cl w' c))))) False w')
     else if fullscreen (cl w c) then resize X env c (prev_geometry (cl w3 c)) False w3 else w3)"
  have "Q (view w1)" using assms(2) by (simp add: w1_def)
  then have "Q (view w2)" by (simp add: w2_def Let_def call)
  then have "Q (view w3)" by (simp add: w3_def parts)
  then have "Q (view w4)" by (simp add: w4_def Let_def parts)
  moreover have "(if c_mon (cl w1 c) = None \<or> \<not> surface_mapped c w1 then Some w1
      else stack_refresh env (some_monitor_arrange env (c_mon (cl (emit env c ''property::fullscreen'' [] w4) c))
      (emit env c ''property::fullscreen'' [] w4))) = Some w'"
    using assms(3) unfolding setfullscreen_def Let_def w1_def [symmetric] w2_def [unfolded Let_def, symmetric]
      w3_def [symmetric] w4_def [unfolded Let_def, symmetric] .
  moreover have "Q (view (some_monitor_arrange env k (emit env c n [] w4)))" for k n
    by (intro parts call \<open>Q (view w4)\<close>)
  ultimately show ?thesis using \<open>Q (view w1)\<close> stack_refresh_holds [OF assms(1)]
    by (metis option.inject)
qed

lemma setmon_holds:
  assumes "preserves env (\<lambda>w. Q (view w))" and "Q (view w)" and "setmon X env c m w = Some w'"
  shows "Q (view w')"
proof (cases "c_mon (cl w c) = m")
  case True
  then show ?thesis using assms(2,3) by (simp add: setmon_def)
next
  case False
  note call = call_holds [OF assms(1)] and parts = window_parts_hold [OF assms(1)] resize_holds [OF assms(1)]
  define w1 where "w1 = upd_client c (\<lambda>x. x\<lparr>c_screen := luaA_screen_get_by_monitor m (upd_client c (\<lambda>x. x\<lparr>c_mon := m\<rparr>) w)\<rparr>)
    (upd_client c (\<lambda>x. x\<lparr>c_mon := m\<rparr>) w)"
  define w2 where "w2 = (if c_screen (cl w1 c) \<noteq> c_screen (cl w c) then emit env c ''property::screen'' [obj_of (c_screen (cl w c))] w1 else w1)"
  define w3 where "w3 = (if toplevel_handle (cl w2 c)
      then call_env env (Native ''foreign_toplevel_output_change'' [LUser c, obj_of (c_mon (cl w c)), obj_of m]) w2 else w2)"
  define w4 where "w4 = some_monitor_arrange env (c_mon (cl w c)) w3"
  have "Q (view w1)" using assms(2) by (simp add: w1_def)
  then have "Q (view w2)" by (simp add: w2_def call)
  then have "Q (view w3)" by (simp add: w3_def call)
  then have q: "Q (view w4)" by (simp add: w4_def parts)
  let ?w5 = "banning_need_update env (resize X env c (geometry (cl w4 c)) False w4)"
  have "(if m = None then Some w4 else setfullscreen X env c (fullscreen (cl ?w5 c)) ?w5) = Some w'"
    using assms(3) False unfolding setmon_def Let_def if_not_P [OF False] w1_def [symmetric] w2_def [symmetric]
      w3_def [symmetric] w4_def [symmetric] by simp
  moreover have "Q (view ?w5)" using q by (simp add: parts)
  ultimately show ?thesis using q setfullscreen_holds [OF assms(1) \<open>Q (view ?w5)\<close>] by (simp split: if_splits)
qed

end

context window_frame
begin

lemma client_focus_update_holds:
  assumes "preserves env (\<lambda>w. Q (view w))" and "Q (view w)"
  shows "Q (view (client_focus env c w))"
  using client_focus_holds [OF assms] .

lemma moveto_stay_holds:
  assumes "preserves env (\<lambda>w. Q (view w))" and "Q (view w)"
  shows "Q (view (screen_client_moveto_stay env c s w))"
proof -
  have r: "view (screen_reassign env c s w) = view w"
    by (simp add: screen_reassign_def Let_def)
  have "Q (view (screen_emit_moved env c o' b v))" if "Q (view v)" for o' b v
    using that call_holds [OF assms(1)] client_focus_holds [OF assms(1)]
    by (simp add: screen_emit_moved_def Let_def)
  then show ?thesis using assms(2) r by (simp add: screen_client_moveto_stay_def)
qed

lemma relocate_holds:
  assumes "preserves env (\<lambda>w. Q (view w))" and "Q (view w)"
  shows "Q (view (relocate_client env s c w))"
  using assms(2) moveto_stay_holds [OF assms(1)] by (simp add: relocate_client_def Let_def)

lemma restore_focus_holds:
  "preserves env (\<lambda>w. Q (view w)) \<Longrightarrow> Q (view w) \<Longrightarrow> restore_focus X env m w = Some w' \<Longrightarrow> Q (view w')"
  unfolding restore_focus_def by (rule focus_restore_holds)

lemma close_client_holds:
  assumes "preserves env (\<lambda>w. Q (view w))" and "close_client X env m c w = Some w'" and "Q (view w)"
  shows "Q (view w')"
  using assms(2,3) setmon_holds [OF assms(1)] resize_holds [OF assms(1)]
  by (fastforce simp: close_client_def Let_def split: if_splits)

lemma closemon_holds:
  assumes "preserves env (\<lambda>w. Q (view w))" and "Q (view w)" and "closemon X env m w = Some w'"
  shows "Q (view w')"
proof -
  define w1 where "w1 = (if mons w = [] then w\<lparr>selmon := None\<rparr>
     else if selmon w = Some m then w\<lparr>selmon := next_enabled m w\<rparr> else w)"
  obtain w2 where "foreach_opt (fuel_of X) 0 clients (close_client X env m) w1 = Some w2"
    "restore_focus X env (selmon w2) w2 = Some w'"
    using assms(3) by (auto simp: closemon_def Let_def w1_def split: bind_splits)
  moreover have "Q (view w1)" using assms(2) by (simp add: w1_def)
  ultimately show ?thesis
    using foreach_opt_holds [of "close_client X env m" Q w1 "fuel_of X" 0 clients w2]
      close_client_holds [OF assms(1)] restore_focus_holds [OF assms(1)] by blast
qed

lemma banning_refresh_holds:
  assumes "preserves env (\<lambda>w. Q (view w))" and "Q (view w)" and "banning_refresh n env w = Some w'"
  shows "Q (view w')"
proof -
  have unban: "Q (view (if client_isvisible c v then client_unban env c v else v))" if "Q (view v)" for c v
    using that window_parts_hold [OF assms(1)] by (simp add: client_unban_def Let_def)
  have ban: "Q (view (if \<not> client_isvisible c v then client_ban env c v else v))" if "Q (view v)" for c v
    using that by (simp add: client_ban_def)
  show ?thesis
  proof (cases "need_lazy_banning w")
    case True
    then obtain v where
      v: "foreach n 0 clients (\<lambda>c w. if client_isvisible c w then client_unban env c w else w) (w\<lparr>need_lazy_banning := False\<rparr>) = Some v"
        "foreach n 0 clients (\<lambda>c w. if \<not> client_isvisible c w then client_ban env c w else w) v = Some w'"
      using assms(3) unfolding banning_refresh_def by (auto split: bind_splits)
    have "Q (view (w\<lparr>need_lazy_banning := False\<rparr>))" using assms(2) by simp
    from foreach_holds [where Q = Q, OF unban this v(1)] have "Q (view v)" .
    from foreach_holds [where Q = Q, OF ban this v(2)] show ?thesis .
  qed (use assms in \<open>simp add: banning_refresh_def\<close>)
qed

lemma drain_holds:
  assumes "preserves env (\<lambda>w. Q (view w))" and "Q (view w)"
  shows "Q (view (drain_events env w))"
proof -
  have "Q (view (deliver env e v))" if "Q (view v)" for e v
    using that call_holds [OF assms(1)]
    by (auto simp: deliver_def split: option.split delivery.split lval.split)
  then have "Q (view (fold (deliver env) es v))" if "Q (view v)" for es v
    using that by (induction es arbitrary: v) auto
  then show ?thesis using assms(2) by (simp add: drain_events_def)
qed

lemma some_refresh_holds:
  assumes "preserves env (\<lambda>w. Q (view w))" and "Q (view w)" and "some_refresh n env w = Some w'"
  shows "Q (view w')"
proof (cases "in_refresh w")
  case True
  then show ?thesis using assms(2,3) by (simp add: some_refresh_def)
next
  case False
  note call = call_holds [OF assms(1)]
  define w1 where "w1 = call_env env (Native ''drawin_refresh'' []) (call_env env
    (Native ''emit_signal_global'' [LStr ''refresh'']) (drain_events env (w\<lparr>in_refresh := True\<rparr>)))"
  define w2 where "w2 = client_refresh env w1"
  have "Q (view w1)" using assms(2) by (simp add: w1_def call drain_holds [OF assms(1)])
  then have "Q (view w2)" by (simp add: w2_def client_refresh_def client_focus_refresh_def Let_def call)
  moreover obtain w3 where b: "banning_refresh n env w2 = Some w3" and r:
    "map_option (\<lambda>w. (call_env env (Native ''client_destroy_later'' []) w)\<lparr>in_refresh := False\<rparr>)
       (stack_refresh env (let w = (if need_lazy_banning w2 then call_env env (Native ''declare_mark_all_dirty'' []) w3 else w3)
          in if need_lazy_banning w2 then call_env env (Native ''motionnotify'' []) w else w)) = Some w'"
    using assms(3) False unfolding some_refresh_def Let_def w1_def [symmetric] w2_def [symmetric]
    by (auto split: bind_splits)
  ultimately have "Q (view w3)" using banning_refresh_holds [OF assms(1) _ b] by blast
  define w4 where "w4 = (let w = (if need_lazy_banning w2 then call_env env (Native ''declare_mark_all_dirty'' []) w3 else w3)
     in if need_lazy_banning w2 then call_env env (Native ''motionnotify'' []) w else w)"
  have q: "Q (view w4)" using \<open>Q (view w3)\<close> by (simp add: w4_def Let_def call)
  obtain z where "stack_refresh env w4 = Some z" "w' = (call_env env (Native ''client_destroy_later'' []) z)\<lparr>in_refresh := False\<rparr>"
    using r unfolding w4_def [symmetric] by auto
  then show ?thesis using stack_refresh_holds [OF assms(1) q] call by simp
qed

lemma layer_focus_holds:
  assumes "preserves env (\<lambda>w. Q (view w))"
  shows "Q (view w) \<Longrightarrow> keyboard_focus_loop X env ls w = Some (b, w') \<Longrightarrow> Q (view w')"
    and "Q (view w) \<Longrightarrow> layer_keyboard_focus X env m w = Some w' \<Longrightarrow> Q (view w')"
proof -
  have take: "Q (view v')" if "Q (view v)" "layer_take_keyboard X env l v = Some v'" for l v v'
    using that focusclient_holds [OF assms] call_holds [OF assms]
    by (auto simp: layer_take_keyboard_def layer_enter_def)
  have loop: "Q (view v) \<Longrightarrow> keyboard_focus_loop X env ls v = Some (b, v') \<Longrightarrow> Q (view v')" for v v' ls b
  proof (induction ls arbitrary: v)
    case (Cons l ls)
    then show ?case using call_holds [OF assms] take
      by (auto simp: layer_surface_emit_request_keyboard_def Let_def split: if_splits option.splits
          intro: Cons.IH [OF call_holds [OF assms]])
  qed simp
  show "Q (view w) \<Longrightarrow> keyboard_focus_loop X env ls w = Some (b, w') \<Longrightarrow> Q (view w')" by (rule loop)
  show "Q (view w) \<Longrightarrow> layer_keyboard_focus X env m w = Some w' \<Longrightarrow> Q (view w')"
    using loop by (auto simp: layer_keyboard_focus_def split: if_splits bind_splits) blast+
qed

end

subsection \<open>Which monitors and screens are left\<close>

text \<open>What the layout and its screens depend on; handlers that keep it plug nothing and add no screen.\<close>

definition mview :: "world \<Rightarrow> _" where
  "mview w = ((\<lambda>m. m_enabled (mo w m), \<lambda>m. m_asleep (mo w m)), mons w, out_layout w, (in_updatemons w, updatemons_pending w),
     (\<lambda>s. s_monitor (sc w s), \<lambda>s. s_valid (sc w s)), screens w)"

interpretation mv: window_frame mview
  by unfold_locales (simp_all add: mview_def)

lemma mview_parts:
  assumes "mview v = mview w"
  shows "m_enabled (mo v m) = m_enabled (mo w m)" "m_asleep (mo v m) = m_asleep (mo w m)" "mons v = mons w"
    and "out_layout v = out_layout w" "in_updatemons v = in_updatemons w" "screens v = screens w"
    and "s_monitor (sc v s) = s_monitor (sc w s)" "s_valid (sc v s) = s_valid (sc w s)"
    and "updatemons_pending v = updatemons_pending w"
  using assms by (simp_all add: mview_def fun_eq_iff)

lemma mview_preserves: "keeps env mview \<Longrightarrow> preserves env (\<lambda>w. mview w = v)"
  by (simp add: keeps_def preserves_def)

lemma mview_call [simp]: "keeps env mview \<Longrightarrow> mview (call_env env k w) = mview w"
  by (rule mv.call_holds [where Q = "\<lambda>v. v = mview w", OF mview_preserves]) simp_all

lemmas mview_closemon = mv.closemon_holds [where Q = "\<lambda>v. v = x" for x, OF mview_preserves, OF _ refl]
lemmas mview_restore = mv.restore_focus_holds [where Q = "\<lambda>v. v = x" for x, OF mview_preserves, OF _ refl]
lemmas mview_relocate = mv.relocate_holds [where Q = "\<lambda>v. v = x" for x, OF mview_preserves, OF _ refl]
lemmas mview_setmon = mv.setmon_holds [where Q = "\<lambda>v. v = x" for x, OF mview_preserves, OF _ refl]
lemmas mview_resize = mv.resize_holds [where Q = "\<lambda>v. v = x" for x, OF mview_preserves, OF _ refl]
lemmas mview_banning = mv.banning_refresh_holds [where Q = "\<lambda>v. v = x" for x, OF mview_preserves, OF _ refl]
lemmas mview_refresh = mv.some_refresh_holds [where Q = "\<lambda>v. v = x" for x, OF mview_preserves, OF _ refl]
lemmas mview_layer_focus = mv.layer_focus_holds(2) [where Q = "\<lambda>v. v = x" for x, OF mview_preserves, OF _ refl]

lemma mview_box [simp]:
  "mview (upd_monitor m (\<lambda>x. x\<lparr>m_box := a, m_workarea := b\<rparr>) w) = mview w"
  "mview (upd_monitor m (\<lambda>x. x\<lparr>gamma_lut_changed := t\<rparr>) w) = mview w"
  "mview (upd_monitor m (\<lambda>x. x\<lparr>needs_screen_added := t\<rparr>) w) = mview w"
  "mview (upd_monitor m (\<lambda>x. x\<lparr>needs_output_added := t\<rparr>) w) = mview w"
  by (simp_all add: mview_def upd_monitor_def fun_eq_iff)

definition has_screen :: "nat \<Rightarrow> world \<Rightarrow> bool" where
  "has_screen m w \<longleftrightarrow> (\<exists>s \<in> set (screens w). s_monitor (sc w s) = Some m)"

lemma has_screen_iff: "has_screen m w \<longleftrightarrow> luaA_screen_get_by_monitor (Some m) w \<noteq> None"
  by (auto simp: has_screen_def luaA_screen_get_by_monitor_def find_None_iff)

lemma screen_found:
  "luaA_screen_get_by_monitor (Some m) w = Some s \<Longrightarrow> s \<in> set (screens w) \<and> s_monitor (sc w s) = Some m"
  by (auto simp: luaA_screen_get_by_monitor_def find_Some_iff)

text \<open>Screens are valid, one for a monitor at most, and a listed monitor with a screen is in the layout.\<close>

definition monitors_ok :: "world \<Rightarrow> bool" where
  "monitors_ok w \<longleftrightarrow> distinct (screens w) \<and> distinct (out_layout w) \<and> distinct (mons w) \<and>
     (\<forall>s \<in> set (screens w). s_valid (sc w s)) \<and>
     (\<forall>s \<in> set (screens w). \<forall>t \<in> set (screens w). s_monitor (sc w s) = s_monitor (sc w t) \<longrightarrow>
        s_monitor (sc w s) \<noteq> None \<longrightarrow> s = t) \<and>
     (\<forall>m \<in> set (mons w). has_screen m w \<longrightarrow> m \<in> set (out_layout w))"

lemma mview_ok: "mview v = mview w \<Longrightarrow> monitors_ok v = monitors_ok w \<and> has_screen m v = has_screen m w"
  using mview_parts [of v w] by (simp add: monitors_ok_def has_screen_def)

lemma reindex_sel:
  "screens (reindex_from i w) = screens w" "s_monitor (sc (reindex_from i w) s) = s_monitor (sc w s)"
  "s_valid (sc (reindex_from i w) s) = s_valid (sc w s)" "mo (reindex_from i w) = mo w" "mons (reindex_from i w) = mons w"
  "out_layout (reindex_from i w) = out_layout w" "in_updatemons (reindex_from i w) = in_updatemons w"
  "updatemons_pending (reindex_from i w) = updatemons_pending w"
proof -
  let ?f = "\<lambda>js v. fold (\<lambda>j w. upd_screen (screens w ! j) (\<lambda>x. x\<lparr>s_index := int (j + 1)\<rparr>) w) js v"
  have "screens (?f js v) = screens v \<and> s_monitor (sc (?f js v) s) = s_monitor (sc v s) \<and>
      s_valid (sc (?f js v) s) = s_valid (sc v s) \<and> mo (?f js v) = mo v \<and> mons (?f js v) = mons v \<and>
      out_layout (?f js v) = out_layout v \<and> in_updatemons (?f js v) = in_updatemons v \<and>
      updatemons_pending (?f js v) = updatemons_pending v" for js v s
    by (induction js arbitrary: v) simp_all
  then show "screens (reindex_from i w) = screens w" "s_monitor (sc (reindex_from i w) s) = s_monitor (sc w s)"
    "s_valid (sc (reindex_from i w) s) = s_valid (sc w s)" "mo (reindex_from i w) = mo w" "mons (reindex_from i w) = mons w"
    "out_layout (reindex_from i w) = out_layout w" "in_updatemons (reindex_from i w) = in_updatemons w"
    "updatemons_pending (reindex_from i w) = updatemons_pending w"
    unfolding reindex_from_def by blast+
qed

text \<open>Removing a screen takes it out of the array and changes nothing else of the view.\<close>

lemma mview_screen_removed:
  assumes "keeps env mview" and "s \<in> set (screens w)" and "s_valid (sc w s)" and "screen_removed n env s w = Some w'"
  shows "mview w' = mview (w\<lparr>screens := remove1 s (screens w), sc := (sc w)(s := (sc w s)\<lparr>s_valid := False, s_monitor := None\<rparr>)\<rparr>)"
proof -
  define w1 where "w1 = emit_screen env s ''removed'' [] w"
  define w2 where "w2 = (if primary_screen w1 = Some s then w1\<lparr>primary_screen := None\<rparr> else w1)"
  have "mview (w1\<lparr>primary_screen := p\<rparr>) = mview w1" for p by (simp add: mview_def)
  then have v2: "mview w2 = mview w" using assms(1) by (simp add: w2_def w1_def emit_screen_def)
  obtain w3 where l: "foreach n 0 clients (\<lambda>c w. relocate_client env s c w) w2 = Some w3" and
    e: "w' = call_env env (EmitClass ''screen'' ''list'' []) (call_env env (Native ''drawins_reassign_screen'' [LUser s])
      (drop_screen s (upd_screen s (\<lambda>x. x\<lparr>s_valid := False, s_monitor := None\<rparr>) w3)))"
    using assms(3,4) unfolding screen_removed_def Let_def w1_def [symmetric] w2_def [symmetric] by auto
  have step: "mview x = mview w2 \<Longrightarrow> mview (relocate_client env s c x) = mview w2" for c x
    using mview_relocate [OF assms(1)] by metis
  have v3: "mview w3 = mview w2"
    by (rule mv.foreach_holds [where Q = "\<lambda>v. v = mview w2", OF step _ l]) simp_all
  then have p: "screens w3 = screens w" using v2 mview_parts(6) by metis
  obtain i where i: "index_of s (screens w) = Some i"
    using assms(2) index_of_None by (metis not_None_eq)
  have "mview w' = mview (drop_screen s (upd_screen s (\<lambda>x. x\<lparr>s_valid := False, s_monitor := None\<rparr>) w3))"
    using assms(1) by (simp add: e)
  also have "\<dots> = mview (w3\<lparr>screens := remove1 s (screens w), sc := (sc w3)(s := (sc w3 s)\<lparr>s_valid := False, s_monitor := None\<rparr>)\<rparr>)"
    using i remove_at_index [OF i] by (simp add: mview_def drop_screen_def p reindex_sel fun_eq_iff)
  also have "\<dots> = mview (w\<lparr>screens := remove1 s (screens w), sc := (sc w)(s := (sc w s)\<lparr>s_valid := False, s_monitor := None\<rparr>)\<rparr>)"
    using v2 v3 by (simp add: mview_def fun_eq_iff)
  finally show ?thesis .
qed

lemma mview_remove_screen_of:
  assumes "keeps env mview" and "s \<in> set (screens w)" and "s_valid (sc w s)" and "remove_screen_of X env s w = Some w'"
  shows "mview w' = mview (w\<lparr>screens := remove1 s (screens w), sc := (sc w)(s := (sc w s)\<lparr>s_valid := False, s_monitor := None\<rparr>)\<rparr>)"
proof -
  have q: "mview (enqueue op v) = mview v" for op v by simp
  obtain v where v: "screen_removed (fuel_of X) env s w = Some v" and "mview w' = mview v"
    using assms(4) by (auto simp: remove_screen_of_def Let_def luaA_screen_emit_viewports_def
        luaA_screen_emit_primary_changed_def split: option.splits if_splits)
  then show ?thesis using mview_screen_removed [OF assms(1-3) v] by simp
qed

text \<open>
  A step keeps what is fixed: the monitors, their flags and the good order. rest k says that
  the place and the screen of monitor k are as before.
\<close>

definition fixed :: "world \<Rightarrow> world \<Rightarrow> bool" where
  "fixed w w' \<longleftrightarrow> mons w' = mons w \<and> in_updatemons w' = in_updatemons w \<and>
     (\<forall>m. m_enabled (mo w' m) = m_enabled (mo w m) \<and> m_asleep (mo w' m) = m_asleep (mo w m)) \<and>
     (monitors_ok w \<longrightarrow> monitors_ok w')"

definition rest :: "nat \<Rightarrow> world \<Rightarrow> world \<Rightarrow> bool" where
  "rest k w w' \<longleftrightarrow> (k \<in> set (out_layout w') \<longleftrightarrow> k \<in> set (out_layout w)) \<and> (has_screen k w' \<longleftrightarrow> has_screen k w)"

lemma fixed_refl [simp]: "fixed w w" "rest k w w"
  by (simp_all add: fixed_def rest_def)

lemma fixed_trans: "fixed u v \<Longrightarrow> fixed v w \<Longrightarrow> fixed u w"
  by (simp add: fixed_def)

lemma mview_fixed: "mview v = mview w \<Longrightarrow> fixed w v \<and> rest k w v"
  using mview_parts [of v w] mview_ok [of v w] by (auto simp: fixed_def rest_def)

definition off :: "nat \<Rightarrow> world \<Rightarrow> bool" where
  "off m w \<longleftrightarrow> \<not> m_enabled (mo w m) \<and> \<not> m_asleep (mo w m)"

lemma layout_remove_inside:
  assumes "in_updatemons w" and "layout_remove (updatemons X env n) m w = Some w'"
  shows "mview w' = mview (if m \<in> set (out_layout w)
    then w\<lparr>out_layout := remove1 m (out_layout w), updatemons_pending := True\<rparr> else w)"
  using assms by (cases n) (auto simp: layout_remove_def mview_def remove1_idem split: if_splits)

lemma layout_add_inside:
  assumes "in_updatemons w" and "layout_add (updatemons X env n) m w = Some w'"
  shows "mview w' = mview (if m \<in> set (out_layout w) then w\<lparr>updatemons_pending := True\<rparr>
    else w\<lparr>out_layout := out_layout w @ [m], updatemons_pending := True\<rparr>)"
  using assms by (cases n) (auto simp: layout_add_def mview_def)

text \<open>The screen of m and its place in the layout are gone, in a good state.\<close>

lemma gone_ok:
  assumes ok: "monitors_ok w" and "mons v = mons w" "out_layout v = remove1 m (out_layout w)"
    and s: "case luaA_screen_get_by_monitor (Some m) w of
         None \<Rightarrow> screens v = screens w \<and> (\<forall>t. s_monitor (sc v t) = s_monitor (sc w t) \<and> s_valid (sc v t) = s_valid (sc w t))
       | Some s \<Rightarrow> screens v = remove1 s (screens w) \<and>
           (\<forall>t. t \<noteq> s \<longrightarrow> s_monitor (sc v t) = s_monitor (sc w t) \<and> s_valid (sc v t) = s_valid (sc w t))"
  shows "monitors_ok v" and "\<not> has_screen m v" and "m \<notin> set (out_layout v)" and "k \<noteq> m \<Longrightarrow> rest k w v"
proof -
  have dl: "distinct (out_layout w)" and ds: "distinct (screens w)" using ok by (simp_all add: monitors_ok_def)
  show m: "m \<notin> set (out_layout v)" using assms(3) dl by simp
  have sub: "set (screens v) \<subseteq> set (screens w)" and same: "t \<in> set (screens v) \<Longrightarrow>
      s_monitor (sc v t) = s_monitor (sc w t) \<and> s_valid (sc v t) = s_valid (sc w t)" for t
    using s ds by (auto split: option.splits)
  have others: "t \<in> set (screens w) \<Longrightarrow> s_monitor (sc w t) \<noteq> Some m \<Longrightarrow> t \<in> set (screens v)" for t
    using s screen_found [of m w] by (auto split: option.splits simp: ds)
  have none: "t \<in> set (screens v) \<Longrightarrow> s_monitor (sc v t) \<noteq> Some m" for t
  proof
    assume t: "t \<in> set (screens v)" "s_monitor (sc v t) = Some m"
    then have tw: "t \<in> set (screens w)" "s_monitor (sc w t) = Some m" using sub same by auto
    then have "has_screen m w" by (auto simp: has_screen_def)
    then obtain u where u: "luaA_screen_get_by_monitor (Some m) w = Some u" by (auto simp: has_screen_iff)
    then have "u = t" using screen_found [OF u] tw ok unfolding monitors_ok_def by (metis option.distinct(1))
    then show False using s u t(1) ds by simp
  qed
  then show nh: "\<not> has_screen m v" by (auto simp: has_screen_def)
  have hs: "has_screen k v \<longleftrightarrow> has_screen k w" if "k \<noteq> m" for k
    using that sub same others unfolding has_screen_def by (metis in_mono option.inject)
  show r: "rest k w v" if "k \<noteq> m" for k
    using that hs assms(3) by (simp add: rest_def)
  have "distinct (screens v)" using s ds by (auto split: option.splits)
  moreover have "\<forall>k \<in> set (mons v). has_screen k v \<longrightarrow> k \<in> set (out_layout v)"
    using ok hs nh assms(2,3) by (metis in_set_remove1 monitors_ok_def)
  moreover have "distinct (out_layout v)" "distinct (mons v)" using assms(2,3) ok dl by (simp_all add: monitors_ok_def)
  moreover have "\<forall>s \<in> set (screens v). s_valid (sc v s)" using ok sub same unfolding monitors_ok_def by blast
  moreover have "\<forall>s \<in> set (screens v). \<forall>t \<in> set (screens v). s_monitor (sc v s) = s_monitor (sc v t) \<longrightarrow>
        s_monitor (sc v s) \<noteq> None \<longrightarrow> s = t"
    using ok sub same unfolding monitors_ok_def by (metis in_mono)
  ultimately show "monitors_ok v" by (simp add: monitors_ok_def)
qed

lemma disable_ok:
  assumes env: "keeps env mview" and ok: "monitors_ok w" and up: "in_updatemons w" and m: "m \<in> set (mons w)"
    and d: "disable_monitor X env (updatemons X env n) m w = Some w'"
  shows "fixed w w' \<and> (\<forall>k. k \<noteq> m \<or> \<not> off m w \<longrightarrow> rest k w w') \<and>
    (off m w \<longrightarrow> m \<notin> set (out_layout w') \<and> \<not> has_screen m w')"
proof -
  define w1 where "w1 = call_env env (Native ''output_configuration_head'' [LUser m]) w"
  have v1: "mview w1 = mview w" using env by (simp add: w1_def)
  have ok1: "monitors_ok w1" and p1: "mons w1 = mons w" "out_layout w1 = out_layout w" "in_updatemons w1 = in_updatemons w"
    "m_enabled (mo w1 k) = m_enabled (mo w k)" "m_asleep (mo w1 k) = m_asleep (mo w k)" for k
    using ok mview_ok [OF v1] mview_parts [OF v1] by simp_all
  consider "\<not> off m w" | "off m w" "m \<notin> set (out_layout w)" | "off m w" "m \<in> set (out_layout w)" by blast
  then show ?thesis
  proof cases
    case 1
    then have "w' = w" using d by (auto simp: disable_monitor_def off_def)
    then show ?thesis using 1 by simp
  next
    case 2
    then have "w' = w1" using d p1 by (auto simp: disable_monitor_def off_def w1_def)
    moreover have "\<not> has_screen m w" using ok m 2 by (auto simp: monitors_ok_def)
    ultimately show ?thesis using 2 mview_fixed [OF v1] p1(2) mview_ok [OF v1] by auto
  next
    case 3
    then obtain w2 w3 w4 where
      w2: "(case luaA_screen_get_by_monitor (Some m) w1 of None \<Rightarrow> Some w1 | Some s \<Rightarrow> remove_screen_of X env s w1) = Some w2"
      and w3: "layout_remove (updatemons X env n) m (emit_output env m ''property::screen'' w2) = Some w3"
      and w4: "closemon X env m w3 = Some w4" and w': "w' = upd_monitor m (\<lambda>x. x\<lparr>m_box := box 0 0 0 0, m_workarea := box 0 0 0 0\<rparr>) w4"
      using d p1(2) by (auto simp: disable_monitor_def off_def w1_def [symmetric] Let_def split: bind_splits)
    let ?drop = "\<lambda>s. w1\<lparr>screens := remove1 s (screens w1), sc := (sc w1)(s := (sc w1 s)\<lparr>s_valid := False, s_monitor := None\<rparr>)\<rparr>"
    have v2: "mview w2 = mview (case luaA_screen_get_by_monitor (Some m) w1 of None \<Rightarrow> w1 | Some s \<Rightarrow> ?drop s)"
    proof (cases "luaA_screen_get_by_monitor (Some m) w1")
      case (Some s)
      have s: "s \<in> set (screens w1)" using screen_found [OF Some] by simp
      then have "s_valid (sc w1 s)" using ok1 by (simp add: monitors_ok_def)
      then show ?thesis using mview_remove_screen_of [OF env s] w2 Some by simp
    qed (use w2 in simp)
    have e: "mview (emit_output env m ''property::screen'' w2) = mview w2" using env by (simp add: emit_output_def split: option.split)
    have p2: "mons w2 = mons w1" "out_layout w2 = out_layout w1" "in_updatemons w2 = in_updatemons w1"
      "m_enabled (mo w2 k) = m_enabled (mo w1 k)" "m_asleep (mo w2 k) = m_asleep (mo w1 k)" for k
      using mview_parts [OF v2] by (simp_all split: option.split)
    have "in_updatemons (emit_output env m ''property::screen'' w2)" using mview_parts(5) [OF e] p2 p1 up by simp
    from layout_remove_inside [OF this w3]
    have v3: "mview w3 = mview (w2\<lparr>out_layout := remove1 m (out_layout w2), updatemons_pending := True\<rparr>)"
      using e mview_parts(4) [OF e] p2(2) p1(2) 3(2) by (simp add: mview_def fun_eq_iff)
    have "mview w4 = mview w3" using mview_closemon [OF env w4] .
    then have v: "mview w' = mview (w2\<lparr>out_layout := remove1 m (out_layout w2), updatemons_pending := True\<rparr>)" using v3 by (simp add: w')
    note p = mview_parts [OF v]
    have g: "mons w' = mons w1" "out_layout w' = remove1 m (out_layout w1)"
      "case luaA_screen_get_by_monitor (Some m) w1 of
         None \<Rightarrow> screens w' = screens w1 \<and> (\<forall>t. s_monitor (sc w' t) = s_monitor (sc w1 t) \<and> s_valid (sc w' t) = s_valid (sc w1 t))
       | Some s \<Rightarrow> screens w' = remove1 s (screens w1) \<and>
           (\<forall>t. t \<noteq> s \<longrightarrow> s_monitor (sc w' t) = s_monitor (sc w1 t) \<and> s_valid (sc w' t) = s_valid (sc w1 t))"
      using p p2 mview_parts [OF v2] by (simp_all split: option.split)
    note gone = gone_ok [OF ok1 g]
    have "fixed w w'" using gone(1) p p1 p2 by (simp add: fixed_def)
    moreover have "rest k w w'" if "k \<noteq> m" for k
      using gone(4) [OF that] mview_fixed [OF v1, of k] by (simp add: rest_def)
    ultimately show ?thesis using gone(2,3) 3 by blast
  qed
qed

lemma fold_opt_Cons: "fold_opt f (x # xs) w = Some w' \<Longrightarrow> \<exists>v. f x w = Some v \<and> fold_opt f xs v = Some w'"
  by (auto split: bind_splits)

lemma fixedD:
  "fixed w v \<Longrightarrow> monitors_ok w \<Longrightarrow> monitors_ok v" "fixed w v \<Longrightarrow> mons v = mons w"
  "fixed w v \<Longrightarrow> in_updatemons v = in_updatemons w" "fixed w v \<Longrightarrow> off m v = off m w"
  "fixed w v \<Longrightarrow> m_enabled (mo v m) = m_enabled (mo w m)"
  by (simp_all add: fixed_def off_def)

lemma rest_trans: "rest k u v \<Longrightarrow> rest k v w \<Longrightarrow> rest k u w"
  by (simp add: rest_def)

lemma disable_loop:
  assumes env: "keeps env mview"
  shows "fold_opt (disable_monitor X env (updatemons X env n)) ms w = Some w' \<Longrightarrow> monitors_ok w \<Longrightarrow> in_updatemons w \<Longrightarrow>
    set ms \<subseteq> set (mons w) \<Longrightarrow> distinct ms \<Longrightarrow>
    fixed w w' \<and> (\<forall>k. k \<notin> set ms \<or> \<not> off k w \<longrightarrow> rest k w w') \<and>
    (\<forall>k \<in> set ms. off k w \<longrightarrow> k \<notin> set (out_layout w') \<and> \<not> has_screen k w')"
proof (induction ms arbitrary: w)
  case Nil
  then show ?case by simp
next
  case (Cons m ms)
  obtain v where v: "disable_monitor X env (updatemons X env n) m w = Some v"
    and r: "fold_opt (disable_monitor X env (updatemons X env n)) ms v = Some w'"
    using fold_opt_Cons [OF Cons.prems(1)] by blast
  have m: "m \<in> set (mons w)" using Cons.prems(4) by simp
  from disable_ok [OF env Cons.prems(2,3) m v] have
    f: "fixed w v" and k: "\<And>k. k \<noteq> m \<or> \<not> off m w \<Longrightarrow> rest k w v"
    and g: "off m w \<Longrightarrow> m \<notin> set (out_layout v) \<and> \<not> has_screen m v" by blast+
  note fd = fixedD [OF f]
  have "fixed v w' \<and> (\<forall>k. k \<notin> set ms \<or> \<not> off k v \<longrightarrow> rest k v w') \<and>
    (\<forall>k \<in> set ms. off k v \<longrightarrow> k \<notin> set (out_layout w') \<and> \<not> has_screen k w')"
    using Cons.prems fd by (intro Cons.IH [OF r]) auto
  then have f': "fixed v w'" and k': "\<And>k. k \<notin> set ms \<or> \<not> off k w \<Longrightarrow> rest k v w'"
    and g': "\<And>k. k \<in> set ms \<Longrightarrow> off k w \<Longrightarrow> k \<notin> set (out_layout w') \<and> \<not> has_screen k w'" using fd(4) by auto
  have "rest j w w'" if "j \<notin> set (m # ms) \<or> \<not> off j w" for j
    using rest_trans [OF k k', of j] that by (cases "j = m") auto
  moreover have "j \<notin> set (out_layout w') \<and> \<not> has_screen j w'" if "j \<in> set (m # ms)" "off j w" for j
  proof (cases "j = m")
    case True
    then show ?thesis using g that(2) k' [of m] Cons.prems(5) by (auto simp: rest_def)
  qed (use g' that in auto)
  ultimately show ?case using fixed_trans [OF f f'] by blast
qed

lemma insert_loop:
  "fold_opt (insert_monitor (updatemons X env n)) ms w = Some w' \<Longrightarrow> in_updatemons w \<Longrightarrow>
    fixed w w' \<and> (\<forall>k. has_screen k w' = has_screen k w) \<and>
    (\<forall>k. k \<in> set (out_layout w') \<longleftrightarrow> k \<in> set (out_layout w) \<or> k \<in> set ms \<and> m_enabled (mo w k))"
proof (induction ms arbitrary: w)
  case Nil
  then show ?case by simp
next
  case (Cons m ms)
  obtain v where v: "insert_monitor (updatemons X env n) m w = Some v"
    and r: "fold_opt (insert_monitor (updatemons X env n)) ms v = Some w'"
    using fold_opt_Cons [OF Cons.prems(1)] by blast
  let ?v = "if m_enabled (mo w m) \<and> m \<notin> set (out_layout w) then w\<lparr>out_layout := out_layout w @ [m], updatemons_pending := True\<rparr> else w"
  have mv: "mview v = mview ?v"
    using v layout_add_inside [OF Cons.prems(2)] by (fastforce simp: insert_monitor_def split: if_splits)
  note p = mview_parts [OF mv]
  have hs: "has_screen k v = has_screen k w" for k using p by (simp add: has_screen_def)
  have f: "fixed w v" using p hs by (auto simp: fixed_def monitors_ok_def)
  have "fixed v w' \<and> (\<forall>k. has_screen k w' = has_screen k v) \<and>
    (\<forall>k. k \<in> set (out_layout w') \<longleftrightarrow> k \<in> set (out_layout v) \<or> k \<in> set ms \<and> m_enabled (mo v k))"
    using Cons.prems(2) fixedD(3) [OF f] by (intro Cons.IH [OF r]) simp
  then show ?case using fixed_trans [OF f] hs p by auto
qed

text \<open>ml_fresh gives the address of an object that is not in use.\<close>

definition fresh_objects :: "mon_lib \<Rightarrow> bool" where
  "fresh_objects X \<longleftrightarrow> (\<forall>w. ml_fresh X w \<notin> set (screens w))"

lemma settle_screen_ok:
  assumes "fresh_objects X" and "monitors_ok w" and "m \<in> set (mons w)" and "m \<in> set (out_layout w)"
  shows "fixed w (settle_screen X m w) \<and> has_screen m (settle_screen X m w) \<and>
    out_layout (settle_screen X m w) = out_layout w \<and> updatemons_pending (settle_screen X m w) = updatemons_pending w \<and>
    (\<forall>k. k \<noteq> m \<longrightarrow> rest k w (settle_screen X m w))"
proof -
  define v where "v = (case luaA_screen_get_by_monitor (Some m) w of
                 Some s \<Rightarrow> w
               | None \<Rightarrow>
                   upd_monitor m (\<lambda>x. x\<lparr>needs_screen_added := True\<rparr>)
                     (luaA_screen_new (ml_fresh X w) m (updatemons_screen_index m w) w))"
  have sc: "mview (upd_screen s (\<lambda>x. x\<lparr>s_geometry := a, s_workarea := b\<rparr>) u) = mview u"
    "mview (upd_screen s (\<lambda>x. x\<lparr>s_geometry := a\<rparr>) u) = mview u" for s a b u
    by (simp_all add: mview_def fun_eq_iff)
  have "mview (settle_screen X m w) = mview v"
    unfolding settle_screen_def Let_def v_def [symmetric]
    by (simp add: sc luaA_screen_update_geometry_def Let_def split: option.split)
  note p = mview_parts [OF this] mview_ok [OF this]
  show ?thesis
  proof (cases "luaA_screen_get_by_monitor (Some m) w")
    case (Some s)
    then have "v = w" by (simp add: v_def)
    then show ?thesis using p Some by (auto simp: fixed_def rest_def has_screen_iff)
  next
    case None
    have fresh: "ml_fresh X w \<notin> set (screens w)" using assms(1) by (simp add: fresh_objects_def)
    have no: "\<not> has_screen m w" using None by (simp add: has_screen_iff)
    have q: "mons v = mons w" "out_layout v = out_layout w" "in_updatemons v = in_updatemons w"
      "updatemons_pending v = updatemons_pending w" "screens v = screens w @ [ml_fresh X w]" "m_enabled (mo v k) = m_enabled (mo w k)" "m_asleep (mo v k) = m_asleep (mo w k)"
      "s_monitor (sc v s) = (if s = ml_fresh X w then Some m else s_monitor (sc w s))"
      "s_valid (sc v s) = (s = ml_fresh X w \<or> s_valid (sc w s))" for k s
      using None by (simp_all add: v_def luaA_screen_new_def Let_def upd_monitor_def)
    have hs: "has_screen k v \<longleftrightarrow> has_screen k w \<or> k = m" for k
      using fresh q by (auto simp: has_screen_def)
    have other: "s_monitor (sc w s) \<noteq> Some m" "Some m \<noteq> s_monitor (sc w s)" if "s \<in> set (screens w)" for s
      using no that by (auto simp: has_screen_def)
    have "s = t" if "s \<in> set (screens v)" "t \<in> set (screens v)" "s_monitor (sc v s) = s_monitor (sc v t)"
        "s_monitor (sc v s) \<noteq> None" for s t
      using that q(5,8) other assms(2) unfolding monitors_ok_def by (auto split: if_splits)
    moreover have "distinct (screens v)" "\<forall>s \<in> set (screens v). s_valid (sc v s)"
      "\<forall>k \<in> set (mons v). has_screen k v \<longrightarrow> k \<in> set (out_layout v)" "distinct (out_layout v)" "distinct (mons v)"
      using assms(2-4) q hs fresh unfolding monitors_ok_def by auto
    ultimately have "monitors_ok v" by (simp add: monitors_ok_def)
    then show ?thesis using p q hs by (auto simp: fixed_def rest_def)
  qed
qed

lemma settle_ok:
  assumes env: "keeps env mview" and "fresh_objects X" and "monitors_ok w" and "m \<in> set (mons w)"
    and lay: "m_enabled (mo w m) \<Longrightarrow> m \<in> set (out_layout w)" and s: "settle_monitor X env m w = Some w'"
  shows "fixed w w' \<and> (\<forall>k. k \<noteq> m \<or> \<not> m_enabled (mo w m) \<longrightarrow> rest k w w') \<and> out_layout w' = out_layout w \<and>
    updatemons_pending w' = updatemons_pending w \<and> (m_enabled (mo w m) \<longrightarrow> has_screen m w')"
proof (cases "m_enabled (mo w m)")
  case False
  then show ?thesis using s by (simp add: settle_monitor_def)
next
  case True
  define w1 where "w1 = upd_monitor m (\<lambda>x. x\<lparr>m_box := ml_box X (call_env env (Native ''output_configuration_head'' [LUser m]) w) (Some m),
     m_workarea := ml_box X (call_env env (Native ''output_configuration_head'' [LUser m]) w) (Some m)\<rparr>)
     (call_env env (Native ''output_configuration_head'' [LUser m]) w)"
  define w2 where "w2 = call_env env (Native ''declare_output_update'' [LUser m]) (call_env env (Native ''scene_output_set_position'' [LUser m]) w1)"
  define w3 where "w3 = (case m_lock_surface (mo w2 m) of None \<Rightarrow> w2
     | Some s \<Rightarrow> call_env env (Native ''wlr_session_lock_surface_v1_configure'' [LUser s]) w2)"
  have v3: "mview w3 = mview w" using env by (simp add: w3_def w2_def w1_def split: option.split)
  let ?fin = "\<lambda>v. let w = call_env env (Arrange m) (settle_screen X m v);
                  w = (case focustop (Some m) w of
                         Some c \<Rightarrow> if fullscreen (cl w c)
                                  then resize (ml_window X) env c (m_box (mo w m)) False w else w
                       | None \<Rightarrow> w);
                  w = upd_monitor m (\<lambda>x. x\<lparr>gamma_lut_changed := True\<rparr>) w
              in if selmon w = None then w\<lparr>selmon := Some m\<rparr> else w"
  obtain w4 where w4: "layer_keyboard_focus (ml_lock X) env m w3 = Some w4" and w': "w' = ?fin w4"
    using s True unfolding settle_monitor_def Let_def w1_def [symmetric] w2_def [symmetric] w3_def [symmetric]
    by auto
  have v4: "mview w4 = mview w" using mview_layer_focus [OF env w4] v3 by simp
  have "mview (u\<lparr>selmon := x\<rparr>) = mview u" for u x by (simp add: mview_def)
  then have v': "mview w' = mview (settle_screen X m w4)"
    using env mview_resize [OF env] by (simp add: w' Let_def split: option.split)
  have "monitors_ok w4" "m \<in> set (mons w4)" "m \<in> set (out_layout w4)"
    using mview_ok [OF v4] mview_parts [OF v4] assms(3,4) lay [OF True] by simp_all
  from settle_screen_ok [OF assms(2) this]
  show ?thesis using mview_fixed [OF v4] mview_fixed [OF v'] mview_ok [OF v'] mview_parts [OF v'] mview_parts [OF v4] True
    by (metis fixed_trans rest_trans)
qed

lemma settle_loop:
  assumes env: "keeps env mview" and "fresh_objects X"
  shows "fold_opt (settle_monitor X env) ms w = Some w' \<Longrightarrow> monitors_ok w \<Longrightarrow> set ms \<subseteq> set (mons w) \<Longrightarrow>
    (\<forall>m \<in> set ms. m_enabled (mo w m) \<longrightarrow> m \<in> set (out_layout w)) \<Longrightarrow>
    fixed w w' \<and> out_layout w' = out_layout w \<and> updatemons_pending w' = updatemons_pending w \<and>
    (\<forall>k \<in> set ms. m_enabled (mo w k) \<longrightarrow> has_screen k w') \<and>
    (\<forall>k. (k \<notin> set ms \<or> \<not> m_enabled (mo w k)) \<longrightarrow> has_screen k w' = has_screen k w) \<and>
    (\<forall>k. has_screen k w \<longrightarrow> has_screen k w')"
proof (induction ms arbitrary: w)
  case Nil
  then show ?case by simp
next
  case (Cons m ms)
  obtain v where v: "settle_monitor X env m w = Some v" and r: "fold_opt (settle_monitor X env) ms v = Some w'"
    using fold_opt_Cons [OF Cons.prems(1)] by blast
  have "m \<in> set (mons w)" and "m_enabled (mo w m) \<Longrightarrow> m \<in> set (out_layout w)" using Cons.prems(3,4) by auto
  note one = settle_ok [OF env assms(2) Cons.prems(2) this v]
  then have f: "fixed w v" by blast
  note fd = fixedD [OF f]
  have "fixed v w' \<and> out_layout w' = out_layout v \<and> updatemons_pending w' = updatemons_pending v \<and>
    (\<forall>k \<in> set ms. m_enabled (mo v k) \<longrightarrow> has_screen k w') \<and>
    (\<forall>k. (k \<notin> set ms \<or> \<not> m_enabled (mo v k)) \<longrightarrow> has_screen k w' = has_screen k v) \<and>
    (\<forall>k. has_screen k v \<longrightarrow> has_screen k w')"
    using Cons.prems one fd by (intro Cons.IH [OF r]) auto
  then have g: "fixed v w'" "out_layout w' = out_layout v" "updatemons_pending w' = updatemons_pending v" and k: "k \<in> set ms \<Longrightarrow> m_enabled (mo w k) \<Longrightarrow> has_screen k w'"
    "k \<notin> set ms \<or> \<not> m_enabled (mo w k) \<Longrightarrow> has_screen k w' = has_screen k v" "has_screen k v \<Longrightarrow> has_screen k w'" for k
    using fd(5) by auto
  have hv: "has_screen k v = has_screen k w" if "k \<noteq> m \<or> \<not> m_enabled (mo w k)" for k
    using one that by (cases "k = m") (auto simp: rest_def)
  have hm: "m_enabled (mo w m) \<Longrightarrow> has_screen m v" using one by blast
  have "has_screen k w \<Longrightarrow> has_screen k v" for k using hv hm by (cases "k = m") auto
  then show ?case using fixed_trans [OF f g(1)] g(2,3) one k hv hm by (metis set_ConsD list.set_intros)
qed

lemma mview_announce:
  assumes "keeps env mview" and "monitors_ok w" and "announce_screen X env m w = Some w'"
  shows "mview w' = mview w"
proof (cases "\<not> needs_screen_added (mo w m) \<or> \<not> m_enabled (mo w m)")
  case True
  then show ?thesis using assms(3) by (auto simp: announce_screen_def)
next
  case False
  define w1 where "w1 = upd_monitor m (\<lambda>x. x\<lparr>needs_screen_added := False\<rparr>) w"
  have v1: "mview w1 = mview w" by (simp add: w1_def)
  show ?thesis
  proof (cases "luaA_screen_get_by_monitor (Some m) w1")
    case None
    have "w' = w1"
      using assms(3) unfolding announce_screen_def Let_def w1_def [symmetric] by (simp only: None False if_False option.case option.inject)
    then show ?thesis using v1 by simp
  next
    case (Some s)
    have "s \<in> set (screens w1)" using screen_found [OF Some] by simp
    moreover have "monitors_ok w1" using mview_ok [OF v1] assms(2) by simp
    ultimately have valid: "s_valid (sc w1 s)" by (simp add: monitors_ok_def)
    then have added: "mview (screen_added env s w1) = mview w1"
      using assms(1) by (auto simp: screen_added_def) (auto simp: mview_def fun_eq_iff)
    define fin where "fin = (\<lambda>w. let
                       w = luaA_screen_emit_list w;
                       w = luaA_screen_emit_viewports (ml_viewports X w) w;
                       w = (if luaA_screen_get_primary_screen w = Some s \<and> luaA_screen_get_primary_screen w1 \<noteq> Some s
                            then luaA_screen_emit_primary_changed (Some s) w else w)
                   in (case m_output (mo w m) of
                              None \<Rightarrow> w | Some x \<Rightarrow> enqueue (QSignal0 (LUser x) SIG_PROPERTY_SCREEN) w))"
    have fin: "mview (fin x) = mview x" for x
      by (simp add: fin_def Let_def luaA_screen_emit_list_def luaA_screen_emit_viewports_def
          luaA_screen_emit_primary_changed_def split: option.split)
    have "Option.bind (banning_refresh (fuel_of X) env (fin (screen_added env s w1))) (some_refresh (fuel_of X) env) = Some w'"
      using assms(3) False Some valid unfolding announce_screen_def w1_def [symmetric] Let_def fin_def by simp
    then obtain y where y: "banning_refresh (fuel_of X) env (fin (screen_added env s w1)) = Some y"
      "some_refresh (fuel_of X) env y = Some w'" by (auto split: bind_splits)
    have "mview y = mview (fin (screen_added env s w1))" by (rule mview_banning [OF assms(1) y(1)])
    moreover have "mview w' = mview y" by (rule mview_refresh [OF assms(1) y(2)])
    ultimately show ?thesis using fin added v1 by simp
  qed
qed

lemma mview_announce_outputs: "mview (fold announce_output ms w) = mview w"
proof (induction ms arbitrary: w)
  case (Cons m ms)
  have "mview (announce_output m w) = mview w" by (simp add: announce_output_def Let_def split: option.split)
  then show ?case using Cons by simp
qed simp

lemma mview_adopt:
  assumes "keeps env mview" and "adopt_orphans X env w = Some w'"
  shows "mview w' = mview w"
proof (cases "selmon w")
  case None
  then show ?thesis using assms(2) by (simp add: adopt_orphans_def)
next
  case (Some m)
  have one: "mview v' = mview w" if "adopt_orphan X env c v = Some v'" "mview v = mview w" for c v v'
    using that mview_setmon [OF assms(1)] by (fastforce simp: adopt_orphan_def split: if_splits)
  have act: "mview (client_activate_surface env s b v) = mview v" for s b v
    by (rule mv.parts_hold(1) [where Q = "\<lambda>x. x = mview v", OF mview_preserves [OF assms(1)]]) simp
  show ?thesis
  proof (cases "m_enabled (mo w m)")
    case False
    then show ?thesis using assms(2) Some by (simp add: adopt_orphans_def)
  next
    case True
    define fin where "fin = (\<lambda>w. case selmon w of
                None \<Rightarrow> w
              | Some m \<Rightarrow>
                  (case m_lock_surface (mo w m) of
                     None \<Rightarrow> w
                   | Some s \<Rightarrow>
                       client_activate_surface env (Some s) True
                         (call_env env (Native ''seat_keyboard_notify_enter'' [LUser s]) w)))"
    have fin: "mview (fin v) = mview v" for v using assms(1) act by (simp add: fin_def split: option.split)
    obtain u v where u: "foreach_opt (fuel_of X) 0 clients (adopt_orphan X env) w = Some u"
      and v: "restore_focus X env (selmon u) u = Some v" and w': "w' = fin v"
      using assms(2) True Some unfolding adopt_orphans_def fin_def [symmetric] by (auto split: bind_splits)
    then have "mview w' = mview v" using fin by simp
    moreover have "mview u = mview w"
      by (rule mv.foreach_opt_holds [where Q = "\<lambda>x. x = mview w", OF _ _ u]) (use one in \<open>blast\<close>, simp)
    moreover have "mview v = mview u" by (rule mview_restore [OF assms(1)]) (use v in \<open>simp_all\<close>)
    ultimately show ?thesis by simp
  qed
qed

text \<open>What the settling of a layout achieves.\<close>

definition layout_settled :: "world \<Rightarrow> world \<Rightarrow> bool" where
  "layout_settled w w' \<longleftrightarrow> mons w' = mons w \<and> in_updatemons w' = in_updatemons w \<and> monitors_ok w' \<and>
     (\<forall>m. m_enabled (mo w' m) = m_enabled (mo w m) \<and> m_asleep (mo w' m) = m_asleep (mo w m)) \<and>
     (\<forall>m \<in> set (mons w).
        (m_enabled (mo w m) \<longrightarrow> m \<in> set (out_layout w') \<and> has_screen m w') \<and>
        (off m w \<longrightarrow> m \<notin> set (out_layout w') \<and> \<not> has_screen m w') \<and>
        (\<not> m_enabled (mo w m) \<and> m_asleep (mo w m) \<longrightarrow> rest m w w'))"

text \<open>A layout that needs no change: the loops over it only build the configuration.\<close>

definition layout_calm :: "world \<Rightarrow> bool" where
  "layout_calm w \<longleftrightarrow> (\<forall>m \<in> set (mons w). (m_enabled (mo w m) \<longrightarrow> m \<in> set (out_layout w)) \<and> (off m w \<longrightarrow> m \<notin> set (out_layout w)))"

lemma mview_calm: "mview v = mview w \<Longrightarrow> layout_calm v = layout_calm w"
  using mview_parts [of v w] by (simp add: layout_calm_def off_def)

lemma calm_disable:
  "keeps env mview \<Longrightarrow> fold_opt (disable_monitor X env ch) ms w = Some w' \<Longrightarrow> set ms \<subseteq> set (mons w) \<Longrightarrow> layout_calm w \<Longrightarrow>
    mview w' = mview w"
proof (induction ms arbitrary: w)
  case (Cons m ms)
  obtain v where v: "disable_monitor X env ch m w = Some v" and r: "fold_opt (disable_monitor X env ch) ms v = Some w'"
    using fold_opt_Cons [OF Cons.prems(2)] by blast
  let ?w = "call_env env (Native ''output_configuration_head'' [LUser m]) w"
  have o: "out_layout ?w = out_layout w" using mview_parts(4) [OF mview_call [OF Cons.prems(1)]] by simp
  have "v = w \<or> v = ?w"
    using v Cons.prems(3,4) o by (auto simp: disable_monitor_def layout_calm_def off_def Let_def split: if_splits)
  then have mv: "mview v = mview w" using Cons.prems(1) by auto
  have "mview w' = mview v"
    using Cons.prems(3,4) mview_calm [OF mv] mview_parts(3) [OF mv] by (intro Cons.IH [OF Cons.prems(1) r]) simp_all
  then show ?case using mv by simp
qed simp

lemma calm_insert:
  "fold_opt (insert_monitor ch) ms w = Some w' \<Longrightarrow> set ms \<subseteq> set (mons w) \<Longrightarrow> layout_calm w \<Longrightarrow> w' = w"
  by (induction ms) (auto simp: insert_monitor_def layout_calm_def split: bind_splits if_splits)

lemma settle_layout_ok:
  assumes env: "keeps env mview" and "fresh_objects X" and "monitors_ok w" and up: "\<not> in_updatemons w"
    and s: "settle_layout X env (updatemons X env n) w = Some w'"
  shows "layout_settled w w'" and "layout_calm w \<Longrightarrow> updatemons_pending w' = updatemons_pending w"
proof -
  define w0 where "w0 = call_env env (Native ''output_configuration_create'' []) (w\<lparr>in_updatemons := True\<rparr>)"
  obtain w1 w2 w3 w4 w5 where
    w1: "fold_opt (disable_monitor X env (updatemons X env n)) (mons w0) w0 = Some w1" and
    w2: "fold_opt (insert_monitor (updatemons X env n)) (mons w1) w1 = Some w2" and
    w3: "fold_opt (settle_monitor X env) (mons w2) (w2\<lparr>sgeom := ml_box X w2 None\<rparr>) = Some w3" and
    w4: "fold_opt (announce_screen X env) (mons w3) w3 = Some w4" and
    w5: "adopt_orphans X env (fold announce_output (mons w4) w4) = Some w5" and
    w': "w' = (let w = call_env env (Native ''cursor_move'' []) w5;
               w = call_env env (Native ''declare_cursor_changed'' []) w;
               w = call_env env (Native ''output_manager_set_configuration'' []) (w\<lparr>in_updatemons := False\<rparr>)
           in w\<lparr>in_updatemons := False\<rparr>)"
    using s by (auto simp: settle_layout_def w0_def Let_def split: bind_splits)
  have v0: "mview w0 = mview (w\<lparr>in_updatemons := True\<rparr>)" using env by (simp add: w0_def)
  note p0 = mview_parts [OF v0]
  have ok0: "monitors_ok w0" using mview_ok [OF v0] assms(3) by (simp add: monitors_ok_def has_screen_def)
  have hs0: "has_screen k w0 = has_screen k w" "off k w0 = off k w" for k
    using p0 by (simp_all add: has_screen_def off_def)
  have "fixed w0 w1 \<and> (\<forall>k. k \<notin> set (mons w0) \<or> \<not> off k w0 \<longrightarrow> rest k w0 w1) \<and>
      (\<forall>k \<in> set (mons w0). off k w0 \<longrightarrow> k \<notin> set (out_layout w1) \<and> \<not> has_screen k w1)"
    using ok0 p0 by (intro disable_loop [OF env w1]) (auto simp: monitors_ok_def)
  then have f1: "fixed w0 w1" and d: "\<And>k. \<not> off k w0 \<Longrightarrow> rest k w0 w1"
    "\<And>k. k \<in> set (mons w0) \<Longrightarrow> off k w0 \<Longrightarrow> k \<notin> set (out_layout w1) \<and> \<not> has_screen k w1" by blast+
  have "in_updatemons w1" using fixedD(3) [OF f1] p0 by simp
  from insert_loop [OF w2 this] have f2: "fixed w1 w2" and h2: "\<And>k. has_screen k w2 = has_screen k w1" and
    l2: "\<And>k. k \<in> set (out_layout w2) \<longleftrightarrow> k \<in> set (out_layout w1) \<or> k \<in> set (mons w1) \<and> m_enabled (mo w1 k)" by blast+
  let ?w2 = "w2\<lparr>sgeom := ml_box X w2 None\<rparr>"
  have g2: "mview ?w2 = mview w2" by (simp add: mview_def)
  have ok2: "monitors_ok ?w2" using mview_ok [OF g2] fixedD(1) [OF f2 fixedD(1) [OF f1 ok0]] by simp
  have "fixed ?w2 w3 \<and> out_layout w3 = out_layout ?w2 \<and> updatemons_pending w3 = updatemons_pending ?w2 \<and> (\<forall>k \<in> set (mons w2). m_enabled (mo ?w2 k) \<longrightarrow> has_screen k w3) \<and>
    (\<forall>k. (k \<notin> set (mons w2) \<or> \<not> m_enabled (mo ?w2 k)) \<longrightarrow> has_screen k w3 = has_screen k ?w2) \<and>
    (\<forall>k. has_screen k ?w2 \<longrightarrow> has_screen k w3)"
    using l2 fixedD(2,5) [OF f2] by (intro settle_loop [OF env assms(2) w3 ok2]) auto
  then have f3: "fixed ?w2 w3" and l3: "out_layout w3 = out_layout w2" and pd3: "updatemons_pending w3 = updatemons_pending w2" and
    h3: "\<And>k. k \<in> set (mons w2) \<Longrightarrow> m_enabled (mo w2 k) \<Longrightarrow> has_screen k w3"
      "\<And>k. \<not> m_enabled (mo w2 k) \<Longrightarrow> has_screen k w3 = has_screen k w2"
    using mview_ok [OF g2] by auto
  have ok3: "monitors_ok w3" by (rule fixedD(1) [OF f3 ok2])
  have v4: "mview w4 = mview w3"
  proof -
    have "monitors_ok v' \<and> mview v' = mview w3" if "announce_screen X env m v = Some v'" "monitors_ok v \<and> mview v = mview w3" for m v v'
      using mview_announce [OF env _ that(1)] that(2) mview_ok [of v' v] by auto
    then have "fold_opt (announce_screen X env) ms v = Some v' \<Longrightarrow> monitors_ok v \<and> mview v = mview w3 \<Longrightarrow> mview v' = mview w3" for ms v v'
      by (induction ms arbitrary: v) (auto split: bind_splits)
    then show ?thesis using w4 ok3 by blast
  qed
  have "mview w5 = mview w4" using mview_adopt [OF env w5] mview_announce_outputs by metis
  then have v5: "mview w5 = mview w3" using v4 by simp
  define u where "u = call_env env (Native ''declare_cursor_changed'' []) (call_env env (Native ''cursor_move'' []) w5)"
  have "mview u = mview w3" using env v5 by (simp add: u_def)
  then have "mview (u\<lparr>in_updatemons := False\<rparr>) = mview (w3\<lparr>in_updatemons := False\<rparr>)" by (simp add: mview_def)
  then have v: "mview w' = mview (w3\<lparr>in_updatemons := False\<rparr>)"
    using mview_call [OF env, of "Native ''output_manager_set_configuration'' []" "u\<lparr>in_updatemons := False\<rparr>"]
    by (simp add: w' u_def [symmetric] Let_def) (simp add: mview_def)
  note p = mview_parts [OF v]
  have hs: "has_screen k w' = has_screen k w3" for k using p by (simp add: has_screen_def)
  have ok: "monitors_ok w'" using ok3 p hs by (simp add: monitors_ok_def)
  have fl: "m_enabled (mo w' k) = m_enabled (mo w k)" "m_asleep (mo w' k) = m_asleep (mo w k)" "mons w' = mons w"
    and e: "m_enabled (mo w1 k) = m_enabled (mo w k)" "m_enabled (mo w2 k) = m_enabled (mo w k)"
    and ms: "mons w0 = mons w" "mons w1 = mons w" "mons w2 = mons w" for k
    using p p0 f1 f2 f3 by (simp_all add: fixed_def)
  have lay: "k \<in> set (out_layout w') \<longleftrightarrow> k \<in> set (out_layout w1) \<or> k \<in> set (mons w) \<and> m_enabled (mo w k)" for k
    using p l3 l2 ms e by simp
  have "m \<in> set (out_layout w') \<and> has_screen m w'" if "m \<in> set (mons w)" "m_enabled (mo w m)" for m
    using that lay h3(1) hs ms e by simp
  moreover have "m \<notin> set (out_layout w') \<and> \<not> has_screen m w'" if "m \<in> set (mons w)" "off m w" for m
  proof -
    have "m \<notin> set (out_layout w1) \<and> \<not> has_screen m w1" using d(2) [of m] that ms hs0 by simp
    then show ?thesis using that lay h3(2) hs h2 e by (simp add: off_def)
  qed
  moreover have "rest m w w'" if "\<not> m_enabled (mo w m)" "m_asleep (mo w m)" for m
  proof -
    have "\<not> off m w" using that by (simp add: off_def)
    then have "rest m w0 w1" using d(1) [of m] hs0(2) by simp
    then show ?thesis using that lay h3(2) hs h2 e hs0 p0 by (simp add: rest_def)
  qed
  ultimately show "layout_settled w w'" using ok fl p up by (simp add: layout_settled_def)
  assume "layout_calm w"
  then have "layout_calm w0" using p0 by (simp add: layout_calm_def off_def)
  then have m1: "mview w1 = mview w0" using calm_disable [OF env w1] by simp
  then have "w2 = w1" using calm_insert [OF w2] \<open>layout_calm w0\<close> mview_calm by blast
  then show "updatemons_pending w' = updatemons_pending w" using p pd3 mview_parts(9) [OF m1] p0 by simp
qed

subsection \<open>Settling returns\<close>

abbreviation (input) up :: "mon_lib \<Rightarrow> world \<Rightarrow> bool" where "up X \<equiv> ready_up (fuel_of X)"

lemma preserves_up:
  assumes "keeps env mview" and "preserves env (ready F)" shows "preserves env (ready_up F)"
proof -
  have "in_updatemons (env k w) = in_updatemons w" for k w
    using assms(1) mview_parts(5) [of "env k w" w] by (simp add: keeps_def)
  then show ?thesis using assms(2) by (simp add: preserves_def ready_up_def)
qed

lemma up_fields [simp]:
  "ready_up F (w\<lparr>out_layout := x\<rparr>) = ready_up F w" "ready_up F (w\<lparr>updatemons_pending := b\<rparr>) = ready_up F w"
  "ready_up F (w\<lparr>sgeom := g\<rparr>) = ready_up F w"
  by (rule ready_up_same; simp)+

lemma updatemons_inside: "ready_up F w \<Longrightarrow> ends (ready_up F) (updatemons X env n w)"
  by (cases n) (simp_all add: ready_up_def [of F w])

lemma ends_layout:
  assumes "ready_up F w"
  shows "ends (ready_up F) (layout_add (updatemons X env n) m w)" "ends (ready_up F) (layout_remove (updatemons X env n) m w)"
  using assms updatemons_inside [of F] by (simp_all add: layout_add_def layout_remove_def)

lemma ends_restore:
  assumes "preserves env (up X)" and "up X w" shows "ends (up X) (restore_focus X env m w)"
  unfolding restore_focus_def by (rule ru.ends_focus_restore [OF assms])

lemma ends_clients:
  assumes "\<And>c w. up X w \<Longrightarrow> ends (up X) (f c w)" and "up X w"
  shows "ends (up X) (foreach_opt (fuel_of X) 0 clients f w)"
  by (rule ends_foreach_opt [OF ru.P_clients]) (use assms ru.P_clients [OF assms(2)] in auto)

lemma ends_closemon:
  assumes env: "preserves env (up X)" and "up X w" shows "ends (up X) (closemon X env m w)"
proof -
  have one: "ends (up X) (close_client X env m c v)" if "up X v" for c v
    using that ru.ends_setmon [OF env] ru.window_parts [OF env] by (simp add: close_client_def Let_def)
  have "up X (if mons w = [] then w\<lparr>selmon := None\<rparr> else if selmon w = Some m then w\<lparr>selmon := next_enabled m w\<rparr> else w)"
    using assms(2) by simp
  then show ?thesis unfolding closemon_def Let_def
    by (intro ends_bind [OF ends_clients [OF one]] ends_restore [OF env])
qed

lemma ends_remove_screen:
  assumes env: "preserves env (up X)" and "up X w" shows "ends (up X) (remove_screen_of X env s w)"
  unfolding remove_screen_of_def Let_def
  by (rule ends_map [OF ru.ends_screen_removed [OF assms]])
    (simp add: luaA_screen_emit_viewports_def luaA_screen_emit_primary_changed_def split: option.split)

lemma ends_disable:
  assumes env: "preserves env (up X)" and "up X w"
  shows "ends (up X) (disable_monitor X env (updatemons X env n) m w)"
proof -
  note call = ru.call [OF env]
  have a: "ends (up X) (case luaA_screen_get_by_monitor (Some m) v of None \<Rightarrow> Some v | Some s \<Rightarrow> remove_screen_of X env s v)"
    if "up X v" for v
    using that ends_remove_screen [OF env that] by (simp split: option.split)
  have b: "ends (up X) (layout_remove (updatemons X env n) m (emit_output env m ''property::screen'' v))" if "up X v" for v
    using that call by (intro ends_layout(2)) (simp add: emit_output_def split: option.split)
  have c: "ends (up X) (map_option (upd_monitor m (\<lambda>x. x\<lparr>m_box := box 0 0 0 0, m_workarea := box 0 0 0 0\<rparr>)) (closemon X env m v))"
    if "up X v" for v
    by (rule ends_map [OF ends_closemon [OF env that]]) simp
  show ?thesis using assms(2) call unfolding disable_monitor_def Let_def
    by (auto intro!: ends_bind [OF a] ends_bind [OF b] c)
qed

lemma ends_insert: "up X w \<Longrightarrow> ends (up X) (insert_monitor (updatemons X env n) m w)"
  using ends_layout(1) by (simp add: insert_monitor_def)

lemma up_settle_screen: "up X w \<Longrightarrow> up X (settle_screen X m w)"
  by (simp add: settle_screen_def luaA_screen_new_def luaA_screen_update_geometry_def Let_def split: option.split)

lemma ends_settle:
  assumes env: "preserves env (up X)" and "up X w" shows "ends (up X) (settle_monitor X env m w)"
proof -
  note call = ru.call [OF env] and parts = ru.window_parts [OF env]
  have q: "up X (let w = settle_screen X m v;
                  w = call_env env (Arrange m) w;
                  w = (case focustop (Some m) w of
                         Some c \<Rightarrow> if fullscreen (cl w c)
                                  then resize (ml_window X) env c (m_box (mo w m)) False w else w
                       | None \<Rightarrow> w);
                  w = upd_monitor m (\<lambda>x. x\<lparr>gamma_lut_changed := True\<rparr>) w
              in if selmon w = None then w\<lparr>selmon := Some m\<rparr> else w)" if "up X v" for v
    using call up_settle_screen [OF that] parts by (simp add: Let_def split: option.split)
  show ?thesis using assms(2) call unfolding settle_monitor_def Let_def
    by (auto intro!: ends_map [OF ru.ends_layer_focus [OF env refl]] q [unfolded Let_def] split: option.split)
qed

lemma ends_announce:
  assumes env: "preserves env (up X)" and "up X w" shows "ends (up X) (announce_screen X env m w)"
proof -
  note call = ru.call [OF env]
  define w1 where "w1 = upd_monitor m (\<lambda>x. x\<lparr>needs_screen_added := False\<rparr>) w"
  have w1: "up X w1" using assms(2) by (simp add: w1_def)
  define fin where "fin = (\<lambda>s w. let
                       w = luaA_screen_emit_list w;
                       w = luaA_screen_emit_viewports (ml_viewports X w) w;
                       w = (if luaA_screen_get_primary_screen w = Some s \<and> luaA_screen_get_primary_screen w1 \<noteq> Some s
                            then luaA_screen_emit_primary_changed (Some s) w else w)
                   in (case m_output (mo w m) of
                              None \<Rightarrow> w | Some x \<Rightarrow> enqueue (QSignal0 (LUser x) SIG_PROPERTY_SCREEN) w))"
  have fin: "up X (fin s v)" if "up X v" for s v
    using that by (simp add: fin_def Let_def luaA_screen_emit_list_def luaA_screen_emit_viewports_def
        luaA_screen_emit_primary_changed_def split: option.split)
  have "ends (up X) (Option.bind (banning_refresh (fuel_of X) env (fin s (screen_added env s w1))) (some_refresh (fuel_of X) env))" for s
    using w1 call by (intro ends_bind [OF ru.ends_banning [OF env fin]] ru.ends_some_refresh [OF env]) (simp_all add: screen_added_def)
  then show ?thesis using assms(2) w1
    unfolding announce_screen_def w1_def [symmetric] Let_def fin_def by (simp split: option.split)
qed

lemma ends_adopt:
  assumes env: "preserves env (up X)" and "up X w" shows "ends (up X) (adopt_orphans X env w)"
proof -
  have one: "ends (up X) (adopt_orphan X env c v)" if "up X v" for c v
    using that ru.ends_setmon [OF env] by (simp add: adopt_orphan_def)
  have q: "up X (case selmon v of
                None \<Rightarrow> v
              | Some m \<Rightarrow>
                  (case m_lock_surface (mo v m) of
                     None \<Rightarrow> v
                   | Some s \<Rightarrow>
                       client_activate_surface env (Some s) True
                         (call_env env (Native ''seat_keyboard_notify_enter'' [LUser s]) v)))" if "up X v" for v
    using that ru.call [OF env] ru.parts [OF env] by (simp split: option.split)
  show ?thesis using assms(2) unfolding adopt_orphans_def
    by (auto intro!: ends_bind [OF ends_clients [OF one]] ends_map [OF ends_restore [OF env]] q split: option.split)
qed

lemma ends_settle_layout:
  assumes "keeps env mview" and "preserves env (ready (fuel_of X))" and "ready (fuel_of X) w"
  shows "ends (ready (fuel_of X)) (settle_layout X env (updatemons X env n) w)"
proof -
  note env = preserves_up [OF assms(1,2)]
  have w0: "up X (call_env env (Native ''output_configuration_create'' []) (w\<lparr>in_updatemons := True\<rparr>))"
    using ready_same [of "w\<lparr>in_updatemons := True\<rparr>" w] assms(3) by (intro ru.call [OF env]) (simp add: ready_up_def)
  have outs: "up X (fold announce_output ms v)" if "up X v" for ms v
    using that by (induction ms arbitrary: v) (simp_all add: announce_output_def Let_def split: option.split)
  have q: "ready (fuel_of X) (let w = call_env env (Native ''cursor_move'' []) v;
               w = call_env env (Native ''declare_cursor_changed'' []) w;
               w = call_env env (Native ''output_manager_set_configuration'' []) (w\<lparr>in_updatemons := False\<rparr>)
           in w\<lparr>in_updatemons := False\<rparr>)" if "up X v" for v
  proof -
    have off: "ready (fuel_of X) (u\<lparr>in_updatemons := False\<rparr>) = ready (fuel_of X) u" for u by (rule ready_same) simp_all
    show ?thesis using that rd.call [OF assms(2)] by (simp add: ready_up_def off Let_def)
  qed
  show ?thesis unfolding settle_layout_def Let_def
    by (intro ends_bind [OF ends_fold [of "up X"]] ends_map [OF ends_adopt [OF env]] ends_disable [OF env] ends_insert
        ends_settle [OF env] ends_announce [OF env] outs q [unfolded Let_def] w0) (simp_all add: outs)
qed

text \<open>updatemons needs fuel for two rounds: the second finds nothing to change and asks for no third.\<close>

lemma settled_calm: "layout_settled w v \<Longrightarrow> layout_calm v"
  by (simp add: layout_settled_def layout_calm_def off_def)

lemma settled_trans: "layout_settled u v \<Longrightarrow> layout_settled v w \<Longrightarrow> layout_settled u w"
  unfolding layout_settled_def off_def by (auto intro: rest_trans)

lemma pending_irrelevant [simp]:
  "monitors_ok (w\<lparr>updatemons_pending := b\<rparr>) = monitors_ok w"
  "has_screen m (w\<lparr>updatemons_pending := b\<rparr>) = has_screen m w"
  "layout_calm (w\<lparr>updatemons_pending := b\<rparr>) = layout_calm w"
  "off m (w\<lparr>updatemons_pending := b\<rparr>) = off m w" "rest m u (w\<lparr>updatemons_pending := b\<rparr>) = rest m u w"
  "layout_settled u (w\<lparr>updatemons_pending := b\<rparr>) = layout_settled u w"
  by (simp_all add: monitors_ok_def has_screen_def layout_calm_def off_def layout_settled_def rest_def)

lemma updatemons_ok:
  assumes "keeps env mview" and "fresh_objects X"
  shows "monitors_ok w \<Longrightarrow> \<not> in_updatemons w \<Longrightarrow> updatemons X env n w = Some w' \<Longrightarrow>
    layout_settled w w' \<and> \<not> in_updatemons w'"
proof (induction n arbitrary: w)
  case 0
  then show ?case by simp
next
  case (Suc n)
  then obtain v where v: "settle_layout X env (updatemons X env n) w = Some v"
    and r: "(if updatemons_pending v then updatemons X env n (v\<lparr>updatemons_pending := False\<rparr>) else Some v) = Some w'"
    by (auto split: bind_splits)
  have s: "layout_settled w v" by (rule settle_layout_ok(1) [OF assms Suc.prems(1,2) v])
  show ?case
  proof (cases "updatemons_pending v")
    case False
    then show ?thesis using r s Suc.prems(2) by (simp add: layout_settled_def)
  next
    case True
    let ?v = "v\<lparr>updatemons_pending := False\<rparr>"
    have "layout_settled w ?v" "monitors_ok ?v" "\<not> in_updatemons ?v"
      using s Suc.prems(2) by (simp_all add: layout_settled_def)
    moreover from this have "layout_settled ?v w' \<and> \<not> in_updatemons w'" using True r by (intro Suc.IH) simp_all
    ultimately show ?thesis using settled_trans by blast
  qed
qed

lemma updatemons_rounds:
  assumes "keeps env mview" and "fresh_objects X" and "monitors_ok w" and "\<not> in_updatemons w"
  shows "updatemons X env (Suc (Suc n)) w =
    Option.bind (settle_layout X env (updatemons X env (Suc n)) w) (\<lambda>v.
      if updatemons_pending v
      then settle_layout X env (updatemons X env n) (v\<lparr>updatemons_pending := False\<rparr>) else Some v)"
proof (cases "settle_layout X env (updatemons X env (Suc n)) w")
  case None
  then show ?thesis using assms(4) by simp
next
  case (Some v)
  let ?v = "v\<lparr>updatemons_pending := False\<rparr>"
  have st: "layout_settled w v" by (rule settle_layout_ok(1) [OF assms Some])
  then have v: "monitors_ok ?v" "\<not> in_updatemons ?v" "layout_calm ?v"
    using assms(4) settled_calm [OF st] by (simp_all add: layout_settled_def)
  have "\<not> updatemons_pending u" if "settle_layout X env (updatemons X env n) ?v = Some u" for u
    using settle_layout_ok(2) [OF assms(1,2) v(1,2) that v(3)] by simp
  then show ?thesis using Some assms(4) v(2)
    by (cases "settle_layout X env (updatemons X env n) ?v") simp_all
qed

lemma updatemons_returns:
  assumes "keeps env mview" and "preserves env (ready (fuel_of X))" and "fresh_objects X"
    and "monitors_ok w" and "\<not> in_updatemons w" and "ready (fuel_of X) w" and "2 \<le> n"
  shows "\<exists>w'. updatemons X env n w = Some w' \<and> ready (fuel_of X) w'"
proof -
  obtain k where n: "n = Suc (Suc k)" using assms(7) by (auto simp: numeral_2_eq_2 dest!: le_Suc_ex)
  have "ready (fuel_of X) (v\<lparr>updatemons_pending := False\<rparr>) = ready (fuel_of X) v" for v by (rule ready_same) simp_all
  then have "ends (ready (fuel_of X)) (if updatemons_pending v
      then settle_layout X env (updatemons X env k) (v\<lparr>updatemons_pending := False\<rparr>) else Some v)"
    if "ready (fuel_of X) v" for v
    using that ends_settle_layout [OF assms(1,2)] by simp
  then have "ends (ready (fuel_of X)) (updatemons X env n w)"
    unfolding n updatemons_rounds [OF assms(1,3-5)] by (intro ends_bind [OF ends_settle_layout [OF assms(1,2,6)]])
  then show ?thesis by (simp add: ends_def)
qed

text \<open>
  C3: updatemons returns, with fuel for two rounds, also when the layout changed meanwhile and it
  runs once more. Then every enabled monitor is in the layout and has a screen, no disabled one is
  or has, and one that sleeps is left as it was; no screen is lost or doubled. For handlers that
  change none of this themselves, and while the loops over the windows and the popups fit the fuel.
\<close>

theorem updatemons_settles:
  assumes "keeps env mview" and "preserves env (ready (fuel_of X))" and "fresh_objects X"
    and "monitors_ok w" and "\<not> in_updatemons w" and "ready (fuel_of X) w" and "2 \<le> n"
  shows "\<exists>w'. updatemons X env n w = Some w' \<and> mons w' = mons w \<and> monitors_ok w' \<and> \<not> in_updatemons w' \<and>
    (\<forall>m \<in> set (mons w).
       if m_enabled (mo w m) then m \<in> set (out_layout w') \<and> has_screen m w'
       else if m_asleep (mo w m)
            then (m \<in> set (out_layout w') \<longleftrightarrow> m \<in> set (out_layout w)) \<and> (has_screen m w' \<longleftrightarrow> has_screen m w)
            else m \<notin> set (out_layout w') \<and> \<not> has_screen m w')"
proof -
  obtain w' where w': "updatemons X env n w = Some w'" using updatemons_returns [OF assms] by blast
  show ?thesis using updatemons_ok [OF assms(1,3-5) w'] w' assms(5) by (simp add: layout_settled_def off_def rest_def)
qed

text \<open>
  Monitors with a screen each, in the layout: 6 is asleep, 7 was just switched off.
  The argument says which of them are there.
\<close>

definition mon_lib0 :: mon_lib where
  "mon_lib0 = \<lparr>ml_window = window_lib0, ml_lock = demo_lock_lib, ml_box = (\<lambda>_ _. box 0 0 1920 1080),
     ml_box_equal = (=), ml_adjacent = (\<lambda>_ _ _. None), ml_farthest = (\<lambda>_ _ _. None),
     ml_fresh = (\<lambda>w. Suc (sum_list (screens w))), ml_viewports = (\<lambda>_. LNil), ml_commit = (\<lambda>_ _. True),
     ml_changed = (\<lambda>_ _. True), ml_presented = (\<lambda>_ _. True), ml_stopped = (\<lambda>_ _. False)\<rparr>"

definition monitors_demo :: "nat list \<Rightarrow> world" where
  "monitors_demo ms = world0\<lparr>mo := (\<lambda>_. monitor0)(6 := monitor0\<lparr>m_enabled := False, m_asleep := True\<rparr>,
        7 := monitor0\<lparr>m_enabled := False\<rparr>),
     mons := ms, out_layout := ms, screens := map ((+) 10) ms,
     sc := (\<lambda>s. screen0\<lparr>s_valid := True, s_monitor := Some (s - 10)\<rparr>)\<rparr>"

lemma mon_lib0_fresh: "fresh_objects mon_lib0"
  using member_le_sum_list [of _ "screens _"] by (force simp: fresh_objects_def mon_lib0_def)

lemma monitors_demo_sel:
  "monitors_ok (monitors_demo [6])" "monitors_ok (monitors_demo [7])" "\<not> in_updatemons (monitors_demo ms)"
  "mons (monitors_demo ms) = ms" "\<not> m_enabled (mo (monitors_demo ms) 6)" "\<not> m_enabled (mo (monitors_demo ms) 7)"
  "\<not> m_asleep (mo (monitors_demo ms) 7)" "has_screen 6 (monitors_demo [6])" "has_screen 7 (monitors_demo [7])"
  by (simp_all add: monitors_demo_def monitors_ok_def has_screen_def world0_def monitor0_def screen0_def)

lemma idle_ready: "preserves idle (ready F)"
  by (simp add: preserves_def idle_def)

lemma monitors_demo_ready: "ready (fuel_of mon_lib0) (monitors_demo ms)"
proof -
  have "toplevel_up (Suc n) s (monitors_demo ms) \<noteq> None" for n s
    by (simp add: monitors_demo_def world0_def)
  from this [of 2] show ?thesis
    by (simp add: ready_def mon_lib0_def demo_lock_lib_def eval_nat_numeral) (simp add: monitors_demo_def world0_def)
qed

lemma updatemons_settles_witness:
  "has_screen 7 (monitors_demo [7]) \<and>
   (\<exists>w'. updatemons mon_lib0 idle 2 (monitors_demo [7]) = Some w' \<and> 7 \<notin> set (out_layout w') \<and> \<not> has_screen 7 w')"
  using updatemons_settles [OF idle_keeps idle_ready mon_lib0_fresh monitors_demo_sel(2,3) monitors_demo_ready, of 2]
  by (auto simp: monitors_demo_sel)

text \<open>
  C21: updatemons settles the layout at most twice: the changes it makes itself ask for a second
  round, which finds nothing to change, so there is never a third.
\<close>

theorem updatemons_twice:
  assumes "keeps env mview" and "fresh_objects X" and "monitors_ok w" and "\<not> in_updatemons w"
  shows "updatemons X env (Suc (Suc n)) w =
    Option.bind (settle_layout X env (updatemons X env (Suc n)) w) (\<lambda>v.
      if updatemons_pending v
      then settle_layout X env (updatemons X env n) (v\<lparr>updatemons_pending := False\<rparr>) else Some v)"
  by (rule updatemons_rounds [OF assms])

lemma updatemons_twice_witness:
  "updatemons mon_lib0 idle 7 (monitors_demo [7]) =
    Option.bind (settle_layout mon_lib0 idle (updatemons mon_lib0 idle 6) (monitors_demo [7])) (\<lambda>v.
      if updatemons_pending v
      then settle_layout mon_lib0 idle (updatemons mon_lib0 idle 5) (v\<lparr>updatemons_pending := False\<rparr>) else Some v)"
  using updatemons_twice [OF idle_keeps mon_lib0_fresh monitors_demo_sel(2,3), of 5] by (simp add: eval_nat_numeral)

subsection \<open>Test configurations and power\<close>

text \<open>Testing heads changes of the monitors only that they sleep no more.\<close>

lemma test_heads:
  assumes env: "keeps env mview"
  shows "fold_opt (apply_head X env n True) hs (ok, w) = Some (ok', w') \<Longrightarrow>
    mons w' = mons w \<and> in_updatemons w' = in_updatemons w \<and> monitors_ok w' = monitors_ok w \<and>
    out_layout w' = out_layout w \<and> (\<forall>k. has_screen k w' = has_screen k w \<and> m_enabled (mo w' k) = m_enabled (mo w k) \<and>
      m_asleep (mo w' k) = (m_asleep (mo w k) \<and> Some k \<notin> ch_monitor ` set hs))"
proof (induction hs arbitrary: ok w)
  case Nil
  then show ?case by simp
next
  case (Cons h hs)
  obtain ok1 v where v: "apply_head X env n True h (ok, w) = Some (ok1, v)"
    and r: "fold_opt (apply_head X env n True) hs (ok1, v) = Some (ok', w')"
    using Cons.prems by (auto split: bind_splits)
  let ?sleep = "\<lambda>k. m_asleep (mo w k) \<and> Some k \<noteq> ch_monitor h"
  have "mview v = mview (w\<lparr>mo := \<lambda>k. (mo w k)\<lparr>m_asleep := ?sleep k\<rparr>\<rparr>)"
  proof (cases "ch_monitor h")
    case None
    then show ?thesis using v by (simp add: apply_head_def mview_def)
  next
    case (Some m)
    then have "v = call_env env (Native ''output_test_state'' [LUser m]) (upd_monitor m (\<lambda>x. x\<lparr>m_asleep := False\<rparr>) w)"
      using v by (simp add: apply_head_def Let_def)
    then have "mview v = mview (upd_monitor m (\<lambda>x. x\<lparr>m_asleep := False\<rparr>) w)" using env by simp
    then show ?thesis using Some by (simp add: mview_def upd_monitor_def fun_eq_iff)
  qed
  note one = mview_parts [OF this]
  then have "monitors_ok v = monitors_ok w" "has_screen k v = has_screen k w" for k
    by (simp_all add: monitors_ok_def has_screen_def)
  then show ?case using Cons.IH [OF r] one by auto
qed

lemma ends_test_heads:
  assumes "preserves env (ready F)"
  shows "ready F w \<Longrightarrow> ends (\<lambda>r. ready F (snd r)) (fold_opt (apply_head X env n True) hs (ok, w))"
proof -
  have "ends (\<lambda>r. ready F (snd r)) (apply_head X env n True h r)" if "ready F (snd r)" for h r
    using that rd.call [OF assms] by (cases r) (simp add: apply_head_def Let_def split: option.split)
  then show "ready F w \<Longrightarrow> ends (\<lambda>r. ready F (snd r)) (fold_opt (apply_head X env n True) hs (ok, w))"
    by (intro ends_fold) simp_all
qed

text \<open>
  C22: Testing a configuration returns and plugs in nothing: of a settled layout every monitor
  keeps its place and its screen, whatever the heads ask and the outputs answer, except that a
  sleeping monitor which a head names is woken by the test and thereby loses both.
\<close>

theorem test_unplugs_only_sleepers:
  assumes "keeps env mview" and "preserves env (ready (fuel_of X))" and "fresh_objects X"
    and "layout_settled w w" and "\<not> in_updatemons w" and "ready (fuel_of X) w" and "2 \<le> n"
  shows "\<exists>w'. outputmgrtest X env n heads w = Some w' \<and>
    (\<forall>m \<in> set (mons w).
       if \<not> m_enabled (mo w m) \<and> m_asleep (mo w m) \<and> Some m \<in> set (map ch_monitor heads)
       then m \<notin> set (out_layout w') \<and> \<not> has_screen m w'
       else (m \<in> set (out_layout w') \<longleftrightarrow> m \<in> set (out_layout w)) \<and> (has_screen m w' \<longleftrightarrow> has_screen m w))"
proof -
  obtain ok v where v: "fold_opt (apply_head X env n True) heads (True, w) = Some (ok, v)" and rv: "ready (fuel_of X) v"
    using ends_test_heads [OF assms(2,6), of X n heads True] by (auto simp: ends_def)
  define u where "u = call_env env (Native (if ok then ''output_configuration_send_succeeded''
       else ''output_configuration_send_failed'') []) v"
  have u: "mview u = mview v" and ru: "ready (fuel_of X) u" using assms(1) rd.call [OF assms(2) rv] by (simp_all add: u_def)
  note t = test_heads [OF assms(1) v] and p = mview_parts [OF u] and ok = mview_ok [OF u]
  have same: "mons u = mons w" "out_layout u = out_layout w" "m_enabled (mo u m) = m_enabled (mo w m)"
    "has_screen m u = has_screen m w"
    "m_asleep (mo u m) \<longleftrightarrow> m_asleep (mo w m) \<and> Some m \<notin> set (map ch_monitor heads)" for m
    using t ok p by simp_all
  have mu: "monitors_ok u" "\<not> in_updatemons u"
    using t ok p assms(4,5) by (simp_all add: layout_settled_def)
  obtain w' where w': "updatemons X env n u = Some w'" using updatemons_returns [OF assms(1-3) mu ru assms(7)] by blast
  have set: "layout_settled u w'" using updatemons_ok [OF assms(1,3) mu w'] by simp
  have "outputmgrtest X env n heads w = Some w'"
    using v w' by (simp add: outputmgrtest_def outputmgrapplyortest_def Let_def u_def)
  moreover have "if \<not> m_enabled (mo w m) \<and> m_asleep (mo w m) \<and> Some m \<in> set (map ch_monitor heads)
       then m \<notin> set (out_layout w') \<and> \<not> has_screen m w'
       else (m \<in> set (out_layout w') \<longleftrightarrow> m \<in> set (out_layout w)) \<and> (has_screen m w' \<longleftrightarrow> has_screen m w)"
    if "m \<in> set (mons w)" for m
    using set that assms(4) same unfolding layout_settled_def off_def rest_def by (auto split: if_splits)
  ultimately show ?thesis by blast
qed

lemma test_unplugs_only_sleepers_witness:
  "\<exists>w'. outputmgrtest mon_lib0 idle 3 [\<lparr>ch_monitor = Some 7, ch_enabled = True, ch_x = 0, ch_y = 0\<rparr>] (monitors_demo [6]) = Some w' \<and>
     has_screen 6 w'"
proof -
  have "layout_settled (monitors_demo [6]) (monitors_demo [6])"
    using monitors_demo_sel by (simp add: layout_settled_def off_def) (simp add: monitors_demo_def)
  then show ?thesis
    using test_unplugs_only_sleepers [OF idle_keeps idle_ready mon_lib0_fresh _ monitors_demo_sel(3) monitors_demo_ready,
        where n = 3 and heads = "[\<lparr>ch_monitor = Some 7, ch_enabled = True, ch_x = 0, ch_y = 0\<rparr>]" and ms1 = "[6]"]
    by (auto simp: monitors_demo_sel)
qed

text \<open>
  A monitor that the power manager switches off keeps its screen and its place in the layout,
  whether or not the output accepts.
\<close>

theorem power_off_keeps_screen:
  assumes "keeps env mview" and "fresh_objects X" and "monitors_ok w" and "\<not> in_updatemons w"
    and "m \<in> set (mons w)" and "has_screen m w"
    and "powermgrsetmode X env n (Some m) False w = Some w'"
  shows "m \<in> set (out_layout w') \<and> has_screen m w'"
proof -
  let ?w = "upd_monitor m (\<lambda>x. x\<lparr>gamma_lut_changed := True\<rparr>) w"
  define v where "v = call_env env (Native ''output_commit_state'' [LUser m]) ?w"
  define u where "u = upd_monitor m (\<lambda>x. x\<lparr>m_asleep := True\<rparr>)
    (if ml_commit X ?w m then upd_monitor m (\<lambda>x. x\<lparr>m_enabled := False\<rparr>) v else v)"
  have w': "updatemons X env n u = Some w'"
    using assms(7) unfolding powermgrsetmode_def Let_def u_def v_def option.case not_False_eq_True .
  have "mview v = mview w" using assms(1) by (simp add: v_def)
  note p = mview_parts [OF this]
  have q: "mons u = mons w" "in_updatemons u = in_updatemons w" "screens u = screens w" "out_layout u = out_layout w"
    "s_monitor (sc u s) = s_monitor (sc w s)" "s_valid (sc u s) = s_valid (sc w s)" "m_asleep (mo u m)" for s
    using p by (simp_all add: u_def upd_monitor_def)
  have "has_screen k u = has_screen k w" for k using q by (simp add: has_screen_def)
  moreover from this have "monitors_ok u" using assms(3) q by (simp add: monitors_ok_def)
  moreover have "m \<in> set (out_layout w)" using assms(3,5,6) by (simp add: monitors_ok_def)
  ultimately show ?thesis
    using updatemons_ok [OF assms(1,2) _ _ w'] assms(4-6) q by (cases "m_enabled (mo u m)") (auto simp: layout_settled_def rest_def)
qed

lemma power_off_keeps_screen_witness:
  "\<exists>w'. powermgrsetmode mon_lib0 idle 3 (Some 6) False (monitors_demo [6]) = Some w' \<and> has_screen 6 w'"
proof -
  have "powermgrsetmode mon_lib0 idle 3 (Some 6) False (monitors_demo [6]) \<noteq> None" by code_simp
  then obtain w' where "powermgrsetmode mon_lib0 idle 3 (Some 6) False (monitors_demo [6]) = Some w'" by blast
  then show ?thesis
    using power_off_keeps_screen [OF idle_keeps mon_lib0_fresh monitors_demo_sel(1,3) _ monitors_demo_sel(8)]
    by (auto simp: monitors_demo_sel)
qed

end
